(* ===== verification/Prelude.thy ===== *)
theory Prelude
  imports Main "HOL-Library.AList" "HOL-Library.Char_ord" "HOL-Library.List_Lexorder"
    "HOL-Library.Multiset"
begin

text \<open>
  What the components share.
  \<^item> Fixed-width Go integers: \<open>wrap64\<close> is the two's complement wrap-around of \<open>int64\<close> (and of
    \<open>int\<close> on the 64-bit targets the Makefile builds), \<open>inc64\<close> the wrap-around of a \<open>uint64\<close> counter,
    \<open>go_div\<close> and \<open>go_mod\<close> Go's division, which truncates towards zero.
  \<^item> Go maps as association lists (\<open>gomap\<close>): Go's \<open>range\<close> over a map visits the entries in an
    unspecified order, so a map that the code iterates over is a list with distinct keys and every
    theorem holds for each order of it.
  \<^item> The three places where the source repeats the same loop: grouping work by shard, removing
    adjacent duplicates of a sorted slice, and splitting a slice in fixed-size pieces.
  \<^item> The named collections the component theories fill: \<open>go_arith\<close> (arithmetic of the Go integers in
    range) and \<open>inv_intros\<close> (operations keep invariants).
\<close>

named_theorems go_arith \<open>machine arithmetic that stays in range\<close>
named_theorems inv_intros \<open>operations keep their component's invariant\<close>

section \<open>Machine integers\<close>

definition wrap64 :: "int \<Rightarrow> int" where
  "wrap64 x = (x + 2 ^ 63) mod 2 ^ 64 - 2 ^ 63"

definition in_int64 :: "int \<Rightarrow> bool" where
  "in_int64 x \<longleftrightarrow> - (2 ^ 63) \<le> x \<and> x < 2 ^ 63"

definition clamp64 :: "int \<Rightarrow> int" where
  "clamp64 x = (if x < - (2 ^ 63) then - (2 ^ 63) else if 2 ^ 63 \<le> x then 2 ^ 63 - 1 else x)"

definition go_div :: "int \<Rightarrow> int \<Rightarrow> int" where
  "go_div a b = wrap64 (sgn a * sgn b * (\<bar>a\<bar> div \<bar>b\<bar>))"

definition go_mod :: "int \<Rightarrow> int \<Rightarrow> int" where
  "go_mod a b = sgn a * (\<bar>a\<bar> mod \<bar>b\<bar>)"

definition inc64 :: "nat \<Rightarrow> nat" where
  "inc64 n = Suc n mod 2 ^ 64"

lemma wrap64_in: "in_int64 (wrap64 x)"
  unfolding wrap64_def in_int64_def
  using pos_mod_sign [of "2 ^ 64" "x + 2 ^ 63"] pos_mod_bound [of "2 ^ 64" "x + 2 ^ 63"] by simp

lemma wrap64_id [go_arith]: "in_int64 x \<Longrightarrow> wrap64 x = x"
  unfolding wrap64_def in_int64_def by simp

lemma wrap64_idI: "- (2 ^ 63) \<le> x \<Longrightarrow> x < 2 ^ 63 \<Longrightarrow> wrap64 x = x"
  by (rule wrap64_id) (simp add: in_int64_def)

lemma clamp64_in: "in_int64 (clamp64 x)"
  by (simp add: clamp64_def in_int64_def)

lemma clamp64_id [go_arith]: "in_int64 x \<Longrightarrow> clamp64 x = x"
  by (simp add: clamp64_def in_int64_def)

lemma go_div_nonneg:
  assumes "0 \<le> a" "0 < b" "a < 2 ^ 63"
  shows "go_div a b = a div b"
proof -
  have "a div b \<le> a" using assms by (metis div_by_1 int_one_le_iff_zero_less zdiv_mono2 zero_less_one)
  moreover have "0 \<le> a div b" using assms by (simp add: pos_imp_zdiv_nonneg_iff)
  ultimately have "wrap64 (a div b) = a div b" using assms by (intro wrap64_idI) auto
  moreover have "sgn a * sgn b * (\<bar>a\<bar> div \<bar>b\<bar>) = a div b"
    using assms by (cases "a = 0") auto
  ultimately show ?thesis by (simp add: go_div_def)
qed

lemma go_mod_nonneg: "0 \<le> a \<Longrightarrow> 0 < b \<Longrightarrow> go_mod a b = a mod b"
  by (cases "a = 0") (auto simp: go_mod_def)

lemma inc64_id [go_arith]: "Suc n < 2 ^ 64 \<Longrightarrow> inc64 n = Suc n"
  by (simp add: inc64_def)

section \<open>Go maps as association lists\<close>

type_synonym ('k, 'v) gomap = "('k \<times> 'v) list"

abbreviation mget :: "('k, 'v) gomap \<Rightarrow> 'k \<Rightarrow> 'v option" where
  "mget \<equiv> map_of"

abbreviation mput :: "'k \<Rightarrow> 'v \<Rightarrow> ('k, 'v) gomap \<Rightarrow> ('k, 'v) gomap" where
  "mput \<equiv> AList.update"

abbreviation mdel :: "'k \<Rightarrow> ('k, 'v) gomap \<Rightarrow> ('k, 'v) gomap" where
  "mdel \<equiv> AList.delete"

abbreviation mkeys :: "('k, 'v) gomap \<Rightarrow> 'k list" where
  "mkeys m \<equiv> map fst m"

definition wf_map :: "('k, 'v) gomap \<Rightarrow> bool" where
  "wf_map m \<longleftrightarrow> distinct (mkeys m)"

text \<open>A Go lookup in a map of pointers: the zero value (nil) for a missing key.\<close>

definition mptr :: "('k, 'v option) gomap \<Rightarrow> 'k \<Rightarrow> 'v option" where
  "mptr m k = (case mget m k of None \<Rightarrow> None | Some p \<Rightarrow> p)"

lemma wf_map_Nil [simp]: "wf_map []"
  by (simp add: wf_map_def)

lemma wf_map_put [simp, intro]: "wf_map m \<Longrightarrow> wf_map (mput k v m)"
  by (simp add: wf_map_def distinct_update)

lemma wf_map_del [simp, intro]: "wf_map m \<Longrightarrow> wf_map (mdel k m)"
  by (simp add: wf_map_def distinct_delete)

lemma mget_put [simp]: "mget (mput k v m) k' = (if k' = k then Some v else mget m k')"
  by (simp add: update_conv')

lemma mget_del [simp]: "mget (mdel k m) k' = (if k' = k then None else mget m k')"
  by (simp add: delete_conv')

lemma mget_None_iff: "mget m k = None \<longleftrightarrow> k \<notin> set (mkeys m)"
  by (force simp: map_of_eq_None_iff)

lemma mget_in: "mget m k = Some v \<Longrightarrow> k \<in> set (mkeys m)"
  by (force dest: map_of_SomeD)

lemma wf_map_in_iff: "wf_map m \<Longrightarrow> (k, v) \<in> set m \<longleftrightarrow> mget m k = Some v"
  by (simp add: wf_map_def)

lemma mkeys_put: "mkeys (mput k v m) = (if k \<in> set (mkeys m) then mkeys m else mkeys m @ [k])"
  by (simp add: update_keys)

lemma length_put: "length (mput k v m) = (if mget m k = None then Suc (length m) else length m)"
proof -
  have "length (mput k v m) = length (mkeys (mput k v m))" by simp
  also have "\<dots> = (if mget m k = None then Suc (length m) else length m)"
    by (simp only: mkeys_put mget_None_iff) simp
  finally show ?thesis .
qed

lemma length_del_absent: "mget m k = None \<Longrightarrow> mdel k m = m"
  by (simp add: mget_None_iff delete_notin_dom)

lemma length_del_present: "wf_map m \<Longrightarrow> mget m k = Some v \<Longrightarrow> Suc (length (mdel k m)) = length m"
proof (induction m)
  case Nil
  then show ?case by simp
next
  case (Cons p m)
  show ?case
  proof (cases "fst p = k")
    case True
    with Cons.prems(1) have "mget m k = None" by (auto simp: wf_map_def map_of_eq_None_iff)
    with True show ?thesis by (cases p) (simp add: length_del_absent)
  next
    case False
    with Cons show ?thesis by (cases p) (auto simp: wf_map_def)
  qed
qed

lemma length_wf_map: "wf_map m \<Longrightarrow> length m = card (dom (mget m))"
  by (metis distinct_card dom_map_of_conv_image_fst length_map set_map wf_map_def)

text \<open>What a map of lists holds in all.\<close>

definition bucket_entries :: "('k, 'a list) gomap \<Rightarrow> 'a multiset" where
  "bucket_entries m = mset (concat (map snd m))"

lemma bucket_entries_new: "mget m k = None \<Longrightarrow> bucket_entries (mput k es m) = bucket_entries m + mset es"
  by (induction m) (auto simp: bucket_entries_def split: if_splits)

lemma bucket_entries_put:
  "mget m k = Some es \<Longrightarrow> bucket_entries (mput k es' m) + mset es = bucket_entries m + mset es'"
  by (induction m) (auto simp: bucket_entries_def split: if_splits)

lemma bucket_entries_del:
  "wf_map m \<Longrightarrow> mget m k = Some es \<Longrightarrow> bucket_entries (mdel k m) + mset es = bucket_entries m"
proof (induction m)
  case (Cons p m)
  show ?case
  proof (cases "fst p = k")
    case True
    with Cons.prems have "es = snd p" by simp
    moreover have "mdel k m = m"
      using Cons.prems(1) True by (intro length_del_absent) (auto simp: wf_map_def mget_None_iff)
    ultimately show ?thesis using True by (cases p) (simp add: bucket_entries_def)
  next
    case False
    with Cons show ?thesis by (cases p) (auto simp: bucket_entries_def wf_map_def)
  qed
qed (simp add: bucket_entries_def)

lemma bucket_entries_in:
  "wf_map m \<Longrightarrow> e \<in># bucket_entries m \<longleftrightarrow> (\<exists>k es. mget m k = Some es \<and> e \<in> set es)"
  by (force simp: bucket_entries_def wf_map_in_iff [symmetric])

end
