(* ===== verification/Go_Time.thy ===== *)
theory Go_Time
  imports Prelude
begin

text \<open>
  Go's \<^verbatim>\<open>time\<close> package as far as the program uses it.  A \<open>time\<close> is the number of nanoseconds since
  1 January of year 1, so the zero \<^verbatim>\<open>time.Time\<close> is \<open>0\<close>; it holds wall readings only (the monotonic
  reading \<^verbatim>\<open>time.Now\<close> adds is not modelled).  A \<open>duration\<close> is an \<^verbatim>\<open>int64\<close> count of nanoseconds; its
  arithmetic wraps, \<open>time_Add\<close> saturates the seconds and \<open>time_Sub\<close> saturates the difference, as the
  package does.
\<close>

type_synonym time = int
type_synonym duration = int

definition Nanosecond :: duration where "Nanosecond = 1"
definition Millisecond :: duration where "Millisecond = 1000000"
definition Second :: duration where "Second = 1000000000"
definition Minute :: duration where "Minute = 60000000000"
definition Hour :: duration where "Hour = 3600000000000"

lemmas duration_units = Nanosecond_def Millisecond_def Second_def Minute_def Hour_def

definition unixToInternal :: int where "unixToInternal = 62135596800"

definition time_IsZero :: "time \<Rightarrow> bool" where
  "time_IsZero t \<longleftrightarrow> t = 0"

text \<open>\<^verbatim>\<open>time.Unix\<close> normalises the nanoseconds, then stores the seconds in an \<^verbatim>\<open>int64\<close>.\<close>

definition time_Unix :: "int \<Rightarrow> int \<Rightarrow> time" where
  "time_Unix sec nsec =
     wrap64 (sec + nsec div 1000000000 + unixToInternal) * 1000000000 + nsec mod 1000000000"

definition to_Unix :: "time \<Rightarrow> int" where
  "to_Unix t = wrap64 (t div 1000000000 - unixToInternal)"

definition to_UnixNano :: "time \<Rightarrow> int" where
  "to_UnixNano t = wrap64 ((t div 1000000000 - unixToInternal) * 1000000000 + t mod 1000000000)"

definition to_UnixMilli :: "time \<Rightarrow> int" where
  "to_UnixMilli t = wrap64 (to_Unix t * 1000 + (t mod 1000000000) div 1000000)"

definition time_Add :: "time \<Rightarrow> duration \<Rightarrow> time" where
  "time_Add t d =
     (let sec = (t + d) div 1000000000; nsec = (t + d) mod 1000000000;
          sec' = (if 2 ^ 63 \<le> sec then 2 ^ 63 - 1
                  else if sec < - (2 ^ 63) then - (2 ^ 63 - 1) else sec)
      in sec' * 1000000000 + nsec)"

definition time_Sub :: "time \<Rightarrow> time \<Rightarrow> duration" where
  "time_Sub t u = clamp64 (t - u)"

definition dmul :: "duration \<Rightarrow> duration \<Rightarrow> duration" where
  "dmul a b = wrap64 (a * b)"

definition dadd :: "duration \<Rightarrow> duration \<Rightarrow> duration" where
  "dadd a b = wrap64 (a + b)"

text \<open>Times whose seconds fit an \<^verbatim>\<open>int64\<close>: every value a \<^verbatim>\<open>time.Time\<close> can hold.\<close>

definition valid_time :: "time \<Rightarrow> bool" where
  "valid_time t \<longleftrightarrow> in_int64 (t div 1000000000)"

text \<open>Times far enough from both ends that adding a duration neither saturates nor wraps
  (about 146 billion years on either side).\<close>

definition sane_time :: "time \<Rightarrow> bool" where
  "sane_time t \<longleftrightarrow> - (2 ^ 62) * 1000000000 \<le> t \<and> t \<le> 2 ^ 62 * 1000000000"

lemma valid_time_Unix: "valid_time (time_Unix sec nsec)"
proof -
  have "time_Unix sec nsec div 1000000000 = wrap64 (sec + nsec div 1000000000 + unixToInternal)"
    by (simp add: time_Unix_def)
  then show ?thesis by (simp add: valid_time_def wrap64_in)
qed

lemma valid_time_Add: "valid_time (time_Add t d)"
  by (simp add: valid_time_def time_Add_def Let_def in_int64_def)

lemma time_Add_id:
  assumes "- (2 ^ 63) \<le> (t + d) div 1000000000" "(t + d) div 1000000000 < 2 ^ 63"
  shows "time_Add t d = t + d"
  using assms by (simp add: time_Add_def Let_def not_le not_less)

lemma time_Add_sane [go_arith]:
  assumes "sane_time t" "in_int64 d"
  shows "time_Add t d = t + d"
proof (rule time_Add_id)
  show "- (2 ^ 63) \<le> (t + d) div 1000000000" "(t + d) div 1000000000 < 2 ^ 63"
    using assms unfolding sane_time_def in_int64_def by simp_all linarith+
qed

lemma to_Unix_time_Unix:
  assumes "in_int64 sec" "0 \<le> nsec" "nsec < 1000000000"
  shows "to_Unix (time_Unix sec nsec) = sec"
proof -
  have "time_Unix sec nsec div 1000000000 = wrap64 (sec + unixToInternal)"
    using assms by (simp add: time_Unix_def)
  moreover have "wrap64 (wrap64 x - y) = wrap64 (x - y)" for x y
    unfolding wrap64_def by (simp add: algebra_simps mod_simps)
  ultimately show ?thesis using assms by (simp add: to_Unix_def wrap64_id)
qed

lemma time_Unix_nsec: "0 \<le> nsec \<Longrightarrow> nsec < 1000000000 \<Longrightarrow> time_Unix sec nsec mod 1000000000 = nsec"
  by (simp add: time_Unix_def)

text \<open>Within 146 billion years of the epoch, source clocks order the way their times do.\<close>

lemma time_Unix_sane:
  assumes "- (2 ^ 61) \<le> sec" "sec \<le> 2 ^ 61" "0 \<le> nsec" "nsec < 1000000000"
  shows "time_Unix sec nsec = (sec + unixToInternal) * 1000000000 + nsec"
    and "sane_time (time_Unix sec nsec)"
proof -
  have "wrap64 (sec + unixToInternal) = sec + unixToInternal"
    using assms by (intro wrap64_idI) (simp_all add: unixToInternal_def)
  then show eq: "time_Unix sec nsec = (sec + unixToInternal) * 1000000000 + nsec"
    using assms by (simp add: time_Unix_def)
  show "sane_time (time_Unix sec nsec)"
    unfolding eq using assms by (simp add: sane_time_def unixToInternal_def)
qed

end
