(* ===== verification/Value_State.thy ===== *)
theory Value_State
  imports Go_Time "HOL-Library.Word"
begin

text \<open>
  \<^verbatim>\<open>internal/cache/value_state.go\<close>: the state kept for one item, the publish policy its delay selects
  and the instants derived from its source timestamp.  A \<open>float64\<close> is its IEEE 754 bit pattern; the
  cache only stores it and asks whether it is finite.
\<close>

type_synonym float64 = "64 word"

definition f64_exponent :: "float64 \<Rightarrow> nat" where
  "f64_exponent w = unat (drop_bit 52 w) mod 2048"

definition f64_mantissa :: "float64 \<Rightarrow> nat" where
  "f64_mantissa w = unat w mod 2 ^ 52"

definition f64_IsNaN :: "float64 \<Rightarrow> bool" where
  "f64_IsNaN w \<longleftrightarrow> f64_exponent w = 2047 \<and> f64_mantissa w \<noteq> 0"

definition f64_IsInf :: "float64 \<Rightarrow> bool" where
  "f64_IsInf w \<longleftrightarrow> f64_exponent w = 2047 \<and> f64_mantissa w = 0"

definition longCycleThreshold :: duration where
  "longCycleThreshold = Minute"

datatype PublishPolicy = PublishSourceTimestamp | PublishCycleTimestamp

fun PublishPolicy_String :: "PublishPolicy \<Rightarrow> string" where
  "PublishPolicy_String PublishSourceTimestamp = ''source_timestamp''"
| "PublishPolicy_String PublishCycleTimestamp = ''cycle_timestamp''"

record ValueState =
  vs_ItemID :: string
  vs_Value :: float64
  vs_SourceTimestamp :: time
  vs_SourceNS :: int
  vs_LastFetchAt :: time
  vs_LastSuccessAt :: time
  vs_Delay :: duration
  vs_ExpireAt :: time
  vs_ConsecutiveMisses :: nat
  vs_MetadataVersion :: nat
  vs_ValueVersion :: nat
  vs_LastPublishedVersion :: nat
  vs_LastPublishedTimestamp :: time
  vs_PublishSlot :: nat
  vs_PublishPolicy :: PublishPolicy
  vs_Valid :: bool
  vs_scanSequence :: nat

definition PublishPolicyForDelay :: "duration \<Rightarrow> PublishPolicy" where
  "PublishPolicyForDelay delay =
     (if delay > longCycleThreshold then PublishCycleTimestamp else PublishSourceTimestamp)"

definition ValueExpireAt :: "time \<Rightarrow> duration \<Rightarrow> time" where
  "ValueExpireAt sourceTimestamp delay =
     (if PublishPolicyForDelay delay = PublishSourceTimestamp then
        (let maxAge = dmul 2 delay;
             maxAge = (if maxAge < dmul 90 Second then dmul 90 Second else maxAge)
         in time_Add sourceTimestamp maxAge)
      else
        (let grace = go_div delay 5;
             grace = (if grace < dmul 30 Second then dmul 30 Second else grace)
         in time_Add sourceTimestamp (dadd (dmul 2 delay) grace)))"

definition missInvalidAfter :: "time \<Rightarrow> duration \<Rightarrow> time" where
  "missInvalidAfter sourceTimestamp delay =
     (let grace = go_div delay 5;
          grace = (if grace < dmul 30 Second then dmul 30 Second else grace)
      in time_Add sourceTimestamp (dadd delay grace))"

definition sourceIsNewer :: "int \<Rightarrow> int \<Rightarrow> ValueState \<Rightarrow> bool" where
  "sourceIsNewer clock ns current \<longleftrightarrow>
     (let currentClock = to_Unix (vs_SourceTimestamp current) in
      clock > currentClock \<or> clock = currentClock \<and> ns > vs_SourceNS current)"

section \<open>What the instants are when nothing overflows\<close>

text \<open>\<open>sane_delay\<close> is every positive delay up to about 58 years; Zabbix itself allows a day.\<close>

definition sane_delay :: "duration \<Rightarrow> bool" where
  "sane_delay d \<longleftrightarrow> 0 < d \<and> d \<le> 2 ^ 61"

definition grace_for :: "duration \<Rightarrow> duration" where
  "grace_for d = max (d div 5) (30 * Second)"

lemma grace_eq: "sane_delay d \<Longrightarrow>
  (let grace = go_div d 5 in if grace < dmul 30 Second then dmul 30 Second else grace) = grace_for d"
  by (simp add: sane_delay_def grace_for_def go_div_nonneg dmul_def wrap64_def Second_def max_def Let_def)

lemma grace_bounds: "sane_delay d \<Longrightarrow> 30 * Second \<le> grace_for d \<and> grace_for d \<le> 2 ^ 61"
  using zdiv_mono2 [of d 1 5] by (auto simp add: sane_delay_def grace_for_def Second_def)

lemma ValueExpireAt_eq:
  assumes "sane_delay d" "sane_time t"
  shows "ValueExpireAt t d =
    t + (if d \<le> Minute then max (2 * d) (90 * Second) else 2 * d + grace_for d)"
proof -
  have two: "dmul 2 d = 2 * d" using assms(1)
    by (auto simp: dmul_def sane_delay_def intro!: wrap64_idI)
  have ninety: "dmul 90 Second = 90 * Second" by (simp add: dmul_def wrap64_def Second_def)
  have sum: "dadd (2 * d) (grace_for d) = 2 * d + grace_for d"
    using assms(1) grace_bounds [OF assms(1)]
    by (auto simp: dadd_def sane_delay_def Second_def intro!: wrap64_idI)
  have in1: "in_int64 (max (2 * d) (90 * Second))"
    using assms(1) by (auto simp: sane_delay_def in_int64_def Second_def)
  have in2: "in_int64 (2 * d + grace_for d)"
    using assms(1) grace_bounds [OF assms(1)] by (auto simp: sane_delay_def in_int64_def Second_def)
  have g: "(if go_div d 5 < dmul 30 Second then dmul 30 Second else go_div d 5) = grace_for d"
    using grace_eq [OF assms(1)] by (simp add: Let_def)
  show ?thesis
  proof (cases "d \<le> Minute")
    case True
    then have "ValueExpireAt t d = time_Add t (max (2 * d) (90 * Second))"
      by (simp add: ValueExpireAt_def PublishPolicyForDelay_def longCycleThreshold_def two ninety
          Let_def max_def not_less)
    with True assms(2) in1 show ?thesis by (simp add: time_Add_sane)
  next
    case False
    then have "ValueExpireAt t d = time_Add t (2 * d + grace_for d)"
      by (simp add: ValueExpireAt_def PublishPolicyForDelay_def longCycleThreshold_def two
          Let_def g sum)
    with False assms(2) in2 show ?thesis by (simp add: time_Add_sane)
  qed
qed

lemma missInvalidAfter_eq:
  assumes "sane_delay d" "sane_time t"
  shows "missInvalidAfter t d = t + d + grace_for d"
proof -
  have sum: "dadd d (grace_for d) = d + grace_for d"
    using assms(1) grace_bounds [OF assms(1)]
    by (auto simp: dadd_def sane_delay_def Second_def intro!: wrap64_idI)
  have "in_int64 (d + grace_for d)"
    using assms(1) grace_bounds [OF assms(1)] by (auto simp: sane_delay_def in_int64_def Second_def)
  moreover have "missInvalidAfter t d = time_Add t (d + grace_for d)"
    using grace_eq [OF assms(1)] by (simp add: missInvalidAfter_def Let_def sum)
  ultimately show ?thesis using assms(2) by (simp add: time_Add_sane)
qed

end
