(* ===== verification/Go_Lists.thy ===== *)
theory Go_Lists
  imports Prelude
begin

text \<open>
  Slice idioms of the Go code and of its standard library:
  \<^item> \<open>go_search\<close>: the binary search of \<^verbatim>\<open>sort.Search\<close>, with the law its callers use (on a predicate
    that once true stays true it returns the first index where it holds);
  \<^item> \<open>compact_adj\<close>: the in-place removal of adjacent duplicates that \<^verbatim>\<open>compactStrings\<close> and
    \<^verbatim>\<open>uniqueSorted\<close> perform after sorting;
  \<^item> \<open>chunks\<close>: cutting a slice in consecutive pieces of a fixed size;
  \<^item> \<open>bucketize\<close>: the grouping by shard index that every operation of the value cache starts with,
    and \<open>run_buckets\<close>, the loop that then visits the touched shards in ascending order.
\<close>

section \<open>sort.Search\<close>

function search_loop :: "(nat \<Rightarrow> bool) \<Rightarrow> nat \<Rightarrow> nat \<Rightarrow> nat" where
  "search_loop f i j =
     (if i < j then
        (let h = (i + j) div 2 in if \<not> f h then search_loop f (Suc h) j else search_loop f i h)
      else i)"
  by pat_completeness auto
termination
  by (relation "measure (\<lambda>(f, i, j). j - i)") auto

declare search_loop.simps [simp del]

definition go_search :: "nat \<Rightarrow> (nat \<Rightarrow> bool) \<Rightarrow> nat" where
  "go_search n f = search_loop f 0 n"

definition first_true :: "(nat \<Rightarrow> bool) \<Rightarrow> nat \<Rightarrow> nat \<Rightarrow> bool" where
  "first_true f n r \<longleftrightarrow> (\<forall>k < r. \<not> f k) \<and> (\<forall>k. r \<le> k \<longrightarrow> k < n \<longrightarrow> f k)"

lemma search_loop_spec:
  assumes mono: "\<And>a b. a \<le> b \<Longrightarrow> b < n \<Longrightarrow> f a \<Longrightarrow> f b"
    and "i \<le> j" and "j \<le> n"
    and "\<And>k. k < i \<Longrightarrow> \<not> f k" and "\<And>k. j \<le> k \<Longrightarrow> k < n \<Longrightarrow> f k"
  shows "search_loop f i j \<le> n \<and> first_true f n (search_loop f i j)"
  using assms
proof (induction f i j rule: search_loop.induct)
  case (1 f i j)
  show ?case
  proof (cases "i < j")
    case False
    then have "search_loop f i j = i" "i = j"
      using "1.prems"(2) search_loop.simps [of f i j] by auto
    with "1.prems"(3-5) show ?thesis unfolding first_true_def by simp
  next
    case True
    define h where "h = (i + j) div 2"
    have h: "i \<le> h" "h < j" using True by (auto simp: h_def)
    have unf: "search_loop f i j = (if \<not> f h then search_loop f (Suc h) j else search_loop f i h)"
      using True search_loop.simps [of f i j] unfolding h_def Let_def by simp
    show ?thesis
    proof (cases "f h")
      case True
      have hi: "\<And>k. h \<le> k \<Longrightarrow> k < n \<Longrightarrow> f k" using True "1.prems"(1) by blast
      have "h \<le> n" using h "1.prems"(3) by simp
      then have "search_loop f i h \<le> n \<and> first_true f n (search_loop f i h)"
        using "1.IH"(2) [OF \<open>i < j\<close> h_def] True "1.prems"(1,4) h(1) hi by blast
      with True show ?thesis unfolding unf by simp
    next
      case False
      have low: "\<not> f k" if "k < Suc h" for k
        using that h "1.prems"(1) [of k h] "1.prems"(3) False by auto
      have "Suc h \<le> j" using h by simp
      then have "search_loop f (Suc h) j \<le> n \<and> first_true f n (search_loop f (Suc h) j)"
        using "1.IH"(1) [OF \<open>i < j\<close> h_def] False "1.prems"(1,3,5) low by blast
      with False show ?thesis unfolding unf by simp
    qed
  qed
qed

lemma go_search_spec:
  assumes "\<And>a b. a \<le> b \<Longrightarrow> b < n \<Longrightarrow> f a \<Longrightarrow> f b"
  shows "go_search n f \<le> n" and "first_true f n (go_search n f)"
  using search_loop_spec [of n f 0 n] assms by (auto simp: go_search_def)

section \<open>Adjacent duplicates\<close>

definition compact_step :: "'a \<Rightarrow> 'a list \<Rightarrow> 'a list" where
  "compact_step v out = (if v = last out then out else out @ [v])"

definition compact_adj :: "'a list \<Rightarrow> 'a list" where
  "compact_adj vs = (case vs of [] \<Rightarrow> [] | v # rest \<Rightarrow> fold compact_step rest [v])"

lemma fold_compact_step:
  "out \<noteq> [] \<Longrightarrow> fold compact_step rest out = butlast out @ remdups_adj (last out # rest)"
proof (induction rest arbitrary: out)
  case Nil
  then show ?case by simp
next
  case (Cons v rest)
  then show ?case
    by (cases "v = last out") (auto simp: compact_step_def butlast_append)
qed

lemma compact_adj_eq: "compact_adj vs = remdups_adj vs"
  by (cases vs) (simp_all add: compact_adj_def fold_compact_step)

lemma set_compact_adj [simp]: "set (compact_adj vs) = set vs"
  by (simp add: compact_adj_eq)

lemma sorted_compact_adj: "sorted vs \<Longrightarrow> sorted (compact_adj vs)"
  by (simp add: compact_adj_eq)

lemma distinct_compact_sort: "distinct (compact_adj (sort (vs :: 'a :: linorder list)))"
proof -
  have "distinct (remdups_adj xs)" if "sorted xs" for xs :: "'a list"
    using that
  proof (induction xs rule: remdups_adj.induct)
    case (3 x y xs)
    then show ?case by (auto simp del: remdups_adj.simps simp: remdups_adj.simps(3))
  qed auto
  then show ?thesis by (simp add: compact_adj_eq)
qed

section \<open>Fixed-size pieces\<close>

function chunks :: "nat \<Rightarrow> 'a list \<Rightarrow> 'a list list" where
  "chunks n xs = (if xs = [] \<or> n = 0 then [] else take n xs # chunks n (drop n xs))"
  by pat_completeness auto
termination
  by (relation "measure (\<lambda>(n, xs). length xs)") auto

declare chunks.simps [simp del]

lemma chunks_Nil [simp]: "chunks n [] = []"
  by (simp add: chunks.simps)

lemma concat_chunks: "0 < n \<Longrightarrow> concat (chunks n xs) = xs"
proof (induction n xs rule: chunks.induct)
  case (1 n xs)
  then show ?case by (cases "xs = []") (simp_all add: chunks.simps [of n xs])
qed

lemma chunks_bounds: "ys \<in> set (chunks n xs) \<Longrightarrow> 0 < length ys \<and> length ys \<le> n"
proof (induction n xs rule: chunks.induct)
  case (1 n xs)
  then show ?case by (cases "xs = [] \<or> n = 0") (auto simp: chunks.simps [of n xs])
qed

lemma chunks_empty_iff: "0 < n \<Longrightarrow> chunks n xs = [] \<longleftrightarrow> xs = []"
  by (subst chunks.simps) simp

section \<open>Grouping by shard\<close>

fun bucket_step :: "('a \<Rightarrow> nat) \<Rightarrow> 'a \<Rightarrow> 'a list list \<times> nat list \<times> bool list
    \<Rightarrow> 'a list list \<times> nat list \<times> bool list" where
  "bucket_step key x (buckets, touched, touchedSet) =
     (let i = key x; buckets' = buckets[i := buckets ! i @ [x]] in
      if \<not> touchedSet ! i then (buckets', touched @ [i], touchedSet[i := True])
      else (buckets', touched, touchedSet))"

definition bucketize :: "('a \<Rightarrow> nat) \<Rightarrow> nat \<Rightarrow> 'a list \<Rightarrow> 'a list list \<times> nat list" where
  "bucketize key n xs =
     (case fold (bucket_step key) xs (replicate n [], [], replicate n False) of
        (buckets, touched, touchedSet) \<Rightarrow> (buckets, sort touched))"

lemma bucket_fold:
  assumes "\<And>x. x \<in> set xs \<Longrightarrow> key x < n" and "length bs = n" and "length ts = n"
    and "distinct td" and "\<And>i. i < n \<Longrightarrow> ts ! i \<longleftrightarrow> i \<in> set td" and "set td \<subseteq> {..<n}"
  shows "\<exists>bs' td' ts'. fold (bucket_step key) xs (bs, td, ts) = (bs', td', ts') \<and> length bs' = n
    \<and> (\<forall>i < n. bs' ! i = bs ! i @ filter (\<lambda>x. key x = i) xs)
    \<and> distinct td' \<and> set td' = set td \<union> key ` set xs"
  using assms
proof (induction xs arbitrary: bs td ts)
  case Nil
  then show ?case by simp
next
  case (Cons x xs)
  have kx: "key x < n" using Cons.prems(1) by simp
  show ?case
  proof (cases "ts ! key x")
    case True
    have "\<exists>bs' td' ts'. fold (bucket_step key) xs (bs[key x := bs ! key x @ [x]], td, ts) = (bs', td', ts')
        \<and> length bs' = n
        \<and> (\<forall>i < n. bs' ! i = bs[key x := bs ! key x @ [x]] ! i @ filter (\<lambda>x. key x = i) xs)
        \<and> distinct td' \<and> set td' = set td \<union> key ` set xs"
      using Cons.prems by (intro Cons.IH) auto
    moreover have "key x \<in> set td" using True kx Cons.prems(5) by simp
    ultimately show ?thesis using True kx Cons.prems(2)
      by (auto simp: Let_def nth_list_update insert_absorb)
  next
    case False
    have "\<exists>bs' td' ts'. fold (bucket_step key) xs
          (bs[key x := bs ! key x @ [x]], td @ [key x], ts[key x := True]) = (bs', td', ts')
        \<and> length bs' = n
        \<and> (\<forall>i < n. bs' ! i = bs[key x := bs ! key x @ [x]] ! i @ filter (\<lambda>x. key x = i) xs)
        \<and> distinct td' \<and> set td' = set (td @ [key x]) \<union> key ` set xs"
      using Cons.prems False kx by (intro Cons.IH) (auto simp: nth_list_update)
    then show ?thesis using False kx Cons.prems(2)
      by (auto simp: Let_def nth_list_update)
  qed
qed

lemma bucketize_spec:
  assumes "\<And>x. x \<in> set xs \<Longrightarrow> key x < n"
  shows "bucketize key n xs =
    (map (\<lambda>i. filter (\<lambda>x. key x = i) xs) [0..<n], filter (\<lambda>i. i \<in> key ` set xs) [0..<n])"
proof -
  obtain bs' td' ts' where f: "fold (bucket_step key) xs (replicate n [], [], replicate n False) = (bs', td', ts')"
    and len: "length bs' = n" and bs: "\<forall>i < n. bs' ! i = filter (\<lambda>x. key x = i) xs"
    and td: "distinct td'" "set td' = key ` set xs"
    using bucket_fold [of xs key n "replicate n []" "replicate n False" "[]"] assms by auto
  have "bs' = map (\<lambda>i. filter (\<lambda>x. key x = i) xs) [0..<n]"
    using len bs by (intro nth_equalityI) auto
  moreover have "sort td' = filter (\<lambda>i. i \<in> key ` set xs) [0..<n]"
  proof (rule sorted_distinct_set_unique)
    show "set (sort td') = set (filter (\<lambda>i. i \<in> key ` set xs) [0..<n])"
      using td assms by auto
  qed (use td in \<open>auto simp: sorted_wrt_filter\<close>)
  ultimately show ?thesis by (simp add: bucketize_def f)
qed

end
