(* ===== verification/Value_Shard.thy ===== *)
theory Value_Shard
  imports Value_State Go_Lists
begin

text \<open>
  \<^verbatim>\<open>internal/cache/shard.go\<close>: one independently locked partition of the value cache.  \<open>sh_values\<close>
  is the map of states, \<open>sh_order\<close> the insertion order that publish cursors walk; deleting an item
  leaves its order key behind as a tombstone until \<open>compactOrder\<close> drops it.  The invariant says that
  every state has its live key in the order, that sequence numbers grow strictly, and that the
  tombstone counter counts exactly the dead keys.
\<close>

record scanKey =
  sk_sequence :: nat
  sk_itemID :: string

record valueShard =
  sh_values :: "(string, ValueState) gomap"
  sh_order :: "scanKey list"
  sh_nextSequence :: nat
  sh_tombstones :: nat

definition newValueShard :: valueShard where
  "newValueShard = \<lparr>sh_values = [], sh_order = [], sh_nextSequence = 0, sh_tombstones = 0\<rparr>"

definition shard_insert :: "ValueState \<Rightarrow> valueShard \<Rightarrow> valueShard" where
  "shard_insert state s =
     (case mget (sh_values s) (vs_ItemID state) of
        Some current \<Rightarrow>
          s\<lparr>sh_values := mput (vs_ItemID state)
               (state\<lparr>vs_scanSequence := vs_scanSequence current\<rparr>) (sh_values s)\<rparr>
      | None \<Rightarrow>
          (let next = inc64 (sh_nextSequence s) in
           s\<lparr>sh_nextSequence := next,
             sh_order := sh_order s @ [\<lparr>sk_sequence = next, sk_itemID = vs_ItemID state\<rparr>],
             sh_values := mput (vs_ItemID state) (state\<lparr>vs_scanSequence := next\<rparr>) (sh_values s)\<rparr>))"

definition shard_delete :: "string \<Rightarrow> valueShard \<Rightarrow> bool \<times> valueShard" where
  "shard_delete itemID s =
     (if mget (sh_values s) itemID = None then (False, s)
      else (True, s\<lparr>sh_values := mdel itemID (sh_values s),
                    sh_tombstones := Suc (sh_tombstones s)\<rparr>))"

definition live_key :: "(string, ValueState) gomap \<Rightarrow> scanKey \<Rightarrow> bool" where
  "live_key values key \<longleftrightarrow>
     (case mget values (sk_itemID key) of
        None \<Rightarrow> False | Some state \<Rightarrow> vs_scanSequence state = sk_sequence key)"

definition compactOrder :: "valueShard \<Rightarrow> valueShard" where
  "compactOrder s =
     (if sh_tombstones s < 1024 \<or> sh_tombstones s * 2 < length (sh_order s) then s
      else s\<lparr>sh_order := filter (live_key (sh_values s)) (sh_order s), sh_tombstones := 0\<rparr>)"

definition firstSequenceAfter :: "valueShard \<Rightarrow> nat \<Rightarrow> nat" where
  "firstSequenceAfter s sequence =
     go_search (length (sh_order s)) (\<lambda>i. sk_sequence (sh_order s ! i) > sequence)"

section \<open>Invariant\<close>

definition order_inv :: "scanKey list \<Rightarrow> nat \<Rightarrow> bool" where
  "order_inv order next \<longleftrightarrow> sorted_wrt (\<lambda>a b. sk_sequence a < sk_sequence b) order
     \<and> (\<forall>key \<in> set order. 0 < sk_sequence key \<and> sk_sequence key \<le> next)"

definition values_inv :: "(string, ValueState) gomap \<Rightarrow> scanKey list \<Rightarrow> bool" where
  "values_inv values order \<longleftrightarrow> (\<forall>id st. mget values id = Some st \<longrightarrow>
     vs_ItemID st = id \<and> \<lparr>sk_sequence = vs_scanSequence st, sk_itemID = id\<rparr> \<in> set order)"

definition shard_inv :: "valueShard \<Rightarrow> bool" where
  "shard_inv s \<longleftrightarrow> wf_map (sh_values s) \<and> order_inv (sh_order s) (sh_nextSequence s)
     \<and> values_inv (sh_values s) (sh_order s)
     \<and> length (sh_order s) = length (sh_values s) + sh_tombstones s"

lemma shard_invD:
  assumes "shard_inv s"
  shows "wf_map (sh_values s)" and "order_inv (sh_order s) (sh_nextSequence s)"
    and "values_inv (sh_values s) (sh_order s)"
    and "length (sh_order s) = length (sh_values s) + sh_tombstones s"
  using assms by (auto simp: shard_inv_def)

lemma new_shard_inv [inv_intros]: "shard_inv newValueShard"
  by (simp add: shard_inv_def newValueShard_def order_inv_def values_inv_def)

lemma order_inv_snoc:
  "order_inv order next \<Longrightarrow> order_inv (order @ [\<lparr>sk_sequence = Suc next, sk_itemID = k\<rparr>]) (Suc next)"
  by (auto simp: order_inv_def sorted_wrt_append le_imp_less_Suc le_SucI)

lemma order_inv_filter: "order_inv order next \<Longrightarrow> order_inv (filter p order) next"
  by (auto simp: order_inv_def sorted_wrt_filter)

lemma order_inv_distinct: "order_inv order next \<Longrightarrow> distinct order"
  unfolding order_inv_def by (induction order) auto

lemma order_inv_seq_inj:
  assumes "order_inv order next" "a \<in> set order" "b \<in> set order" "sk_sequence a = sk_sequence b"
  shows "a = b"
proof (rule ccontr)
  assume "a \<noteq> b"
  obtain i where i: "i < length order" "order ! i = a" using assms(2) by (auto simp: in_set_conv_nth)
  obtain j where j: "j < length order" "order ! j = b" using assms(3) by (auto simp: in_set_conv_nth)
  from \<open>a \<noteq> b\<close> i j have "i < j \<or> j < i" by (metis nat_neq_iff)
  with i j assms(1,4) show False
    unfolding order_inv_def sorted_wrt_iff_nth_less by (metis less_irrefl)
qed

text \<open>The live keys are the values' own keys: one for each.\<close>

lemma live_keys_length:
  assumes "wf_map values" "order_inv order next" "values_inv values order"
  shows "length (filter (live_key values) order) = length values"
proof -
  let ?f = "\<lambda>(id, st). \<lparr>sk_sequence = vs_scanSequence st, sk_itemID = id\<rparr> :: scanKey"
  have inj: "inj_on ?f (set values)"
  proof (rule inj_onI)
    fix p q
    assume p: "p \<in> set values" and q: "q \<in> set values" and eq: "?f p = ?f q"
    obtain i1 s1 where p1: "p = (i1, s1)" by (cases p)
    obtain i2 s2 where q1: "q = (i2, s2)" by (cases q)
    have "i1 = i2" using eq by (simp add: p1 q1)
    moreover have "mget values i1 = Some s1" "mget values i2 = Some s2"
      using p q assms(1) by (auto simp: p1 q1 wf_map_in_iff)
    ultimately show "p = q" by (simp add: p1 q1)
  qed
  have "set (filter (live_key values) order) = ?f ` set values"
  proof (intro equalityI subsetI)
    fix key
    assume "key \<in> set (filter (live_key values) order)"
    then have "live_key values key" by simp
    then obtain st where st: "mget values (sk_itemID key) = Some st" "vs_scanSequence st = sk_sequence key"
      by (auto simp: live_key_def split: option.splits)
    then have "(sk_itemID key, st) \<in> set values" using assms(1) by (simp add: wf_map_in_iff)
    moreover have "key = ?f (sk_itemID key, st)" using st(2) by simp
    ultimately show "key \<in> ?f ` set values" by blast
  next
    fix key
    assume "key \<in> ?f ` set values"
    then obtain id st where "(id, st) \<in> set values" and key: "key = ?f (id, st)" by auto
    then have st: "mget values id = Some st" using assms(1) by (simp add: wf_map_in_iff)
    with assms(3) have "key \<in> set order" by (simp add: values_inv_def key)
    moreover have "live_key values key" using st by (simp add: live_key_def key)
    ultimately show "key \<in> set (filter (live_key values) order)" by simp
  qed
  moreover have "distinct (filter (live_key values) order)"
    using order_inv_distinct [OF assms(2)] by simp
  ultimately have "length (filter (live_key values) order) = card (?f ` set values)"
    by (metis distinct_card)
  also have "\<dots> = card (set values)" using inj by (rule card_image)
  also have "\<dots> = length values"
    using assms(1) by (metis wf_map_def distinct_card distinct_map)
  finally show ?thesis .
qed

section \<open>The operations keep the invariant and do what a map does\<close>

lemma shard_insert_inv [inv_intros]:
  assumes "shard_inv s" "Suc (sh_nextSequence s) < 2 ^ 64"
  shows "shard_inv (shard_insert st s)"
proof (cases "mget (sh_values s) (vs_ItemID st)")
  case None
  note i = shard_invD [OF assms(1)]
  have "order_inv (sh_order s @ [\<lparr>sk_sequence = Suc (sh_nextSequence s), sk_itemID = vs_ItemID st\<rparr>])
      (Suc (sh_nextSequence s))"
    using i(2) by (rule order_inv_snoc)
  moreover have "length (mput (vs_ItemID st) st' (sh_values s)) = Suc (length (sh_values s))" for st'
    using None by (simp add: length_put)
  ultimately show ?thesis
    using i None assms(2)
    by (auto simp: shard_insert_def shard_inv_def values_inv_def inc64_id Let_def)
next
  case (Some cur)
  note i = shard_invD [OF assms(1)]
  have "length (mput (vs_ItemID st) st' (sh_values s)) = length (sh_values s)" for st'
    using Some by (simp add: length_put)
  with i Some show ?thesis
    by (auto simp: shard_insert_def shard_inv_def values_inv_def)
qed

lemma shard_insert_next: "sh_nextSequence (shard_insert st s) \<le> Suc (sh_nextSequence s)"
  by (auto simp: shard_insert_def Let_def inc64_def split: option.splits)

lemma shard_delete_inv [inv_intros]:
  assumes "shard_inv s"
  shows "shard_inv (snd (shard_delete k s))"
proof (cases "mget (sh_values s) k")
  case None
  then show ?thesis using assms by (simp add: shard_delete_def)
next
  case (Some st)
  note i = shard_invD [OF assms]
  have "Suc (length (mdel k (sh_values s))) = length (sh_values s)"
    using length_del_present [OF i(1) Some] .
  then show ?thesis using i Some
    by (auto simp: shard_delete_def shard_inv_def values_inv_def)
qed

lemma shard_delete_next [simp]: "sh_nextSequence (snd (shard_delete k s)) = sh_nextSequence s"
  by (simp add: shard_delete_def)

lemma compactOrder_values [simp]: "sh_values (compactOrder s) = sh_values s"
  and compactOrder_next [simp]: "sh_nextSequence (compactOrder s) = sh_nextSequence s"
  by (simp_all add: compactOrder_def)

lemma compactOrder_inv [inv_intros]:
  assumes "shard_inv s"
  shows "shard_inv (compactOrder s)"
proof -
  note i = shard_invD [OF assms]
  have "order_inv (filter (live_key (sh_values s)) (sh_order s)) (sh_nextSequence s)"
    using i(2) by (rule order_inv_filter)
  moreover have "values_inv (sh_values s) (filter (live_key (sh_values s)) (sh_order s))"
    using i(3) by (auto simp: values_inv_def live_key_def)
  moreover note live_keys_length [OF i(1-3)]
  ultimately show ?thesis using i by (auto simp: compactOrder_def shard_inv_def)
qed

lemma shard_insert_lookup:
  "mget (sh_values (shard_insert st s)) k =
     (if k = vs_ItemID st
      then Some (st\<lparr>vs_scanSequence := (case mget (sh_values s) k of
             Some cur \<Rightarrow> vs_scanSequence cur | None \<Rightarrow> inc64 (sh_nextSequence s))\<rparr>)
      else mget (sh_values s) k)"
  by (auto simp: shard_insert_def Let_def split: option.splits)

lemma shard_delete_lookup:
  "mget (sh_values (snd (shard_delete k s))) k' = (if k' = k then None else mget (sh_values s) k')"
  by (auto simp: shard_delete_def)

text \<open>The binary search finds the first key a cursor has not passed.\<close>

lemma firstSequenceAfter_spec:
  assumes "order_inv (sh_order s) next"
  shows "drop (firstSequenceAfter s q) (sh_order s) = filter (\<lambda>key. sk_sequence key > q) (sh_order s)"
proof -
  let ?n = "firstSequenceAfter s q" and ?f = "\<lambda>i. sk_sequence (sh_order s ! i) > q"
  have mono: "?f b" if "a \<le> b" "b < length (sh_order s)" "?f a" for a b
    using that assms unfolding order_inv_def sorted_wrt_iff_nth_less
    by (metis le_neq_implies_less less_trans)
  note spec = go_search_spec [of "length (sh_order s)" ?f, OF mono]
  have n: "?n \<le> length (sh_order s)" and ft: "first_true ?f (length (sh_order s)) ?n"
    using spec unfolding firstSequenceAfter_def by auto
  have "filter (\<lambda>key. sk_sequence key > q) (take ?n (sh_order s)) = []"
    using ft n by (auto simp: first_true_def filter_empty_conv in_set_conv_nth)
  moreover have "filter (\<lambda>key. sk_sequence key > q) (drop ?n (sh_order s)) = drop ?n (sh_order s)"
    using ft n by (auto simp: first_true_def filter_id_conv in_set_conv_nth)
  ultimately show ?thesis
    by (metis append_take_drop_id filter_append self_append_conv2)
qed

end
