(* ===== verification/Go_Errors.thy ===== *)
theory Go_Errors
  imports Go_Time
begin

text \<open>
  The error values the modelled operations return, one constructor per place that builds one, with
  the data its message carries; \<open>None\<close> is Go's nil error.  \<open>errors_join\<close> is \<^verbatim>\<open>errors.Join\<close> (nil when
  every argument is nil), \<open>WrappedError\<close> is \<^verbatim>\<open>fmt.Errorf\<close> with \<^verbatim>\<open>%w\<close>, and \<open>error_is\<close> is \<^verbatim>\<open>errors.Is\<close> on this type.
  \<open>PanicError\<close> marks where the code would panic; the theorems show where that cannot happen.
\<close>

datatype go_error =
    ContextCanceled
  | ContextDeadlineExceeded
  | TransportError string
  | HTTPStatusError int
  | ResponseDecodeError string
  | ZabbixAPIError string
  | NoResultError string
  | ParseFloatError string
  | NotFiniteError
  | SourceNsError int
  | ErrPossiblyTruncated string nat nat
  | ErrMetadataChanged string nat
  | HistoryStatusError string
  | BeforeWatermarkError time time
  | InvalidConfig string
  | ArgumentError string
  | JoinedErrors "go_error list"
  | WrappedError string go_error
  | ErrPublisherNotStarted
  | ErrPublisherStopped
  | ErrPushQueueFull
  | PanicError string

definition errors_join :: "go_error option list \<Rightarrow> go_error option" where
  "errors_join es =
     (let nonnil = concat (map (\<lambda>e. case e of None \<Rightarrow> [] | Some x \<Rightarrow> [x]) es)
      in if nonnil = [] then None else Some (JoinedErrors nonnil))"

fun error_is :: "(go_error \<Rightarrow> bool) \<Rightarrow> go_error \<Rightarrow> bool" where
  "error_is p (JoinedErrors es) = (p (JoinedErrors es) \<or> (\<exists>e \<in> set es. error_is p e))"
| "error_is p (WrappedError m e) = (p (WrappedError m e) \<or> error_is p e)"
| "error_is p e = p e"

lemma errors_join_None_iff: "errors_join es = None \<longleftrightarrow> (\<forall>e \<in> set es. e = None)"
  by (auto simp: errors_join_def Let_def split: option.splits)

lemma errors_join_Nones [simp]: "errors_join [None, None] = None"
  by (simp add: errors_join_def)

end
