(* ===== verification/Zabbix_Types.thy ===== *)
theory Zabbix_Types
  imports Go_Errors
begin

text \<open>
  The data the Zabbix API client hands to the rest of the program (\<^verbatim>\<open>internal/zabbix/client.go\<close> and
  \<^verbatim>\<open>history.go\<close>): host, interface and item definitions, history records, queries and batch results.
  A host's \<open>Inventory\<close> is the decoded JSON value, kept as a tree of \<open>json\<close>.
\<close>

datatype json =
    JNull
  | JBool bool
  | JNumber string
  | JString string
  | JArray "json list"
  | JObject "(string \<times> json) list"

record Item =
  it_ItemID :: string
  it_HostID :: string
  it_Key :: string
  it_Name :: string
  it_Description :: string
  it_ValueType :: string
  it_Delay :: string
  it_Status :: string
  it_State :: string

record Interface =
  if_InterfaceID :: string
  if_IP :: string
  if_DNS :: string
  if_Port :: string
  if_Type :: string
  if_Main :: string
  if_UseIP :: string
  if_Bulk :: string

record Host =
  ho_HostID :: string
  ho_Host :: string
  ho_Name :: string
  ho_Interfaces :: "Interface list"
  ho_Inventory :: json

record HostInventory =
  inv_Type :: string
  inv_TypeFull :: string
  inv_Name :: string
  inv_Alias :: string
  inv_OS :: string
  inv_OSShort :: string
  inv_OSFull :: string
  inv_SerialNumber :: string
  inv_Model :: string
  inv_Vendor :: string
  inv_Hardware :: string
  inv_Software :: string
  inv_SoftwareApp :: string
  inv_Contact :: string
  inv_Location :: string
  inv_LocationLat :: string
  inv_LocationLon :: string
  inv_URL :: string
  inv_Description :: string
  inv_Networks :: string
  inv_Notes :: string
  inv_MACAddress :: string
  inv_CPU :: string
  inv_CPUCores :: int
  inv_Memory :: string

record HistoryItem =
  hi_ItemID :: string
  hi_Clock :: int
  hi_Value :: string
  hi_NS :: int

record HistoryQuery =
  hq_GroupID :: string
  hq_ItemIDs :: "string list"
  hq_ValueType :: int
  hq_TimeFrom :: time
  hq_TimeTill :: time
  hq_Limit :: int

datatype BatchStatus =
  BatchSuccess | BatchEmpty | BatchPossiblyTruncated | BatchAPIError | BatchDecodeError

fun BatchStatus_String :: "BatchStatus \<Rightarrow> string" where
  "BatchStatus_String BatchSuccess = ''success''"
| "BatchStatus_String BatchEmpty = ''empty''"
| "BatchStatus_String BatchPossiblyTruncated = ''possibly_truncated''"
| "BatchStatus_String BatchAPIError = ''api_error''"
| "BatchStatus_String BatchDecodeError = ''decode_error''"

text \<open>\<open>br_Latest\<close> is \<open>None\<close> for Go's nil map; a present map is a list in the order its \<^verbatim>\<open>range\<close>
  happens to visit it.\<close>

record BatchResult =
  br_Query :: HistoryQuery
  br_Status :: BatchStatus
  br_Records :: "HistoryItem list"
  br_Latest :: "(string, HistoryItem) gomap option"
  br_Returned :: int
  br_LimitHit :: bool
  br_StartedAt :: time
  br_FinishedAt :: time
  br_Err :: "go_error option"

end
