(* ===== verification/Metadata_Types.thy ===== *)
theory Metadata_Types
  imports Zabbix_Types
begin

text \<open>
  \<^verbatim>\<open>internal/metadata/types.go\<close>: the immutable, value-free definitions of hosts, items and collection
  groups and the snapshot that publishes them together.  Pointers are options (\<open>None\<close> is nil),
  \<open>Label\<close> is the pair \<^verbatim>\<open>prompb.Label\<close> of the Remote Write protocol.
\<close>

record Label =
  lb_Name :: string
  lb_Value :: string

datatype DelayParseStatus =
    DelayParsed
  | DelayFallbackMissing
  | DelayFallbackInvalid
  | DelayFallbackFlexible
  | DelayFallbackScheduled
  | DelayFallbackMacro

record HostMetadata =
  hm_HostID :: string
  hm_HostName :: string
  hm_DisplayName :: string
  hm_HostIP :: string
  hm_Inventory :: "HostInventory option"
  hm_InventoryFields :: "(string, string) gomap"
  hm_Labels :: "Label list"
  hm_RefreshedAt :: time
  hm_Version :: nat

record ItemMetadata =
  im_ItemID :: string
  im_HostID :: string
  im_Key :: string
  im_Name :: string
  im_ValueType :: string
  im_RawDelay :: string
  im_Delay :: duration
  im_DelayParseState :: DelayParseStatus
  im_Status :: string
  im_State :: string
  im_Enabled :: bool
  im_MetricName :: string
  im_Labels :: "Label list"
  im_RefreshedAt :: time
  im_Version :: nat

record CollectionGroup =
  cg_ID :: string
  cg_HostID :: string
  cg_ValueType :: string
  cg_Delay :: duration
  cg_ItemIDs :: "string list"
  cg_Version :: nat

record MetadataSnapshot =
  sn_Version :: nat
  sn_CreatedAt :: time
  sn_Hosts :: "(string, HostMetadata option) gomap"
  sn_HostIDs :: "string list"
  sn_Items :: "(string, ItemMetadata option) gomap"
  sn_HostItems :: "(string, string list) gomap"
  sn_Groups :: "(string, CollectionGroup option) gomap"
  sn_ItemGroups :: "(string, string) gomap"

record MetadataDiff =
  df_OldVersion :: nat
  df_NewVersion :: nat
  df_AddedHosts :: "string list"
  df_RemovedHosts :: "string list"
  df_ChangedHosts :: "string list"
  df_AddedItems :: "string list"
  df_RemovedItems :: "string list"
  df_ChangedItems :: "string list"
  df_AddedGroups :: "string list"
  df_RemovedGroups :: "string list"
  df_ChangedGroups :: "string list"

end
