(* ===== verification/Cache_Types.thy ===== *)
theory Cache_Types
  imports Value_Shard Metadata_Types
begin

text \<open>
  \<^verbatim>\<open>internal/cache/value_cache.go\<close>, the data: the cache, its configuration, and the arguments and
  results of its operations.  The series fingerprint (xxhash, a library) is the parameter \<open>fp\<close> of every
  operation that shards or slots an item.  Counters of results are natural numbers; \<open>vc_entries\<close> is
  the \<^verbatim>\<open>atomic.Int64\<close>; metric updates are left out.
\<close>

record ValueCache =
  vc_shards :: "valueShard list"
  vc_shardMask :: "64 word"
  vc_publishSlots :: nat
  vc_missThreshold :: nat
  vc_hasRegistrar :: bool
  vc_nextValueVersion :: nat
  vc_entries :: int

record ValueCacheConfig =
  cc_ShardCount :: int
  cc_PublishSlots :: int
  cc_InitialCapacity :: int
  cc_MissThreshold :: nat
  cc_hasRegistrar :: bool

datatype DeleteReason =
  DeleteMetadataRemoved | DeleteMetadataChanged | DeleteExpired | DeleteManual

fun DeleteReason_String :: "DeleteReason \<Rightarrow> string" where
  "DeleteReason_String DeleteMetadataRemoved = ''metadata_removed''"
| "DeleteReason_String DeleteMetadataChanged = ''metadata_changed''"
| "DeleteReason_String DeleteExpired = ''expired''"
| "DeleteReason_String DeleteManual = ''manual''"

record ApplyResult =
  ar_Status :: BatchStatus
  ar_Created :: nat
  ar_Updated :: nat
  ar_Unchanged :: nat
  ar_Rejected :: nat
  ar_Skipped :: nat
  ar_Stale :: nat
  ar_MissItemIDs :: "string list"
  ar_Errors :: "(string \<times> go_error) list"
  ar_MetadataVersion :: nat

record MissResult =
  mr_Marked :: nat
  mr_Invalidated :: nat
  mr_NotFound :: nat

record DeleteResult =
  dr_Reason :: DeleteReason
  dr_Deleted :: nat
  dr_Stale :: nat
  dr_NotFound :: nat

record VersionedItem =
  vi_ItemID :: string
  vi_ValueVersion :: nat

record ExpiryEntry =
  ee_ItemID :: string
  ee_ValueVersion :: nat
  ee_ExpireAt :: time

record PublishCursor =
  pc_Shard :: nat
  pc_Sequence :: nat

record PublishValue =
  pv_ItemID :: string
  pv_Value :: float64
  pv_Timestamp :: time
  pv_SourceTimestamp :: time
  pv_SourceNS :: int
  pv_MetadataVersion :: nat
  pv_ValueVersion :: nat
  pv_PublishSlot :: nat
  pv_PublishPolicy :: PublishPolicy

record PublishPage =
  pp_Values :: "PublishValue list"
  pp_Next :: PublishCursor
  pp_Done :: bool

record PublishAck =
  pa_ItemID :: string
  pa_ValueVersion :: nat
  pa_PublishedTimestamp :: time

record AckResult =
  ak_Applied :: nat
  ak_Stale :: nat
  ak_NotFound :: nat

record ValueCacheStats =
  st_Entries :: nat
  st_Valid :: nat
  st_Fresh :: nat

unbundle bit_operations_syntax

definition NewValueCache :: "ValueCacheConfig \<Rightarrow> go_error + ValueCache" where
  "NewValueCache config =
     (let shardCount = (if cc_ShardCount config = 0 then 256 else cc_ShardCount config);
          publishSlots = (if cc_PublishSlots config = 0 then 12 else cc_PublishSlots config);
          missThreshold = (if cc_MissThreshold config = 0 then 2 else cc_MissThreshold config) in
      if shardCount < 64 \<or> shardCount > 256 \<or> shardCount AND (shardCount - 1) \<noteq> 0
      then Inl (InvalidConfig ''value cache shard count must be a power of two'')
      else if publishSlots < 1 \<or> publishSlots > 65535
      then Inl (InvalidConfig ''publish slots out of range'')
      else if cc_InitialCapacity config < 0
      then Inl (InvalidConfig ''initial capacity must not be negative'')
      else Inr \<lparr>vc_shards = replicate (nat shardCount) newValueShard,
                vc_shardMask = of_int (shardCount - 1),
                vc_publishSlots = nat publishSlots,
                vc_missThreshold = missThreshold,
                vc_hasRegistrar = cc_hasRegistrar config,
                vc_nextValueVersion = 0,
                vc_entries = 0\<rparr>)"

definition shardIndex :: "(string \<Rightarrow> 64 word) \<Rightarrow> ValueCache \<Rightarrow> string \<Rightarrow> nat" where
  "shardIndex fp c itemID = unat (fp itemID AND vc_shardMask c)"

definition publishSlot :: "(string \<Rightarrow> 64 word) \<Rightarrow> ValueCache \<Rightarrow> string \<Rightarrow> nat" where
  "publishSlot fp c itemID = unat (fp itemID) mod vc_publishSlots c mod 65536"

definition Load :: "(string \<Rightarrow> 64 word) \<Rightarrow> ValueCache \<Rightarrow> string \<Rightarrow> ValueState option" where
  "Load fp c itemID = mget (sh_values (vc_shards c ! shardIndex fp c itemID)) itemID"

definition Len :: "ValueCache \<Rightarrow> int" where
  "Len c = vc_entries c"

definition stats_step :: "time \<Rightarrow> string \<times> ValueState \<Rightarrow> ValueCacheStats \<Rightarrow> ValueCacheStats" where
  "stats_step now entry stats =
     (if \<not> vs_Valid (snd entry) then stats
      else let stats = stats\<lparr>st_Valid := Suc (st_Valid stats)\<rparr> in
           if now < vs_ExpireAt (snd entry) then stats\<lparr>st_Fresh := Suc (st_Fresh stats)\<rparr> else stats)"

definition Stats :: "time \<Rightarrow> ValueCache \<Rightarrow> time \<Rightarrow> ValueCacheStats" where
  "Stats timeNow c now = fold (\<lambda>shard stats.
       fold (stats_step (if time_IsZero now then timeNow else now)) (sh_values shard)
         (stats\<lparr>st_Entries := st_Entries stats + length (sh_values shard)\<rparr>))
     (vc_shards c) \<lparr>st_Entries = 0, st_Valid = 0, st_Fresh = 0\<rparr>"

text \<open>The loop every writing operation runs: group by shard, then visit the touched shards in
  ascending order, doing each shard's work under its lock.\<close>

definition run_shards :: "('a \<Rightarrow> valueShard \<times> 'r \<Rightarrow> valueShard \<times> 'r) \<Rightarrow> (valueShard \<Rightarrow> valueShard)
    \<Rightarrow> ('a \<Rightarrow> nat) \<Rightarrow> 'a list \<Rightarrow> valueShard list \<times> 'r \<Rightarrow> valueShard list \<times> 'r" where
  "run_shards stp fin key xs st =
     (case bucketize key (length (fst st)) xs of (buckets, touched) \<Rightarrow>
        fold (\<lambda>i (shards, r).
            case fold stp (buckets ! i) (shards ! i, r) of (s, r') \<Rightarrow> (shards[i := fin s], r'))
          touched st)"

end
