(* ===== verification/Zabbix_History.thy ===== *)
theory Zabbix_History
  imports Zabbix_Types
begin

text \<open>
  \<^verbatim>\<open>internal/zabbix/history.go\<close>: reducing a response to the latest point of each item, and the
  classification of one \<^verbatim>\<open>history.get\<close> call.  The HTTP exchange and the JSON decoding are the reply
  \<open>history_reply\<close>: what \<^verbatim>\<open>doRequest\<close> and \<^verbatim>\<open>json.Unmarshal\<close> gave.
\<close>

definition reduce_step :: "HistoryItem \<Rightarrow> (string, HistoryItem) gomap \<Rightarrow> (string, HistoryItem) gomap" where
  "reduce_step record latest =
     (case mget latest (hi_ItemID record) of
        None \<Rightarrow> mput (hi_ItemID record) record latest
      | Some current \<Rightarrow>
          (if hi_Clock record > hi_Clock current \<or>
              hi_Clock record = hi_Clock current \<and> hi_NS record > hi_NS current
           then mput (hi_ItemID record) record latest else latest))"

definition ReduceLatest :: "HistoryItem list \<Rightarrow> (string, HistoryItem) gomap" where
  "ReduceLatest records = fold reduce_step records []"

datatype history_reply =
    ReplyError go_error
  | ReplyNil
  | ReplyUndecodable string
  | ReplyRecords "HistoryItem list"

fun is_decode_error :: "go_error \<Rightarrow> bool" where
  "is_decode_error (ResponseDecodeError m) = True"
| "is_decode_error e = False"

definition QueryHistoryBatch ::
  "(HistoryQuery \<Rightarrow> history_reply) \<Rightarrow> time \<Rightarrow> time \<Rightarrow> HistoryQuery \<Rightarrow> BatchResult" where
  "QueryHistoryBatch doRequest started finished query =
     (let batch = \<lparr>br_Query = query, br_Status = BatchSuccess, br_Records = [], br_Latest = None,
                   br_Returned = 0, br_LimitHit = False, br_StartedAt = started,
                   br_FinishedAt = finished, br_Err = None\<rparr> in
      case doRequest query of
        ReplyError err \<Rightarrow>
          batch\<lparr>br_Status := (if error_is is_decode_error err then BatchDecodeError else BatchAPIError),
                br_Err := Some err\<rparr>
      | ReplyNil \<Rightarrow>
          batch\<lparr>br_Status := BatchDecodeError, br_Err := Some (NoResultError ''history.get'')\<rparr>
      | ReplyUndecodable m \<Rightarrow>
          batch\<lparr>br_Status := BatchDecodeError, br_Err := Some (ResponseDecodeError m)\<rparr>
      | ReplyRecords records \<Rightarrow>
          (let returned = int (length records);
               limitHit = (hq_Limit query > 0 \<and> returned \<ge> hq_Limit query) in
           batch\<lparr>br_Records := records, br_Returned := returned,
                 br_Latest := Some (ReduceLatest records), br_LimitHit := limitHit,
                 br_Status := (if limitHit then BatchPossiblyTruncated
                               else if returned = 0 then BatchEmpty else BatchSuccess)\<rparr>))"

section \<open>The reduction keeps the latest point of every item\<close>

text \<open>The order the reduction maximises: source clock first, nanoseconds second.\<close>

definition point_le :: "HistoryItem \<Rightarrow> HistoryItem \<Rightarrow> bool" where
  "point_le a b \<longleftrightarrow> hi_Clock a < hi_Clock b \<or> hi_Clock a = hi_Clock b \<and> hi_NS a \<le> hi_NS b"

lemma point_le_refl [simp]: "point_le a a"
  by (simp add: point_le_def)

lemma point_le_trans: "point_le a b \<Longrightarrow> point_le b c \<Longrightarrow> point_le a c"
  by (auto simp: point_le_def)

lemma point_le_total: "point_le a b \<or> point_le b a"
  by (auto simp: point_le_def)

lemma wf_reduce_step: "wf_map m \<Longrightarrow> wf_map (reduce_step r m)"
  by (simp add: reduce_step_def split: option.splits)

definition is_latest :: "HistoryItem list \<Rightarrow> string \<Rightarrow> HistoryItem \<Rightarrow> bool" where
  "is_latest rs k r \<longleftrightarrow> r \<in> set rs \<and> hi_ItemID r = k \<and>
     (\<forall>r' \<in> set rs. hi_ItemID r' = k \<longrightarrow> point_le r' r)"

definition latest_of :: "HistoryItem list \<Rightarrow> (string, HistoryItem) gomap \<Rightarrow> bool" where
  "latest_of rs m \<longleftrightarrow> wf_map m \<and>
     (\<forall>k. case mget m k of None \<Rightarrow> k \<notin> hi_ItemID ` set rs | Some r \<Rightarrow> is_latest rs k r)"

lemma is_latest_snoc_other: "is_latest rs k c \<Longrightarrow> hi_ItemID r \<noteq> k \<or> point_le r c \<Longrightarrow> is_latest (rs @ [r]) k c"
  by (auto simp: is_latest_def)

lemma is_latest_snoc_self:
  "(\<forall>r' \<in> set rs. hi_ItemID r' = hi_ItemID r \<longrightarrow> point_le r' r) \<Longrightarrow> is_latest (rs @ [r]) (hi_ItemID r) r"
  by (auto simp: is_latest_def)

lemma latest_ofD:
  assumes "latest_of rs m"
  shows "wf_map m" and "mget m k = None \<Longrightarrow> k \<notin> hi_ItemID ` set rs"
    and "mget m k = Some c \<Longrightarrow> is_latest rs k c"
proof -
  have k: "case mget m k of None \<Rightarrow> k \<notin> hi_ItemID ` set rs | Some r \<Rightarrow> is_latest rs k r"
    using assms unfolding latest_of_def by blast
  show "wf_map m" using assms by (simp add: latest_of_def)
  show "mget m k = None \<Longrightarrow> k \<notin> hi_ItemID ` set rs" using k by simp
  show "mget m k = Some c \<Longrightarrow> is_latest rs k c" using k by simp
qed

lemma latest_of_step:
  assumes "latest_of rs m"
  shows "latest_of (rs @ [r]) (reduce_step r m)"
proof -
  note m = latest_ofD [OF assms]
  have others: "case mget m k of None \<Rightarrow> k \<notin> hi_ItemID ` set (rs @ [r]) | Some c \<Rightarrow> is_latest (rs @ [r]) k c"
    if "k \<noteq> hi_ItemID r" for k
    using m(2,3) [of k] that by (auto split: option.splits intro: is_latest_snoc_other)
  have self: "case mget (reduce_step r m) (hi_ItemID r) of None \<Rightarrow> False
      | Some c \<Rightarrow> is_latest (rs @ [r]) (hi_ItemID r) c"
  proof (cases "mget m (hi_ItemID r)")
    case None
    from m(2) [OF None] have "is_latest (rs @ [r]) (hi_ItemID r) r"
      by (intro is_latest_snoc_self) (metis imageI)
    with None show ?thesis by (simp add: reduce_step_def)
  next
    case (Some c)
    note c = m(3) [OF Some]
    show ?thesis
    proof (cases "hi_Clock r > hi_Clock c \<or> hi_Clock r = hi_Clock c \<and> hi_NS r > hi_NS c")
      case True
      then have "point_le c r" by (auto simp: point_le_def)
      with c have "is_latest (rs @ [r]) (hi_ItemID r) r"
        by (intro is_latest_snoc_self) (auto simp: is_latest_def intro: point_le_trans)
      with True Some show ?thesis by (auto simp: reduce_step_def)
    next
      case False
      then have "point_le r c" by (auto simp: point_le_def)
      with c have "is_latest (rs @ [r]) (hi_ItemID r) c" by (intro is_latest_snoc_other) auto
      with False Some show ?thesis by (auto simp: reduce_step_def)
    qed
  qed
  have frame: "mget (reduce_step r m) k = mget m k" if "k \<noteq> hi_ItemID r" for k
    using that by (simp add: reduce_step_def split: option.splits)
  show ?thesis unfolding latest_of_def
  proof (intro conjI allI)
    show "wf_map (reduce_step r m)" using m(1) by (rule wf_reduce_step)
    show "case mget (reduce_step r m) k of None \<Rightarrow> k \<notin> hi_ItemID ` set (rs @ [r])
      | Some c \<Rightarrow> is_latest (rs @ [r]) k c" for k
      using others [of k] self frame [of k] by (cases "k = hi_ItemID r") (auto split: option.splits)
  qed
qed

lemma ReduceLatest_latest_of: "latest_of records (ReduceLatest records)"
proof -
  have "latest_of (ds @ rs) (fold reduce_step rs m)" if "latest_of ds m" for ds rs m
    using that
  proof (induction rs arbitrary: ds m)
    case (Cons r rs)
    from Cons.IH [OF latest_of_step [OF Cons.prems]] show ?case by simp
  qed simp
  from this [of "[]" "[]" records] show ?thesis
    by (simp add: ReduceLatest_def latest_of_def)
qed

lemma wf_ReduceLatest [simp]: "wf_map (ReduceLatest records)"
  using ReduceLatest_latest_of by (auto simp: latest_of_def)

lemma ReduceLatest_None_iff: "mget (ReduceLatest records) k = None \<longleftrightarrow> k \<notin> hi_ItemID ` set records"
proof (cases "mget (ReduceLatest records) k")
  case None
  with latest_ofD(2) [OF ReduceLatest_latest_of None] show ?thesis by simp
next
  case (Some r)
  with latest_ofD(3) [OF ReduceLatest_latest_of Some] show ?thesis by (auto simp: is_latest_def)
qed

end
