(* ===== verification/Value_Cache.thy ===== *)
theory Value_Cache
  imports Cache_Types Zabbix_History
begin

text \<open>
  \<^verbatim>\<open>internal/cache/value_cache.go\<close>, the writing operations.  Each is the code's loop over the touched
  shards (\<open>run_shards\<close>) with the code's critical section for one item as its step.  Parameters:
  \<open>fp\<close> is the fingerprint, \<open>parseFloat\<close> is \<^verbatim>\<open>strconv.ParseFloat\<close>, and \<open>source\<close> the metadata source: \<open>None\<close>
  when none is configured, otherwise \<open>f i\<close> is what the \<open>i\<close>-th call of \<^verbatim>\<open>Snapshot()\<close> within the
  operation returns, so a theorem over all \<open>f\<close> covers every interleaving with metadata refreshes.
\<close>

type_synonym snapshot_source = "(nat \<Rightarrow> MetadataSnapshot option) option"

definition metadataVersionCurrent :: "snapshot_source \<Rightarrow> nat \<Rightarrow> string \<Rightarrow> nat \<Rightarrow> bool" where
  "metadataVersionCurrent source call itemID version =
     (case source of
        None \<Rightarrow> True
      | Some f \<Rightarrow>
          (case f call of
             None \<Rightarrow> False
           | Some snapshot \<Rightarrow>
               (case mptr (sn_Items snapshot) itemID of
                  None \<Rightarrow> False | Some item \<Rightarrow> im_Version item = version)))"

definition next_call :: "snapshot_source \<Rightarrow> nat \<Rightarrow> nat" where
  "next_call source call = (if source = None then call else Suc call)"

section \<open>ApplyBatch\<close>

record pendingValue =
  pd_itemID :: string
  pd_value :: float64
  pd_clock :: int
  pd_ns :: int
  pd_delay :: duration
  pd_metadataVersion :: nat
  pd_fetchedAt :: time

datatype applyOutcome = OutcomeCreated | OutcomeUpdated | OutcomeUnchanged

text \<open>The local variables of \<^verbatim>\<open>ApplyBatch\<close> that its loops write.\<close>

record ApplyRun =
  rn_result :: ApplyResult
  rn_call :: nat
  rn_staleItems :: "string list"
  rn_protected :: "string list"
  rn_outcomes :: "(string, applyOutcome) gomap"
  rn_expiry :: "ExpiryEntry list"
  rn_nextVersion :: nat
  rn_entries :: int

definition newApplyResult :: "BatchStatus \<Rightarrow> MetadataSnapshot option \<Rightarrow> ApplyResult" where
  "newApplyResult status snapshot =
     \<lparr>ar_Status = status, ar_Created = 0, ar_Updated = 0, ar_Unchanged = 0, ar_Rejected = 0,
      ar_Skipped = 0, ar_Stale = 0, ar_MissItemIDs = [], ar_Errors = [],
      ar_MetadataVersion = (case snapshot of None \<Rightarrow> 0 | Some sn \<Rightarrow> sn_Version sn)\<rparr>"

definition mark_stale :: "string \<Rightarrow> ApplyRun \<Rightarrow> ApplyRun" where
  "mark_stale itemID r =
     (if itemID \<in> set (rn_staleItems r) then r
      else r\<lparr>rn_staleItems := itemID # rn_staleItems r,
             rn_result := (rn_result r)\<lparr>ar_Stale := Suc (ar_Stale (rn_result r))\<rparr>\<rparr>)"

definition protect :: "string \<Rightarrow> ApplyRun \<Rightarrow> ApplyRun" where
  "protect itemID r = r\<lparr>rn_protected := itemID # rn_protected r\<rparr>"

definition query_step :: "snapshot_source \<Rightarrow> MetadataSnapshot \<Rightarrow> string \<Rightarrow> ApplyRun \<Rightarrow> ApplyRun" where
  "query_step source snapshot itemID r =
     (case mptr (sn_Items snapshot) itemID of
        None \<Rightarrow> protect itemID (mark_stale itemID r)
      | Some item \<Rightarrow>
          (let current = metadataVersionCurrent source (rn_call r) itemID (im_Version item);
               r = r\<lparr>rn_call := next_call source (rn_call r)\<rparr> in
           if current then r else protect itemID (mark_stale itemID r)))"

definition add_skip :: "ApplyRun \<Rightarrow> ApplyRun" where
  "add_skip r = r\<lparr>rn_result := (rn_result r)\<lparr>ar_Skipped := Suc (ar_Skipped (rn_result r))\<rparr>\<rparr>"

definition add_reject :: "string \<Rightarrow> go_error \<Rightarrow> ApplyRun \<Rightarrow> ApplyRun" where
  "add_reject itemID err r =
     r\<lparr>rn_result := (rn_result r)\<lparr>ar_Rejected := Suc (ar_Rejected (rn_result r)),
                                 ar_Errors := ar_Errors (rn_result r) @ [(itemID, err)]\<rparr>\<rparr>"

definition pending_step ::
  "(string \<Rightarrow> go_error + float64) \<Rightarrow> MetadataSnapshot \<Rightarrow> time \<Rightarrow> string \<times> HistoryItem
    \<Rightarrow> ApplyRun \<times> pendingValue list \<Rightarrow> ApplyRun \<times> pendingValue list" where
  "pending_step parseFloat snapshot fetchedAt entry st =
     (case entry of (itemID, record) \<Rightarrow> case st of (r, pendings) \<Rightarrow>
        (case mptr (sn_Items snapshot) itemID of
           None \<Rightarrow> (protect itemID (add_skip r), pendings)
         | Some item \<Rightarrow>
             if \<not> im_Enabled item \<or> im_Delay item \<le> 0
                \<or> im_ValueType item \<noteq> ''0'' \<and> im_ValueType item \<noteq> ''3''
             then (protect itemID (add_skip r), pendings)
             else
               (case parseFloat (hi_Value record) of
                  Inl err \<Rightarrow> (protect itemID (add_reject itemID err r), pendings)
                | Inr value \<Rightarrow>
                    if f64_IsNaN value \<or> f64_IsInf value
                    then (protect itemID (add_reject itemID NotFiniteError r), pendings)
                    else if hi_NS record < 0 \<or> hi_NS record \<ge> Second
                    then (protect itemID (add_reject itemID (SourceNsError (hi_NS record)) r), pendings)
                    else (r, pendings @
                      [\<lparr>pd_itemID = itemID, pd_value = value, pd_clock = hi_Clock record,
                        pd_ns = hi_NS record, pd_delay = im_Delay item,
                        pd_metadataVersion = im_Version item, pd_fetchedAt = fetchedAt\<rparr>]))))"

definition new_state :: "(string \<Rightarrow> 64 word) \<Rightarrow> ValueCache \<Rightarrow> pendingValue \<Rightarrow> nat \<Rightarrow> ValueState" where
  "new_state fp c pending version =
     (let sourceTimestamp = time_Unix (pd_clock pending) (pd_ns pending) in
      \<lparr>vs_ItemID = pd_itemID pending,
       vs_Value = pd_value pending,
       vs_SourceTimestamp = sourceTimestamp,
       vs_SourceNS = pd_ns pending,
       vs_LastFetchAt = pd_fetchedAt pending,
       vs_LastSuccessAt = pd_fetchedAt pending,
       vs_Delay = pd_delay pending,
       vs_ExpireAt = ValueExpireAt sourceTimestamp (pd_delay pending),
       vs_ConsecutiveMisses = 0,
       vs_MetadataVersion = pd_metadataVersion pending,
       vs_ValueVersion = version,
       vs_LastPublishedVersion = 0,
       vs_LastPublishedTimestamp = 0,
       vs_PublishSlot = publishSlot fp c (pd_itemID pending),
       vs_PublishPolicy = PublishPolicyForDelay (pd_delay pending),
       vs_Valid = True,
       vs_scanSequence = 0\<rparr>)"

definition apply_step :: "(string \<Rightarrow> 64 word) \<Rightarrow> snapshot_source \<Rightarrow> ValueCache \<Rightarrow> pendingValue
    \<Rightarrow> valueShard \<times> ApplyRun \<Rightarrow> valueShard \<times> ApplyRun" where
  "apply_step fp source c pending st =
     (case st of (shard, r) \<Rightarrow>
        let itemID = pd_itemID pending;
            fresh = metadataVersionCurrent source (rn_call r) itemID (pd_metadataVersion pending);
            r = r\<lparr>rn_call := next_call source (rn_call r)\<rparr> in
        if \<not> fresh then (shard, protect itemID (mark_stale itemID (add_skip r)))
        else
          (let exists = mget (sh_values shard) itemID in
           case (case exists of
                   Some current \<Rightarrow>
                     if vs_MetadataVersion current = pd_metadataVersion pending
                        \<and> \<not> sourceIsNewer (pd_clock pending) (pd_ns pending) current
                     then Some current else None
                 | None \<Rightarrow> None) of
             Some current \<Rightarrow>
               (shard\<lparr>sh_values := mput itemID (current\<lparr>vs_LastFetchAt := pd_fetchedAt pending\<rparr>)
                                       (sh_values shard)\<rparr>,
                r\<lparr>rn_outcomes := mput itemID OutcomeUnchanged (rn_outcomes r)\<rparr>)
           | None \<Rightarrow>
               (let version = inc64 (rn_nextVersion r);
                    state = new_state fp c pending version;
                    r = r\<lparr>rn_nextVersion := version\<rparr>;
                    r = (if vc_hasRegistrar c
                         then r\<lparr>rn_expiry := rn_expiry r @
                                  [\<lparr>ee_ItemID = vs_ItemID state, ee_ValueVersion = version,
                                    ee_ExpireAt = vs_ExpireAt state\<rparr>]\<rparr>
                         else r) in
                (shard_insert state shard,
                 if exists \<noteq> None
                 then r\<lparr>rn_outcomes := mput itemID OutcomeUpdated (rn_outcomes r)\<rparr>
                 else r\<lparr>rn_entries := rn_entries r + 1,
                        rn_outcomes := mput itemID OutcomeCreated (rn_outcomes r)\<rparr>))))"

definition outcome_step :: "string \<times> applyOutcome \<Rightarrow> ApplyResult \<Rightarrow> ApplyResult" where
  "outcome_step entry apply =
     (case snd entry of
        OutcomeCreated \<Rightarrow> apply\<lparr>ar_Created := Suc (ar_Created apply)\<rparr>
      | OutcomeUpdated \<Rightarrow> apply\<lparr>ar_Updated := Suc (ar_Updated apply)\<rparr>
      | OutcomeUnchanged \<Rightarrow> apply\<lparr>ar_Unchanged := Suc (ar_Unchanged apply)\<rparr>)"

definition miss_items :: "string list \<Rightarrow> string list \<Rightarrow> string list \<Rightarrow> string list" where
  "miss_items queried protected returned =
     (let missSet = remdups (filter (\<lambda>id. id \<notin> set protected \<and> id \<notin> set returned) queried);
          (out, extra) = fold (\<lambda>id (out, missSet).
              if id \<in> set missSet then (out @ [id], removeAll id missSet) else (out, missSet))
            queried ([], missSet)
      in out @ sort extra)"

definition ApplyBatch :: "(string \<Rightarrow> 64 word) \<Rightarrow> (string \<Rightarrow> go_error + float64) \<Rightarrow> snapshot_source
    \<Rightarrow> ValueCache \<Rightarrow> BatchResult \<Rightarrow> MetadataSnapshot option
    \<Rightarrow> ValueCache \<times> ApplyResult \<times> ExpiryEntry list" where
  "ApplyBatch fp parseFloat source c result snapshot =
     (let apply = newApplyResult (br_Status result) snapshot in
      if br_Status result \<noteq> BatchSuccess \<and> br_Status result \<noteq> BatchEmpty then (c, apply, [])
      else case snapshot of
        None \<Rightarrow>
          (let skipped = (case br_Latest result of None \<Rightarrow> 0 | Some m \<Rightarrow> length m);
               skipped = (if skipped = 0 then length (br_Records result) else skipped)
           in (c, apply\<lparr>ar_Skipped := skipped\<rparr>, []))
      | Some sn \<Rightarrow>
          (let latest = (case br_Latest result of
                           None \<Rightarrow> ReduceLatest (br_Records result) | Some m \<Rightarrow> m);
               returnedItems = map hi_ItemID (br_Records result) @ mkeys latest;
               fetchedAt = (if time_IsZero (br_FinishedAt result)
                            then br_StartedAt result else br_FinishedAt result);
               r0 = \<lparr>rn_result = apply, rn_call = 0, rn_staleItems = [], rn_protected = [],
                     rn_outcomes = [], rn_expiry = [],
                     rn_nextVersion = vc_nextValueVersion c, rn_entries = vc_entries c\<rparr>;
               r1 = fold (query_step source sn) (hq_ItemIDs (br_Query result)) r0;
               (r2, pendings) = fold (pending_step parseFloat sn fetchedAt) latest (r1, []);
               (shards, r3) = run_shards (apply_step fp source c) id
                                (\<lambda>p. shardIndex fp c (pd_itemID p)) pendings (vc_shards c, r2);
               c' = c\<lparr>vc_shards := shards, vc_nextValueVersion := rn_nextVersion r3,
                      vc_entries := rn_entries r3\<rparr>;
               apply = fold outcome_step (rn_outcomes r3) (rn_result r3) in
           if ar_Stale apply \<noteq> 0 then (c', apply, rn_expiry r3)
           else (c', apply\<lparr>ar_MissItemIDs :=
                   miss_items (hq_ItemIDs (br_Query result)) (rn_protected r3) returnedItems\<rparr>,
                 rn_expiry r3)))"

section \<open>MarkMiss, Delete, DeleteVersioned, AckPublished\<close>

definition dedup :: "string list \<Rightarrow> string list" where
  "dedup ids = fold (\<lambda>id out. if id \<in> set out then out else out @ [id]) ids []"

definition miss_state :: "nat \<Rightarrow> time \<Rightarrow> ValueState \<Rightarrow> ValueState \<times> bool" where
  "miss_state missThreshold fetchedAt state =
     (let state = (if vs_ConsecutiveMisses state < 2 ^ 32 - 1
                   then state\<lparr>vs_ConsecutiveMisses := Suc (vs_ConsecutiveMisses state)\<rparr>
                   else state);
          state = state\<lparr>vs_LastFetchAt := fetchedAt\<rparr>
      in if vs_Valid state \<and> vs_ConsecutiveMisses state \<ge> missThreshold
            \<and> fetchedAt > missInvalidAfter (vs_SourceTimestamp state) (vs_Delay state)
         then (state\<lparr>vs_Valid := False\<rparr>, True) else (state, False))"

definition miss_step :: "nat \<Rightarrow> time \<Rightarrow> string \<Rightarrow> valueShard \<times> MissResult \<Rightarrow> valueShard \<times> MissResult" where
  "miss_step missThreshold fetchedAt itemID st =
     (case st of (shard, result) \<Rightarrow>
        (case mget (sh_values shard) itemID of
           None \<Rightarrow> (shard, result\<lparr>mr_NotFound := Suc (mr_NotFound result)\<rparr>)
         | Some state \<Rightarrow>
             (case miss_state missThreshold fetchedAt state of (state', invalidated) \<Rightarrow>
                (shard\<lparr>sh_values := mput itemID state' (sh_values shard)\<rparr>,
                 (if invalidated then result\<lparr>mr_Invalidated := Suc (mr_Invalidated result)\<rparr>
                  else result)\<lparr>mr_Marked := Suc (mr_Marked result)\<rparr>))))"

definition MarkMiss :: "(string \<Rightarrow> 64 word) \<Rightarrow> ValueCache \<Rightarrow> string list \<Rightarrow> time \<Rightarrow> ValueCache \<times> MissResult" where
  "MarkMiss fp c itemIDs fetchedAt =
     (case run_shards (miss_step (vc_missThreshold c) fetchedAt) id (shardIndex fp c) (dedup itemIDs)
             (vc_shards c, \<lparr>mr_Marked = 0, mr_Invalidated = 0, mr_NotFound = 0\<rparr>) of
        (shards, result) \<Rightarrow> (c\<lparr>vc_shards := shards\<rparr>, result))"

definition delete_step :: "string \<Rightarrow> valueShard \<times> DeleteResult \<times> int \<Rightarrow> valueShard \<times> DeleteResult \<times> int" where
  "delete_step itemID st =
     (case st of (shard, result, entries) \<Rightarrow>
        (case shard_delete itemID shard of (deleted, shard') \<Rightarrow>
           if deleted then (shard', result\<lparr>dr_Deleted := Suc (dr_Deleted result)\<rparr>, entries - 1)
           else (shard', result\<lparr>dr_NotFound := Suc (dr_NotFound result)\<rparr>, entries)))"

definition newDeleteResult :: "DeleteReason \<Rightarrow> DeleteResult" where
  "newDeleteResult reason = \<lparr>dr_Reason = reason, dr_Deleted = 0, dr_Stale = 0, dr_NotFound = 0\<rparr>"

definition Delete :: "(string \<Rightarrow> 64 word) \<Rightarrow> ValueCache \<Rightarrow> string list \<Rightarrow> DeleteReason \<Rightarrow> ValueCache \<times> DeleteResult" where
  "Delete fp c itemIDs reason =
     (case run_shards delete_step compactOrder (shardIndex fp c) (dedup itemIDs)
             (vc_shards c, newDeleteResult reason, vc_entries c) of
        (shards, result, entries) \<Rightarrow> (c\<lparr>vc_shards := shards, vc_entries := entries\<rparr>, result))"

definition delete_versioned_step ::
  "VersionedItem \<Rightarrow> valueShard \<times> DeleteResult \<times> int \<Rightarrow> valueShard \<times> DeleteResult \<times> int" where
  "delete_versioned_step item st =
     (case st of (shard, result, entries) \<Rightarrow>
        (case mget (sh_values shard) (vi_ItemID item) of
           None \<Rightarrow> (shard, result\<lparr>dr_NotFound := Suc (dr_NotFound result)\<rparr>, entries)
         | Some state \<Rightarrow>
             if vs_ValueVersion state \<noteq> vi_ValueVersion item
             then (shard, result\<lparr>dr_Stale := Suc (dr_Stale result)\<rparr>, entries)
             else (snd (shard_delete (vi_ItemID item) shard),
                   result\<lparr>dr_Deleted := Suc (dr_Deleted result)\<rparr>, entries - 1)))"

definition DeleteVersioned :: "(string \<Rightarrow> 64 word) \<Rightarrow> ValueCache \<Rightarrow> VersionedItem list \<Rightarrow> DeleteReason
    \<Rightarrow> ValueCache \<times> DeleteResult" where
  "DeleteVersioned fp c items reason =
     (case run_shards delete_versioned_step compactOrder (\<lambda>item. shardIndex fp c (vi_ItemID item)) items
             (vc_shards c, newDeleteResult reason, vc_entries c) of
        (shards, result, entries) \<Rightarrow> (c\<lparr>vc_shards := shards, vc_entries := entries\<rparr>, result))"

definition ack_state :: "PublishAck \<Rightarrow> ValueState \<Rightarrow> ValueState \<times> bool" where
  "ack_state ack state =
     (let (state', changed) =
            (if vs_PublishPolicy state = PublishSourceTimestamp then
               (if vs_LastPublishedVersion state < pa_ValueVersion ack
                then (state\<lparr>vs_LastPublishedVersion := pa_ValueVersion ack\<rparr>, True)
                else (state, False))
             else (state, \<not> time_IsZero (pa_PublishedTimestamp ack)
                     \<and> (time_IsZero (vs_LastPublishedTimestamp state)
                        \<or> pa_PublishedTimestamp ack > vs_LastPublishedTimestamp state)))
      in (if pa_PublishedTimestamp ack > vs_LastPublishedTimestamp state'
          then state'\<lparr>vs_LastPublishedTimestamp := pa_PublishedTimestamp ack\<rparr> else state',
          changed))"

definition ack_step :: "PublishAck \<Rightarrow> valueShard \<times> AckResult \<Rightarrow> valueShard \<times> AckResult" where
  "ack_step ack st =
     (case st of (shard, result) \<Rightarrow>
        (case mget (sh_values shard) (pa_ItemID ack) of
           None \<Rightarrow> (shard, result\<lparr>ak_NotFound := Suc (ak_NotFound result)\<rparr>)
         | Some state \<Rightarrow>
             if vs_ValueVersion state \<noteq> pa_ValueVersion ack
             then (shard, result\<lparr>ak_Stale := Suc (ak_Stale result)\<rparr>)
             else
               (case ack_state ack state of (state', changed) \<Rightarrow>
                  if \<not> changed then (shard, result\<lparr>ak_Stale := Suc (ak_Stale result)\<rparr>)
                  else (shard\<lparr>sh_values := mput (pa_ItemID ack) state' (sh_values shard)\<rparr>,
                        result\<lparr>ak_Applied := Suc (ak_Applied result)\<rparr>))))"

definition AckPublished :: "(string \<Rightarrow> 64 word) \<Rightarrow> ValueCache \<Rightarrow> PublishAck list \<Rightarrow> ValueCache \<times> AckResult" where
  "AckPublished fp c acks =
     (case run_shards ack_step id (\<lambda>ack. shardIndex fp c (pa_ItemID ack)) acks
             (vc_shards c, \<lparr>ak_Applied = 0, ak_Stale = 0, ak_NotFound = 0\<rparr>) of
        (shards, result) \<Rightarrow> (c\<lparr>vc_shards := shards\<rparr>, result))"

end
