(* ===== verification/Cache_Laws.thy ===== *)
theory Cache_Laws
  imports Value_Cache
begin

text \<open>
  The contract every writing operation of the value cache keeps, as the locale \<open>shard_operation\<close>: the
  critical section of one item acts on that item's state only, as an abstract action \<open>act\<close> says.  The
  client lemmas, proved once, turn this into facts about the whole operation: running over the shards
  is a simulation of the abstract actions on one flat map (\<open>run_sim\<close>), whatever the sharding.
  Sequence numbers belong to the shard's order, not to the state a reader sees, so a view erases them.
\<close>

definition erase :: "ValueState \<Rightarrow> ValueState" where
  "erase st = st\<lparr>vs_scanSequence := 0\<rparr>"

definition view :: "valueShard \<Rightarrow> string \<Rightarrow> ValueState option" where
  "view s k = map_option erase (mget (sh_values s) k)"

definition cview :: "(string \<Rightarrow> nat) \<Rightarrow> valueShard list \<Rightarrow> string \<Rightarrow> ValueState option" where
  "cview idx shards k = view (shards ! idx k) k"

definition grouped :: "('a \<Rightarrow> nat) \<Rightarrow> nat \<Rightarrow> 'a list \<Rightarrow> 'a list" where
  "grouped key n xs = concat (map (\<lambda>i. filter (\<lambda>x. key x = i) xs) [0..<n])"

lemma concat_filter_touched:
  "concat (map (\<lambda>i. filter (\<lambda>x. key x = i) xs) (filter (\<lambda>i. i \<in> key ` set xs) is)) =
   concat (map (\<lambda>i. filter (\<lambda>x. key x = i) xs) is)"
proof (induction "is")
  case (Cons i "is")
  have "i \<notin> key ` set xs \<Longrightarrow> filter (\<lambda>x. key x = i) xs = []" by (auto simp: filter_empty_conv)
  with Cons show ?case by auto
qed simp

lemma filter_grouped:
  assumes "\<And>x. p x \<Longrightarrow> key x = j" and "j < n"
  shows "filter p (grouped key n xs) = filter p xs"
proof -
  have bucket: "filter p (filter (\<lambda>x. key x = i) xs) = (if i = j then filter p xs else [])" for i
    using assms(1) by (auto simp: filter_empty_conv intro!: filter_cong)
  have none: "concat (map (\<lambda>i. if i = j then ys else []) is) = []" if "j \<notin> set is" for "is" and ys :: "'a list"
    using that by (induction "is") auto
  have "filter p (grouped key n xs) = concat (map (\<lambda>i. if i = j then filter p xs else []) [0..<n])"
    by (simp only: grouped_def filter_concat map_map o_def bucket)
  also have "[0..<n] = [0..<j] @ j # [Suc j..<n]"
    using upt_add_eq_append [of 0 j "n - j"] upt_conv_Cons [OF assms(2)] assms(2) by simp
  also have "concat (map (\<lambda>i. if i = j then filter p xs else []) ([0..<j] @ j # [Suc j..<n])) = filter p xs"
    by (simp add: none)
  finally show ?thesis .
qed

lemma mset_grouped: "(\<And>x. x \<in> set xs \<Longrightarrow> key x < n) \<Longrightarrow> mset (grouped key n xs) = mset xs"
proof (rule multiset_eqI)
  fix a
  assume *: "\<And>x. x \<in> set xs \<Longrightarrow> key x < n"
  show "count (mset (grouped key n xs)) a = count (mset xs) a"
  proof (cases "key a < n")
    case True
    have "filter ((=) a) (grouped key n xs) = filter ((=) a) xs"
      by (rule filter_grouped [of _ key "key a"]) (use True in auto)
    then show ?thesis by (metis count_mset count_list_eq_length_filter)
  next
    case False
    then have "a \<notin> set xs" using * by blast
    moreover have "a \<notin> set (grouped key n xs)" using \<open>a \<notin> set xs\<close> by (auto simp: grouped_def)
    ultimately show ?thesis by (metis not_in_iff set_mset_mset)
  qed
qed

lemma length_grouped: "(\<And>x. x \<in> set xs \<Longrightarrow> key x < n) \<Longrightarrow> length (grouped key n xs) = length xs"
  by (metis mset_grouped size_mset)

definition astep :: "('a \<Rightarrow> string) \<Rightarrow> ('a \<Rightarrow> 'r \<Rightarrow> ValueState option \<Rightarrow> ValueState option \<times> 'r)
    \<Rightarrow> 'a \<Rightarrow> (string \<Rightarrow> ValueState option) \<times> 'r \<Rightarrow> (string \<Rightarrow> ValueState option) \<times> 'r" where
  "astep item act x st =
     (case st of (m, r) \<Rightarrow>
        case act x r (m (item x)) of (o', r') \<Rightarrow> (m(item x := o'), r'))"

lemma astep_eq:
  "act y r (m (item y)) = (o', r') \<Longrightarrow> astep item act y (m, r) = (m(item y := o'), r')"
  by (simp add: astep_def)

locale shard_operation =
  fixes stp :: "'a \<Rightarrow> valueShard \<times> 'r \<Rightarrow> valueShard \<times> 'r"
    and fin :: "valueShard \<Rightarrow> valueShard"
    and item :: "'a \<Rightarrow> string"
    and act :: "'a \<Rightarrow> 'r \<Rightarrow> ValueState option \<Rightarrow> ValueState option \<times> 'r"
    and linv :: "nat \<Rightarrow> valueShard \<Rightarrow> 'r \<Rightarrow> bool"
  assumes step_view: "linv (Suc n) s r \<Longrightarrow>
      view (fst (stp x (s, r))) = (view s)(item x := fst (act x r (view s (item x))))"
    and step_result: "linv (Suc n) s r \<Longrightarrow> snd (stp x (s, r)) = snd (act x r (view s (item x)))"
    and step_linv: "linv (Suc n) s r \<Longrightarrow> linv n (fst (stp x (s, r))) (snd (stp x (s, r)))"
    and other_linv: "linv (Suc n) s r \<Longrightarrow> linv (Suc n) t r \<Longrightarrow> linv n t (snd (stp x (s, r)))"
    and fin_view: "view (fin s) = view s"
    and fin_linv: "linv n s r \<Longrightarrow> linv n (fin s) r"
begin

lemma bucket_linv:
  assumes "linv (length xs + n) s r" and "\<And>t. t \<in> T \<Longrightarrow> linv (length xs + n) t r"
    and "fold stp xs (s, r) = (s', r')"
  shows "linv n s' r' \<and> (\<forall>t \<in> T. linv n t r')"
  using assms
proof (induction xs arbitrary: s r)
  case Nil
  then show ?case by simp
next
  case (Cons x xs)
  obtain s1 r1 where s1: "stp x (s, r) = (s1, r1)" by (cases "stp x (s, r)")
  have "linv (length xs + n) s1 r1"
    using step_linv [of "length xs + n" s r x] Cons.prems(1) s1 by simp
  moreover have "linv (length xs + n) t r1" if "t \<in> T" for t
    using other_linv [of "length xs + n" s r t x] Cons.prems(1,2) that s1 by simp
  ultimately show ?case using Cons.IH [of s1 r1] Cons.prems(3) s1 by simp
qed

lemma bucket_sim:
  assumes "\<And>x. x \<in> set xs \<Longrightarrow> idx (item x) = i" and "i < length shards"
    and "linv (length xs + n) s r" and "fold stp xs (s, r) = (s', r')"
  shows "fold (astep item act) xs (cview idx (shards[i := s]), r) = (cview idx (shards[i := s']), r')"
  using assms
proof (induction xs arbitrary: s r)
  case Nil
  then show ?case by simp
next
  case (Cons x xs)
  obtain s1 r1 where s1: "stp x (s, r) = (s1, r1)" by (cases "stp x (s, r)")
  have li: "linv (Suc (length xs + n)) s r" using Cons.prems(3) by simp
  have ix: "idx (item x) = i" using Cons.prems(1) by simp
  have v1: "view s1 = (view s)(item x := fst (act x r (view s (item x))))"
    and r1: "r1 = snd (act x r (view s (item x)))"
    using step_view [OF li, of x] step_result [OF li, of x] s1 by simp_all
  have "(cview idx (shards[i := s]))(item x := fst (act x r (view s (item x)))) = cview idx (shards[i := s1])"
    using ix Cons.prems(2) by (auto simp: cview_def v1 nth_list_update)
  moreover have "cview idx (shards[i := s]) (item x) = view s (item x)"
    using ix Cons.prems(2) by (simp add: cview_def)
  ultimately have "astep item act x (cview idx (shards[i := s]), r) = (cview idx (shards[i := s1]), r1)"
    by (simp add: astep_def r1 split: prod.split) (metis prod.collapse prod.inject)
  moreover have "linv (length xs + n) s1 r1"
    using step_linv [OF li, of x] s1 by simp
  ultimately show ?case using Cons.IH [of s1 r1] Cons.prems s1 by simp
qed

lemma bucket_frame:
  assumes "\<And>x. x \<in> set xs \<Longrightarrow> item x \<noteq> k" and "linv (length xs + n) s r" and "fold stp xs (s, r) = (s', r')"
  shows "view s' k = view s k"
  using assms
proof (induction xs arbitrary: s r)
  case Nil
  then show ?case by simp
next
  case (Cons x xs)
  obtain s1 r1 where s1: "stp x (s, r) = (s1, r1)" by (cases "stp x (s, r)")
  have li: "linv (Suc (length xs + n)) s r" using Cons.prems(2) by simp
  have "view s1 k = view s k"
    using step_view [OF li, of x] s1 Cons.prems(1) [of x] by simp
  moreover have "linv (length xs + n) s1 r1" using step_linv [OF li, of x] s1 by simp
  ultimately show ?case using Cons.IH [of s1 r1] Cons.prems s1 by simp
qed

lemma shards_sim:
  assumes "\<And>i x. i \<in> set is \<Longrightarrow> x \<in> set (B i) \<Longrightarrow> idx (item x) = i"
    and "set is \<subseteq> {..<length shards}"
    and "\<And>s. s \<in> set shards \<Longrightarrow> linv (length (concat (map B is)) + n) s r"
    and "fold (\<lambda>i (shards, r). case fold stp (B i) (shards ! i, r) of (s, r') \<Rightarrow> (shards[i := fin s], r'))
           is (shards, r) = (shards', r')"
  shows "fold (astep item act) (concat (map B is)) (cview idx shards, r) = (cview idx shards', r')
    \<and> length shards' = length shards \<and> (\<forall>s \<in> set shards'. linv n s r')
    \<and> (\<forall>i k. idx k \<noteq> i \<longrightarrow> view (shards' ! i) k = view (shards ! i) k)"
  using assms
proof (induction "is" arbitrary: shards r)
  case Nil
  then show ?case by simp
next
  case (Cons i "is")
  obtain s1 r1 where s1: "fold stp (B i) (shards ! i, r) = (s1, r1)"
    by (cases "fold stp (B i) (shards ! i, r)")
  let ?m = "length (concat (map B is)) + n"
  have i: "i < length shards" using Cons.prems(2) by simp
  have bi: "\<And>x. x \<in> set (B i) \<Longrightarrow> idx (item x) = i" using Cons.prems(1) by simp
  have all: "linv (length (B i) + ?m) t r" if "t \<in> set shards" for t
    using Cons.prems(3) [OF that] by (simp add: add.assoc)
  have lv: "linv ?m s1 r1 \<and> (\<forall>t \<in> set shards. linv ?m t r1)"
    using bucket_linv [of "B i" ?m "shards ! i" r "set shards" s1 r1] all i s1 by simp
  have sim: "fold (astep item act) (B i) (cview idx shards, r) = (cview idx (shards[i := s1]), r1)"
    using bucket_sim [of "B i" idx i shards ?m "shards ! i" r s1 r1] bi i all s1 by simp
  have fin: "cview idx (shards[i := s1]) = cview idx (shards[i := fin s1])"
    using i by (auto simp: cview_def nth_list_update fin_view)
  have frame: "view (shards[i := fin s1] ! j) k = view (shards ! j) k" if "idx k \<noteq> j" for j k
  proof (cases "j = i")
    case True
    have "\<And>x. x \<in> set (B i) \<Longrightarrow> item x \<noteq> k" using bi that True by auto
    then have "view s1 k = view (shards ! i) k"
      using bucket_frame [of "B i" k ?m "shards ! i" r s1 r1] all i s1 by simp
    with True i show ?thesis by (simp add: fin_view)
  next
    case False
    then show ?thesis by simp
  qed
  have linvs: "linv ?m s r1" if "s \<in> set (shards[i := fin s1])" for s
    using that lv fin_linv [of ?m s1 r1] set_update_subset_insert [of shards i "fin s1"] by auto
  have rest: "fold (\<lambda>i (shards, r). case fold stp (B i) (shards ! i, r) of (s, r') \<Rightarrow> (shards[i := fin s], r'))
      is (shards[i := fin s1], r1) = (shards', r')"
    using Cons.prems(4) s1 by simp
  have "fold (astep item act) (concat (map B is)) (cview idx (shards[i := fin s1]), r1) = (cview idx shards', r')
    \<and> length shards' = length (shards[i := fin s1]) \<and> (\<forall>s \<in> set shards'. linv n s r')
    \<and> (\<forall>j k. idx k \<noteq> j \<longrightarrow> view (shards' ! j) k = view (shards[i := fin s1] ! j) k)"
    by (rule Cons.IH) (use Cons.prems linvs rest in auto)
  then show ?case using sim frame by (auto simp: fin)
qed

lemma run_sim:
  assumes idx: "\<And>k. idx k < length shards"
    and inv: "\<And>s. s \<in> set shards \<Longrightarrow> linv (length xs) s r"
    and run: "run_shards stp fin (\<lambda>x. idx (item x)) xs (shards, r) = (shards', r')"
  shows "fold (astep item act) (grouped (\<lambda>x. idx (item x)) (length shards) xs) (cview idx shards, r)
      = (cview idx shards', r')"
    and "length shards' = length shards" and "\<And>s. s \<in> set shards' \<Longrightarrow> linv 0 s r'"
    and "\<And>i k. idx k \<noteq> i \<Longrightarrow> view (shards' ! i) k = view (shards ! i) k"
proof -
  let ?key = "\<lambda>x. idx (item x)" and ?n = "length shards"
  let ?B = "\<lambda>i. filter (\<lambda>x. ?key x = i) xs" and ?is = "filter (\<lambda>i. i \<in> ?key ` set xs) [0..<?n]"
  have bz: "bucketize ?key ?n xs = (map ?B [0..<?n], ?is)"
    using idx by (intro bucketize_spec) auto
  have "fold (\<lambda>i (shards, r). case fold stp (map ?B [0..<?n] ! i) (shards ! i, r) of
        (s, r') \<Rightarrow> (shards[i := fin s], r')) ?is (shards, r)
      = fold (\<lambda>i (shards, r). case fold stp (?B i) (shards ! i, r) of
        (s, r') \<Rightarrow> (shards[i := fin s], r')) ?is (shards, r)"
    by (rule fold_cong) auto
  with run have f: "fold (\<lambda>i (shards, r). case fold stp (?B i) (shards ! i, r) of
        (s, r') \<Rightarrow> (shards[i := fin s], r')) ?is (shards, r) = (shards', r')"
    by (simp add: run_shards_def bz)
  have cc: "concat (map ?B ?is) = grouped ?key ?n xs"
    by (simp only: concat_filter_touched grouped_def)
  have "length (grouped ?key ?n xs) = length xs"
    using idx by (intro length_grouped) auto
  then have inv': "linv (length (concat (map ?B ?is)) + 0) s r" if "s \<in> set shards" for s
    using inv [OF that] by (simp only: cc) simp
  note sim = shards_sim [of ?is ?B idx shards 0 r shards' r', OF _ _ inv' f]
  have sim': "fold (astep item act) (concat (map ?B ?is)) (cview idx shards, r) = (cview idx shards', r')
    \<and> length shards' = ?n \<and> (\<forall>s \<in> set shards'. linv 0 s r')
    \<and> (\<forall>i k. idx k \<noteq> i \<longrightarrow> view (shards' ! i) k = view (shards ! i) k)"
    by (rule sim) auto
  then show "fold (astep item act) (grouped ?key ?n xs) (cview idx shards, r) = (cview idx shards', r')"
    unfolding cc by blast
  from sim' show "length shards' = ?n" by blast
  from sim' show "\<And>s. s \<in> set shards' \<Longrightarrow> linv 0 s r'" by blast
  from sim' show "\<And>i k. idx k \<noteq> i \<Longrightarrow> view (shards' ! i) k = view (shards ! i) k" by blast
qed

end

section \<open>Consequences on the flat map\<close>

text \<open>When what an action does to the state does not depend on the running result, each item's state
  goes through the actions that name it, in the order the caller gave them.\<close>

lemma fold_astep_lookup:
  assumes "\<And>x r o'. fst (act x r o') = eff x o'"
  shows "fst (fold (astep item act) ys (m, r)) k = fold eff (filter (\<lambda>x. item x = k) ys) (m k)"
proof (induction ys arbitrary: m r)
  case Nil
  then show ?case by simp
next
  case (Cons y ys)
  obtain o' r' where a: "act y r (m (item y)) = (o', r')" by (cases "act y r (m (item y))")
  then have "o' = eff y (m (item y))" using assms [of y r "m (item y)"] by simp
  moreover have "fst (fold (astep item act) ys (m(item y := o'), r')) k =
      fold eff (filter (\<lambda>x. item x = k) ys) ((m(item y := o')) k)"
    by (rule Cons.IH)
  ultimately show ?case
    by (simp only: fold.simps comp_apply astep_eq [of act y r m item, OF a] filter.simps) auto
qed

text \<open>With distinct items every action sees the state the operation started from.\<close>

lemma fold_astep_result:
  assumes "distinct (map item ys)" and "\<And>x r o'. snd (act x r o') = tally x o' r"
  shows "snd (fold (astep item act) ys (m, r)) = fold (\<lambda>x. tally x (m (item x))) ys r"
  using assms(1)
proof (induction ys arbitrary: m r)
  case Nil
  then show ?case by simp
next
  case (Cons y ys)
  obtain o' r' where a: "act y r (m (item y)) = (o', r')" by (cases "act y r (m (item y))")
  then have r': "r' = tally y (m (item y)) r" using assms(2) [of y r "m (item y)"] by simp
  have "fold (\<lambda>x. tally x ((m(item y := o')) (item x))) ys r' = fold (\<lambda>x. tally x (m (item x))) ys r'"
    using Cons.prems by (intro fold_cong refl) (metis distinct.simps(2) fun_upd_other imageI list.simps(9) set_map)
  moreover have "snd (fold (astep item act) ys (m(item y := o'), r')) =
      fold (\<lambda>x. tally x ((m(item y := o')) (item x))) ys r'"
    using Cons.prems by (intro Cons.IH) simp
  ultimately show ?case
    by (simp only: fold.simps comp_apply astep_eq [of act y r m item, OF a] r')
qed

text \<open>An invariant of the pair of map and result, kept by each action; its first argument bounds the
  number of actions still to come.\<close>

lemma fold_astep_invariant:
  assumes "P (length ys) (m, r)"
    and "\<And>x m r n. x \<in> set ys \<Longrightarrow> P (Suc n) (m, r) \<Longrightarrow> P n (astep item act x (m, r))"
  shows "P 0 (fold (astep item act) ys (m, r))"
  using assms
proof (induction ys arbitrary: m r)
  case Nil
  then show ?case by simp
next
  case (Cons y ys)
  obtain m1 r1 where a: "astep item act y (m, r) = (m1, r1)" by (cases "astep item act y (m, r)")
  have "P (length ys) (m1, r1)" using Cons.prems(2) [of y "length ys" m r] Cons.prems(1) a by simp
  with Cons.IH [of m1 r1] Cons.prems(2) a show ?case by simp
qed

text \<open>With distinct items, the state under an item's key is the one its own action leaves.\<close>

lemma fold_astep_other:
  "k \<notin> item ` set ys \<Longrightarrow> fst (fold (astep item act) ys (m, r)) k = m k"
proof (induction ys arbitrary: m r)
  case Nil
  then show ?case by simp
next
  case (Cons y ys)
  obtain o' r' where a: "act y r (m (item y)) = (o', r')" by (cases "act y r (m (item y))")
  have "fst (fold (astep item act) ys (m(item y := o'), r')) k = (m(item y := o')) k"
    by (rule Cons.IH) (use Cons.prems in simp)
  with Cons.prems show ?case
    by (simp only: fold.simps comp_apply astep_eq [of act y r m item, OF a]) simp
qed

lemma fold_astep_once:
  assumes "distinct (map item ys)" and "x \<in> set ys" and "Q (length ys) r"
    and "\<And>y r o' n. Q (Suc n) r \<Longrightarrow> Q n (snd (act y r o'))"
  shows "\<exists>r' n. Q (Suc n) r' \<and> fst (fold (astep item act) ys (m, r)) (item x) = fst (act x r' (m (item x)))"
  using assms(1-3)
proof (induction ys arbitrary: m r)
  case Nil
  then show ?case by simp
next
  case (Cons y ys)
  obtain o' r' where a: "act y r (m (item y)) = (o', r')" by (cases "act y r (m (item y))")
  have q0: "Q (Suc (length ys)) r" using Cons.prems(3) by simp
  have q: "Q (length ys) r'" using assms(4) [OF q0, of y "m (item y)"] a by simp
  note unfold = fold.simps comp_apply astep_eq [of act y r m item, OF a]
  show ?case
  proof (cases "x = y")
    case True
    then have "item x \<notin> item ` set ys" using Cons.prems(1) by simp
    then have "fst (fold (astep item act) ys (m(item y := o'), r')) (item x) = o'"
      using fold_astep_other [of "item x" item ys act "m(item y := o')" r'] True by simp
    then show ?thesis using a q0 True by (simp only: unfold) (metis fst_conv)
  next
    case False
    then have x: "x \<in> set ys" using Cons.prems(2) by simp
    then have ne: "item x \<noteq> item y" using Cons.prems(1) by (metis distinct.simps(2) imageI list.simps(9) set_map)
    have "\<exists>r'' n. Q (Suc n) r'' \<and> fst (fold (astep item act) ys (m(item y := o'), r')) (item x)
        = fst (act x r'' ((m(item y := o')) (item x)))"
      by (rule Cons.IH) (use Cons.prems(1) x q in simp_all)
    then show ?thesis using ne by (simp only: unfold) simp
  qed
qed

end
