(* ===== verification/Cache_Actions.thy ===== *)
theory Cache_Actions
  imports Cache_Laws
begin

text \<open>
  What each writing operation of the value cache does to the state of one item, as an action on an
  optional state, and the proofs (interpretations of \<open>shard_operation\<close>) that the code's critical
  sections implement these actions.
\<close>

definition shard_ok :: "nat \<Rightarrow> valueShard \<Rightarrow> bool" where
  "shard_ok V s \<longleftrightarrow> shard_inv s \<and> sh_nextSequence s \<le> V"

lemma view_put: "view (s\<lparr>sh_values := mput k st (sh_values s)\<rparr>) = (view s)(k := Some (erase st))"
  by (rule ext) (simp add: view_def)

lemma view_delete: "view (snd (shard_delete k s)) = (view s)(k := None)"
  by (rule ext) (simp add: view_def shard_delete_lookup)

lemma view_insert: "view (shard_insert st s) = (view s)(vs_ItemID st := Some (erase st))"
  by (rule ext) (auto simp: view_def shard_insert_lookup erase_def)

lemma view_compactOrder: "view (compactOrder s) = view s"
  by (rule ext) (simp add: view_def)

lemma erase_idem [simp]: "erase (erase st) = erase st"
  by (simp add: erase_def)

lemma view_SomeD: "view s k = Some st \<Longrightarrow> \<exists>st'. mget (sh_values s) k = Some st' \<and> st = erase st'"
  by (auto simp: view_def)

text \<open>Replacing the value of a present item by one with the same key and sequence keeps the shard.\<close>

lemma shard_ok_replace:
  assumes "shard_ok V s" "mget (sh_values s) k = Some st" "vs_scanSequence st' = vs_scanSequence st"
    "vs_ItemID st' = vs_ItemID st"
  shows "shard_ok V (s\<lparr>sh_values := mput k st' (sh_values s)\<rparr>)"
proof -
  have i: "shard_inv s" using assms(1) by (simp add: shard_ok_def)
  note d = shard_invD [OF i]
  have "values_inv (mput k st' (sh_values s)) (sh_order s)"
    using d(3) assms(2-4) by (auto simp: values_inv_def)
  moreover have "length (mput k st' (sh_values s)) = length (sh_values s)"
    using assms(2) by (simp add: length_put)
  ultimately show ?thesis using d assms(1) by (simp add: shard_ok_def shard_inv_def)
qed

lemma shard_ok_delete: "shard_ok V s \<Longrightarrow> shard_ok V (snd (shard_delete k s))"
  by (simp add: shard_ok_def shard_delete_inv)

lemma shard_ok_compact: "shard_ok V s \<Longrightarrow> shard_ok V (compactOrder s)"
  by (simp add: shard_ok_def compactOrder_inv)

section \<open>MarkMiss\<close>

definition miss_act :: "nat \<Rightarrow> time \<Rightarrow> string \<Rightarrow> MissResult \<Rightarrow> ValueState option \<Rightarrow> ValueState option \<times> MissResult" where
  "miss_act missThreshold fetchedAt itemID result old =
     (case old of
        None \<Rightarrow> (None, result\<lparr>mr_NotFound := Suc (mr_NotFound result)\<rparr>)
      | Some state \<Rightarrow>
          (case miss_state missThreshold fetchedAt state of (state', invalidated) \<Rightarrow>
             (Some state', (if invalidated then result\<lparr>mr_Invalidated := Suc (mr_Invalidated result)\<rparr>
                else result)\<lparr>mr_Marked := Suc (mr_Marked result)\<rparr>)))"

lemma miss_state_erase:
  "miss_state thr t (erase st) = (erase (fst (miss_state thr t st)), snd (miss_state thr t st))"
  by (simp add: miss_state_def erase_def Let_def)

lemma miss_state_frame:
  "vs_scanSequence (fst (miss_state thr t st)) = vs_scanSequence st"
  "vs_ItemID (fst (miss_state thr t st)) = vs_ItemID st"
  by (simp_all add: miss_state_def Let_def)

lemma miss_step_sim:
  assumes "shard_ok V s"
  shows "view (fst (miss_step thr t k (s, r))) = (view s)(k := fst (miss_act thr t k r (view s k)))"
    and "snd (miss_step thr t k (s, r)) = snd (miss_act thr t k r (view s k))"
    and "shard_ok V (fst (miss_step thr t k (s, r)))"
proof -
  show "view (fst (miss_step thr t k (s, r))) = (view s)(k := fst (miss_act thr t k r (view s k)))"
    and "snd (miss_step thr t k (s, r)) = snd (miss_act thr t k r (view s k))"
    by (auto simp: miss_step_def miss_act_def view_def miss_state_erase fun_eq_iff split: option.splits prod.splits)
  show "shard_ok V (fst (miss_step thr t k (s, r)))"
  proof (cases "mget (sh_values s) k")
    case None
    then show ?thesis using assms by (simp add: miss_step_def)
  next
    case (Some st)
    obtain st' inv where m: "miss_state thr t st = (st', inv)" by (cases "miss_state thr t st")
    have "shard_ok V (s\<lparr>sh_values := mput k st' (sh_values s)\<rparr>)"
      using assms Some miss_state_frame [of thr t st] m by (intro shard_ok_replace) auto
    then show ?thesis using Some m by (simp add: miss_step_def)
  qed
qed

interpretation miss: shard_operation "miss_step thr t" id "\<lambda>x. x" "miss_act thr t" "\<lambda>_ s _. shard_ok V s"
  for thr t V
  by unfold_locales (simp_all add: miss_step_sim)

section \<open>Delete and DeleteVersioned\<close>

definition delete_act :: "string \<Rightarrow> DeleteResult \<times> int \<Rightarrow> ValueState option
    \<Rightarrow> ValueState option \<times> DeleteResult \<times> int" where
  "delete_act itemID r old =
     (case r of (result, entries) \<Rightarrow>
        if old = None then (None, result\<lparr>dr_NotFound := Suc (dr_NotFound result)\<rparr>, entries)
        else (None, result\<lparr>dr_Deleted := Suc (dr_Deleted result)\<rparr>, entries - 1))"

definition delete_versioned_act :: "VersionedItem \<Rightarrow> DeleteResult \<times> int \<Rightarrow> ValueState option
    \<Rightarrow> ValueState option \<times> DeleteResult \<times> int" where
  "delete_versioned_act item r old =
     (case r of (result, entries) \<Rightarrow>
        (case old of
           None \<Rightarrow> (None, result\<lparr>dr_NotFound := Suc (dr_NotFound result)\<rparr>, entries)
         | Some state \<Rightarrow>
             if vs_ValueVersion state \<noteq> vi_ValueVersion item
             then (old, result\<lparr>dr_Stale := Suc (dr_Stale result)\<rparr>, entries)
             else (None, result\<lparr>dr_Deleted := Suc (dr_Deleted result)\<rparr>, entries - 1)))"

lemma erase_frame [simp]:
  "vs_ItemID (erase st) = vs_ItemID st" "vs_ValueVersion (erase st) = vs_ValueVersion st"
  "vs_PublishPolicy (erase st) = vs_PublishPolicy st" "vs_PublishSlot (erase st) = vs_PublishSlot st"
  "vs_MetadataVersion (erase st) = vs_MetadataVersion st" "vs_Valid (erase st) = vs_Valid st"
  "vs_ExpireAt (erase st) = vs_ExpireAt st" "vs_SourceTimestamp (erase st) = vs_SourceTimestamp st"
  "vs_SourceNS (erase st) = vs_SourceNS st" "vs_Delay (erase st) = vs_Delay st"
  "vs_Value (erase st) = vs_Value st" "vs_LastPublishedVersion (erase st) = vs_LastPublishedVersion st"
  "vs_LastPublishedTimestamp (erase st) = vs_LastPublishedTimestamp st"
  "vs_ConsecutiveMisses (erase st) = vs_ConsecutiveMisses st"
  "vs_LastFetchAt (erase st) = vs_LastFetchAt st" "vs_LastSuccessAt (erase st) = vs_LastSuccessAt st"
  "vs_scanSequence (erase st) = 0"
  by (simp_all add: erase_def)

lemma delete_step_sim:
  "view (fst (delete_step k (s, r))) = (view s)(k := fst (delete_act k r (view s k)))"
  "snd (delete_step k (s, r)) = snd (delete_act k r (view s k))"
  "fst (delete_step k (s, r)) = snd (shard_delete k s)"
  by (cases r; auto simp: delete_step_def delete_act_def shard_delete_def view_def fun_eq_iff
      split: if_splits)+

lemma delete_step_ok: "shard_ok V s \<Longrightarrow> shard_ok V (fst (delete_step k (s, r)))"
  by (simp add: delete_step_sim(3) shard_ok_delete)

interpretation del: shard_operation delete_step compactOrder "\<lambda>x. x" delete_act "\<lambda>_ s _. shard_ok V s"
  for V
  by unfold_locales
    (simp_all only: delete_step_sim(1,2) delete_step_ok shard_ok_compact view_compactOrder)

lemma delete_versioned_step_sim:
  "view (fst (delete_versioned_step x (s, r))) =
     (view s)(vi_ItemID x := fst (delete_versioned_act x r (view s (vi_ItemID x))))"
  "snd (delete_versioned_step x (s, r)) = snd (delete_versioned_act x r (view s (vi_ItemID x)))"
  "fst (delete_versioned_step x (s, r)) \<in> {s, snd (shard_delete (vi_ItemID x) s)}"
  by (cases r; auto simp: delete_versioned_step_def delete_versioned_act_def shard_delete_def view_def
      fun_eq_iff split: option.splits if_splits)+

lemma delete_versioned_step_ok: "shard_ok V s \<Longrightarrow> shard_ok V (fst (delete_versioned_step x (s, r)))"
  using delete_versioned_step_sim(3) [of x s r] shard_ok_delete [of V s "vi_ItemID x"] by auto

interpretation vdel: shard_operation delete_versioned_step compactOrder vi_ItemID delete_versioned_act
    "\<lambda>_ s _. shard_ok V s"
  for V
  by unfold_locales
    (simp_all add: delete_versioned_step_sim(1,2) delete_versioned_step_ok shard_ok_compact
      view_compactOrder)

section \<open>AckPublished\<close>

definition ack_act :: "PublishAck \<Rightarrow> AckResult \<Rightarrow> ValueState option \<Rightarrow> ValueState option \<times> AckResult" where
  "ack_act ack result old =
     (case old of
        None \<Rightarrow> (None, result\<lparr>ak_NotFound := Suc (ak_NotFound result)\<rparr>)
      | Some state \<Rightarrow>
          if vs_ValueVersion state \<noteq> pa_ValueVersion ack
          then (old, result\<lparr>ak_Stale := Suc (ak_Stale result)\<rparr>)
          else (case ack_state ack state of (state', changed) \<Rightarrow>
             if \<not> changed then (old, result\<lparr>ak_Stale := Suc (ak_Stale result)\<rparr>)
             else (Some state', result\<lparr>ak_Applied := Suc (ak_Applied result)\<rparr>)))"

lemma ack_state_erase:
  "ack_state ack (erase st) = (erase (fst (ack_state ack st)), snd (ack_state ack st))"
  by (simp add: ack_state_def erase_def Let_def)

lemma ack_state_frame:
  "vs_scanSequence (fst (ack_state ack st)) = vs_scanSequence st"
  "vs_ItemID (fst (ack_state ack st)) = vs_ItemID st"
  by (simp_all add: ack_state_def Let_def)

lemma ack_step_sim:
  "view (fst (ack_step x (s, r))) = (view s)(pa_ItemID x := fst (ack_act x r (view s (pa_ItemID x))))"
  "snd (ack_step x (s, r)) = snd (ack_act x r (view s (pa_ItemID x)))"
  by (auto simp: ack_step_def ack_act_def view_def ack_state_erase fun_eq_iff
      split: option.splits if_splits prod.splits)

lemma ack_step_ok:
  assumes "shard_ok V s"
  shows "shard_ok V (fst (ack_step x (s, r)))"
proof (cases "mget (sh_values s) (pa_ItemID x)")
  case None
  then show ?thesis using assms by (simp add: ack_step_def)
next
  case (Some st)
  obtain st' ch where a: "ack_state x st = (st', ch)" by (cases "ack_state x st")
  have "shard_ok V (s\<lparr>sh_values := mput (pa_ItemID x) st' (sh_values s)\<rparr>)"
    using assms Some ack_state_frame [of x st] a by (intro shard_ok_replace) auto
  then show ?thesis using Some a assms by (simp add: ack_step_def)
qed

interpretation ack: shard_operation ack_step id pa_ItemID ack_act "\<lambda>_ s _. shard_ok V s"
  for V
  by unfold_locales (simp_all add: ack_step_sim ack_step_ok)

section \<open>ApplyBatch\<close>

definition apply_act :: "(string \<Rightarrow> 64 word) \<Rightarrow> snapshot_source \<Rightarrow> ValueCache \<Rightarrow> pendingValue
    \<Rightarrow> ApplyRun \<Rightarrow> ValueState option \<Rightarrow> ValueState option \<times> ApplyRun" where
  "apply_act fp source c pending r old =
     (let itemID = pd_itemID pending;
          fresh = metadataVersionCurrent source (rn_call r) itemID (pd_metadataVersion pending);
          r = r\<lparr>rn_call := next_call source (rn_call r)\<rparr> in
      if \<not> fresh then (old, protect itemID (mark_stale itemID (add_skip r)))
      else case (case old of
                   Some current \<Rightarrow>
                     if vs_MetadataVersion current = pd_metadataVersion pending
                        \<and> \<not> sourceIsNewer (pd_clock pending) (pd_ns pending) current
                     then Some current else None
                 | None \<Rightarrow> None) of
        Some current \<Rightarrow>
          (Some (current\<lparr>vs_LastFetchAt := pd_fetchedAt pending\<rparr>),
           r\<lparr>rn_outcomes := mput itemID OutcomeUnchanged (rn_outcomes r)\<rparr>)
      | None \<Rightarrow>
          (let version = inc64 (rn_nextVersion r);
               state = new_state fp c pending version;
               r = r\<lparr>rn_nextVersion := version\<rparr>;
               r = (if vc_hasRegistrar c
                    then r\<lparr>rn_expiry := rn_expiry r @
                             [\<lparr>ee_ItemID = vs_ItemID state, ee_ValueVersion = version,
                               ee_ExpireAt = vs_ExpireAt state\<rparr>]\<rparr>
                    else r) in
           (Some state,
            if old \<noteq> None
            then r\<lparr>rn_outcomes := mput itemID OutcomeUpdated (rn_outcomes r)\<rparr>
            else r\<lparr>rn_entries := rn_entries r + 1,
                   rn_outcomes := mput itemID OutcomeCreated (rn_outcomes r)\<rparr>)))"

definition apply_linv :: "nat \<Rightarrow> valueShard \<Rightarrow> ApplyRun \<Rightarrow> bool" where
  "apply_linv n s r \<longleftrightarrow> shard_ok (rn_nextVersion r) s \<and> rn_nextVersion r + n < 2 ^ 64"

lemma run_frame [simp]:
  "rn_nextVersion (mark_stale k r) = rn_nextVersion r" "rn_nextVersion (protect k r) = rn_nextVersion r"
  "rn_nextVersion (add_skip r) = rn_nextVersion r" "rn_nextVersion (add_reject k e r) = rn_nextVersion r"
  "rn_entries (mark_stale k r) = rn_entries r" "rn_entries (protect k r) = rn_entries r"
  "rn_entries (add_skip r) = rn_entries r" "rn_entries (add_reject k e r) = rn_entries r"
  "rn_outcomes (mark_stale k r) = rn_outcomes r" "rn_outcomes (protect k r) = rn_outcomes r"
  "rn_outcomes (add_skip r) = rn_outcomes r" "rn_outcomes (add_reject k e r) = rn_outcomes r"
  "rn_expiry (mark_stale k r) = rn_expiry r" "rn_expiry (protect k r) = rn_expiry r"
  "rn_expiry (add_skip r) = rn_expiry r" "rn_expiry (add_reject k e r) = rn_expiry r"
  by (simp_all add: mark_stale_def protect_def add_skip_def add_reject_def)

lemma new_state_frame [simp]:
  "vs_ItemID (new_state fp c p v) = pd_itemID p" "erase (new_state fp c p v) = new_state fp c p v"
  "vs_ValueVersion (new_state fp c p v) = v" "vs_LastPublishedVersion (new_state fp c p v) = 0"
  "vs_MetadataVersion (new_state fp c p v) = pd_metadataVersion p" "vs_Valid (new_state fp c p v)"
  "vs_SourceTimestamp (new_state fp c p v) = time_Unix (pd_clock p) (pd_ns p)"
  "vs_Delay (new_state fp c p v) = pd_delay p" "vs_Value (new_state fp c p v) = pd_value p"
  by (simp_all add: new_state_def Let_def erase_def)

text \<open>The three outcomes of one pending value: rejected as stale, unchanged, or written.\<close>

lemma apply_cases:
  obtains (Stale) "\<not> metadataVersionCurrent source (rn_call r) (pd_itemID p) (pd_metadataVersion p)"
  | (Unchanged) current where "metadataVersionCurrent source (rn_call r) (pd_itemID p) (pd_metadataVersion p)"
      "old = Some current" "vs_MetadataVersion current = pd_metadataVersion p"
      "\<not> sourceIsNewer (pd_clock p) (pd_ns p) current"
  | (Written) "metadataVersionCurrent source (rn_call r) (pd_itemID p) (pd_metadataVersion p)"
      "\<And>current. old = Some current \<Longrightarrow> vs_MetadataVersion current \<noteq> pd_metadataVersion p
         \<or> sourceIsNewer (pd_clock p) (pd_ns p) current"
  by (cases old) auto

lemma apply_act_state:
  "fst (apply_act fp source c p r old) =
     (if \<not> metadataVersionCurrent source (rn_call r) (pd_itemID p) (pd_metadataVersion p) then old
      else case old of
        Some current \<Rightarrow>
          if vs_MetadataVersion current = pd_metadataVersion p \<and> \<not> sourceIsNewer (pd_clock p) (pd_ns p) current
          then Some (current\<lparr>vs_LastFetchAt := pd_fetchedAt p\<rparr>)
          else Some (new_state fp c p (inc64 (rn_nextVersion r)))
      | None \<Rightarrow> Some (new_state fp c p (inc64 (rn_nextVersion r))))"
  by (simp add: apply_act_def Let_def split: option.split)

lemma apply_act_version:
  "rn_nextVersion (snd (apply_act fp source c p r old)) \<in> {rn_nextVersion r, inc64 (rn_nextVersion r)}"
  by (auto simp: apply_act_def Let_def split: option.split)

lemma sourceIsNewer_erase [simp]: "sourceIsNewer cl ns (erase st) = sourceIsNewer cl ns st"
  by (simp add: sourceIsNewer_def)

lemma erase_fetch: "erase (st\<lparr>vs_LastFetchAt := t\<rparr>) = (erase st)\<lparr>vs_LastFetchAt := t\<rparr>"
  by (simp add: erase_def)

lemma apply_step_view:
  "view (fst (apply_step fp source c p (s, r))) =
     (view s)(pd_itemID p := fst (apply_act fp source c p r (view s (pd_itemID p))))"
proof (cases rule: apply_cases [where source = source and r = r and p = p and old = "mget (sh_values s) (pd_itemID p)"])
  case Stale
  then show ?thesis by (simp add: apply_step_def apply_act_state Let_def fun_eq_iff)
next
  case (Unchanged current)
  then show ?thesis
    by (simp add: apply_step_def apply_act_state Let_def view_put erase_fetch) (simp add: view_def)
next
  case Written
  then have "fst (apply_act fp source c p r (view s (pd_itemID p))) =
      Some (new_state fp c p (inc64 (rn_nextVersion r)))"
    by (auto simp: apply_act_state view_def split: option.split)
  moreover have "fst (apply_step fp source c p (s, r)) =
      shard_insert (new_state fp c p (inc64 (rn_nextVersion r))) s"
    using Written by (auto simp: apply_step_def Let_def split: option.split)
  ultimately show ?thesis by (simp add: view_insert)
qed

lemma apply_step_result:
  "snd (apply_step fp source c p (s, r)) = snd (apply_act fp source c p r (view s (pd_itemID p)))"
  by (cases "mget (sh_values s) (pd_itemID p)")
    (simp_all add: apply_step_def apply_act_def Let_def view_def)

lemma apply_step_ok:
  assumes "apply_linv (Suc n) s r"
  shows "apply_linv n (fst (apply_step fp source c p (s, r))) (snd (apply_step fp source c p (s, r)))"
proof (cases rule: apply_cases [where source = source and r = r and p = p and old = "mget (sh_values s) (pd_itemID p)"])
  case Stale
  then show ?thesis using assms by (simp add: apply_step_def apply_linv_def Let_def)
next
  case (Unchanged current)
  have "shard_ok (rn_nextVersion r)
      (s\<lparr>sh_values := mput (pd_itemID p) (current\<lparr>vs_LastFetchAt := pd_fetchedAt p\<rparr>) (sh_values s)\<rparr>)"
    using assms Unchanged(2) by (intro shard_ok_replace) (auto simp: apply_linv_def)
  then show ?thesis using assms Unchanged by (simp add: apply_step_def apply_linv_def Let_def)
next
  case Written
  have r: "rn_nextVersion r + Suc n < 2 ^ 64" and s: "shard_inv s" "sh_nextSequence s \<le> rn_nextVersion r"
    using assms by (simp_all add: apply_linv_def shard_ok_def)
  have i: "inc64 (rn_nextVersion r) = Suc (rn_nextVersion r)" using r by (simp add: inc64_id)
  have "shard_ok (Suc (rn_nextVersion r)) (shard_insert st s)" for st
    using shard_insert_inv [OF s(1)] shard_insert_next [of st s] s(2) r by (simp add: shard_ok_def)
  moreover have "fst (apply_step fp source c p (s, r)) =
      shard_insert (new_state fp c p (inc64 (rn_nextVersion r))) s"
    "rn_nextVersion (snd (apply_step fp source c p (s, r))) = inc64 (rn_nextVersion r)"
    using Written by (auto simp: apply_step_def Let_def split: option.split)
  ultimately show ?thesis using r by (simp add: apply_linv_def i)
qed

lemma apply_step_other:
  assumes "apply_linv (Suc n) s r" "apply_linv (Suc n) t r"
  shows "apply_linv n t (snd (apply_step fp source c p (s, r)))"
proof -
  have r: "rn_nextVersion r + Suc n < 2 ^ 64" and t: "shard_ok (rn_nextVersion r) t"
    using assms(2) by (simp_all add: apply_linv_def)
  have "rn_nextVersion (snd (apply_step fp source c p (s, r))) \<in> {rn_nextVersion r, Suc (rn_nextVersion r)}"
    using apply_act_version [of fp source c p r "view s (pd_itemID p)"] r
    by (simp add: apply_step_result inc64_id)
  then show ?thesis using r t by (auto simp: apply_linv_def shard_ok_def)
qed

interpretation upd: shard_operation "apply_step fp source c" id pd_itemID "apply_act fp source c" apply_linv
  for fp source c
  by unfold_locales
    (rule apply_step_view apply_step_result apply_step_ok apply_step_other id_apply | simp)+

end
