(* ===== verification/Cache_Invariant.thy ===== *)
theory Cache_Invariant
  imports Cache_Actions
begin

text \<open>
  The invariant of the value cache: what every entry satisfies, that the shards hold each item where
  its fingerprint sends it, and that the entry counter is the number of entries.  It is stated on the
  flat map a reader sees (\<open>contents\<close>) and kept by the actions one by one, so that each operation keeps
  it by the simulation lemma of \<open>shard_operation\<close>.
\<close>

definition contents :: "(string \<Rightarrow> 64 word) \<Rightarrow> ValueCache \<Rightarrow> string \<Rightarrow> ValueState option" where
  "contents fp c = cview (shardIndex fp c) (vc_shards c)"

lemma Load_contents: "contents fp c k = map_option erase (Load fp c k)"
  by (simp add: contents_def cview_def view_def Load_def)

definition config_ok :: "ValueCache \<Rightarrow> bool" where
  "config_ok c \<longleftrightarrow> length (vc_shards c) \<in> {64, 128, 256}
     \<and> vc_shardMask c = of_nat (length (vc_shards c) - 1)
     \<and> 1 \<le> vc_publishSlots c \<and> vc_publishSlots c \<le> 65535 \<and> 1 \<le> vc_missThreshold c"

definition entry_ok :: "(string \<Rightarrow> 64 word) \<Rightarrow> ValueCache \<Rightarrow> nat \<Rightarrow> string \<Rightarrow> ValueState \<Rightarrow> bool" where
  "entry_ok fp c V k st \<longleftrightarrow>
     vs_ItemID st = k \<and> 0 < vs_ValueVersion st \<and> vs_ValueVersion st \<le> V
     \<and> vs_LastPublishedVersion st \<le> vs_ValueVersion st
     \<and> vs_PublishSlot st = publishSlot fp c k
     \<and> 0 < vs_Delay st
     \<and> vs_PublishPolicy st = PublishPolicyForDelay (vs_Delay st)
     \<and> vs_ExpireAt st = ValueExpireAt (vs_SourceTimestamp st) (vs_Delay st)
     \<and> 0 \<le> vs_SourceNS st \<and> vs_SourceNS st < Second
     \<and> vs_SourceTimestamp st mod Second = vs_SourceNS st
     \<and> vs_ConsecutiveMisses st < 2 ^ 32
     \<and> (\<not> vs_Valid st \<longrightarrow> vc_missThreshold c \<le> vs_ConsecutiveMisses st)
     \<and> \<not> f64_IsNaN (vs_Value st) \<and> \<not> f64_IsInf (vs_Value st)"

definition flat_inv :: "(string \<Rightarrow> 64 word) \<Rightarrow> ValueCache \<Rightarrow> (string \<Rightarrow> ValueState option) \<Rightarrow> nat \<Rightarrow> int \<Rightarrow> bool" where
  "flat_inv fp c m V E \<longleftrightarrow>
     (\<forall>k st. m k = Some st \<longrightarrow> entry_ok fp c V k st)
     \<and> (\<forall>k k' st st'. m k = Some st \<longrightarrow> m k' = Some st' \<longrightarrow> vs_ValueVersion st = vs_ValueVersion st' \<longrightarrow> k = k')
     \<and> finite (dom m) \<and> E = int (card (dom m))"

definition cache_inv :: "(string \<Rightarrow> 64 word) \<Rightarrow> ValueCache \<Rightarrow> bool" where
  "cache_inv fp c \<longleftrightarrow> config_ok c
     \<and> (\<forall>s \<in> set (vc_shards c). shard_ok (vc_nextValueVersion c) s)
     \<and> (\<forall>i k. i < length (vc_shards c) \<longrightarrow> shardIndex fp c k \<noteq> i \<longrightarrow> view (vc_shards c ! i) k = None)
     \<and> flat_inv fp c (contents fp c) (vc_nextValueVersion c) (vc_entries c)
     \<and> vc_nextValueVersion c < 2 ^ 64"

lemma cache_invD:
  assumes "cache_inv fp c"
  shows "config_ok c" and "\<And>s. s \<in> set (vc_shards c) \<Longrightarrow> shard_ok (vc_nextValueVersion c) s"
    and "\<And>i k. i < length (vc_shards c) \<Longrightarrow> shardIndex fp c k \<noteq> i \<Longrightarrow> view (vc_shards c ! i) k = None"
    and "flat_inv fp c (contents fp c) (vc_nextValueVersion c) (vc_entries c)"
    and "vc_nextValueVersion c < 2 ^ 64"
  using assms by (auto simp: cache_inv_def)

lemma flat_invD:
  assumes "flat_inv fp c m V E"
  shows "\<And>k st. m k = Some st \<Longrightarrow> entry_ok fp c V k st"
    and "\<And>k k' st st'. m k = Some st \<Longrightarrow> m k' = Some st' \<Longrightarrow> vs_ValueVersion st = vs_ValueVersion st' \<Longrightarrow> k = k'"
    and "finite (dom m)" and "E = int (card (dom m))"
  using assms unfolding flat_inv_def by blast+

lemma cache_entry: "cache_inv fp c \<Longrightarrow> contents fp c k = Some st \<Longrightarrow> entry_ok fp c (vc_nextValueVersion c) k st"
  using cache_invD(4) flat_invD(1) by blast

lemma shardIndex_less:
  assumes "config_ok c"
  shows "shardIndex fp c k < length (vc_shards c)"
proof -
  have len: "length (vc_shards c) \<in> {64, 128, 256}" and m: "vc_shardMask c = of_nat (length (vc_shards c) - 1)"
    using assms by (auto simp: config_ok_def)
  have "fp k AND vc_shardMask c \<le> vc_shardMask c" by (rule word_and_le1)
  then have "unat (fp k AND vc_shardMask c) \<le> unat (vc_shardMask c)" by (simp add: word_le_nat_alt)
  also have "unat (vc_shardMask c) = length (vc_shards c) - 1" using len m by auto
  finally show ?thesis using len by (auto simp: shardIndex_def)
qed

lemma entry_ok_mono: "entry_ok fp c V k st \<Longrightarrow> V \<le> V' \<Longrightarrow> entry_ok fp c V' k st"
  by (auto simp: entry_ok_def)

section \<open>The actions keep the flat invariant\<close>

lemma flat_inv_same:
  assumes "flat_inv fp c m V E" "m k = Some st" "entry_ok fp c V k st'"
    "vs_ValueVersion st' = vs_ValueVersion st"
  shows "flat_inv fp c (m(k := Some st')) V E"
proof -
  have d: "dom (m(k := Some st')) = dom m" using assms(2) by auto
  have "entry_ok fp c V j u" if "(m(k := Some st')) j = Some u" for j u
    using that flat_invD(1) [OF assms(1), of j u] assms(3) by (auto split: if_splits)
  moreover have "j = j'" if "(m(k := Some st')) j = Some u" "(m(k := Some st')) j' = Some u'"
    "vs_ValueVersion u = vs_ValueVersion u'" for j j' u u'
    using that flat_invD(2) [OF assms(1), of j "if j = k then st else u" j' "if j' = k then st else u'"]
      assms(2,4) by (auto split: if_splits)
  ultimately show ?thesis using flat_invD(3,4) [OF assms(1)] unfolding flat_inv_def d by blast
qed

lemma flat_inv_new:
  assumes inv: "flat_inv fp c m V E" and ok: "entry_ok fp c (Suc V) k st'" and ver: "vs_ValueVersion st' = Suc V"
  shows "flat_inv fp c (m(k := Some st')) (Suc V) (if m k = None then E + 1 else E)"
proof -
  let ?m = "m(k := Some st')"
  have d: "dom ?m = insert k (dom m)" by simp
  have old: "vs_ValueVersion st \<noteq> Suc V" if "m j = Some st" for j st
    using flat_invD(1) [OF inv that] unfolding entry_ok_def by linarith
  have 1: "entry_ok fp c (Suc V) j st" if "?m j = Some st" for j st
  proof (cases "j = k")
    case True
    with that ok show ?thesis by simp
  next
    case False
    with that have "m j = Some st" by simp
    from flat_invD(1) [OF inv this] show ?thesis by (rule entry_ok_mono) simp
  qed
  have 2: "j = j'" if j: "?m j = Some st" and j': "?m j' = Some st''"
    and eq: "vs_ValueVersion st = vs_ValueVersion st''" for j j' st st''
  proof (rule ccontr)
    assume ne: "j \<noteq> j'"
    consider "j = k" "m j' = Some st''" | "j' = k" "m j = Some st" | "m j = Some st" "m j' = Some st''"
      using j j' ne by (metis fun_upd_apply)
    then show False
    proof cases
      case 1
      then show False using old [OF 1(2)] j eq ver by simp
    next
      case 2
      then show False using old [OF 2(2)] j' eq ver by simp
    next
      case 3
      then show False using flat_invD(2) [OF inv 3 eq] ne by blast
    qed
  qed
  have f: "finite (dom m)" and E: "E = int (card (dom m))" using flat_invD(3,4) [OF inv] by blast+
  have 3: "(if m k = None then E + 1 else E) = int (card (insert k (dom m)))"
    unfolding E using f by (simp add: card_insert_if domIff)
  show ?thesis
    unfolding flat_inv_def d 3 using 1 2 f by blast
qed

lemma flat_inv_remove:
  assumes "flat_inv fp c m V E"
  shows "flat_inv fp c (m(k := None)) V (if m k = None then E else E - 1)"
proof -
  have d: "dom (m(k := None)) = dom m - {k}" by auto
  have f: "finite (dom m)" and E: "E = int (card (dom m))" using flat_invD(3,4) [OF assms] .
  have "int (card (dom m - {k})) = (if m k = None then E else E - 1)"
  proof (cases "m k")
    case None
    then have "dom m - {k} = dom m" by auto
    with None E show ?thesis by simp
  next
    case (Some st)
    then have "k \<in> dom m" by auto
    then have "Suc (card (dom m - {k})) = card (dom m)" using f by (rule card_Suc_Diff1 [rotated])
    then show ?thesis using Some E by simp
  qed
  then show ?thesis using assms f by (auto simp: flat_inv_def d)
qed

lemma miss_entry_ok:
  assumes "entry_ok fp c V k st"
  shows "entry_ok fp c V k (fst (miss_state (vc_missThreshold c) t st))"
    and "vs_ValueVersion (fst (miss_state (vc_missThreshold c) t st)) = vs_ValueVersion st"
  using assms by (auto simp: entry_ok_def miss_state_def Let_def)

lemma ack_entry_ok:
  assumes "entry_ok fp c V k st" "vs_ValueVersion st = pa_ValueVersion ack"
  shows "entry_ok fp c V k (fst (ack_state ack st))"
    and "vs_ValueVersion (fst (ack_state ack st)) = vs_ValueVersion st"
  using assms by (auto simp: entry_ok_def ack_state_def Let_def)

lemma miss_astep_inv:
  assumes "flat_inv fp c m V E"
  shows "flat_inv fp c (fst (astep (\<lambda>x. x) (miss_act (vc_missThreshold c) t) k (m, r))) V E"
proof (cases "m k")
  case None
  then have "m(k := None) = m" by auto
  with None assms show ?thesis by (simp add: astep_def miss_act_def)
next
  case (Some st)
  note ok = miss_entry_ok [OF flat_invD(1) [OF assms Some], of t]
  have "flat_inv fp c (m(k := Some (fst (miss_state (vc_missThreshold c) t st)))) V E"
    by (rule flat_inv_same [OF assms Some ok])
  with Some show ?thesis
    by (cases "miss_state (vc_missThreshold c) t st") (simp add: astep_def miss_act_def)
qed

lemma delete_astep_inv:
  assumes "flat_inv fp c m V (snd r)"
  shows "flat_inv fp c (fst (astep (\<lambda>x. x) delete_act k (m, r))) V (snd (snd (astep (\<lambda>x. x) delete_act k (m, r))))"
  using flat_inv_remove [OF assms, of k]
  by (cases r) (auto simp: astep_def delete_act_def split: if_splits)

lemma delete_versioned_astep_inv:
  assumes "flat_inv fp c m V (snd r)"
  shows "flat_inv fp c (fst (astep vi_ItemID delete_versioned_act x (m, r))) V
     (snd (snd (astep vi_ItemID delete_versioned_act x (m, r))))"
proof (cases "m (vi_ItemID x)")
  case None
  then have "m(vi_ItemID x := None) = m" by auto
  with None assms show ?thesis by (cases r) (simp add: astep_def delete_versioned_act_def)
next
  case (Some st)
  then have "m(vi_ItemID x := Some st) = m" by auto
  with Some assms flat_inv_remove [OF assms, of "vi_ItemID x"] show ?thesis
    by (cases r) (auto simp: astep_def delete_versioned_act_def)
qed

lemma ack_astep_inv:
  assumes "flat_inv fp c m V E"
  shows "flat_inv fp c (fst (astep pa_ItemID ack_act x (m, r))) V E"
proof (cases "m (pa_ItemID x)")
  case None
  then have "m(pa_ItemID x := None) = m" by auto
  with None assms show ?thesis by (simp add: astep_def ack_act_def)
next
  case (Some st)
  then have same: "m(pa_ItemID x := Some st) = m" by auto
  have new: "flat_inv fp c (m(pa_ItemID x := Some (fst (ack_state x st)))) V E"
    if "vs_ValueVersion st = pa_ValueVersion x"
    by (rule flat_inv_same [OF assms Some ack_entry_ok [OF flat_invD(1) [OF assms Some] that]])
  show ?thesis
    by (cases "ack_state x st") (use Some same new assms in \<open>auto simp: astep_def ack_act_def\<close>)
qed

definition pending_ok :: "pendingValue \<Rightarrow> bool" where
  "pending_ok p \<longleftrightarrow> 0 < pd_delay p \<and> 0 \<le> pd_ns p \<and> pd_ns p < Second
     \<and> \<not> f64_IsNaN (pd_value p) \<and> \<not> f64_IsInf (pd_value p)"

lemma new_state_ok:
  "pending_ok p \<Longrightarrow> entry_ok fp c (Suc V) (pd_itemID p) (new_state fp c p (Suc V))"
  by (simp add: entry_ok_def new_state_def pending_ok_def Let_def time_Unix_nsec Second_def)

lemma apply_astep_inv:
  assumes inv: "flat_inv fp c m (rn_nextVersion r) (rn_entries r)"
    and bound: "rn_nextVersion r + Suc n < 2 ^ 64" and ok: "pending_ok p"
    and st: "astep pd_itemID (apply_act fp source c) p (m, r) = (m', r')"
  shows "flat_inv fp c m' (rn_nextVersion r') (rn_entries r') \<and> rn_nextVersion r' + n < 2 ^ 64"
proof (cases rule: apply_cases [where source = source and r = r and p = p and old = "m (pd_itemID p)"])
  case Stale
  have "m(pd_itemID p := m (pd_itemID p)) = m" by simp
  with Stale st inv bound show ?thesis by (auto simp: astep_def apply_act_def Let_def)
next
  case (Unchanged current)
  have "entry_ok fp c (rn_nextVersion r) (pd_itemID p) (current\<lparr>vs_LastFetchAt := pd_fetchedAt p\<rparr>)"
    using flat_invD(1) [OF inv Unchanged(2)] by (simp add: entry_ok_def)
  from flat_inv_same [OF inv Unchanged(2) this] Unchanged st bound show ?thesis
    by (auto simp: astep_def apply_act_def Let_def)
next
  case Written
  have i: "inc64 (rn_nextVersion r) = Suc (rn_nextVersion r)" using bound by (simp add: inc64_id)
  have "flat_inv fp c (m(pd_itemID p := Some (new_state fp c p (Suc (rn_nextVersion r)))))
      (Suc (rn_nextVersion r)) (if m (pd_itemID p) = None then rn_entries r + 1 else rn_entries r)"
    by (rule flat_inv_new [OF inv new_state_ok [OF ok]]) simp
  moreover have "m' = m(pd_itemID p := Some (new_state fp c p (Suc (rn_nextVersion r))))"
    "rn_nextVersion r' = Suc (rn_nextVersion r)"
    "rn_entries r' = (if m (pd_itemID p) = None then rn_entries r + 1 else rn_entries r)"
    using st Written i by (auto simp: astep_def apply_act_def Let_def split: option.splits)
  ultimately show ?thesis using bound by simp
qed

section \<open>The pending values of a batch\<close>

definition pending_of :: "(string \<Rightarrow> go_error + float64) \<Rightarrow> MetadataSnapshot \<Rightarrow> time
    \<Rightarrow> string \<times> HistoryItem \<Rightarrow> pendingValue option" where
  "pending_of parseFloat sn fetchedAt e =
     (case mptr (sn_Items sn) (fst e) of
        None \<Rightarrow> None
      | Some item \<Rightarrow>
          if \<not> im_Enabled item \<or> im_Delay item \<le> 0 \<or> im_ValueType item \<noteq> ''0'' \<and> im_ValueType item \<noteq> ''3''
          then None
          else (case parseFloat (hi_Value (snd e)) of
                  Inl err \<Rightarrow> None
                | Inr value \<Rightarrow>
                    if f64_IsNaN value \<or> f64_IsInf value \<or> hi_NS (snd e) < 0 \<or> hi_NS (snd e) \<ge> Second
                    then None
                    else Some \<lparr>pd_itemID = fst e, pd_value = value, pd_clock = hi_Clock (snd e),
                           pd_ns = hi_NS (snd e), pd_delay = im_Delay item,
                           pd_metadataVersion = im_Version item, pd_fetchedAt = fetchedAt\<rparr>))"

lemma pending_step_snd:
  "snd (pending_step pf sn t e (r, ps)) = ps @ (case pending_of pf sn t e of None \<Rightarrow> [] | Some p \<Rightarrow> [p])"
  by (cases e) (auto simp: pending_step_def pending_of_def split: option.split sum.split)

lemma pending_step_run:
  "rn_nextVersion (fst (pending_step pf sn t e (r, ps))) = rn_nextVersion r"
  "rn_entries (fst (pending_step pf sn t e (r, ps))) = rn_entries r"
  "rn_outcomes (fst (pending_step pf sn t e (r, ps))) = rn_outcomes r"
  "rn_expiry (fst (pending_step pf sn t e (r, ps))) = rn_expiry r"
  by (cases e; auto simp: pending_step_def split: option.split sum.split)+

lemma pending_ofD:
  "pending_of pf sn t e = Some p \<Longrightarrow> pending_ok p \<and> pd_itemID p = fst e"
  by (auto simp: pending_of_def pending_ok_def split: option.splits sum.splits if_splits)

lemma fold_pending:
  "snd (fold (pending_step pf sn t) es (r, ps)) = ps @ List.map_filter (pending_of pf sn t) es"
proof (induction es arbitrary: r ps)
  case Nil
  then show ?case by (simp add: map_filter_def)
next
  case (Cons e es)
  obtain r' ps' where e: "pending_step pf sn t e (r, ps) = (r', ps')"
    by (cases "pending_step pf sn t e (r, ps)")
  then have "ps' = ps @ (case pending_of pf sn t e of None \<Rightarrow> [] | Some p \<Rightarrow> [p])"
    using pending_step_snd [of pf sn t e r ps] by simp
  then show ?case
    using Cons.IH [of r' ps'] e by (cases "pending_of pf sn t e") (simp_all add: map_filter_def)
qed

lemma fold_pending_run:
  "rn_nextVersion (fst (fold (pending_step pf sn t) es (r, ps))) = rn_nextVersion r
   \<and> rn_entries (fst (fold (pending_step pf sn t) es (r, ps))) = rn_entries r
   \<and> rn_outcomes (fst (fold (pending_step pf sn t) es (r, ps))) = rn_outcomes r
   \<and> rn_expiry (fst (fold (pending_step pf sn t) es (r, ps))) = rn_expiry r"
proof (induction es arbitrary: r ps)
  case (Cons e es)
  obtain r' ps' where e: "pending_step pf sn t e (r, ps) = (r', ps')"
    by (cases "pending_step pf sn t e (r, ps)")
  then show ?case using Cons.IH [of r' ps'] pending_step_run [of pf sn t e r ps] by simp
qed simp_all

lemma query_step_run:
  "rn_nextVersion (fold (query_step source sn) ids r) = rn_nextVersion r"
  "rn_entries (fold (query_step source sn) ids r) = rn_entries r"
  "rn_outcomes (fold (query_step source sn) ids r) = rn_outcomes r"
  "rn_expiry (fold (query_step source sn) ids r) = rn_expiry r"
  by (induction ids arbitrary: r; simp add: query_step_def Let_def split: option.split)+

lemma pendings_distinct:
  assumes "wf_map es"
  shows "distinct (map pd_itemID (List.map_filter (pending_of pf sn t) es))"
proof -
  have "distinct (map pd_itemID (List.map_filter (pending_of pf sn t) es))
      \<and> set (map pd_itemID (List.map_filter (pending_of pf sn t) es)) \<subseteq> set (mkeys es)"
    using assms
  proof (induction es)
    case (Cons e es)
    have w: "wf_map es" "fst e \<notin> set (mkeys es)" using Cons.prems by (simp_all add: wf_map_def)
    show ?case
    proof (cases "pending_of pf sn t e")
      case (Some p)
      with Cons.IH [OF w(1)] w(2) pending_ofD [OF Some] show ?thesis by (auto simp: map_filter_def)
    qed (use Cons.IH [OF w(1)] in \<open>auto simp: map_filter_def\<close>)
  qed (simp add: map_filter_def)
  then show ?thesis by blast
qed

lemma pendings_in:
  "p \<in> set (List.map_filter (pending_of pf sn t) es) \<longleftrightarrow> (\<exists>e \<in> set es. pending_of pf sn t e = Some p)"
  by (induction es) (auto simp: map_filter_def split: option.splits)

lemma pendings_length: "length (List.map_filter f es) \<le> length es"
  by (simp add: map_filter_def)

end
