(* ===== verification/Cache_Operations.thy ===== *)
theory Cache_Operations
  imports Cache_Invariant
begin

text \<open>
  The writing operations of the value cache as a reader sees them.  Each operation is a simulation of
  its actions on the flat map of entries (\<open>_sim\<close> lemmas); from there come the invariant, the effect on
  each entry and the counters of the result.
\<close>

section \<open>From the shards to the flat map\<close>

lemma frame_config [simp]:
  "shardIndex fp (c\<lparr>vc_shards := S\<rparr>) = shardIndex fp c"
  "shardIndex fp (c\<lparr>vc_nextValueVersion := V\<rparr>) = shardIndex fp c"
  "shardIndex fp (c\<lparr>vc_entries := E\<rparr>) = shardIndex fp c"
  "entry_ok fp (c\<lparr>vc_shards := S\<rparr>) = entry_ok fp c"
  "entry_ok fp (c\<lparr>vc_nextValueVersion := V\<rparr>) = entry_ok fp c"
  "entry_ok fp (c\<lparr>vc_entries := E\<rparr>) = entry_ok fp c"
  by (simp_all add: shardIndex_def publishSlot_def entry_ok_def fun_eq_iff)

lemma cache_inv_update:
  assumes "config_ok c" "length S = length (vc_shards c)" "\<And>s. s \<in> set S \<Longrightarrow> shard_ok V s"
    "\<And>i k. i < length S \<Longrightarrow> shardIndex fp c k \<noteq> i \<Longrightarrow> view (S ! i) k = None"
    "flat_inv fp c (cview (shardIndex fp c) S) V E" "V < 2 ^ 64"
  shows "cache_inv fp (c\<lparr>vc_shards := S, vc_nextValueVersion := V, vc_entries := E\<rparr>)"
  using assms by (simp add: cache_inv_def config_ok_def contents_def flat_inv_def)

lemma grouped_filter_length:
  assumes "config_ok c"
  shows "length (filter p (grouped (\<lambda>x. shardIndex fp c (f x)) (length (vc_shards c)) xs)) = length (filter p xs)"
proof -
  have "mset (grouped (\<lambda>x. shardIndex fp c (f x)) (length (vc_shards c)) xs) = mset xs"
    using shardIndex_less [OF assms] by (intro mset_grouped)
  then show ?thesis by (metis mset_filter size_mset)
qed

lemma grouped_filter_key:
  assumes "config_ok c"
  shows "filter (\<lambda>x. f x = k) (grouped (\<lambda>x. shardIndex fp c (f x)) (length (vc_shards c)) xs) = filter (\<lambda>x. f x = k) xs"
  using shardIndex_less [OF assms] by (intro filter_grouped [where j = "shardIndex fp c k"]) auto

lemma grouped_distinct:
  assumes "config_ok c" "distinct (map f xs)"
  shows "distinct (map f (grouped (\<lambda>x. shardIndex fp c (f x)) (length (vc_shards c)) xs))"
proof -
  have "mset (grouped (\<lambda>x. shardIndex fp c (f x)) (length (vc_shards c)) xs) = mset xs"
    using shardIndex_less [OF assms(1)] by (intro mset_grouped)
  then have "mset (map f (grouped (\<lambda>x. shardIndex fp c (f x)) (length (vc_shards c)) xs)) = mset (map f xs)"
    by simp
  then show ?thesis using assms(2) by (metis mset_eq_imp_distinct_iff)
qed

lemma grouped_set:
  assumes "config_ok c"
  shows "set (grouped (\<lambda>x. shardIndex fp c (f x)) (length (vc_shards c)) xs) = set xs"
  using mset_grouped [of xs "\<lambda>x. shardIndex fp c (f x)" "length (vc_shards c)"] shardIndex_less [OF assms]
  by (metis set_mset_mset)

lemma dedup_snoc: "dedup (ids @ [x]) = (if x \<in> set (dedup ids) then dedup ids else dedup ids @ [x])"
  by (simp add: dedup_def)

lemma dedup_facts: "set (dedup ids) = set ids \<and> distinct (dedup ids)"
proof (induction ids rule: rev_induct)
  case Nil
  then show ?case by (simp add: dedup_def)
next
  case (snoc x ids)
  then show ?case by (auto simp: dedup_snoc)
qed

lemmas set_dedup = dedup_facts [THEN conjunct1]
lemmas distinct_dedup = dedup_facts [THEN conjunct2]

lemma filter_dedup: "filter (\<lambda>x. x = k) (dedup ids) = (if k \<in> set ids then [k] else [])"
proof (induction ids rule: rev_induct)
  case Nil
  then show ?case by (simp add: dedup_def)
next
  case (snoc x ids)
  then show ?case using set_dedup [of ids] by (auto simp: dedup_snoc)
qed

text \<open>What every run over the shards leaves: the same configuration, shards that keep their own
  invariant, and no entry outside the shard its fingerprint selects.\<close>

definition runs_to :: "(string \<Rightarrow> 64 word) \<Rightarrow> ValueCache \<Rightarrow> ValueCache \<Rightarrow> bool" where
  "runs_to fp c c' \<longleftrightarrow> (\<exists>S V E. c' = c\<lparr>vc_shards := S, vc_nextValueVersion := V, vc_entries := E\<rparr>
     \<and> length S = length (vc_shards c) \<and> (\<forall>s \<in> set S. shard_ok V s) \<and> V < 2 ^ 64
     \<and> (\<forall>i k. shardIndex fp c k \<noteq> i \<longrightarrow> view (S ! i) k = view (vc_shards c ! i) k))"

lemma runs_to_frame:
  assumes "runs_to fp c c'"
  shows "shardIndex fp c' = shardIndex fp c" and "entry_ok fp c' = entry_ok fp c"
    and "vc_missThreshold c' = vc_missThreshold c" and "vc_publishSlots c' = vc_publishSlots c"
    and "length (vc_shards c') = length (vc_shards c)"
  using assms by (auto simp: runs_to_def)

lemma runs_to_inv:
  assumes "runs_to fp c c'" "cache_inv fp c"
    and "flat_inv fp c (contents fp c') (vc_nextValueVersion c') (vc_entries c')"
  shows "cache_inv fp c'"
proof -
  obtain S V E where c': "c' = c\<lparr>vc_shards := S, vc_nextValueVersion := V, vc_entries := E\<rparr>"
    and S: "length S = length (vc_shards c)" "\<forall>s \<in> set S. shard_ok V s" "V < 2 ^ 64"
      "\<forall>i k. shardIndex fp c k \<noteq> i \<longrightarrow> view (S ! i) k = view (vc_shards c ! i) k"
    using assms(1) unfolding runs_to_def by blast
  have "contents fp c' = cview (shardIndex fp c) S" by (simp add: contents_def c')
  with assms(3) have "flat_inv fp c (cview (shardIndex fp c) S) V E" by (simp add: c')
  with S cache_invD(1,3) [OF assms(2)] show ?thesis
    unfolding c' by (intro cache_inv_update) auto
qed

lemma runs_toI:
  assumes "c' = c\<lparr>vc_shards := S, vc_nextValueVersion := V, vc_entries := E\<rparr>"
    and "length S = length (vc_shards c)" "\<And>s. s \<in> set S \<Longrightarrow> shard_ok V s" "V < 2 ^ 64"
    and "\<And>i k. shardIndex fp c k \<noteq> i \<Longrightarrow> view (S ! i) k = view (vc_shards c ! i) k"
  shows "runs_to fp c c'"
  unfolding runs_to_def using assms by blast

abbreviation by_shard :: "(string \<Rightarrow> 64 word) \<Rightarrow> ValueCache \<Rightarrow> ('a \<Rightarrow> string) \<Rightarrow> 'a list \<Rightarrow> 'a list" where
  "by_shard fp c item xs \<equiv> grouped (\<lambda>x. shardIndex fp c (item x)) (length (vc_shards c)) xs"

section \<open>MarkMiss\<close>

lemma MarkMiss_sim:
  assumes "cache_inv fp c" and "MarkMiss fp c ids t = (c', res)"
  shows "fold (astep (\<lambda>x. x) (miss_act (vc_missThreshold c) t)) (by_shard fp c (\<lambda>x. x) (dedup ids))
      (contents fp c, \<lparr>mr_Marked = 0, mr_Invalidated = 0, mr_NotFound = 0\<rparr>) = (contents fp c', res)"
    and "runs_to fp c c'" and "vc_nextValueVersion c' = vc_nextValueVersion c" "vc_entries c' = vc_entries c"
proof -
  note inv = cache_invD [OF assms(1)]
  obtain S where run: "run_shards (miss_step (vc_missThreshold c) t) id (\<lambda>x. shardIndex fp c x) (dedup ids)
      (vc_shards c, \<lparr>mr_Marked = 0, mr_Invalidated = 0, mr_NotFound = 0\<rparr>) = (S, res)"
    and c': "c' = c\<lparr>vc_shards := S\<rparr>"
    using assms(2) by (auto simp: MarkMiss_def split: prod.splits)
  note sim = miss.run_sim [OF shardIndex_less [OF inv(1)] inv(2) run]
  show "fold (astep (\<lambda>x. x) (miss_act (vc_missThreshold c) t)) (by_shard fp c (\<lambda>x. x) (dedup ids))
      (contents fp c, \<lparr>mr_Marked = 0, mr_Invalidated = 0, mr_NotFound = 0\<rparr>) = (contents fp c', res)"
    using sim(1) by (simp add: contents_def c')
  show "runs_to fp c c'"
    by (rule runs_toI [OF _ sim(2,3) inv(5) sim(4), where E = "vc_entries c"]) (simp_all add: c')
qed (use assms(2) in \<open>auto simp: MarkMiss_def split: prod.splits\<close>)

definition miss_eff :: "nat \<Rightarrow> time \<Rightarrow> ValueState option \<Rightarrow> ValueState option" where
  "miss_eff thr t = map_option (\<lambda>st. fst (miss_state thr t st))"

lemma miss_act_state: "fst (miss_act thr t k r old) = miss_eff thr t old"
  by (cases old) (auto simp: miss_act_def miss_eff_def split: prod.split)

lemma MarkMiss_contents:
  assumes "cache_inv fp c" and "MarkMiss fp c ids t = (c', res)"
  shows "contents fp c' k = (if k \<in> set ids then miss_eff (vc_missThreshold c) t (contents fp c k)
    else contents fp c k)"
proof -
  have "contents fp c' k = fold (\<lambda>_. miss_eff (vc_missThreshold c) t)
      (filter (\<lambda>x. x = k) (by_shard fp c (\<lambda>x. x) (dedup ids))) (contents fp c k)"
    using fold_astep_lookup [where act = "miss_act (vc_missThreshold c) t" and item = "\<lambda>x. x"
        and eff = "\<lambda>_. miss_eff (vc_missThreshold c) t", OF miss_act_state]
      MarkMiss_sim(1) [OF assms] by (metis fst_conv)
  then show ?thesis
    by (simp add: grouped_filter_key [OF cache_invD(1) [OF assms(1)], of "\<lambda>x. x"] filter_dedup)
qed

lemma MarkMiss_inv [inv_intros]:
  assumes "cache_inv fp c" and "MarkMiss fp c ids t = (c', res)"
  shows "cache_inv fp c'"
proof (rule runs_to_inv [OF MarkMiss_sim(2) [OF assms] assms(1)])
  let ?P = "\<lambda>_ st. flat_inv fp c (fst st) (vc_nextValueVersion c) (vc_entries c)"
  have "?P 0 (fold (astep (\<lambda>x. x) (miss_act (vc_missThreshold c) t)) (by_shard fp c (\<lambda>x. x) (dedup ids))
      (contents fp c, \<lparr>mr_Marked = 0, mr_Invalidated = 0, mr_NotFound = 0\<rparr>))"
    by (rule fold_astep_invariant [where P = ?P])
      (simp_all only: fst_conv cache_invD(4) [OF assms(1)] miss_astep_inv)
  then show "flat_inv fp c (contents fp c') (vc_nextValueVersion c') (vc_entries c')"
    using MarkMiss_sim [OF assms] by simp
qed

text \<open>Counting over the shards is counting over the items: the order of the shards does not matter.\<close>

lemma fold_count:
  assumes "\<And>x r. f (stp x r) = (if P x then Suc (f r) else f r :: nat)"
  shows "f (fold stp xs r) = f r + length (filter P xs)"
  by (induction xs arbitrary: r) (simp_all add: assms)

lemma run_count:
  assumes "config_ok c" and "distinct (map item xs)"
    and run: "fold (astep item act) (by_shard fp c item xs) (m, r) = (m', res)"
    and count: "\<And>x r. f (snd (act x r (m (item x)))) = (if P x then Suc (f r) else f r :: nat)"
  shows "f res = f r + length (filter P xs)"
proof -
  have "distinct (map item (by_shard fp c item xs))"
    using assms(1,2) by (rule grouped_distinct)
  from fold_astep_result [where act = act and m = m and r = r and tally = "\<lambda>x old r. snd (act x r old)", OF this refl]
  have "res = fold (\<lambda>x r. snd (act x r (m (item x)))) (by_shard fp c item xs) r"
    by (simp add: run)
  then have "f res = f r + length (filter P (by_shard fp c item xs))"
    using fold_count [where f = f and P = P and stp = "\<lambda>x r. snd (act x r (m (item x)))"] count by simp
  then show ?thesis by (simp add: grouped_filter_length [OF assms(1)])
qed

lemma MarkMiss_counts:
  assumes "cache_inv fp c" and "MarkMiss fp c ids t = (c', res)"
  shows "mr_Marked res = length (filter (\<lambda>k. contents fp c k \<noteq> None) (dedup ids))"
    and "mr_NotFound res = length (filter (\<lambda>k. contents fp c k = None) (dedup ids))"
    and "mr_Invalidated res = length (filter (\<lambda>k. case contents fp c k of None \<Rightarrow> False
           | Some st \<Rightarrow> snd (miss_state (vc_missThreshold c) t st)) (dedup ids))"
proof -
  note count = run_count [OF cache_invD(1) [OF assms(1)] _ MarkMiss_sim(1) [OF assms], simplified, OF distinct_dedup]
  have split: "snd (miss_act thr t k r old) =
      (case old of None \<Rightarrow> r\<lparr>mr_NotFound := Suc (mr_NotFound r)\<rparr>
       | Some st \<Rightarrow> (if snd (miss_state thr t st) then r\<lparr>mr_Invalidated := Suc (mr_Invalidated r)\<rparr> else r)
           \<lparr>mr_Marked := Suc (mr_Marked r)\<rparr>)" for thr k r old
    by (simp add: miss_act_def split: option.split prod.split)
  show "mr_Marked res = length (filter (\<lambda>k. contents fp c k \<noteq> None) (dedup ids))"
    by (subst count [where f = mr_Marked and P = "\<lambda>k. contents fp c k \<noteq> None"])
      (simp_all add: split split: option.split)
  show "mr_NotFound res = length (filter (\<lambda>k. contents fp c k = None) (dedup ids))"
    by (subst count [where f = mr_NotFound and P = "\<lambda>k. contents fp c k = None"])
      (simp_all add: split split: option.split)
  show "mr_Invalidated res = length (filter (\<lambda>k. case contents fp c k of None \<Rightarrow> False
           | Some st \<Rightarrow> snd (miss_state (vc_missThreshold c) t st)) (dedup ids))"
    by (subst count [where f = mr_Invalidated and P = "\<lambda>k. case contents fp c k of None \<Rightarrow> False
           | Some st \<Rightarrow> snd (miss_state (vc_missThreshold c) t st)"])
      (simp_all add: split split: option.split)
qed

section \<open>Delete\<close>

lemma Delete_sim:
  assumes "cache_inv fp c" and "Delete fp c ids reason = (c', res)"
  shows "fold (astep (\<lambda>x. x) delete_act) (by_shard fp c (\<lambda>x. x) (dedup ids))
      (contents fp c, newDeleteResult reason, vc_entries c) = (contents fp c', res, vc_entries c')"
    and "runs_to fp c c'" and "vc_nextValueVersion c' = vc_nextValueVersion c"
proof -
  note inv = cache_invD [OF assms(1)]
  obtain S E where run: "run_shards delete_step compactOrder (\<lambda>x. shardIndex fp c x) (dedup ids)
      (vc_shards c, newDeleteResult reason, vc_entries c) = (S, res, E)"
    and c': "c' = c\<lparr>vc_shards := S, vc_entries := E\<rparr>"
    using assms(2) by (auto simp: Delete_def split: prod.splits)
  note sim = del.run_sim [OF shardIndex_less [OF inv(1)] inv(2) run]
  show "fold (astep (\<lambda>x. x) delete_act) (by_shard fp c (\<lambda>x. x) (dedup ids))
      (contents fp c, newDeleteResult reason, vc_entries c) = (contents fp c', res, vc_entries c')"
    using sim(1) by (simp add: contents_def c')
  show "runs_to fp c c'"
    by (rule runs_toI [OF _ sim(2,3) inv(5) sim(4), where E = E]) (simp_all add: c')
qed (use assms(2) in \<open>auto simp: Delete_def split: prod.splits\<close>)

lemma delete_act_state: "fst (delete_act k r old) = None"
  by (simp add: delete_act_def split: prod.split)

lemma Delete_contents:
  assumes "cache_inv fp c" and "Delete fp c ids reason = (c', res)"
  shows "contents fp c' k = (if k \<in> set ids then None else contents fp c k)"
proof -
  have "contents fp c' k = fold (\<lambda>_ _. None)
      (filter (\<lambda>x. x = k) (by_shard fp c (\<lambda>x. x) (dedup ids))) (contents fp c k)"
    using fold_astep_lookup [where act = delete_act and item = "\<lambda>x. x" and eff = "\<lambda>_ _. None", OF delete_act_state]
      Delete_sim(1) [OF assms] by (metis fst_conv)
  then show ?thesis
    by (simp add: grouped_filter_key [OF cache_invD(1) [OF assms(1)], of "\<lambda>x. x"] filter_dedup)
qed

lemma Delete_inv [inv_intros]:
  assumes "cache_inv fp c" and "Delete fp c ids reason = (c', res)"
  shows "cache_inv fp c'"
proof (rule runs_to_inv [OF Delete_sim(2) [OF assms] assms(1)])
  let ?P = "\<lambda>_ st. flat_inv fp c (fst st) (vc_nextValueVersion c) (snd (snd st))"
  have "?P 0 (fold (astep (\<lambda>x. x) delete_act) (by_shard fp c (\<lambda>x. x) (dedup ids))
      (contents fp c, newDeleteResult reason, vc_entries c))"
    by (rule fold_astep_invariant [where P = ?P])
      (simp_all only: fst_conv snd_conv cache_invD(4) [OF assms(1)] delete_astep_inv)
  then show "flat_inv fp c (contents fp c') (vc_nextValueVersion c') (vc_entries c')"
    using Delete_sim [OF assms] by simp
qed

lemma Delete_counts:
  assumes "cache_inv fp c" and "Delete fp c ids reason = (c', res)"
  shows "dr_Deleted res = length (filter (\<lambda>k. contents fp c k \<noteq> None) (dedup ids))"
    and "dr_NotFound res = length (filter (\<lambda>k. contents fp c k = None) (dedup ids))"
proof -
  note count = run_count [OF cache_invD(1) [OF assms(1)] _ Delete_sim(1) [OF assms], simplified, OF distinct_dedup]
  show "dr_Deleted res = length (filter (\<lambda>k. contents fp c k \<noteq> None) (dedup ids))"
    using count [where f = "\<lambda>r. dr_Deleted (fst r)" and P = "\<lambda>k. contents fp c k \<noteq> None"]
    by (simp add: delete_act_def newDeleteResult_def split: prod.split)
  show "dr_NotFound res = length (filter (\<lambda>k. contents fp c k = None) (dedup ids))"
    using count [where f = "\<lambda>r. dr_NotFound (fst r)" and P = "\<lambda>k. contents fp c k = None"]
    by (simp add: delete_act_def newDeleteResult_def split: prod.split)
qed

section \<open>DeleteVersioned\<close>

lemma DeleteVersioned_sim:
  assumes "cache_inv fp c" and "DeleteVersioned fp c items reason = (c', res)"
  shows "fold (astep vi_ItemID delete_versioned_act) (by_shard fp c vi_ItemID items)
      (contents fp c, newDeleteResult reason, vc_entries c) = (contents fp c', res, vc_entries c')"
    and "runs_to fp c c'" and "vc_nextValueVersion c' = vc_nextValueVersion c"
proof -
  note inv = cache_invD [OF assms(1)]
  obtain S E where run: "run_shards delete_versioned_step compactOrder (\<lambda>x. shardIndex fp c (vi_ItemID x)) items
      (vc_shards c, newDeleteResult reason, vc_entries c) = (S, res, E)"
    and c': "c' = c\<lparr>vc_shards := S, vc_entries := E\<rparr>"
    using assms(2) by (auto simp: DeleteVersioned_def split: prod.splits)
  note sim = vdel.run_sim [OF shardIndex_less [OF inv(1)] inv(2) run]
  show "fold (astep vi_ItemID delete_versioned_act) (by_shard fp c vi_ItemID items)
      (contents fp c, newDeleteResult reason, vc_entries c) = (contents fp c', res, vc_entries c')"
    using sim(1) by (simp add: contents_def c')
  show "runs_to fp c c'"
    by (rule runs_toI [OF _ sim(2,3) inv(5) sim(4), where E = E]) (simp_all add: c')
qed (use assms(2) in \<open>auto simp: DeleteVersioned_def split: prod.splits\<close>)

definition delete_versioned_eff :: "VersionedItem \<Rightarrow> ValueState option \<Rightarrow> ValueState option" where
  "delete_versioned_eff item old =
     (case old of None \<Rightarrow> None
      | Some st \<Rightarrow> if vs_ValueVersion st = vi_ValueVersion item then None else old)"

lemma delete_versioned_act_state: "fst (delete_versioned_act item r old) = delete_versioned_eff item old"
  by (simp add: delete_versioned_act_def delete_versioned_eff_def split: prod.split option.split)

lemma fold_delete_versioned:
  "fold delete_versioned_eff items old =
     (case old of None \<Rightarrow> None
      | Some st \<Rightarrow> if \<exists>item \<in> set items. vi_ValueVersion item = vs_ValueVersion st then None else old)"
proof (induction items arbitrary: old)
  case (Cons x xs)
  then show ?case by (cases old) (auto simp: delete_versioned_eff_def)
qed (simp split: option.split)

lemma DeleteVersioned_contents:
  assumes "cache_inv fp c" and "DeleteVersioned fp c items reason = (c', res)"
  shows "contents fp c' k = (case contents fp c k of None \<Rightarrow> None
    | Some st \<Rightarrow> if \<lparr>vi_ItemID = k, vi_ValueVersion = vs_ValueVersion st\<rparr> \<in> set items then None else Some st)"
proof -
  have "contents fp c' k = fold delete_versioned_eff
      (filter (\<lambda>x. vi_ItemID x = k) (by_shard fp c vi_ItemID items)) (contents fp c k)"
    using fold_astep_lookup [where act = delete_versioned_act and item = vi_ItemID
        and eff = delete_versioned_eff, OF delete_versioned_act_state]
      DeleteVersioned_sim(1) [OF assms] by (metis fst_conv)
  moreover have "(\<exists>item \<in> set items. vi_ItemID item = k \<and> vi_ValueVersion item = v)
      \<longleftrightarrow> \<lparr>vi_ItemID = k, vi_ValueVersion = v\<rparr> \<in> set items" for v
    by (metis (mono_tags, lifting) VersionedItem.surjective VersionedItem.select_convs(1,2) old.unit.exhaust)
  ultimately show ?thesis
    by (simp add: grouped_filter_key [OF cache_invD(1) [OF assms(1)], of vi_ItemID] fold_delete_versioned
        Bex_def split: option.split)
qed

lemma DeleteVersioned_inv [inv_intros]:
  assumes "cache_inv fp c" and "DeleteVersioned fp c items reason = (c', res)"
  shows "cache_inv fp c'"
proof (rule runs_to_inv [OF DeleteVersioned_sim(2) [OF assms] assms(1)])
  let ?P = "\<lambda>_ st. flat_inv fp c (fst st) (vc_nextValueVersion c) (snd (snd st))"
  have "?P 0 (fold (astep vi_ItemID delete_versioned_act) (by_shard fp c vi_ItemID items)
      (contents fp c, newDeleteResult reason, vc_entries c))"
    by (rule fold_astep_invariant [where P = ?P])
      (simp_all only: fst_conv snd_conv cache_invD(4) [OF assms(1)] delete_versioned_astep_inv)
  then show "flat_inv fp c (contents fp c') (vc_nextValueVersion c') (vc_entries c')"
    using DeleteVersioned_sim [OF assms] by simp
qed

section \<open>AckPublished\<close>

lemma AckPublished_sim:
  assumes "cache_inv fp c" and "AckPublished fp c acks = (c', res)"
  shows "fold (astep pa_ItemID ack_act) (by_shard fp c pa_ItemID acks)
      (contents fp c, \<lparr>ak_Applied = 0, ak_Stale = 0, ak_NotFound = 0\<rparr>) = (contents fp c', res)"
    and "runs_to fp c c'" and "vc_nextValueVersion c' = vc_nextValueVersion c" "vc_entries c' = vc_entries c"
proof -
  note inv = cache_invD [OF assms(1)]
  obtain S where run: "run_shards ack_step id (\<lambda>x. shardIndex fp c (pa_ItemID x)) acks
      (vc_shards c, \<lparr>ak_Applied = 0, ak_Stale = 0, ak_NotFound = 0\<rparr>) = (S, res)"
    and c': "c' = c\<lparr>vc_shards := S\<rparr>"
    using assms(2) by (auto simp: AckPublished_def split: prod.splits)
  note sim = ack.run_sim [OF shardIndex_less [OF inv(1)] inv(2) run]
  show "fold (astep pa_ItemID ack_act) (by_shard fp c pa_ItemID acks)
      (contents fp c, \<lparr>ak_Applied = 0, ak_Stale = 0, ak_NotFound = 0\<rparr>) = (contents fp c', res)"
    using sim(1) by (simp add: contents_def c')
  show "runs_to fp c c'"
    by (rule runs_toI [OF _ sim(2,3) inv(5) sim(4), where E = "vc_entries c"]) (simp_all add: c')
qed (use assms(2) in \<open>auto simp: AckPublished_def split: prod.splits\<close>)

definition ack_eff :: "PublishAck \<Rightarrow> ValueState option \<Rightarrow> ValueState option" where
  "ack_eff ack old =
     (case old of None \<Rightarrow> None
      | Some st \<Rightarrow> if vs_ValueVersion st = pa_ValueVersion ack \<and> snd (ack_state ack st)
                   then Some (fst (ack_state ack st)) else old)"

lemma ack_act_state: "fst (ack_act ack r old) = ack_eff ack old"
  by (auto simp: ack_act_def ack_eff_def split: option.split prod.split)

lemma AckPublished_contents:
  assumes "cache_inv fp c" and "AckPublished fp c acks = (c', res)"
  shows "contents fp c' k = fold ack_eff (filter (\<lambda>a. pa_ItemID a = k) acks) (contents fp c k)"
proof -
  have "contents fp c' k = fold ack_eff
      (filter (\<lambda>x. pa_ItemID x = k) (by_shard fp c pa_ItemID acks)) (contents fp c k)"
    using fold_astep_lookup [where act = ack_act and item = pa_ItemID and eff = ack_eff, OF ack_act_state]
      AckPublished_sim(1) [OF assms] by (metis fst_conv)
  then show ?thesis
    by (simp add: grouped_filter_key [OF cache_invD(1) [OF assms(1)], of pa_ItemID])
qed

lemma AckPublished_inv [inv_intros]:
  assumes "cache_inv fp c" and "AckPublished fp c acks = (c', res)"
  shows "cache_inv fp c'"
proof (rule runs_to_inv [OF AckPublished_sim(2) [OF assms] assms(1)])
  let ?P = "\<lambda>_ st. flat_inv fp c (fst st) (vc_nextValueVersion c) (vc_entries c)"
  have "?P 0 (fold (astep pa_ItemID ack_act) (by_shard fp c pa_ItemID acks)
      (contents fp c, \<lparr>ak_Applied = 0, ak_Stale = 0, ak_NotFound = 0\<rparr>))"
    by (rule fold_astep_invariant [where P = ?P])
      (simp_all only: fst_conv cache_invD(4) [OF assms(1)] ack_astep_inv)
  then show "flat_inv fp c (contents fp c') (vc_nextValueVersion c') (vc_entries c')"
    using AckPublished_sim [OF assms] by simp
qed

end
