(* ===== verification/Cache_Apply.thy ===== *)
theory Cache_Apply
  imports Cache_Operations
begin

text \<open>
  \<^verbatim>\<open>ValueCache.ApplyBatch\<close>: what a batch does to each entry, whatever the metadata source answers
  while it runs, and what its result reports.
\<close>

definition batch_latest :: "BatchResult \<Rightarrow> (string, HistoryItem) gomap" where
  "batch_latest result =
     (case br_Latest result of None \<Rightarrow> ReduceLatest (br_Records result) | Some m \<Rightarrow> m)"

definition batch_fetchedAt :: "BatchResult \<Rightarrow> time" where
  "batch_fetchedAt result =
     (if time_IsZero (br_FinishedAt result) then br_StartedAt result else br_FinishedAt result)"

definition batch_pendings :: "(string \<Rightarrow> go_error + float64) \<Rightarrow> MetadataSnapshot \<Rightarrow> BatchResult \<Rightarrow> pendingValue list" where
  "batch_pendings pf sn result =
     List.map_filter (pending_of pf sn (batch_fetchedAt result)) (batch_latest result)"

definition batch_complete :: "BatchResult \<Rightarrow> bool" where
  "batch_complete result \<longleftrightarrow> br_Status result = BatchSuccess \<or> br_Status result = BatchEmpty"

text \<open>What the callers guarantee: the latest map is a map, and the version counter does not wrap.\<close>

definition batch_ok :: "ValueCache \<Rightarrow> BatchResult \<Rightarrow> bool" where
  "batch_ok c result \<longleftrightarrow> wf_map (batch_latest result)
     \<and> vc_nextValueVersion c + length (batch_latest result) < 2 ^ 64"

definition start_run :: "ValueCache \<Rightarrow> BatchResult \<Rightarrow> MetadataSnapshot \<Rightarrow> ApplyRun" where
  "start_run c result sn =
     \<lparr>rn_result = newApplyResult (br_Status result) (Some sn), rn_call = 0, rn_staleItems = [],
      rn_protected = [], rn_outcomes = [], rn_expiry = [],
      rn_nextVersion = vc_nextValueVersion c, rn_entries = vc_entries c\<rparr>"

definition checked_run :: "(string \<Rightarrow> go_error + float64) \<Rightarrow> snapshot_source \<Rightarrow> ValueCache
    \<Rightarrow> BatchResult \<Rightarrow> MetadataSnapshot \<Rightarrow> ApplyRun" where
  "checked_run pf source c result sn =
     fst (fold (pending_step pf sn (batch_fetchedAt result)) (batch_latest result)
       (fold (query_step source sn) (hq_ItemIDs (br_Query result)) (start_run c result sn), []))"

definition finish_result :: "BatchResult \<Rightarrow> ApplyRun \<Rightarrow> ApplyResult" where
  "finish_result result r =
     (let apply = fold outcome_step (rn_outcomes r) (rn_result r) in
      if ar_Stale apply \<noteq> 0 then apply
      else apply\<lparr>ar_MissItemIDs := miss_items (hq_ItemIDs (br_Query result)) (rn_protected r)
             (map hi_ItemID (br_Records result) @ mkeys (batch_latest result))\<rparr>)"

lemma ApplyBatch_incomplete_eq:
  "\<not> batch_complete result \<Longrightarrow>
     ApplyBatch fp pf source c result snapshot = (c, newApplyResult (br_Status result) snapshot, [])"
  by (simp add: ApplyBatch_def batch_complete_def Let_def)

lemma ApplyBatch_eq:
  assumes "batch_complete result"
  shows "ApplyBatch fp pf source c result (Some sn) =
    (case run_shards (apply_step fp source c) id (\<lambda>p. shardIndex fp c (pd_itemID p))
            (batch_pendings pf sn result) (vc_shards c, checked_run pf source c result sn) of
       (S, r) \<Rightarrow> (c\<lparr>vc_shards := S, vc_nextValueVersion := rn_nextVersion r, vc_entries := rn_entries r\<rparr>,
                  finish_result result r, rn_expiry r))"
proof -
  obtain r2 ps where f: "fold (pending_step pf sn (batch_fetchedAt result)) (batch_latest result)
      (fold (query_step source sn) (hq_ItemIDs (br_Query result)) (start_run c result sn), []) = (r2, ps)"
    by (cases "fold (pending_step pf sn (batch_fetchedAt result)) (batch_latest result)
      (fold (query_step source sn) (hq_ItemIDs (br_Query result)) (start_run c result sn), [])")
  then have ps: "ps = batch_pendings pf sn result"
    using fold_pending [of pf sn "batch_fetchedAt result" "batch_latest result"
        "fold (query_step source sn) (hq_ItemIDs (br_Query result)) (start_run c result sn)" "[]"]
    by (simp add: batch_pendings_def)
  have r2: "r2 = checked_run pf source c result sn" using f by (simp add: checked_run_def)
  note f' = f [unfolded start_run_def batch_fetchedAt_def batch_latest_def]
  have complete: "\<not> (br_Status result \<noteq> BatchSuccess \<and> br_Status result \<noteq> BatchEmpty)"
    using assms by (auto simp: batch_complete_def)
  show ?thesis
    unfolding ApplyBatch_def Let_def if_not_P [OF complete]
    by (simp add: f' ps r2 finish_result_def batch_latest_def Let_def split: prod.split)
qed

lemma checked_run_frame [simp]:
  "rn_nextVersion (checked_run pf source c result sn) = vc_nextValueVersion c"
  "rn_entries (checked_run pf source c result sn) = vc_entries c"
  "rn_outcomes (checked_run pf source c result sn) = []"
  "rn_expiry (checked_run pf source c result sn) = []"
  unfolding checked_run_def
  using fold_pending_run [of pf sn "batch_fetchedAt result" "batch_latest result"
      "fold (query_step source sn) (hq_ItemIDs (br_Query result)) (start_run c result sn)" "[]"]
    query_step_run [of source sn "hq_ItemIDs (br_Query result)" "start_run c result sn"]
  by (simp_all add: start_run_def)

lemma ApplyBatch_sim:
  assumes inv: "cache_inv fp c" and comp: "batch_complete result" and ok: "batch_ok c result"
    and run: "ApplyBatch fp pf source c result (Some sn) = (c', res, expiry)"
  obtains r where "fold (astep pd_itemID (apply_act fp source c))
      (by_shard fp c pd_itemID (batch_pendings pf sn result)) (contents fp c, checked_run pf source c result sn)
        = (contents fp c', r)"
    and "runs_to fp c c'" and "vc_nextValueVersion c' = rn_nextVersion r" and "vc_entries c' = rn_entries r"
    and "res = finish_result result r" and "expiry = rn_expiry r"
proof -
  note i = cache_invD [OF inv]
  obtain S r where rs: "run_shards (apply_step fp source c) id (\<lambda>p. shardIndex fp c (pd_itemID p))
            (batch_pendings pf sn result) (vc_shards c, checked_run pf source c result sn) = (S, r)"
    and c': "c' = c\<lparr>vc_shards := S, vc_nextValueVersion := rn_nextVersion r, vc_entries := rn_entries r\<rparr>"
    and res: "res = finish_result result r" "expiry = rn_expiry r"
    using run unfolding ApplyBatch_eq [OF comp] by (auto split: prod.splits)
  have len: "length (batch_pendings pf sn result) \<le> length (batch_latest result)"
    by (simp add: batch_pendings_def pendings_length)
  have linv: "apply_linv (length (batch_pendings pf sn result)) s (checked_run pf source c result sn)"
    if "s \<in> set (vc_shards c)" for s
    using i(2) [OF that] ok len by (simp add: apply_linv_def batch_ok_def)
  note sim = upd.run_sim [OF shardIndex_less [OF i(1)] _ rs]
  have "0 < length (vc_shards c)" using i(1) by (auto simp: config_ok_def)
  then have "S ! 0 \<in> set S" using sim(2) [OF linv] by simp
  then have bound: "rn_nextVersion r < 2 ^ 64" using sim(3) [OF linv] by (auto simp: apply_linv_def)
  have okS: "shard_ok (rn_nextVersion r) s" if "s \<in> set S" for s
    using sim(3) [OF linv that] by (simp add: apply_linv_def)
  show thesis
  proof (rule that [of r])
    show "fold (astep pd_itemID (apply_act fp source c))
        (by_shard fp c pd_itemID (batch_pendings pf sn result)) (contents fp c, checked_run pf source c result sn)
        = (contents fp c', r)"
      using sim(1) [OF linv] by (simp add: contents_def c')
    show "runs_to fp c c'"
      by (rule runs_toI [OF c' sim(2) [OF linv] okS bound sim(4) [OF linv]])
  qed (simp_all add: c' res)
qed

lemma batch_pendings_distinct: "batch_ok c result \<Longrightarrow> distinct (map pd_itemID (batch_pendings pf sn result))"
  unfolding batch_pendings_def batch_ok_def by (rule pendings_distinct) blast

lemma batch_pendings_ok:
  assumes "p \<in> set (batch_pendings pf sn result)"
  shows "pending_ok p"
proof -
  obtain e where "pending_of pf sn (batch_fetchedAt result) e = Some p"
    using assms unfolding batch_pendings_def pendings_in by blast
  from pending_ofD [OF this] show ?thesis by simp
qed

lemma batch_pendings_iff:
  assumes "batch_ok c result"
  shows "p \<in> set (batch_pendings pf sn result) \<longleftrightarrow>
      (\<exists>rec. mget (batch_latest result) (pd_itemID p) = Some rec
         \<and> pending_of pf sn (batch_fetchedAt result) (pd_itemID p, rec) = Some p)"
proof -
  have w: "wf_map (batch_latest result)" using assms by (simp add: batch_ok_def)
  show ?thesis
  proof
    assume "p \<in> set (batch_pendings pf sn result)"
    then obtain e where e: "e \<in> set (batch_latest result)" "pending_of pf sn (batch_fetchedAt result) e = Some p"
      unfolding batch_pendings_def pendings_in by blast
    obtain rec where "e = (pd_itemID p, rec)" using pending_ofD [OF e(2)] by (cases e) simp
    with e w show "\<exists>rec. mget (batch_latest result) (pd_itemID p) = Some rec
         \<and> pending_of pf sn (batch_fetchedAt result) (pd_itemID p, rec) = Some p"
      by (auto simp: wf_map_in_iff)
  next
    assume "\<exists>rec. mget (batch_latest result) (pd_itemID p) = Some rec
         \<and> pending_of pf sn (batch_fetchedAt result) (pd_itemID p, rec) = Some p"
    then show "p \<in> set (batch_pendings pf sn result)"
      unfolding batch_pendings_def pendings_in using map_of_SomeD by fast
  qed
qed

lemma ApplyBatch_inv [inv_intros]:
  assumes inv: "cache_inv fp c" and ok: "batch_ok c result"
    and run: "ApplyBatch fp pf source c result snapshot = (c', res, expiry)"
  shows "cache_inv fp c'"
proof (cases "batch_complete result \<and> snapshot \<noteq> None")
  case False
  then have "c' = c" using run by (auto simp: ApplyBatch_def batch_complete_def Let_def split: if_splits)
  with inv show ?thesis by simp
next
  case True
  then obtain sn where sn: "snapshot = Some sn" by auto
  from ApplyBatch_sim [OF inv _ ok run [unfolded sn]] True obtain r where
    sim: "fold (astep pd_itemID (apply_act fp source c)) (by_shard fp c pd_itemID (batch_pendings pf sn result))
      (contents fp c, checked_run pf source c result sn) = (contents fp c', r)"
    and runs: "runs_to fp c c'" and v: "vc_nextValueVersion c' = rn_nextVersion r" "vc_entries c' = rn_entries r"
    by blast
  let ?xs = "by_shard fp c pd_itemID (batch_pendings pf sn result)"
  let ?P = "\<lambda>n st. flat_inv fp c (fst st) (rn_nextVersion (snd st)) (rn_entries (snd st))
      \<and> rn_nextVersion (snd st) + n < 2 ^ 64"
  have len: "length ?xs \<le> length (batch_latest result)"
    using length_grouped [of "batch_pendings pf sn result" "\<lambda>p. shardIndex fp c (pd_itemID p)" "length (vc_shards c)"]
      shardIndex_less [OF cache_invD(1) [OF inv]] pendings_length by (simp add: batch_pendings_def)
  have "?P 0 (fold (astep pd_itemID (apply_act fp source c)) ?xs (contents fp c, checked_run pf source c result sn))"
  proof (rule fold_astep_invariant [where P = ?P])
    show "?P (length ?xs) (contents fp c, checked_run pf source c result sn)"
      using cache_invD(4) [OF inv] ok len by (simp add: batch_ok_def)
  next
    fix p m n and r :: ApplyRun
    assume p: "p \<in> set ?xs" and P: "?P (Suc n) (m, r)"
    have "pending_ok p" using p batch_pendings_ok [of p pf sn result] by (simp add: grouped_set [OF cache_invD(1) [OF inv]])
    with P show "?P n (astep pd_itemID (apply_act fp source c) p (m, r))"
      using apply_astep_inv [of fp c m r n p source] by (metis fst_conv snd_conv prod.collapse)
  qed
  then have "flat_inv fp c (contents fp c') (vc_nextValueVersion c') (vc_entries c')"
    by (simp add: sim v)
  then show ?thesis by (rule runs_to_inv [OF runs inv])
qed

section \<open>The effect on one entry\<close>

definition batch_pending :: "(string \<Rightarrow> go_error + float64) \<Rightarrow> MetadataSnapshot \<Rightarrow> BatchResult
    \<Rightarrow> string \<Rightarrow> pendingValue option" where
  "batch_pending pf sn result k =
     (case mget (batch_latest result) k of
        None \<Rightarrow> None | Some rec \<Rightarrow> pending_of pf sn (batch_fetchedAt result) (k, rec))"

definition apply_eff :: "(string \<Rightarrow> 64 word) \<Rightarrow> ValueCache \<Rightarrow> bool \<Rightarrow> nat \<Rightarrow> pendingValue
    \<Rightarrow> ValueState option \<Rightarrow> ValueState option" where
  "apply_eff fp c fresh version p old =
     (if \<not> fresh then old
      else case old of
        Some current \<Rightarrow>
          if vs_MetadataVersion current = pd_metadataVersion p \<and> \<not> sourceIsNewer (pd_clock p) (pd_ns p) current
          then Some (current\<lparr>vs_LastFetchAt := pd_fetchedAt p\<rparr>)
          else Some (new_state fp c p version)
      | None \<Rightarrow> Some (new_state fp c p version))"

lemma ApplyBatch_entry:
  assumes inv: "cache_inv fp c" and comp: "batch_complete result" and ok: "batch_ok c result"
    and run: "ApplyBatch fp pf source c result (Some sn) = (c', res, expiry)"
  shows "case batch_pending pf sn result k of
      None \<Rightarrow> contents fp c' k = contents fp c k
    | Some p \<Rightarrow> \<exists>call version. vc_nextValueVersion c < version
        \<and> contents fp c' k = apply_eff fp c (metadataVersionCurrent source call k (pd_metadataVersion p))
            version p (contents fp c k)"
proof -
  from ApplyBatch_sim [OF inv comp ok run] obtain r where
    sim: "fold (astep pd_itemID (apply_act fp source c)) (by_shard fp c pd_itemID (batch_pendings pf sn result))
      (contents fp c, checked_run pf source c result sn) = (contents fp c', r)"
    by blast
  let ?xs = "by_shard fp c pd_itemID (batch_pendings pf sn result)"
  note cfg = cache_invD(1) [OF inv]
  have dist: "distinct (map pd_itemID ?xs)"
    by (rule grouped_distinct [OF cfg batch_pendings_distinct [OF ok]])
  have len: "length ?xs \<le> length (batch_latest result)"
    using length_grouped [of "batch_pendings pf sn result" "\<lambda>p. shardIndex fp c (pd_itemID p)" "length (vc_shards c)"]
      shardIndex_less [OF cfg] pendings_length by (simp add: batch_pendings_def)
  show ?thesis
  proof (cases "batch_pending pf sn result k")
    case None
    have "k \<notin> pd_itemID ` set ?xs"
    proof
      assume "k \<in> pd_itemID ` set ?xs"
      then obtain p where "p \<in> set (batch_pendings pf sn result)" "pd_itemID p = k"
        by (auto simp: grouped_set [OF cfg])
      with None show False by (auto simp: batch_pendings_iff [OF ok] batch_pending_def)
    qed
    from fold_astep_other [OF this, of "apply_act fp source c" "contents fp c" "checked_run pf source c result sn"]
    show ?thesis by (simp add: None sim)
  next
    case (Some p)
    then obtain rec where rec: "mget (batch_latest result) k = Some rec"
        "pending_of pf sn (batch_fetchedAt result) (k, rec) = Some p"
      by (auto simp: batch_pending_def split: option.splits)
    have k: "pd_itemID p = k" using pending_ofD [OF rec(2)] by simp
    have p: "p \<in> set ?xs" using rec k by (auto simp: grouped_set [OF cfg] batch_pendings_iff [OF ok])
    let ?Q = "\<lambda>n r. vc_nextValueVersion c \<le> rn_nextVersion r \<and> rn_nextVersion r + n < 2 ^ 64"
    have "\<exists>r' n. ?Q (Suc n) r' \<and> fst (fold (astep pd_itemID (apply_act fp source c)) ?xs
        (contents fp c, checked_run pf source c result sn)) (pd_itemID p)
      = fst (apply_act fp source c p r' (contents fp c (pd_itemID p)))"
    proof (rule fold_astep_once [where Q = ?Q, OF dist p])
      show "?Q (length ?xs) (checked_run pf source c result sn)" using ok len by (simp add: batch_ok_def)
      show "?Q n (snd (apply_act fp source c y r o'))" if "?Q (Suc n) r" for y r o' n
        using that apply_act_version [of fp source c y r o'] by (auto simp: inc64_id)
    qed
    then obtain r' n where r': "?Q (Suc n) r'"
      "contents fp c' k = fst (apply_act fp source c p r' (contents fp c k))"
      by (auto simp: sim k)
    have "inc64 (rn_nextVersion r') = Suc (rn_nextVersion r')" using r'(1) by (simp add: inc64_id)
    then have "contents fp c' k = apply_eff fp c
        (metadataVersionCurrent source (rn_call r') k (pd_metadataVersion p)) (Suc (rn_nextVersion r')) p (contents fp c k)"
      using r'(2) by (simp only: apply_act_state apply_eff_def k)
    moreover have "vc_nextValueVersion c < Suc (rn_nextVersion r')" using r'(1) by simp
    ultimately show ?thesis using Some by auto
  qed
qed

section \<open>What the registrar is told\<close>

lemma ApplyBatch_registers:
  assumes inv: "cache_inv fp c" and comp: "batch_complete result" and ok: "batch_ok c result"
    and run: "ApplyBatch fp pf source c result (Some sn) = (c', res, expiry)" and reg: "vc_hasRegistrar c"
    and new: "contents fp c' k = Some st" "vc_nextValueVersion c < vs_ValueVersion st"
  shows "\<lparr>ee_ItemID = k, ee_ValueVersion = vs_ValueVersion st, ee_ExpireAt = vs_ExpireAt st\<rparr> \<in> set expiry"
proof -
  from ApplyBatch_sim [OF inv comp ok run] obtain r where
    sim: "fold (astep pd_itemID (apply_act fp source c)) (by_shard fp c pd_itemID (batch_pendings pf sn result))
      (contents fp c, checked_run pf source c result sn) = (contents fp c', r)" and e: "expiry = rn_expiry r"
    by blast
  let ?new = "\<lambda>k st. \<lparr>ee_ItemID = k, ee_ValueVersion = vs_ValueVersion st, ee_ExpireAt = vs_ExpireAt st\<rparr>"
  let ?P = "\<lambda>(_ :: nat) mr. \<forall>k st. fst mr k = Some st \<longrightarrow> vc_nextValueVersion c < vs_ValueVersion st
      \<longrightarrow> ?new k st \<in> set (rn_expiry (snd mr))"
  have "?P 0 (fold (astep pd_itemID (apply_act fp source c)) (by_shard fp c pd_itemID (batch_pendings pf sn result))
      (contents fp c, checked_run pf source c result sn))"
  proof (rule fold_astep_invariant [where P = ?P])
    show "?P (length (by_shard fp c pd_itemID (batch_pendings pf sn result)))
        (contents fp c, checked_run pf source c result sn)"
      using cache_entry [OF inv] by (force simp: entry_ok_def)
  next
    fix p n and m :: "string \<Rightarrow> ValueState option" and r :: ApplyRun
    assume P: "?P (Suc n) (m, r)"
    show "?P n (astep pd_itemID (apply_act fp source c) p (m, r))"
    proof (cases rule: apply_cases [where source = source and r = r and p = p and old = "m (pd_itemID p)"])
      case Stale
      then show ?thesis using P by (auto simp: astep_def apply_act_def Let_def)
    next
      case (Unchanged current)
      then show ?thesis using P by (auto simp: astep_def apply_act_def Let_def)
    next
      case Written
      then have "astep pd_itemID (apply_act fp source c) p (m, r) =
          (m(pd_itemID p := Some (new_state fp c p (inc64 (rn_nextVersion r)))),
           snd (apply_act fp source c p r (m (pd_itemID p))))"
        by (auto simp: astep_def apply_act_def Let_def split: option.split)
      moreover have "rn_expiry (snd (apply_act fp source c p r (m (pd_itemID p)))) =
          rn_expiry r @ [?new (pd_itemID p) (new_state fp c p (inc64 (rn_nextVersion r)))]"
        using Written reg by (auto simp: apply_act_def Let_def split: option.split)
      ultimately show ?thesis using P by auto
    qed
  qed
  with new show ?thesis by (simp add: sim e)
qed

lemma ApplyBatch_expiry_entries:
  assumes inv: "cache_inv fp c" and comp: "batch_complete result" and ok: "batch_ok c result"
    and run: "ApplyBatch fp pf source c result (Some sn) = (c', res, expiry)" and e: "e \<in> set expiry"
  shows "vc_nextValueVersion c < ee_ValueVersion e \<and> ee_ValueVersion e \<le> vc_nextValueVersion c'
    \<and> (\<forall>st. contents fp c' (ee_ItemID e) = Some st \<longrightarrow> vs_ValueVersion st = ee_ValueVersion e
         \<longrightarrow> ee_ExpireAt e = vs_ExpireAt st)"
proof -
  from ApplyBatch_sim [OF inv comp ok run] obtain r where
    sim: "fold (astep pd_itemID (apply_act fp source c)) (by_shard fp c pd_itemID (batch_pendings pf sn result))
      (contents fp c, checked_run pf source c result sn) = (contents fp c', r)"
    and ex: "expiry = rn_expiry r" "vc_nextValueVersion c' = rn_nextVersion r"
    by blast
  let ?xs = "by_shard fp c pd_itemID (batch_pendings pf sn result)"
  let ?P = "\<lambda>n mr. vc_nextValueVersion c \<le> rn_nextVersion (snd mr) \<and> rn_nextVersion (snd mr) + n < 2 ^ 64
      \<and> (\<forall>e \<in> set (rn_expiry (snd mr)). vc_nextValueVersion c < ee_ValueVersion e
          \<and> ee_ValueVersion e \<le> rn_nextVersion (snd mr)
          \<and> (\<forall>st. fst mr (ee_ItemID e) = Some st \<longrightarrow> vs_ValueVersion st = ee_ValueVersion e
               \<longrightarrow> ee_ExpireAt e = vs_ExpireAt st))"
  have len: "length ?xs \<le> length (batch_latest result)"
    using length_grouped [of "batch_pendings pf sn result" "\<lambda>p. shardIndex fp c (pd_itemID p)" "length (vc_shards c)"]
      shardIndex_less [OF cache_invD(1) [OF inv]] pendings_length by (simp add: batch_pendings_def)
  have "?P 0 (fold (astep pd_itemID (apply_act fp source c)) ?xs (contents fp c, checked_run pf source c result sn))"
  proof (rule fold_astep_invariant [where P = ?P])
    show "?P (length ?xs) (contents fp c, checked_run pf source c result sn)"
      using ok len by (simp add: batch_ok_def)
  next
    fix p n and m :: "string \<Rightarrow> ValueState option" and r :: ApplyRun
    assume P: "?P (Suc n) (m, r)"
    show "?P n (astep pd_itemID (apply_act fp source c) p (m, r))"
    proof (cases rule: apply_cases [where source = source and r = r and p = p and old = "m (pd_itemID p)"])
      case Stale
      then show ?thesis using P by (auto simp: astep_def apply_act_def Let_def)
    next
      case (Unchanged current)
      then show ?thesis using P by (auto simp: astep_def apply_act_def Let_def)
    next
      case Written
      let ?new = "new_state fp c p (Suc (rn_nextVersion r))"
      have i: "inc64 (rn_nextVersion r) = Suc (rn_nextVersion r)" using P by (simp add: inc64_id)
      have st: "astep pd_itemID (apply_act fp source c) p (m, r) =
          (m(pd_itemID p := Some ?new), snd (apply_act fp source c p r (m (pd_itemID p))))"
        using Written i by (auto simp: astep_def apply_act_def Let_def split: option.split)
      have nxt: "rn_nextVersion (snd (apply_act fp source c p r (m (pd_itemID p)))) = Suc (rn_nextVersion r)"
        using Written i by (auto simp: apply_act_def Let_def split: option.split)
      have sub: "set (rn_expiry (snd (apply_act fp source c p r (m (pd_itemID p))))) \<subseteq>
          insert \<lparr>ee_ItemID = pd_itemID p, ee_ValueVersion = Suc (rn_nextVersion r), ee_ExpireAt = vs_ExpireAt ?new\<rparr>
            (set (rn_expiry r))"
        using Written i by (auto simp: apply_act_def Let_def split: option.split)
      have all: "\<forall>e \<in> insert \<lparr>ee_ItemID = pd_itemID p, ee_ValueVersion = Suc (rn_nextVersion r), ee_ExpireAt = vs_ExpireAt ?new\<rparr>
          (set (rn_expiry r)). vc_nextValueVersion c < ee_ValueVersion e \<and> ee_ValueVersion e \<le> Suc (rn_nextVersion r)
          \<and> (\<forall>st. (m(pd_itemID p := Some ?new)) (ee_ItemID e) = Some st \<longrightarrow> vs_ValueVersion st = ee_ValueVersion e
               \<longrightarrow> ee_ExpireAt e = vs_ExpireAt st)"
        using P by (auto split: if_splits)
      have bound: "vc_nextValueVersion c \<le> Suc (rn_nextVersion r)" "Suc (rn_nextVersion r) + n < 2 ^ 64"
        using P by auto
      show ?thesis unfolding st fst_conv snd_conv nxt using all sub bound by blast
    qed
  qed
  then show ?thesis using e by (simp add: sim ex)
qed

section \<open>The counters\<close>

definition outcomes :: "applyOutcome \<Rightarrow> ApplyRun \<Rightarrow> nat" where
  "outcomes out r = length (filter (\<lambda>e. snd e = out) (rn_outcomes r))"

lemma outcome_steps:
  "ar_Created (fold outcome_step os a) = ar_Created a + length (filter (\<lambda>e. snd e = OutcomeCreated) os)
   \<and> ar_Updated (fold outcome_step os a) = ar_Updated a + length (filter (\<lambda>e. snd e = OutcomeUpdated) os)
   \<and> ar_Unchanged (fold outcome_step os a) = ar_Unchanged a + length (filter (\<lambda>e. snd e = OutcomeUnchanged) os)
   \<and> ar_Skipped (fold outcome_step os a) = ar_Skipped a \<and> ar_Rejected (fold outcome_step os a) = ar_Rejected a
   \<and> ar_Stale (fold outcome_step os a) = ar_Stale a \<and> ar_MissItemIDs (fold outcome_step os a) = ar_MissItemIDs a
   \<and> ar_Errors (fold outcome_step os a) = ar_Errors a"
proof (induction os arbitrary: a)
  case (Cons e os)
  then show ?case by (cases "snd e") (simp_all add: outcome_step_def)
qed simp

lemma finish_counts:
  "ar_Created (finish_result result r) = ar_Created (rn_result r) + outcomes OutcomeCreated r"
  "ar_Updated (finish_result result r) = ar_Updated (rn_result r) + outcomes OutcomeUpdated r"
  "ar_Unchanged (finish_result result r) = ar_Unchanged (rn_result r) + outcomes OutcomeUnchanged r"
  "ar_Skipped (finish_result result r) = ar_Skipped (rn_result r)"
  "ar_Rejected (finish_result result r) = ar_Rejected (rn_result r)"
  "ar_Stale (finish_result result r) = ar_Stale (rn_result r)"
  using outcome_steps [of "rn_outcomes r" "rn_result r"]
  by (simp_all add: finish_result_def outcomes_def Let_def)

lemma put_new: "mget m k = None \<Longrightarrow> mput k v m = m @ [(k, v)]"
  by (induction m) (auto split: if_splits)

text \<open>The run's counters, apart from the outcomes it has recorded.\<close>

definition tallied :: "ApplyRun \<Rightarrow> nat" where
  "tallied r = ar_Skipped (rn_result r) + ar_Rejected (rn_result r) + outcomes OutcomeCreated r
     + outcomes OutcomeUpdated r + outcomes OutcomeUnchanged r"

lemma query_step_result:
  "ar_Skipped (rn_result (fold (query_step source sn) ids r)) = ar_Skipped (rn_result r)
   \<and> ar_Rejected (rn_result (fold (query_step source sn) ids r)) = ar_Rejected (rn_result r)
   \<and> ar_Created (rn_result (fold (query_step source sn) ids r)) = ar_Created (rn_result r)
   \<and> ar_Updated (rn_result (fold (query_step source sn) ids r)) = ar_Updated (rn_result r)
   \<and> ar_Unchanged (rn_result (fold (query_step source sn) ids r)) = ar_Unchanged (rn_result r)"
proof (induction ids arbitrary: r)
  case (Cons k ids)
  have "ar_Skipped (rn_result (query_step source sn k r)) = ar_Skipped (rn_result r)
      \<and> ar_Rejected (rn_result (query_step source sn k r)) = ar_Rejected (rn_result r)
      \<and> ar_Created (rn_result (query_step source sn k r)) = ar_Created (rn_result r)
      \<and> ar_Updated (rn_result (query_step source sn k r)) = ar_Updated (rn_result r)
      \<and> ar_Unchanged (rn_result (query_step source sn k r)) = ar_Unchanged (rn_result r)"
    by (simp add: query_step_def protect_def mark_stale_def Let_def split: option.split)
  then show ?case using Cons.IH [of "query_step source sn k r"] by simp
qed simp

lemma pending_step_tally:
  assumes "pending_step pf sn t e (r, ps) = (r', ps')"
  shows "ar_Skipped (rn_result r') + ar_Rejected (rn_result r') + length ps' =
      Suc (ar_Skipped (rn_result r) + ar_Rejected (rn_result r) + length ps)"
    and "ar_Created (rn_result r') = ar_Created (rn_result r)" "ar_Updated (rn_result r') = ar_Updated (rn_result r)"
    and "ar_Unchanged (rn_result r') = ar_Unchanged (rn_result r)"
  using assms
  by (cases e; auto simp: pending_step_def protect_def add_skip_def add_reject_def
      split: option.splits sum.splits if_splits)+

lemma pending_fold_tally:
  assumes "fold (pending_step pf sn t) es (r, ps) = (r', ps')"
  shows "ar_Skipped (rn_result r') + ar_Rejected (rn_result r') + length ps' =
      ar_Skipped (rn_result r) + ar_Rejected (rn_result r) + length ps + length es
    \<and> ar_Created (rn_result r') = ar_Created (rn_result r) \<and> ar_Updated (rn_result r') = ar_Updated (rn_result r)
    \<and> ar_Unchanged (rn_result r') = ar_Unchanged (rn_result r)"
  using assms
proof (induction es arbitrary: r ps)
  case Nil
  then show ?case by simp
next
  case (Cons e es)
  obtain r1 ps1 where 1: "pending_step pf sn t e (r, ps) = (r1, ps1)" by (cases "pending_step pf sn t e (r, ps)")
  have "fold (pending_step pf sn t) es (r1, ps1) = (r', ps')" using Cons.prems 1 by simp
  from Cons.IH [OF this] pending_step_tally [OF 1] show ?case by simp
qed

lemma checked_run_tally:
  "ar_Skipped (rn_result (checked_run pf source c result sn)) + ar_Rejected (rn_result (checked_run pf source c result sn))
      + length (batch_pendings pf sn result) = length (batch_latest result)
   \<and> ar_Created (rn_result (checked_run pf source c result sn)) = 0
   \<and> ar_Updated (rn_result (checked_run pf source c result sn)) = 0
   \<and> ar_Unchanged (rn_result (checked_run pf source c result sn)) = 0"
proof -
  let ?q = "fold (query_step source sn) (hq_ItemIDs (br_Query result)) (start_run c result sn)"
  obtain r ps where f: "fold (pending_step pf sn (batch_fetchedAt result)) (batch_latest result) (?q, []) = (r, ps)"
    by (cases "fold (pending_step pf sn (batch_fetchedAt result)) (batch_latest result) (?q, [])")
  have "ps = batch_pendings pf sn result"
    using fold_pending [of pf sn "batch_fetchedAt result" "batch_latest result" ?q "[]"] f
    by (simp add: batch_pendings_def)
  moreover have "r = checked_run pf source c result sn" using f by (simp add: checked_run_def)
  moreover note pending_fold_tally [OF f]
    query_step_result [of source sn "hq_ItemIDs (br_Query result)" "start_run c result sn"]
  ultimately show ?thesis by (simp add: start_run_def newApplyResult_def)
qed

lemma stale_run_tally:
  "tallied (protect k (mark_stale k (add_skip r))) = Suc (tallied r)
   \<and> outcomes x (protect k (mark_stale k (add_skip r))) = outcomes x r
   \<and> ar_Created (rn_result (protect k (mark_stale k (add_skip r)))) = ar_Created (rn_result r)
   \<and> ar_Updated (rn_result (protect k (mark_stale k (add_skip r)))) = ar_Updated (rn_result r)
   \<and> ar_Unchanged (rn_result (protect k (mark_stale k (add_skip r)))) = ar_Unchanged (rn_result r)"
  by (cases "k \<in> set (rn_staleItems r)")
    (simp_all add: tallied_def outcomes_def protect_def mark_stale_def add_skip_def)

lemma apply_act_tally:
  assumes new: "mget (rn_outcomes r) (pd_itemID p) = None" and bound: "Suc (rn_nextVersion r) < 2 ^ 64"
    and act: "apply_act fp source c p r old = (old', r')"
  shows "tallied r' = Suc (tallied r)
    \<and> rn_entries r' - int (outcomes OutcomeCreated r') = rn_entries r - int (outcomes OutcomeCreated r)
    \<and> rn_nextVersion r' + outcomes OutcomeCreated r + outcomes OutcomeUpdated r
       = rn_nextVersion r + outcomes OutcomeCreated r' + outcomes OutcomeUpdated r'
    \<and> rn_nextVersion r' \<le> Suc (rn_nextVersion r)
    \<and> set (mkeys (rn_outcomes r')) \<subseteq> insert (pd_itemID p) (set (mkeys (rn_outcomes r)))
    \<and> ar_Created (rn_result r') = ar_Created (rn_result r)
    \<and> ar_Updated (rn_result r') = ar_Updated (rn_result r)
    \<and> ar_Unchanged (rn_result r') = ar_Unchanged (rn_result r)"
proof (cases rule: apply_cases [where source = source and r = r and p = p and old = old])
  case Stale
  then have r': "r' = protect (pd_itemID p) (mark_stale (pd_itemID p)
      (add_skip (r\<lparr>rn_call := next_call source (rn_call r)\<rparr>)))"
    using act by (simp add: apply_act_def Let_def)
  have call: "tallied (r\<lparr>rn_call := n\<rparr>) = tallied r" "outcomes x (r\<lparr>rn_call := n\<rparr>) = outcomes x r" for n x
    by (simp_all add: tallied_def outcomes_def)
  show ?thesis unfolding r' by (simp add: stale_run_tally call) blast
next
  case (Unchanged current)
  with act new show ?thesis
    by (auto simp: apply_act_def Let_def tallied_def outcomes_def put_new)
next
  case Written
  with act new bound show ?thesis
    by (cases old; cases "vc_hasRegistrar c") (auto simp: apply_act_def Let_def tallied_def outcomes_def put_new inc64_id,
      (metis fst_conv imageI)+)
qed

lemma apply_fold_tally:
  assumes "distinct (map pd_itemID ys)" and "\<And>p. p \<in> set ys \<Longrightarrow> mget (rn_outcomes r) (pd_itemID p) = None"
    and "rn_nextVersion r + length ys < 2 ^ 64"
    and "fold (astep pd_itemID (apply_act fp source c)) ys (m, r) = (m', r')"
  shows "tallied r' = tallied r + length ys
    \<and> rn_entries r' - int (outcomes OutcomeCreated r') = rn_entries r - int (outcomes OutcomeCreated r)
    \<and> rn_nextVersion r' + outcomes OutcomeCreated r + outcomes OutcomeUpdated r
       = rn_nextVersion r + outcomes OutcomeCreated r' + outcomes OutcomeUpdated r'
    \<and> ar_Created (rn_result r') = ar_Created (rn_result r)
    \<and> ar_Updated (rn_result r') = ar_Updated (rn_result r)
    \<and> ar_Unchanged (rn_result r') = ar_Unchanged (rn_result r)"
  using assms
proof (induction ys arbitrary: m r)
  case Nil
  then show ?case by simp
next
  case (Cons p ys)
  obtain o1 r1 where a: "apply_act fp source c p r (m (pd_itemID p)) = (o1, r1)"
    by (cases "apply_act fp source c p r (m (pd_itemID p))")
  have t: "Suc (rn_nextVersion r) < 2 ^ 64" using Cons.prems(3) by simp
  note tally = apply_act_tally [OF Cons.prems(2) t a, simplified]
  have rest: "fold (astep pd_itemID (apply_act fp source c)) ys (m(pd_itemID p := o1), r1) = (m', r')"
    using Cons.prems(4) by (simp only: fold.simps comp_apply astep_eq [of "apply_act fp source c" p r m pd_itemID, OF a])
  have "mget (rn_outcomes r1) (pd_itemID q) = None" if "q \<in> set ys" for q
  proof -
    have "pd_itemID q \<noteq> pd_itemID p" "pd_itemID q \<notin> set (mkeys (rn_outcomes r))"
      using that Cons.prems(1) Cons.prems(2) [of q] unfolding mget_None_iff
      by (metis distinct.simps(2) imageI list.simps(9) set_map, simp)
    then show ?thesis using tally unfolding mget_None_iff by auto
  qed
  from Cons.IH [OF _ this _ rest] Cons.prems(1,3) tally show ?case by auto
qed

lemma ApplyBatch_accounts:
  assumes inv: "cache_inv fp c" and comp: "batch_complete result" and ok: "batch_ok c result"
    and run: "ApplyBatch fp pf source c result (Some sn) = (c', res, expiry)"
  shows "ar_Created res + ar_Updated res + ar_Unchanged res + ar_Skipped res + ar_Rejected res
      = length (batch_latest result)"
    and "vc_entries c' = vc_entries c + int (ar_Created res)"
    and "vc_nextValueVersion c' = vc_nextValueVersion c + ar_Created res + ar_Updated res"
proof -
  from ApplyBatch_sim [OF inv comp ok run] obtain r where
    sim: "fold (astep pd_itemID (apply_act fp source c)) (by_shard fp c pd_itemID (batch_pendings pf sn result))
      (contents fp c, checked_run pf source c result sn) = (contents fp c', r)"
    and e: "res = finish_result result r" "vc_nextValueVersion c' = rn_nextVersion r" "vc_entries c' = rn_entries r"
    by blast
  let ?xs = "by_shard fp c pd_itemID (batch_pendings pf sn result)" and ?r = "checked_run pf source c result sn"
  note cfg = cache_invD(1) [OF inv]
  have len: "length ?xs = length (batch_pendings pf sn result)"
    using length_grouped [of "batch_pendings pf sn result" "\<lambda>p. shardIndex fp c (pd_itemID p)" "length (vc_shards c)"]
      shardIndex_less [OF cfg] by simp
  have le: "length (batch_pendings pf sn result) \<le> length (batch_latest result)"
    by (simp add: batch_pendings_def pendings_length)
  note tally = apply_fold_tally [OF grouped_distinct [OF cfg batch_pendings_distinct [OF ok]] _ _ sim]
  have t: "tallied r = tallied ?r + length ?xs
    \<and> rn_entries r - int (outcomes OutcomeCreated r) = rn_entries ?r - int (outcomes OutcomeCreated ?r)
    \<and> rn_nextVersion r + outcomes OutcomeCreated ?r + outcomes OutcomeUpdated ?r
       = rn_nextVersion ?r + outcomes OutcomeCreated r + outcomes OutcomeUpdated r
    \<and> ar_Created (rn_result r) = ar_Created (rn_result ?r) \<and> ar_Updated (rn_result r) = ar_Updated (rn_result ?r)
    \<and> ar_Unchanged (rn_result r) = ar_Unchanged (rn_result ?r)"
    by (rule tally) (use ok len le in \<open>simp_all add: batch_ok_def\<close>)
  note start = checked_run_tally [of pf source c result sn]
  have zero: "outcomes x ?r = 0" for x by (simp add: outcomes_def)
  show "ar_Created res + ar_Updated res + ar_Unchanged res + ar_Skipped res + ar_Rejected res
      = length (batch_latest result)"
    using t start len zero by (simp add: e(1) finish_counts tallied_def)
  show "vc_entries c' = vc_entries c + int (ar_Created res)"
    using t start zero by (simp add: e finish_counts)
  show "vc_nextValueVersion c' = vc_nextValueVersion c + ar_Created res + ar_Updated res"
    using t start zero by (simp add: e finish_counts)
qed

section \<open>Misses\<close>

lemma miss_loop:
  "distinct M \<Longrightarrow>
   fold (\<lambda>id (out, missSet). if id \<in> set missSet then (out @ [id], removeAll id missSet) else (out, missSet))
     ids (out, M) = (out @ dedup (filter (\<lambda>id. id \<in> set M) ids), filter (\<lambda>id. id \<notin> set ids) M)"
proof (induction ids rule: rev_induct)
  case Nil
  then show ?case by (simp add: dedup_def)
next
  case (snoc x ids)
  then show ?case
    using set_dedup [of "filter (\<lambda>id. id \<in> set M) ids"]
    by (auto simp: dedup_snoc removeAll_filter_not_eq filter_empty_conv intro!: filter_cong)
qed

text \<open>The final loop over the rest of the miss set finds nothing: the misses come in the order of the query.\<close>

lemma miss_items_eq:
  "miss_items queried protected returned =
     dedup (filter (\<lambda>id. id \<notin> set protected \<and> id \<notin> set returned) queried)"
proof -
  let ?M = "remdups (filter (\<lambda>id. id \<notin> set protected \<and> id \<notin> set returned) queried)"
  have extra: "filter (\<lambda>id. id \<notin> set queried) ?M = []" by (auto simp: filter_empty_conv)
  have same: "filter (\<lambda>id. id \<in> set ?M) queried = filter (\<lambda>id. id \<notin> set protected \<and> id \<notin> set returned) queried"
    by (auto intro!: filter_cong)
  show ?thesis
    unfolding miss_items_def Let_def miss_loop [OF distinct_remdups] extra same by simp
qed

definition confirmed :: "snapshot_source \<Rightarrow> MetadataSnapshot \<Rightarrow> string \<Rightarrow> bool" where
  "confirmed source sn k \<longleftrightarrow> (\<exists>item call. mptr (sn_Items sn) k = Some item
     \<and> metadataVersionCurrent source call k (im_Version item))"

definition stale_inv :: "string set \<Rightarrow> ApplyRun \<Rightarrow> bool" where
  "stale_inv K r \<longleftrightarrow> ar_Stale (rn_result r) = length (rn_staleItems r) \<and> ar_MissItemIDs (rn_result r) = []
     \<and> (rn_staleItems r = [] \<longrightarrow> set (rn_protected r) \<subseteq> K)"

lemma query_fold_stale:
  "stale_inv K r \<Longrightarrow> stale_inv K (fold (query_step source sn) ids r)
     \<and> (rn_staleItems (fold (query_step source sn) ids r) = [] \<longrightarrow> rn_staleItems r = []
        \<and> (\<forall>k \<in> set ids. confirmed source sn k))"
proof (induction ids arbitrary: r)
  case (Cons k ids)
  have "stale_inv K (query_step source sn k r)
      \<and> (rn_staleItems (query_step source sn k r) = [] \<longrightarrow> rn_staleItems r = [] \<and> confirmed source sn k)"
    using Cons.prems
    by (auto simp: query_step_def stale_inv_def mark_stale_def protect_def confirmed_def Let_def split: option.split)
  with Cons.IH [of "query_step source sn k r"] show ?case by simp
qed simp

lemma pending_step_stale:
  assumes "pending_step pf sn t e (r, ps) = (r', ps')" and "fst e \<in> K" and "stale_inv K r"
  shows "stale_inv K r' \<and> rn_staleItems r' = rn_staleItems r"
  using assms
  by (cases e) (auto simp: pending_step_def stale_inv_def add_skip_def add_reject_def protect_def
      split: option.splits sum.splits if_splits)

lemma pending_fold_stale:
  assumes "fold (pending_step pf sn t) es (r, ps) = (r', ps')" and "set (mkeys es) \<subseteq> K" and "stale_inv K r"
  shows "stale_inv K r' \<and> rn_staleItems r' = rn_staleItems r"
  using assms
proof (induction es arbitrary: r ps)
  case (Cons e es)
  obtain r1 ps1 where 1: "pending_step pf sn t e (r, ps) = (r1, ps1)" by (cases "pending_step pf sn t e (r, ps)")
  have "stale_inv K r1 \<and> rn_staleItems r1 = rn_staleItems r"
    using pending_step_stale [OF 1, of K] Cons.prems(2,3) by simp
  moreover have "fold (pending_step pf sn t) es (r1, ps1) = (r', ps')" using Cons.prems(1) 1 by simp
  ultimately show ?case using Cons.IH [of r1 ps1] Cons.prems(2) by simp
qed simp

lemma apply_astep_stale:
  assumes "stale_inv K r"
  shows "stale_inv K (snd (astep pd_itemID (apply_act fp source c) p (m, r)))
    \<and> (rn_staleItems (snd (astep pd_itemID (apply_act fp source c) p (m, r))) = [] \<longrightarrow> rn_staleItems r = [])"
proof (cases rule: apply_cases [where source = source and r = r and p = p and old = "m (pd_itemID p)"])
  case Stale
  with assms show ?thesis
    by (auto simp: astep_def apply_act_def Let_def stale_inv_def mark_stale_def protect_def add_skip_def)
next
  case (Unchanged current)
  with assms show ?thesis by (simp add: astep_def apply_act_def Let_def stale_inv_def)
next
  case Written
  with assms show ?thesis
    by (cases "m (pd_itemID p)"; cases "vc_hasRegistrar c")
      (auto simp: astep_def apply_act_def Let_def stale_inv_def)
qed

lemma ApplyBatch_misses_eq:
  assumes inv: "cache_inv fp c" and comp: "batch_complete result" and ok: "batch_ok c result"
    and run: "ApplyBatch fp pf source c result (Some sn) = (c', res, expiry)"
  shows "ar_MissItemIDs res = (if ar_Stale res = 0
      then dedup (filter (\<lambda>k. k \<notin> set (map hi_ItemID (br_Records result) @ mkeys (batch_latest result)))
        (hq_ItemIDs (br_Query result))) else [])"
    and "ar_Stale res = 0 \<Longrightarrow> k \<in> set (hq_ItemIDs (br_Query result)) \<Longrightarrow> confirmed source sn k"
proof -
  let ?K = "set (mkeys (batch_latest result))"
  let ?q = "fold (query_step source sn) (hq_ItemIDs (br_Query result)) (start_run c result sn)"
  have "stale_inv ?K (start_run c result sn)" by (simp add: stale_inv_def start_run_def newApplyResult_def)
  from query_fold_stale [OF this, of source sn "hq_ItemIDs (br_Query result)"]
  have q: "stale_inv ?K ?q" "rn_staleItems ?q = [] \<Longrightarrow> \<forall>k \<in> set (hq_ItemIDs (br_Query result)). confirmed source sn k"
    by auto
  obtain r2 ps where f: "fold (pending_step pf sn (batch_fetchedAt result)) (batch_latest result) (?q, []) = (r2, ps)"
    by (cases "fold (pending_step pf sn (batch_fetchedAt result)) (batch_latest result) (?q, [])")
  have r2: "r2 = checked_run pf source c result sn" using f by (simp add: checked_run_def)
  note p = pending_fold_stale [OF f subset_refl q(1)]
  from ApplyBatch_sim [OF inv comp ok run] obtain r where
    sim: "fold (astep pd_itemID (apply_act fp source c)) (by_shard fp c pd_itemID (batch_pendings pf sn result))
      (contents fp c, checked_run pf source c result sn) = (contents fp c', r)" and res: "res = finish_result result r"
    by blast
  let ?P = "\<lambda>(_ :: nat) st. stale_inv ?K (snd st) \<and> (rn_staleItems (snd st) = [] \<longrightarrow> rn_staleItems r2 = [])"
  have "?P 0 (fold (astep pd_itemID (apply_act fp source c)) (by_shard fp c pd_itemID (batch_pendings pf sn result))
      (contents fp c, r2))"
    by (rule fold_astep_invariant [where P = ?P]) (use p apply_astep_stale in auto)
  then have fin: "stale_inv ?K r" "rn_staleItems r = [] \<Longrightarrow> rn_staleItems r2 = []"
    by (simp_all add: r2 sim)
  have zero: "ar_Stale res = 0 \<longleftrightarrow> rn_staleItems r = []"
    using fin(1) by (simp add: res finish_counts stale_inv_def)
  show "ar_Stale res = 0 \<Longrightarrow> k \<in> set (hq_ItemIDs (br_Query result)) \<Longrightarrow> confirmed source sn k"
    using zero fin(2) p q(2) by simp
  show "ar_MissItemIDs res = (if ar_Stale res = 0
      then dedup (filter (\<lambda>k. k \<notin> set (map hi_ItemID (br_Records result) @ mkeys (batch_latest result)))
        (hq_ItemIDs (br_Query result))) else [])"
  proof (cases "ar_Stale res = 0")
    case True
    then have prot: "set (rn_protected r) \<subseteq> ?K" using zero fin(1) by (simp add: stale_inv_def)
    have "ar_Stale (fold outcome_step (rn_outcomes r) (rn_result r)) = 0"
      using True outcome_steps [of "rn_outcomes r" "rn_result r"] by (simp add: res finish_counts)
    then have "ar_MissItemIDs res = miss_items (hq_ItemIDs (br_Query result)) (rn_protected r)
             (map hi_ItemID (br_Records result) @ mkeys (batch_latest result))"
      by (simp add: res finish_result_def Let_def)
    also have "\<dots> = dedup (filter (\<lambda>k. k \<notin> set (map hi_ItemID (br_Records result) @ mkeys (batch_latest result)))
        (hq_ItemIDs (br_Query result)))"
      unfolding miss_items_eq using prot by (intro arg_cong [where f = dedup] filter_cong) auto
    finally show ?thesis using True by simp
  next
    case False
    then have "ar_MissItemIDs res = ar_MissItemIDs (rn_result r)"
      using outcome_steps [of "rn_outcomes r" "rn_result r"] by (simp add: res finish_counts) (simp add: finish_result_def Let_def)
    then show ?thesis using False fin(1) by (simp add: stale_inv_def)
  qed
qed

end
