(* ===== verification/Cache_Reach.thy ===== *)
theory Cache_Reach
  imports Cache_Apply "HOL-Library.Code_Target_Nat"
begin

text \<open>
  The value caches the program can build: a new cache, then any interleaving of whole operations.
  Every operation locks one shard at a time and the version and entry counters are atomic, so the
  sequences of operations cover the sequential behaviours of the cache; the metadata source may
  answer differently at each call.
\<close>

lemma shard_counts: "64 \<le> n \<Longrightarrow> n \<le> 256 \<Longrightarrow> n AND (n - 1) = 0 \<Longrightarrow> n \<in> {64, 128, 256 :: int}"
proof -
  assume n: "64 \<le> n" "n \<le> 256" "n AND (n - 1) = 0"
  have "list_all (\<lambda>m. m AND (m - 1) = 0 \<longrightarrow> m = 64 \<or> m = 128 \<or> m = 256) [64..256 :: int]"
    by code_simp
  then have "\<forall>m \<in> {64..256 :: int}. m AND (m - 1) = 0 \<longrightarrow> m = 64 \<or> m = 128 \<or> m = 256"
    by (simp only: list_all_iff set_upto)
  then show ?thesis using n by (metis atLeastAtMost_iff insertCI)
qed

lemma view_new: "view newValueShard = (\<lambda>_. None)"
  by (simp add: view_def newValueShard_def fun_eq_iff)

lemma NewValueCache_inv [inv_intros]:
  assumes "NewValueCache config = Inr c"
  shows "cache_inv fp c"
proof -
  define n where "n = (if cc_ShardCount config = 0 then 256 else cc_ShardCount config)"
  define slots where "slots = (if cc_PublishSlots config = 0 then 12 else cc_PublishSlots config)"
  define thr where "thr = (if cc_MissThreshold config = 0 then 2 else cc_MissThreshold config)"
  note new = assms [unfolded NewValueCache_def Let_def, folded n_def slots_def thr_def]
  have n: "64 \<le> n" "n \<le> 256" "n AND (n - 1) = 0" and slots: "1 \<le> slots" "slots \<le> 65535"
    using new by (auto split: if_splits)
  have thr: "1 \<le> thr" by (simp add: thr_def)
  have c: "c = \<lparr>vc_shards = replicate (nat n) newValueShard, vc_shardMask = of_int (n - 1),
       vc_publishSlots = nat slots, vc_missThreshold = thr, vc_hasRegistrar = cc_hasRegistrar config,
       vc_nextValueVersion = 0, vc_entries = 0\<rparr>"
    using new by (auto split: if_splits)
  have ni: "n \<in> {64, 128, 256}" by (rule shard_counts [OF n])
  have cfg: "config_ok c" using ni slots thr by (auto simp: config_ok_def c)
  have idx: "shardIndex fp c k < nat n" for k
    using shardIndex_less [OF cfg, of fp k] by (simp add: c)
  have empty: "contents fp c = (\<lambda>_. None)"
    using idx by (simp add: contents_def cview_def c view_new fun_eq_iff)
  have "shard_ok 0 newValueShard" using new_shard_inv by (simp add: shard_ok_def newValueShard_def)
  then show ?thesis
    unfolding cache_inv_def using cfg empty by (auto simp: flat_inv_def c view_new)
qed

inductive cache_reachable :: "(string \<Rightarrow> 64 word) \<Rightarrow> (string \<Rightarrow> go_error + float64) \<Rightarrow> ValueCache \<Rightarrow> bool"
  for fp pf where
  New: "NewValueCache config = Inr c \<Longrightarrow> cache_reachable fp pf c"
| Apply: "cache_reachable fp pf c \<Longrightarrow> batch_ok c result
    \<Longrightarrow> ApplyBatch fp pf source c result snapshot = (c', res, expiry) \<Longrightarrow> cache_reachable fp pf c'"
| Miss: "cache_reachable fp pf c \<Longrightarrow> MarkMiss fp c ids t = (c', miss) \<Longrightarrow> cache_reachable fp pf c'"
| Del: "cache_reachable fp pf c \<Longrightarrow> Delete fp c ids reason = (c', del) \<Longrightarrow> cache_reachable fp pf c'"
| DelVersioned: "cache_reachable fp pf c \<Longrightarrow> DeleteVersioned fp c items reason = (c', del)
    \<Longrightarrow> cache_reachable fp pf c'"
| Ack: "cache_reachable fp pf c \<Longrightarrow> AckPublished fp c acks = (c', ackr) \<Longrightarrow> cache_reachable fp pf c'"

lemma reachable_inv: "cache_reachable fp pf c \<Longrightarrow> cache_inv fp c"
  by (induction rule: cache_reachable.induct)
    (blast intro: NewValueCache_inv ApplyBatch_inv MarkMiss_inv Delete_inv DeleteVersioned_inv AckPublished_inv)+

section \<open>Reading the counters off the entries\<close>

lemma dom_contents: "dom (contents fp c) = {k. Load fp c k \<noteq> None}"
  by (auto simp: dom_def Load_contents)

lemma Len_entries: "cache_inv fp c \<Longrightarrow> Len c = int (card {k. Load fp c k \<noteq> None})"
  using cache_invD(4) [of fp c] flat_invD(4) by (fastforce simp: Len_def dom_contents)

section \<open>A small cache to evaluate\<close>

text \<open>One host with two float items, one of 30 seconds and one of 5 minutes; a batch with a value for the
  first.  The fingerprint sends both to shard 1.\<close>

definition ex_fp :: "string \<Rightarrow> 64 word" where
  "ex_fp k = (if k = ''101'' \<or> k = ''102'' then 1 else 2)"

definition ex_parse :: "string \<Rightarrow> go_error + float64" where
  "ex_parse v = (if v = ''x'' then Inl (ParseFloatError v) else Inr (of_nat (length v)))"

definition ex_config :: ValueCacheConfig where
  "ex_config = \<lparr>cc_ShardCount = 64, cc_PublishSlots = 12, cc_InitialCapacity = 0, cc_MissThreshold = 2,
     cc_hasRegistrar = True\<rparr>"

definition ex_cache0 :: ValueCache where
  "ex_cache0 = (case NewValueCache ex_config of Inr c \<Rightarrow> c
     | Inl _ \<Rightarrow> \<lparr>vc_shards = [], vc_shardMask = 0, vc_publishSlots = 0, vc_missThreshold = 0,
         vc_hasRegistrar = False, vc_nextValueVersion = 0, vc_entries = 0\<rparr>)"

definition ex_item :: "string \<Rightarrow> duration \<Rightarrow> nat \<Rightarrow> ItemMetadata" where
  "ex_item k delay version =
     \<lparr>im_ItemID = k, im_HostID = ''10'', im_Key = ''cpu'', im_Name = ''cpu'', im_ValueType = ''0'',
      im_RawDelay = ''30s'', im_Delay = delay, im_DelayParseState = DelayParsed, im_Status = ''0'',
      im_State = ''0'', im_Enabled = True, im_MetricName = ''cpu'', im_Labels = [], im_RefreshedAt = 0,
      im_Version = version\<rparr>"

definition ex_snapshot :: MetadataSnapshot where
  "ex_snapshot = \<lparr>sn_Version = 7, sn_CreatedAt = 0, sn_Hosts = [], sn_HostIDs = [''10''],
     sn_Items = [(''101'', Some (ex_item ''101'' (30 * Second) 5)), (''102'', Some (ex_item ''102'' (5 * Minute) 6))],
     sn_HostItems = [(''10'', [''101'', ''102''])], sn_Groups = [], sn_ItemGroups = []\<rparr>"

definition ex_query :: HistoryQuery where
  "ex_query = \<lparr>hq_GroupID = ''g'', hq_ItemIDs = [''101'', ''102'', ''103''], hq_ValueType = 0,
     hq_TimeFrom = 0, hq_TimeTill = 0, hq_Limit = 100\<rparr>"

definition ex_batch :: "string list \<Rightarrow> HistoryItem list \<Rightarrow> time \<Rightarrow> BatchResult" where
  "ex_batch ids records finished =
     \<lparr>br_Query = ex_query\<lparr>hq_ItemIDs := ids\<rparr>, br_Status = BatchSuccess, br_Records = records,
      br_Latest = None, br_Returned = int (length records), br_LimitHit = False, br_StartedAt = 0,
      br_FinishedAt = finished, br_Err = None\<rparr>"

definition ex_record :: "string \<Rightarrow> int \<Rightarrow> HistoryItem" where
  "ex_record k clock = \<lparr>hi_ItemID = k, hi_Clock = clock, hi_Value = ''12'', hi_NS = 5\<rparr>"

definition ex_source :: snapshot_source where
  "ex_source = Some (\<lambda>_. Some ex_snapshot)"

definition ex_batch1 :: BatchResult where
  "ex_batch1 = ex_batch [''101'', ''102''] [ex_record ''101'' 1000, ex_record ''101'' 990] (time_Unix 1001 0)"

definition ex_cache1 :: ValueCache where
  "ex_cache1 = fst (ApplyBatch ex_fp ex_parse ex_source ex_cache0 ex_batch1 (Some ex_snapshot))"

lemma ex_cache0_new: "NewValueCache ex_config = Inr ex_cache0"
  by code_simp

lemma ex_cache0_inv: "cache_inv ex_fp ex_cache0"
  by (rule NewValueCache_inv [OF ex_cache0_new])

lemma ex_batch1_ok: "batch_ok ex_cache0 ex_batch1"
  unfolding batch_ok_def by code_simp

lemma ex_cache1_inv: "cache_inv ex_fp ex_cache1"
  unfolding ex_cache1_def
  by (cases "ApplyBatch ex_fp ex_parse ex_source ex_cache0 ex_batch1 (Some ex_snapshot)")
    (auto intro: ApplyBatch_inv [OF ex_cache0_inv ex_batch1_ok])

lemma ex_cache1_entry: "map_option vs_ValueVersion (Load ex_fp ex_cache1 ''101'') = Some 1
    \<and> Load ex_fp ex_cache1 ''102'' = None"
  by code_simp

lemma ex_cache1_reachable: "cache_reachable ex_fp ex_parse ex_cache1"
  unfolding ex_cache1_def
  by (cases "ApplyBatch ex_fp ex_parse ex_source ex_cache0 ex_batch1 (Some ex_snapshot)")
    (auto intro: cache_reachable.Apply [OF cache_reachable.New [OF ex_cache0_new] ex_batch1_ok])

lemma ex_contents1: "contents ex_fp ex_cache1 ''102'' = None"
  "contents ex_fp ex_cache1 ''101'' =
     Some (new_state ex_fp ex_cache0 \<lparr>pd_itemID = ''101'', pd_value = 2, pd_clock = 1000, pd_ns = 5,
       pd_delay = 30 * Second, pd_metadataVersion = 5, pd_fetchedAt = time_Unix 1001 0\<rparr> 1)"
  unfolding Load_contents by code_simp+

end
