(* ===== verification/Cache_Paging.thy ===== *)
theory Cache_Paging
  imports Cache_Reach
begin

text \<open>
  Reading the value cache page by page (\<^verbatim>\<open>ReadPublishPage\<close> and \<^verbatim>\<open>ReadScrapePage\<close> of
  \<^verbatim>\<open>internal/cache/value_cache.go\<close>) and the contract of a paged store that the publisher and the exporter
  rely on: the pages a reader gets by following the cursor until \<open>pp_Done\<close> are, put together, the values
  that were to be read.
\<close>

section \<open>The code\<close>

definition publishEligible :: "ValueState \<Rightarrow> time \<Rightarrow> bool" where
  "publishEligible state cycleTimestamp =
     (if \<not> vs_Valid state \<or> \<not> cycleTimestamp < vs_ExpireAt state then False
      else if vs_PublishPolicy state = PublishSourceTimestamp
      then vs_ValueVersion state > vs_LastPublishedVersion state
      else if cycleTimestamp < vs_SourceTimestamp state then False
      else time_IsZero (vs_LastPublishedTimestamp state) \<or> cycleTimestamp > vs_LastPublishedTimestamp state)"

definition scrapeEligible :: "ValueState \<Rightarrow> time \<Rightarrow> bool" where
  "scrapeEligible state scrapeTimestamp =
     (if \<not> vs_Valid state \<or> \<not> scrapeTimestamp < vs_ExpireAt state then False
      else vs_PublishPolicy state \<noteq> PublishCycleTimestamp \<or> \<not> scrapeTimestamp < vs_SourceTimestamp state)"

definition page_value :: "time \<Rightarrow> ValueState \<Rightarrow> PublishValue" where
  "page_value timestamp state =
     \<lparr>pv_ItemID = vs_ItemID state, pv_Value = vs_Value state,
      pv_Timestamp = (if vs_PublishPolicy state = PublishCycleTimestamp then timestamp
                      else vs_SourceTimestamp state),
      pv_SourceTimestamp = vs_SourceTimestamp state, pv_SourceNS = vs_SourceNS state,
      pv_MetadataVersion = vs_MetadataVersion state, pv_ValueVersion = vs_ValueVersion state,
      pv_PublishSlot = vs_PublishSlot state, pv_PublishPolicy = vs_PublishPolicy state\<rparr>"

definition key_value :: "(ValueState \<Rightarrow> bool) \<Rightarrow> time \<Rightarrow> valueShard \<Rightarrow> scanKey \<Rightarrow> PublishValue option" where
  "key_value wanted timestamp shard key =
     (case mget (sh_values shard) (sk_itemID key) of
        None \<Rightarrow> None
      | Some state \<Rightarrow>
          if vs_scanSequence state \<noteq> sk_sequence key \<or> \<not> wanted state then None
          else Some (page_value timestamp state))"

text \<open>The inner loop over one shard's order; the flag says that the page is full.\<close>

fun scan_keys :: "(scanKey \<Rightarrow> PublishValue option) \<Rightarrow> nat \<Rightarrow> nat \<Rightarrow> scanKey list \<Rightarrow> PublishPage \<Rightarrow> PublishPage \<times> bool" where
  "scan_keys val i limit [] page = (page, False)"
| "scan_keys val i limit (key # keys) page =
     (let page = page\<lparr>pp_Next := \<lparr>pc_Shard = i, pc_Sequence = sk_sequence key\<rparr>\<rparr> in
      case val key of
        None \<Rightarrow> scan_keys val i limit keys page
      | Some v \<Rightarrow>
          (let page = page\<lparr>pp_Values := pp_Values page @ [v]\<rparr> in
           if length (pp_Values page) = limit then (page, True)
           else scan_keys val i limit keys page))"

text \<open>The outer loop over the shards from the cursor's on.\<close>

fun scan_shards :: "(valueShard \<Rightarrow> scanKey \<Rightarrow> PublishValue option) \<Rightarrow> nat \<Rightarrow> valueShard list \<Rightarrow> nat \<Rightarrow> nat
    \<Rightarrow> PublishPage \<Rightarrow> PublishPage" where
  "scan_shards val limit [] i sequence page = page\<lparr>pp_Done := True\<rparr>"
| "scan_shards val limit (shard # shards) i sequence page =
     (case scan_keys (val shard) i limit
             (drop (firstSequenceAfter shard sequence) (sh_order shard)) page of
        (page, full) \<Rightarrow>
          if full then page
          else scan_shards val limit shards (Suc i) 0
                 (page\<lparr>pp_Next := \<lparr>pc_Shard = Suc i, pc_Sequence = 0\<rparr>\<rparr>))"

definition read_page :: "(ValueState \<Rightarrow> bool) \<Rightarrow> time \<Rightarrow> nat \<Rightarrow> ValueCache \<Rightarrow> PublishCursor \<Rightarrow> PublishPage" where
  "read_page wanted timestamp limit c cursor =
     (if pc_Shard cursor = length (vc_shards c) then \<lparr>pp_Values = [], pp_Next = cursor, pp_Done = True\<rparr>
      else scan_shards (key_value wanted timestamp) limit (drop (pc_Shard cursor) (vc_shards c))
             (pc_Shard cursor) (pc_Sequence cursor)
             \<lparr>pp_Values = [], pp_Next = cursor, pp_Done = False\<rparr>)"

definition ReadPublishPage :: "ValueCache \<Rightarrow> nat \<Rightarrow> PublishCursor \<Rightarrow> time \<Rightarrow> int \<Rightarrow> go_error + PublishPage" where
  "ReadPublishPage c slot cursor cycleTimestamp limit =
     (if slot \<ge> vc_publishSlots c then Inl (ArgumentError ''publish slot out of range'')
      else if limit \<le> 0 then Inl (ArgumentError ''publish page limit must be positive'')
      else if pc_Shard cursor > length (vc_shards c)
      then Inl (ArgumentError ''publish cursor shard out of range'')
      else Inr (read_page (\<lambda>state. vs_PublishSlot state = slot \<and> publishEligible state cycleTimestamp)
             cycleTimestamp (nat limit) c cursor))"

definition ReadScrapePage :: "ValueCache \<Rightarrow> PublishCursor \<Rightarrow> time \<Rightarrow> int \<Rightarrow> go_error + PublishPage" where
  "ReadScrapePage c cursor scrapeTimestamp limit =
     (if time_IsZero scrapeTimestamp then Inl (ArgumentError ''scrape timestamp must not be zero'')
      else if limit \<le> 0 then Inl (ArgumentError ''scrape page limit must be positive'')
      else if pc_Shard cursor > length (vc_shards c)
      then Inl (ArgumentError ''scrape cursor shard out of range'')
      else Inr (read_page (\<lambda>state. scrapeEligible state scrapeTimestamp) scrapeTimestamp (nat limit) c cursor))"

section \<open>The contract\<close>

text \<open>A reader follows the cursor until the page says it is the last; \<open>fuel\<close> bounds the pages.\<close>

fun drain :: "(PublishCursor \<Rightarrow> PublishPage) \<Rightarrow> nat \<Rightarrow> PublishCursor \<Rightarrow> PublishValue list option" where
  "drain read 0 cursor = None"
| "drain read (Suc fuel) cursor =
     (let page = read cursor in
      if pp_Done page then Some (pp_Values page)
      else map_option (\<lambda>vs. pp_Values page @ vs) (drain read fuel (pp_Next page)))"

locale paged_store =
  fixes read :: "PublishCursor \<Rightarrow> PublishPage"
    and todo :: "PublishCursor \<Rightarrow> PublishValue list"
    and valid :: "PublishCursor \<Rightarrow> bool"
  assumes page_split: "valid cursor \<Longrightarrow> pp_Values (read cursor) @ todo (pp_Next (read cursor)) = todo cursor"
    and page_valid: "valid cursor \<Longrightarrow> valid (pp_Next (read cursor))"
    and page_done: "valid cursor \<Longrightarrow> pp_Done (read cursor) \<Longrightarrow> todo (pp_Next (read cursor)) = []"
    and page_more: "valid cursor \<Longrightarrow> \<not> pp_Done (read cursor) \<Longrightarrow> pp_Values (read cursor) \<noteq> []"
begin

text \<open>Every page but the last carries a value, so as many pages as values, and one, are enough.\<close>

lemma drain_all: "valid cursor \<Longrightarrow> length (todo cursor) < fuel \<Longrightarrow> drain read fuel cursor = Some (todo cursor)"
proof (induction fuel arbitrary: cursor)
  case 0
  then show ?case by simp
next
  case (Suc fuel)
  let ?p = "read cursor"
  note split = page_split [OF Suc.prems(1)]
  show ?case
  proof (cases "pp_Done ?p")
    case True
    then show ?thesis using split page_done [OF Suc.prems(1)] by (simp add: Let_def)
  next
    case False
    have pos: "0 < length (pp_Values ?p)" using page_more [OF Suc.prems(1) False] by simp
    have "length (pp_Values ?p) + length (todo (pp_Next ?p)) = length (todo cursor)"
      using split by (metis length_append)
    then have "length (todo (pp_Next ?p)) < fuel" using Suc.prems(2) pos by linarith
    from Suc.IH [OF page_valid [OF Suc.prems(1)] this] False split show ?thesis by (simp add: Let_def)
  qed
qed

end

section \<open>The cache provides it\<close>

definition shard_todo :: "(valueShard \<Rightarrow> scanKey \<Rightarrow> PublishValue option) \<Rightarrow> valueShard \<Rightarrow> nat \<Rightarrow> PublishValue list" where
  "shard_todo val shard q = List.map_filter (val shard) (filter (\<lambda>key. q < sk_sequence key) (sh_order shard))"

fun shards_todo :: "(valueShard \<Rightarrow> scanKey \<Rightarrow> PublishValue option) \<Rightarrow> valueShard list \<Rightarrow> nat \<Rightarrow> PublishValue list" where
  "shards_todo val [] q = []"
| "shards_todo val (shard # shards) q = shard_todo val shard q @ shards_todo val shards 0"

definition cache_todo :: "(ValueState \<Rightarrow> bool) \<Rightarrow> time \<Rightarrow> ValueCache \<Rightarrow> PublishCursor \<Rightarrow> PublishValue list" where
  "cache_todo wanted timestamp c cursor =
     shards_todo (key_value wanted timestamp) (drop (pc_Shard cursor) (vc_shards c)) (pc_Sequence cursor)"

lemma map_filter_append: "List.map_filter f (xs @ ys) = List.map_filter f xs @ List.map_filter f ys"
  by (simp add: map_filter_def)

text \<open>The keys a scan visits, and what it leaves.\<close>

definition scanned :: "(scanKey \<Rightarrow> PublishValue option) \<Rightarrow> nat \<Rightarrow> nat \<Rightarrow> PublishPage \<Rightarrow> PublishPage \<Rightarrow> bool
    \<Rightarrow> scanKey list \<Rightarrow> scanKey list \<Rightarrow> bool" where
  "scanned val i limit page page' full read rest \<longleftrightarrow>
     pp_Values page' = pp_Values page @ List.map_filter val read \<and> pp_Done page' = pp_Done page
     \<and> (if full then length (pp_Values page') = limit \<and> read \<noteq> []
           \<and> pp_Next page' = \<lparr>pc_Shard = i, pc_Sequence = sk_sequence (last read)\<rparr>
        else rest = [] \<and> length (pp_Values page') < limit)"

lemma scanned_Cons:
  assumes "scanned val i limit (page\<lparr>pp_Next := n, pp_Values := pp_Values page @ ys\<rparr>) page' full read rest"
    and "(case val key of None \<Rightarrow> [] | Some v \<Rightarrow> [v]) = ys"
  shows "scanned val i limit page page' full (key # read) rest"
  using assms by (cases "val key"; cases full; cases "read = []") (simp_all add: scanned_def map_filter_def)

lemma scan_keys_split:
  assumes "scan_keys val i limit keys page = (page', full)" "length (pp_Values page) < limit"
  shows "\<exists>read rest. keys = read @ rest \<and> scanned val i limit page page' full read rest"
  using assms
proof (induction keys arbitrary: page)
  case Nil
  then show ?case by (simp add: scanned_def map_filter_def)
next
  case (Cons key keys)
  let ?p = "page\<lparr>pp_Next := \<lparr>pc_Shard = i, pc_Sequence = sk_sequence key\<rparr>\<rparr>"
  show ?case
  proof (cases "val key")
    case None
    then have "scan_keys val i limit keys ?p = (page', full)" using Cons.prems(1) by (simp add: Let_def)
    from Cons.IH [OF this] Cons.prems(2) obtain read rest where
      r: "keys = read @ rest" "scanned val i limit ?p page' full read rest" by auto
    have "scanned val i limit page page' full (key # read) rest"
      by (rule scanned_Cons [where ys = "[]"]) (use r(2) None in simp_all)
    with r(1) show ?thesis by (metis append_Cons)
  next
    case (Some v)
    let ?q = "?p\<lparr>pp_Values := pp_Values page @ [v]\<rparr>"
    show ?thesis
    proof (cases "Suc (length (pp_Values page)) = limit")
      case True
      then have "page' = ?q \<and> full" using Cons.prems(1) Some by (simp add: Let_def)
      then have "scanned val i limit page page' full [key] keys"
        using Some True by (simp add: scanned_def map_filter_def)
      then show ?thesis by (metis append_Cons append_Nil)
    next
      case False
      then have "scan_keys val i limit keys ?q = (page', full)" using Cons.prems(1) Some by (simp add: Let_def)
      moreover have "length (pp_Values ?q) < limit" using False Cons.prems(2) by simp
      ultimately obtain read rest where
        r: "keys = read @ rest" "scanned val i limit ?q page' full read rest" using Cons.IH by blast
      have "scanned val i limit page page' full (key # read) rest"
        by (rule scanned_Cons [where ys = "[v]"]) (use r(2) Some in simp_all)
      with r(1) show ?thesis by (metis append_Cons)
    qed
  qed
qed

lemma order_rest:
  assumes "order_inv order next" "filter (\<lambda>key. q < sk_sequence key) order = read @ rest" "read \<noteq> []"
  shows "filter (\<lambda>key. sk_sequence (last read) < sk_sequence key) order = rest"
proof -
  have sorted: "sorted_wrt (\<lambda>a b. sk_sequence a < sk_sequence b) (read @ rest)"
    using order_inv_filter [OF assms(1), of "\<lambda>key. q < sk_sequence key"] assms(2)
    by (simp add: order_inv_def)
  have last: "last read \<in> set read" using assms(3) by simp
  have q: "q < sk_sequence (last read)"
    using last assms(2) by (metis (mono_tags, lifting) UnCI mem_Collect_eq set_append set_filter)
  have "filter (\<lambda>key. sk_sequence (last read) < sk_sequence key) order =
      filter (\<lambda>key. sk_sequence (last read) < sk_sequence key) (filter (\<lambda>key. q < sk_sequence key) order)"
    using q by (auto intro!: filter_cong)
  also have "\<dots> = filter (\<lambda>key. sk_sequence (last read) < sk_sequence key) read
      @ filter (\<lambda>key. sk_sequence (last read) < sk_sequence key) rest"
    by (simp add: assms(2))
  also have "filter (\<lambda>key. sk_sequence (last read) < sk_sequence key) rest = rest"
    using sorted last by (auto simp: filter_id_conv sorted_wrt_append)
  also have "filter (\<lambda>key. sk_sequence (last read) < sk_sequence key) read = []"
  proof -
    obtain xs x where read: "read = xs @ [x]" using assms(3) by (metis rev_exhaust)
    with sorted show ?thesis by (auto simp: filter_empty_conv sorted_wrt_append)
  qed
  finally show ?thesis by simp
qed

lemma scan_shards_split:
  assumes "scan_shards val limit ss i q page = page'" and "length (pp_Values page) < limit"
    and "\<And>s. s \<in> set ss \<Longrightarrow> shard_inv s" and "\<not> pp_Done page" and "pc_Shard (pp_Next page) = i"
  shows "\<exists>vs. pp_Values page' = pp_Values page @ vs
    \<and> i \<le> pc_Shard (pp_Next page') \<and> pc_Shard (pp_Next page') \<le> i + length ss
    \<and> vs @ shards_todo val (drop (pc_Shard (pp_Next page') - i) ss) (pc_Sequence (pp_Next page')) = shards_todo val ss q
    \<and> (pp_Done page' \<longrightarrow> pc_Shard (pp_Next page') = i + length ss)
    \<and> (\<not> pp_Done page' \<longrightarrow> length (pp_Values page') = limit)"
  using assms
proof (induction ss arbitrary: i q page)
  case Nil
  then show ?case by auto
next
  case (Cons s ss)
  let ?keys = "drop (firstSequenceAfter s q) (sh_order s)"
  obtain page1 full where scan: "scan_keys (val s) i limit ?keys page = (page1, full)"
    by (cases "scan_keys (val s) i limit ?keys page")
  have inv: "order_inv (sh_order s) (sh_nextSequence s)" using Cons.prems(3) shard_invD(2) by simp
  have keys: "?keys = filter (\<lambda>key. q < sk_sequence key) (sh_order s)" by (rule firstSequenceAfter_spec [OF inv])
  from scan_keys_split [OF scan Cons.prems(2)] obtain read rest where
    split: "?keys = read @ rest" and sc: "scanned (val s) i limit page page1 full read rest" by blast
  have todo: "shard_todo val s q = List.map_filter (val s) read @ List.map_filter (val s) rest"
    by (simp add: shard_todo_def keys [symmetric] split map_filter_append)
  show ?case
  proof (cases full)
    case True
    then have p1: "page' = page1" using Cons.prems(1) scan by simp
    have f: "pp_Values page1 = pp_Values page @ List.map_filter (val s) read" "length (pp_Values page1) = limit"
      "read \<noteq> []" "pp_Next page1 = \<lparr>pc_Shard = i, pc_Sequence = sk_sequence (last read)\<rparr>" "pp_Done page1 = pp_Done page"
      using sc True unfolding scanned_def by argo+
    have "filter (\<lambda>key. sk_sequence (last read) < sk_sequence key) (sh_order s) = rest"
      using order_rest [OF inv] split keys f(3) by simp
    then have "shard_todo val s (sk_sequence (last read)) = List.map_filter (val s) rest"
      by (simp add: shard_todo_def)
    with f todo Cons.prems(4) show ?thesis by (simp add: p1)
  next
    case False
    let ?p = "page1\<lparr>pp_Next := \<lparr>pc_Shard = Suc i, pc_Sequence = 0\<rparr>\<rparr>"
    have f: "pp_Values page1 = pp_Values page @ List.map_filter (val s) read" "length (pp_Values page1) < limit"
      "rest = []" "pp_Done page1 = pp_Done page"
      using sc False unfolding scanned_def by argo+
    have rec: "scan_shards val limit ss (Suc i) 0 ?p = page'" using Cons.prems(1) scan False by simp
    have "\<exists>vs. pp_Values page' = pp_Values ?p @ vs
      \<and> Suc i \<le> pc_Shard (pp_Next page') \<and> pc_Shard (pp_Next page') \<le> Suc i + length ss
      \<and> vs @ shards_todo val (drop (pc_Shard (pp_Next page') - Suc i) ss) (pc_Sequence (pp_Next page')) = shards_todo val ss 0
      \<and> (pp_Done page' \<longrightarrow> pc_Shard (pp_Next page') = Suc i + length ss)
      \<and> (\<not> pp_Done page' \<longrightarrow> length (pp_Values page') = limit)"
      by (rule Cons.IH [OF rec]) (use f Cons.prems in auto)
    then obtain vs where vs: "pp_Values page' = pp_Values page1 @ vs"
      "Suc i \<le> pc_Shard (pp_Next page')" "pc_Shard (pp_Next page') \<le> Suc i + length ss"
      "vs @ shards_todo val (drop (pc_Shard (pp_Next page') - Suc i) ss) (pc_Sequence (pp_Next page')) = shards_todo val ss 0"
      "pp_Done page' \<longrightarrow> pc_Shard (pp_Next page') = Suc i + length ss"
      "\<not> pp_Done page' \<longrightarrow> length (pp_Values page') = limit"
      by auto
    have "pc_Shard (pp_Next page') - i = Suc (pc_Shard (pp_Next page') - Suc i)" using vs(2) by simp
    then have "drop (pc_Shard (pp_Next page') - i) (s # ss) = drop (pc_Shard (pp_Next page') - Suc i) ss" by simp
    with vs f todo show ?thesis
      by (intro exI [of _ "List.map_filter (val s) read @ vs"]) (auto simp: map_filter_def)
  qed
qed

definition cursor_ok :: "ValueCache \<Rightarrow> PublishCursor \<Rightarrow> bool" where
  "cursor_ok c cursor \<longleftrightarrow> pc_Shard cursor \<le> length (vc_shards c)"

lemma read_page_split:
  fixes wanted :: "ValueState \<Rightarrow> bool" and timestamp :: time
  assumes inv: "cache_inv fp c" and limit: "0 < limit" and cur: "cursor_ok c cursor"
  defines "page \<equiv> read_page wanted timestamp limit c cursor"
  shows "pp_Values page @ cache_todo wanted timestamp c (pp_Next page) = cache_todo wanted timestamp c cursor"
    and "cursor_ok c (pp_Next page)"
    and "pp_Done page \<Longrightarrow> cache_todo wanted timestamp c (pp_Next page) = []"
    and "\<not> pp_Done page \<Longrightarrow> length (pp_Values page) = limit"
proof -
  have "pp_Values page @ cache_todo wanted timestamp c (pp_Next page) = cache_todo wanted timestamp c cursor
    \<and> cursor_ok c (pp_Next page) \<and> (pp_Done page \<longrightarrow> cache_todo wanted timestamp c (pp_Next page) = [])
    \<and> (\<not> pp_Done page \<longrightarrow> length (pp_Values page) = limit)"
  proof (cases "pc_Shard cursor = length (vc_shards c)")
    case True
    then show ?thesis by (simp add: page_def read_page_def cache_todo_def cursor_ok_def)
  next
    case False
    let ?val = "key_value wanted timestamp" and ?i = "pc_Shard cursor"
    have shards: "shard_inv s" if "s \<in> set (drop ?i (vc_shards c))" for s
      using cache_invD(2) [OF inv] in_set_dropD [OF that] by (simp add: shard_ok_def)
    have scan: "scan_shards ?val limit (drop ?i (vc_shards c)) ?i (pc_Sequence cursor)
        \<lparr>pp_Values = [], pp_Next = cursor, pp_Done = False\<rparr> = page"
      using False by (simp add: page_def read_page_def)
    from scan_shards_split [OF scan _ shards] limit obtain vs where vs: "pp_Values page = vs"
      "?i \<le> pc_Shard (pp_Next page)" "pc_Shard (pp_Next page) \<le> ?i + (length (vc_shards c) - ?i)"
      "vs @ shards_todo ?val (drop (pc_Shard (pp_Next page) - ?i) (drop ?i (vc_shards c))) (pc_Sequence (pp_Next page))
         = shards_todo ?val (drop ?i (vc_shards c)) (pc_Sequence cursor)"
      "pp_Done page \<longrightarrow> pc_Shard (pp_Next page) = ?i + (length (vc_shards c) - ?i)"
      "\<not> pp_Done page \<longrightarrow> length (pp_Values page) = limit"
      by auto
    have "drop (pc_Shard (pp_Next page) - ?i) (drop ?i (vc_shards c)) = drop (pc_Shard (pp_Next page)) (vc_shards c)"
      using vs(2) by simp
    with vs cur show ?thesis by (auto simp: cache_todo_def cursor_ok_def)
  qed
  then show "pp_Values page @ cache_todo wanted timestamp c (pp_Next page) = cache_todo wanted timestamp c cursor"
    "cursor_ok c (pp_Next page)" "pp_Done page \<Longrightarrow> cache_todo wanted timestamp c (pp_Next page) = []"
    "\<not> pp_Done page \<Longrightarrow> length (pp_Values page) = limit"
    by blast+
qed

interpretation pages: paged_store "read_page wanted timestamp limit c" "cache_todo wanted timestamp c"
    "\<lambda>cursor. cache_inv fp c \<and> 0 < limit \<and> cursor_ok c cursor"
  for wanted timestamp limit c fp
proof unfold_locales
  fix cursor
  assume v: "cache_inv fp c \<and> 0 < limit \<and> cursor_ok c cursor"
  then have v': "cache_inv fp c" "0 < limit" "cursor_ok c cursor" by blast+
  note split = read_page_split [OF v', where wanted = wanted and timestamp = timestamp]
  show "pp_Values (read_page wanted timestamp limit c cursor)
      @ cache_todo wanted timestamp c (pp_Next (read_page wanted timestamp limit c cursor))
      = cache_todo wanted timestamp c cursor"
    by (rule split(1))
  show "cache_inv fp c \<and> 0 < limit \<and> cursor_ok c (pp_Next (read_page wanted timestamp limit c cursor))"
    using v' split(2) by blast
  show "cache_todo wanted timestamp c (pp_Next (read_page wanted timestamp limit c cursor)) = []"
    if "pp_Done (read_page wanted timestamp limit c cursor)"
    using split(3) that by blast
  show "pp_Values (read_page wanted timestamp limit c cursor) \<noteq> []"
    if "\<not> pp_Done (read_page wanted timestamp limit c cursor)"
    using split(4) that v'(2) by force
qed

section \<open>What there is to read\<close>

lemma shard_todo_set:
  assumes inv: "shard_inv s"
  shows "set (shard_todo (key_value wanted timestamp) s 0) =
    {page_value timestamp st |k st. mget (sh_values s) k = Some st \<and> wanted st}"
proof -
  note i = shard_invD [OF inv]
  have all: "filter (\<lambda>key. 0 < sk_sequence key) (sh_order s) = sh_order s"
    using i(2) by (auto simp: order_inv_def filter_id_conv)
  have "v \<in> set (shard_todo (key_value wanted timestamp) s 0)
      \<longleftrightarrow> (\<exists>k st. v = page_value timestamp st \<and> mget (sh_values s) k = Some st \<and> wanted st)" for v
  proof
    assume "v \<in> set (shard_todo (key_value wanted timestamp) s 0)"
    then obtain key where "key \<in> set (sh_order s)" "key_value wanted timestamp s key = Some v"
      by (auto simp: shard_todo_def map_filter_def all)
    then show "\<exists>k st. v = page_value timestamp st \<and> mget (sh_values s) k = Some st \<and> wanted st"
      by (auto simp: key_value_def split: option.splits if_splits)
  next
    assume "\<exists>k st. v = page_value timestamp st \<and> mget (sh_values s) k = Some st \<and> wanted st"
    then obtain k st where st: "v = page_value timestamp st" "mget (sh_values s) k = Some st" "wanted st" by blast
    let ?key = "\<lparr>sk_sequence = vs_scanSequence st, sk_itemID = k\<rparr>"
    have "?key \<in> set (sh_order s)" using i(3) st(2) by (simp add: values_inv_def)
    moreover have "key_value wanted timestamp s ?key = Some v" using st by (simp add: key_value_def)
    ultimately show "v \<in> set (shard_todo (key_value wanted timestamp) s 0)"
      by (force simp: shard_todo_def map_filter_def all)
  qed
  then show ?thesis by blast
qed

lemma map_filter_distinct:
  assumes "distinct keys" and "\<And>a b v w. a \<in> set keys \<Longrightarrow> b \<in> set keys \<Longrightarrow> f a = Some v \<Longrightarrow> f b = Some w
      \<Longrightarrow> g v = g w \<Longrightarrow> a = b"
  shows "distinct (map g (List.map_filter f keys))"
  using assms
proof (induction keys)
  case (Cons a keys)
  have IH: "distinct (map g (List.map_filter f keys))" using Cons by (intro Cons.IH) auto
  show ?case
  proof (cases "f a")
    case None
    with IH show ?thesis by (simp add: map_filter_def)
  next
    case (Some v)
    have "g v \<notin> set (map g (List.map_filter f keys))"
    proof
      assume "g v \<in> set (map g (List.map_filter f keys))"
      then obtain b w where "b \<in> set keys" "f b = Some w" "g v = g w" by (auto simp: map_filter_def)
      then have "a = b" using Cons.prems(2) [of a b v w] Some by simp
      with \<open>b \<in> set keys\<close> Cons.prems(1) show False by simp
    qed
    with IH Some show ?thesis by (simp add: map_filter_def)
  qed
qed (simp add: map_filter_def)

lemma shard_todo_distinct:
  assumes inv: "shard_inv s"
  shows "distinct (map pv_ItemID (shard_todo (key_value wanted timestamp) s 0))"
  unfolding shard_todo_def
proof (rule map_filter_distinct)
  note i = shard_invD [OF inv]
  show "distinct (filter (\<lambda>key. 0 < sk_sequence key) (sh_order s))"
    using order_inv_distinct [OF i(2)] by simp
  fix a b v w
  assume a: "key_value wanted timestamp s a = Some v" and b: "key_value wanted timestamp s b = Some w"
    and eq: "pv_ItemID v = pv_ItemID w"
  obtain st where st: "mget (sh_values s) (sk_itemID a) = Some st" "vs_scanSequence st = sk_sequence a"
      "v = page_value timestamp st"
    using a by (auto simp: key_value_def split: option.splits if_splits)
  obtain st' where st': "mget (sh_values s) (sk_itemID b) = Some st'" "vs_scanSequence st' = sk_sequence b"
      "w = page_value timestamp st'"
    using b by (auto simp: key_value_def split: option.splits if_splits)
  have "sk_itemID a = sk_itemID b" using i(3) st st' eq by (auto simp: values_inv_def page_value_def)
  then show "a = b" using st st' by simp
qed

lemma shards_todo_distinct:
  assumes "\<And>j. j < length ss \<Longrightarrow> shard_inv (ss ! j)"
    and "\<And>j k. j < length ss \<Longrightarrow> mget (sh_values (ss ! j)) k \<noteq> None \<Longrightarrow> idx k = i + j"
  shows "distinct (map pv_ItemID (shards_todo (key_value wanted timestamp) ss 0))
    \<and> (\<forall>v \<in> set (shards_todo (key_value wanted timestamp) ss 0). i \<le> (idx (pv_ItemID v) :: nat))
    \<and> set (shards_todo (key_value wanted timestamp) ss 0) =
      {page_value timestamp st |sh k st. sh \<in> set ss \<and> mget (sh_values sh) k = Some st \<and> wanted st}"
  using assms
proof (induction ss arbitrary: i)
  case Nil
  then show ?case by simp
next
  case (Cons s ss)
  let ?val = "key_value wanted timestamp"
  have s: "shard_inv s" using Cons.prems(1) [of 0] by simp
  have in_s: "idx (pv_ItemID v) = i" if v: "v \<in> set (shard_todo ?val s 0)" for v
  proof -
    obtain k st where st: "v = page_value timestamp st" "mget (sh_values s) k = Some st"
      using v unfolding shard_todo_set [OF s] by fast
    have "pv_ItemID v = k" using shard_invD(3) [OF s] st by (auto simp: values_inv_def page_value_def)
    then show ?thesis using Cons.prems(2) [of 0 k] st by simp
  qed
  have IH: "distinct (map pv_ItemID (shards_todo ?val ss 0))
    \<and> (\<forall>v \<in> set (shards_todo ?val ss 0). Suc i \<le> idx (pv_ItemID v))
    \<and> set (shards_todo ?val ss 0) =
      {page_value timestamp st |sh k st. sh \<in> set ss \<and> mget (sh_values sh) k = Some st \<and> wanted st}"
  proof (rule Cons.IH)
    show "shard_inv (ss ! j)" if "j < length ss" for j using Cons.prems(1) [of "Suc j"] that by simp
    show "idx k = Suc i + j" if "j < length ss" "mget (sh_values (ss ! j)) k \<noteq> None" for j k
      using Cons.prems(2) [of "Suc j" k] that by simp
  qed
  have "set (shards_todo ?val (s # ss) 0) =
      {page_value timestamp st |sh k st. sh \<in> set (s # ss) \<and> mget (sh_values sh) k = Some st \<and> wanted st}"
    using IH unfolding shards_todo.simps set_append shard_todo_set [OF s] by auto
  moreover have "distinct (map pv_ItemID (shards_todo ?val (s # ss) 0))"
    using IH shard_todo_distinct [OF s, of wanted timestamp] in_s by (fastforce simp: Suc_le_eq)
  moreover have "\<forall>v \<in> set (shards_todo ?val (s # ss) 0). i \<le> idx (pv_ItemID v)"
    using IH in_s by fastforce
  ultimately show ?case by blast
qed

definition first_cursor :: PublishCursor where
  "first_cursor = \<lparr>pc_Shard = 0, pc_Sequence = 0\<rparr>"

lemma cache_todo_start:
  assumes inv: "cache_inv fp c"
  shows "distinct (map pv_ItemID (cache_todo wanted timestamp c first_cursor))"
    and "set (cache_todo wanted timestamp c first_cursor) =
      {page_value timestamp st |k st. Load fp c k = Some st \<and> wanted st}"
proof -
  have place: "shardIndex fp c k = 0 + j" if "j < length (vc_shards c)" "mget (sh_values (vc_shards c ! j)) k \<noteq> None" for j k
    using cache_invD(3) [OF inv, of j k] that by (auto simp: view_def)
  have shards: "shard_inv (vc_shards c ! j)" if "j < length (vc_shards c)" for j
    using cache_invD(2) [OF inv] that by (simp add: shard_ok_def)
  note todo = shards_todo_distinct [of "vc_shards c" "shardIndex fp c" 0 wanted timestamp, OF shards place]
  show "distinct (map pv_ItemID (cache_todo wanted timestamp c first_cursor))"
    using todo by (simp add: cache_todo_def first_cursor_def)
  have "set (cache_todo wanted timestamp c first_cursor) =
      {page_value timestamp st |sh k st. sh \<in> set (vc_shards c) \<and> mget (sh_values sh) k = Some st \<and> wanted st}"
    using todo by (simp add: cache_todo_def first_cursor_def)
  also have "\<dots> = {page_value timestamp st |k st. Load fp c k = Some st \<and> wanted st}"
  proof -
    have "(\<exists>sh \<in> set (vc_shards c). mget (sh_values sh) k = Some st) \<longleftrightarrow> Load fp c k = Some st" for k st
      unfolding Load_def using place shardIndex_less [OF cache_invD(1) [OF inv], of fp k]
      by (metis add_0 in_set_conv_nth nth_mem option.distinct(1))
    then show ?thesis by blast
  qed
  finally show "set (cache_todo wanted timestamp c first_cursor) =
      {page_value timestamp st |k st. Load fp c k = Some st \<and> wanted st}" .
qed

lemma todo_length:
  assumes inv: "cache_inv fp c"
  shows "length (cache_todo wanted timestamp c first_cursor) \<le> nat (Len c)"
proof -
  let ?vs = "cache_todo wanted timestamp c first_cursor"
  note start = cache_todo_start [OF inv, of wanted timestamp]
  have "pv_ItemID ` set ?vs \<subseteq> {k. Load fp c k \<noteq> None}"
  proof
    fix k
    assume "k \<in> pv_ItemID ` set ?vs"
    then obtain k' st where st: "Load fp c k' = Some st" "k = vs_ItemID st"
      using start(2) by (auto simp: page_value_def)
    then have "contents fp c k' = Some (erase st)" by (simp add: Load_contents)
    from cache_entry [OF inv this] st show "k \<in> {k. Load fp c k \<noteq> None}" by (simp add: entry_ok_def)
  qed
  moreover have "finite {k. Load fp c k \<noteq> None}"
    using flat_invD(3) [OF cache_invD(4) [OF inv]] by (simp only: dom_contents)
  ultimately have "card (pv_ItemID ` set ?vs) \<le> card {k. Load fp c k \<noteq> None}" by (rule card_mono [rotated])
  moreover have "length ?vs = card (pv_ItemID ` set ?vs)"
    using start(1) by (metis distinct_card length_map set_map)
  ultimately show ?thesis by (simp add: Len_entries [OF inv])
qed

lemma read_page_moves:
  assumes inv: "cache_inv fp c" and limit: "0 < limit" and cursor: "cursor_ok c cursor"
  shows "cursor_ok c (pp_Next (read_page wanted t limit c cursor))
    \<and> (pp_Done (read_page wanted t limit c cursor) \<or> pp_Next (read_page wanted t limit c cursor) \<noteq> cursor)"
proof -
  let ?page = "read_page wanted t limit c cursor"
  note sp = read_page_split [OF inv limit cursor, of wanted t]
  have "pp_Next ?page \<noteq> cursor" if "\<not> pp_Done ?page"
  proof
    assume same: "pp_Next ?page = cursor"
    have "pp_Values ?page \<noteq> []" using sp(4) [OF that] limit by (cases "pp_Values ?page") auto
    then show False using sp(1) unfolding same by simp
  qed
  then show ?thesis using sp(2) by blast
qed

lemma drain_cache:
  assumes inv: "cache_inv fp c" and limit: "0 < limit" and fuel: "nat (Len c) < fuel"
  shows "drain (read_page wanted t limit c) fuel first_cursor = Some (cache_todo wanted t c first_cursor)"
  using inv limit le_less_trans [OF todo_length [OF inv] fuel]
  by (intro pages.drain_all) (auto simp: cursor_ok_def first_cursor_def)

end
