(* ===== verification/Cache_Properties.thy ===== *)
theory Cache_Properties
  imports Cache_Paging
begin

text \<open>
  The properties of the value cache's writing operations, each with a run of the operation on the small
  cache of \<open>Cache_Reach\<close>.
\<close>

section \<open>The invariant\<close>

text \<open>C1: Whatever operations a cache goes through, its invariant holds: every entry lies in the shard its
  fingerprint selects, carries a fresh unique version, the slot, policy and expiry its delay and source
  time determine, and is invalid only after the threshold of misses; and \<open>Len\<close> is the number of items
  that \<open>Load\<close> finds.\<close>

theorem cache_reachable_invariant:
  assumes "cache_reachable fp pf c"
  shows "cache_inv fp c \<and> Len c = int (card {k. Load fp c k \<noteq> None})"
  using reachable_inv [OF assms] Len_entries by blast

lemma cache_reachable_invariant_witness:
  "cache_inv ex_fp ex_cache1 \<and> Len ex_cache1 = int (card {k. Load ex_fp ex_cache1 k \<noteq> None})"
  by (rule cache_reachable_invariant [OF ex_cache1_reachable])

section \<open>ApplyBatch\<close>

text \<open>C2: A complete batch touches exactly the items it has an acceptable latest record for.  Such an
  item keeps its state when its metadata version is no longer current; keeps it but for the fetch time
  when the source time is not newer under the same metadata version; and otherwise becomes a fresh
  valid state with a version above every earlier one.\<close>

theorem apply_batch_entry:
  assumes "cache_inv fp c" and "batch_complete result" and "batch_ok c result"
    and "ApplyBatch fp pf source c result (Some sn) = (c', res, expiry)"
  shows "case batch_pending pf sn result k of
      None \<Rightarrow> contents fp c' k = contents fp c k
    | Some p \<Rightarrow> \<exists>call version. vc_nextValueVersion c < version
        \<and> contents fp c' k = apply_eff fp c (metadataVersionCurrent source call k (pd_metadataVersion p))
            version p (contents fp c k)"
  by (rule ApplyBatch_entry [OF assms])

lemma ex_batch1_complete: "batch_complete ex_batch1"
  by (simp add: batch_complete_def ex_batch1_def ex_batch_def)

definition ex_out1 :: "ValueCache \<times> ApplyResult \<times> ExpiryEntry list" where
  "ex_out1 = ApplyBatch ex_fp ex_parse ex_source ex_cache0 ex_batch1 (Some ex_snapshot)"

lemma ex_apply1: "ApplyBatch ex_fp ex_parse ex_source ex_cache0 ex_batch1 (Some ex_snapshot) =
    (fst ex_out1, fst (snd ex_out1), snd (snd ex_out1))"
  by (simp add: ex_out1_def)

lemma apply_batch_entry_witness:
  "case batch_pending ex_parse ex_snapshot ex_batch1 ''101'' of
      None \<Rightarrow> contents ex_fp (fst ex_out1) ''101'' = contents ex_fp ex_cache0 ''101''
    | Some p \<Rightarrow> \<exists>call version. vc_nextValueVersion ex_cache0 < version
        \<and> contents ex_fp (fst ex_out1) ''101'' = apply_eff ex_fp ex_cache0
            (metadataVersionCurrent ex_source call ''101'' (pd_metadataVersion p)) version p
            (contents ex_fp ex_cache0 ''101'')"
  by (rule apply_batch_entry [OF ex_cache0_inv ex_batch1_complete ex_batch1_ok ex_apply1])

text \<open>An entry's source time never moves back while its metadata version stays, and without a strictly
  newer source time a batch neither extends its expiry nor changes its value.\<close>

theorem apply_batch_source_monotone:
  assumes inv: "cache_inv fp c" and comp: "batch_complete result" and ok: "batch_ok c result"
    and run: "ApplyBatch fp pf source c result (Some sn) = (c', res, expiry)"
    and clocks: "\<And>rec. rec \<in> snd ` set (batch_latest result) \<Longrightarrow> in_int64 (hi_Clock rec)"
    and st: "contents fp c k = Some st" and st': "contents fp c' k = Some st'"
    and same: "vs_MetadataVersion st' = vs_MetadataVersion st"
  shows "to_Unix (vs_SourceTimestamp st) < to_Unix (vs_SourceTimestamp st')
    \<or> to_Unix (vs_SourceTimestamp st) = to_Unix (vs_SourceTimestamp st') \<and> vs_SourceNS st < vs_SourceNS st'
    \<or> vs_SourceTimestamp st' = vs_SourceTimestamp st \<and> vs_SourceNS st' = vs_SourceNS st
      \<and> vs_ExpireAt st' = vs_ExpireAt st \<and> vs_Value st' = vs_Value st
      \<and> vs_ValueVersion st' = vs_ValueVersion st \<and> vs_Valid st' = vs_Valid st"
proof (cases "batch_pending pf sn result k")
  case None
  then show ?thesis using ApplyBatch_entry [OF inv comp ok run, of k] st st' by simp
next
  case (Some p)
  then obtain rec where rec: "mget (batch_latest result) k = Some rec"
      "pending_of pf sn (batch_fetchedAt result) (k, rec) = Some p"
    by (auto simp: batch_pending_def split: option.splits)
  have ok: "pending_ok p" using pending_ofD [OF rec(2)] by simp
  have "rec \<in> snd ` set (batch_latest result)" using map_of_SomeD [OF rec(1)] by (metis imageI snd_conv)
  moreover have "pd_clock p = hi_Clock rec"
    using rec(2) by (auto simp: pending_of_def split: option.splits sum.splits if_splits)
  ultimately have clock: "in_int64 (pd_clock p)" using clocks by simp
  have unix: "to_Unix (time_Unix (pd_clock p) (pd_ns p)) = pd_clock p"
    using ok clock by (intro to_Unix_time_Unix) (auto simp: pending_ok_def Second_def)
  obtain call version where "contents fp c' k =
      apply_eff fp c (metadataVersionCurrent source call k (pd_metadataVersion p)) version p (Some st)"
    using ApplyBatch_entry [OF inv comp assms(3) run, of k] Some st by auto
  with st' same unix show ?thesis
    by (auto simp: apply_eff_def sourceIsNewer_def new_state_def Let_def split: if_splits)
qed

definition ex_batch2 :: BatchResult where
  "ex_batch2 = ex_batch [''101'', ''102''] [ex_record ''101'' 990] (time_Unix 1060 0)"

definition ex_out2 :: "ValueCache \<times> ApplyResult \<times> ExpiryEntry list" where
  "ex_out2 = ApplyBatch ex_fp ex_parse ex_source ex_cache1 ex_batch2 (Some ex_snapshot)"

lemma ex_batch2_complete: "batch_complete ex_batch2"
  by (simp add: batch_complete_def ex_batch2_def ex_batch_def)

lemma ex_batch2_ok: "batch_ok ex_cache1 ex_batch2"
  unfolding batch_ok_def by code_simp

lemma ex_apply2: "ApplyBatch ex_fp ex_parse ex_source ex_cache1 ex_batch2 (Some ex_snapshot) =
     (fst ex_out2, fst (snd ex_out2), snd (snd ex_out2))"
  by (simp add: ex_out2_def)

lemma ex_out2_entry: "contents ex_fp (fst ex_out2) ''101'' =
    map_option (\<lambda>st. st\<lparr>vs_LastFetchAt := time_Unix 1060 0\<rparr>) (contents ex_fp ex_cache1 ''101'')"
  unfolding Load_contents by code_simp

lemma apply_batch_source_monotone_witness:
  "\<exists>st st'. contents ex_fp ex_cache1 ''101'' = Some st \<and> contents ex_fp (fst ex_out2) ''101'' = Some st'
    \<and> (to_Unix (vs_SourceTimestamp st) < to_Unix (vs_SourceTimestamp st')
    \<or> to_Unix (vs_SourceTimestamp st) = to_Unix (vs_SourceTimestamp st') \<and> vs_SourceNS st < vs_SourceNS st'
    \<or> vs_SourceTimestamp st' = vs_SourceTimestamp st \<and> vs_SourceNS st' = vs_SourceNS st
      \<and> vs_ExpireAt st' = vs_ExpireAt st \<and> vs_Value st' = vs_Value st
      \<and> vs_ValueVersion st' = vs_ValueVersion st \<and> vs_Valid st' = vs_Valid st)"
proof -
  obtain st where st: "contents ex_fp ex_cache1 ''101'' = Some st" by (simp add: ex_contents1)
  have st': "contents ex_fp (fst ex_out2) ''101'' = Some (st\<lparr>vs_LastFetchAt := time_Unix 1060 0\<rparr>)"
    using ex_out2_entry st by simp
  have clocks: "in_int64 (hi_Clock rec)" if "rec \<in> snd ` set (batch_latest ex_batch2)" for rec
  proof -
    have "list_all (\<lambda>e. in_int64 (hi_Clock (snd e))) (batch_latest ex_batch2)" by code_simp
    with that show ?thesis by (auto simp: list_all_iff)
  qed
  show ?thesis
    using apply_batch_source_monotone [OF ex_cache1_inv ex_batch2_complete ex_batch2_ok ex_apply2 clocks st st'] st st' by simp
qed

text \<open>A batch reports misses only when none of its queried items was stale; they are then exactly the
  queried items without any record in the response, in the order of the query, and every queried item
  was confirmed to be current by the metadata source while the batch ran.\<close>

theorem apply_batch_misses:
  assumes "cache_inv fp c" and "batch_complete result" and "batch_ok c result"
    and "ApplyBatch fp pf source c result (Some sn) = (c', res, expiry)"
  shows "ar_MissItemIDs res = (if ar_Stale res = 0
      then dedup (filter (\<lambda>k. k \<notin> set (map hi_ItemID (br_Records result) @ mkeys (batch_latest result)))
        (hq_ItemIDs (br_Query result))) else [])
    \<and> (ar_Stale res = 0 \<longrightarrow> (\<forall>k \<in> set (hq_ItemIDs (br_Query result)). confirmed source sn k))"
  using ApplyBatch_misses_eq [OF assms] by blast

lemma apply_batch_misses_witness:
  "ar_MissItemIDs (fst (snd ex_out1)) = [''102'']
    \<and> confirmed ex_source ex_snapshot ''101'' \<and> confirmed ex_source ex_snapshot ''102''"
proof -
  note claim = apply_batch_misses [OF ex_cache0_inv ex_batch1_complete ex_batch1_ok ex_apply1]
  have "ar_Stale (fst (snd ex_out1)) = 0" by code_simp
  moreover have "dedup (filter (\<lambda>k. k \<notin> set (map hi_ItemID (br_Records ex_batch1) @ mkeys (batch_latest ex_batch1)))
        (hq_ItemIDs (br_Query ex_batch1))) = [''102'']"
    by code_simp
  moreover have "hq_ItemIDs (br_Query ex_batch1) = [''101'', ''102'']" by code_simp
  ultimately show ?thesis using claim by simp
qed

text \<open>The counters of a batch add up: every latest record is counted once, as created, updated, unchanged,
  skipped or rejected; \<open>Len\<close> grows by the created items; and each written value takes one version.\<close>

theorem apply_batch_accounts:
  assumes "cache_inv fp c" and "batch_complete result" and "batch_ok c result"
    and "ApplyBatch fp pf source c result (Some sn) = (c', res, expiry)"
  shows "ar_Created res + ar_Updated res + ar_Unchanged res + ar_Skipped res + ar_Rejected res
      = length (batch_latest result)
    \<and> Len c' = Len c + int (ar_Created res)
    \<and> vc_nextValueVersion c' = vc_nextValueVersion c + ar_Created res + ar_Updated res"
  using ApplyBatch_accounts [OF assms] by (simp add: Len_def)

lemma apply_batch_accounts_witness:
  "ar_Created (fst (snd ex_out1)) = 1 \<and> Len (fst ex_out1) = Len ex_cache0 + 1
    \<and> vc_nextValueVersion (fst ex_out1) = vc_nextValueVersion ex_cache0 + 1"
proof -
  have "ar_Created (fst (snd ex_out1)) = 1" "ar_Updated (fst (snd ex_out1)) = 0" by code_simp+
  then show ?thesis
    using apply_batch_accounts [OF ex_cache0_inv ex_batch1_complete ex_batch1_ok ex_apply1] by simp
qed

text \<open>Every value a batch writes is handed to the expiry registrar with its version and expiry, so no
  value can outlive its expiry unnoticed.\<close>

theorem apply_batch_registers:
  assumes "cache_inv fp c" and "batch_complete result" and "batch_ok c result"
    and "ApplyBatch fp pf source c result (Some sn) = (c', res, expiry)" and "vc_hasRegistrar c"
    and "contents fp c' k = Some st" and "vc_nextValueVersion c < vs_ValueVersion st"
  shows "\<lparr>ee_ItemID = k, ee_ValueVersion = vs_ValueVersion st, ee_ExpireAt = vs_ExpireAt st\<rparr> \<in> set expiry"
  by (rule ApplyBatch_registers [OF assms])

lemma apply_batch_registers_witness:
  "\<exists>st. contents ex_fp (fst ex_out1) ''101'' = Some st
    \<and> \<lparr>ee_ItemID = ''101'', ee_ValueVersion = vs_ValueVersion st, ee_ExpireAt = vs_ExpireAt st\<rparr>
        \<in> set (snd (snd ex_out1))"
proof -
  have c1: "fst ex_out1 = ex_cache1" by (simp add: ex_out1_def ex_cache1_def)
  obtain st where st: "contents ex_fp (fst ex_out1) ''101'' = Some st" "vs_ValueVersion st = 1"
    by (simp add: c1 ex_contents1)
  have "vc_hasRegistrar ex_cache0" "vc_nextValueVersion ex_cache0 < 1" by code_simp+
  then show ?thesis
    using apply_batch_registers [OF ex_cache0_inv ex_batch1_complete ex_batch1_ok ex_apply1 _ st(1)] st by simp
qed

section \<open>MarkMiss, Delete, DeleteVersioned, AckPublished\<close>

text \<open>Marking misses touches exactly the present items named, once each however often they are named:
  the miss counter saturates at the 32-bit maximum, and a valid entry becomes invalid exactly when it
  reaches the threshold after its grace period (one delay plus a fifth of it, at least 30 seconds, past
  its source time).\<close>

theorem mark_miss_entry:
  assumes inv: "cache_inv fp c" and run: "MarkMiss fp c ids t = (c', res)"
    and sane: "\<And>st. contents fp c k = Some st \<Longrightarrow> sane_delay (vs_Delay st) \<and> sane_time (vs_SourceTimestamp st)"
  shows "contents fp c' k = (if k \<in> set ids
      then map_option (\<lambda>st.
        let misses = min (Suc (vs_ConsecutiveMisses st)) (2 ^ 32 - 1) in
        st\<lparr>vs_ConsecutiveMisses := misses, vs_LastFetchAt := t,
           vs_Valid := vs_Valid st \<and> \<not> (vc_missThreshold c \<le> misses
             \<and> vs_SourceTimestamp st + vs_Delay st + max (vs_Delay st div 5) (30 * Second) < t)\<rparr>)
        (contents fp c k)
      else contents fp c k)"
proof (cases "contents fp c k")
  case None
  then show ?thesis by (simp add: MarkMiss_contents [OF inv run] miss_eff_def)
next
  case (Some st)
  have "vs_ConsecutiveMisses st < 2 ^ 32" using cache_entry [OF inv Some] by (simp add: entry_ok_def)
  then show ?thesis
    using sane [OF Some] Some
    by (auto simp: MarkMiss_contents [OF inv run] miss_eff_def miss_state_def Let_def missInvalidAfter_eq
        grace_for_def min_def not_less)
qed

definition ex_late :: time where "ex_late = time_Unix 2000 0"

definition ex_out3 :: "ValueCache \<times> MissResult" where
  "ex_out3 = (let c = fst (MarkMiss ex_fp ex_cache1 [''101''] ex_late) in
     MarkMiss ex_fp c [''101'', ''101'', ''102''] ex_late)"

lemma mark_miss_entry_witness:
  "map_option vs_Valid (contents ex_fp (fst ex_out3) ''101'') = Some False"
proof -
  let ?c = "fst (MarkMiss ex_fp ex_cache1 [''101''] ex_late)"
  have inv: "cache_inv ex_fp ?c"
    by (cases "MarkMiss ex_fp ex_cache1 [''101''] ex_late") (auto intro: MarkMiss_inv [OF ex_cache1_inv])
  have run: "MarkMiss ex_fp ?c [''101'', ''101'', ''102''] ex_late = (fst ex_out3, snd ex_out3)"
    by (simp add: ex_out3_def)
  have ev: "map_option (\<lambda>st. (vs_Delay st, vs_SourceTimestamp st, vs_ConsecutiveMisses st, vs_Valid st)) (contents ex_fp ?c ''101'')
      = Some (30 * Second, time_Unix 1000 5, 1, True)" "vc_missThreshold ?c = 2"
    unfolding Load_contents by code_simp+
  then obtain st where st: "contents ex_fp ?c ''101'' = Some st" "vs_Delay st = 30 * Second"
      "vs_SourceTimestamp st = time_Unix 1000 5" "vs_ConsecutiveMisses st = 1" "vs_Valid st"
    by auto
  have sane: "sane_delay (30 * Second)" "sane_time (time_Unix 1000 5)"
    "time_Unix 1000 5 + 30 * Second + max (30 * Second div 5) (30 * Second) < ex_late"
    by code_simp+
  show ?thesis
    using mark_miss_entry [OF inv run, of "''101''"] st sane ev(2) by (simp add: Let_def)
qed

text \<open>\<open>Delete\<close> removes exactly the named items, once each however often they are named; its counters
  are the items found and not found, and \<open>Len\<close> falls by the items found.\<close>

theorem delete_entries:
  assumes inv: "cache_inv fp c" and run: "Delete fp c ids reason = (c', res)"
  shows "contents fp c' = (contents fp c) |` (- set ids)
    \<and> dr_Deleted res = card (set ids \<inter> {k. Load fp c k \<noteq> None})
    \<and> dr_Deleted res + dr_NotFound res = card (set ids)
    \<and> Len c' = Len c - int (dr_Deleted res)"
proof -
  have cont: "contents fp c' = (contents fp c) |` (- set ids)"
    by (auto simp: Delete_contents [OF inv run] restrict_map_def fun_eq_iff)
  have found: "length (filter P (dedup ids)) = card (set ids \<inter> {k. P k})" for P
  proof -
    have "length (filter P (dedup ids)) = card (set (filter P (dedup ids)))"
      using distinct_dedup [of ids] by (metis distinct_card distinct_filter)
    then show ?thesis by (simp add: set_dedup Int_def conj_commute)
  qed
  have del: "dr_Deleted res = card (set ids \<inter> {k. Load fp c k \<noteq> None})"
    using Delete_counts(1) [OF inv run] by (simp add: found Load_contents)
  have "dr_Deleted res + dr_NotFound res = length (dedup ids)"
    using Delete_counts [OF inv run] sum_length_filter_compl [of "\<lambda>k. contents fp c k \<noteq> None" "dedup ids"] by simp
  then have tot: "dr_Deleted res + dr_NotFound res = card (set ids)"
    by (simp add: distinct_card [OF distinct_dedup, symmetric] set_dedup)
  have fin: "finite {k. Load fp c k \<noteq> None}"
    using flat_invD(3) [OF cache_invD(4) [OF inv]] by (simp only: dom_contents)
  have rest: "{k. Load fp c' k \<noteq> None} = {k. Load fp c k \<noteq> None} - set ids"
    unfolding dom_contents [symmetric] cont by auto
  have "card {k. Load fp c k \<noteq> None} = card {k. Load fp c' k \<noteq> None} + dr_Deleted res"
    unfolding del rest using card_Int_Diff [OF fin, of "set ids"] by (simp add: Int_commute add.commute)
  then have "Len c' = Len c - int (dr_Deleted res)"
    by (simp add: Len_entries [OF inv] Len_entries [OF Delete_inv [OF inv run]])
  with cont del tot show ?thesis by blast
qed

lemma delete_entries_witness:
  "Len (fst (Delete ex_fp ex_cache1 [''101'', ''105'', ''101''] DeleteManual)) = Len ex_cache1 - 1"
proof -
  let ?out = "Delete ex_fp ex_cache1 [''101'', ''105'', ''101''] DeleteManual"
  have "dr_Deleted (snd ?out) = 1" by code_simp
  then show ?thesis
    using delete_entries [OF ex_cache1_inv prod.collapse [symmetric], of "[''101'', ''105'', ''101'']" DeleteManual]
    by simp
qed

text \<open>\<open>DeleteVersioned\<close> removes an entry only while it still holds the version the caller saw; an entry
  written since then stays.\<close>

theorem delete_versioned_entries:
  assumes "cache_inv fp c" and "DeleteVersioned fp c items reason = (c', res)"
  shows "contents fp c' k = (case contents fp c k of None \<Rightarrow> None
    | Some st \<Rightarrow> if \<lparr>vi_ItemID = k, vi_ValueVersion = vs_ValueVersion st\<rparr> \<in> set items then None else Some st)"
  by (rule DeleteVersioned_contents [OF assms])

lemma delete_versioned_entries_witness:
  "contents ex_fp (fst (DeleteVersioned ex_fp ex_cache1 [\<lparr>vi_ItemID = ''101'', vi_ValueVersion = 2\<rparr>] DeleteExpired)) ''101''
     = contents ex_fp ex_cache1 ''101''"
  using delete_versioned_entries [OF ex_cache1_inv prod.collapse [symmetric],
      of "[\<lparr>vi_ItemID = ''101'', vi_ValueVersion = 2\<rparr>]" DeleteExpired "''101''"]
  by (simp add: ex_contents1)

definition same_but_marks :: "ValueState \<Rightarrow> ValueState \<Rightarrow> bool" where
  "same_but_marks st st' \<longleftrightarrow> st' = st\<lparr>vs_LastPublishedVersion := vs_LastPublishedVersion st',
     vs_LastPublishedTimestamp := vs_LastPublishedTimestamp st'\<rparr>"

lemma same_but_marks_iff: "same_but_marks st st' \<longleftrightarrow>
    (\<exists>a b. st' = st\<lparr>vs_LastPublishedVersion := a, vs_LastPublishedTimestamp := b\<rparr>)"
  unfolding same_but_marks_def by (rule iffI, blast, elim exE, simp)

lemma same_but_marks_trans: "same_but_marks st st' \<Longrightarrow> same_but_marks st' st'' \<Longrightarrow> same_but_marks st st''"
  unfolding same_but_marks_iff by (elim exE) (simp, intro exI, rule refl)

lemma ack_state_marks:
  assumes "vs_LastPublishedVersion st \<le> pa_ValueVersion a"
  shows "same_but_marks st (fst (ack_state a st))
    \<and> vs_LastPublishedVersion st \<le> vs_LastPublishedVersion (fst (ack_state a st))
    \<and> vs_LastPublishedVersion (fst (ack_state a st)) \<le> pa_ValueVersion a
    \<and> vs_LastPublishedTimestamp st \<le> vs_LastPublishedTimestamp (fst (ack_state a st))
    \<and> (vs_PublishPolicy st = PublishSourceTimestamp \<and> snd (ack_state a st)
       \<longrightarrow> vs_LastPublishedVersion (fst (ack_state a st)) = pa_ValueVersion a)
    \<and> (vs_PublishPolicy st = PublishSourceTimestamp \<and> \<not> snd (ack_state a st)
       \<longrightarrow> vs_LastPublishedVersion st = pa_ValueVersion a)
    \<and> (vs_PublishPolicy st = PublishCycleTimestamp \<and> 0 < pa_PublishedTimestamp a
       \<longrightarrow> pa_PublishedTimestamp a \<le> vs_LastPublishedTimestamp (if snd (ack_state a st) then fst (ack_state a st) else st))"
  using assms by (auto simp: same_but_marks_def ack_state_def Let_def time_IsZero_def)

lemma fold_ack_eff:
  assumes "vs_LastPublishedVersion st \<le> vs_ValueVersion st"
  shows "\<exists>st'. fold ack_eff acks (Some st) = Some st' \<and> same_but_marks st st'
    \<and> vs_LastPublishedVersion st \<le> vs_LastPublishedVersion st'
    \<and> vs_LastPublishedVersion st' \<le> vs_ValueVersion st
    \<and> vs_LastPublishedTimestamp st \<le> vs_LastPublishedTimestamp st'
    \<and> (\<forall>a \<in> set acks. pa_ValueVersion a = vs_ValueVersion st \<and> vs_PublishPolicy st = PublishSourceTimestamp
        \<longrightarrow> vs_LastPublishedVersion st' = vs_ValueVersion st)
    \<and> (\<forall>a \<in> set acks. pa_ValueVersion a = vs_ValueVersion st \<and> vs_PublishPolicy st = PublishCycleTimestamp
        \<and> 0 < pa_PublishedTimestamp a \<longrightarrow> pa_PublishedTimestamp a \<le> vs_LastPublishedTimestamp st')
    \<and> ((\<forall>a \<in> set acks. pa_ValueVersion a \<noteq> vs_ValueVersion st) \<longrightarrow> st' = st)"
  using assms
proof (induction acks arbitrary: st)
  case Nil
  then show ?case by (simp add: same_but_marks_def)
next
  case (Cons a acks)
  show ?case
  proof (cases "vs_ValueVersion st = pa_ValueVersion a \<and> snd (ack_state a st)")
    case False
    then have "ack_eff a (Some st) = Some st" by (auto simp: ack_eff_def)
    moreover have "pa_ValueVersion a = vs_ValueVersion st \<and> vs_PublishPolicy st = PublishSourceTimestamp
        \<longrightarrow> vs_LastPublishedVersion st = vs_ValueVersion st"
      using False ack_state_marks [of st a] Cons.prems by auto
    moreover have "pa_ValueVersion a = vs_ValueVersion st \<and> vs_PublishPolicy st = PublishCycleTimestamp
        \<and> 0 < pa_PublishedTimestamp a \<longrightarrow> pa_PublishedTimestamp a \<le> vs_LastPublishedTimestamp st"
      using False ack_state_marks [of st a] Cons.prems by auto
    moreover obtain st' where "fold ack_eff acks (Some st) = Some st'" "same_but_marks st st'"
      "vs_LastPublishedVersion st \<le> vs_LastPublishedVersion st'" "vs_LastPublishedVersion st' \<le> vs_ValueVersion st"
      "vs_LastPublishedTimestamp st \<le> vs_LastPublishedTimestamp st'"
      "\<forall>a \<in> set acks. pa_ValueVersion a = vs_ValueVersion st \<and> vs_PublishPolicy st = PublishSourceTimestamp
        \<longrightarrow> vs_LastPublishedVersion st' = vs_ValueVersion st"
      "\<forall>a \<in> set acks. pa_ValueVersion a = vs_ValueVersion st \<and> vs_PublishPolicy st = PublishCycleTimestamp
        \<and> 0 < pa_PublishedTimestamp a \<longrightarrow> pa_PublishedTimestamp a \<le> vs_LastPublishedTimestamp st'"
      "(\<forall>a \<in> set acks. pa_ValueVersion a \<noteq> vs_ValueVersion st) \<longrightarrow> st' = st"
      using Cons.IH [OF Cons.prems] by blast
    ultimately show ?thesis by (intro exI [of _ st']) auto
  next
    case True
    let ?st = "fst (ack_state a st)"
    have eff: "ack_eff a (Some st) = Some ?st" using True by (simp add: ack_eff_def)
    note m = ack_state_marks [of st a]
    have frame: "vs_ValueVersion ?st = vs_ValueVersion st" "vs_PublishPolicy ?st = vs_PublishPolicy st"
      by (simp_all add: ack_state_def Let_def)
    have le: "vs_LastPublishedVersion ?st \<le> vs_ValueVersion ?st" using m True Cons.prems frame by simp
    from Cons.IH [OF le] obtain st' where st': "fold ack_eff acks (Some ?st) = Some st'" "same_but_marks ?st st'"
      "vs_LastPublishedVersion ?st \<le> vs_LastPublishedVersion st'" "vs_LastPublishedVersion st' \<le> vs_ValueVersion st"
      "vs_LastPublishedTimestamp ?st \<le> vs_LastPublishedTimestamp st'"
      "\<forall>a \<in> set acks. pa_ValueVersion a = vs_ValueVersion st \<and> vs_PublishPolicy st = PublishSourceTimestamp
        \<longrightarrow> vs_LastPublishedVersion st' = vs_ValueVersion st"
      "\<forall>a \<in> set acks. pa_ValueVersion a = vs_ValueVersion st \<and> vs_PublishPolicy st = PublishCycleTimestamp
        \<and> 0 < pa_PublishedTimestamp a \<longrightarrow> pa_PublishedTimestamp a \<le> vs_LastPublishedTimestamp st'"
      by (auto simp: frame)
    have "same_but_marks st st'"
      using m True Cons.prems st'(2) same_but_marks_trans by metis
    then show ?thesis using st' m True Cons.prems eff by auto
  qed
qed

text \<open>Acknowledging publishes changes nothing but the publish marks of entries that still hold the acked
  version; the marks only move forward and never past the value's own version; and an acked entry of the
  source policy is marked published up to its version.\<close>

theorem ack_published_entry:
  assumes inv: "cache_inv fp c" and run: "AckPublished fp c acks = (c', res)" and st: "contents fp c k = Some st"
  shows "\<exists>st'. contents fp c' k = Some st' \<and> same_but_marks st st'
    \<and> vs_LastPublishedVersion st \<le> vs_LastPublishedVersion st'
    \<and> vs_LastPublishedVersion st' \<le> vs_ValueVersion st
    \<and> vs_LastPublishedTimestamp st \<le> vs_LastPublishedTimestamp st'
    \<and> (\<forall>a \<in> set acks. pa_ItemID a = k \<and> pa_ValueVersion a = vs_ValueVersion st
         \<and> vs_PublishPolicy st = PublishSourceTimestamp \<longrightarrow> vs_LastPublishedVersion st' = vs_ValueVersion st)
    \<and> ((\<forall>a \<in> set acks. pa_ItemID a = k \<longrightarrow> pa_ValueVersion a \<noteq> vs_ValueVersion st) \<longrightarrow> st' = st)"
proof -
  have "vs_LastPublishedVersion st \<le> vs_ValueVersion st"
    using cache_entry [OF inv st] by (simp add: entry_ok_def)
  from fold_ack_eff [OF this, of "filter (\<lambda>a. pa_ItemID a = k) acks"]
  show ?thesis by (simp add: AckPublished_contents [OF inv run] st) fast
qed

lemma ack_published_entry_witness:
  "\<exists>st. contents ex_fp (fst (AckPublished ex_fp ex_cache1
        [\<lparr>pa_ItemID = ''101'', pa_ValueVersion = 1, pa_PublishedTimestamp = 9\<rparr>])) ''101'' = Some st
    \<and> vs_LastPublishedVersion st = 1"
proof -
  let ?acks = "[\<lparr>pa_ItemID = ''101'', pa_ValueVersion = 1, pa_PublishedTimestamp = 9\<rparr>]"
  obtain st where st: "contents ex_fp ex_cache1 ''101'' = Some st" "vs_ValueVersion st = 1"
      "vs_PublishPolicy st = PublishSourceTimestamp"
    using ex_contents1(2)
    by (simp add: new_state_def PublishPolicyForDelay_def duration_units longCycleThreshold_def Let_def)
  show ?thesis
    using ack_published_entry [OF ex_cache1_inv prod.collapse [symmetric] st(1), of ?acks] st(2,3) by auto
qed

section \<open>Publishing\<close>

definition publish_page :: "ValueCache \<Rightarrow> nat \<Rightarrow> time \<Rightarrow> int \<Rightarrow> PublishCursor \<Rightarrow> PublishPage" where
  "publish_page c slot t limit cursor =
     (case ReadPublishPage c slot cursor t limit of
        Inr page \<Rightarrow> page | Inl _ \<Rightarrow> \<lparr>pp_Values = [], pp_Next = cursor, pp_Done = True\<rparr>)"

lemma drain_cong:
  assumes "\<And>cursor. valid cursor \<Longrightarrow> f cursor = g cursor" "\<And>cursor. valid cursor \<Longrightarrow> valid (pp_Next (g cursor))"
  shows "valid cursor \<Longrightarrow> drain f fuel cursor = drain g fuel cursor"
  by (induction fuel arbitrary: cursor) (simp_all add: assms Let_def)

lemma drain_pages:
  assumes inv: "cache_inv fp c" and limit: "0 < limit" and fuel: "nat (Len c) < fuel"
    and page: "\<And>cursor. cursor_ok c cursor \<Longrightarrow> f cursor = read_page wanted t limit c cursor"
  shows "\<exists>vs. drain f fuel first_cursor = Some vs \<and> distinct (map pv_ItemID vs)
    \<and> set vs = {page_value t st |k st. Load fp c k = Some st \<and> wanted st}"
proof -
  have "drain f fuel first_cursor = drain (read_page wanted t limit c) fuel first_cursor"
    using page read_page_split(2) [OF inv limit]
    by (intro drain_cong [where valid = "cursor_ok c"]) (auto simp: cursor_ok_def first_cursor_def)
  then show ?thesis using drain_cache [OF inv limit fuel, of wanted t] cache_todo_start [OF inv] by auto
qed

text \<open>C3: Reading the publish pages of a slot from the first cursor until the page that is marked as the last
  ends after at most one page more than there are entries, and yields every eligible entry of the slot
  exactly once, and nothing else.\<close>

theorem publish_pages_complete:
  assumes "cache_inv fp c" and "slot < vc_publishSlots c" and "0 < limit" and "nat (Len c) < fuel"
  shows "\<exists>vs. drain (publish_page c slot t limit) fuel first_cursor = Some vs \<and> distinct (map pv_ItemID vs)
    \<and> set vs = {page_value t st |k st. Load fp c k = Some st \<and> vs_PublishSlot st = slot \<and> publishEligible st t}"
  by (rule drain_pages [where limit = "nat limit", OF assms(1) _ assms(4)])
    (use assms in \<open>simp_all add: publish_page_def ReadPublishPage_def cursor_ok_def\<close>)

lemma publish_pages_complete_witness:
  "\<exists>vs. drain (publish_page ex_cache1 1 (time_Unix 1010 0) 1) 2 first_cursor = Some vs
    \<and> distinct (map pv_ItemID vs) \<and> set vs = {page_value (time_Unix 1010 0) st |k st.
       Load ex_fp ex_cache1 k = Some st \<and> vs_PublishSlot st = 1 \<and> publishEligible st (time_Unix 1010 0)}"
proof -
  have "vc_publishSlots ex_cache1 = 12" "Len ex_cache1 = 1" by code_simp+
  then show ?thesis by (intro publish_pages_complete [OF ex_cache1_inv]) simp_all
qed

text \<open>A value that has been published and acknowledged is not offered again: never for an entry of the
  source policy until it gets a new version, and not at or before the acknowledged timestamp for an entry
  of the cycle policy.\<close>

theorem acked_not_republished:
  assumes inv: "cache_inv fp c" and run: "AckPublished fp c acks = (c', res)"
    and st: "Load fp c k = Some st" and ack: "a \<in> set acks" "pa_ItemID a = k" "pa_ValueVersion a = vs_ValueVersion st"
      "0 < pa_PublishedTimestamp a"
  shows "\<exists>st'. Load fp c' k = Some st' \<and> vs_ValueVersion st' = vs_ValueVersion st
    \<and> (vs_PublishPolicy st = PublishSourceTimestamp \<or> t \<le> pa_PublishedTimestamp a \<longrightarrow> \<not> publishEligible st' t)"
proof -
  have cont: "contents fp c k = Some (erase st)" using st by (simp add: Load_contents)
  have "vs_LastPublishedVersion (erase st) \<le> vs_ValueVersion (erase st)"
    using cache_entry [OF inv cont] by (simp add: entry_ok_def)
  from fold_ack_eff [OF this, of "filter (\<lambda>a. pa_ItemID a = k) acks"] obtain st'' where
    st'': "contents fp c' k = Some st''" "same_but_marks (erase st) st''"
      "vs_PublishPolicy st = PublishSourceTimestamp \<longrightarrow> vs_LastPublishedVersion st'' = vs_ValueVersion st"
      "vs_PublishPolicy st = PublishCycleTimestamp \<longrightarrow> pa_PublishedTimestamp a \<le> vs_LastPublishedTimestamp st''"
    using ack by (auto simp: AckPublished_contents [OF inv run] cont)
  have same: "vs_ValueVersion st'' = vs_ValueVersion st" "vs_PublishPolicy st'' = vs_PublishPolicy st"
    using st''(2) by (auto simp: same_but_marks_iff)
  obtain st' where st': "Load fp c' k = Some st'" "erase st' = st''"
    using st''(1) by (auto simp: Load_contents)
  have f: "vs_ValueVersion st' = vs_ValueVersion st" "vs_PublishPolicy st' = vs_PublishPolicy st"
    "vs_LastPublishedVersion st' = vs_LastPublishedVersion st''"
    "vs_LastPublishedTimestamp st' = vs_LastPublishedTimestamp st''"
    using same st'(2) by auto
  have "\<not> publishEligible st' t" if "vs_PublishPolicy st = PublishSourceTimestamp \<or> t \<le> pa_PublishedTimestamp a"
    using that st''(3,4) f ack(4)
    by (cases "vs_PublishPolicy st") (auto simp: publishEligible_def time_IsZero_def)
  with st'(1) f(1) show ?thesis by blast
qed

lemma acked_not_republished_witness:
  "\<exists>st'. Load ex_fp (fst (AckPublished ex_fp ex_cache1
        [\<lparr>pa_ItemID = ''101'', pa_ValueVersion = 1, pa_PublishedTimestamp = 9\<rparr>])) ''101'' = Some st'
    \<and> vs_ValueVersion st' = 1 \<and> \<not> publishEligible st' (time_Unix 1010 0)"
proof -
  let ?acks = "[\<lparr>pa_ItemID = ''101'', pa_ValueVersion = 1, pa_PublishedTimestamp = 9\<rparr>]"
  have "map_option (\<lambda>st. (vs_ValueVersion st, vs_PublishPolicy st)) (Load ex_fp ex_cache1 ''101'') =
      Some (1, PublishSourceTimestamp)" by code_simp
  then obtain st where st: "Load ex_fp ex_cache1 ''101'' = Some st" "vs_ValueVersion st = 1"
      "vs_PublishPolicy st = PublishSourceTimestamp" by auto
  show ?thesis
    using acked_not_republished [OF ex_cache1_inv prod.collapse [symmetric] st(1), of "hd ?acks" ?acks "time_Unix 1010 0"] st(2,3)
    by auto
qed

end
