(* ===== verification/Go_Heap.thy ===== *)
theory Go_Heap
  imports Prelude
begin

text \<open>
  The package \<^verbatim>\<open>container/heap\<close>, over a container the caller provides: \<open>cmp\<close> and \<open>swap\<close> are the
  methods of \<^verbatim>\<open>heap.Interface\<close>, \<open>n\<close> is \<^verbatim>\<open>Len()\<close>.  The locale \<open>heap_container\<close> states what a container has to
  promise (its elements, read as a list, are exchanged by \<open>swap\<close> and compared by \<open>cmp\<close>); the lemmas say
  that the operations restore the heap order and keep the elements.  The expiry wheel and the
  scheduler provide the two containers.
\<close>

function heap_up :: "('h \<Rightarrow> nat \<Rightarrow> nat \<Rightarrow> bool) \<Rightarrow> (nat \<Rightarrow> nat \<Rightarrow> 'h \<Rightarrow> 'h) \<Rightarrow> nat \<Rightarrow> 'h \<Rightarrow> 'h" where
  "heap_up cmp swap j h =
     (let i = (j - 1) div 2 in
      if i = j \<or> \<not> cmp h j i then h else heap_up cmp swap i (swap i j h))"
  by pat_completeness auto

termination
  by (relation "measure (\<lambda>(cmp, swap, j, h). j)") auto

declare heap_up.simps [simp del]

function heap_down :: "('h \<Rightarrow> nat \<Rightarrow> nat \<Rightarrow> bool) \<Rightarrow> (nat \<Rightarrow> nat \<Rightarrow> 'h \<Rightarrow> 'h) \<Rightarrow> nat \<Rightarrow> nat \<Rightarrow> 'h \<Rightarrow> 'h \<times> nat" where
  "heap_down cmp swap i n h =
     (let j1 = 2 * i + 1 in
      if j1 \<ge> n then (h, i)
      else let j = (if j1 + 1 < n \<and> cmp h (j1 + 1) j1 then j1 + 1 else j1) in
           if \<not> cmp h j i then (h, i) else heap_down cmp swap j n (swap i j h))"
  by pat_completeness auto

termination
  by (relation "measure (\<lambda>(cmp, swap, i, n, h). n - i)") (auto simp: Let_def split: if_splits)

declare heap_down.simps [simp del]

definition heap_fix :: "('h \<Rightarrow> nat \<Rightarrow> nat \<Rightarrow> bool) \<Rightarrow> (nat \<Rightarrow> nat \<Rightarrow> 'h \<Rightarrow> 'h) \<Rightarrow> nat \<Rightarrow> nat \<Rightarrow> 'h \<Rightarrow> 'h" where
  "heap_fix cmp swap i n h =
     (case heap_down cmp swap i n h of
        (h', i') \<Rightarrow> if i' > i then h' else heap_up cmp swap i h')"

text \<open>\<^verbatim>\<open>Push\<close> after the container has appended the element, \<^verbatim>\<open>Pop\<close> before it removes the last one.\<close>

definition heap_push :: "('h \<Rightarrow> nat \<Rightarrow> nat \<Rightarrow> bool) \<Rightarrow> (nat \<Rightarrow> nat \<Rightarrow> 'h \<Rightarrow> 'h) \<Rightarrow> nat \<Rightarrow> 'h \<Rightarrow> 'h" where
  "heap_push cmp swap n h = heap_up cmp swap (n - 1) h"

definition heap_pop :: "('h \<Rightarrow> nat \<Rightarrow> nat \<Rightarrow> bool) \<Rightarrow> (nat \<Rightarrow> nat \<Rightarrow> 'h \<Rightarrow> 'h) \<Rightarrow> nat \<Rightarrow> 'h \<Rightarrow> 'h" where
  "heap_pop cmp swap n h = fst (heap_down cmp swap 0 (n - 1) (swap 0 (n - 1) h))"

fun heap_init_loop :: "('h \<Rightarrow> nat \<Rightarrow> nat \<Rightarrow> bool) \<Rightarrow> (nat \<Rightarrow> nat \<Rightarrow> 'h \<Rightarrow> 'h) \<Rightarrow> nat \<Rightarrow> nat \<Rightarrow> 'h \<Rightarrow> 'h" where
  "heap_init_loop cmp swap n 0 h = h"
| "heap_init_loop cmp swap n (Suc i) h =
     heap_init_loop cmp swap n i (fst (heap_down cmp swap i n h))"

definition heap_init :: "('h \<Rightarrow> nat \<Rightarrow> nat \<Rightarrow> bool) \<Rightarrow> (nat \<Rightarrow> nat \<Rightarrow> 'h \<Rightarrow> 'h) \<Rightarrow> nat \<Rightarrow> 'h \<Rightarrow> 'h" where
  "heap_init cmp swap n h = heap_init_loop cmp swap n (n div 2) h"

section \<open>What exchanges keep\<close>

text \<open>Whatever every exchange keeps, the heap operations keep.\<close>

lemma heap_up_keeps: "(\<And>i j h. P h \<Longrightarrow> P (swap i j h)) \<Longrightarrow> P h \<Longrightarrow> P (heap_up cmp swap j h)"
proof (induction j arbitrary: h rule: less_induct)
  case (less j)
  show ?case
    by (subst heap_up.simps) (use less in \<open>auto simp: Let_def\<close>)
qed

lemma heap_down_keeps: "(\<And>i j h. P h \<Longrightarrow> P (swap i j h)) \<Longrightarrow> P h \<Longrightarrow> P (fst (heap_down cmp swap i n h))"
proof (induction "n - i" arbitrary: i h rule: less_induct)
  case less
  show ?case
    by (subst heap_down.simps) (use less in \<open>auto simp: Let_def\<close>)
qed

lemma heap_fix_keeps:
  assumes "\<And>i j h. P h \<Longrightarrow> P (swap i j h)" "P h"
  shows "P (heap_fix cmp swap i n h)"
proof -
  obtain h' i' where d: "heap_down cmp swap i n h = (h', i')" by (cases "heap_down cmp swap i n h")
  have "P h'" using heap_down_keeps [where P = P and swap = swap and cmp = cmp, OF assms, of i n] d by simp
  then show ?thesis
    using heap_up_keeps [where P = P and swap = swap and cmp = cmp, OF assms(1)] by (simp add: heap_fix_def d)
qed

lemma heap_init_loop_keeps:
  "(\<And>i j h. P h \<Longrightarrow> P (swap i j h)) \<Longrightarrow> P h \<Longrightarrow> P (heap_init_loop cmp swap n k h)"
  by (induction k arbitrary: h) (simp_all add: heap_down_keeps)

section \<open>Heap order\<close>

definition list_swap :: "nat \<Rightarrow> nat \<Rightarrow> 'a list \<Rightarrow> 'a list" where
  "list_swap i j xs = xs[i := xs ! j, j := xs ! i]"

lemma length_list_swap [simp]: "length (list_swap i j xs) = length xs"
  by (simp add: list_swap_def)

lemma nth_list_swap: "i < length xs \<Longrightarrow> j < length xs \<Longrightarrow>
    list_swap i j xs ! k = (if k = i then xs ! j else if k = j then xs ! i else xs ! k)"
  by (auto simp: list_swap_def nth_list_update)

lemma mset_list_swap: "i < length xs \<Longrightarrow> j < length xs \<Longrightarrow> mset (list_swap i j xs) = mset xs"
  unfolding list_swap_def by (rule mset_swap)

definition par :: "nat \<Rightarrow> nat" where
  "par k = (k - 1) div 2"

definition heap_order :: "('a \<Rightarrow> 'a \<Rightarrow> bool) \<Rightarrow> nat \<Rightarrow> 'a list \<Rightarrow> bool" where
  "heap_order lt n xs \<longleftrightarrow> (\<forall>k. 0 < k \<longrightarrow> k < n \<longrightarrow> \<not> lt (xs ! k) (xs ! (par k)))"

text \<open>Heap order but for the pairs with \<open>j\<close> as the child (\<open>up_hole\<close>) or as the parent (\<open>down_hole\<close>).\<close>

definition up_hole :: "('a \<Rightarrow> 'a \<Rightarrow> bool) \<Rightarrow> nat \<Rightarrow> nat \<Rightarrow> 'a list \<Rightarrow> bool" where
  "up_hole lt j n xs \<longleftrightarrow> (\<forall>k. 0 < k \<longrightarrow> k < n \<longrightarrow> k \<noteq> j \<longrightarrow> \<not> lt (xs ! k) (xs ! (par k)))
     \<and> (\<forall>k. 0 < k \<longrightarrow> k < n \<longrightarrow> par k = j \<longrightarrow> 0 < j \<longrightarrow> \<not> lt (xs ! k) (xs ! (par j)))"

definition down_hole :: "('a \<Rightarrow> 'a \<Rightarrow> bool) \<Rightarrow> nat \<Rightarrow> nat \<Rightarrow> nat \<Rightarrow> 'a list \<Rightarrow> bool" where
  "down_hole lt low j n xs \<longleftrightarrow>
     (\<forall>k. 0 < k \<longrightarrow> k < n \<longrightarrow> low \<le> par k \<longrightarrow> par k \<noteq> j \<longrightarrow> \<not> lt (xs ! k) (xs ! (par k)))
     \<and> (\<forall>k. 0 < k \<longrightarrow> k < n \<longrightarrow> par k = j \<longrightarrow> 0 < j \<longrightarrow> low \<le> par j
          \<longrightarrow> \<not> lt (xs ! k) (xs ! (par j)))"

definition heap_above :: "('a \<Rightarrow> 'a \<Rightarrow> bool) \<Rightarrow> nat \<Rightarrow> nat \<Rightarrow> 'a list \<Rightarrow> bool" where
  "heap_above lt low n xs \<longleftrightarrow>
     (\<forall>k. 0 < k \<longrightarrow> k < n \<longrightarrow> low \<le> par k \<longrightarrow> \<not> lt (xs ! k) (xs ! (par k)))"

lemma heap_above_0: "heap_above lt 0 n xs = heap_order lt n xs"
  by (simp add: heap_above_def heap_order_def)

lemma child_cases: "0 < k \<Longrightarrow> par k = j \<longleftrightarrow> k = 2 * j + 1 \<or> k = 2 * j + 2"
  unfolding par_def by presburger

lemma par_less: "0 < k \<Longrightarrow> par k < k"
  unfolding par_def by presburger

lemma par_le: "par k \<le> k"
  unfolding par_def by presburger

lemma heap_up_par: "heap_up cmp swap j h =
    (if par j = j \<or> \<not> cmp h j (par j) then h else heap_up cmp swap (par j) (swap (par j) j h))"
  by (subst heap_up.simps) (simp add: par_def Let_def)

text \<open>The child of \<open>j\<close> that \<^verbatim>\<open>down\<close> compares with \<open>j\<close>.\<close>

definition least_child :: "('h \<Rightarrow> nat \<Rightarrow> nat \<Rightarrow> bool) \<Rightarrow> nat \<Rightarrow> nat \<Rightarrow> 'h \<Rightarrow> nat" where
  "least_child cmp j n h =
     (if 2 * j + 2 < n \<and> cmp h (2 * j + 2) (2 * j + 1) then 2 * j + 2 else 2 * j + 1)"

lemma heap_down_step: "heap_down cmp swap j n h =
    (if n \<le> 2 * j + 1 then (h, j)
     else if \<not> cmp h (least_child cmp j n h) j then (h, j)
     else heap_down cmp swap (least_child cmp j n h) n (swap j (least_child cmp j n h) h))"
  by (subst heap_down.simps) (simp add: Let_def least_child_def)

locale heap_container =
  fixes cmp :: "'h \<Rightarrow> nat \<Rightarrow> nat \<Rightarrow> bool"
    and swp :: "nat \<Rightarrow> nat \<Rightarrow> 'h \<Rightarrow> 'h"
    and elems :: "'h \<Rightarrow> 'a list"
    and ok :: "'h \<Rightarrow> bool"
    and lt :: "'a \<Rightarrow> 'a \<Rightarrow> bool"
  assumes cmp_elems: "ok h \<Longrightarrow> i < length (elems h) \<Longrightarrow> j < length (elems h)
      \<Longrightarrow> cmp h i j = lt (elems h ! i) (elems h ! j)"
    and swap_elems: "ok h \<Longrightarrow> i < length (elems h) \<Longrightarrow> j < length (elems h)
      \<Longrightarrow> elems (swp i j h) = list_swap i j (elems h)"
    and swap_ok: "ok h \<Longrightarrow> i < length (elems h) \<Longrightarrow> j < length (elems h) \<Longrightarrow> ok (swp i j h)"
    and lt_asym: "lt a b \<Longrightarrow> \<not> lt b a"
    and lt_trans: "\<not> lt b a \<Longrightarrow> \<not> lt c b \<Longrightarrow> \<not> lt c a"
begin

lemma up_correct:
  assumes "ok h" "j < n" "n \<le> length (elems h)" "up_hole lt j n (elems h)"
  shows "ok (heap_up cmp swp j h) \<and> mset (elems (heap_up cmp swp j h)) = mset (elems h)
    \<and> heap_order lt n (elems (heap_up cmp swp j h))"
  using assms
proof (induction j arbitrary: h rule: less_induct)
  case (less j h)
  let ?xs = "elems h" and ?i = "par j"
  have len: "j < length ?xs" "?i < length ?xs" using less.prems(2,3) par_le [of j] by auto
  have hole: "\<not> lt (?xs ! k) (?xs ! par k)" if "0 < k" "k < n" "k \<noteq> j" for k
    using less.prems(4) that by (simp add: up_hole_def)
  have hole': "\<not> lt (?xs ! k) (?xs ! par j)" if "0 < k" "k < n" "par k = j" "0 < j" for k
    using less.prems(4) that by (simp add: up_hole_def)
  show ?case
  proof (cases "?i = j \<or> \<not> cmp h j ?i")
    case True
    have "\<not> lt (?xs ! j) (?xs ! ?i)" if "0 < j"
      using True cmp_elems [OF less.prems(1) len] par_less [OF that] by (metis less_irrefl)
    then have "heap_order lt n ?xs" unfolding heap_order_def using hole by metis
    moreover have "heap_up cmp swp j h = h" using True by (subst heap_up_par) simp
    ultimately show ?thesis using less.prems(1) by simp
  next
    case False
    then have j0: "0 < j" and ij: "?i < j" using par_le [of j] by (auto simp: par_def)
    have ltji: "lt (?xs ! j) (?xs ! ?i)" using False cmp_elems [OF less.prems(1) len] by simp
    let ?h = "swp ?i j h"
    have ys: "elems ?h = list_swap ?i j ?xs" by (rule swap_elems [OF less.prems(1) len(2,1)])
    have nth: "elems ?h ! k = (if k = ?i then ?xs ! j else if k = j then ?xs ! ?i else ?xs ! k)" for k
      unfolding ys by (rule nth_list_swap [OF len(2,1)])
    have "up_hole lt ?i n (elems ?h)"
      unfolding up_hole_def
    proof (intro conjI allI impI)
      fix k
      assume k: "0 < k" "k < n" "k \<noteq> ?i"
      have pk: "par k < k" using k par_less by simp
      consider "k = j" | "k \<noteq> j" "par k = j" | "k \<noteq> j" "par k = ?i" | "k \<noteq> j" "par k \<noteq> j" "par k \<noteq> ?i" by blast
      then show "\<not> lt (elems ?h ! k) (elems ?h ! par k)"
      proof cases
        case 1
        then show ?thesis using lt_asym [OF ltji] ij by (simp add: nth)
      next
        case 2
        then show ?thesis using hole' [OF k(1,2) 2(2) j0] k ij by (simp add: nth)
      next
        case 3
        then show ?thesis using lt_trans [OF lt_asym [OF ltji]] hole [OF k(1,2) 3(1)] k ij by (simp add: nth)
      next
        case 4
        then show ?thesis using hole [OF k(1,2) 4(1)] k by (simp add: nth)
      qed
    next
      fix k
      assume k: "0 < k" "k < n" "par k = ?i" "0 < ?i"
      have pi: "par ?i < ?i" using k(4) par_less by simp
      have i: "\<not> lt (?xs ! ?i) (?xs ! par ?i)" using hole [of ?i] k(4) ij less.prems(2) by simp
      show "\<not> lt (elems ?h ! k) (elems ?h ! par ?i)"
      proof (cases "k = j")
        case True
        then show ?thesis using i pi ij by (simp add: nth)
      next
        case False
        have "k \<noteq> ?i" using k(1,3) par_less [of k] by auto
        then show ?thesis using lt_trans [OF i] hole [OF k(1,2) False] k(3) False pi ij by (simp add: nth)
      qed
    qed
    moreover have "ok ?h" by (rule swap_ok [OF less.prems(1) len(2,1)])
    ultimately have "ok (heap_up cmp swp ?i ?h) \<and> mset (elems (heap_up cmp swp ?i ?h)) = mset (elems ?h)
        \<and> heap_order lt n (elems (heap_up cmp swp ?i ?h))"
      using less.prems(2,3) ij by (intro less.IH) (simp_all add: ys)
    moreover have "heap_up cmp swp j h = heap_up cmp swp ?i ?h"
      using False by (subst heap_up_par) simp
    ultimately show ?thesis using mset_list_swap [OF len(2,1)] by (simp add: ys)
  qed
qed

lemma down_correct:
  assumes "ok h" "j < n" "n \<le> length (elems h)" "down_hole lt low j n (elems h)" "low \<le> j"
  shows "ok (fst (heap_down cmp swp j n h)) \<and> mset (elems (fst (heap_down cmp swp j n h))) = mset (elems h)
    \<and> heap_above lt low n (elems (fst (heap_down cmp swp j n h)))
    \<and> (\<forall>k \<ge> n. elems (fst (heap_down cmp swp j n h)) ! k = elems h ! k)
    \<and> j \<le> snd (heap_down cmp swp j n h)
    \<and> (snd (heap_down cmp swp j n h) = j \<longrightarrow> fst (heap_down cmp swp j n h) = h)"
  using assms
proof (induction "n - j" arbitrary: h j rule: less_induct)
  case (less j h)
  let ?xs = "elems h"
  let ?c = "least_child cmp j n h"
  have hole: "\<not> lt (?xs ! k) (?xs ! par k)" if "0 < k" "k < n" "low \<le> par k" "par k \<noteq> j" for k
    using less.prems(4) that by (simp add: down_hole_def)
  have hole': "\<not> lt (?xs ! k) (?xs ! par j)" if "0 < k" "k < n" "par k = j" "0 < j" "low \<le> par j" for k
    using less.prems(4) that by (simp add: down_hole_def)
  show ?case
  proof (cases "n \<le> 2 * j + 1")
    case True
    then have "heap_down cmp swp j n h = (h, j)" by (subst heap_down_step) simp
    moreover have "heap_above lt low n ?xs"
      unfolding heap_above_def
    proof (intro allI impI)
      fix k
      assume k: "0 < k" "k < n" "low \<le> par k"
      have "par k \<noteq> j" using child_cases [OF k(1), of j] k(2) True by linarith
      then show "\<not> lt (?xs ! k) (?xs ! par k)" using hole k by blast
    qed
    ultimately show ?thesis using less.prems(1) by simp
  next
    case False
    have c: "?c < n" "par ?c = j" "j < ?c" using False by (auto simp: least_child_def par_def)
    have len: "j < length ?xs" "?c < length ?xs" using c less.prems(2,3) by linarith+
    have sib: "\<not> lt (?xs ! k) (?xs ! ?c)" if "0 < k" "k < n" "par k = j" for k
    proof (cases "k = ?c")
      case True
      then show ?thesis using lt_asym by blast
    next
      case ne: False
      have kk: "k = 2 * j + 1 \<or> k = 2 * j + 2" using child_cases [OF that(1), of j] that(3) by simp
      have l2: "2 * j + 1 < length ?xs" "k < length ?xs" using False that(2) less.prems(3) by linarith+
      show ?thesis
      proof (cases "k = 2 * j + 1")
        case True
        with ne have "?c = 2 * j + 2" "cmp h (2 * j + 2) (2 * j + 1)" "2 * j + 2 < n"
          by (auto simp: least_child_def split: if_splits)
        then show ?thesis
          using cmp_elems [OF less.prems(1), of "2 * j + 2" "2 * j + 1"] l2 less.prems(3) lt_asym True by simp
      next
        case k2: False
        with kk have "k = 2 * j + 2" by simp
        with ne that(2) have "?c = 2 * j + 1" "\<not> cmp h (2 * j + 2) (2 * j + 1)"
          by (auto simp: least_child_def split: if_splits)
        then show ?thesis
          using cmp_elems [OF less.prems(1), of "2 * j + 2" "2 * j + 1"] l2 \<open>k = 2 * j + 2\<close> by simp
      qed
    qed
    show ?thesis
    proof (cases "cmp h ?c j")
      case stop: False
      then have "heap_down cmp swp j n h = (h, j)"
        using False by (subst heap_down_step) simp
      moreover have "heap_above lt low n ?xs"
        unfolding heap_above_def
      proof (intro allI impI)
        fix k
        assume k: "0 < k" "k < n" "low \<le> par k"
        have "\<not> lt (?xs ! ?c) (?xs ! j)" using stop cmp_elems [OF less.prems(1) len(2,1)] by simp
        then show "\<not> lt (?xs ! k) (?xs ! par k)"
          using hole [OF k] lt_trans [of "?xs ! ?c" "?xs ! j"] sib [OF k(1,2)] by blast
      qed
      ultimately show ?thesis using less.prems(1) by simp
    next
      case move: True
      let ?h = "swp j ?c h"
      have ltcj: "lt (?xs ! ?c) (?xs ! j)" using move cmp_elems [OF less.prems(1) len(2,1)] by simp
      have ys: "elems ?h = list_swap j ?c ?xs" by (rule swap_elems [OF less.prems(1) len])
      have nth: "elems ?h ! k = (if k = j then ?xs ! ?c else if k = ?c then ?xs ! j else ?xs ! k)" for k
        unfolding ys by (rule nth_list_swap [OF len])
      have hole_c: "down_hole lt low ?c n (elems ?h)"
        unfolding down_hole_def
      proof (intro conjI allI impI)
        fix k
        assume k: "0 < k" "k < n" "low \<le> par k" "par k \<noteq> ?c"
        have pk: "par k < k" using par_less [OF k(1)] .
        consider "k = ?c" | "k \<noteq> ?c" "par k = j" | "k = j" | "k \<noteq> ?c" "k \<noteq> j" "par k \<noteq> j" by blast
        then show "\<not> lt (elems ?h ! k) (elems ?h ! par k)"
        proof cases
          case 1
          then have "par k = j" using c(2) by simp
          then show ?thesis using lt_asym [OF ltcj] c(3) unfolding nth 1 by simp
        next
          case 2
          then have "k \<noteq> j" using pk by simp
          then show ?thesis using sib [OF k(1,2) 2(2)] 2 unfolding nth by simp
        next
          case 3
          have "\<not> lt (?xs ! ?c) (?xs ! par j)" using hole' [of ?c] c k 3 by simp
          moreover have "par j \<noteq> j" "par j \<noteq> ?c" using pk c(3) unfolding 3 by linarith+
          ultimately show ?thesis unfolding nth 3 by simp
        next
          case 4
          then show ?thesis using hole [OF k(1-3)] k(4) unfolding nth by simp
        qed
      next
        fix k
        assume k: "0 < k" "k < n" "par k = ?c" "0 < ?c" "low \<le> par ?c"
        have ne: "k \<noteq> j" "k \<noteq> ?c" using par_less [OF k(1)] k(3) c(3) by linarith+
        have "low \<le> par k" using less.prems(5) c(3) unfolding k(3) by linarith
        then have "\<not> lt (?xs ! k) (?xs ! ?c)" using hole [OF k(1,2)] k(3) c(3) by (metis less_irrefl)
        then show "\<not> lt (elems ?h ! k) (elems ?h ! par ?c)" unfolding c(2) nth using ne by simp
      qed
      have okh: "ok ?h" by (rule swap_ok [OF less.prems(1) len])
      have rec: "heap_down cmp swp j n h = heap_down cmp swp ?c n ?h"
        using False move by (subst heap_down_step) simp
      have "n - ?c < n - j" using c by linarith
      note IH = less.hyps [OF this okh c(1) _ hole_c]
      have le: "n \<le> length (elems ?h)" "low \<le> ?c"
        using less.prems(3,5) c(3) unfolding ys length_list_swap by linarith+
      have keep: "elems ?h ! k = ?xs ! k" if "n \<le> k" for k
      proof -
        have "k \<noteq> j" "k \<noteq> ?c" using that c(1) less.prems(2) by linarith+
        then show ?thesis unfolding nth by simp
      qed
      show ?thesis
        unfolding rec
      proof (intro conjI allI impI)
        note ih = IH [OF le]
        let ?d = "heap_down cmp swp ?c n ?h"
        show "ok (fst ?d)" "heap_above lt low n (elems (fst ?d))" using ih by blast+
        show "mset (elems (fst ?d)) = mset ?xs" using ih mset_list_swap [OF len] unfolding ys by argo
        show "elems (fst ?d) ! k = ?xs ! k" if "n \<le> k" for k using ih keep [OF that] that by metis
        have "j < snd ?d" using ih c(3) by linarith
        then show "j \<le> snd ?d" "snd ?d = j \<Longrightarrow> fst ?d = h" by simp_all
      qed
    qed
  qed
qed

lemma swap_length: "ok h \<Longrightarrow> i < length (elems h) \<Longrightarrow> j < length (elems h)
    \<Longrightarrow> length (elems (swp i j h)) = length (elems h)"
  by (simp add: swap_elems)

text \<open>\<^verbatim>\<open>heap.Push\<close>: the elements but for the new last one were in heap order.\<close>

lemma push_correct:
  assumes "ok h" "0 < length (elems h)" "heap_order lt (length (elems h) - 1) (elems h)"
  shows "ok (heap_push cmp swp (length (elems h)) h)
    \<and> mset (elems (heap_push cmp swp (length (elems h)) h)) = mset (elems h)
    \<and> heap_order lt (length (elems h)) (elems (heap_push cmp swp (length (elems h)) h))"
proof -
  let ?n = "length (elems h)"
  have "up_hole lt (?n - 1) ?n (elems h)"
    unfolding up_hole_def
  proof (intro conjI allI impI)
    fix k
    assume "0 < k" "k < ?n" "k \<noteq> ?n - 1"
    then show "\<not> lt (elems h ! k) (elems h ! par k)" using assms(3) by (simp add: heap_order_def)
  next
    fix k
    assume k: "0 < k" "k < ?n" "par k = ?n - 1"
    then have False using par_less [OF k(1)] by linarith
    then show "\<not> lt (elems h ! k) (elems h ! par (?n - 1))" ..
  qed
  then show ?thesis unfolding heap_push_def using assms by (intro up_correct) auto
qed

text \<open>\<^verbatim>\<open>heap.Pop\<close>: the root has moved to the last place and the others are in heap order.\<close>

lemma pop_correct:
  assumes "ok h" "0 < length (elems h)" "heap_order lt (length (elems h)) (elems h)"
  defines "h' \<equiv> heap_pop cmp swp (length (elems h)) h"
  shows "ok h' \<and> mset (elems h') = mset (elems h) \<and> heap_order lt (length (elems h) - 1) (elems h')
    \<and> elems h' ! (length (elems h) - 1) = elems h ! 0"
proof -
  let ?n = "length (elems h)" and ?m = "length (elems h) - 1"
  let ?h = "swp 0 ?m h"
  have idx: "0 < ?n" "?m < ?n" using assms(2) by auto
  have ys: "elems ?h = list_swap 0 ?m (elems h)" by (rule swap_elems [OF assms(1) idx])
  have nth: "elems ?h ! k = (if k = 0 then elems h ! ?m else if k = ?m then elems h ! 0 else elems h ! k)" for k
    unfolding ys by (rule nth_list_swap [OF idx])
  have okh: "ok ?h" by (rule swap_ok [OF assms(1) idx])
  have h': "h' = fst (heap_down cmp swp 0 ?m ?h)" by (simp add: h'_def heap_pop_def)
  have last: "elems ?h ! ?m = elems h ! 0" unfolding nth by simp
  show ?thesis
  proof (cases "?m = 0")
    case True
    then have "h' = ?h" unfolding h' by (subst heap_down_step) simp
    moreover have "mset (elems ?h) = mset (elems h)" unfolding ys by (rule mset_list_swap [OF idx])
    ultimately show ?thesis using okh True last by (simp add: heap_order_def)
  next
    case False
    have hole: "down_hole lt 0 0 ?m (elems ?h)"
      unfolding down_hole_def
    proof (intro conjI allI impI)
      fix k
      assume k: "0 < k" "k < ?m" "par k \<noteq> 0"
      have "par k < ?m" using par_less [OF k(1)] k(2) by linarith
      then show "\<not> lt (elems ?h ! k) (elems ?h ! par k)"
        using assms(3) k unfolding nth by (auto simp: heap_order_def)
    qed simp
    have m: "0 < ?m" "?m \<le> length (elems ?h)" unfolding ys using False by simp_all
    note d = down_correct [OF okh m hole le0, folded h']
    have "mset (elems h') = mset (elems h)" using d mset_list_swap [OF idx] unfolding ys by argo
    moreover have "elems h' ! ?m = elems h ! 0" using d last by (metis order_refl)
    ultimately show ?thesis using d unfolding heap_above_0 by blast
  qed
qed

text \<open>\<^verbatim>\<open>heap.Fix\<close>: only the element at \<open>i\<close> has changed its place in the order.\<close>

lemma fix_correct:
  assumes "ok h" "i < length (elems h)"
    and others: "\<And>k. 0 < k \<Longrightarrow> k < length (elems h) \<Longrightarrow> k \<noteq> i \<Longrightarrow> par k \<noteq> i \<Longrightarrow> \<not> lt (elems h ! k) (elems h ! par k)"
    and across: "\<And>k. 0 < k \<Longrightarrow> k < length (elems h) \<Longrightarrow> par k = i \<Longrightarrow> 0 < i \<Longrightarrow> \<not> lt (elems h ! k) (elems h ! par i)"
  defines "h' \<equiv> heap_fix cmp swp i (length (elems h)) h"
  shows "ok h' \<and> mset (elems h') = mset (elems h) \<and> heap_order lt (length (elems h)) (elems h')"
proof -
  let ?n = "length (elems h)"
  obtain hd i' where down: "heap_down cmp swp i ?n h = (hd, i')" by (cases "heap_down cmp swp i ?n h")
  show ?thesis
  proof (cases "0 < i \<and> lt (elems h ! i) (elems h ! par i)")
    case True
    then have i0: "0 < i" and lti: "lt (elems h ! i) (elems h ! par i)" by blast+
    have below: "\<not> lt (elems h ! k) (elems h ! i)" if "0 < k" "k < ?n" "par k = i" for k
      using lt_trans [OF lt_asym [OF lti]] across [OF that i0] by blast
    have stay: "heap_down cmp swp i ?n h = (h, i)"
    proof (cases "?n \<le> 2 * i + 1")
      case True
      then show ?thesis by (subst heap_down_step) simp
    next
      case False
      let ?c = "least_child cmp i ?n h"
      have c: "0 < ?c" "?c < ?n" "par ?c = i" using False by (auto simp: least_child_def par_def)
      then have "\<not> cmp h ?c i" using below [OF c] cmp_elems [OF assms(1) c(2) assms(2)] by simp
      with False show ?thesis by (subst heap_down_step) simp
    qed
    have "up_hole lt i ?n (elems h)"
      unfolding up_hole_def using others below across i0 by metis
    then have "ok (heap_up cmp swp i h) \<and> mset (elems (heap_up cmp swp i h)) = mset (elems h)
        \<and> heap_order lt ?n (elems (heap_up cmp swp i h))"
      using assms(1,2) by (intro up_correct) auto
    then show ?thesis unfolding h'_def heap_fix_def stay by simp
  next
    case False
    have hole: "down_hole lt 0 i ?n (elems h)"
      unfolding down_hole_def using others across False by metis
    note d = down_correct [OF assms(1,2) order_refl hole le0, unfolded down fst_conv snd_conv]
    show ?thesis
    proof (cases "i' > i")
      case True
      then show ?thesis unfolding h'_def heap_fix_def down using d by (simp add: heap_above_0)
    next
      case False
      with d have same: "hd = h" "i' = i" by auto
      have ord: "heap_order lt ?n (elems h)" using d same by (simp add: heap_above_0)
      have "up_hole lt i ?n (elems h)"
        unfolding up_hole_def using ord across unfolding heap_order_def by blast
      then have "ok (heap_up cmp swp i h) \<and> mset (elems (heap_up cmp swp i h)) = mset (elems h)
          \<and> heap_order lt ?n (elems (heap_up cmp swp i h))"
        using assms(1,2) by (intro up_correct) auto
      then show ?thesis unfolding h'_def heap_fix_def down same by simp
    qed
  qed
qed

lemma init_loop_correct:
  assumes "ok h" "n = length (elems h)" "i \<le> n" "heap_above lt i n (elems h)"
  shows "ok (heap_init_loop cmp swp n i h) \<and> mset (elems (heap_init_loop cmp swp n i h)) = mset (elems h)
    \<and> heap_order lt n (elems (heap_init_loop cmp swp n i h))"
  using assms
proof (induction i arbitrary: h)
  case 0
  then show ?case by (simp add: heap_above_0)
next
  case (Suc i)
  let ?h = "fst (heap_down cmp swp i n h)"
  have "down_hole lt i i n (elems h)"
    unfolding down_hole_def
  proof (intro conjI allI impI)
    fix k
    assume "0 < k" "k < n" "i \<le> par k" "par k \<noteq> i"
    then show "\<not> lt (elems h ! k) (elems h ! par k)" using Suc.prems(4) by (simp add: heap_above_def)
  next
    fix k
    assume "0 < i" "i \<le> par i"
    then have False using par_less [of i] by linarith
    then show "\<not> lt (elems h ! k) (elems h ! par i)" ..
  qed
  from down_correct [OF Suc.prems(1) _ _ this order_refl] Suc.prems(2,3)
  have d: "ok ?h" "mset (elems ?h) = mset (elems h)" "heap_above lt i n (elems ?h)" by auto
  have "length (elems ?h) = n" using d(2) Suc.prems(2) by (metis size_mset)
  with Suc.IH [OF d(1) _ _ d(3)] Suc.prems(3) d(2) show ?case by simp
qed

lemma init_correct:
  assumes "ok h"
  shows "ok (heap_init cmp swp (length (elems h)) h)
    \<and> mset (elems (heap_init cmp swp (length (elems h)) h)) = mset (elems h)
    \<and> heap_order lt (length (elems h)) (elems (heap_init cmp swp (length (elems h)) h))"
proof -
  let ?n = "length (elems h)"
  have "heap_above lt (?n div 2) ?n (elems h)"
    unfolding heap_above_def
  proof (intro allI impI)
    fix k
    assume k: "0 < k" "k < ?n" "?n div 2 \<le> par k"
    have "par k * 2 + 1 \<le> k" using k(1) unfolding par_def by presburger
    with k(2,3) have False by linarith
    then show "\<not> lt (elems h ! k) (elems h ! par k)" ..
  qed
  then show ?thesis unfolding heap_init_def using assms by (intro init_loop_correct) auto
qed

lemma heap_root_least:
  assumes "heap_order lt n xs" "k < n"
  shows "\<not> lt (xs ! k) (xs ! 0)"
  using assms(2)
proof (induction k rule: less_induct)
  case (less k)
  show ?case
  proof (cases "k = 0")
    case True
    then show ?thesis using lt_asym by blast
  next
    case False
    then have k: "0 < k" by simp
    have "par k < n" using par_less [OF k] less.prems by linarith
    then have "\<not> lt (xs ! par k) (xs ! 0)" using less.IH par_less [OF k] by blast
    moreover have "\<not> lt (xs ! k) (xs ! par k)" using assms(1) k less.prems by (simp add: heap_order_def)
    ultimately show ?thesis using lt_trans by blast
  qed
qed

end

end
