(* ===== verification/Expiry_Wheel.thy ===== *)
theory Expiry_Wheel
  imports Go_Heap Cache_Types
begin

text \<open>
  \<^verbatim>\<open>internal/cache/expiry_wheel.go\<close>: buckets of expiry entries by the minute they expire in, with a
  min-heap of the minutes.  A bucket pointer is the entry list under its key (only the wheel holds
  it).  \<open>ExpireDue\<close> is the code's loop (\<open>expire_iter\<close> is its body) over the store it deletes from, with no
  registration arriving while a batch is being deleted; the store's part of the contract is the locale
  \<open>versioned_deleter\<close>, which the value cache provides.
\<close>

record ExpiryWheel =
  ew_buckets :: "(int, ExpiryEntry list) gomap"
  ew_keys :: "int list"
  ew_pendingEntries :: int
  ew_maxEntriesPerRun :: nat
  ew_lastProcessedBucket :: int
  ew_hasProcessedBucket :: bool

record ExpiryResult =
  ex_Processed :: nat
  ex_CompletedBuckets :: nat
  ex_Deleted :: nat
  ex_Stale :: nat
  ex_NotFound :: nat
  ex_Limited :: bool
  ex_PendingEntries :: int
  ex_PendingBuckets :: nat
  ex_CleanupLag :: duration
  ex_LastProcessedBucket :: int

record ExpiryStats =
  es_PendingEntries :: int
  es_PendingBuckets :: nat
  es_CleanupLag :: duration
  es_LastProcessedBucket :: int

definition expiryDeleteBatchSize :: nat where "expiryDeleteBatchSize = 4096"

definition NewExpiryWheel :: "int \<Rightarrow> go_error + ExpiryWheel" where
  "NewExpiryWheel maxEntriesPerRun =
     (let maxEntries = (if maxEntriesPerRun = 0 then 100000 else maxEntriesPerRun) in
      if maxEntries < 0 then Inl (InvalidConfig ''expiry max entries per run must be positive'')
      else Inr \<lparr>ew_buckets = [], ew_keys = [], ew_pendingEntries = 0, ew_maxEntriesPerRun = nat maxEntries,
                ew_lastProcessedBucket = 0, ew_hasProcessedBucket = False\<rparr>)"

definition expiryBucketKey :: "time \<Rightarrow> int" where
  "expiryBucketKey at = go_div (to_Unix at) 60"

text \<open>The heap of keys: \<^verbatim>\<open>expiryBucketHeap\<close>.\<close>

definition key_less :: "int list \<Rightarrow> nat \<Rightarrow> nat \<Rightarrow> bool" where
  "key_less h i j \<longleftrightarrow> h ! i < h ! j"

definition push_key :: "int \<Rightarrow> int list \<Rightarrow> int list" where
  "push_key k keys = heap_push key_less list_swap (Suc (length keys)) (keys @ [k])"

definition pop_key :: "int list \<Rightarrow> int list" where
  "pop_key keys = butlast (heap_pop key_less list_swap (length keys) keys)"

interpretation key_heap: heap_container key_less list_swap "\<lambda>h. h" "\<lambda>_. True" "(<) :: int \<Rightarrow> int \<Rightarrow> bool"
  by unfold_locales (auto simp: key_less_def)

definition register_step :: "ExpiryEntry \<Rightarrow> ExpiryWheel \<Rightarrow> ExpiryWheel" where
  "register_step entry w =
     (let key = expiryBucketKey (ee_ExpireAt entry);
          w = (if mget (ew_buckets w) key = None
               then w\<lparr>ew_buckets := mput key [] (ew_buckets w), ew_keys := push_key key (ew_keys w)\<rparr>
               else w)
      in case mget (ew_buckets w) key of
           None \<Rightarrow> w
         | Some entries \<Rightarrow>
             w\<lparr>ew_buckets := mput key (entries @ [entry]) (ew_buckets w),
               ew_pendingEntries := ew_pendingEntries w + 1\<rparr>)"

definition RegisterExpiry :: "ExpiryEntry list \<Rightarrow> ExpiryWheel \<Rightarrow> ExpiryWheel" where
  "RegisterExpiry entries w = fold register_step entries w"

lemma length_list_swap_pop: "length (fst (heap_down key_less list_swap i n h)) = length h"
proof (induction "n - i" arbitrary: i h rule: less_induct)
  case less
  show ?case
    by (subst heap_down_step) (auto simp: less least_child_def)
qed

lemma length_pop_key: "length (pop_key keys) = length keys - 1"
  by (simp add: pop_key_def heap_pop_def length_list_swap_pop)

function firstDueBucket :: "int \<Rightarrow> ExpiryWheel \<Rightarrow> ExpiryWheel \<times> (int \<times> ExpiryEntry list) option" where
  "firstDueBucket currentKey w =
     (case ew_keys w of
        [] \<Rightarrow> (w, None)
      | key # _ \<Rightarrow>
          (case mget (ew_buckets w) key of
             Some (e # es) \<Rightarrow> (w, if key > currentKey then None else Some (key, e # es))
           | _ \<Rightarrow> firstDueBucket currentKey
                    (w\<lparr>ew_keys := pop_key (ew_keys w), ew_buckets := mdel key (ew_buckets w)\<rparr>)))"
  by pat_completeness auto

termination
  by (relation "measure (\<lambda>(_, w). length (ew_keys w))") (auto simp: length_pop_key)

declare firstDueBucket.simps [simp del]

definition removeEmptyBucket :: "int \<Rightarrow> ExpiryWheel \<Rightarrow> ExpiryWheel" where
  "removeEmptyBucket key w =
     (case mget (ew_buckets w) key of
        Some (_ # _) \<Rightarrow> w
      | _ \<Rightarrow>
          (let w = w\<lparr>ew_buckets := mdel key (ew_buckets w)\<rparr> in
           if ew_keys w \<noteq> [] \<and> hd (ew_keys w) = key then w\<lparr>ew_keys := pop_key (ew_keys w)\<rparr> else w))"

definition cleanupLag :: "time \<Rightarrow> ExpiryWheel \<Rightarrow> duration" where
  "cleanupLag now w =
     (case ew_keys w of
        [] \<Rightarrow> 0
      | key # _ \<Rightarrow>
          (let oldestCompleteBucketEnd = time_Unix (wrap64 ((key + 1) * 60)) 0 in
           if \<not> now > oldestCompleteBucketEnd then 0 else time_Sub now oldestCompleteBucketEnd))"

definition updateLastProcessed :: "int \<Rightarrow> ExpiryWheel \<Rightarrow> ExpiryWheel" where
  "updateLastProcessed currentKey w =
     (let processedThrough = (case ew_keys w of
             key # _ \<Rightarrow> if key \<le> currentKey then wrap64 (key - 1) else currentKey | [] \<Rightarrow> currentKey) in
      if \<not> ew_hasProcessedBucket w \<or> processedThrough > ew_lastProcessedBucket w
      then w\<lparr>ew_lastProcessedBucket := processedThrough, ew_hasProcessedBucket := True\<rparr> else w)"

definition fillResult :: "time \<Rightarrow> ExpiryWheel \<Rightarrow> ExpiryResult \<Rightarrow> ExpiryResult" where
  "fillResult now w result =
     result\<lparr>ex_PendingEntries := ew_pendingEntries w, ex_PendingBuckets := length (ew_buckets w),
            ex_CleanupLag := cleanupLag now w, ex_LastProcessedBucket := ew_lastProcessedBucket w\<rparr>"

definition wheel_Stats :: "time \<Rightarrow> ExpiryWheel \<Rightarrow> ExpiryStats" where
  "wheel_Stats now w =
     \<lparr>es_PendingEntries = ew_pendingEntries w, es_PendingBuckets = length (ew_buckets w),
      es_CleanupLag = cleanupLag now w, es_LastProcessedBucket = ew_lastProcessedBucket w\<rparr>"

section \<open>ExpireDue\<close>

record 's ExpireRun =
  er_wheel :: ExpiryWheel
  er_store :: 's
  er_result :: ExpiryResult
  er_activeKey :: int
  er_activeRemaining :: nat
  er_hasActive :: bool

definition emptyExpiryResult :: ExpiryResult where
  "emptyExpiryResult = \<lparr>ex_Processed = 0, ex_CompletedBuckets = 0, ex_Deleted = 0, ex_Stale = 0,
     ex_NotFound = 0, ex_Limited = False, ex_PendingEntries = 0, ex_PendingBuckets = 0,
     ex_CleanupLag = 0, ex_LastProcessedBucket = 0\<rparr>"

definition expired_items :: "time \<Rightarrow> ExpiryEntry list \<Rightarrow> VersionedItem list" where
  "expired_items now entries =
     map (\<lambda>e. \<lparr>vi_ItemID = ee_ItemID e, vi_ValueVersion = ee_ValueVersion e\<rparr>)
       (filter (\<lambda>e. \<not> ee_ExpireAt e > now) entries)"

definition batch_size :: "'s ExpireRun \<Rightarrow> nat \<Rightarrow> ExpiryEntry list \<Rightarrow> nat" where
  "batch_size run activeRemaining entries =
     min (min (min activeRemaining (ew_maxEntriesPerRun (er_wheel run) - ex_Processed (er_result run)))
       expiryDeleteBatchSize) (length entries)"

text \<open>The body of the loop for a non-empty batch, and the whole body; the flag says whether to go on.\<close>

definition expire_batch :: "('s \<Rightarrow> VersionedItem list \<Rightarrow> 's \<times> DeleteResult) \<Rightarrow> time
    \<Rightarrow> int \<Rightarrow> ExpiryEntry list \<Rightarrow> nat \<Rightarrow> 's ExpireRun \<Rightarrow> 's ExpireRun \<times> bool" where
  "expire_batch delete now key entries activeRemaining run =
     (let batchSize = batch_size run activeRemaining entries;
          batch = take batchSize entries;
          candidates = expired_items now batch;
          deferred = filter (\<lambda>e. ee_ExpireAt e > now) batch;
          entries = drop batchSize entries @ deferred;
          w = er_wheel run;
          w = w\<lparr>ew_buckets := mput key entries (ew_buckets w),
                ew_pendingEntries := ew_pendingEntries w - int (length candidates)\<rparr>;
          activeRemaining = activeRemaining - batchSize;
          result = er_result run;
          result = result\<lparr>ex_Processed := ex_Processed result + batchSize\<rparr>;
          bucketRemoved = (entries = []);
          w = (if bucketRemoved then removeEmptyBucket key w else w);
          (store, result) =
            (if candidates = [] then (er_store run, result)
             else case delete (er_store run) candidates of
               (store, deleted) \<Rightarrow>
                 (store, result\<lparr>ex_Deleted := ex_Deleted result + dr_Deleted deleted,
                                ex_Stale := ex_Stale result + dr_Stale deleted,
                                ex_NotFound := ex_NotFound result + dr_NotFound deleted\<rparr>));
          run = run\<lparr>er_wheel := w, er_store := store, er_result := result, er_activeKey := key,
                    er_activeRemaining := activeRemaining, er_hasActive := True\<rparr>
      in if bucketRemoved
         then (run\<lparr>er_hasActive := False,
                   er_result := result\<lparr>ex_CompletedBuckets := Suc (ex_CompletedBuckets result)\<rparr>\<rparr>, True)
         else (run, activeRemaining \<noteq> 0))"

definition expire_iter :: "('s \<Rightarrow> VersionedItem list \<Rightarrow> 's \<times> DeleteResult) \<Rightarrow> time
    \<Rightarrow> 's ExpireRun \<Rightarrow> 's ExpireRun \<times> bool" where
  "expire_iter delete now run =
     (case firstDueBucket (expiryBucketKey now) (er_wheel run) of
        (w, None) \<Rightarrow> (run\<lparr>er_wheel := w\<rparr>, False)
      | (w, Some (key, entries)) \<Rightarrow>
          (let run = run\<lparr>er_wheel := w\<rparr>;
               activeRemaining = (if \<not> er_hasActive run \<or> er_activeKey run \<noteq> key
                                  then length entries else er_activeRemaining run) in
           if activeRemaining = 0
           then (run\<lparr>er_wheel := removeEmptyBucket key w, er_hasActive := False,
                     er_result := (er_result run)\<lparr>ex_CompletedBuckets := Suc (ex_CompletedBuckets (er_result run))\<rparr>\<rparr>,
                 True)
           else expire_batch delete now key entries activeRemaining run))"

lemma firstDueBucket_frame:
  assumes "firstDueBucket currentKey w = (w', found)"
  shows "ew_maxEntriesPerRun w' = ew_maxEntriesPerRun w" and "found = Some (key, entries) \<Longrightarrow> entries \<noteq> []"
proof -
  have "ew_maxEntriesPerRun w' = ew_maxEntriesPerRun w \<and> (found = Some (key, entries) \<longrightarrow> entries \<noteq> [])"
    using assms
  proof (induction currentKey w rule: firstDueBucket.induct)
    case (1 currentKey w)
    show ?case
    proof (cases "ew_keys w")
      case Nil
      with "1.prems" show ?thesis by (subst (asm) firstDueBucket.simps) simp
    next
      case (Cons k ks)
      show ?thesis
      proof (cases "mget (ew_buckets w) k")
        case None
        with "1.prems" Cons "1.IH"(1) [OF Cons None] show ?thesis by (subst (asm) firstDueBucket.simps) simp
      next
        case (Some es)
        show ?thesis
        proof (cases es)
          case Nil
          with "1.prems" Cons Some "1.IH"(2) [OF Cons] show ?thesis by (subst (asm) firstDueBucket.simps) simp
        next
          case (Cons e es')
          with "1.prems" \<open>ew_keys w = k # ks\<close> Some show ?thesis
            by (subst (asm) firstDueBucket.simps) (auto split: if_splits)
        qed
      qed
    qed
  qed
  then show "ew_maxEntriesPerRun w' = ew_maxEntriesPerRun w" and "found = Some (key, entries) \<Longrightarrow> entries \<noteq> []"
    by blast+
qed

lemma removeEmptyBucket_frame [simp]:
  "ew_maxEntriesPerRun (removeEmptyBucket key w) = ew_maxEntriesPerRun w"
  "ew_pendingEntries (removeEmptyBucket key w) = ew_pendingEntries w"
  by (auto simp: removeEmptyBucket_def Let_def split: option.split list.split)

definition budget_left :: "'s ExpireRun \<Rightarrow> nat" where
  "budget_left run = ew_maxEntriesPerRun (er_wheel run) - ex_Processed (er_result run)"

lemma expire_batch_budget:
  fixes run :: "'s ExpireRun"
  assumes "expire_batch delete now key entries activeRemaining run = (run', goon)"
  shows "budget_left run' = budget_left run - batch_size run activeRemaining entries"
    and "ex_Processed (er_result run') = ex_Processed (er_result run) + batch_size run activeRemaining entries"
    and "ew_maxEntriesPerRun (er_wheel run') = ew_maxEntriesPerRun (er_wheel run)"
  using assms
  by (auto simp: expire_batch_def Let_def budget_left_def split: prod.splits if_splits)

lemma expire_iter_budget:
  fixes run :: "'s ExpireRun"
  assumes "0 < budget_left run" and "expire_iter delete now run = (run', True)"
  shows "2 * budget_left run' + (if er_hasActive run' then 1 else 0) < 2 * budget_left run + (if er_hasActive run then 1 else 0)"
proof -
  obtain w found where due: "firstDueBucket (expiryBucketKey now) (er_wheel run) = (w, found)"
    by (cases "firstDueBucket (expiryBucketKey now) (er_wheel run)")
  with assms(2) obtain key entries where found: "found = Some (key, entries)"
    by (cases found) (auto simp: expire_iter_def)
  have w: "ew_maxEntriesPerRun w = ew_maxEntriesPerRun (er_wheel run)" and ne: "entries \<noteq> []"
    using firstDueBucket_frame [OF due] found by auto
  let ?run = "run\<lparr>er_wheel := w\<rparr>"
  let ?active = "if \<not> er_hasActive ?run \<or> er_activeKey ?run \<noteq> key then length entries else er_activeRemaining ?run"
  have b: "budget_left ?run = budget_left run" by (simp add: budget_left_def w)
  show ?thesis
  proof (cases "?active = 0")
    case True
    then have active: "er_hasActive run" using ne by (auto split: if_splits)
    have "run' = ?run\<lparr>er_wheel := removeEmptyBucket key w, er_hasActive := False,
        er_result := (er_result run)\<lparr>ex_CompletedBuckets := Suc (ex_CompletedBuckets (er_result run))\<rparr>\<rparr>"
      using assms(2) True by (simp add: expire_iter_def due found Let_def split: if_splits)
    then show ?thesis using active w by (simp add: budget_left_def)
  next
    case False
    then have batch: "expire_batch delete now key entries ?active ?run = (run', True)"
      using assms(2) by (auto simp add: expire_iter_def due found Let_def split: if_splits)
    have "0 < batch_size ?run ?active entries"
      using False ne assms(1) by (simp add: batch_size_def expiryDeleteBatchSize_def budget_left_def w)
    then show ?thesis using expire_batch_budget(1) [OF batch] b assms(1) by auto
  qed
qed

lemma expire_iter_measure:
  fixes run :: "'s ExpireRun"
  assumes "ex_Processed (er_result run) < ew_maxEntriesPerRun (er_wheel run)"
    and "expire_iter delete now run = (run', True)"
  shows "((delete, now, run'), (delete, now, run))
    \<in> measure (\<lambda>(_, _, run). 2 * budget_left run + (if er_hasActive run then 1 else 0))"
  using expire_iter_budget [of run delete now run'] assms by (simp add: budget_left_def)

function expire_loop :: "('s \<Rightarrow> VersionedItem list \<Rightarrow> 's \<times> DeleteResult) \<Rightarrow> time \<Rightarrow> 's ExpireRun \<Rightarrow> 's ExpireRun" where
  "expire_loop delete now run =
     (if ex_Processed (er_result run) < ew_maxEntriesPerRun (er_wheel run)
      then case expire_iter delete now run of
             (run', goon) \<Rightarrow> if goon then expire_loop delete now run' else run'
      else run)"
  by pat_completeness auto

termination
  by (relation "measure (\<lambda>(_, _, run). 2 * budget_left run + (if er_hasActive run then 1 else 0))")
    (simp, rule expire_iter_measure, auto)

declare expire_loop.simps [simp del]

definition ExpireDue :: "('s \<Rightarrow> VersionedItem list \<Rightarrow> 's \<times> DeleteResult) \<Rightarrow> time \<Rightarrow> ExpiryWheel \<Rightarrow> 's option
    \<Rightarrow> ExpiryWheel \<times> 's option \<times> ExpiryResult" where
  "ExpireDue delete now w store =
     (case store of
        None \<Rightarrow> (w, None, fillResult now w emptyExpiryResult)
      | Some store \<Rightarrow>
          (let currentKey = expiryBucketKey now;
               run = expire_loop delete now
                 \<lparr>er_wheel = w, er_store = store, er_result = emptyExpiryResult, er_activeKey = 0,
                  er_activeRemaining = 0, er_hasActive = False\<rparr>;
               result = er_result run;
               (w, limited) =
                 (if ex_Processed result = ew_maxEntriesPerRun (er_wheel run)
                  then case firstDueBucket currentKey (er_wheel run) of (w, found) \<Rightarrow> (w, found \<noteq> None)
                  else (er_wheel run, False));
               w = updateLastProcessed currentKey w
           in (w, Some (er_store run), fillResult now w (result\<lparr>ex_Limited := limited\<rparr>))))"

section \<open>Invariant\<close>

definition wheel_entries :: "ExpiryWheel \<Rightarrow> ExpiryEntry multiset" where
  "wheel_entries w = bucket_entries (ew_buckets w)"

definition wheel_inv :: "ExpiryWheel \<Rightarrow> bool" where
  "wheel_inv w \<longleftrightarrow> wf_map (ew_buckets w) \<and> heap_order (<) (length (ew_keys w)) (ew_keys w)
     \<and> distinct (ew_keys w) \<and> set (ew_keys w) = set (mkeys (ew_buckets w))
     \<and> (\<forall>k es. mget (ew_buckets w) k = Some es \<longrightarrow> es \<noteq> [] \<and> (\<forall>e \<in> set es. expiryBucketKey (ee_ExpireAt e) = k))
     \<and> ew_pendingEntries w = int (size (wheel_entries w))"

lemma push_key_correct:
  assumes "heap_order (<) (length keys) keys"
  shows "mset (push_key k keys) = add_mset k (mset keys)"
    and "heap_order (<) (length (push_key k keys)) (push_key k keys)"
proof -
  have "heap_order (<) (length keys) (keys @ [k])"
    using assms by (auto simp: heap_order_def nth_append par_def)
  then have push: "mset (push_key k keys) = mset (keys @ [k])"
      "heap_order (<) (length (keys @ [k])) (push_key k keys)"
    using key_heap.push_correct [of "keys @ [k]"] by (simp_all add: push_key_def)
  have "length (push_key k keys) = length (keys @ [k])" by (rule mset_eq_length [OF push(1)])
  with push show "mset (push_key k keys) = add_mset k (mset keys)"
    "heap_order (<) (length (push_key k keys)) (push_key k keys)" by simp_all
qed

lemma pop_key_correct:
  assumes "heap_order (<) (length keys) keys" "keys \<noteq> []"
  shows "add_mset (hd keys) (mset (pop_key keys)) = mset keys"
    and "heap_order (<) (length (pop_key keys)) (pop_key keys)"
proof -
  let ?h = "heap_pop key_less list_swap (length keys) keys"
  have pop: "mset ?h = mset keys" "heap_order (<) (length keys - 1) ?h" "?h ! (length keys - 1) = keys ! 0"
    using key_heap.pop_correct [of keys] assms by auto
  have len: "length ?h = length keys" by (rule mset_eq_length [OF pop(1)])
  then have ne: "?h \<noteq> []" using assms(2) by (metis length_0_conv)
  have "last ?h = hd keys" using ne pop(3) len assms(2) by (simp add: last_conv_nth hd_conv_nth)
  then have "?h = pop_key keys @ [hd keys]" using ne unfolding pop_key_def by (metis append_butlast_last_id)
  then have "mset ?h = add_mset (hd keys) (mset (pop_key keys))" by (simp add: union_commute)
  then show "add_mset (hd keys) (mset (pop_key keys)) = mset keys" using pop(1) by simp
  show "heap_order (<) (length (pop_key keys)) (pop_key keys)"
    unfolding heap_order_def
  proof (intro allI impI)
    fix k
    assume k: "0 < k" "k < length (pop_key keys)"
    have pk: "par k < length (pop_key keys)" using par_less [OF k(1)] k(2) by linarith
    have "k < length keys - 1" using k(2) by (simp add: length_pop_key)
    then have "\<not> ?h ! k < ?h ! par k" using pop(2) k(1) unfolding heap_order_def by blast
    then show "\<not> pop_key keys ! k < pop_key keys ! par k"
      using k pk unfolding pop_key_def by (simp add: nth_butlast)
  qed
qed

lemma wheel_invD:
  assumes "wheel_inv w"
  shows "wf_map (ew_buckets w)" "heap_order (<) (length (ew_keys w)) (ew_keys w)" "distinct (ew_keys w)"
    "set (ew_keys w) = set (mkeys (ew_buckets w))"
    "\<And>k es. mget (ew_buckets w) k = Some es \<Longrightarrow> es \<noteq> []"
    "\<And>k es e. mget (ew_buckets w) k = Some es \<Longrightarrow> e \<in> set es \<Longrightarrow> expiryBucketKey (ee_ExpireAt e) = k"
    "ew_pendingEntries w = int (size (wheel_entries w))"
  using assms by (auto simp: wheel_inv_def)

lemma pop_key_set:
  assumes "heap_order (<) (length keys) keys" "keys \<noteq> []" "distinct keys"
  shows "distinct (pop_key keys)" "set (pop_key keys) = set keys - {hd keys}"
proof -
  have m: "mset (hd keys # pop_key keys) = mset keys" using pop_key_correct(1) [OF assms(1,2)] by simp
  then have "distinct (hd keys # pop_key keys)" using assms(3) mset_eq_imp_distinct_iff by metis
  moreover have "set (hd keys # pop_key keys) = set keys" using m mset_eq_setD by metis
  ultimately show "distinct (pop_key keys)" "set (pop_key keys) = set keys - {hd keys}" by auto
qed

lemma new_wheel_inv [inv_intros]: "NewExpiryWheel n = Inr w \<Longrightarrow> wheel_inv w \<and> wheel_entries w = {#}"
  by (auto simp: NewExpiryWheel_def wheel_inv_def wheel_entries_def bucket_entries_def heap_order_def Let_def
      split: if_splits)

lemma register_step_inv:
  assumes inv: "wheel_inv w"
  shows "wheel_inv (register_step e w) \<and> wheel_entries (register_step e w) = add_mset e (wheel_entries w)"
proof -
  let ?k = "expiryBucketKey (ee_ExpireAt e)"
  note i = wheel_invD [OF inv]
  show ?thesis
  proof (cases "mget (ew_buckets w) ?k")
    case None
    have reg: "register_step e w = w\<lparr>ew_buckets := mput ?k [e] (mput ?k [] (ew_buckets w)),
        ew_keys := push_key ?k (ew_keys w), ew_pendingEntries := ew_pendingEntries w + 1\<rparr>"
      using None by (simp add: register_step_def Let_def)
    have ent: "bucket_entries (mput ?k [e] (mput ?k [] (ew_buckets w))) = add_mset e (wheel_entries w)"
      using bucket_entries_put [of "mput ?k [] (ew_buckets w)" ?k "[]" "[e]"] bucket_entries_new [OF None, of "[]"]
      by (simp add: wheel_entries_def)
    have new: "?k \<notin> set (ew_keys w)" using None i(4) by (simp add: mget_None_iff)
    have push: "mset (push_key ?k (ew_keys w)) = mset (?k # ew_keys w)"
      using push_key_correct(1) [OF i(2)] by simp
    have dist: "distinct (push_key ?k (ew_keys w))"
      using mset_eq_imp_distinct_iff [OF push] new i(3) by simp
    have keys: "set (push_key ?k (ew_keys w)) = set (mkeys (mput ?k [e] (mput ?k [] (ew_buckets w))))"
      using mset_eq_setD [OF push] i(4) by (auto simp: mkeys_put)
    show ?thesis
      unfolding reg wheel_inv_def using i dist keys ent push_key_correct(2) [OF i(2)]
      by (auto simp: wheel_entries_def split: if_splits)
  next
    case (Some es)
    have reg: "register_step e w = w\<lparr>ew_buckets := mput ?k (es @ [e]) (ew_buckets w),
        ew_pendingEntries := ew_pendingEntries w + 1\<rparr>"
      using Some by (simp add: register_step_def Let_def)
    have "bucket_entries (mput ?k (es @ [e]) (ew_buckets w)) + mset es = add_mset e (wheel_entries w) + mset es"
      using bucket_entries_put [OF Some, of "es @ [e]"] by (simp add: wheel_entries_def)
    then have ent: "bucket_entries (mput ?k (es @ [e]) (ew_buckets w)) = add_mset e (wheel_entries w)"
      by (rule add_right_imp_eq)
    have keys: "set (ew_keys w) = set (mkeys (mput ?k (es @ [e]) (ew_buckets w)))"
      using i(4) mget_in [OF Some] by (simp add: mkeys_put del: set_map)
    show ?thesis
      unfolding reg wheel_inv_def using i keys ent Some by (auto simp: wheel_entries_def split: if_splits)
  qed
qed

lemma RegisterExpiry_inv [inv_intros]:
  "wheel_inv w \<Longrightarrow> wheel_inv (RegisterExpiry es w) \<and> wheel_entries (RegisterExpiry es w) = wheel_entries w + mset es"
proof (induction es arbitrary: w)
  case (Cons e es)
  from register_step_inv [OF Cons.prems, of e] Cons.IH [of "register_step e w"]
  show ?case by (simp add: RegisterExpiry_def)
qed (simp add: RegisterExpiry_def)

text \<open>Under the invariant the heap's root names a bucket that is not empty.\<close>

lemma firstDueBucket_inv:
  assumes inv: "wheel_inv w"
  shows "firstDueBucket currentKey w = (w, if ew_keys w = [] \<or> hd (ew_keys w) > currentKey then None
      else Some (hd (ew_keys w), the (mget (ew_buckets w) (hd (ew_keys w)))))"
    and "ew_keys w \<noteq> [] \<Longrightarrow> \<exists>es. mget (ew_buckets w) (hd (ew_keys w)) = Some es \<and> es \<noteq> []"
proof -
  note i = wheel_invD [OF inv]
  have root: "\<exists>es. mget (ew_buckets w) (hd (ew_keys w)) = Some es \<and> es \<noteq> []" if "ew_keys w \<noteq> []"
  proof -
    have "hd (ew_keys w) \<in> set (mkeys (ew_buckets w))" using that i(4) hd_in_set by blast
    then have "mget (ew_buckets w) (hd (ew_keys w)) \<noteq> None" by (simp only: mget_None_iff not_not)
    then show ?thesis using i(5) by blast
  qed
  then show "ew_keys w \<noteq> [] \<Longrightarrow> \<exists>es. mget (ew_buckets w) (hd (ew_keys w)) = Some es \<and> es \<noteq> []" .
  show "firstDueBucket currentKey w = (w, if ew_keys w = [] \<or> hd (ew_keys w) > currentKey then None
      else Some (hd (ew_keys w), the (mget (ew_buckets w) (hd (ew_keys w)))))"
  proof (cases "ew_keys w")
    case Nil
    then show ?thesis by (subst firstDueBucket.simps) simp
  next
    case (Cons k ks)
    then obtain e es where "mget (ew_buckets w) k = Some (e # es)" using root by (auto simp: neq_Nil_conv)
    with Cons show ?thesis by (subst firstDueBucket.simps) simp
  qed
qed

text \<open>Replacing or dropping the root's bucket.\<close>

lemma root_bucket_put:
  assumes inv: "wheel_inv w" and root: "mget (ew_buckets w) k = Some es"
    and split: "mset es' + gone = mset es" "es' \<noteq> []"
  defines "w' \<equiv> w\<lparr>ew_buckets := mput k es' (ew_buckets w), ew_pendingEntries := ew_pendingEntries w - int (size gone)\<rparr>"
  shows "wheel_inv w'" and "wheel_entries w' + gone = wheel_entries w"
proof -
  note i = wheel_invD [OF inv]
  have "bucket_entries (mput k es' (ew_buckets w)) + gone + mset es' = bucket_entries (ew_buckets w) + mset es'"
    using bucket_entries_put [OF root, of es'] by (simp add: split(1) [symmetric] ac_simps)
  then have "bucket_entries (mput k es' (ew_buckets w)) + gone = bucket_entries (ew_buckets w)"
    by (rule add_right_imp_eq)
  then show ent: "wheel_entries w' + gone = wheel_entries w"
    by (simp add: wheel_entries_def w'_def)
  have size: "size (wheel_entries w) = size (wheel_entries w') + size gone" using ent by (metis size_union)
  have sub: "set es' \<subseteq> set es" using split(1) by (metis mset_subset_eq_add_left set_mset_mono set_mset_mset)
  have keys: "set (ew_keys w) = set (mkeys (mput k es' (ew_buckets w)))"
    using i(4) mget_in [OF root] by (simp add: mkeys_put del: set_map)
  show "wheel_inv w'"
    unfolding wheel_inv_def using i root sub split(2) keys size
    by (auto simp: w'_def split: if_splits)
qed

lemma root_bucket_drop:
  assumes inv: "wheel_inv w" and ne: "ew_keys w \<noteq> []" and root: "mget (ew_buckets w) (hd (ew_keys w)) = Some es"
  defines "k \<equiv> hd (ew_keys w)"
  defines "w' \<equiv> removeEmptyBucket k (w\<lparr>ew_buckets := mput k [] (ew_buckets w),
      ew_pendingEntries := ew_pendingEntries w - int (length es)\<rparr>)"
  shows "wheel_inv w'" and "wheel_entries w' + mset es = wheel_entries w"
proof -
  note i = wheel_invD [OF inv]
  have w': "w' = w\<lparr>ew_buckets := mdel k (mput k [] (ew_buckets w)), ew_keys := pop_key (ew_keys w),
      ew_pendingEntries := ew_pendingEntries w - int (length es)\<rparr>"
    using ne by (simp add: w'_def removeEmptyBucket_def k_def Let_def)
  have "bucket_entries (mput k [] (ew_buckets w)) + mset es = bucket_entries (ew_buckets w)"
    using bucket_entries_put [OF root, of "[]"] by (simp add: k_def)
  moreover have "bucket_entries (mdel k (mput k [] (ew_buckets w))) = bucket_entries (mput k [] (ew_buckets w))"
    using bucket_entries_del [of "mput k [] (ew_buckets w)" k "[]"] i(1) by simp
  ultimately show ent: "wheel_entries w' + mset es = wheel_entries w"
    by (simp add: wheel_entries_def w')
  have size: "size (wheel_entries w) = size (wheel_entries w') + length es" using ent by (metis size_mset size_union)
  have "set (mkeys (mdel k (mput k [] (ew_buckets w)))) = set (mkeys (ew_buckets w)) - {k}"
    by (auto simp: delete_keys mkeys_put)
  then have keys: "set (pop_key (ew_keys w)) = set (mkeys (mdel k (mput k [] (ew_buckets w))))"
    using pop_key_set(2) [OF i(2) ne i(3)] i(4) by (simp add: k_def)
  show "wheel_inv w'"
    unfolding wheel_inv_def
    using i keys size pop_key_set(1) [OF i(2) ne i(3)] pop_key_correct(2) [OF i(2) ne]
    by (auto simp: w' split: if_splits)
qed

definition left_over :: "time \<Rightarrow> nat \<Rightarrow> ExpiryEntry list \<Rightarrow> ExpiryEntry list" where
  "left_over now n es = drop n es @ filter (\<lambda>e. ee_ExpireAt e > now) (take n es)"

definition due_part :: "time \<Rightarrow> nat \<Rightarrow> ExpiryEntry list \<Rightarrow> ExpiryEntry list" where
  "due_part now n es = filter (\<lambda>e. \<not> ee_ExpireAt e > now) (take n es)"

lemma due_items: "length (expired_items now (take n es)) = size (mset (due_part now n es))"
  by (simp only: expired_items_def due_part_def length_map size_mset)

lemma left_over_split: "mset (left_over now n es) + mset (due_part now n es) = mset es"
proof -
  have "mset (filter (\<lambda>e. ee_ExpireAt e > now) (take n es)) + mset (due_part now n es) = mset (take n es)"
    by (simp only: mset_filter due_part_def multiset_partition [symmetric])
  then have "mset (left_over now n es) + mset (due_part now n es) = mset (drop n es) + mset (take n es)"
    by (simp add: add.assoc left_over_def)
  then show ?thesis by (metis append_take_drop_id mset_append add.commute)
qed

lemma left_over_behind:
  assumes "\<And>e. e \<in> set (drop ar es) \<Longrightarrow> ee_ExpireAt e > now" "n \<le> ar" "ar \<le> length es"
    and e: "e \<in> set (drop (ar - n) (left_over now n es))"
  shows "ee_ExpireAt e > now"
proof -
  have "ar - n \<le> length es - n" using assms(3) by linarith
  then have "drop (ar - n) (left_over now n es) = drop ar es @ filter (\<lambda>e. ee_ExpireAt e > now) (take n es)"
    using assms(2) by (simp add: left_over_def)
  then have "e \<in> set (drop ar es) \<union> set (filter (\<lambda>e. ee_ExpireAt e > now) (take n es))"
    using e by (simp only: set_append)
  then show ?thesis using assms(1) by auto
qed

lemma left_over_length: "ar \<le> length es \<Longrightarrow> ar - n \<le> length (left_over now n es)"
  by (simp add: left_over_def)

text \<open>The fields after one batch.\<close>

lemma expire_batch_fields:
  fixes run :: "'s ExpireRun"
  assumes batch: "expire_batch delete now key es ar run = (run', goon)"
  defines "n \<equiv> batch_size run ar es"
  defines "w \<equiv> (er_wheel run)\<lparr>ew_buckets := mput key (left_over now n es) (ew_buckets (er_wheel run)),
      ew_pendingEntries := ew_pendingEntries (er_wheel run) - int (size (mset (due_part now n es)))\<rparr>"
  shows "er_wheel run' = (if left_over now n es = [] then removeEmptyBucket key w else w)"
    and "goon \<longleftrightarrow> left_over now n es = [] \<or> ar - n \<noteq> 0"
    and "er_hasActive run' \<longleftrightarrow> left_over now n es \<noteq> []"
    and "er_activeKey run' = key" and "er_activeRemaining run' = ar - n"
    and "er_store run' = (if due_part now n es = [] then er_store run
      else fst (delete (er_store run) (expired_items now (take n es))))"
    and "ex_Deleted (er_result run') + ex_Stale (er_result run') + ex_NotFound (er_result run') =
      ex_Deleted (er_result run) + ex_Stale (er_result run) + ex_NotFound (er_result run)
      + (if due_part now n es = [] then 0 else let r = snd (delete (er_store run) (expired_items now (take n es)))
         in dr_Deleted r + dr_Stale r + dr_NotFound r)"
proof -
  have none: "expired_items now (take n es) = [] \<longleftrightarrow> due_part now n es = []"
    by (simp add: expired_items_def due_part_def)
  note eq = batch [unfolded expire_batch_def Let_def, folded n_def left_over_def, unfolded due_items none, folded w_def]
  obtain s' d where del: "delete (er_store run) (expired_items now (take n es)) = (s', d)"
    by (cases "delete (er_store run) (expired_items now (take n es))")
  show "er_wheel run' = (if left_over now n es = [] then removeEmptyBucket key w else w)"
    and "goon \<longleftrightarrow> left_over now n es = [] \<or> ar - n \<noteq> 0"
    and "er_hasActive run' \<longleftrightarrow> left_over now n es \<noteq> []"
    and "er_activeKey run' = key" and "er_activeRemaining run' = ar - n"
    and "er_store run' = (if due_part now n es = [] then er_store run
      else fst (delete (er_store run) (expired_items now (take n es))))"
    and "ex_Deleted (er_result run') + ex_Stale (er_result run') + ex_NotFound (er_result run') =
      ex_Deleted (er_result run) + ex_Stale (er_result run) + ex_NotFound (er_result run)
      + (if due_part now n es = [] then 0 else let r = snd (delete (er_store run) (expired_items now (take n es)))
         in dr_Deleted r + dr_Stale r + dr_NotFound r)"
    using eq by (cases "left_over now n es = []"; cases "due_part now n es = []"; auto simp: del Let_def)+
qed

section \<open>Minutes and instants\<close>

lemma go_div_mono: "in_int64 a \<Longrightarrow> in_int64 b \<Longrightarrow> a \<le> b \<Longrightarrow> go_div a 60 \<le> go_div b 60"
proof -
  assume a: "in_int64 a" and b: "in_int64 b" and le: "a \<le> b"
  have q: "go_div x 60 = (if 0 \<le> x then x div 60 else - ((- x) div 60))" if x: "in_int64 x" for x
  proof -
    have "in_int64 (sgn x * sgn 60 * (\<bar>x\<bar> div \<bar>60\<bar>))"
    proof -
      have "\<bar>x\<bar> div 60 \<le> 2 ^ 63 div 60" using x by (intro zdiv_mono1) (auto simp: in_int64_def)
      moreover have "0 \<le> \<bar>x\<bar> div 60" by simp
      ultimately show ?thesis by (auto simp: in_int64_def sgn_if)
    qed
    then show ?thesis by (auto simp: go_div_def wrap64_id sgn_if)
  qed
  show ?thesis
  proof (cases "0 \<le> a")
    case True
    then show ?thesis using q [OF a] q [OF b] zdiv_mono1 [of a b 60] le by simp
  next
    case False
    show ?thesis
    proof (cases "0 \<le> b")
      case True
      have "0 \<le> (- a) div 60" "0 \<le> b div 60" using False True by simp_all
      then show ?thesis using q [OF a] q [OF b] False True by simp
    next
      case nb: False
      then show ?thesis using q [OF a] q [OF b] zdiv_mono1 [of "- b" "- a" 60] le False by simp
    qed
  qed
qed

lemma expiryBucketKey_mono:
  assumes "sane_time s" "sane_time t" "s \<le> t"
  shows "expiryBucketKey s \<le> expiryBucketKey t"
proof -
  have r: "in_int64 (x div 1000000000 - unixToInternal)" if x: "sane_time x" for x
  proof -
    have "- (2 ^ 62) \<le> x div 1000000000" "x div 1000000000 \<le> 2 ^ 62"
      using x unfolding sane_time_def by simp_all linarith+
    then show ?thesis by (simp add: in_int64_def unixToInternal_def)
  qed
  have "s div 1000000000 \<le> t div 1000000000" using assms(3) by (rule zdiv_mono1) simp
  then have "to_Unix s \<le> to_Unix t" using r [OF assms(1)] r [OF assms(2)] by (simp add: to_Unix_def wrap64_id)
  then show ?thesis
    unfolding expiryBucketKey_def by (intro go_div_mono) (simp_all add: to_Unix_def wrap64_in)
qed

section \<open>The loop over a store that deletes by version\<close>

locale versioned_deleter =
  fixes delete :: "'s \<Rightarrow> VersionedItem list \<Rightarrow> 's \<times> DeleteResult"
    and lookup :: "'s \<Rightarrow> string \<Rightarrow> ValueState option"
    and ok :: "'s \<Rightarrow> bool"
  assumes delete_ok: "ok s \<Longrightarrow> ok (fst (delete s items))"
    and delete_lookup: "ok s \<Longrightarrow> lookup (fst (delete s items)) k =
      (case lookup s k of None \<Rightarrow> None
       | Some st \<Rightarrow> if \<lparr>vi_ItemID = k, vi_ValueVersion = vs_ValueVersion st\<rparr> \<in> set items then None else Some st)"
    and delete_counts: "ok s \<Longrightarrow> dr_Deleted (snd (delete s items)) + dr_Stale (snd (delete s items))
      + dr_NotFound (snd (delete s items)) = length items"
begin

definition names :: "ExpiryEntry multiset \<Rightarrow> string \<Rightarrow> ValueState \<Rightarrow> bool" where
  "names gone k st \<longleftrightarrow> (\<exists>e \<in># gone. ee_ItemID e = k \<and> ee_ValueVersion e = vs_ValueVersion st)"

definition purged :: "ExpiryEntry multiset \<Rightarrow> 's \<Rightarrow> 's \<Rightarrow> bool" where
  "purged gone s s' \<longleftrightarrow> ok s' \<and> (\<forall>k. lookup s' k =
     (case lookup s k of None \<Rightarrow> None | Some st \<Rightarrow> if names gone k st then None else Some st))"

definition run_inv :: "time \<Rightarrow> ExpiryWheel \<Rightarrow> 's \<Rightarrow> ExpiryEntry multiset \<Rightarrow> 's ExpireRun \<Rightarrow> bool" where
  "run_inv now w0 s0 gone run \<longleftrightarrow>
     wheel_inv (er_wheel run) \<and> wheel_entries (er_wheel run) + gone = wheel_entries w0
     \<and> (\<forall>e \<in># gone. \<not> ee_ExpireAt e > now) \<and> purged gone s0 (er_store run)
     \<and> ex_Deleted (er_result run) + ex_Stale (er_result run) + ex_NotFound (er_result run) = size gone
     \<and> ew_maxEntriesPerRun (er_wheel run) = ew_maxEntriesPerRun w0
     \<and> ex_Processed (er_result run) \<le> ew_maxEntriesPerRun w0
     \<and> size gone \<le> ex_Processed (er_result run)"

text \<open>While a bucket is being scanned, what lies behind the unscanned entries is not due.\<close>

definition scan_inv :: "time \<Rightarrow> 's ExpireRun \<Rightarrow> bool" where
  "scan_inv now run \<longleftrightarrow> er_hasActive run \<longrightarrow>
     ew_keys (er_wheel run) \<noteq> [] \<and> hd (ew_keys (er_wheel run)) = er_activeKey run
     \<and> 0 < er_activeRemaining run
     \<and> (\<forall>es. mget (ew_buckets (er_wheel run)) (er_activeKey run) = Some es \<longrightarrow>
          er_activeRemaining run \<le> length es \<and> (\<forall>e \<in> set (drop (er_activeRemaining run) es). ee_ExpireAt e > now))"

text \<open>The root's bucket has been scanned and nothing in it is due.\<close>

definition scan_done :: "time \<Rightarrow> 's ExpireRun \<Rightarrow> bool" where
  "scan_done now run \<longleftrightarrow>
     ew_keys (er_wheel run) \<noteq> [] \<and> hd (ew_keys (er_wheel run)) \<le> expiryBucketKey now
     \<and> (\<forall>es. mget (ew_buckets (er_wheel run)) (hd (ew_keys (er_wheel run))) = Some es
          \<longrightarrow> (\<forall>e \<in> set es. ee_ExpireAt e > now))"

lemma purged_delete:
  assumes "purged gone s0 s" and "ok s"
  shows "purged (gone + mset (filter (\<lambda>e. \<not> ee_ExpireAt e > now) batch)) s0 (fst (delete s (expired_items now batch)))"
proof -
  have item: "\<lparr>vi_ItemID = k, vi_ValueVersion = v\<rparr> \<in> set (expired_items now batch)
      \<longleftrightarrow> (\<exists>e \<in># mset (filter (\<lambda>e. \<not> ee_ExpireAt e > now) batch). ee_ItemID e = k \<and> ee_ValueVersion e = v)" for k v
    by (auto simp: expired_items_def)
  show ?thesis
    using assms delete_ok [OF assms(2)] unfolding purged_def delete_lookup [OF assms(2)] item
    by (auto simp: names_def split: option.split)
qed

lemma batch_inv:
  assumes inv: "run_inv now w0 s0 gone run" and keys: "ew_keys (er_wheel run) \<noteq> []"
    and key: "key = hd (ew_keys (er_wheel run))" "key \<le> expiryBucketKey now"
    and bucket: "mget (ew_buckets (er_wheel run)) key = Some es" "es \<noteq> []"
    and active: "0 < ar" "ar \<le> length es" "\<And>e. e \<in> set (drop ar es) \<Longrightarrow> ee_ExpireAt e > now"
    and budget: "ex_Processed (er_result run) < ew_maxEntriesPerRun (er_wheel run)"
    and batch: "expire_batch delete now key es ar run = (run', goon)"
  shows "\<exists>gone'. run_inv now w0 s0 gone' run' \<and> (goon \<longrightarrow> scan_inv now run') \<and> (\<not> goon \<longrightarrow> scan_done now run')"
proof -
  define n where "n = batch_size run ar es"
  define left where "left = left_over now n es"
  define out where "out = due_part now n es"
  note f = expire_batch_fields [OF batch, folded n_def, folded left_def out_def]
  let ?w = "er_wheel run"
  let ?w1 = "?w\<lparr>ew_buckets := mput key left (ew_buckets ?w), ew_pendingEntries := ew_pendingEntries ?w - int (size (mset out))\<rparr>"
  let ?gone = "gone + mset out"
  have i: "wheel_inv ?w" "wheel_entries ?w + gone = wheel_entries w0" "\<forall>e \<in># gone. \<not> ee_ExpireAt e > now"
    "purged gone s0 (er_store run)"
    "ex_Deleted (er_result run) + ex_Stale (er_result run) + ex_NotFound (er_result run) = size gone"
    "ew_maxEntriesPerRun ?w = ew_maxEntriesPerRun w0" "size gone \<le> ex_Processed (er_result run)"
    using inv by (simp_all add: run_inv_def)
  have ok: "ok (er_store run)" using i(4) by (simp add: purged_def)
  have nn: "n \<le> ar" "n \<le> ew_maxEntriesPerRun ?w - ex_Processed (er_result run)" "n \<le> length es"
    by (auto simp: n_def batch_size_def)
  have split: "mset left + mset out = mset es" by (simp add: left_def out_def left_over_split)
  have wheel: "wheel_inv (er_wheel run')" "wheel_entries (er_wheel run') + mset out = wheel_entries ?w"
  proof -
    have "wheel_inv (er_wheel run') \<and> wheel_entries (er_wheel run') + mset out = wheel_entries ?w"
    proof (cases "left = []")
      case True
      then have o: "mset out = mset es" using split by simp
      show ?thesis
        using root_bucket_drop [OF i(1) keys bucket(1) [unfolded key(1)]] unfolding f(1) if_P [OF True] o size_mset
        by (simp add: True key(1))
    next
      case False
      from root_bucket_put [OF i(1) bucket(1) split False] show ?thesis unfolding f(1) if_not_P [OF False] by blast
    qed
    then show "wheel_inv (er_wheel run')" "wheel_entries (er_wheel run') + mset out = wheel_entries ?w" by blast+
  qed
  have store: "purged ?gone s0 (er_store run')"
  proof (cases "out = []")
    case True
    then show ?thesis using i(4) by (simp add: f(6))
  next
    case False
    then show ?thesis
      using purged_delete [OF i(4) ok, of now "take n es"] by (simp add: f(6) out_def due_part_def)
  qed
  have counts: "ex_Deleted (er_result run') + ex_Stale (er_result run') + ex_NotFound (er_result run') = size ?gone"
    using i(5) delete_counts [OF ok, of "expired_items now (take n es)"] due_items [of now n es]
    by (cases "out = []") (simp_all add: f(7) out_def Let_def)
  have sz: "size (mset out) \<le> n"
    unfolding out_def due_part_def by (metis length_filter_le length_take min.bounded_iff size_mset)
  note proc = expire_batch_budget(2,3) [OF batch, folded n_def]
  have total: "wheel_entries (er_wheel run') + ?gone = wheel_entries w0"
    using wheel(2) i(2) by (metis add.assoc add.commute)
  have due: "\<forall>e \<in># ?gone. \<not> ee_ExpireAt e > now" using i(3) by (auto simp: out_def due_part_def)
  have bounds: "ex_Processed (er_result run') \<le> ew_maxEntriesPerRun w0" "size ?gone \<le> ex_Processed (er_result run')"
    using proc(1) nn(2) budget i(6,7) sz by auto
  have "run_inv now w0 s0 ?gone run'"
    unfolding run_inv_def using wheel(1) total due store counts proc(2) i(6) bounds by simp
  moreover
  have behind: "ee_ExpireAt e > now" if "e \<in> set (drop (ar - n) left)" for e
    using left_over_behind [OF active(3) nn(1) active(2)] that unfolding left_def by blast
  have wheel': "ew_keys (er_wheel run') = ew_keys ?w" "mget (ew_buckets (er_wheel run')) key = Some left" if "left \<noteq> []"
    unfolding f(1) if_not_P [OF that] by simp_all
  have "scan_inv now run'" if goon
    unfolding scan_inv_def
  proof
    assume "er_hasActive run'"
    then have ne: "left \<noteq> []" using f(3) by blast
    then have "ar - n \<noteq> 0" using f(2) that by blast
    moreover have "ar - n \<le> length left" unfolding left_def using active(2) by (rule left_over_length)
    ultimately show "ew_keys (er_wheel run') \<noteq> [] \<and> hd (ew_keys (er_wheel run')) = er_activeKey run'
     \<and> 0 < er_activeRemaining run'
     \<and> (\<forall>es. mget (ew_buckets (er_wheel run')) (er_activeKey run') = Some es \<longrightarrow>
          er_activeRemaining run' \<le> length es \<and> (\<forall>e \<in> set (drop (er_activeRemaining run') es). ee_ExpireAt e > now))"
      unfolding f(4,5) wheel' [OF ne] using keys key(1) behind by simp
  qed
  moreover have "scan_done now run'" if "\<not> goon"
  proof -
    have ne: "left \<noteq> []" and fin: "ar - n = 0" using that f(2) by blast+
    have "\<forall>e \<in> set left. ee_ExpireAt e > now" using behind unfolding fin by simp
    then show ?thesis
      unfolding scan_done_def wheel'(1) [OF ne] key(1) [symmetric] wheel'(2) [OF ne] using keys key(2) by simp
  qed
  ultimately show ?thesis by blast
qed

lemma iter_inv:
  assumes inv: "run_inv now w0 s0 gone run" and scan: "scan_inv now run"
    and budget: "ex_Processed (er_result run) < ew_maxEntriesPerRun (er_wheel run)"
    and iter: "expire_iter delete now run = (run', goon)"
  shows "\<exists>gone'. run_inv now w0 s0 gone' run' \<and> (goon \<longrightarrow> scan_inv now run')
    \<and> (\<not> goon \<longrightarrow> scan_done now run' \<or> (\<forall>k \<in> set (ew_keys (er_wheel run')). expiryBucketKey now < k))"
proof -
  let ?w = "er_wheel run" and ?cur = "expiryBucketKey now"
  have w: "wheel_inv ?w" using inv by (simp add: run_inv_def)
  note first = firstDueBucket_inv [OF w]
  show ?thesis
  proof (cases "ew_keys ?w = [] \<or> hd (ew_keys ?w) > ?cur")
    case True
    then have "run' = run \<and> \<not> goon" using iter by (auto simp: expire_iter_def first(1))
    moreover have "?cur < k" if k: "k \<in> set (ew_keys ?w)" for k
    proof -
      obtain j where j: "j < length (ew_keys ?w)" "ew_keys ?w ! j = k" using k by (auto simp: in_set_conv_nth)
      have "\<not> ew_keys ?w ! j < ew_keys ?w ! 0"
        by (rule key_heap.heap_root_least [OF wheel_invD(2) [OF w] j(1)])
      with True j k show ?thesis by (cases "ew_keys ?w") auto
    qed
    ultimately show ?thesis using inv by blast
  next
    case False
    then have keys: "ew_keys ?w \<noteq> []" and key: "hd (ew_keys ?w) \<le> ?cur" by auto
    obtain es where es: "mget (ew_buckets ?w) (hd (ew_keys ?w)) = Some es" "es \<noteq> []"
      using first(2) [OF keys] by blast
    let ?ar = "if \<not> er_hasActive run \<or> er_activeKey run \<noteq> hd (ew_keys ?w) then length es else er_activeRemaining run"
    have ar: "0 < ?ar" "?ar \<le> length es" "\<And>e. e \<in> set (drop ?ar es) \<Longrightarrow> ee_ExpireAt e > now"
      using scan es by (auto simp: scan_inv_def split: if_splits)
    have same: "run\<lparr>er_wheel := ?w\<rparr> = run" by simp
    have "expire_batch delete now (hd (ew_keys ?w)) es ?ar run = (run', goon)"
      using iter ar(1) False es
      by (simp add: expire_iter_def first(1) Let_def same split: if_splits)
    from batch_inv [OF inv keys refl key es ar budget this] show ?thesis by blast
  qed
qed

lemma loop_inv:
  assumes "run_inv now w0 s0 gone run" and "scan_inv now run"
  shows "\<exists>gone'. run_inv now w0 s0 gone' (expire_loop delete now run)
    \<and> (ex_Processed (er_result (expire_loop delete now run)) < ew_maxEntriesPerRun w0 \<longrightarrow>
        scan_done now (expire_loop delete now run)
        \<or> (\<forall>k \<in> set (ew_keys (er_wheel (expire_loop delete now run))). expiryBucketKey now < k))"
  using assms
proof (induction "2 * budget_left run + (if er_hasActive run then 1 else 0 :: nat)" arbitrary: run gone rule: less_induct)
  case less
  have max: "ew_maxEntriesPerRun (er_wheel run) = ew_maxEntriesPerRun w0" using less.prems(1) by (simp add: run_inv_def)
  show ?case
  proof (cases "ex_Processed (er_result run) < ew_maxEntriesPerRun (er_wheel run)")
    case False
    then have "expire_loop delete now run = run" by (subst expire_loop.simps) simp
    then show ?thesis using less.prems(1) False max by auto
  next
    case True
    obtain run' goon where iter: "expire_iter delete now run = (run', goon)" by (cases "expire_iter delete now run")
    have loop: "expire_loop delete now run = (if goon then expire_loop delete now run' else run')"
      using True iter by (subst expire_loop.simps) simp
    obtain gone' where g: "run_inv now w0 s0 gone' run'" "goon \<longrightarrow> scan_inv now run'"
      "\<not> goon \<longrightarrow> scan_done now run' \<or> (\<forall>k \<in> set (ew_keys (er_wheel run')). expiryBucketKey now < k)"
      using iter_inv [OF less.prems True iter] by blast
    show ?thesis
    proof (cases goon)
      case False
      then show ?thesis using g loop by auto
    next
      case goes: True
      have "2 * budget_left run' + (if er_hasActive run' then 1 else 0 :: nat)
          < 2 * budget_left run + (if er_hasActive run then 1 else 0)"
        using expire_iter_budget [of run delete now run'] iter goes True by (simp add: budget_left_def)
      from less.hyps [OF this g(1)] g(2) goes loop show ?thesis by simp
    qed
  qed
qed

lemma not_due_beyond:
  assumes inv: "wheel_inv w" and sane: "sane_time now" "\<And>e. e \<in># wheel_entries w \<Longrightarrow> sane_time (ee_ExpireAt e)"
    and beyond: "\<And>k es. mget (ew_buckets w) k = Some es \<Longrightarrow> expiryBucketKey now < k \<or> (\<forall>e \<in> set es. now < ee_ExpireAt e)"
    and e: "e \<in># wheel_entries w"
  shows "now < ee_ExpireAt e"
proof (rule ccontr)
  assume due: "\<not> now < ee_ExpireAt e"
  note i = wheel_invD [OF inv]
  obtain k es where k: "mget (ew_buckets w) k = Some es" "e \<in> set es"
    using e bucket_entries_in [OF i(1)] by (auto simp: wheel_entries_def)
  have "expiryBucketKey (ee_ExpireAt e) \<le> expiryBucketKey now"
    using due sane(2) [OF e] sane(1) by (intro expiryBucketKey_mono) auto
  with beyond [OF k(1)] k(2) i(6) [OF k] due show False by auto
qed

lemma scan_done_beyond:
  assumes inv: "wheel_inv (er_wheel run)" and fin: "scan_done now run"
    and sane: "sane_time now" "\<And>e. e \<in># wheel_entries (er_wheel run) \<Longrightarrow> sane_time (ee_ExpireAt e)"
    and k: "mget (ew_buckets (er_wheel run)) k = Some es"
  shows "expiryBucketKey now < k \<or> (\<forall>e \<in> set es. now < ee_ExpireAt e)"
proof (cases "k = hd (ew_keys (er_wheel run))")
  case True
  then show ?thesis using fin k by (simp add: scan_done_def)
next
  case False
  let ?w = "er_wheel run"
  let ?r = "hd (ew_keys ?w)"
  note i = wheel_invD [OF inv]
  have keys: "ew_keys ?w \<noteq> []" and r: "?r \<le> expiryBucketKey now" using fin by (simp_all add: scan_done_def)
  obtain b where b: "mget (ew_buckets ?w) ?r = Some b" "b \<noteq> []" using firstDueBucket_inv(2) [OF inv keys] by blast
  obtain e where e: "e \<in> set b" using b(2) by (meson list.set_sel(1))
  have ew: "e \<in># wheel_entries ?w" using bucket_entries_in [OF i(1)] b(1) e by (auto simp: wheel_entries_def)
  have "now < ee_ExpireAt e" using fin b(1) e by (simp add: scan_done_def)
  then have "expiryBucketKey now \<le> ?r"
    using expiryBucketKey_mono [OF sane(1) sane(2) [OF ew]] i(6) [OF b(1) e] by simp
  moreover have "k \<in> set (ew_keys ?w)" unfolding i(4) by (rule mget_in [OF k])
  then obtain j where j: "j < length (ew_keys ?w)" "ew_keys ?w ! j = k" by (auto simp: in_set_conv_nth)
  then have "\<not> k < ?r" using key_heap.heap_root_least [OF i(2) j(1)] keys by (simp add: hd_conv_nth)
  ultimately show ?thesis using False by linarith
qed

lemma ExpireDue_correct:
  assumes w: "wheel_inv w" and s: "ok s" and run: "ExpireDue delete now w (Some s) = (w', s', res)"
  shows "\<exists>gone st'. s' = Some st' \<and> wheel_inv w' \<and> wheel_entries w' + gone = wheel_entries w
    \<and> (\<forall>e \<in># gone. ee_ExpireAt e \<le> now) \<and> purged gone s st'
    \<and> ex_Deleted res + ex_Stale res + ex_NotFound res = size gone
    \<and> size gone \<le> ex_Processed res \<and> ex_Processed res \<le> ew_maxEntriesPerRun w
    \<and> ex_PendingEntries res = int (size (wheel_entries w'))
    \<and> (\<not> ex_Limited res \<and> sane_time now \<and> (\<forall>e \<in># wheel_entries w. sane_time (ee_ExpireAt e))
         \<longrightarrow> (\<forall>e \<in># wheel_entries w'. now < ee_ExpireAt e))"
proof -
  let ?start = "\<lparr>er_wheel = w, er_store = s, er_result = emptyExpiryResult, er_activeKey = 0,
                  er_activeRemaining = 0, er_hasActive = False\<rparr>"
  let ?run = "expire_loop delete now ?start" and ?cur = "expiryBucketKey now"
  have "purged {#} s s" using s by (auto simp: purged_def names_def split: option.split)
  then have "run_inv now w s {#} ?start" using w by (simp add: run_inv_def emptyExpiryResult_def)
  moreover have "scan_inv now ?start" by (simp add: scan_inv_def)
  ultimately obtain gone where g: "run_inv now w s gone ?run"
    and fin: "ex_Processed (er_result ?run) < ew_maxEntriesPerRun w \<Longrightarrow>
        scan_done now ?run \<or> (\<forall>k \<in> set (ew_keys (er_wheel ?run)). ?cur < k)"
    using loop_inv by blast
  have wi: "wheel_inv (er_wheel ?run)" and max: "ew_maxEntriesPerRun (er_wheel ?run) = ew_maxEntriesPerRun w"
    and le: "ex_Processed (er_result ?run) \<le> ew_maxEntriesPerRun w"
    and ent: "wheel_entries (er_wheel ?run) + gone = wheel_entries w"
    using g by (simp_all add: run_inv_def)
  let ?limited = "ex_Processed (er_result ?run) = ew_maxEntriesPerRun w
      \<and> \<not> (ew_keys (er_wheel ?run) = [] \<or> hd (ew_keys (er_wheel ?run)) > ?cur)"
  have out: "w' = updateLastProcessed ?cur (er_wheel ?run)" "s' = Some (er_store ?run)"
    "res = fillResult now w' ((er_result ?run)\<lparr>ex_Limited := ?limited\<rparr>)"
    using run by (auto simp: ExpireDue_def Let_def max firstDueBucket_inv(1) [OF wi] split: if_splits prod.splits)
  have frame: "ew_buckets w' = ew_buckets (er_wheel ?run)" "ew_keys w' = ew_keys (er_wheel ?run)"
    "ew_pendingEntries w' = ew_pendingEntries (er_wheel ?run)"
    by (simp_all add: out(1) updateLastProcessed_def Let_def)
  have ent': "wheel_entries w' = wheel_entries (er_wheel ?run)" by (simp add: wheel_entries_def frame)
  have inv': "wheel_inv w'" using wi by (simp add: wheel_inv_def frame ent')
  have beyond: "?cur < k" if lim: "\<not> ?limited" and scan: "\<not> scan_done now ?run" and k: "k \<in> set (ew_keys (er_wheel ?run))" for k
  proof (cases "ex_Processed (er_result ?run) < ew_maxEntriesPerRun w")
    case True
    then show ?thesis using fin scan k by blast
  next
    case False
    then have "hd (ew_keys (er_wheel ?run)) > ?cur" using lim k le by auto
    obtain j where j: "j < length (ew_keys (er_wheel ?run))" "ew_keys (er_wheel ?run) ! j = k"
      using k by (auto simp: in_set_conv_nth)
    have "\<not> k < hd (ew_keys (er_wheel ?run))"
      using key_heap.heap_root_least [OF wheel_invD(2) [OF wi] j(1)] j by (metis hd_conv_nth less_nat_zero_code list.size(3))
    with \<open>hd (ew_keys (er_wheel ?run)) > ?cur\<close> show ?thesis by linarith
  qed
  have due: "now < ee_ExpireAt e" if lim: "\<not> ?limited" and sane: "sane_time now" "\<forall>e \<in># wheel_entries w. sane_time (ee_ExpireAt e)"
    and e: "e \<in># wheel_entries w'" for e
  proof (rule not_due_beyond [OF wi sane(1)])
    show sane': "\<And>e. e \<in># wheel_entries (er_wheel ?run) \<Longrightarrow> sane_time (ee_ExpireAt e)"
      using sane(2) ent by (metis UnI1 set_mset_union)
    show "?cur < k \<or> (\<forall>e \<in> set es. now < ee_ExpireAt e)" if b: "mget (ew_buckets (er_wheel ?run)) k = Some es" for k es
    proof (cases "scan_done now ?run")
      case True
      show ?thesis by (rule scan_done_beyond [OF wi True sane(1) sane' b])
    next
      case False
      have "k \<in> set (ew_keys (er_wheel ?run))" unfolding wheel_invD(4) [OF wi] by (rule mget_in [OF b])
      then show ?thesis using beyond [OF lim False] by blast
    qed
    show "e \<in># wheel_entries (er_wheel ?run)" using e by (simp add: ent')
  qed
  have fields: "ex_Deleted res = ex_Deleted (er_result ?run)" "ex_Stale res = ex_Stale (er_result ?run)"
    "ex_NotFound res = ex_NotFound (er_result ?run)" "ex_Processed res = ex_Processed (er_result ?run)"
    "ex_Limited res \<longleftrightarrow> ?limited" "ex_PendingEntries res = ew_pendingEntries w'"
    by (simp_all add: out(3) fillResult_def)
  show ?thesis
    using g inv' ent due wheel_invD(7) [OF inv'] unfolding fields out(2) ent'
    by (intro exI [of _ gone] exI [of _ "er_store ?run"]) (auto simp: run_inv_def not_less ent' [symmetric])
qed

end

end
