(* ===== verification/Cache_Expiry.thy ===== *)
theory Cache_Expiry
  imports Expiry_Wheel Cache_Reach
begin

text \<open>
  The value cache and its expiry wheel together: the cache provides the store the wheel deletes from
  (interpretation \<open>expiring\<close>), every value a batch writes is registered, and so every entry of the cache
  stays registered in the wheel until it is deleted.
\<close>

lemma delete_versioned_total:
  assumes "cache_inv fp c" and "DeleteVersioned fp c items reason = (c', res)"
  shows "dr_Deleted res + dr_Stale res + dr_NotFound res = length items"
proof -
  let ?sum = "\<lambda>r :: DeleteResult. dr_Deleted r + dr_Stale r + dr_NotFound r"
  have step: "?sum (fst (snd (astep vi_ItemID delete_versioned_act x (m, r)))) = Suc (?sum (fst r))" for x m r
    by (cases r) (auto simp: astep_def delete_versioned_act_def split: option.split)
  have "?sum (fst (snd (fold (astep vi_ItemID delete_versioned_act) xs (m, r)))) = ?sum (fst r) + length xs" for xs m r
  proof (induction xs arbitrary: m r)
    case (Cons x xs)
    obtain m1 r1 where 1: "astep vi_ItemID delete_versioned_act x (m, r) = (m1, r1)"
      by (cases "astep vi_ItemID delete_versioned_act x (m, r)")
    with Cons.IH [of m1 r1] step [of x m r] show ?case by simp
  qed simp
  note this [of "by_shard fp c vi_ItemID items" "contents fp c" "(newDeleteResult reason, vc_entries c)",
      unfolded DeleteVersioned_sim(1) [OF assms]]
  moreover have "length (by_shard fp c vi_ItemID items) = length items"
    using shardIndex_less [OF cache_invD(1) [OF assms(1)]] by (intro length_grouped)
  ultimately show ?thesis by (simp add: newDeleteResult_def)
qed

lemma runs_to_registrar: "runs_to fp c c' \<Longrightarrow> vc_hasRegistrar c' = vc_hasRegistrar c"
  by (auto simp: runs_to_def)

interpretation expiring: versioned_deleter "\<lambda>c items. DeleteVersioned fp c items DeleteExpired" "contents fp"
    "\<lambda>c. cache_inv fp c \<and> vc_hasRegistrar c = reg \<and> vc_nextValueVersion c = V"
  for fp reg V
proof unfold_locales
  fix s items k
  assume ok: "cache_inv fp s \<and> vc_hasRegistrar s = reg \<and> vc_nextValueVersion s = V"
  then have inv: "cache_inv fp s" ..
  obtain c' res where run: "DeleteVersioned fp s items DeleteExpired = (c', res)"
    by (cases "DeleteVersioned fp s items DeleteExpired")
  show "cache_inv fp (fst (DeleteVersioned fp s items DeleteExpired))
      \<and> vc_hasRegistrar (fst (DeleteVersioned fp s items DeleteExpired)) = reg
      \<and> vc_nextValueVersion (fst (DeleteVersioned fp s items DeleteExpired)) = V"
    using DeleteVersioned_inv [OF inv run] runs_to_registrar [OF DeleteVersioned_sim(2) [OF inv run]]
      DeleteVersioned_sim(3) [OF inv run] run ok by simp
  show "contents fp (fst (DeleteVersioned fp s items DeleteExpired)) k =
      (case contents fp s k of None \<Rightarrow> None
       | Some st \<Rightarrow> if \<lparr>vi_ItemID = k, vi_ValueVersion = vs_ValueVersion st\<rparr> \<in> set items then None else Some st)"
    using DeleteVersioned_contents [OF inv run] run by simp
  show "dr_Deleted (snd (DeleteVersioned fp s items DeleteExpired)) + dr_Stale (snd (DeleteVersioned fp s items DeleteExpired))
      + dr_NotFound (snd (DeleteVersioned fp s items DeleteExpired)) = length items"
    using delete_versioned_total [OF inv run] run by simp
qed

definition entry_of :: "string \<Rightarrow> ValueState \<Rightarrow> ExpiryEntry" where
  "entry_of k st = \<lparr>ee_ItemID = k, ee_ValueVersion = vs_ValueVersion st, ee_ExpireAt = vs_ExpireAt st\<rparr>"

text \<open>The wheel tracks the cache: every entry is registered under its version, and a registration of a version
  that is still in the cache has the entry's expiry.\<close>

definition tracks :: "(string \<Rightarrow> 64 word) \<Rightarrow> ValueCache \<Rightarrow> ExpiryEntry multiset \<Rightarrow> bool" where
  "tracks fp c es \<longleftrightarrow> (\<forall>k st. contents fp c k = Some st \<longrightarrow> entry_of k st \<in># es)
     \<and> (\<forall>e \<in># es. ee_ValueVersion e \<le> vc_nextValueVersion c
          \<and> (\<forall>st. contents fp c (ee_ItemID e) = Some st \<longrightarrow> vs_ValueVersion st = ee_ValueVersion e
               \<longrightarrow> ee_ExpireAt e = vs_ExpireAt st))"

definition registered :: "(string \<Rightarrow> 64 word) \<Rightarrow> ValueCache \<Rightarrow> ExpiryWheel \<Rightarrow> bool" where
  "registered fp c w \<longleftrightarrow> tracks fp c (wheel_entries w)"

text \<open>Operations that keep or remove entries but never write a version keep what is registered.\<close>

lemma tracks_subset:
  assumes "tracks fp c es" and "vc_nextValueVersion c' = vc_nextValueVersion c"
    and old: "\<And>k st. contents fp c' k = Some st \<Longrightarrow> \<exists>old. contents fp c k = Some old
      \<and> vs_ValueVersion st = vs_ValueVersion old \<and> vs_ExpireAt st = vs_ExpireAt old"
  shows "tracks fp c' es"
  unfolding tracks_def
proof (intro conjI allI impI ballI)
  fix k st
  assume "contents fp c' k = Some st"
  from old [OF this] obtain old where "contents fp c k = Some old" "entry_of k st = entry_of k old"
    by (auto simp: entry_of_def)
  with assms(1) show "entry_of k st \<in># es" by (simp add: tracks_def)
next
  fix e
  assume e: "e \<in># es"
  show "ee_ValueVersion e \<le> vc_nextValueVersion c'" using assms(1,2) e by (auto simp: tracks_def)
  fix st
  assume st: "contents fp c' (ee_ItemID e) = Some st" "vs_ValueVersion st = ee_ValueVersion e"
  from old [OF st(1)] st(2) assms(1) e show "ee_ExpireAt e = vs_ExpireAt st" by (auto simp: tracks_def)
qed

lemma ApplyBatch_old_entry:
  assumes inv: "cache_inv fp c" and comp: "batch_complete result" and ok: "batch_ok c result"
    and run: "ApplyBatch fp pf source c result (Some sn) = (c', res, expiry)"
    and st: "contents fp c' k = Some st" and old: "\<not> vc_nextValueVersion c < vs_ValueVersion st"
  shows "\<exists>old. contents fp c k = Some old \<and> vs_ValueVersion st = vs_ValueVersion old \<and> vs_ExpireAt st = vs_ExpireAt old"
proof (cases "batch_pending pf sn result k")
  case None
  then have "contents fp c k = Some st" using ApplyBatch_entry [OF inv comp ok run, of k] st by simp
  then show ?thesis by simp
next
  case (Some p)
  with ApplyBatch_entry [OF inv comp ok run, of k] obtain call version where v: "vc_nextValueVersion c < version"
    "contents fp c' k = apply_eff fp c (metadataVersionCurrent source call k (pd_metadataVersion p)) version p (contents fp c k)"
    by auto
  with st old show ?thesis by (auto simp: apply_eff_def split: option.splits if_splits)
qed

lemma ApplyBatch_registered:
  assumes inv: "cache_inv fp c" and ok: "batch_ok c result" and reg: "vc_hasRegistrar c"
    and run: "ApplyBatch fp pf source c result snapshot = (c', res, expiry)"
    and w: "wheel_inv w" and old: "registered fp c w"
  shows "registered fp c' (RegisterExpiry expiry w) \<and> vc_hasRegistrar c'"
proof (cases "batch_complete result \<and> snapshot \<noteq> None")
  case False
  then have "c' = c \<and> expiry = []"
    using run by (auto simp: ApplyBatch_def batch_complete_def Let_def split: if_splits)
  then show ?thesis using old reg by (simp add: RegisterExpiry_def)
next
  case True
  then obtain sn where comp: "batch_complete result" and sn: "snapshot = Some sn" by auto
  note run' = run [unfolded sn]
  have sum: "wheel_entries (RegisterExpiry expiry w) = wheel_entries w + mset expiry" using RegisterExpiry_inv [OF w] by blast
  have old': "tracks fp c (wheel_entries w)" using old by (simp add: registered_def)
  note entries = ApplyBatch_expiry_entries [OF inv comp ok run']
  have nxt: "vc_nextValueVersion c \<le> vc_nextValueVersion c'"
    using ApplyBatch_accounts(3) [OF inv comp ok run'] by simp
  have "tracks fp c' (wheel_entries w + mset expiry)"
    unfolding tracks_def
  proof (intro conjI allI impI ballI)
    fix k st
    assume st: "contents fp c' k = Some st"
    show "entry_of k st \<in># wheel_entries w + mset expiry"
    proof (cases "vc_nextValueVersion c < vs_ValueVersion st")
      case True
      then show ?thesis
        using ApplyBatch_registers [OF inv comp ok run' reg st] by (simp add: entry_of_def)
    next
      case False
      from ApplyBatch_old_entry [OF inv comp ok run' st False] old' show ?thesis
        by (auto simp: tracks_def entry_of_def)
    qed
  next
    fix e
    assume e: "e \<in># wheel_entries w + mset expiry"
    then show "ee_ValueVersion e \<le> vc_nextValueVersion c'"
      using old' entries [of e] nxt by (auto simp: tracks_def)
    fix st
    assume st: "contents fp c' (ee_ItemID e) = Some st" "vs_ValueVersion st = ee_ValueVersion e"
    show "ee_ExpireAt e = vs_ExpireAt st"
    proof (cases "e \<in> set expiry")
      case True
      then show ?thesis using entries [OF True] st by blast
    next
      case False
      then have e': "e \<in># wheel_entries w" using e by simp
      then have "\<not> vc_nextValueVersion c < vs_ValueVersion st" using old' st(2) by (auto simp: tracks_def)
      from ApplyBatch_old_entry [OF inv comp ok run' st(1) this] old' e' st(2) show ?thesis
        by (auto simp: tracks_def)
    qed
  qed
  moreover have "vc_hasRegistrar c'"
    using ApplyBatch_sim [OF inv comp ok run'] reg runs_to_registrar by metis
  ultimately show ?thesis by (simp add: registered_def sum)
qed

lemma MarkMiss_keeps:
  assumes "cache_inv fp c" and "MarkMiss fp c ids t = (c', res)" and "contents fp c' k = Some st"
  shows "\<exists>old. contents fp c k = Some old \<and> vs_ValueVersion st = vs_ValueVersion old \<and> vs_ExpireAt st = vs_ExpireAt old"
proof -
  have "vs_ExpireAt (fst (miss_state thr u old)) = vs_ExpireAt old \<and> vs_ValueVersion (fst (miss_state thr u old)) = vs_ValueVersion old"
    for thr u old by (simp add: miss_state_def Let_def)
  then show ?thesis using assms(3) by (auto simp: MarkMiss_contents [OF assms(1,2)] miss_eff_def split: if_splits)
qed

lemma ack_eff_keeps:
  "fold ack_eff acks (Some old) = Some st \<Longrightarrow> vs_ValueVersion st = vs_ValueVersion old \<and> vs_ExpireAt st = vs_ExpireAt old"
proof (induction acks arbitrary: old)
  case (Cons a acks)
  have "\<exists>new. ack_eff a (Some old) = Some new \<and> vs_ValueVersion new = vs_ValueVersion old \<and> vs_ExpireAt new = vs_ExpireAt old"
    by (auto simp: ack_eff_def ack_state_def Let_def)
  with Cons show ?case by fastforce
qed simp

lemma fold_ack_None: "fold ack_eff acks None = None"
  by (induction acks) (simp_all add: ack_eff_def)

lemma AckPublished_keeps:
  assumes "cache_inv fp c" and "AckPublished fp c acks = (c', res)" and "contents fp c' k = Some st"
  shows "\<exists>old. contents fp c k = Some old \<and> vs_ValueVersion st = vs_ValueVersion old \<and> vs_ExpireAt st = vs_ExpireAt old"
  using assms(3) unfolding AckPublished_contents [OF assms(1,2)]
  by (cases "contents fp c k") (auto simp: fold_ack_None dest: ack_eff_keeps)

text \<open>The cache and the wheel of one program, driven by whole operations.\<close>

inductive expiring_reachable :: "(string \<Rightarrow> 64 word) \<Rightarrow> (string \<Rightarrow> go_error + float64) \<Rightarrow> ValueCache \<Rightarrow> ExpiryWheel \<Rightarrow> bool"
  for fp pf where
  Init: "NewValueCache config = Inr c \<Longrightarrow> cc_hasRegistrar config \<Longrightarrow> NewExpiryWheel n = Inr w
    \<Longrightarrow> expiring_reachable fp pf c w"
| Batch: "expiring_reachable fp pf c w \<Longrightarrow> batch_ok c result
    \<Longrightarrow> ApplyBatch fp pf source c result snapshot = (c', res, expiry)
    \<Longrightarrow> expiring_reachable fp pf c' (RegisterExpiry expiry w)"
| Misses: "expiring_reachable fp pf c w \<Longrightarrow> MarkMiss fp c ids t = (c', miss) \<Longrightarrow> expiring_reachable fp pf c' w"
| Removal: "expiring_reachable fp pf c w \<Longrightarrow> Delete fp c ids reason = (c', del) \<Longrightarrow> expiring_reachable fp pf c' w"
| Acks: "expiring_reachable fp pf c w \<Longrightarrow> AckPublished fp c acks = (c', ackr) \<Longrightarrow> expiring_reachable fp pf c' w"
| Expire: "expiring_reachable fp pf c w
    \<Longrightarrow> ExpireDue (\<lambda>c items. DeleteVersioned fp c items DeleteExpired) now w (Some c) = (w', Some c', out)
    \<Longrightarrow> expiring_reachable fp pf c' w'"

definition expired_from :: "(string \<Rightarrow> 64 word) \<Rightarrow> ValueCache \<Rightarrow> ExpiryEntry multiset \<Rightarrow> ValueCache \<Rightarrow> bool" where
  "expired_from fp c gone c' \<longleftrightarrow> (\<forall>k. contents fp c' k = (case contents fp c k of None \<Rightarrow> None
       | Some st \<Rightarrow> if \<exists>e \<in># gone. ee_ItemID e = k \<and> ee_ValueVersion e = vs_ValueVersion st then None else Some st))"

lemma ExpireDue_cache:
  assumes inv: "cache_inv fp c" "wheel_inv w"
    and run: "ExpireDue (\<lambda>c items. DeleteVersioned fp c items DeleteExpired) now w (Some c) = (w', Some c', out)"
  shows "\<exists>gone. (cache_inv fp c' \<and> wheel_inv w' \<and> vc_hasRegistrar c' = vc_hasRegistrar c
      \<and> vc_nextValueVersion c' = vc_nextValueVersion c)
    \<and> wheel_entries w' + gone = wheel_entries w \<and> (\<forall>e \<in># gone. ee_ExpireAt e \<le> now)
    \<and> expired_from fp c gone c'
    \<and> (ex_Deleted out + ex_Stale out + ex_NotFound out = size gone \<and> size gone \<le> ex_Processed out
        \<and> ex_Processed out \<le> ew_maxEntriesPerRun w \<and> ex_PendingEntries out = int (size (wheel_entries w')))
    \<and> (\<not> ex_Limited out \<and> sane_time now \<and> (\<forall>e \<in># wheel_entries w. sane_time (ee_ExpireAt e))
         \<longrightarrow> (\<forall>e \<in># wheel_entries w'. now < ee_ExpireAt e))"
proof -
  have ok: "cache_inv fp c \<and> vc_hasRegistrar c = vc_hasRegistrar c \<and> vc_nextValueVersion c = vc_nextValueVersion c"
    using inv(1) by simp
  from expiring.ExpireDue_correct [OF inv(2) ok run] obtain gone where g: "wheel_inv w'"
    "wheel_entries w' + gone = wheel_entries w" "\<forall>e \<in># gone. ee_ExpireAt e \<le> now"
    "expiring.purged fp (vc_hasRegistrar c) (vc_nextValueVersion c) gone c c'"
    "ex_Deleted out + ex_Stale out + ex_NotFound out = size gone" "size gone \<le> ex_Processed out"
    "ex_Processed out \<le> ew_maxEntriesPerRun w" "ex_PendingEntries out = int (size (wheel_entries w'))"
    "\<not> ex_Limited out \<and> sane_time now \<and> (\<forall>e \<in># wheel_entries w. sane_time (ee_ExpireAt e))
         \<longrightarrow> (\<forall>e \<in># wheel_entries w'. now < ee_ExpireAt e)"
    by auto
  note p = g(4) [unfolded expiring.purged_def expiring.names_def]
  have kept: "expired_from fp c gone c'" unfolding expired_from_def using p by (rule conjunct2)
  have state: "cache_inv fp c'" "vc_hasRegistrar c' = vc_hasRegistrar c" "vc_nextValueVersion c' = vc_nextValueVersion c"
    using conjunct1 [OF p] by blast+
  show ?thesis
    by (rule exI [of _ gone], intro conjI) (fact state kept g)+
qed

lemma ExpireDue_registered:
  assumes inv: "cache_inv fp c" "wheel_inv w" and reg: "registered fp c w"
    and run: "ExpireDue (\<lambda>c items. DeleteVersioned fp c items DeleteExpired) now w (Some c) = (w', Some c', out)"
  shows "cache_inv fp c' \<and> wheel_inv w' \<and> registered fp c' w' \<and> vc_hasRegistrar c' = vc_hasRegistrar c"
proof -
  from ExpireDue_cache [OF inv run] obtain gone where
    g: "cache_inv fp c' \<and> wheel_inv w' \<and> vc_hasRegistrar c' = vc_hasRegistrar c
      \<and> vc_nextValueVersion c' = vc_nextValueVersion c"
    "wheel_entries w' + gone = wheel_entries w" "expired_from fp c gone c'"
    by (elim exE conjE) (rule that, blast+)
  have next_eq: "vc_nextValueVersion c' = vc_nextValueVersion c" using g(1) by blast
  note kept = g(3) [unfolded expired_from_def, rule_format]
  have "\<exists>old. contents fp c k = Some old \<and> vs_ValueVersion st = vs_ValueVersion old \<and> vs_ExpireAt st = vs_ExpireAt old"
    if "contents fp c' k = Some st" for k st
    using that by (auto simp: kept split: option.splits if_splits)
  with reg have t: "tracks fp c' (wheel_entries w)" unfolding registered_def by (rule tracks_subset [OF _ next_eq])
  have "tracks fp c' (wheel_entries w')"
    unfolding tracks_def
  proof (intro conjI allI impI ballI)
    fix k st
    assume st: "contents fp c' k = Some st"
    then have "entry_of k st \<in># wheel_entries w' + gone" using t by (simp add: tracks_def g(2))
    moreover have "entry_of k st \<notin># gone"
      using st by (auto simp: kept entry_of_def split: option.splits if_splits)
    ultimately show "entry_of k st \<in># wheel_entries w'" by simp
  next
    fix e
    assume "e \<in># wheel_entries w'"
    then have e: "e \<in># wheel_entries w" by (simp add: g(2) [symmetric])
    then show "ee_ValueVersion e \<le> vc_nextValueVersion c'" using t by (simp add: tracks_def)
    fix st
    assume "contents fp c' (ee_ItemID e) = Some st" "vs_ValueVersion st = ee_ValueVersion e"
    then show "ee_ExpireAt e = vs_ExpireAt st" using t e by (auto simp: tracks_def)
  qed
  with g(1) show ?thesis by (simp add: registered_def)
qed

lemma expiring_inv:
  "expiring_reachable fp pf c w \<Longrightarrow> cache_inv fp c \<and> wheel_inv w \<and> registered fp c w \<and> vc_hasRegistrar c"
proof (induction rule: expiring_reachable.induct)
  case (Init config c n w)
  have "contents fp c k = None" for k
  proof -
    have "Len c = 0" using Init(1) by (auto simp: NewValueCache_def Len_def Let_def split: if_splits)
    then have "{k. Load fp c k \<noteq> None} = {}"
      using Len_entries [OF NewValueCache_inv [OF Init(1)]] flat_invD(3) [OF cache_invD(4) [OF NewValueCache_inv [OF Init(1)]]]
      by (simp add: dom_contents)
    then show ?thesis by (auto simp: Load_contents)
  qed
  moreover have "vc_hasRegistrar c" using Init(1,2) by (auto simp: NewValueCache_def Let_def split: if_splits)
  ultimately show ?case using NewValueCache_inv [OF Init(1)] new_wheel_inv [OF Init(3)] by (simp add: registered_def tracks_def)
next
  case (Batch c w result source snapshot c' res expiry)
  then show ?case
    using ApplyBatch_inv [OF _ Batch(2,3)] ApplyBatch_registered [OF _ Batch(2) _ Batch(3)] RegisterExpiry_inv by blast
next
  case (Misses c w ids t c' miss)
  then have c: "cache_inv fp c" "registered fp c w" "vc_hasRegistrar c" "wheel_inv w" by blast+
  have "registered fp c' w" using c(2) unfolding registered_def
    by (rule tracks_subset [OF _ MarkMiss_sim(3) [OF c(1) Misses(2)] MarkMiss_keeps [OF c(1) Misses(2)]])
  then show ?case
    using MarkMiss_inv [OF c(1) Misses(2)] runs_to_registrar [OF MarkMiss_sim(2) [OF c(1) Misses(2)]] c(3,4) by blast
next
  case (Removal c w ids reason c' del)
  then have c: "cache_inv fp c" "registered fp c w" "vc_hasRegistrar c" "wheel_inv w" by blast+
  have "registered fp c' w" using c(2) unfolding registered_def
    by (rule tracks_subset [OF _ Delete_sim(3) [OF c(1) Removal(2)]])
      (auto simp: Delete_contents [OF c(1) Removal(2)] split: if_splits)
  then show ?case
    using Delete_inv [OF c(1) Removal(2)] runs_to_registrar [OF Delete_sim(2) [OF c(1) Removal(2)]] c(3,4) by blast
next
  case (Acks c w acks c' ackr)
  then have c: "cache_inv fp c" "registered fp c w" "vc_hasRegistrar c" "wheel_inv w" by blast+
  have "registered fp c' w" using c(2) unfolding registered_def
    by (rule tracks_subset [OF _ AckPublished_sim(3) [OF c(1) Acks(2)] AckPublished_keeps [OF c(1) Acks(2)]])
  then show ?case
    using AckPublished_inv [OF c(1) Acks(2)] runs_to_registrar [OF AckPublished_sim(2) [OF c(1) Acks(2)]] c(3,4) by blast
next
  case (Expire c w now w' c' out)
  then have c: "cache_inv fp c" "registered fp c w" "vc_hasRegistrar c" "wheel_inv w" by blast+
  show ?case using ExpireDue_registered [OF c(1,4,2) Expire(2)] c(3) by blast
qed

end
