(* ===== verification/Expiry_Properties.thy ===== *)
theory Expiry_Properties
  imports Cache_Expiry
begin

text \<open>
  The properties of the cache and its expiry wheel working together, on every pair of states the program's
  operations reach.
\<close>

abbreviation expire_now :: "(string \<Rightarrow> 64 word) \<Rightarrow> time \<Rightarrow> ExpiryWheel \<Rightarrow> ValueCache
    \<Rightarrow> ExpiryWheel \<times> ValueCache option \<times> ExpiryResult" where
  "expire_now fp now w c \<equiv> ExpireDue (\<lambda>c items. DeleteVersioned fp c items DeleteExpired) now w (Some c)"

lemma expire_now_cases:
  assumes reach: "expiring_reachable fp pf c w" and run: "expire_now fp now w c = (w', Some c', out)"
  obtains gone where "wheel_inv w'" "wheel_entries w' + gone = wheel_entries w" "\<forall>e \<in># gone. ee_ExpireAt e \<le> now"
    "expired_from fp c gone c'" "ex_Deleted out + ex_Stale out + ex_NotFound out = size gone"
    "size gone \<le> ex_Processed out" "ex_Processed out \<le> ew_maxEntriesPerRun w"
    "ex_PendingEntries out = int (size (wheel_entries w'))"
    "\<not> ex_Limited out \<and> sane_time now \<and> (\<forall>e \<in># wheel_entries w. sane_time (ee_ExpireAt e))
         \<longrightarrow> (\<forall>e \<in># wheel_entries w'. now < ee_ExpireAt e)"
proof -
  have "cache_inv fp c" "wheel_inv w" using expiring_inv [OF reach] by blast+
  from ExpireDue_cache [OF this run] show thesis by (elim exE conjE) (rule that)
qed

lemma expired_from_time:
  assumes reach: "expiring_reachable fp pf c w" and sum: "wheel_entries w' + gone = wheel_entries w"
    and st: "contents fp c k = Some st" and e: "e \<in># gone" "ee_ItemID e = k" "ee_ValueVersion e = vs_ValueVersion st"
  shows "ee_ExpireAt e = vs_ExpireAt st"
proof -
  have "e \<in># wheel_entries w" using e(1) by (simp add: sum [symmetric])
  then show ?thesis using expiring_inv [OF reach] st e(2,3) by (auto simp: registered_def tracks_def)
qed

text \<open>C4: In every state a cache with a registrar and its wheel reach together, both invariants hold, every entry
  of the cache is registered in the wheel under its version and expiry, and the wheel's counter is the
  number of registrations it holds.\<close>

theorem cache_and_wheel_invariant:
  assumes "expiring_reachable fp pf c w"
  shows "cache_inv fp c \<and> wheel_inv w \<and> ew_pendingEntries w = int (size (wheel_entries w))
    \<and> (\<forall>k st. contents fp c k = Some st \<longrightarrow>
         \<lparr>ee_ItemID = k, ee_ValueVersion = vs_ValueVersion st, ee_ExpireAt = vs_ExpireAt st\<rparr> \<in># wheel_entries w)"
proof -
  note i = expiring_inv [OF assms]
  then have "wheel_inv w" by blast
  from wheel_invD(7) [OF this] i show ?thesis by (auto simp: registered_def tracks_def entry_of_def)
qed

text \<open>Expiring due entries never drops a live value and never invents one: each entry of the cache is either
  kept as it is or, only when its expiry is not after \<open>now\<close>, removed.  The three counters account for exactly
  the registrations taken out of the wheel, at most \<open>maxEntriesPerRun\<close> of which are looked at.\<close>

theorem expire_due_sound:
  assumes reach: "expiring_reachable fp pf c w" and run: "expire_now fp now w c = (w', Some c', out)"
  shows "(contents fp c' k = contents fp c k
      \<or> contents fp c' k = None \<and> (\<exists>st. contents fp c k = Some st \<and> vs_ExpireAt st \<le> now))
    \<and> ex_Deleted out + ex_Stale out + ex_NotFound out + size (wheel_entries w') = size (wheel_entries w)
    \<and> ex_Processed out \<le> ew_maxEntriesPerRun w \<and> ex_PendingEntries out = int (size (wheel_entries w'))"
proof -
  from expire_now_cases [OF reach run] obtain gone where
    sum: "wheel_entries w' + gone = wheel_entries w" and due: "\<forall>e \<in># gone. ee_ExpireAt e \<le> now"
    and kept: "expired_from fp c gone c'" and counts: "ex_Deleted out + ex_Stale out + ex_NotFound out = size gone"
    "ex_Processed out \<le> ew_maxEntriesPerRun w" "ex_PendingEntries out = int (size (wheel_entries w'))" by metis
  have "size (wheel_entries w') + size gone = size (wheel_entries w)" by (simp add: sum [symmetric])
  moreover have "contents fp c' k = contents fp c k
      \<or> contents fp c' k = None \<and> (\<exists>st. contents fp c k = Some st \<and> vs_ExpireAt st \<le> now)"
  proof (cases "contents fp c k")
    case (Some st)
    with kept expired_from_time [OF reach sum Some] due show ?thesis by (auto simp: expired_from_def)
  qed (use kept in \<open>simp add: expired_from_def\<close>)
  ultimately show ?thesis using counts by simp
qed

text \<open>C5: A run that was not cut off by its limit leaves exactly the entries that expire after \<open>now\<close>, in the cache
  and in the wheel (for times within the representable range of \<open>time.Time.Unix\<close>).\<close>

theorem expire_due_complete:
  assumes reach: "expiring_reachable fp pf c w" and run: "expire_now fp now w c = (w', Some c', out)"
    and full: "\<not> ex_Limited out"
    and sane: "sane_time now" "\<And>e. e \<in># wheel_entries w \<Longrightarrow> sane_time (ee_ExpireAt e)"
  shows "contents fp c' k = (case contents fp c k of None \<Rightarrow> None
      | Some st \<Rightarrow> if vs_ExpireAt st \<le> now then None else Some st)
    \<and> wheel_entries w' = filter_mset (\<lambda>e. now < ee_ExpireAt e) (wheel_entries w)"
proof -
  from expire_now_cases [OF reach run] obtain gone where
    sum: "wheel_entries w' + gone = wheel_entries w" and due: "\<forall>e \<in># gone. ee_ExpireAt e \<le> now"
    and kept: "expired_from fp c gone c'" and rest: "\<forall>e \<in># wheel_entries w'. now < ee_ExpireAt e"
    using full sane by metis
  have "filter_mset (\<lambda>e. now < ee_ExpireAt e) (wheel_entries w') = wheel_entries w'"
    using rest by (simp add: filter_mset_eq_conv)
  moreover have "filter_mset (\<lambda>e. now < ee_ExpireAt e) gone = {#}"
    using due by (auto simp: filter_mset_eq_conv)
  ultimately have wheel: "wheel_entries w' = filter_mset (\<lambda>e. now < ee_ExpireAt e) (wheel_entries w)"
    by (simp add: sum [symmetric])
  moreover have "contents fp c' k = (if vs_ExpireAt st \<le> now then None else Some st)"
    if st: "contents fp c k = Some st" for st
  proof (cases "vs_ExpireAt st \<le> now")
    case True
    have "entry_of k st \<in># wheel_entries w"
      using expiring_inv [OF reach] st by (auto simp: registered_def tracks_def)
    moreover have "entry_of k st \<notin># wheel_entries w'" using rest True by (auto simp: entry_of_def)
    ultimately have "entry_of k st \<in># gone" using sum by (metis union_iff)
    then have "\<exists>e \<in># gone. ee_ItemID e = k \<and> ee_ValueVersion e = vs_ValueVersion st"
      by (rule rev_bexI) (simp add: entry_of_def)
    with kept st True show ?thesis by (simp add: expired_from_def)
  next
    case False
    then have "\<not> (\<exists>e \<in># gone. ee_ItemID e = k \<and> ee_ValueVersion e = vs_ValueVersion st)"
      using expired_from_time [OF reach sum st] due by fastforce
    with kept st False show ?thesis by (simp add: expired_from_def)
  qed
  moreover have "contents fp c' k = None" if "contents fp c k = None" using kept that by (simp add: expired_from_def)
  ultimately show ?thesis by (auto split: option.split)
qed

section \<open>Witnesses\<close>

definition ex_wheel0 :: ExpiryWheel where
  "ex_wheel0 = \<lparr>ew_buckets = [], ew_keys = [], ew_pendingEntries = 0, ew_maxEntriesPerRun = 100000,
     ew_lastProcessedBucket = 0, ew_hasProcessedBucket = False\<rparr>"

definition ex_registered1 :: "ExpiryEntry list" where
  "ex_registered1 = snd (snd (ApplyBatch ex_fp ex_parse ex_source ex_cache0 ex_batch1 (Some ex_snapshot)))"

definition ex_wheel1 :: ExpiryWheel where
  "ex_wheel1 = RegisterExpiry ex_registered1 ex_wheel0"

definition ex_late :: time where "ex_late = time_Unix 2000 0"

definition ex_expired :: "ExpiryWheel \<times> ValueCache option \<times> ExpiryResult" where
  "ex_expired = expire_now ex_fp ex_late ex_wheel1 ex_cache1"

lemma ex_expiring1: "expiring_reachable ex_fp ex_parse ex_cache1 ex_wheel1"
proof -
  have "NewExpiryWheel 0 = Inr ex_wheel0" by (simp add: NewExpiryWheel_def ex_wheel0_def)
  moreover have "cc_hasRegistrar ex_config" by (simp add: ex_config_def)
  ultimately have init: "expiring_reachable ex_fp ex_parse ex_cache0 ex_wheel0"
    using expiring_reachable.Init [OF ex_cache0_new] by blast
  show ?thesis
    unfolding ex_wheel1_def ex_registered1_def ex_cache1_def
    by (rule expiring_reachable.Batch [OF init ex_batch1_ok,
        where res = "fst (snd (ApplyBatch ex_fp ex_parse ex_source ex_cache0 ex_batch1 (Some ex_snapshot)))"]) simp
qed

lemma ex_wheel1_entries: "wheel_entries ex_wheel1 =
    {#\<lparr>ee_ItemID = ''101'', ee_ValueVersion = 1, ee_ExpireAt = time_Unix 1090 5\<rparr>#}"
proof -
  have "ex_registered1 = [\<lparr>ee_ItemID = ''101'', ee_ValueVersion = 1, ee_ExpireAt = time_Unix 1090 5\<rparr>]"
    by code_simp
  moreover have "wheel_inv ex_wheel0 \<and> wheel_entries ex_wheel0 = {#}"
    by (rule new_wheel_inv [of 0]) (simp add: NewExpiryWheel_def ex_wheel0_def)
  ultimately show ?thesis using RegisterExpiry_inv by (simp add: ex_wheel1_def)
qed

lemma ex_expired_run: "expire_now ex_fp ex_late ex_wheel1 ex_cache1 =
    (fst ex_expired, Some (the (fst (snd ex_expired))), snd (snd ex_expired))"
proof -
  have "fst (snd ex_expired) \<noteq> None" by (simp add: ex_expired_def ExpireDue_def Let_def split: prod.split)
  then show ?thesis by (auto simp: ex_expired_def)
qed

lemma ex_times: "sane_time ex_late" "sane_time (time_Unix 1090 5)"
  by code_simp+

lemma ex_not_limited: "\<not> ex_Limited (snd (snd ex_expired))"
  by code_simp

lemma cache_and_wheel_invariant_witness:
  "cache_inv ex_fp ex_cache1 \<and> wheel_inv ex_wheel1
    \<and> (\<exists>st. contents ex_fp ex_cache1 ''101'' = Some st \<and> \<lparr>ee_ItemID = ''101'',
         ee_ValueVersion = vs_ValueVersion st, ee_ExpireAt = vs_ExpireAt st\<rparr> \<in># wheel_entries ex_wheel1)"
  using cache_and_wheel_invariant [OF ex_expiring1] ex_contents1(2) by blast

lemma expire_due_sound_witness:
  "ex_Deleted (snd (snd ex_expired)) + ex_Stale (snd (snd ex_expired)) + ex_NotFound (snd (snd ex_expired))
      + size (wheel_entries (fst ex_expired)) = 1"
  using expire_due_sound [OF ex_expiring1 ex_expired_run] by (simp add: ex_wheel1_entries)

lemma expire_due_complete_witness:
  "contents ex_fp (the (fst (snd ex_expired))) ''101'' = None \<and> wheel_entries (fst ex_expired) = {#}"
proof -
  have sane: "sane_time (ee_ExpireAt e)" if "e \<in># wheel_entries ex_wheel1" for e
    using that ex_times(2) by (simp add: ex_wheel1_entries)
  obtain st where st: "contents ex_fp ex_cache1 ''101'' = Some st" "vs_ExpireAt st \<le> ex_late"
  proof -
    have "map_option (\<lambda>st. vs_ExpireAt st \<le> ex_late) (Load ex_fp ex_cache1 ''101'') = Some True" by code_simp
    then show thesis using that by (auto simp: Load_contents)
  qed
  have "\<not> ex_late < time_Unix 1090 5" by code_simp
  then show ?thesis
    using expire_due_complete [OF ex_expiring1 ex_expired_run ex_not_limited ex_times(1) sane, of "''101''"] st
    by (simp add: ex_wheel1_entries)
qed

end
