(* ===== verification/Go_Strings.thy ===== *)
theory Go_Strings
  imports Go_Errors "HOL-Library.Word"
begin

text \<open>
  What the code uses of \<^verbatim>\<open>strconv\<close> and \<^verbatim>\<open>hash/fnv\<close>.  A Go string is its bytes, so a \<open>string\<close> of the model is
  a list of 8-bit characters.  \<open>FormatUint\<close> and \<open>FormatInt\<close> write a number in a base, \<open>Itoa\<close> in base ten,
  \<open>Atoi\<close> reads a decimal \<^verbatim>\<open>int\<close> with an optional sign; \<open>fnv64a\<close> is the 64-bit FNV-1a hash.
\<close>

unbundle bit_operations_syntax

definition byte_of :: "char \<Rightarrow> nat" where
  "byte_of c = of_char c"

definition fnv64a :: "nat list \<Rightarrow> 64 word" where
  "fnv64a bytes = fold (\<lambda>b h. (h XOR of_nat b) * 1099511628211) bytes 14695981039346656037"

section \<open>Writing numbers\<close>

definition digit_char :: "nat \<Rightarrow> char" where
  "digit_char d = ''0123456789abcdef'' ! d"

function format_nat :: "nat \<Rightarrow> nat \<Rightarrow> string" where
  "format_nat base n =
     (if n < base \<or> base < 2 then [digit_char n]
      else format_nat base (n div base) @ [digit_char (n mod base)])"
  by pat_completeness auto

termination
  by (relation "measure snd") auto

declare format_nat.simps [simp del]

definition FormatInt :: "int \<Rightarrow> nat \<Rightarrow> string" where
  "FormatInt x base = (if x < 0 then CHR ''-'' # format_nat base (nat (- x)) else format_nat base (nat x))"

definition FormatUint :: "64 word \<Rightarrow> nat \<Rightarrow> string" where
  "FormatUint x base = format_nat base (unat x)"

definition Itoa :: "int \<Rightarrow> string" where
  "Itoa x = FormatInt x 10"

section \<open>Reading numbers\<close>

definition is_digit :: "char \<Rightarrow> bool" where
  "is_digit c \<longleftrightarrow> 48 \<le> byte_of c \<and> byte_of c \<le> 57"

definition digits_value :: "string \<Rightarrow> nat" where
  "digits_value ds = fold (\<lambda>c v. v * 10 + (byte_of c - 48)) ds 0"

definition Atoi :: "string \<Rightarrow> go_error + int" where
  "Atoi s =
     (let neg = (s \<noteq> [] \<and> hd s = CHR ''-'');
          ds = (if s \<noteq> [] \<and> (hd s = CHR ''-'' \<or> hd s = CHR ''+'') then tl s else s) in
      if ds = [] \<or> \<not> list_all is_digit ds then Inl (ArgumentError ''invalid syntax'')
      else (let v = (if neg then - int (digits_value ds) else int (digits_value ds)) in
            if in_int64 v then Inr v else Inl (ArgumentError ''value out of range'')))"

section \<open>Injectivity\<close>

lemma digit_char_inj: "a < 16 \<Longrightarrow> b < 16 \<Longrightarrow> digit_char a = digit_char b \<Longrightarrow> a = b"
  unfolding digit_char_def by (subst (asm) nth_eq_iff_index_eq) auto

lemma digit_char_plain:
  assumes "d < 16"
  shows "digit_char d \<noteq> CHR ''-'' \<and> digit_char d \<noteq> CHR ''/''"
proof -
  have "\<forall>d \<in> set [0..<16]. digit_char d \<noteq> CHR ''-'' \<and> digit_char d \<noteq> CHR ''/''" by code_simp
  then show ?thesis using assms by simp
qed

lemma format_nat_chars:
  assumes "1 < base" "base \<le> 16"
  shows "c \<in> set (format_nat base n) \<Longrightarrow> \<exists>d < 16. c = digit_char d"
proof (induction n rule: less_induct)
  case (less n)
  show ?case
  proof (cases "n < base")
    case True
    then show ?thesis using less.prems assms by (subst (asm) format_nat.simps) (auto intro!: exI [of _ n])
  next
    case False
    then have "c \<in> set (format_nat base (n div base)) \<or> c = digit_char (n mod base)"
      using less.prems assms by (subst (asm) format_nat.simps) auto
    moreover have "n mod base < 16" using assms mod_less_divisor [of base n] by linarith
    moreover have "n div base < n" using False assms by simp
    ultimately show ?thesis using less.IH by blast
  qed
qed

lemma format_nat_plain:
  assumes "1 < base" "base \<le> 16"
  shows "CHR ''-'' \<notin> set (format_nat base n)" and "CHR ''/'' \<notin> set (format_nat base n)"
  using format_nat_chars [OF assms] digit_char_plain by metis+

lemma format_nat_ne: "format_nat base n \<noteq> []"
  by (subst format_nat.simps) simp

lemma format_nat_inj:
  assumes b: "1 < base" "base \<le> 16"
  shows "format_nat base n = format_nat base m \<Longrightarrow> n = m"
proof (induction n arbitrary: m rule: less_induct)
  case (less n)
  have dig: "k mod base < 16" for k using b mod_less_divisor [of base k] by linarith
  have unf: "format_nat base k = (if k < base then [digit_char k]
      else format_nat base (k div base) @ [digit_char (k mod base)])" for k
    using b by (subst format_nat.simps) simp
  show ?case
  proof (cases "n < base")
    case True
    then have "m < base"
      using less.prems format_nat_ne [of base] format_nat_ne [of base, THEN not_sym]
      by (cases "m < base") (auto simp: unf [of n] unf [of m])
    then show ?thesis using True less.prems digit_char_inj b by (simp add: unf [of n] unf [of m])
  next
    case False
    then have "\<not> m < base"
      using less.prems format_nat_ne [of base] format_nat_ne [of base, THEN not_sym]
      by (cases "m < base") (auto simp: unf [of n] unf [of m])
    then have "format_nat base (n div base) = format_nat base (m div base)"
        "digit_char (n mod base) = digit_char (m mod base)"
      using False less.prems by (simp_all add: unf [of n] unf [of m])
    then have "n div base = m div base" "n mod base = m mod base"
      using less.IH [of "n div base" "m div base"] False b digit_char_inj [OF dig dig]
      by simp_all
    then show ?thesis by (metis div_mult_mod_eq)
  qed
qed

lemma FormatInt_inj:
  assumes "1 < base" "base \<le> 16" and "FormatInt x base = FormatInt y base"
  shows "x = y"
proof -
  have "format_nat base n \<noteq> CHR ''-'' # s" for n s
    using format_nat_plain(1) [OF assms(1,2), of n] by (metis list.set_intros(1))
  note sign = this this [THEN not_sym]
  show ?thesis
    using assms(3) sign
    by (auto simp: FormatInt_def split: if_splits dest!: format_nat_inj [OF assms(1,2)])
qed

lemma FormatInt_no_slash:
  assumes "1 < base" "base \<le> 16"
  shows "CHR ''/'' \<notin> set (FormatInt x base)"
  using format_nat_plain(2) [OF assms] by (auto simp: FormatInt_def)

text \<open>A separator that does not occur in the last part: the parts can be read back from the right.\<close>

lemma split_last_unique:
  assumes "xs @ [c] @ ys = xs' @ [c] @ ys'" and "c \<notin> set ys" and "c \<notin> set ys'"
  shows "xs = xs' \<and> ys = ys'"
proof -
  have rev: "rev ys @ c # rev xs = rev ys' @ c # rev xs'"
    using arg_cong [OF assms(1), of rev] by simp
  have "takeWhile (\<lambda>x. x \<noteq> c) (rev zs @ c # us) = rev zs" if "c \<notin> set zs" for zs us
    using that by (subst takeWhile_append2) auto
  with rev assms(2,3) have "rev ys = rev ys'" by metis
  then show ?thesis using assms(1) by simp
qed

end
