(* ===== verification/Group_Builder.thy ===== *)
theory Group_Builder
  imports Go_Lists Go_Strings Metadata_Types
begin

text \<open>
  \<^verbatim>\<open>internal/scheduler/group.go\<close>: the items of a metadata snapshot are grouped by host, value type and
  delay, and the sorted item IDs of a group are cut into batches of bounded size.  \<open>group_key\<close> is the
  guard of the loop over the items together with the key it files the item under.  \<^verbatim>\<open>sort.Slice\<close> leaves the
  order of groups with equal IDs open; \<open>groups_distinct\<close> shows that there are none when every delay is a
  whole number of seconds, as \<^verbatim>\<open>ParseDelay\<close> makes them.
\<close>

record Batch =
  ba_ID :: string
  ba_ItemIDs :: "string list"

record Group =
  gr_ID :: string
  gr_HostID :: string
  gr_ValueType :: int
  gr_Delay :: duration
  gr_Batches :: "Batch list"
  gr_Version :: nat

definition DefaultBatchSize :: nat where "DefaultBatchSize = 50"

text \<open>A \<open>GroupBuilder\<close> is its batch size.\<close>

definition NewGroupBuilder :: "int \<Rightarrow> go_error + nat" where
  "NewGroupBuilder batchSize =
     (let batchSize = (if batchSize = 0 then int DefaultBatchSize else batchSize) in
      if batchSize < 1 then Inl (InvalidConfig ''history batch size must be positive'')
      else Inr (nat batchSize))"

type_synonym groupKey = "string \<times> int \<times> duration"

definition group_key :: "ItemMetadata \<Rightarrow> groupKey option" where
  "group_key item =
     (if \<not> im_Enabled item \<or> im_HostID item = [] \<or> im_Delay item \<le> 0 then None
      else case Atoi (im_ValueType item) of
             Inl _ \<Rightarrow> None
           | Inr valueType \<Rightarrow>
               if valueType \<noteq> 0 \<and> valueType \<noteq> 3 then None
               else Some (im_HostID item, valueType, im_Delay item))"

definition group_item :: "string \<times> ItemMetadata option \<Rightarrow> (groupKey, string list) gomap
    \<Rightarrow> (groupKey, string list) gomap" where
  "group_item entry groupItems =
     (case snd entry of
        None \<Rightarrow> groupItems
      | Some item \<Rightarrow>
          (case group_key item of
             None \<Rightarrow> groupItems
           | Some key \<Rightarrow>
               mput key ((case mget groupItems key of None \<Rightarrow> [] | Some ids \<Rightarrow> ids) @ [fst entry]) groupItems))"

definition GroupID :: "string \<Rightarrow> int \<Rightarrow> duration \<Rightarrow> string" where
  "GroupID hostID valueType delay =
     hostID @ ''/'' @ Itoa valueType @ ''/'' @ FormatInt (go_div delay Second) 10"

definition batchID :: "string \<Rightarrow> string list \<Rightarrow> string" where
  "batchID groupID itemIDs =
     groupID @ ''/batch-'' @ FormatUint (fnv64a (concat (map (\<lambda>itemID. map byte_of itemID @ [0]) itemIDs))) 16"

definition compactStrings :: "string list \<Rightarrow> string list" where
  "compactStrings values = (if length values < 2 then values else compact_adj values)"

definition build_group :: "nat \<Rightarrow> MetadataSnapshot \<Rightarrow> groupKey \<times> string list \<Rightarrow> Group" where
  "build_group batchSize snapshot entry =
     (case entry of ((hostID, valueType, delay), itemIDs) \<Rightarrow>
        let itemIDs = compactStrings (sort itemIDs);
            groupID = GroupID hostID valueType delay
        in \<lparr>gr_ID = groupID, gr_HostID = hostID, gr_ValueType = valueType, gr_Delay = delay,
            gr_Batches = map (\<lambda>ids. \<lparr>ba_ID = batchID groupID ids, ba_ItemIDs = ids\<rparr>) (chunks batchSize itemIDs),
            gr_Version = (case mptr (sn_Groups snapshot) groupID of
                            Some source \<Rightarrow> cg_Version source | None \<Rightarrow> sn_Version snapshot)\<rparr>)"

definition Build :: "nat \<Rightarrow> MetadataSnapshot option \<Rightarrow> Group list" where
  "Build batchSize snapshot =
     (case snapshot of
        None \<Rightarrow> []
      | Some snapshot \<Rightarrow>
          (let groupItems = fold group_item (sn_Items snapshot) [] in
           sort_key gr_ID (map (build_group batchSize snapshot) groupItems)))"

definition CollectionPeriod :: "duration \<Rightarrow> duration" where
  "CollectionPeriod delay = (if delay \<le> Minute then Minute else delay)"

definition StableOffset :: "string \<Rightarrow> duration \<Rightarrow> duration" where
  "StableOffset groupID window =
     (if window \<le> 0 then 0
      else uint (fnv64a (map byte_of groupID) mod word_of_int window))"

definition cloneGroup :: "Group \<Rightarrow> Group" where
  "cloneGroup g =
     g\<lparr>gr_Batches := map (\<lambda>b. \<lparr>ba_ID = ba_ID b, ba_ItemIDs = ba_ItemIDs b\<rparr>) (gr_Batches g)\<rparr>"

lemma cloneGroup_id [simp]: "cloneGroup g = g"
proof -
  have "map (\<lambda>b. \<lparr>ba_ID = ba_ID b, ba_ItemIDs = ba_ItemIDs b\<rparr>) bs = bs" for bs :: "Batch list"
    by (rule map_idI) simp
  then show ?thesis by (simp add: cloneGroup_def)
qed

section \<open>Grouping\<close>

definition items_of :: "(string \<times> ItemMetadata option) list \<Rightarrow> groupKey \<Rightarrow> string list" where
  "items_of entries key = map fst (filter (\<lambda>e. Option.bind (snd e) group_key = Some key) entries)"

definition collected :: "(string \<times> ItemMetadata option) list \<Rightarrow> string list" where
  "collected entries = map fst (filter (\<lambda>e. Option.bind (snd e) group_key \<noteq> None) entries)"

lemma group_item_eq: "group_item e m =
    (case Option.bind (snd e) group_key of None \<Rightarrow> m
     | Some key \<Rightarrow> mput key ((case mget m key of None \<Rightarrow> [] | Some ids \<Rightarrow> ids) @ [fst e]) m)"
  by (simp add: group_item_def split: option.split)

lemma group_fold:
  assumes "wf_map m"
  shows "wf_map (fold group_item es m)"
    and "mget (fold group_item es m) key =
      (if items_of es key = [] then mget m key
       else Some ((case mget m key of None \<Rightarrow> [] | Some ids \<Rightarrow> ids) @ items_of es key))"
    and "bucket_entries (fold group_item es m) = bucket_entries m + mset (collected es)"
  using assms
proof (induction es arbitrary: m)
  case Nil
  { case 1 then show ?case by simp }
  { case 2 then show ?case by (simp add: items_of_def) }
  { case 3 then show ?case by (simp add: collected_def) }
next
  case (Cons e es)
  have wf: "wf_map (group_item e m)" if "wf_map m" for m
    using that by (auto simp: group_item_eq split: option.split)
  { case 1 then show ?case using Cons.IH(1) [OF wf] by simp }
  { case 2
    have "mget (group_item e m) key = (if items_of [e] key = [] then mget m key
       else Some ((case mget m key of None \<Rightarrow> [] | Some ids \<Rightarrow> ids) @ items_of [e] key))"
      by (auto simp: group_item_eq items_of_def split: option.split)
    moreover have "items_of (e # es) key = items_of [e] key @ items_of es key" by (simp add: items_of_def)
    ultimately show ?case using Cons.IH(2) [OF wf [OF 2]] by (auto split: option.split) }
  { case 3
    have "bucket_entries (group_item e m) = bucket_entries m + mset (collected [e])"
    proof (cases "Option.bind (snd e) group_key")
      case None
      then show ?thesis by (simp add: group_item_eq collected_def)
    next
      case (Some k)
      show ?thesis
      proof (cases "mget m k")
        case None
        then show ?thesis using Some bucket_entries_new [OF None, of "[fst e]"]
            by (cases k) (simp add: group_item_eq collected_def)
      next
        case ids: (Some ids)
        then show ?thesis using Some bucket_entries_put [OF ids, of "ids @ [fst e]"]
          by (cases k) (simp add: group_item_eq collected_def)
      qed
    qed
    moreover have "mset (collected (e # es)) = mset (collected [e]) + mset (collected es)"
      by (simp add: collected_def)
    ultimately show ?case using Cons.IH(3) [OF wf [OF 3]] by simp }
qed

definition grouped_items :: "MetadataSnapshot \<Rightarrow> (groupKey, string list) gomap" where
  "grouped_items sn = fold group_item (sn_Items sn) []"

lemma grouped_items:
  shows "wf_map (grouped_items sn)"
    and "mget (grouped_items sn) key =
      (if items_of (sn_Items sn) key = [] then None else Some (items_of (sn_Items sn) key))"
    and "bucket_entries (grouped_items sn) = mset (collected (sn_Items sn))"
  using group_fold [of "[]" "sn_Items sn"] by (simp_all add: grouped_items_def bucket_entries_def)

lemma items_of_distinct: "wf_map (sn_Items sn) \<Longrightarrow> distinct (items_of (sn_Items sn) key)"
  by (simp add: items_of_def wf_map_def distinct_map_filter)

lemma build_set: "g \<in> set (Build n (Some sn)) \<longleftrightarrow> (\<exists>key ids. mget (grouped_items sn) key = Some ids
    \<and> g = build_group n sn (key, ids))"
  using wf_map_in_iff [OF grouped_items(1)] by (force simp: Build_def grouped_items_def [symmetric])

lemma compact_sorted: "compactStrings (sort ids) = remdups_adj (sort ids)"
proof (cases "length ids < 2")
  case True
  then consider "ids = []" | x where "ids = [x]" by (cases ids) (auto simp: length_Suc_conv less_2_cases_iff)
  then show ?thesis by cases (simp_all add: compactStrings_def)
qed (simp add: compactStrings_def compact_adj_eq)

lemma compact_sorted_distinct: "distinct ids \<Longrightarrow> compactStrings (sort ids) = sort ids"
  by (simp add: compact_sorted remdups_adj_distinct)

section \<open>Identifiers\<close>

lemma GroupID_inj:
  assumes "GroupID h v d = GroupID h' v' d'"
  shows "h = h' \<and> v = v' \<and> go_div d Second = go_div d' Second"
proof -
  have slash: "CHR ''/'' \<notin> set (FormatInt x 10)" for x by (rule FormatInt_no_slash) simp_all
  have "(h @ ''/'' @ Itoa v) @ [CHR ''/''] @ FormatInt (go_div d Second) 10
      = (h' @ ''/'' @ Itoa v') @ [CHR ''/''] @ FormatInt (go_div d' Second) 10"
    using assms by (simp add: GroupID_def)
  from split_last_unique [OF this slash slash]
  have 1: "h @ [CHR ''/''] @ Itoa v = h' @ [CHR ''/''] @ Itoa v'"
    and 2: "FormatInt (go_div d Second) 10 = FormatInt (go_div d' Second) 10" by simp_all
  from split_last_unique [OF 1] have "h = h'" "Itoa v = Itoa v'" using slash by (simp_all add: Itoa_def)
  then show ?thesis using 2 FormatInt_inj [of 10] by (simp add: Itoa_def)
qed

lemma StableOffset_bounds:
  assumes "0 < window" "window < 2 ^ 63"
  shows "0 \<le> StableOffset gid window \<and> StableOffset gid window < window"
proof -
  have w: "uint (word_of_int window :: 64 word) = window"
    using assms by (simp add: uint_word_of_int take_bit_int_eq_self)
  have "uint (x mod word_of_int window :: 64 word) < window" for x
    using assms by (simp add: uint_mod w)
  then show ?thesis using assms by (simp add: StableOffset_def)
qed

lemma CollectionPeriod_bounds:
  "Minute \<le> CollectionPeriod d" "d \<le> CollectionPeriod d" "d < 2 ^ 63 \<Longrightarrow> CollectionPeriod d < 2 ^ 63"
  by (auto simp: CollectionPeriod_def Minute_def)

end
