(* ===== verification/Group_Laws.thy ===== *)
theory Group_Laws
  imports Group_Builder
begin

text \<open>What the scheduler's groups hold: each bucket of the grouping is one group, and groups of whole-second
  delays have distinct IDs.\<close>

lemma chunks_items: "0 < n \<Longrightarrow> mset (concat (map ba_ItemIDs (map (\<lambda>ids. \<lparr>ba_ID = f ids, ba_ItemIDs = ids\<rparr>) (chunks n xs)))) = mset xs"
  using concat_chunks [of n xs] by (simp add: comp_def)

lemma build_group_items:
  assumes "0 < n" "distinct ids"
  shows "mset (concat (map ba_ItemIDs (gr_Batches (build_group n sn (key, ids))))) = mset ids"
  using chunks_items [OF assms(1), of _ "sort ids"]
  by (cases key) (simp add: build_group_def Let_def compact_sorted_distinct [OF assms(2)])

lemma mset_concat: "mset (concat xss) = \<Sum>\<^sub># (mset (map mset xss))"
  by (induction xss) simp_all

lemma bucket_entries_sum: "bucket_entries m = \<Sum>\<^sub># (mset (map (\<lambda>e. mset (snd e)) m))"
  by (induction m) (simp_all add: bucket_entries_def)

lemma group_buckets_distinct:
  assumes "wf_map (sn_Items sn)" "mget (grouped_items sn) key = Some ids"
  shows "distinct ids" "ids \<noteq> []" "ids = items_of (sn_Items sn) key"
  using assms items_of_distinct [OF assms(1), of key] by (auto simp: grouped_items(2) split: if_splits)

lemma group_key_delay: "group_key item = Some (h, v, d) \<Longrightarrow> d = im_Delay item"
  by (auto simp: group_key_def split: if_splits sum.splits)

text \<open>Delays as \<^verbatim>\<open>ParseDelay\<close> makes them: a whole number of seconds that fits a duration.\<close>

definition whole_delays :: "MetadataSnapshot \<Rightarrow> bool" where
  "whole_delays sn \<longleftrightarrow> (\<forall>k item. mptr (sn_Items sn) k = Some item
     \<longrightarrow> (\<exists>s. 0 \<le> s \<and> s * Second < 2 ^ 63 \<and> im_Delay item = s * Second))"

lemma groups_distinct:
  assumes wf: "wf_map (sn_Items sn)"
    and whole: "whole_delays sn"
  shows "inj_on gr_ID (set (map (build_group n sn) (grouped_items sn)))"
    and "inj_on (build_group n sn) (set (grouped_items sn))"
proof -
  have eq: "e = e'" if e: "e \<in> set (grouped_items sn)" "e' \<in> set (grouped_items sn)"
    and id: "gr_ID (build_group n sn e) = gr_ID (build_group n sn e')" for e e'
  proof -
    obtain h v d ids where k: "e = ((h, v, d), ids)" by (cases e) auto
    obtain h' v' d' ids' where k': "e' = ((h', v', d'), ids')" by (cases e') auto
    have delay: "\<exists>s. 0 \<le> s \<and> s * Second < 2 ^ 63 \<and> d = s * Second" if "((h, v, d), ids) \<in> set (grouped_items sn)" for h v d ids
    proof -
      have m: "mget (grouped_items sn) (h, v, d) = Some ids"
        using that wf_map_in_iff [OF grouped_items(1)] by blast
      note i = group_buckets_distinct [OF wf m]
      obtain x where "x \<in> set ids" using i(2) by (meson list.set_sel(1))
      then obtain p where "(x, p) \<in> set (sn_Items sn)" "Option.bind p group_key = Some (h, v, d)"
        by (auto simp: i(3) items_of_def)
      moreover then obtain item where "p = Some item" "group_key item = Some (h, v, d)" by (cases p) auto
      ultimately have "mptr (sn_Items sn) x = Some item" "d = im_Delay item"
        using wf_map_in_iff [OF wf] group_key_delay by (auto simp: mptr_def)
      then show ?thesis using whole by (auto simp: whole_delays_def)
    qed
    obtain s s' where s: "0 \<le> s" "s * Second < 2 ^ 63" "d = s * Second" "0 \<le> s'" "s' * Second < 2 ^ 63" "d' = s' * Second"
      using delay e k k' by metis
    have div: "go_div (s * Second) Second = s" if "0 \<le> s" "s * Second < 2 ^ 63" for s
      using that by (subst go_div_nonneg) (simp_all add: Second_def)
    have "GroupID h v d = GroupID h' v' d'" using id by (simp add: k k' build_group_def Let_def)
    from GroupID_inj [OF this] have "(h, v, d) = (h', v', d')" using s div by simp
    then show ?thesis using e grouped_items(1) [of sn] wf_map_in_iff [OF grouped_items(1), of _ _ sn] k k' by auto
  qed
  show "inj_on gr_ID (set (map (build_group n sn) (grouped_items sn)))"
  proof (rule inj_onI)
    fix a b
    assume "a \<in> set (map (build_group n sn) (grouped_items sn))" "b \<in> set (map (build_group n sn) (grouped_items sn))"
      and id: "gr_ID a = gr_ID b"
    then obtain e e' where "e \<in> set (grouped_items sn)" "a = build_group n sn e"
      "e' \<in> set (grouped_items sn)" "b = build_group n sn e'" by auto
    with eq [of e e'] id show "a = b" by simp
  qed
  show "inj_on (build_group n sn) (set (grouped_items sn))"
  proof (rule inj_onI)
    fix e e'
    assume "e \<in> set (grouped_items sn)" "e' \<in> set (grouped_items sn)" and "build_group n sn e = build_group n sn e'"
    with eq [of e e'] show "e = e'" by simp
  qed
qed

lemma items_of_perm: "mset es = mset es' \<Longrightarrow> mset (items_of es key) = mset (items_of es' key)"
  unfolding items_of_def by (simp only: mset_map mset_filter)

lemma grouped_perm:
  assumes "mset (sn_Items sn) = mset (sn_Items sn')"
  shows "image_mset (\<lambda>e. (fst e, sort (snd e))) (mset (grouped_items sn))
    = image_mset (\<lambda>e. (fst e, sort (snd e))) (mset (grouped_items sn'))"
proof -
  let ?s = "\<lambda>m. map (\<lambda>e. (fst e, sort (snd e))) m"
  have wf: "wf_map (?s (grouped_items sn))" for sn
    using grouped_items(1) by (simp add: wf_map_def comp_def)
  have get: "mget (?s m) k = map_option sort (mget m k)" for m :: "(groupKey, string list) gomap" and k
    by (induction m) auto
  have "mget (?s (grouped_items sn)) k = mget (?s (grouped_items sn')) k" for k
  proof -
    have p: "mset (items_of (sn_Items sn) k) = mset (items_of (sn_Items sn') k)" by (rule items_of_perm [OF assms])
    then have "sort (items_of (sn_Items sn) k) = sort (items_of (sn_Items sn') k)"
      by (metis mset_sort properties_for_sort sorted_sort)
    moreover have "items_of (sn_Items sn) k = [] \<longleftrightarrow> items_of (sn_Items sn') k = []" using p by (metis mset_zero_iff)
    ultimately show ?thesis by (simp add: get grouped_items(2))
  qed
  then have "set (?s (grouped_items sn)) = set (?s (grouped_items sn'))"
    using wf_map_in_iff [OF wf, of _ _ sn] wf_map_in_iff [OF wf, of _ _ sn'] by (intro set_eqI) (auto simp del: set_map split_paired_All)
  moreover have dist: "distinct (?s (grouped_items sn))" for sn using wf [of sn] unfolding wf_map_def distinct_map by blast
  ultimately have "mset (?s (grouped_items sn)) = mset (?s (grouped_items sn'))" 
    using set_eq_iff_mset_eq_distinct [OF dist dist] by blast
  then show ?thesis by (simp only: mset_map)
qed

end
