(* ===== verification/Group_Properties.thy ===== *)
theory Group_Properties
  imports Group_Laws
begin

text \<open>What the groups built from a snapshot hold, with a small snapshot of five items to evaluate.\<close>

text \<open>C39: Every item the scheduler may collect (enabled, on a host, with a positive delay and a numeric value type)
  is in exactly one batch of exactly one group, and no other item is in any.\<close>

theorem build_partition:
  assumes "wf_map (sn_Items sn)" and "0 < n"
  shows "mset (concat (map ba_ItemIDs (concat (map gr_Batches (Build n (Some sn))))))
    = mset (map fst (filter (\<lambda>e. Option.bind (snd e) group_key \<noteq> None) (sn_Items sn)))"
proof -
  let ?ids = "\<lambda>g. mset (concat (map ba_ItemIDs (gr_Batches g)))"
  have "mset (concat (map ba_ItemIDs (concat (map gr_Batches gs)))) = \<Sum>\<^sub># (mset (map ?ids gs))" for gs
    by (induction gs) simp_all
  then have "mset (concat (map ba_ItemIDs (concat (map gr_Batches (Build n (Some sn))))))
      = \<Sum>\<^sub># (image_mset ?ids (mset (Build n (Some sn))))" by simp
  also have "mset (Build n (Some sn)) = image_mset (build_group n sn) (mset (grouped_items sn))"
    by (simp add: Build_def grouped_items_def [symmetric])
  also have "image_mset ?ids (image_mset (build_group n sn) (mset (grouped_items sn)))
      = image_mset (\<lambda>e. mset (snd e)) (mset (grouped_items sn))"
    unfolding image_mset.compositionality comp_def
  proof (rule image_mset_cong)
    fix e
    assume e: "e \<in># mset (grouped_items sn)"
    obtain key ids where k: "e = (key, ids)" by (cases e)
    with e have "mget (grouped_items sn) key = Some ids" using wf_map_in_iff [OF grouped_items(1)] by simp
    from build_group_items [OF assms(2) group_buckets_distinct(1) [OF assms(1) this]] k
    show "?ids (build_group n sn e) = mset (snd e)" by simp
  qed
  also have "\<Sum>\<^sub># \<dots> = bucket_entries (grouped_items sn)" by (simp add: bucket_entries_sum)
  finally show ?thesis by (simp add: grouped_items(3) collected_def)
qed

text \<open>A group is never empty: its batches hold between one and \<open>n\<close> items, sorted over the whole group, and each
  item of a batch is on the group's host, with its value type and its exact delay.\<close>

theorem build_group_wellformed:
  assumes "wf_map (sn_Items sn)" and "0 < n" and "g \<in> set (Build n (Some sn))"
  shows "gr_ID g = GroupID (gr_HostID g) (gr_ValueType g) (gr_Delay g) \<and> 0 < gr_Delay g \<and> gr_Batches g \<noteq> []
    \<and> sorted (concat (map ba_ItemIDs (gr_Batches g)))
    \<and> (\<forall>b \<in> set (gr_Batches g). 0 < length (ba_ItemIDs b) \<and> length (ba_ItemIDs b) \<le> n
         \<and> ba_ID b = batchID (gr_ID g) (ba_ItemIDs b)
         \<and> (\<forall>k \<in> set (ba_ItemIDs b). \<exists>item. mptr (sn_Items sn) k = Some item
              \<and> group_key item = Some (gr_HostID g, gr_ValueType g, gr_Delay g)))"
proof -
  obtain key ids where m: "mget (grouped_items sn) key = Some ids" and g: "g = build_group n sn (key, ids)"
    using assms(3) build_set by blast
  note ids = group_buckets_distinct [OF assms(1) m]
  obtain h v d where key: "key = (h, v, d)" by (cases key)
  have item: "\<exists>item. mptr (sn_Items sn) k = Some item \<and> group_key item = Some key" if "k \<in> set ids" for k
  proof -
    from that obtain p where p: "(k, p) \<in> set (sn_Items sn)" "Option.bind p group_key = Some key"
      by (auto simp: ids(3) items_of_def)
    then obtain item where "p = Some item" "group_key item = Some key" by (cases p) auto
    moreover have "mget (sn_Items sn) k = Some p" using p(1) wf_map_in_iff [OF assms(1)] by blast
    ultimately show ?thesis by (simp add: mptr_def)
  qed
  have batches: "gr_Batches g = map (\<lambda>ids. \<lparr>ba_ID = batchID (GroupID h v d) ids, ba_ItemIDs = ids\<rparr>) (chunks n (sort ids))"
    and head: "gr_ID g = GroupID h v d" "gr_HostID g = h" "gr_ValueType g = v" "gr_Delay g = d"
    by (simp_all add: g build_group_def key Let_def compact_sorted_distinct [OF ids(1)])
  obtain k where k: "k \<in> set ids" using ids(2) by (cases ids) auto
  then have "0 < d" using item [OF k] by (auto simp: group_key_def key split: if_splits sum.splits)
  moreover have "concat (map ba_ItemIDs (gr_Batches g)) = sort ids"
    using concat_chunks [OF assms(2)] by (simp add: batches comp_def)
  moreover have "k \<in> set ids" if "b \<in> set (chunks n (sort ids))" "k \<in> set b" for b k
  proof -
    have "k \<in> set (concat (chunks n (sort ids)))" using that by auto
    then show ?thesis by (simp only: concat_chunks [OF assms(2)] set_sort)
  qed
  moreover have "gr_Batches g \<noteq> []"
    using ids(2) by (metis batches chunks_empty_iff [OF assms(2)] map_is_Nil_conv mset_sort mset_zero_iff)
  ultimately show ?thesis
    using item by (auto simp: head batches key dest: chunks_bounds)
qed

text \<open>C40: For delays of whole seconds the groups do not depend on the order Go's map iteration yields the items in: they
  come out sorted by distinct IDs.\<close>

theorem build_deterministic:
  assumes wf: "wf_map (sn_Items sn)" and perm: "mset (sn_Items sn') = mset (sn_Items sn)"
    and same: "sn_Groups sn' = sn_Groups sn" "sn_Version sn' = sn_Version sn"
    and whole: "whole_delays sn"
  shows "Build n (Some sn') = Build n (Some sn) \<and> sorted (map gr_ID (Build n (Some sn)))
    \<and> distinct (map gr_ID (Build n (Some sn)))"
proof -
  let ?g = "\<lambda>sn. map (build_group n sn) (grouped_items sn)"
  have build: "Build n (Some sn) = sort_key gr_ID (?g sn)" for sn by (simp add: Build_def grouped_items_def)
  have through: "build_group n sn = build_group n sn \<circ> (\<lambda>e. (fst e, sort (snd e)))" for sn
    by (rule ext) (simp add: build_group_def sort_key_id_if_sorted split: prod.split)
  have bg: "build_group n sn' = build_group n sn" 
    using same by (intro ext) (simp add: build_group_def Let_def cong: option.case_cong split: prod.split)
  have groups: "mset (?g sn) = image_mset (build_group n sn) (image_mset (\<lambda>e. (fst e, sort (snd e))) (mset (grouped_items sn)))" for sn
    unfolding mset_map by (subst through) (simp add: image_mset.compositionality)
  have m: "mset (?g sn') = mset (?g sn)"
    by (simp only: groups [of sn'] groups [of sn] grouped_perm [OF perm]) (simp only: bg)
  note inj = groups_distinct [where n = n, OF wf whole]
  have sorted: "sorted (map gr_ID (sort_key gr_ID (?g sn)))" by simp
  have "sort_key gr_ID (?g sn') = sort_key gr_ID (?g sn)"
    by (rule sort_key_inj_key_eq) (use m inj(1) mset_eq_setD [OF m] in \<open>simp_all\<close>)
  moreover have "distinct (map gr_ID (?g sn))"
    using inj grouped_items(1) [of sn]
    by (auto simp: distinct_map wf_map_def intro: comp_inj_on)
  then have "distinct (map gr_ID (sort_key gr_ID (?g sn)))"
    by (metis mset_eq_imp_distinct_iff mset_map mset_sort)
  ultimately show ?thesis using sorted by (simp add: build)
qed

section \<open>A small snapshot\<close>

definition gx_item :: "string \<Rightarrow> string \<Rightarrow> duration \<Rightarrow> string \<times> ItemMetadata option" where
  "gx_item k valueType delay = (k,
     Some \<lparr>im_ItemID = k, im_HostID = ''10'', im_Key = ''cpu'', im_Name = ''cpu'', im_ValueType = valueType,
      im_RawDelay = ''30s'', im_Delay = delay, im_DelayParseState = DelayParsed, im_Status = ''0'',
      im_State = ''0'', im_Enabled = True, im_MetricName = ''cpu'', im_Labels = [], im_RefreshedAt = 0,
      im_Version = 1\<rparr>)"

definition gx_items :: "(string \<times> ItemMetadata option) list" where
  "gx_items = [gx_item ''7'' ''0'' (30 * Second), gx_item ''5'' ''0'' (30 * Second), gx_item ''6'' ''3'' Minute,
     gx_item ''9'' ''1'' Minute, (''8'', None)]"

definition gx_snapshot :: "(string \<times> ItemMetadata option) list \<Rightarrow> MetadataSnapshot" where
  "gx_snapshot items = \<lparr>sn_Version = 7, sn_CreatedAt = 0, sn_Hosts = [], sn_HostIDs = [''10''],
     sn_Items = items, sn_HostItems = [], sn_Groups = [], sn_ItemGroups = []\<rparr>"

definition gx_first :: Group where
  "gx_first = build_group 1 (gx_snapshot gx_items) ((''10'', 0, 30 * Second), [''7'', ''5''])"

lemma gx_wf: "wf_map (sn_Items (gx_snapshot gx_items))"
  by (simp add: wf_map_def gx_snapshot_def gx_items_def gx_item_def)

lemma gx_whole: "whole_delays (gx_snapshot gx_items)"
proof -
  have "\<exists>s. 0 \<le> s \<and> s * Second < 2 ^ 63 \<and> x * 1000000000 = s * Second" if "0 \<le> x" "x < 2 ^ 33" for x
    using that by (intro exI [of _ x]) (simp add: Second_def)
  from this [of 30] this [of 60] show ?thesis
    by (auto simp: whole_delays_def gx_snapshot_def gx_items_def gx_item_def mptr_def Second_def Minute_def split: if_splits)
qed

lemma build_partition_witness:
  "mset (concat (map ba_ItemIDs (concat (map gr_Batches (Build 1 (Some (gx_snapshot gx_items)))))))
    = {#''7'', ''5'', ''6''#}"
proof -
  have "map fst (filter (\<lambda>e. Option.bind (snd e) group_key \<noteq> None) (sn_Items (gx_snapshot gx_items))) = [''7'', ''5'', ''6'']"
    by code_simp
  then show ?thesis using build_partition [OF gx_wf, of 1] by simp
qed

lemma gx_first_in: "gx_first \<in> set (Build 1 (Some (gx_snapshot gx_items)))"
proof -
  have "items_of (sn_Items (gx_snapshot gx_items)) (''10'', 0, 30 * Second) = [''7'', ''5'']" by code_simp
  then have "mget (grouped_items (gx_snapshot gx_items)) (''10'', 0, 30 * Second) = Some [''7'', ''5'']"
    by (simp add: grouped_items(2))
  then show ?thesis unfolding build_set gx_first_def by blast
qed

lemma build_group_wellformed_witness:
  "gr_ID gx_first = ''10/0/30'' \<and> 0 < gr_Delay gx_first
    \<and> concat (map ba_ItemIDs (gr_Batches gx_first)) = [''5'', ''7''] \<and> sorted (concat (map ba_ItemIDs (gr_Batches gx_first)))"
proof -
  have "GroupID ''10'' 0 (30 * Second) = ''10/0/30''" by code_simp
  moreover have "compactStrings (sort [''7'', ''5'']) = [''5'', ''7'']" by code_simp
  ultimately show ?thesis
    using build_group_wellformed [OF gx_wf zero_less_one gx_first_in] concat_chunks [of 1 "[''5'', ''7'']"]
    by (simp add: gx_first_def build_group_def Let_def comp_def)
qed

lemma build_deterministic_witness:
  "Build 1 (Some (gx_snapshot (rev gx_items))) = Build 1 (Some (gx_snapshot gx_items))"
proof -
  have "mset (sn_Items (gx_snapshot (rev gx_items))) = mset (sn_Items (gx_snapshot gx_items))"
    by (simp add: gx_snapshot_def)
  from build_deterministic [OF gx_wf this _ _ gx_whole, of 1] show ?thesis by (simp add: gx_snapshot_def)
qed

end
