(* ===== verification/Plan_Times.thy ===== *)
theory Plan_Times
  imports Group_Builder
begin

text \<open>
  The time arithmetic of \<^verbatim>\<open>internal/scheduler/scheduler.go\<close>: where in its period a group runs, how a planned
  time that was missed moves on, and how long a failed group waits.  The lemmas read these functions as
  exact integers for wall-clock times within 146 years of 1970 (\<open>clock_time\<close>) and periods below
  73 years (\<open>sane_period\<close>); outside the code's \<^verbatim>\<open>int64\<close> arithmetic wraps, as the definitions say.
\<close>

definition unixNanoTime :: "int \<Rightarrow> time" where
  "unixNanoTime value = time_Unix 0 value"

definition nextRunAfter :: "time \<Rightarrow> string \<Rightarrow> duration \<Rightarrow> time" where
  "nextRunAfter now groupID period =
     (if period \<le> 0 then now
      else
        (let nowNanos = to_UnixNano now;
             remainder = go_mod nowNanos period;
             remainder = (if remainder < 0 then wrap64 (remainder + period) else remainder);
             base = wrap64 (nowNanos - remainder);
             candidate = unixNanoTime (wrap64 (base + StableOffset groupID period))
         in if \<not> candidate > now then time_Add candidate period else candidate))"

definition bootstrapRunAt :: "time \<Rightarrow> string \<Rightarrow> duration \<Rightarrow> duration \<Rightarrow> time" where
  "bootstrapRunAt now groupID period spread =
     (let spread = (if spread \<le> 0 \<or> spread > period then period else spread)
      in time_Add now (StableOffset groupID spread))"

definition advancePlanned :: "time \<Rightarrow> duration \<Rightarrow> time \<Rightarrow> time" where
  "advancePlanned planned period now =
     (let next = time_Add planned period in
      if next > now then next
      else (let missed = dadd (go_div (time_Sub now next) period) 1
            in time_Add next (dmul missed period)))"

definition delayBucket :: "duration \<Rightarrow> string" where
  "delayBucket delay =
     (if delay \<le> Minute then ''le_1m''
      else if delay \<le> dmul 5 Minute then ''le_5m''
      else if delay \<le> Hour then ''le_1h''
      else ''gt_1h'')"

text \<open>The doubling loop with the final cap; the first argument counts the iterations left.\<close>

fun retry_loop :: "nat \<Rightarrow> duration \<Rightarrow> duration \<Rightarrow> duration" where
  "retry_loop 0 maximum delay = (if delay > maximum then maximum else delay)"
| "retry_loop (Suc n) maximum delay =
     (if \<not> delay < maximum then (if delay > maximum then maximum else delay)
      else if delay > go_div maximum 2 then maximum
      else retry_loop n maximum (dmul delay 2))"

definition retryDelay :: "duration \<Rightarrow> duration \<Rightarrow> nat \<Rightarrow> duration" where
  "retryDelay base maximum failures =
     (if base \<le> 0 \<or> failures = 0 then 0 else retry_loop (failures - 1) maximum base)"

section \<open>Exact readings\<close>

definition epoch :: time where "epoch = unixToInternal * 1000000000"

definition clock_time :: "time \<Rightarrow> bool" where
  "clock_time t \<longleftrightarrow> epoch - 2 ^ 62 < t \<and> t < epoch + 2 ^ 62"

definition sane_period :: "duration \<Rightarrow> bool" where
  "sane_period p \<longleftrightarrow> 0 < p \<and> p < 2 ^ 61"

lemma clock_sane: "clock_time t \<Longrightarrow> sane_time t"
  by (simp add: clock_time_def sane_time_def epoch_def unixToInternal_def)

lemma to_UnixNano_exact: "clock_time t \<Longrightarrow> to_UnixNano t = t - epoch"
proof -
  assume c: "clock_time t"
  have "(t div 1000000000 - unixToInternal) * 1000000000 + t mod 1000000000 = t - epoch"
    unfolding epoch_def using div_mult_mod_eq [of t 1000000000] by (simp add: algebra_simps)
  then show ?thesis using c unfolding to_UnixNano_def by (simp only:) (rule wrap64_idI, simp_all add: clock_time_def)
qed

lemma unixNanoTime_exact: "in_int64 v \<Longrightarrow> unixNanoTime v = v + epoch"
proof -
  assume v: "in_int64 v"
  have "wrap64 (v div 1000000000 + unixToInternal) = v div 1000000000 + unixToInternal"
    using v unfolding in_int64_def unixToInternal_def by (intro wrap64_idI; simp; linarith)
  then show ?thesis
    unfolding unixNanoTime_def time_Unix_def epoch_def using div_mult_mod_eq [of v 1000000000]
    by (simp add: algebra_simps)
qed

lemma time_Add_near:
  assumes "epoch - 2 ^ 63 \<le> t" "t < epoch + 2 ^ 63" "in_int64 d"
  shows "time_Add t d = t + d"
  by (rule time_Add_sane) (use assms in \<open>simp_all add: sane_time_def epoch_def unixToInternal_def\<close>)

lemma StableOffset_in: "0 < p \<Longrightarrow> p < 2 ^ 63 \<Longrightarrow> 0 \<le> StableOffset g p" "0 < p \<Longrightarrow> p < 2 ^ 63 \<Longrightarrow> StableOffset g p < p"
  using StableOffset_bounds by blast+

lemma go_mod_floor:
  assumes "0 < b" shows "(if go_mod a b < 0 then go_mod a b + b else go_mod a b) = a mod b"
proof (cases "0 \<le> a")
  case True
  then show ?thesis using assms by (simp add: go_mod_nonneg not_less)
next
  case False
  then have g: "go_mod a b = - ((- a) mod b)" using assms by (simp add: go_mod_def)
  show ?thesis
  proof (cases "(- a) mod b = 0")
    case True
    then show ?thesis by (simp add: g zmod_zminus1_eq_if [of "- a" b, simplified])
  next
    case ne: False
    have "0 < (- a) mod b" using ne assms by (metis pos_mod_sign order_le_less)
    then show ?thesis using ne by (simp add: g zmod_zminus1_eq_if [of "- a" b, simplified])
  qed
qed

lemma nextRunAfter_exact:
  assumes now: "clock_time now" and p: "sane_period period"
  shows "now < nextRunAfter now g period" and "nextRunAfter now g period \<le> now + period"
    and "(nextRunAfter now g period - epoch) mod period = StableOffset g period"
proof -
  have p0: "0 < period" "period < 2 ^ 61" using p by (simp_all add: sane_period_def)
  define n where "n = now - epoch"
  have n: "- (2 ^ 62) < n" "n < 2 ^ 62" using now by (simp_all add: n_def clock_time_def)
  define off where "off = StableOffset g period"
  have off: "0 \<le> off" "off < period" using StableOffset_in [of period g] p0 by (simp_all add: off_def)
  define r where "r = n mod period"
  have r: "0 \<le> r" "r < period" using p0 by (simp_all add: r_def)
  have gm: "(if go_mod n period < 0 then wrap64 (go_mod n period + period) else go_mod n period) = r"
  proof (cases "go_mod n period < 0")
    case True
    then have "go_mod n period + period = r" using go_mod_floor [OF p0(1), of n] by (simp add: r_def)
    moreover have "wrap64 r = r" using r(1,2) p0 by (intro wrap64_idI; simp)
    ultimately show ?thesis using True by simp
  qed (use go_mod_floor [OF p0(1), of n] in \<open>simp add: r_def\<close>)
  have base: "wrap64 (n - r) = n - r" using n r p0 by (intro wrap64_idI) simp_all
  have c64: "in_int64 (n - r + off)" using n r p0 off by (simp add: in_int64_def)
  have cand: "unixNanoTime (wrap64 (n - r + off)) = n - r + off + epoch"
    using c64 by (simp add: unixNanoTime_exact wrap64_id)
  have result: "nextRunAfter now g period = (if \<not> n - r + off > n then n - r + off + period + epoch else n - r + off + epoch)"
  proof -
    have "time_Add (n - r + off + epoch) period = n - r + off + epoch + period"
      by (rule time_Add_near) (use n r p0 off in \<open>simp_all add: in_int64_def\<close>)
    then show ?thesis
      using p0 by (simp add: nextRunAfter_def Let_def to_UnixNano_exact [OF now] n_def [symmetric] gm base
        off_def [symmetric] cand) (simp add: n_def)
  qed
  have "n - r = n div period * period" by (simp add: r_def minus_mod_eq_div_mult)
  then have m: "(n - r + off + k * period) mod period = off" for k
    using off by (simp add: mod_add_eq [symmetric] mult.commute [of _ period])
  show "now < nextRunAfter now g period" "nextRunAfter now g period \<le> now + period"
    unfolding result using r off p0 by (auto simp: n_def)
  show "(nextRunAfter now g period - epoch) mod period = StableOffset g period"
    unfolding result using m [of 0] m [of 1] by (simp add: off_def algebra_simps)
qed

lemma bootstrapRunAt_exact:
  assumes "clock_time now" and "sane_period period"
  shows "now \<le> bootstrapRunAt now g period spread" "bootstrapRunAt now g period spread < now + period"
proof -
  define s where "s = (if spread \<le> 0 \<or> spread > period then period else spread)"
  have s: "0 < s" "s \<le> period" "s < 2 ^ 61" using assms(2) by (auto simp: s_def sane_period_def)
  have off: "0 \<le> StableOffset g s" "StableOffset g s < s" using StableOffset_in [of s g] s by auto
  have "bootstrapRunAt now g period spread = now + StableOffset g s"
    unfolding bootstrapRunAt_def Let_def s_def [symmetric]
    by (rule time_Add_sane [OF clock_sane [OF assms(1)]]) (use off s in \<open>simp add: in_int64_def\<close>)
  then show "now \<le> bootstrapRunAt now g period spread" "bootstrapRunAt now g period spread < now + period"
    using off s by simp_all
qed

lemma advancePlanned_exact:
  assumes planned: "clock_time planned" and now: "clock_time now" and p: "sane_period period"
  shows "now < advancePlanned planned period now"
    and "(advancePlanned planned period now - planned) mod period = 0"
    and "planned < advancePlanned planned period now"
    and "advancePlanned planned period now \<le> max planned now + period"
proof -
  have p0: "0 < period" "period < 2 ^ 61" using p by (simp_all add: sane_period_def)
  have near: "epoch - 2 ^ 62 < planned" "planned < epoch + 2 ^ 62" "epoch - 2 ^ 62 < now" "now < epoch + 2 ^ 62"
    using planned now by (simp_all add: clock_time_def)
  have next_eq: "time_Add planned period = planned + period"
    by (rule time_Add_near) (use near p0 in \<open>simp_all add: in_int64_def\<close>)
  have all: "now < advancePlanned planned period now \<and> (advancePlanned planned period now - planned) mod period = 0
    \<and> planned < advancePlanned planned period now \<and> advancePlanned planned period now \<le> max planned now + period"
  proof (cases "planned + period > now")
    case True
    then show ?thesis using p0 by (simp add: advancePlanned_def next_eq Let_def)
  next
    case False
    define d where "d = now - (planned + period)"
    have d: "0 \<le> d" "d < 2 ^ 63" using False near p0 by (simp_all add: d_def)
    have "d div period * period \<le> d" using p0 d by (metis div_mult_mod_eq le_add_same_cancel1 pos_mod_sign)
    then have q: "0 \<le> d div period" "d div period * period \<le> d" "d - d div period * period < period"
      using p0 d by (simp_all add: pos_imp_zdiv_nonneg_iff minus_div_mult_eq_mod)
    have top: "d + period < 2 ^ 63" using near by (simp add: d_def)
    have "d div period \<le> d" using d p0 by (metis div_by_1 int_one_le_iff_zero_less zdiv_mono2 zero_less_one)
    then have one: "dadd (d div period) 1 = d div period + 1"
      unfolding dadd_def using q(1) top p0 by (intro wrap64_idI; simp)
    have bound: "(d div period + 1) * period \<le> d + period" using q(2) by (simp add: algebra_simps)
    have nonneg: "0 \<le> (d div period + 1) * period" using q(1) p0 by (intro mult_nonneg_nonneg) simp_all
    have prod: "dmul (d div period + 1) period = (d div period + 1) * period"
      unfolding dmul_def using bound nonneg top by (intro wrap64_idI) linarith+
    have sub: "time_Sub now (planned + period) = d"
      using d by (simp add: time_Sub_def d_def [symmetric] clamp64_id in_int64_def)
    have div: "go_div d period = d div period" by (rule go_div_nonneg) (use d p0 in simp_all)
    have "in_int64 ((d div period + 1) * period)"
      using bound nonneg top unfolding in_int64_def by linarith
    then have "time_Add (planned + period) ((d div period + 1) * period) = planned + period + (d div period + 1) * period"
      by (intro time_Add_near) (use near p0 in simp_all)
    then have r: "advancePlanned planned period now = planned + period + (d div period + 1) * period"
      using False by (simp add: advancePlanned_def next_eq Let_def sub div one prod)
    have "(advancePlanned planned period now - planned) mod period = 0"
      unfolding r by (simp add: algebra_simps)
    moreover have "now < advancePlanned planned period now" "advancePlanned planned period now \<le> now + period"
      unfolding r using q by (simp_all add: d_def algebra_simps)
    moreover have "planned < now" using False p0 by simp
    ultimately show ?thesis by simp
  qed
  then show "now < advancePlanned planned period now"
    "(advancePlanned planned period now - planned) mod period = 0"
    "planned < advancePlanned planned period now"
    "advancePlanned planned period now \<le> max planned now + period" by blast+
qed

lemma retry_loop_exact:
  assumes "0 < delay" "maximum < 2 ^ 63"
  shows "retry_loop n maximum delay = min (delay * 2 ^ n) maximum"
  using assms
proof (induction n arbitrary: delay)
  case 0
  then show ?case by simp
next
  case (Suc n)
  have big: "delay \<le> delay * 2 ^ m" for m
    using Suc.prems(1) by (simp add: mult_le_cancel_left1)
  consider "\<not> delay < maximum" | "delay < maximum" "delay > go_div maximum 2" | "delay < maximum" "delay \<le> go_div maximum 2" by linarith
  then show ?case
  proof cases
    case 1
    then show ?thesis using big [of "Suc n"] by (auto simp: min_def)
  next
    case 2
    have half: "go_div maximum 2 = maximum div 2" by (rule go_div_nonneg) (use Suc.prems 2(1) in simp_all)
    have "maximum < delay * 2" using 2(2) unfolding half by linarith
    moreover have "delay * 2 \<le> delay * 2 ^ Suc n" using Suc.prems(1) by simp
    ultimately have "maximum < delay * 2 ^ Suc n" by linarith
    then show ?thesis using 2 by (simp add: min_def)
  next
    case 3
    have half: "go_div maximum 2 = maximum div 2" by (rule go_div_nonneg) (use Suc.prems 3(1) in simp_all)
    have "delay * 2 \<le> maximum" using 3(2) unfolding half by linarith
    then have "dmul delay 2 = delay * 2"
      unfolding dmul_def using Suc.prems by (intro wrap64_idI) simp_all
    then show ?thesis using 3 Suc.IH [of "delay * 2"] Suc.prems by (simp add: mult.assoc)
  qed
qed

lemma retryDelay_exact:
  assumes "0 < base" "maximum < 2 ^ 63" "0 < failures"
  shows "retryDelay base maximum failures = min (base * 2 ^ (failures - 1)) maximum"
  using assms by (simp add: retryDelay_def retry_loop_exact)

end
