(* ===== verification/Scheduling.thy ===== *)
theory Scheduling
  imports Go_Heap Plan_Times
begin

text \<open>
  \<^verbatim>\<open>internal/scheduler/scheduler.go\<close> and \<^verbatim>\<open>worker_pool.go\<close>.  A \<^verbatim>\<open>*groupEntry\<close> is shared by the map of
  entries and the plan heap, so a pointer is the group's ID: \<open>sc_entries\<close> holds the entry, \<open>sc_queue\<close> the
  IDs in heap order, and \<open>group_swap\<close> keeps \<open>ge_heapIndex\<close> as \<^verbatim>\<open>groupHeap.Swap\<close> does.  Buffered channels
  are lists.  \<open>dispatch_iter\<close> is one round of the loop of \<^verbatim>\<open>dispatchDue\<close>, which holds the mutex for exactly that
  long; \<open>stopped\<close> says that its \<^verbatim>\<open>select\<close> took the branch of the cancelled context.
\<close>

record SchedulerConfig =
  sg_BatchSize :: int
  sg_WorkerCount :: int
  sg_QueueCapacity :: int
  sg_RetryBase :: duration
  sg_RetryMax :: duration
  sg_BootstrapSpread :: duration

record groupEntry =
  ge_group :: Group
  ge_nextRunAt :: time
  ge_nextCadence :: time
  ge_retrying :: bool
  ge_failures :: nat
  ge_heapIndex :: int
  ge_lastPlanned :: time

record collectionTask =
  tk_group :: Group
  tk_scheduledAt :: int

record collectionDone =
  dn_groupID :: string
  dn_delay :: duration
  dn_err :: "go_error option"

record Scheduler =
  sc_config :: SchedulerConfig
  sc_batchSize :: nat
  sc_entries :: "(string, groupEntry) gomap"
  sc_queue :: "string list"
  sc_inFlightIDs :: "(string, int) gomap"
  sc_tasks :: "collectionTask list"
  sc_wake :: bool

record RuntimeState =
  rs_Groups :: nat
  rs_InFlight :: int
  rs_Queued :: nat
  rs_QueueCapacity :: int

record GroupRuntimeState =
  gs_GroupID :: string
  gs_NextRunAt :: time
  gs_InFlight :: bool
  gs_Failures :: nat
  gs_Period :: duration
  gs_LastPlanAt :: time

definition scheduler_defaults :: "SchedulerConfig \<Rightarrow> SchedulerConfig" where
  "scheduler_defaults config =
     \<lparr>sg_BatchSize = (if sg_BatchSize config = 0 then int DefaultBatchSize else sg_BatchSize config),
      sg_WorkerCount = (if sg_WorkerCount config = 0 then 4 else sg_WorkerCount config),
      sg_QueueCapacity = (if sg_QueueCapacity config = 0 then 128 else sg_QueueCapacity config),
      sg_RetryBase = (if sg_RetryBase config = 0 then 5 * Second else sg_RetryBase config),
      sg_RetryMax = (if sg_RetryMax config = 0 then 5 * Minute else sg_RetryMax config),
      sg_BootstrapSpread = (if sg_BootstrapSpread config = 0 then Minute else sg_BootstrapSpread config)\<rparr>"

definition NewScheduler :: "bool \<Rightarrow> SchedulerConfig \<Rightarrow> go_error + Scheduler" where
  "NewScheduler hasExecutor config =
     (let config = scheduler_defaults config in
      if \<not> hasExecutor then Inl (InvalidConfig ''group executor is required'')
      else if sg_WorkerCount config < 1 then Inl (InvalidConfig ''scheduler worker count must be positive'')
      else if sg_QueueCapacity config < 1 then Inl (InvalidConfig ''scheduler queue capacity must be positive'')
      else if sg_RetryBase config < 0 \<or> sg_RetryMax config < sg_RetryBase config
      then Inl (InvalidConfig ''invalid retry range'')
      else if sg_BootstrapSpread config < 0 then Inl (InvalidConfig ''bootstrap spread must not be negative'')
      else case NewGroupBuilder (sg_BatchSize config) of
             Inl err \<Rightarrow> Inl err
           | Inr batchSize \<Rightarrow>
               Inr \<lparr>sc_config = config, sc_batchSize = batchSize, sc_entries = [], sc_queue = [],
                    sc_inFlightIDs = [], sc_tasks = [], sc_wake = False\<rparr>)"

section \<open>The plan heap\<close>

definition group_less :: "Scheduler \<Rightarrow> nat \<Rightarrow> nat \<Rightarrow> bool" where
  "group_less s i j =
     (case (mget (sc_entries s) (sc_queue s ! i), mget (sc_entries s) (sc_queue s ! j)) of
        (Some a, Some b) \<Rightarrow>
          (if ge_nextRunAt a = ge_nextRunAt b then gr_ID (ge_group a) < gr_ID (ge_group b)
           else ge_nextRunAt a < ge_nextRunAt b)
      | _ \<Rightarrow> False)"

definition put_entry :: "string \<Rightarrow> groupEntry \<Rightarrow> Scheduler \<Rightarrow> Scheduler" where
  "put_entry groupID entry s = s\<lparr>sc_entries := mput groupID entry (sc_entries s)\<rparr>"

definition set_heapIndex :: "string \<Rightarrow> int \<Rightarrow> Scheduler \<Rightarrow> Scheduler" where
  "set_heapIndex groupID i s =
     (case mget (sc_entries s) groupID of
        None \<Rightarrow> s | Some entry \<Rightarrow> put_entry groupID (entry\<lparr>ge_heapIndex := i\<rparr>) s)"

definition group_swap :: "nat \<Rightarrow> nat \<Rightarrow> Scheduler \<Rightarrow> Scheduler" where
  "group_swap i j s =
     (let s = s\<lparr>sc_queue := list_swap i j (sc_queue s)\<rparr> in
      set_heapIndex (sc_queue s ! j) (int j) (set_heapIndex (sc_queue s ! i) (int i) s))"

definition push_group :: "string \<Rightarrow> Scheduler \<Rightarrow> Scheduler" where
  "push_group groupID s =
     (let n = length (sc_queue s);
          s = set_heapIndex groupID (int n) s;
          s = s\<lparr>sc_queue := sc_queue s @ [groupID]\<rparr>
      in heap_push group_less group_swap (Suc n) s)"

definition pop_group :: "Scheduler \<Rightarrow> string \<times> Scheduler" where
  "pop_group s =
     (let s = heap_pop group_less group_swap (length (sc_queue s)) s;
          groupID = last (sc_queue s)
      in (groupID, set_heapIndex groupID (- 1) (s\<lparr>sc_queue := butlast (sc_queue s)\<rparr>)))"

definition fix_group :: "string \<Rightarrow> Scheduler \<Rightarrow> Scheduler" where
  "fix_group groupID s =
     (case mget (sc_entries s) groupID of
        None \<Rightarrow> s
      | Some entry \<Rightarrow> heap_fix group_less group_swap (nat (ge_heapIndex entry)) (length (sc_queue s)) s)"

section \<open>Dispatch\<close>

definition inFlight :: "Scheduler \<Rightarrow> string \<Rightarrow> int" where
  "inFlight s groupID = (case mget (sc_inFlightIDs s) groupID of None \<Rightarrow> 0 | Some n \<Rightarrow> n)"

definition advance_entry :: "time \<Rightarrow> groupEntry \<Rightarrow> groupEntry" where
  "advance_entry now entry =
     (let planned = ge_nextRunAt entry;
          period = CollectionPeriod (gr_Delay (ge_group entry));
          entry = entry\<lparr>ge_lastPlanned := planned\<rparr>;
          entry =
            (if ge_retrying entry
             then (let entry = entry\<lparr>ge_nextRunAt := ge_nextCadence entry\<rparr>;
                       entry = (if \<not> ge_nextRunAt entry > now
                                then entry\<lparr>ge_nextRunAt := advancePlanned (ge_nextRunAt entry) period now\<rparr>
                                else entry)
                   in entry\<lparr>ge_retrying := False\<rparr>)
             else entry\<lparr>ge_nextRunAt := advancePlanned planned period now\<rparr>)
      in entry\<lparr>ge_nextCadence := ge_nextRunAt entry\<rparr>)"

definition postpone_entry :: "duration \<Rightarrow> time \<Rightarrow> groupEntry \<Rightarrow> groupEntry" where
  "postpone_entry retryBase now entry =
     entry\<lparr>ge_nextCadence := ge_nextRunAt entry, ge_nextRunAt := time_Add now retryBase, ge_retrying := True\<rparr>"

definition offer_task :: "bool \<Rightarrow> time \<Rightarrow> time \<Rightarrow> string \<Rightarrow> Scheduler \<Rightarrow> Scheduler \<times> bool" where
  "offer_task stopped now planned groupID s =
     (case mget (sc_entries s) groupID of
        None \<Rightarrow> (s, False)
      | Some entry \<Rightarrow>
          (let id = gr_ID (ge_group entry) in
           if inFlight s id = 0
           then if stopped then (s, False)
             else if int (length (sc_tasks s)) < sg_QueueCapacity (sc_config s)
             then (s\<lparr>sc_tasks := sc_tasks s @
                        [\<lparr>tk_group = cloneGroup (ge_group entry), tk_scheduledAt = to_UnixNano planned\<rparr>],
                     sc_inFlightIDs := mput id (inFlight s id + 1) (sc_inFlightIDs s)\<rparr>, True)
             else (fix_group groupID
                     (put_entry groupID (postpone_entry (sg_RetryBase (sc_config s)) now entry) s), True)
           else (s, True)))"

definition dispatch_iter :: "bool \<Rightarrow> time \<Rightarrow> Scheduler \<Rightarrow> Scheduler \<times> bool" where
  "dispatch_iter stopped now s =
     (case sc_queue s of
        [] \<Rightarrow> (s, False)
      | first # _ \<Rightarrow>
          (case mget (sc_entries s) first of
             None \<Rightarrow> (s, False)
           | Some root \<Rightarrow>
               if ge_nextRunAt root > now then (s, False)
               else (case pop_group s of (groupID, s) \<Rightarrow>
                      case mget (sc_entries s) groupID of
                        None \<Rightarrow> (s, False)
                      | Some entry \<Rightarrow>
                          offer_task stopped now (ge_nextRunAt entry) groupID
                            (push_group groupID (put_entry groupID (advance_entry now entry) s)))))"

text \<open>The loop of \<^verbatim>\<open>dispatchDue\<close> with nothing in between; \<open>None\<close> when the fuel runs out.\<close>

fun dispatchDue :: "nat \<Rightarrow> time \<Rightarrow> Scheduler \<Rightarrow> Scheduler option" where
  "dispatchDue 0 now s = None"
| "dispatchDue (Suc fuel) now s =
     (case dispatch_iter False now s of
        (s', goon) \<Rightarrow> if goon then dispatchDue fuel now s' else Some s')"

definition nextWait :: "time \<Rightarrow> Scheduler \<Rightarrow> duration" where
  "nextWait now s =
     (case sc_queue s of
        [] \<Rightarrow> dmul 24 Hour
      | first # _ \<Rightarrow>
          (case mget (sc_entries s) first of
             None \<Rightarrow> 0
           | Some root \<Rightarrow> (let wait = time_Sub (ge_nextRunAt root) now in if wait < 0 then 0 else wait)))"

section \<open>Completion\<close>

definition fail_entry :: "SchedulerConfig \<Rightarrow> time \<Rightarrow> groupEntry \<Rightarrow> groupEntry \<times> bool" where
  "fail_entry config now entry =
     (let entry = entry\<lparr>ge_failures := Suc (ge_failures entry) mod 2 ^ 32\<rparr>;
          retryAt = time_Add now (retryDelay (sg_RetryBase config) (sg_RetryMax config) (ge_failures entry))
      in if retryAt < ge_nextRunAt entry
         then (entry\<lparr>ge_nextCadence := ge_nextRunAt entry, ge_nextRunAt := retryAt, ge_retrying := True\<rparr>, True)
         else (entry, False))"

definition handleDone :: "time \<Rightarrow> collectionDone \<Rightarrow> Scheduler \<Rightarrow> Scheduler" where
  "handleDone now result s =
     (let id = dn_groupID result;
          s = (if inFlight s id > 1
               then s\<lparr>sc_inFlightIDs := mput id (inFlight s id - 1) (sc_inFlightIDs s)\<rparr>
               else s\<lparr>sc_inFlightIDs := mdel id (sc_inFlightIDs s)\<rparr>)
      in case mget (sc_entries s) id of
           None \<Rightarrow> s
         | Some entry \<Rightarrow>
             (case dn_err result of
                None \<Rightarrow> put_entry id (entry\<lparr>ge_failures := 0\<rparr>) s
              | Some _ \<Rightarrow>
                  (case fail_entry (sc_config s) now entry of
                     (entry, moved) \<Rightarrow>
                       if moved then fix_group id (put_entry id entry s) else put_entry id entry s)))"

section \<open>Replacing the groups\<close>

definition groupsEqual :: "Group \<Rightarrow> Group \<Rightarrow> bool" where
  "groupsEqual a b \<longleftrightarrow> gr_ID a = gr_ID b \<and> gr_HostID a = gr_HostID b \<and> gr_ValueType a = gr_ValueType b
     \<and> gr_Delay a = gr_Delay b \<and> gr_Version a = gr_Version b \<and> gr_Batches a = gr_Batches b"

definition desired_groups :: "Group list \<Rightarrow> (string, Group) gomap" where
  "desired_groups groups =
     fold (\<lambda>g desired. if gr_ID g = [] \<or> gr_Delay g \<le> 0 \<or> gr_Batches g = [] then desired
                       else mput (gr_ID g) (cloneGroup g) desired) groups []"

definition desired_entry :: "time \<Rightarrow> SchedulerConfig \<Rightarrow> groupEntry option \<Rightarrow> Group \<Rightarrow> groupEntry" where
  "desired_entry now config old g =
     (let period = CollectionPeriod (gr_Delay g) in
      case old of
        None \<Rightarrow>
          (let firstRun = bootstrapRunAt now (gr_ID g) period (sg_BootstrapSpread config) in
           \<lparr>ge_group = g, ge_nextRunAt = firstRun, ge_nextCadence = time_Add firstRun period,
            ge_retrying = False, ge_failures = 0, ge_heapIndex = 0, ge_lastPlanned = 0\<rparr>)
      | Some entry \<Rightarrow>
          (let periodChanged = (CollectionPeriod (gr_Delay (ge_group entry)) \<noteq> period);
               definitionChanged = (\<not> groupsEqual (ge_group entry) g);
               entry = entry\<lparr>ge_group := g\<rparr>
           in if periodChanged \<or> definitionChanged \<and> time_IsZero (ge_nextRunAt entry)
              then (let next = nextRunAfter now (gr_ID g) period in
                    entry\<lparr>ge_nextRunAt := next, ge_nextCadence := time_Add next period, ge_retrying := False\<rparr>)
              else entry))"

definition replace_step :: "time \<Rightarrow> SchedulerConfig \<Rightarrow> (string, groupEntry) gomap \<Rightarrow> string \<times> Group
    \<Rightarrow> (string, groupEntry) gomap \<times> string list \<Rightarrow> (string, groupEntry) gomap \<times> string list" where
  "replace_step now config old desired st =
     (case desired of (groupID, g) \<Rightarrow> case st of (entries, queue) \<Rightarrow>
        (mput groupID ((desired_entry now config (mget old groupID) g)\<lparr>ge_heapIndex := int (length queue)\<rparr>) entries,
         queue @ [groupID]))"

text \<open>The result carries the groups handed to the executor's \<^verbatim>\<open>RetainGroups\<close>.\<close>

definition ReplaceGroups :: "time \<Rightarrow> Group list \<Rightarrow> Scheduler \<Rightarrow> Scheduler \<times> Group list" where
  "ReplaceGroups now groups s =
     (let desired = desired_groups groups in
      case fold (replace_step now (sc_config s) (sc_entries s)) desired ([], []) of
        (entries, queue) \<Rightarrow>
          (let s = s\<lparr>sc_entries := entries, sc_queue := queue\<rparr>;
               s = heap_init group_less group_swap (length queue) s
           in (s\<lparr>sc_wake := True\<rparr>, map snd desired)))"

definition Reconcile :: "time \<Rightarrow> MetadataSnapshot option \<Rightarrow> Scheduler \<Rightarrow> Scheduler \<times> Group list" where
  "Reconcile now snapshot s = ReplaceGroups now (Build (sc_batchSize s) snapshot) s"

section \<open>Observation and stopping\<close>

definition totalInFlight :: "(string, int) gomap \<Rightarrow> int" where
  "totalInFlight values = fold (\<lambda>e total. total + snd e) values 0"

definition scheduler_State :: "Scheduler \<Rightarrow> RuntimeState" where
  "scheduler_State s =
     \<lparr>rs_Groups = length (sc_entries s), rs_InFlight = totalInFlight (sc_inFlightIDs s),
      rs_Queued = length (sc_tasks s), rs_QueueCapacity = sg_QueueCapacity (sc_config s)\<rparr>"

definition GroupState :: "Scheduler \<Rightarrow> string \<Rightarrow> GroupRuntimeState option" where
  "GroupState s groupID =
     (case mget (sc_entries s) groupID of
        None \<Rightarrow> None
      | Some entry \<Rightarrow>
          Some \<lparr>gs_GroupID = groupID, gs_NextRunAt = ge_nextRunAt entry, gs_InFlight = (inFlight s groupID > 0),
                gs_Failures = ge_failures entry, gs_Period = CollectionPeriod (gr_Delay (ge_group entry)),
                gs_LastPlanAt = ge_lastPlanned entry\<rparr>)"

text \<open>What \<^verbatim>\<open>StopContext\<close> does once every worker has returned.\<close>

definition drain_stopped :: "Scheduler \<Rightarrow> Scheduler" where
  "drain_stopped s = s\<lparr>sc_tasks := [], sc_inFlightIDs := []\<rparr>"

section \<open>The dispatcher and its workers\<close>

text \<open>The scheduler with what its workers run and the channel \<^verbatim>\<open>done\<close>.\<close>

record SchedulerSystem =
  sy_sched :: Scheduler
  sy_running :: "collectionTask list"
  sy_done :: "collectionDone list"

definition task_ID :: "collectionTask \<Rightarrow> string" where
  "task_ID t = gr_ID (tk_group t)"

inductive sched_step :: "SchedulerSystem \<Rightarrow> SchedulerSystem \<Rightarrow> bool" where
  Dispatch: "dispatch_iter stopped now (sy_sched y) = (s, goon) \<Longrightarrow> sched_step y (y\<lparr>sy_sched := s\<rparr>)"
| Take: "sc_tasks (sy_sched y) = t # ts \<Longrightarrow> int (length (sy_running y)) < sg_WorkerCount (sc_config (sy_sched y))
    \<Longrightarrow> sched_step y (y\<lparr>sy_sched := (sy_sched y)\<lparr>sc_tasks := ts\<rparr>, sy_running := sy_running y @ [t]\<rparr>)"
| Finish: "sy_running y = before @ t # after \<Longrightarrow> int (length (sy_done y)) < sg_WorkerCount (sc_config (sy_sched y))
    \<Longrightarrow> sched_step y (y\<lparr>sy_running := before @ after, sy_done := sy_done y @
          [\<lparr>dn_groupID = task_ID t, dn_delay = gr_Delay (tk_group t), dn_err = err\<rparr>]\<rparr>)"
| Complete: "sy_done y = d # ds
    \<Longrightarrow> sched_step y (y\<lparr>sy_sched := handleDone now d (sy_sched y), sy_done := ds\<rparr>)"
| Replace: "ReplaceGroups now groups (sy_sched y) = (s, retained) \<Longrightarrow> sched_step y (y\<lparr>sy_sched := s\<rparr>)"
| Woken: "sched_step y (y\<lparr>sy_sched := (sy_sched y)\<lparr>sc_wake := False\<rparr>\<rparr>)"

inductive sched_reachable :: "SchedulerSystem \<Rightarrow> bool" where
  Start: "NewScheduler True config = Inr s \<Longrightarrow> sched_reachable \<lparr>sy_sched = s, sy_running = [], sy_done = []\<rparr>"
| Step: "sched_reachable y \<Longrightarrow> sched_step y y' \<Longrightarrow> sched_reachable y'"

end
