(* ===== verification/Scheduling_Heap.thy ===== *)
theory Scheduling_Heap
  imports Scheduling "HOL-Library.Product_Lexorder"
begin

text \<open>
  The plan heap of the scheduler provides the container that \<^verbatim>\<open>container/heap\<close> works on (interpretation
  \<open>plan_heap\<close>): its elements are the pairs of next run and group ID.  \<open>plan\<close> reads the entries without
  their heap index, which is all that exchanges change.
\<close>

definition unindex :: "groupEntry \<Rightarrow> groupEntry" where
  "unindex e = e\<lparr>ge_heapIndex := 0\<rparr>"

definition plan :: "Scheduler \<Rightarrow> string \<Rightarrow> groupEntry option" where
  "plan s gid = map_option unindex (mget (sc_entries s) gid)"

definition next_run :: "Scheduler \<Rightarrow> string \<Rightarrow> time" where
  "next_run s gid = (case plan s gid of None \<Rightarrow> 0 | Some e \<Rightarrow> ge_nextRunAt e)"

definition plan_key :: "Scheduler \<Rightarrow> string \<Rightarrow> time \<times> string" where
  "plan_key s gid = (next_run s gid, gid)"

definition queue_keys :: "Scheduler \<Rightarrow> (time \<times> string) list" where
  "queue_keys s = map (plan_key s) (sc_queue s)"

text \<open>The queue holds known groups, once each, and every entry knows its place.\<close>

definition queue_ok :: "Scheduler \<Rightarrow> bool" where
  "queue_ok s \<longleftrightarrow> distinct (sc_queue s) \<and> (\<forall>i < length (sc_queue s). \<exists>e. mget (sc_entries s) (sc_queue s ! i) = Some e
     \<and> gr_ID (ge_group e) = sc_queue s ! i \<and> ge_heapIndex e = int i)"

definition same_plan :: "Scheduler \<Rightarrow> Scheduler \<Rightarrow> bool" where
  "same_plan s s' \<longleftrightarrow> plan s' = plan s \<and> mkeys (sc_entries s') = mkeys (sc_entries s)
     \<and> sc_config s' = sc_config s \<and> sc_batchSize s' = sc_batchSize s \<and> sc_inFlightIDs s' = sc_inFlightIDs s
     \<and> sc_tasks s' = sc_tasks s \<and> sc_wake s' = sc_wake s"

lemma unindex_fields [simp]:
  "ge_group (unindex e) = ge_group e" "ge_nextRunAt (unindex e) = ge_nextRunAt e"
  "ge_nextCadence (unindex e) = ge_nextCadence e" "ge_retrying (unindex e) = ge_retrying e"
  "ge_failures (unindex e) = ge_failures e" "ge_lastPlanned (unindex e) = ge_lastPlanned e"
  by (simp_all add: unindex_def)

lemma unindex_index [simp]: "unindex (e\<lparr>ge_heapIndex := i\<rparr>) = unindex e"
  by (simp add: unindex_def)

lemma same_plan_refl [simp]: "same_plan s s"
  by (simp add: same_plan_def)

lemma same_plan_trans: "same_plan a b \<Longrightarrow> same_plan b c \<Longrightarrow> same_plan a c"
  by (simp add: same_plan_def)

lemma same_plan_queue [simp]: "same_plan s (s'\<lparr>sc_queue := q\<rparr>) = same_plan s s'"
  by (simp add: same_plan_def plan_def fun_eq_iff)

lemma plan_index [simp]: "plan (set_heapIndex gid i s) = plan s"
  by (cases "mget (sc_entries s) gid") (simp_all add: plan_def set_heapIndex_def put_entry_def fun_eq_iff)

lemma index_frame [simp]:
  "mkeys (sc_entries (set_heapIndex gid i s)) = mkeys (sc_entries s)"
  "sc_config (set_heapIndex gid i s) = sc_config s" "sc_batchSize (set_heapIndex gid i s) = sc_batchSize s"
  "sc_inFlightIDs (set_heapIndex gid i s) = sc_inFlightIDs s" "sc_tasks (set_heapIndex gid i s) = sc_tasks s"
  "sc_wake (set_heapIndex gid i s) = sc_wake s"
proof -
  have "gid \<in> set (mkeys (sc_entries s))" if "mget (sc_entries s) gid = Some e" for e by (rule mget_in [OF that])
  then show "mkeys (sc_entries (set_heapIndex gid i s)) = mkeys (sc_entries s)"
    by (cases "mget (sc_entries s) gid") (simp_all add: set_heapIndex_def put_entry_def mkeys_put)
qed (simp_all add: set_heapIndex_def put_entry_def split: option.split)

lemma same_plan_index [simp]: "same_plan s (set_heapIndex gid i s') = same_plan s s'"
  by (simp add: same_plan_def del: map_map)

lemma same_plan_swap [simp]: "same_plan s (group_swap i j s') = same_plan s s'"
  by (simp add: group_swap_def Let_def)

lemma plan_queue [simp]: "plan (s\<lparr>sc_queue := q\<rparr>) = plan s"
  by (simp add: plan_def fun_eq_iff)

lemma queue_index [simp]: "sc_queue (set_heapIndex gid i s) = sc_queue s"
  by (simp add: set_heapIndex_def put_entry_def split: option.split)

lemma mget_index: "mget (sc_entries (set_heapIndex gid i s)) k =
    (if k = gid then map_option (\<lambda>e. e\<lparr>ge_heapIndex := i\<rparr>) (mget (sc_entries s) gid) else mget (sc_entries s) k)"
  by (simp add: set_heapIndex_def put_entry_def split: option.split)

lemma length_queue_keys [simp]: "length (queue_keys s) = length (sc_queue s)"
  by (simp add: queue_keys_def)

lemma queue_okD:
  assumes "queue_ok s" "i < length (sc_queue s)"
  obtains e where "mget (sc_entries s) (sc_queue s ! i) = Some e" "gr_ID (ge_group e) = sc_queue s ! i"
    "ge_heapIndex e = int i"
  using assms by (auto simp: queue_ok_def)

lemma group_less_keys:
  assumes "queue_ok s" "i < length (sc_queue s)" "j < length (sc_queue s)"
  shows "group_less s i j \<longleftrightarrow> queue_keys s ! i < queue_keys s ! j"
proof -
  obtain a where a: "mget (sc_entries s) (sc_queue s ! i) = Some a" "gr_ID (ge_group a) = sc_queue s ! i"
    using queue_okD [OF assms(1,2)] by blast
  obtain b where b: "mget (sc_entries s) (sc_queue s ! j) = Some b" "gr_ID (ge_group b) = sc_queue s ! j"
    using queue_okD [OF assms(1,3)] by blast
  have key: "queue_keys s ! i = (ge_nextRunAt a, sc_queue s ! i)" "queue_keys s ! j = (ge_nextRunAt b, sc_queue s ! j)"
    using assms(2,3) a b by (simp_all add: queue_keys_def plan_key_def next_run_def plan_def)
  show ?thesis
    unfolding group_less_def key a(1) b(1) option.case prod.case using a(2) b(2) by (auto simp: less_prod_def)
qed

lemma swap_queue_ok:
  assumes ok: "queue_ok s" and ij: "i < length (sc_queue s)" "j < length (sc_queue s)"
  shows "queue_ok (group_swap i j s)" and "sc_queue (group_swap i j s) = list_swap i j (sc_queue s)"
proof -
  let ?q = "list_swap i j (sc_queue s)"
  let ?s = "group_swap i j s"
  show q: "sc_queue ?s = ?q" by (simp add: group_swap_def Let_def)
  have dist: "distinct (sc_queue s)" using ok by (simp add: queue_ok_def)
  have nth: "?q ! k = (if k = i then sc_queue s ! j else if k = j then sc_queue s ! i else sc_queue s ! k)" for k
    by (rule nth_list_swap [OF ij])
  have "\<exists>e. mget (sc_entries ?s) (?q ! k) = Some e \<and> gr_ID (ge_group e) = ?q ! k \<and> ge_heapIndex e = int k"
    if k: "k < length (sc_queue s)" for k
  proof -
    have entry: "mget (sc_entries ?s) gid = (if gid = ?q ! j then map_option (\<lambda>e. e\<lparr>ge_heapIndex := int j\<rparr>) (mget (sc_entries s) gid)
      else if gid = ?q ! i then map_option (\<lambda>e. e\<lparr>ge_heapIndex := int i\<rparr>) (mget (sc_entries s) gid)
      else mget (sc_entries s) gid)" for gid
      by (auto simp: group_swap_def Let_def mget_index option.map_comp comp_def)
    define m where "m = (if k = i then j else if k = j then i else k)"
    have m: "m < length (sc_queue s)" "?q ! k = sc_queue s ! m" using k ij by (auto simp: m_def nth)
    obtain e where e: "mget (sc_entries s) (sc_queue s ! m) = Some e" "gr_ID (ge_group e) = sc_queue s ! m"
      "ge_heapIndex e = int m"
      using queue_okD [OF ok m(1)] by blast
    have eqs: "sc_queue s ! m = sc_queue s ! n \<longleftrightarrow> m = n" if "n < length (sc_queue s)" for n
      using dist m(1) that by (simp add: nth_eq_iff_index_eq)
    show ?thesis
      using e k ij eqs [OF ij(1)] eqs [OF ij(2)] unfolding m(2) entry nth by (auto simp: m_def split: if_splits)
  qed
  moreover have "distinct ?q" using dist mset_list_swap [OF ij] mset_eq_imp_distinct_iff by blast
  ultimately show "queue_ok ?s" by (simp add: queue_ok_def q)
qed

lemma swap_keys:
  assumes "i < length (sc_queue s)" "j < length (sc_queue s)"
  shows "queue_keys (group_swap i j s) = list_swap i j (queue_keys s)"
proof -
  have "plan (group_swap i j s) = plan s" using same_plan_swap [of s i j s] by (simp add: same_plan_def)
  then have k: "plan_key (group_swap i j s) = plan_key s" by (simp add: plan_key_def next_run_def fun_eq_iff)
  have q: "sc_queue (group_swap i j s) = list_swap i j (sc_queue s)" by (simp add: group_swap_def Let_def)
  show ?thesis unfolding queue_keys_def k q using assms by (simp add: list_swap_def map_update)
qed

interpretation plan_heap: heap_container group_less group_swap queue_keys queue_ok "(<) :: time \<times> string \<Rightarrow> _"
  by unfold_locales (auto simp: group_less_keys swap_keys swap_queue_ok)

section \<open>Heap operations\<close>

definition queue_heap :: "Scheduler \<Rightarrow> bool" where
  "queue_heap s \<longleftrightarrow> queue_ok s \<and> heap_order (<) (length (sc_queue s)) (queue_keys s)"

lemma keys_of_queue: "map snd (queue_keys s) = sc_queue s"
  by (simp add: queue_keys_def plan_key_def comp_def)

lemma keys_plan: "plan s' = plan s \<Longrightarrow> plan_key s' = plan_key s"
  by (simp add: plan_key_def next_run_def fun_eq_iff)

lemma mset_queue: "mset (queue_keys s') = mset (queue_keys s) \<Longrightarrow> mset (sc_queue s') = mset (sc_queue s)"
  by (metis keys_of_queue mset_map)

lemma heap_keeps_plan:
  shows "same_plan s (heap_push group_less group_swap n s)"
    and "same_plan s (heap_pop group_less group_swap n s)"
    and "same_plan s (heap_fix group_less group_swap i n s)"
    and "same_plan s (heap_init group_less group_swap n s)"
  unfolding heap_push_def heap_pop_def heap_init_def
  by (rule heap_up_keeps [where P = "same_plan s"] heap_down_keeps [where P = "same_plan s"]
      heap_fix_keeps [where P = "same_plan s"] heap_init_loop_keeps [where P = "same_plan s"]; simp)+

lemma push_group_correct:
  assumes heap: "queue_heap s" and gid: "gid \<notin> set (sc_queue s)" "mget (sc_entries s) gid = Some e" "gr_ID (ge_group e) = gid"
  shows "queue_heap (push_group gid s)" and "same_plan s (push_group gid s)"
    and "mset (sc_queue (push_group gid s)) = add_mset gid (mset (sc_queue s))"
proof -
  let ?n = "length (sc_queue s)"
  define t where "t = (set_heapIndex gid (int ?n) s)\<lparr>sc_queue := sc_queue s @ [gid]\<rparr>"
  have push: "push_group gid s = heap_push group_less group_swap (length (queue_keys t)) t"
    by (simp add: push_group_def t_def Let_def)
  have plan: "plan t = plan s" by (simp add: t_def)
  have same: "same_plan s t" by (simp add: t_def)
  have queue: "sc_queue t = sc_queue s @ [gid]" by (simp add: t_def)
  have keys: "queue_keys t = queue_keys s @ [plan_key s gid]"
    by (simp add: queue_keys_def queue keys_plan [OF plan])
  have ok: "queue_ok t"
    unfolding queue_ok_def queue
  proof (intro conjI allI impI)
    show "distinct (sc_queue s @ [gid])" using heap gid(1) by (simp add: queue_heap_def queue_ok_def)
    fix i
    assume i: "i < length (sc_queue s @ [gid])"
    show "\<exists>e. mget (sc_entries t) ((sc_queue s @ [gid]) ! i) = Some e \<and> gr_ID (ge_group e) = (sc_queue s @ [gid]) ! i
        \<and> ge_heapIndex e = int i"
    proof (cases "i < ?n")
      case True
      have "queue_ok s" using heap by (simp add: queue_heap_def)
      then obtain e where "mget (sc_entries s) (sc_queue s ! i) = Some e" "gr_ID (ge_group e) = sc_queue s ! i"
        "ge_heapIndex e = int i" using True by (rule queue_okD)
      moreover have "sc_queue s ! i \<noteq> gid" using gid(1) True by (metis nth_mem)
      ultimately show ?thesis using True by (simp add: t_def mget_index nth_append)
    next
      case False
      then have "i = ?n" using i by simp
      then show ?thesis using gid(2,3) by (simp add: t_def mget_index)
    qed
  qed
  have old: "\<not> queue_keys s ! k < queue_keys s ! par k" if "0 < k" "k < ?n" for k
    using heap that by (simp add: queue_heap_def heap_order_def)
  have "heap_order (<) (length (queue_keys t) - 1) (queue_keys t)"
    unfolding heap_order_def
  proof (intro allI impI)
    fix k
    assume k: "0 < k" "k < length (queue_keys t) - 1"
    then have "k < ?n" "par k < ?n" using par_less [OF k(1)] by (simp_all add: keys)
    with old [OF k(1)] show "\<not> queue_keys t ! k < queue_keys t ! par k" by (simp add: keys nth_append)
  qed
  note order = this
  have "0 < length (queue_keys t)" by (simp add: keys)
  note pushed = plan_heap.push_correct [OF ok this order, folded push]
  have done': "queue_ok (push_group gid s)" "mset (queue_keys (push_group gid s)) = mset (queue_keys t)"
    "heap_order (<) (length (queue_keys t)) (queue_keys (push_group gid s))"
    using pushed by simp_all
  have "length (queue_keys (push_group gid s)) = length (queue_keys t)" by (rule mset_eq_length [OF done'(2)])
  with done' show "queue_heap (push_group gid s)" by (simp add: queue_heap_def)
  show "same_plan s (push_group gid s)" unfolding push by (rule same_plan_trans [OF same heap_keeps_plan(1)])
  show "mset (sc_queue (push_group gid s)) = add_mset gid (mset (sc_queue s))"
    using mset_queue [OF done'(2)] by (simp add: queue)
qed

lemma pop_group_correct:
  assumes heap: "queue_heap s" and ne: "sc_queue s \<noteq> []"
  shows "fst (pop_group s) = hd (sc_queue s)" and "queue_heap (snd (pop_group s))" and "same_plan s (snd (pop_group s))"
    and "mset (sc_queue s) = add_mset (hd (sc_queue s)) (mset (sc_queue (snd (pop_group s))))"
proof -
  let ?n = "length (sc_queue s)"
  define t where "t = heap_pop group_less group_swap ?n s"
  have heap': "queue_ok s" "heap_order (<) (length (queue_keys s)) (queue_keys s)" using heap by (simp_all add: queue_heap_def)
  have same: "same_plan s t" unfolding t_def by (rule heap_keeps_plan(2))
  have pop: "queue_ok t" "mset (queue_keys t) = mset (queue_keys s)" "heap_order (<) (?n - 1) (queue_keys t)"
    "queue_keys t ! (?n - 1) = queue_keys s ! 0"
    using plan_heap.pop_correct [OF heap'(1) _ heap'(2)] ne by (auto simp: t_def)
  have len: "length (sc_queue t) = ?n" using mset_eq_length [OF pop(2)] by simp
  have net: "sc_queue t \<noteq> []" using len ne by (metis length_0_conv)
  have "last (queue_keys t) = hd (queue_keys s)"
    using pop(4) len ne net by (simp add: last_conv_nth hd_conv_nth queue_keys_def)
  then have last: "last (sc_queue t) = hd (sc_queue s)"
    using net ne by (simp add: queue_keys_def last_map hd_map plan_key_def)
  define gid where "gid = hd (sc_queue s)"
  define u where "u = snd (pop_group s)"
  have u: "u = set_heapIndex gid (- 1) (t\<lparr>sc_queue := butlast (sc_queue t)\<rparr>)" and f: "fst (pop_group s) = gid"
    by (simp_all add: u_def pop_group_def Let_def t_def [symmetric] last gid_def)
  have split: "sc_queue t = sc_queue u @ [gid]" using net by (simp add: u last [symmetric] gid_def)
  have plan: "plan u = plan s" using same by (simp add: u same_plan_def)
  have "mset (sc_queue t) = mset (sc_queue s)" by (rule mset_queue [OF pop(2)])
  then show "mset (sc_queue s) = add_mset (hd (sc_queue s)) (mset (sc_queue (snd (pop_group s))))"
    using split by (simp add: gid_def u_def)
  show "fst (pop_group s) = hd (sc_queue s)" by (simp add: f gid_def)
  show "same_plan s (snd (pop_group s))" using same by (simp add: u_def [symmetric] u)
  have dist: "distinct (sc_queue t)" using pop(1) by (simp add: queue_ok_def)
  have ok: "queue_ok u"
    unfolding queue_ok_def
  proof (intro conjI allI impI)
    show "distinct (sc_queue u)" using dist by (simp add: split)
    fix i
    assume i: "i < length (sc_queue u)"
    then have "i < length (sc_queue t)" by (simp add: split)
    then obtain e where "mget (sc_entries t) (sc_queue t ! i) = Some e" "gr_ID (ge_group e) = sc_queue t ! i"
      "ge_heapIndex e = int i" using queue_okD [OF pop(1)] by blast
    moreover have "sc_queue u ! i \<noteq> gid" using dist i by (auto simp: split)
    moreover have "sc_queue t ! i = sc_queue u ! i" using i by (simp add: split nth_append)
    ultimately show "\<exists>e. mget (sc_entries u) (sc_queue u ! i) = Some e \<and> gr_ID (ge_group e) = sc_queue u ! i
        \<and> ge_heapIndex e = int i" by (simp add: u mget_index)
  qed
  have planu: "plan u = plan t" by (simp add: u)
  have keys: "queue_keys t = queue_keys u @ [plan_key s gid]"
    using keys_plan [OF plan] keys_plan [OF planu] by (simp add: queue_keys_def split)
  have "heap_order (<) (length (sc_queue u)) (queue_keys u)"
    unfolding heap_order_def
  proof (intro allI impI)
    fix k
    assume k: "0 < k" "k < length (sc_queue u)"
    have "par k < length (sc_queue u)" using k par_less [OF k(1)] by simp
    moreover have "\<not> queue_keys t ! k < queue_keys t ! par k"
      using pop(3) k len by (simp add: heap_order_def split)
    ultimately show "\<not> queue_keys u ! k < queue_keys u ! par k" using k(2) by (simp add: keys nth_append)
  qed
  with ok show "queue_heap (snd (pop_group s))" by (simp add: queue_heap_def u_def)
qed

lemma put_entry_plan: "plan (put_entry gid e s) = (plan s)(gid \<mapsto> unindex e)"
  by (simp add: plan_def put_entry_def fun_eq_iff)

lemma put_entry_queue_ok:
  assumes "queue_ok s" "mget (sc_entries s) gid = Some e" "gr_ID (ge_group e') = gr_ID (ge_group e)"
    "ge_heapIndex e' = ge_heapIndex e"
  shows "queue_ok (put_entry gid e' s)"
  using assms by (auto simp: queue_ok_def put_entry_def)

lemma fix_group_correct:
  assumes heap: "queue_heap s" and gid: "gid \<in> set (sc_queue s)" "mget (sc_entries s) gid = Some e"
    and e': "gr_ID (ge_group e') = gr_ID (ge_group e)" "ge_heapIndex e' = ge_heapIndex e"
  defines "t \<equiv> put_entry gid e' s"
  shows "queue_heap (fix_group gid t)" and "same_plan t (fix_group gid t)"
    and "mset (sc_queue (fix_group gid t)) = mset (sc_queue s)"
proof -
  have ok: "queue_ok s" and order: "heap_order (<) (length (sc_queue s)) (queue_keys s)" using heap by (simp_all add: queue_heap_def)
  obtain i where i: "i < length (sc_queue s)" "sc_queue s ! i = gid" using gid(1) by (auto simp: in_set_conv_nth)
  have hi: "ge_heapIndex e = int i" using queue_okD [OF ok i(1)] i(2) gid(2) by (metis option.inject)
  have okt: "queue_ok t" unfolding t_def by (rule put_entry_queue_ok [OF ok gid(2) e'])
  have qt: "sc_queue t = sc_queue s" by (simp add: t_def put_entry_def)
  have fix_eq: "fix_group gid t = heap_fix group_less group_swap i (length (queue_keys t)) t"
    using e'(2) hi by (simp add: fix_group_def t_def put_entry_def)
  have dist: "distinct (sc_queue s)" using ok by (simp add: queue_ok_def)
  have other: "queue_keys t ! k = queue_keys s ! k" if "k < length (sc_queue s)" "k \<noteq> i" for k
  proof -
    have "sc_queue s ! k \<noteq> gid" using dist that i nth_eq_iff_index_eq by metis
    then have "plan t (sc_queue s ! k) = plan s (sc_queue s ! k)" by (simp add: t_def put_entry_plan)
    then show ?thesis using that(1) by (simp add: queue_keys_def qt plan_key_def next_run_def)
  qed
  have old: "\<not> queue_keys s ! k < queue_keys s ! par k" if "0 < k" "k < length (sc_queue s)" for k
    using order that by (simp add: heap_order_def)
  have fixd: "queue_ok (fix_group gid t)" "mset (queue_keys (fix_group gid t)) = mset (queue_keys t)"
    "heap_order (<) (length (queue_keys t)) (queue_keys (fix_group gid t))"
  proof -
    have "queue_ok (fix_group gid t) \<and> mset (queue_keys (fix_group gid t)) = mset (queue_keys t)
      \<and> heap_order (<) (length (queue_keys t)) (queue_keys (fix_group gid t))"
      unfolding fix_eq
    proof (rule plan_heap.fix_correct [OF okt])
      show "i < length (queue_keys t)" using i(1) by (simp add: qt)
    next
      fix k
      assume k: "0 < k" "k < length (queue_keys t)" "k \<noteq> i" "par k \<noteq> i"
      then have "par k < length (sc_queue s)" using par_less [OF k(1)] by (simp add: qt)
      then show "\<not> queue_keys t ! k < queue_keys t ! par k" using old [of k] k by (simp add: other qt)
    next
      fix k
      assume k: "0 < k" "k < length (queue_keys t)" "par k = i" "0 < i"
      have len: "par i < length (sc_queue s)" "par i \<noteq> i" "k \<noteq> i"
        using par_less [OF k(4)] par_less [OF k(1)] i(1) k(3) by auto
      have "\<not> queue_keys s ! k < queue_keys s ! i" "\<not> queue_keys s ! i < queue_keys s ! par i"
        using old [of k] old [of i] k i(1) by (simp_all add: qt)
      then show "\<not> queue_keys t ! k < queue_keys t ! par i" using len k by (simp add: other qt)
    qed
    then show "queue_ok (fix_group gid t)" "mset (queue_keys (fix_group gid t)) = mset (queue_keys t)"
      "heap_order (<) (length (queue_keys t)) (queue_keys (fix_group gid t))" by blast+
  qed
  have "length (queue_keys (fix_group gid t)) = length (queue_keys t)" by (rule mset_eq_length [OF fixd(2)])
  with fixd show "queue_heap (fix_group gid t)" by (simp add: queue_heap_def)
  show "same_plan t (fix_group gid t)" unfolding fix_eq by (rule heap_keeps_plan(3))
  show "mset (sc_queue (fix_group gid t)) = mset (sc_queue s)" using mset_queue [OF fixd(2)] by (simp add: qt)
qed

lemma put_entry_quiet:
  assumes heap: "queue_heap s" and gid: "mget (sc_entries s) gid = Some e"
    and e': "gr_ID (ge_group e') = gr_ID (ge_group e)" "ge_heapIndex e' = ge_heapIndex e" "ge_nextRunAt e' = ge_nextRunAt e"
  shows "queue_heap (put_entry gid e' s)"
proof -
  have "plan_key (put_entry gid e' s) = plan_key s"
    using gid e'(3) by (auto simp: plan_key_def next_run_def put_entry_plan fun_eq_iff plan_def)
  then have "queue_keys (put_entry gid e' s) = queue_keys s" by (simp add: queue_keys_def put_entry_def)
  then show ?thesis
    using heap put_entry_queue_ok [OF _ gid e'(1,2)] by (simp add: queue_heap_def) (simp add: put_entry_def)
qed

lemma queue_root_first:
  assumes "queue_heap s" "gid \<in> set (sc_queue s)"
  shows "plan_key s (hd (sc_queue s)) \<le> plan_key s gid"
proof -
  obtain k where k: "k < length (sc_queue s)" "sc_queue s ! k = gid" using assms(2) by (auto simp: in_set_conv_nth)
  have "heap_order (<) (length (sc_queue s)) (queue_keys s)" using assms(1) by (simp add: queue_heap_def)
  from plan_heap.heap_root_least [OF this k(1)] have "\<not> queue_keys s ! k < queue_keys s ! 0" .
  moreover have "sc_queue s \<noteq> []" using k by auto
  ultimately show ?thesis using k by (simp add: queue_keys_def hd_conv_nth not_less)
qed

end
