(* ===== verification/Scheduling_Refine.thy ===== *)
theory Scheduling_Refine
  imports Scheduling_Heap
begin

text \<open>
  The scheduler without its heap: an abstract plan that maps each group to its entry, with the in-flight
  counters and the queued tasks (\<open>abs_sched\<close>).  Every operation of \<open>Scheduling\<close> keeps the invariant \<open>sched_inv\<close> and
  does to the abstract plan what the operation of the same name here says; \<open>dispatchDue\<close> runs the due
  groups in the order of their planned times.
\<close>

record SchedPlan =
  sp_plan :: "string \<Rightarrow> groupEntry option"
  sp_inFlight :: "string \<Rightarrow> int"
  sp_tasks :: "collectionTask list"

definition abs_sched :: "Scheduler \<Rightarrow> SchedPlan" where
  "abs_sched s = \<lparr>sp_plan = plan s, sp_inFlight = inFlight s, sp_tasks = sc_tasks s\<rparr>"

definition run_group :: "SchedulerConfig \<Rightarrow> bool \<Rightarrow> time \<Rightarrow> string \<Rightarrow> SchedPlan \<Rightarrow> SchedPlan" where
  "run_group cfg stopped now gid a =
     (case sp_plan a gid of
        None \<Rightarrow> a
      | Some e \<Rightarrow>
          (let e' = advance_entry now e; b = a\<lparr>sp_plan := (sp_plan a)(gid \<mapsto> e')\<rparr> in
           if sp_inFlight a gid = 0
           then if stopped then b
             else if int (length (sp_tasks a)) < sg_QueueCapacity cfg
             then b\<lparr>sp_tasks := sp_tasks a @ [\<lparr>tk_group = ge_group e, tk_scheduledAt = to_UnixNano (ge_nextRunAt e)\<rparr>],
                    sp_inFlight := (sp_inFlight a)(gid := 1)\<rparr>
             else a\<lparr>sp_plan := (sp_plan a)(gid \<mapsto> postpone_entry (sg_RetryBase cfg) now e')\<rparr>
           else b))"

definition complete_group :: "SchedulerConfig \<Rightarrow> time \<Rightarrow> collectionDone \<Rightarrow> SchedPlan \<Rightarrow> SchedPlan" where
  "complete_group cfg now d a =
     (let gid = dn_groupID d; n = sp_inFlight a gid;
          b = a\<lparr>sp_inFlight := (sp_inFlight a)(gid := (if n > 1 then n - 1 else 0))\<rparr> in
      case sp_plan a gid of
        None \<Rightarrow> b
      | Some e \<Rightarrow> b\<lparr>sp_plan := (sp_plan a)(gid \<mapsto>
          (case dn_err d of None \<Rightarrow> e\<lparr>ge_failures := 0\<rparr> | Some _ \<Rightarrow> fst (fail_entry cfg now e)))\<rparr>)"

definition replace_plan :: "SchedulerConfig \<Rightarrow> time \<Rightarrow> Group list \<Rightarrow> SchedPlan \<Rightarrow> SchedPlan" where
  "replace_plan cfg now groups a =
     a\<lparr>sp_plan := (\<lambda>gid. map_option (desired_entry now cfg (sp_plan a gid)) (mget (desired_groups groups) gid))\<rparr>"

definition sched_inv :: "Scheduler \<Rightarrow> bool" where
  "sched_inv s \<longleftrightarrow> queue_heap s \<and> wf_map (sc_entries s) \<and> set (sc_queue s) = set (mkeys (sc_entries s))
     \<and> 0 < sg_RetryBase (sc_config s) \<and> 0 < sc_batchSize s"

lemma sched_invD:
  assumes "sched_inv s"
  shows "queue_heap s" "wf_map (sc_entries s)" "set (sc_queue s) = set (mkeys (sc_entries s))"
    "0 < sg_RetryBase (sc_config s)" "0 < sc_batchSize s" "distinct (sc_queue s)"
  using assms by (auto simp: sched_inv_def queue_heap_def queue_ok_def)

lemma plan_None_iff: "plan s gid = None \<longleftrightarrow> gid \<notin> set (mkeys (sc_entries s))"
  by (simp add: plan_def mget_None_iff)

lemma plan_ID:
  assumes "sched_inv s" "plan s gid = Some e"
  shows "gr_ID (ge_group e) = gid" "gid \<in> set (sc_queue s)"
proof -
  have "gid \<in> set (mkeys (sc_entries s))" using plan_None_iff [of s gid] assms(2) by auto
  then show q: "gid \<in> set (sc_queue s)" using sched_invD(3) [OF assms(1)] by simp
  then obtain i where i: "i < length (sc_queue s)" "sc_queue s ! i = gid" by (auto simp: in_set_conv_nth)
  have "queue_ok s" using sched_invD(1) [OF assms(1)] by (simp add: queue_heap_def)
  then obtain e' where e': "mget (sc_entries s) (sc_queue s ! i) = Some e'" "gr_ID (ge_group e') = sc_queue s ! i"
    using i(1) by (rule queue_okD)
  then have "e = unindex e'" using assms(2) i(2) by (simp add: plan_def)
  with e'(2) i(2) show "gr_ID (ge_group e) = gid" by simp
qed

text \<open>What keeps the plan's keys keeps the invariant.\<close>

lemma sched_inv_keep:
  assumes "sched_inv s" "queue_heap s'" "mset (sc_queue s') = mset (sc_queue s)"
    "mkeys (sc_entries s') = mkeys (sc_entries s)" "sc_config s' = sc_config s" "sc_batchSize s' = sc_batchSize s"
  shows "sched_inv s'"
  using assms mset_eq_setD [OF assms(3)] unfolding sched_inv_def wf_map_def by simp

lemma advance_unindex: "advance_entry now (unindex e) = unindex (advance_entry now e)"
  by (simp add: advance_entry_def unindex_def Let_def)

lemma postpone_unindex: "postpone_entry b now (unindex e) = unindex (postpone_entry b now e)"
  by (simp add: postpone_entry_def unindex_def)

lemma fail_unindex: "fst (fail_entry cfg now (unindex e)) = unindex (fst (fail_entry cfg now e))"
  by (simp add: fail_entry_def unindex_def Let_def)

lemma desired_unindex:
  "desired_entry now cfg (map_option unindex old) g = unindex (desired_entry now cfg old g)"
  by (cases old) (simp_all add: desired_entry_def unindex_def Let_def)

lemma advance_frame [simp]:
  "ge_group (advance_entry now e) = ge_group e" "ge_heapIndex (advance_entry now e) = ge_heapIndex e"
  "ge_failures (advance_entry now e) = ge_failures e" "\<not> ge_retrying (advance_entry now e)"
  by (simp_all add: advance_entry_def Let_def)

lemma postpone_frame [simp]:
  "ge_group (postpone_entry b now e) = ge_group e" "ge_heapIndex (postpone_entry b now e) = ge_heapIndex e"
  "ge_nextRunAt (postpone_entry b now e) = time_Add now b" "ge_nextCadence (postpone_entry b now e) = ge_nextRunAt e"
  "ge_retrying (postpone_entry b now e)"
  by (simp_all add: postpone_entry_def)

lemma fail_frame [simp]:
  "ge_group (fst (fail_entry cfg now e)) = ge_group e" "ge_heapIndex (fst (fail_entry cfg now e)) = ge_heapIndex e"
  by (simp_all add: fail_entry_def Let_def)

lemma put_entry_frame [simp]:
  "sc_queue (put_entry gid e s) = sc_queue s" "sc_config (put_entry gid e s) = sc_config s"
  "sc_batchSize (put_entry gid e s) = sc_batchSize s" "sc_inFlightIDs (put_entry gid e s) = sc_inFlightIDs s"
  "sc_tasks (put_entry gid e s) = sc_tasks s"
  by (simp_all add: put_entry_def)

lemma put_entry_keys: "mget (sc_entries s) gid = Some e \<Longrightarrow> mkeys (sc_entries (put_entry gid e' s)) = mkeys (sc_entries s)"
  using mget_in [of "sc_entries s" gid e] by (simp add: put_entry_def mkeys_put)

lemma queue_heap_frame:
  assumes "sc_entries s' = sc_entries s" "sc_queue s' = sc_queue s"
  shows "queue_heap s' = queue_heap s"
proof -
  have plan: "plan s' = plan s" by (simp add: plan_def fun_eq_iff assms)
  have "queue_keys s' = queue_keys s" unfolding queue_keys_def assms(2) by (simp add: keys_plan [OF plan])
  then show ?thesis by (simp add: queue_heap_def queue_ok_def assms)
qed

lemma put_entry_outside:
  assumes "queue_heap s" "gid \<notin> set (sc_queue s)"
  shows "queue_heap (put_entry gid e s)"
proof -
  have other: "k \<noteq> gid" if "k \<in> set (sc_queue s)" for k using that assms(2) by blast
  have "plan_key (put_entry gid e s) k = plan_key s k" if "k \<in> set (sc_queue s)" for k
    using other [OF that] by (simp add: plan_key_def next_run_def put_entry_plan)
  then have keys: "queue_keys (put_entry gid e s) = queue_keys s"
    unfolding queue_keys_def put_entry_frame by (intro map_cong refl)
  have get: "mget (sc_entries (put_entry gid e s)) (sc_queue s ! i) = mget (sc_entries s) (sc_queue s ! i)"
    if "i < length (sc_queue s)" for i using other [OF nth_mem [OF that]] by (simp add: put_entry_def)
  have "queue_ok s" using assms(1) by (simp add: queue_heap_def)
  then have "queue_ok (put_entry gid e s)" unfolding queue_ok_def put_entry_frame using get by metis
  then show ?thesis using assms(1) by (simp add: queue_heap_def keys)
qed

section \<open>One round of the dispatch loop\<close>

lemma inFlight_same: "sc_inFlightIDs s' = sc_inFlightIDs s \<Longrightarrow> inFlight s' = inFlight s"
  by (simp add: inFlight_def fun_eq_iff)

lemma same_planD:
  assumes "same_plan s s'"
  shows "plan s' = plan s" "mkeys (sc_entries s') = mkeys (sc_entries s)" "sc_config s' = sc_config s"
    "sc_batchSize s' = sc_batchSize s" "inFlight s' = inFlight s" "sc_tasks s' = sc_tasks s"
  using assms by (simp_all add: same_plan_def inFlight_def fun_eq_iff)

lemma offer_task_refines:
  assumes inv: "sched_inv s" and e: "mget (sc_entries s) gid = Some e"
    and offer: "offer_task stopped now planned gid s = (s', goon)"
  shows "sched_inv s'" and "sc_config s' = sc_config s" and "goon \<longleftrightarrow> \<not> (stopped \<and> inFlight s gid = 0)"
    and "abs_sched s' =
      (if inFlight s gid = 0
       then if stopped then abs_sched s
         else if int (length (sc_tasks s)) < sg_QueueCapacity (sc_config s)
         then (abs_sched s)\<lparr>sp_tasks := sc_tasks s @ [\<lparr>tk_group = ge_group e, tk_scheduledAt = to_UnixNano planned\<rparr>],
                sp_inFlight := (inFlight s)(gid := 1)\<rparr>
         else (abs_sched s)\<lparr>sp_plan := (plan s)(gid \<mapsto> unindex (postpone_entry (sg_RetryBase (sc_config s)) now e))\<rparr>
       else abs_sched s)"
proof -
  have gid: "gr_ID (ge_group e) = gid" "gid \<in> set (sc_queue s)"
    using plan_ID [OF inv, of gid "unindex e"] e by (simp_all add: plan_def)
  note offer' = offer [unfolded offer_task_def e option.case Let_def gid]
  have all: "sched_inv s' \<and> sc_config s' = sc_config s \<and> (goon \<longleftrightarrow> \<not> (stopped \<and> inFlight s gid = 0)) \<and> abs_sched s' =
      (if inFlight s gid = 0
       then if stopped then abs_sched s
         else if int (length (sc_tasks s)) < sg_QueueCapacity (sc_config s)
         then (abs_sched s)\<lparr>sp_tasks := sc_tasks s @ [\<lparr>tk_group = ge_group e, tk_scheduledAt = to_UnixNano planned\<rparr>],
                sp_inFlight := (inFlight s)(gid := 1)\<rparr>
         else (abs_sched s)\<lparr>sp_plan := (plan s)(gid \<mapsto> unindex (postpone_entry (sg_RetryBase (sc_config s)) now e))\<rparr>
       else abs_sched s)"
  proof (cases "inFlight s gid = 0 \<and> \<not> stopped")
    case False
    then have "s' = s" "goon \<longleftrightarrow> \<not> (stopped \<and> inFlight s gid = 0)" using offer' by (auto split: if_splits)
    then show ?thesis using inv False by auto
  next
    case free: True
    show ?thesis
    proof (cases "int (length (sc_tasks s)) < sg_QueueCapacity (sc_config s)")
      case True
      then have s': "s' = s\<lparr>sc_tasks := sc_tasks s @ [\<lparr>tk_group = ge_group e, tk_scheduledAt = to_UnixNano planned\<rparr>],
          sc_inFlightIDs := mput gid 1 (sc_inFlightIDs s)\<rparr>" "goon"
        using offer' free by simp_all
      have "plan s' = plan s" "inFlight s' = (inFlight s)(gid := 1)"
        by (simp_all add: s' plan_def inFlight_def fun_eq_iff)
      moreover have "queue_heap s'"
        using sched_invD(1) [OF inv] queue_heap_frame [of s' s] by (simp add: s')
      then have "sched_inv s'" by (rule sched_inv_keep [OF inv]) (simp_all add: s')
      ultimately show ?thesis using True free by (simp add: abs_sched_def s')
    next
      case full: False
      define e' where "e' = postpone_entry (sg_RetryBase (sc_config s)) now e"
      have s': "s' = fix_group gid (put_entry gid e' s)" "goon" using offer' free full by (simp_all add: e'_def)
      have f: "gr_ID (ge_group e') = gr_ID (ge_group e)" "ge_heapIndex e' = ge_heapIndex e" by (simp_all add: e'_def)
      note fx = fix_group_correct [OF sched_invD(1) [OF inv] gid(2) e f]
      note sp = same_planD [OF fx(2)]
      have "sched_inv s'"
        unfolding s' by (rule sched_inv_keep [OF inv fx(1,3)]) (simp_all add: sp put_entry_keys [OF e] del: map_map)
      moreover have "abs_sched s' = (abs_sched s)\<lparr>sp_plan := (plan s)(gid \<mapsto> unindex e')\<rparr>"
        using inFlight_same [of "put_entry gid e' s" s] by (simp add: abs_sched_def s' sp put_entry_plan)
      ultimately show ?thesis using free full s'(2) sp(3) by (simp add: s'(1) e'_def)
    qed
  qed
  then show "sched_inv s'" "sc_config s' = sc_config s" "goon \<longleftrightarrow> \<not> (stopped \<and> inFlight s gid = 0)"
    "abs_sched s' =
      (if inFlight s gid = 0
       then if stopped then abs_sched s
         else if int (length (sc_tasks s)) < sg_QueueCapacity (sc_config s)
         then (abs_sched s)\<lparr>sp_tasks := sc_tasks s @ [\<lparr>tk_group = ge_group e, tk_scheduledAt = to_UnixNano planned\<rparr>],
                sp_inFlight := (inFlight s)(gid := 1)\<rparr>
         else (abs_sched s)\<lparr>sp_plan := (plan s)(gid \<mapsto> unindex (postpone_entry (sg_RetryBase (sc_config s)) now e))\<rparr>
       else abs_sched s)" by blast+
qed

text \<open>The first due group, if there is one.\<close>

definition first_due :: "time \<Rightarrow> Scheduler \<Rightarrow> string option" where
  "first_due now s = (case sc_queue s of [] \<Rightarrow> None
     | gid # _ \<Rightarrow> if now < next_run s gid then None else Some gid)"

lemma dispatch_iter_refines:
  assumes inv: "sched_inv s" and run: "dispatch_iter stopped now s = (s', goon)"
  shows "sched_inv s'" and "sc_config s' = sc_config s"
    and "case first_due now s of
        None \<Rightarrow> s' = s \<and> \<not> goon
      | Some gid \<Rightarrow> abs_sched s' = run_group (sc_config s) stopped now gid (abs_sched s)
          \<and> (goon \<longleftrightarrow> \<not> (stopped \<and> inFlight s gid = 0))"
proof -
  have all: "sched_inv s' \<and> sc_config s' = sc_config s \<and> (case first_due now s of
        None \<Rightarrow> s' = s \<and> \<not> goon
      | Some gid \<Rightarrow> abs_sched s' = run_group (sc_config s) stopped now gid (abs_sched s)
          \<and> (goon \<longleftrightarrow> \<not> (stopped \<and> inFlight s gid = 0)))"
  proof (cases "sc_queue s")
    case Nil
    then show ?thesis using run inv by (simp add: dispatch_iter_def first_due_def)
  next
    case (Cons gid rest)
    have ne: "sc_queue s \<noteq> []" and hd: "hd (sc_queue s) = gid" using Cons by simp_all
    have "gid \<in> set (mkeys (sc_entries s))" using sched_invD(3) [OF inv] Cons by auto
    then obtain root where root: "mget (sc_entries s) gid = Some root" by (metis mget_None_iff option.exhaust)
    have nr: "next_run s gid = ge_nextRunAt root" by (simp add: next_run_def plan_def root)
    show ?thesis
    proof (cases "now < ge_nextRunAt root")
      case True
      then show ?thesis using run inv Cons root nr by (simp add: dispatch_iter_def first_due_def)
    next
      case due: False
      note pop = pop_group_correct [OF sched_invD(1) [OF inv] ne]
      define s1 where "s1 = snd (pop_group s)"
      have pop_eq: "pop_group s = (gid, s1)" using pop(1) hd by (simp add: s1_def prod_eq_iff)
      note sp1 = same_planD [OF pop(3), folded s1_def]
      have "map_option unindex (mget (sc_entries s1) gid) = Some (unindex root)"
        using fun_cong [OF sp1(1), of gid] root by (simp add: plan_def)
      then obtain e where e: "mget (sc_entries s1) gid = Some e" "unindex e = unindex root" by auto
      have eID: "gr_ID (ge_group e) = gid"
        using plan_ID(1) [OF inv, of gid "unindex root"] root e(2) by (metis plan_def option.map(2) unindex_fields(1))
      define s2 where "s2 = put_entry gid (advance_entry now e) s1"
      have q: "mset (sc_queue s) = add_mset gid (mset (sc_queue s1))" using pop(4) hd by (simp add: s1_def)
      have "distinct (gid # sc_queue s1)" using sched_invD(6) [OF inv] q by (metis mset.simps(2) mset_eq_imp_distinct_iff)
      then have out: "gid \<notin> set (sc_queue s2)" by (simp add: s2_def)
      have heap2: "queue_heap s2"
        unfolding s2_def by (rule put_entry_outside [OF pop(2) [folded s1_def]]) (use out in \<open>simp add: s2_def\<close>)
      have e2: "mget (sc_entries s2) gid = Some (advance_entry now e)" by (simp add: s2_def put_entry_def)
      define s3 where "s3 = push_group gid s2"
      have "gr_ID (ge_group (advance_entry now e)) = gid" by (simp add: eID)
      note push = push_group_correct [OF heap2 out e2 this, folded s3_def]
      note sp3 = same_planD [OF push(2)]
      have keys: "mkeys (sc_entries s3) = mkeys (sc_entries s)"
        using sp3(2) sp1(2) put_entry_keys [OF e(1)] by (simp add: s2_def)
      have q3: "mset (sc_queue s3) = mset (sc_queue s)" using push(3) q by (simp add: s2_def)
      have cfg3: "sc_config s3 = sc_config s" "sc_batchSize s3 = sc_batchSize s"
        using sp3(3,4) sp1(3,4) by (simp_all add: s2_def)
      have inv3: "sched_inv s3" by (rule sched_inv_keep [OF inv push(1) q3 keys cfg3])
      have plan3: "plan s3 = (plan s)(gid \<mapsto> advance_entry now (unindex root))"
        using sp3(1) sp1(1) e(2) by (simp add: s2_def put_entry_plan advance_unindex [symmetric])
      have fl3: "inFlight s3 = inFlight s" "sc_tasks s3 = sc_tasks s"
        using sp3(5,6) sp1(5,6) inFlight_same [of s2 s1] by (simp_all add: s2_def)
      have "plan s3 gid = Some (advance_entry now (unindex root))" by (simp add: plan3)
      then obtain e3 where e3: "mget (sc_entries s3) gid = Some e3" "unindex e3 = advance_entry now (unindex root)"
        by (auto simp: plan_def)
      have same: "ge_nextRunAt e = ge_nextRunAt root" "ge_group e3 = ge_group root"
        using e(2) e3(2) by (metis unindex_fields(2)) (metis e3(2) unindex_fields(1) advance_frame(1))
      have "offer_task stopped now (ge_nextRunAt root) gid s3 = (s', goon)"
        using run Cons root due pop_eq e(1) same by (simp add: dispatch_iter_def s2_def s3_def)
      note offer = offer_task_refines [OF inv3 e3(1) this]
      have abs3: "abs_sched s3 = (abs_sched s)\<lparr>sp_plan := (plan s)(gid \<mapsto> advance_entry now (unindex root))\<rparr>"
        by (simp add: abs_sched_def plan3 fl3)
      have "abs_sched s' = run_group (sc_config s) stopped now gid (abs_sched s)"
        unfolding offer(4) abs3 cfg3 fl3 plan3 postpone_unindex [symmetric] e3(2) same
        by (simp add: run_group_def abs_sched_def plan_def root Let_def)
      moreover have "first_due now s = Some gid" using Cons due nr by (simp add: first_due_def)
      ultimately show ?thesis using offer(1,2,3) cfg3 fl3 by simp
    qed
  qed
  then show "sched_inv s'" "sc_config s' = sc_config s" "case first_due now s of
        None \<Rightarrow> s' = s \<and> \<not> goon
      | Some gid \<Rightarrow> abs_sched s' = run_group (sc_config s) stopped now gid (abs_sched s)
          \<and> (goon \<longleftrightarrow> \<not> (stopped \<and> inFlight s gid = 0))" by blast+
qed

end
