(* ===== verification/Scheduling_Steps.thy ===== *)
theory Scheduling_Steps
  imports Scheduling_Refine
begin

text \<open>
  The other operations against the abstract plan: the whole loop of \<^verbatim>\<open>dispatchDue\<close>, completions and the
  replacement of the groups.
\<close>

section \<open>The dispatch loop\<close>

definition due_keys :: "time \<Rightarrow> Scheduler \<Rightarrow> (time \<times> string) list" where
  "due_keys now s = sort (filter (\<lambda>k. fst k \<le> now) (queue_keys s))"

definition due_groups :: "time \<Rightarrow> Scheduler \<Rightarrow> string list" where
  "due_groups now s = map snd (due_keys now s)"

lemma sort_least:
  fixes m :: "'a :: linorder"
  assumes "m \<in> set xs" "\<And>x. x \<in> set xs \<Longrightarrow> m \<le> x"
  shows "sort xs = m # sort (remove1 m xs)"
proof (rule properties_for_sort)
  show "mset (m # sort (remove1 m xs)) = mset xs" using assms(1) by simp
  show "sorted (m # sort (remove1 m xs))" using assms(2) by (auto dest: notin_set_remove1)
qed

lemma sort_mset_eq: "mset xs = mset ys \<Longrightarrow> sort xs = sort ys"
  by (rule properties_for_sort) simp_all

lemma due_empty:
  assumes inv: "sched_inv s"
  shows "first_due now s = None \<longleftrightarrow> due_groups now s = []"
proof (cases "sc_queue s")
  case Nil
  then show ?thesis by (simp add: first_due_def due_groups_def due_keys_def queue_keys_def)
next
  case (Cons gid rest)
  have least: "plan_key s gid \<le> plan_key s k" if "k \<in> set (sc_queue s)" for k
    using queue_root_first [OF sched_invD(1) [OF inv] that] Cons by simp
  have "filter (\<lambda>k. fst k \<le> now) (queue_keys s) = []" if "now < next_run s gid"
    using least that by (force simp: filter_empty_conv queue_keys_def plan_key_def less_eq_prod_def)
  moreover have "filter (\<lambda>k. fst k \<le> now) (queue_keys s) \<noteq> []" if "\<not> now < next_run s gid"
    using that Cons by (simp add: queue_keys_def plan_key_def)
  moreover have "sort xs = [] \<longleftrightarrow> xs = []" for xs :: "(time \<times> string) list" by (metis mset_sort mset_zero_iff)
  ultimately show ?thesis using Cons by (auto simp: first_due_def due_groups_def due_keys_def)
qed

lemma due_step:
  assumes inv: "sched_inv s" "sched_inv s'" and due: "first_due now s = Some gid"
    and queue: "mset (sc_queue s') = mset (sc_queue s)"
    and other: "\<And>k. k \<noteq> gid \<Longrightarrow> plan s' k = plan s k" and later: "now < next_run s' gid"
  shows "due_groups now s = gid # due_groups now s'"
proof -
  obtain rest where q: "sc_queue s = gid # rest" and le: "next_run s gid \<le> now"
    using due by (auto simp: first_due_def split: list.splits if_splits)
  have dist: "distinct (gid # rest)" using sched_invD(6) [OF inv(1)] q by simp
  have key: "plan_key s' k = plan_key s k" if "k \<noteq> gid" for k
    using other [OF that] by (simp add: plan_key_def next_run_def)
  let ?due = "\<lambda>k. fst k \<le> now"
  have "plan_key s gid \<le> plan_key s k" if "k \<in> set (sc_queue s)" for k
    using queue_root_first [OF sched_invD(1) [OF inv(1)] that] q by simp
  then have "sort (filter ?due (queue_keys s)) = plan_key s gid # sort (remove1 (plan_key s gid) (filter ?due (queue_keys s)))"
    using le q by (intro sort_least) (auto simp: queue_keys_def plan_key_def)
  also have "remove1 (plan_key s gid) (filter ?due (queue_keys s)) = filter ?due (map (plan_key s) rest)"
    using le q by (simp add: queue_keys_def plan_key_def)
  also have "sort (filter ?due (map (plan_key s) rest)) = sort (filter ?due (queue_keys s'))"
  proof (rule sort_mset_eq)
    have "mset (queue_keys s') = image_mset (plan_key s') (add_mset gid (mset rest))"
      by (simp add: queue_keys_def queue q)
    also have "\<dots> = add_mset (plan_key s' gid) (image_mset (plan_key s) (mset rest))"
    proof -
      have "image_mset (plan_key s') (mset rest) = image_mset (plan_key s) (mset rest)"
      proof (rule image_mset_cong)
        fix x
        assume "x \<in># mset rest"
        then have "x \<noteq> gid" using dist by auto
        then show "plan_key s' x = plan_key s x" by (rule key)
      qed
      then show ?thesis by simp
    qed
    finally have "filter_mset ?due (mset (queue_keys s')) = filter_mset ?due (image_mset (plan_key s) (mset rest))"
      using later by (simp add: plan_key_def)
    then show "mset (filter ?due (map (plan_key s) rest)) = mset (filter ?due (queue_keys s'))"
      by simp
  qed
  finally show ?thesis by (simp add: due_groups_def due_keys_def plan_key_def)
qed

text \<open>Times for which the code's arithmetic is exact.\<close>

definition due_sane :: "time \<Rightarrow> Scheduler \<Rightarrow> bool" where
  "due_sane now s \<longleftrightarrow> clock_time now \<and> sg_RetryBase (sc_config s) < 2 ^ 63 \<and>
     (\<forall>gid e. plan s gid = Some e \<longrightarrow> ge_nextRunAt e \<le> now \<longrightarrow> clock_time (ge_nextRunAt e) \<and>
        sane_period (CollectionPeriod (gr_Delay (ge_group e))) \<and> (ge_retrying e \<longrightarrow> clock_time (ge_nextCadence e)))"

lemma advance_later:
  assumes now: "clock_time now" and next_time: "clock_time (ge_nextRunAt e)"
    and p: "sane_period (CollectionPeriod (gr_Delay (ge_group e)))"
    and cadence: "ge_retrying e \<Longrightarrow> clock_time (ge_nextCadence e)"
  shows "now < ge_nextRunAt (advance_entry now e)"
  using advancePlanned_exact(1) [OF next_time now p] advancePlanned_exact(1) [OF cadence now p]
  by (cases "ge_retrying e") (auto simp: advance_entry_def Let_def)

lemma run_group_plan:
  assumes "sp_plan a gid = Some e"
  shows "k \<noteq> gid \<Longrightarrow> sp_plan (run_group cfg stopped now gid a) k = sp_plan a k"
    and "sp_plan (run_group cfg stopped now gid a) gid = Some (advance_entry now e)
      \<or> sp_plan (run_group cfg stopped now gid a) gid = Some (postpone_entry (sg_RetryBase cfg) now (advance_entry now e))"
  using assms by (auto simp: run_group_def Let_def)

lemma sched_queue_mset:
  assumes "sched_inv s" "sched_inv s'" "\<And>k. plan s' k = None \<longleftrightarrow> plan s k = None"
  shows "mset (sc_queue s') = mset (sc_queue s)"
proof -
  have "set (sc_queue s') = set (sc_queue s)"
    using assms(3) sched_invD(3) [OF assms(1)] sched_invD(3) [OF assms(2)] by (auto simp: plan_None_iff)
  then show ?thesis
    using set_eq_iff_mset_eq_distinct [OF sched_invD(6) [OF assms(2)] sched_invD(6) [OF assms(1)]] by blast
qed

lemma first_due_plan:
  assumes "sched_inv s" "first_due now s = Some gid"
  obtains e where "plan s gid = Some e" "ge_nextRunAt e \<le> now"
proof -
  obtain rest where q: "sc_queue s = gid # rest" and le: "next_run s gid \<le> now"
    using assms(2) by (auto simp: first_due_def split: list.splits if_splits)
  have "gid \<in> set (mkeys (sc_entries s))" using sched_invD(3) [OF assms(1)] q by auto
  then obtain e where "plan s gid = Some e" using plan_None_iff [of s gid] by fastforce
  with le that show thesis by (simp add: next_run_def)
qed

lemma dispatchDue_refines:
  assumes "sched_inv s" and "due_sane now s" and "length (due_groups now s) < fuel"
  shows "\<exists>s'. dispatchDue fuel now s = Some s' \<and> sched_inv s' \<and> sc_config s' = sc_config s
    \<and> abs_sched s' = fold (run_group (sc_config s) False now) (due_groups now s) (abs_sched s)
    \<and> (\<forall>gid e. plan s' gid = Some e \<longrightarrow> now < ge_nextRunAt e)"
  using assms
proof (induction fuel arbitrary: s)
  case 0
  then show ?case by simp
next
  case (Suc fuel)
  obtain s1 goon where it: "dispatch_iter False now s = (s1, goon)" by (cases "dispatch_iter False now s")
  note step = dispatch_iter_refines [OF Suc.prems(1) it]
  show ?case
  proof (cases "first_due now s")
    case None
    then have "due_groups now s = []" using due_empty [OF Suc.prems(1)] by blast
    moreover from this have "now < ge_nextRunAt e" if e: "plan s gid = Some e" for gid e
    proof -
      have "gid \<in> set (sc_queue s)" by (rule plan_ID(2) [OF Suc.prems(1) e])
      moreover have "filter (\<lambda>k. fst k \<le> now) (queue_keys s) = []"
        using \<open>due_groups now s = []\<close> by (simp add: due_groups_def due_keys_def) (metis mset_sort mset_zero_iff)
      ultimately show ?thesis using e by (auto simp: filter_empty_conv queue_keys_def plan_key_def next_run_def)
    qed
    ultimately show ?thesis using None step Suc.prems(1) it by auto
  next
    case (Some gid)
    then have abs1: "abs_sched s1 = run_group (sc_config s) False now gid (abs_sched s)" and goon: goon
      using step(3) by simp_all
    obtain e where e: "plan s gid = Some e" "ge_nextRunAt e \<le> now" by (rule first_due_plan [OF Suc.prems(1) Some])
    have sp: "sp_plan (abs_sched t) = plan t" for t by (simp add: abs_sched_def)
    have e': "sp_plan (abs_sched s) gid = Some e" by (simp add: sp e)
    note rg = run_group_plan [OF e', where cfg = "sc_config s" and stopped = False and now = now, folded abs1, unfolded sp]
    have sane: "clock_time now" "sg_RetryBase (sc_config s) < 2 ^ 63" "clock_time (ge_nextRunAt e)"
      "sane_period (CollectionPeriod (gr_Delay (ge_group e)))" "ge_retrying e \<Longrightarrow> clock_time (ge_nextCadence e)"
      using Suc.prems(2) e by (auto simp: due_sane_def)
    have rb: "0 < sg_RetryBase (sc_config s)" by (rule sched_invD(4) [OF Suc.prems(1)])
    have "time_Add now (sg_RetryBase (sc_config s)) = now + sg_RetryBase (sc_config s)"
      by (rule time_Add_sane [OF clock_sane [OF sane(1)]]) (use sane(2) rb in \<open>simp add: in_int64_def\<close>)
    then have later: "now < next_run s1 gid"
      using rg(2) advance_later [OF sane(1,3,4,5)] rb by (auto simp: next_run_def)
    have dom: "plan s1 k = None \<longleftrightarrow> plan s k = None" for k
      using rg e(1) by (cases "k = gid") auto
    note queue = sched_queue_mset [OF Suc.prems(1) step(1) dom]
    note due = due_step [OF Suc.prems(1) step(1) Some queue rg(1) later]
    have keep: "e1 = e2" if "plan s1 k = Some e1" "ge_nextRunAt e1 \<le> now" "plan s k = Some e2" for k e1 e2
      using that rg(1) [of k] later by (cases "k = gid") (auto simp: next_run_def)
    have "due_sane now s1"
      unfolding due_sane_def step(2)
    proof (intro conjI allI impI)
      fix k e1
      assume k: "plan s1 k = Some e1" "ge_nextRunAt e1 \<le> now"
      then have "k \<noteq> gid" using later by (auto simp: next_run_def)
      then have "plan s k = Some e1" using rg(1) k(1) by simp
      then show "clock_time (ge_nextRunAt e1)" "sane_period (CollectionPeriod (gr_Delay (ge_group e1)))"
        "ge_retrying e1 \<Longrightarrow> clock_time (ge_nextCadence e1)"
        using Suc.prems(2) k(2) by (auto simp: due_sane_def)
    qed (use sane in simp_all)
    moreover have "length (due_groups now s1) < fuel" using Suc.prems(3) due by simp
    ultimately obtain s' where "dispatchDue fuel now s1 = Some s'" "sched_inv s'" "sc_config s' = sc_config s1"
      "abs_sched s' = fold (run_group (sc_config s1) False now) (due_groups now s1) (abs_sched s1)"
      "\<forall>gid e. plan s' gid = Some e \<longrightarrow> now < ge_nextRunAt e"
      using Suc.IH [OF step(1)] by blast
    then show ?thesis using it goon due abs1 step(2) by simp
  qed
qed

section \<open>Completion\<close>

lemma handleDone_refines:
  assumes inv: "sched_inv s"
  shows "sched_inv (handleDone now d s)" and "sc_config (handleDone now d s) = sc_config s"
    and "abs_sched (handleDone now d s) = complete_group (sc_config s) now d (abs_sched s)"
proof -
  define gid where "gid = dn_groupID d"
  define t where "t = (if inFlight s gid > 1
      then s\<lparr>sc_inFlightIDs := mput gid (inFlight s gid - 1) (sc_inFlightIDs s)\<rparr>
      else s\<lparr>sc_inFlightIDs := mdel gid (sc_inFlightIDs s)\<rparr>)"
  have frame: "sc_entries t = sc_entries s" "sc_queue t = sc_queue s" "sc_config t = sc_config s"
    "sc_batchSize t = sc_batchSize s" "sc_tasks t = sc_tasks s" by (simp_all add: t_def)
  have fl: "inFlight t = (inFlight s)(gid := (if inFlight s gid > 1 then inFlight s gid - 1 else 0))"
    by (auto simp: t_def inFlight_def fun_eq_iff)
  have heap: "queue_heap t" using sched_invD(1) [OF inv] queue_heap_frame [OF frame(1,2)] by simp
  have invt: "sched_inv t" by (rule sched_inv_keep [OF inv heap]) (simp_all add: frame)
  have plan: "plan t = plan s" by (simp add: plan_def fun_eq_iff frame)
  have all: "sched_inv (handleDone now d s) \<and> sc_config (handleDone now d s) = sc_config s
    \<and> abs_sched (handleDone now d s) = complete_group (sc_config s) now d (abs_sched s)"
  proof (cases "mget (sc_entries s) gid")
    case None
    then have "handleDone now d s = t" by (simp add: handleDone_def Let_def gid_def [symmetric] t_def [symmetric] frame)
    moreover have "plan s gid = None" using None by (simp add: plan_def)
    ultimately show ?thesis
      using invt by (simp add: frame abs_sched_def complete_group_def Let_def gid_def [symmetric] fl plan)
  next
    case (Some e)
    have pe: "plan s gid = Some (unindex e)" using Some by (simp add: plan_def)
    have q: "gid \<in> set (sc_queue s)" by (rule plan_ID(2) [OF inv pe])
    define e' where "e' = (case dn_err d of None \<Rightarrow> e\<lparr>ge_failures := 0\<rparr> | Some _ \<Rightarrow> fst (fail_entry (sc_config s) now e))"
    have f: "gr_ID (ge_group e') = gr_ID (ge_group e)" "ge_heapIndex e' = ge_heapIndex e"
      by (simp_all add: e'_def split: option.split)
    define u where "u = put_entry gid e' t"
    have et: "mget (sc_entries t) gid = Some e" by (simp add: frame Some)
    have qt: "gid \<in> set (sc_queue t)" by (simp add: frame q)
    have ue: "(case dn_err d of None \<Rightarrow> (unindex e)\<lparr>ge_failures := 0\<rparr> | Some _ \<Rightarrow> fst (fail_entry (sc_config s) now (unindex e)))
        = unindex e'"
      by (simp add: e'_def fail_unindex split: option.split) (simp add: unindex_def)
    have absu: "abs_sched u = complete_group (sc_config s) now d (abs_sched s)"
      using inFlight_same [of u t]
      by (simp add: abs_sched_def u_def put_entry_plan plan complete_group_def Let_def gid_def [symmetric] pe ue fl frame)
    have "handleDone now d s = u \<and> ge_nextRunAt e' = ge_nextRunAt e \<or> handleDone now d s = fix_group gid u"
    proof (cases "dn_err d")
      case None
      then show ?thesis using Some
        by (simp add: handleDone_def Let_def gid_def [symmetric] t_def [symmetric] frame u_def e'_def)
    next
      case err: (Some x)
      have "\<not> snd (fail_entry (sc_config s) now e) \<Longrightarrow> ge_nextRunAt (fst (fail_entry (sc_config s) now e)) = ge_nextRunAt e"
        by (simp add: fail_entry_def Let_def split: if_splits)
      then show ?thesis using Some err
        by (cases "fail_entry (sc_config s) now e")
          (auto simp: handleDone_def Let_def gid_def [symmetric] t_def [symmetric] frame u_def e'_def)
    qed
    then show ?thesis
    proof
      assume quiet: "handleDone now d s = u \<and> ge_nextRunAt e' = ge_nextRunAt e"
      have "queue_heap u" unfolding u_def by (rule put_entry_quiet [OF heap et f]) (use quiet in simp)
      then have "sched_inv u" by (rule sched_inv_keep [OF invt]) (simp_all add: u_def put_entry_keys [OF et] del: map_map)
      then show ?thesis using quiet absu by (simp add: u_def frame)
    next
      assume fixed: "handleDone now d s = fix_group gid u"
      note fx = fix_group_correct [OF heap qt et f, folded u_def]
      note sp = same_planD [OF fx(2)]
      have "sched_inv (fix_group gid u)"
        by (rule sched_inv_keep [OF invt fx(1,3)])
          (simp_all only: sp, simp_all add: u_def put_entry_keys [OF et] del: map_map)
      moreover have "abs_sched (fix_group gid u) = abs_sched u" by (simp add: abs_sched_def sp)
      ultimately show ?thesis using absu sp(3) by (simp add: fixed) (simp add: u_def frame)
    qed
  qed
  then show "sched_inv (handleDone now d s)" "sc_config (handleDone now d s) = sc_config s"
    "abs_sched (handleDone now d s) = complete_group (sc_config s) now d (abs_sched s)" by blast+
qed

section \<open>Replacing the groups\<close>

lemma desired_wf: "wf_map (desired_groups groups)"
proof -
  have "wf_map m \<Longrightarrow> wf_map (fold (\<lambda>g desired. if gr_ID g = [] \<or> gr_Delay g \<le> 0 \<or> gr_Batches g = [] then desired
                       else mput (gr_ID g) (cloneGroup g) desired) groups m)" for m
    by (induction groups arbitrary: m) auto
  then show ?thesis by (simp add: desired_groups_def)
qed

lemma desired_get:
  assumes "mget (desired_groups groups) gid = Some g"
  shows "gr_ID g = gid" "gid \<noteq> []" "0 < gr_Delay g" "gr_Batches g \<noteq> []" "g \<in> set groups"
proof -
  let ?step = "\<lambda>g desired. if gr_ID g = [] \<or> gr_Delay g \<le> 0 \<or> gr_Batches g = [] then desired
                       else mput (gr_ID g) (cloneGroup g) desired"
  let ?ok = "\<lambda>gid g gs. gr_ID g = gid \<and> gid \<noteq> [] \<and> 0 < gr_Delay g \<and> gr_Batches g \<noteq> [] \<and> g \<in> set gs"
  have "mget (fold ?step gs []) gid = Some g \<Longrightarrow> ?ok gid g gs" for gid g gs
  proof (induction gs arbitrary: gid g rule: rev_induct)
    case (snoc x gs)
    show ?case
    proof (cases "gr_ID x = [] \<or> gr_Delay x \<le> 0 \<or> gr_Batches x = []")
      case True
      then have "mget (fold ?step gs []) gid = Some g" using snoc.prems by simp
      from snoc.IH [OF this] show ?thesis by auto
    next
      case False
      then have x: "(if gid = gr_ID x then Some x else mget (fold ?step gs []) gid) = Some g" using snoc.prems by simp
      show ?thesis
      proof (cases "gid = gr_ID x")
        case True
        with x False show ?thesis by auto
      next
        case other: False
        with x have "mget (fold ?step gs []) gid = Some g" by simp
        from snoc.IH [OF this] show ?thesis by auto
      qed
    qed
  qed simp
  from this [of groups gid g] assms show "gr_ID g = gid" "gid \<noteq> []" "0 < gr_Delay g" "gr_Batches g \<noteq> []" "g \<in> set groups"
    unfolding desired_groups_def by blast+
qed

lemma desired_group [simp]: "ge_group (desired_entry now cfg old g) = g"
  by (auto simp: desired_entry_def Let_def split: option.split)

lemma replace_fold:
  assumes "wf_map desired" and "\<And>k. k \<in> set (mkeys desired) \<Longrightarrow> k \<notin> set queue"
    and "wf_map entries" and "set queue = set (mkeys entries)" and "distinct queue"
  shows "\<exists>entries'. fold (replace_step now cfg old) desired (entries, queue) = (entries', queue @ mkeys desired)
    \<and> wf_map entries' \<and> set (queue @ mkeys desired) = set (mkeys entries') \<and> distinct (queue @ mkeys desired)
    \<and> (\<forall>k. k \<notin> set (mkeys desired) \<longrightarrow> mget entries' k = mget entries k)
    \<and> (\<forall>i < length desired. mget entries' (fst (desired ! i)) = Some
         ((desired_entry now cfg (mget old (fst (desired ! i))) (snd (desired ! i)))\<lparr>ge_heapIndex := int (length queue + i)\<rparr>))"
  using assms
proof (induction desired arbitrary: entries queue)
  case Nil
  then show ?case by simp
next
  case (Cons d desired)
  obtain gid g where d: "d = (gid, g)" by (cases d)
  have fresh: "gid \<notin> set queue" "gid \<notin> set (mkeys desired)" "wf_map desired"
    using Cons.prems(1,2) by (auto simp: d wf_map_def)
  define e where "e = (desired_entry now cfg (mget old gid) g)\<lparr>ge_heapIndex := int (length queue)\<rparr>"
  have ne: "gid \<notin> set (mkeys entries)" using fresh(1) Cons.prems(4) by simp
  have step: "replace_step now cfg old d (entries, queue) = (mput gid e entries, queue @ [gid])"
    by (simp add: replace_step_def d e_def)
  have 1: "k \<notin> set (queue @ [gid])" if "k \<in> set (mkeys desired)" for k
    using that Cons.prems(2) fresh(2) by (auto simp: d)
  have 2: "wf_map (mput gid e entries)" using Cons.prems(3) by simp
  have 3: "set (queue @ [gid]) = set (mkeys (mput gid e entries))" using ne Cons.prems(4) by (simp add: mkeys_put del: map_map)
  have 4: "distinct (queue @ [gid])" using Cons.prems(5) fresh(1) by simp
  from Cons.IH [OF fresh(3) 1 2 3 4] obtain entries' where i:
    "fold (replace_step now cfg old) desired (mput gid e entries, queue @ [gid]) = (entries', (queue @ [gid]) @ mkeys desired)"
    "wf_map entries'" "set ((queue @ [gid]) @ mkeys desired) = set (mkeys entries')"
    "distinct ((queue @ [gid]) @ mkeys desired)"
    "\<And>k. k \<notin> set (mkeys desired) \<Longrightarrow> mget entries' k = mget (mput gid e entries) k"
    "\<And>i. i < length desired \<Longrightarrow> mget entries' (fst (desired ! i)) = Some
         ((desired_entry now cfg (mget old (fst (desired ! i))) (snd (desired ! i)))\<lparr>ge_heapIndex := int (length (queue @ [gid]) + i)\<rparr>)"
    by blast
  have get: "mget entries' (fst ((d # desired) ! i)) = Some ((desired_entry now cfg (mget old (fst ((d # desired) ! i)))
       (snd ((d # desired) ! i)))\<lparr>ge_heapIndex := int (length queue + i)\<rparr>)" if "i < length (d # desired)" for i
  proof (cases i)
    case 0
    then show ?thesis using i(5) [OF fresh(2)] by (simp add: d e_def)
  next
    case (Suc j)
    then show ?thesis using i(6) [of j] that by simp
  qed
  show ?case
    using i(1-5) get by (intro exI [of _ entries']) (auto simp: step [unfolded d] d)
qed

lemma ReplaceGroups_refines:
  assumes inv: "sched_inv s" and run: "ReplaceGroups now groups s = (s', retained)"
  shows "sched_inv s'" and "sc_config s' = sc_config s"
    and "abs_sched s' = replace_plan (sc_config s) now groups (abs_sched s)"
    and "retained = map snd (desired_groups groups)"
proof -
  let ?d = "desired_groups groups"
  obtain entries where f: "fold (replace_step now (sc_config s) (sc_entries s)) ?d ([], []) = (entries, mkeys ?d)"
    "wf_map entries" "set (mkeys ?d) = set (mkeys entries)" "distinct (mkeys ?d)"
    "\<And>k. k \<notin> set (mkeys ?d) \<Longrightarrow> mget entries k = None"
    "\<And>i. i < length ?d \<Longrightarrow> mget entries (fst (?d ! i)) = Some
         ((desired_entry now (sc_config s) (mget (sc_entries s) (fst (?d ! i))) (snd (?d ! i)))\<lparr>ge_heapIndex := int i\<rparr>)"
    using replace_fold [OF desired_wf [of groups], of "[]" "[]" now "sc_config s" "sc_entries s"] by auto
  define t where "t = s\<lparr>sc_entries := entries, sc_queue := mkeys ?d\<rparr>"
  define u where "u = heap_init group_less group_swap (length (queue_keys t)) t"
  have s': "s' = u\<lparr>sc_wake := True\<rparr>" "retained = map snd ?d"
    using run by (auto simp: ReplaceGroups_def Let_def f(1) u_def t_def)
  have get: "mget entries k = map_option (\<lambda>g. (desired_entry now (sc_config s) (mget (sc_entries s) k) g)
      \<lparr>ge_heapIndex := (case mget entries k of None \<Rightarrow> 0 | Some e \<Rightarrow> ge_heapIndex e)\<rparr>) (mget ?d k)" for k
  proof (cases "mget ?d k")
    case None
    then have "k \<notin> set (mkeys ?d)" using mget_None_iff [of ?d k] by blast
    from f(5) [OF this] None show ?thesis by simp
  next
    case (Some g)
    then have "(k, g) \<in> set ?d" using wf_map_in_iff [OF desired_wf] by blast
    then obtain i where "i < length ?d" "?d ! i = (k, g)" by (auto simp: in_set_conv_nth)
    with f(6) [of i] Some show ?thesis by simp
  qed
  have ok: "queue_ok t"
    unfolding queue_ok_def
  proof (intro conjI allI impI)
    show "distinct (sc_queue t)" by (simp add: t_def f(4))
    fix i
    assume "i < length (sc_queue t)"
    then have i: "i < length ?d" by (simp add: t_def)
    have "(fst (?d ! i), snd (?d ! i)) \<in> set ?d" using i by simp
    then have "mget ?d (fst (?d ! i)) = Some (snd (?d ! i))" using wf_map_in_iff [OF desired_wf] by blast
    then have "gr_ID (snd (?d ! i)) = fst (?d ! i)" by (rule desired_get)
    then show "\<exists>e. mget (sc_entries t) (sc_queue t ! i) = Some e \<and> gr_ID (ge_group e) = sc_queue t ! i \<and> ge_heapIndex e = int i"
      using f(6) [OF i] i by (simp add: t_def)
  qed
  note init = plan_heap.init_correct [OF ok, folded u_def]
  have len: "length (queue_keys u) = length (queue_keys t)" using init by (intro mset_eq_length) blast
  have heap: "queue_heap u" using init len by (simp add: queue_heap_def)
  have same: "same_plan t u" unfolding u_def by (rule heap_keeps_plan(4))
  note sp = same_planD [OF same]
  have q: "mset (sc_queue u) = mset (mkeys ?d)" using mset_queue [of u t] init by (simp add: t_def)
  have keys: "mkeys (sc_entries u) = mkeys entries" using sp(2) by (simp add: t_def)
  have "queue_heap s'" using heap queue_heap_frame [of s' u] by (simp add: s')
  then show "sched_inv s'"
    using f(2,3) keys mset_eq_setD [OF q] sched_invD(4,5) [OF inv] sp(3,4)
    by (simp add: sched_inv_def s' wf_map_def t_def)
  show "sc_config s' = sc_config s" using sp(3) by (simp add: s' t_def)
  show "retained = map snd ?d" by (rule s'(2))
  have "plan t k = map_option (desired_entry now (sc_config s) (plan s k)) (mget ?d k)" for k
  proof -
    have "plan t k = map_option unindex (mget entries k)" by (simp add: t_def plan_def)
    also have "\<dots> = map_option (\<lambda>g. unindex (desired_entry now (sc_config s) (mget (sc_entries s) k) g)) (mget ?d k)"
      by (subst get) (simp add: option.map_comp comp_def)
    finally show ?thesis by (simp add: plan_def desired_unindex [symmetric])
  qed
  moreover have "plan s' = plan t" using sp(1) by (simp add: s' plan_def fun_eq_iff)
  moreover have "inFlight s' = inFlight s"
    using sp(5) by (simp add: s' inFlight_def fun_eq_iff t_def)
  moreover have "sc_tasks s' = sc_tasks s" using sp(6) by (simp add: s' t_def)
  ultimately show "abs_sched s' = replace_plan (sc_config s) now groups (abs_sched s)"
    by (simp add: abs_sched_def replace_plan_def fun_eq_iff)
qed

end
