(* ===== verification/Scheduling_System.thy ===== *)
theory Scheduling_System
  imports Scheduling_Steps
begin

text \<open>
  The dispatcher with its workers: the in-flight counter of a group is the number of its tasks in the
  queue, in a worker or on the way back, and that is at most one.
\<close>

definition work_IDs :: "SchedulerSystem \<Rightarrow> string list" where
  "work_IDs y = map task_ID (sc_tasks (sy_sched y)) @ map task_ID (sy_running y) @ map dn_groupID (sy_done y)"

definition work_inv :: "SchedPlan \<Rightarrow> string list \<Rightarrow> bool" where
  "work_inv a work \<longleftrightarrow> distinct work \<and> (\<forall>gid. sp_inFlight a gid = (if gid \<in> set work then 1 else 0))
     \<and> (\<forall>gid e. sp_plan a gid = Some e \<longrightarrow> ge_retrying e \<longrightarrow> gid \<notin> set work)"

definition sys_inv :: "SchedulerSystem \<Rightarrow> bool" where
  "sys_inv y \<longleftrightarrow> sched_inv (sy_sched y) \<and> work_inv (abs_sched (sy_sched y)) (work_IDs y)
     \<and> int (length (sc_tasks (sy_sched y))) \<le> sg_QueueCapacity (sc_config (sy_sched y))
     \<and> int (length (sy_running y)) \<le> sg_WorkerCount (sc_config (sy_sched y))
     \<and> int (length (sy_done y)) \<le> sg_WorkerCount (sc_config (sy_sched y))"

lemma NewScheduler_inv:
  assumes "NewScheduler hasExecutor config = Inr s"
  shows "sys_inv \<lparr>sy_sched = s, sy_running = [], sy_done = []\<rparr>"
proof -
  have s: "sc_config s = scheduler_defaults config" "sc_entries s = []" "sc_queue s = []" "sc_inFlightIDs s = []"
    "sc_tasks s = []" "0 < sc_batchSize s" "1 \<le> sg_WorkerCount (scheduler_defaults config)"
    "1 \<le> sg_QueueCapacity (scheduler_defaults config)" "0 \<le> sg_RetryBase (scheduler_defaults config)"
    using assms by (auto simp: NewScheduler_def NewGroupBuilder_def Let_def split: if_splits sum.splits)
  have "sg_RetryBase (scheduler_defaults config) \<noteq> 0" by (simp add: scheduler_defaults_def Second_def)
  with s show ?thesis
    by (simp add: sys_inv_def sched_inv_def queue_heap_def queue_ok_def queue_keys_def heap_order_def work_inv_def
        abs_sched_def plan_def work_IDs_def inFlight_def)
qed

lemma work_inv_perm: "work_inv a work \<Longrightarrow> mset work' = mset work \<Longrightarrow> work_inv a work'"
  using mset_eq_setD [of work' work] mset_eq_imp_distinct_iff [of work' work] by (simp add: work_inv_def)

lemma run_group_work:
  fixes gid :: string and now :: time and stopped :: bool
  assumes w: "work_inv a (map task_ID (sp_tasks a) @ rest)"
    and cap: "int (length (sp_tasks a)) \<le> sg_QueueCapacity cfg"
    and ids: "\<And>gid e. sp_plan a gid = Some e \<Longrightarrow> gr_ID (ge_group e) = gid"
  defines "a' \<equiv> run_group cfg stopped now gid a"
  shows "work_inv a' (map task_ID (sp_tasks a') @ rest) \<and> int (length (sp_tasks a')) \<le> sg_QueueCapacity cfg"
proof (cases "sp_plan a gid")
  case None
  then show ?thesis using w cap by (simp add: a'_def run_group_def)
next
  case (Some e)
  let ?e = "advance_entry now e"
  have id: "gr_ID (ge_group e) = gid" by (rule ids [OF Some])
  show ?thesis
  proof (cases "sp_inFlight a gid = 0 \<and> \<not> stopped")
    case False
    then have "a' = a\<lparr>sp_plan := (sp_plan a)(gid \<mapsto> ?e)\<rparr>" using Some by (auto simp: a'_def run_group_def Let_def)
    then show ?thesis using w cap by (auto simp: work_inv_def split: if_splits)
  next
    case free: True
    then have out: "gid \<notin> set (map task_ID (sp_tasks a) @ rest)" using w unfolding work_inv_def by (metis zero_neq_one)
    show ?thesis
    proof (cases "int (length (sp_tasks a)) < sg_QueueCapacity cfg")
      case True
      let ?t = "\<lparr>tk_group = ge_group e, tk_scheduledAt = to_UnixNano (ge_nextRunAt e)\<rparr>"
      have a': "a' = a\<lparr>sp_plan := (sp_plan a)(gid \<mapsto> ?e), sp_tasks := sp_tasks a @ [?t], sp_inFlight := (sp_inFlight a)(gid := 1)\<rparr>"
        using Some free True by (simp add: a'_def run_group_def Let_def)
      have t: "task_ID ?t = gid" by (simp add: task_ID_def id)
      show ?thesis using w True out unfolding a' by (auto simp: work_inv_def t split: if_splits)
    next
      case full: False
      have a': "a' = a\<lparr>sp_plan := (sp_plan a)(gid \<mapsto> postpone_entry (sg_RetryBase cfg) now ?e)\<rparr>"
        using Some free full by (simp add: a'_def run_group_def Let_def)
      show ?thesis using w cap out unfolding a' by (auto simp: work_inv_def split: if_splits)
    qed
  qed
qed

lemma complete_group_work:
  assumes w: "work_inv a (pre @ dn_groupID d # post)"
  shows "work_inv (complete_group cfg now d a) (pre @ post)"
proof -
  let ?g = "dn_groupID d"
  have in1: "sp_inFlight a ?g = 1" and out: "?g \<notin> set (pre @ post)" using w by (auto simp: work_inv_def)
  have fl: "sp_inFlight (complete_group cfg now d a) = (sp_inFlight a)(?g := 0)"
    by (simp add: complete_group_def Let_def in1 split: option.split)
  have other: "sp_plan (complete_group cfg now d a) gid = sp_plan a gid" if "gid \<noteq> ?g" for gid
    using that by (simp add: complete_group_def Let_def split: option.split)
  have "sp_inFlight (complete_group cfg now d a) gid = (if gid \<in> set (pre @ post) then 1 else 0)" for gid
    using w out by (auto simp: fl work_inv_def)
  moreover have "gid \<notin> set (pre @ post)" if "sp_plan (complete_group cfg now d a) gid = Some e" "ge_retrying e" for gid e
    using w out that other [of gid] by (cases "gid = ?g") (auto simp: work_inv_def)
  moreover have "distinct (pre @ post)" using w by (simp add: work_inv_def)
  ultimately show ?thesis by (simp add: work_inv_def)
qed

lemma replace_plan_work:
  assumes "work_inv a work"
  shows "work_inv (replace_plan cfg now groups a) work"
proof -
  have "gid \<notin> set work" if e: "sp_plan (replace_plan cfg now groups a) gid = Some e" "ge_retrying e" for gid e
  proof -
    obtain g where "e = desired_entry now cfg (sp_plan a gid) g" using e(1) by (auto simp: replace_plan_def)
    with e(2) obtain old where "sp_plan a gid = Some old" "ge_retrying old"
      by (auto simp: desired_entry_def Let_def split: option.splits if_splits)
    with assms show ?thesis by (auto simp: work_inv_def)
  qed
  then show ?thesis using assms by (auto simp: work_inv_def replace_plan_def)
qed

lemma sys_invD:
  assumes "sys_inv y"
  shows "sched_inv (sy_sched y)" "work_inv (abs_sched (sy_sched y)) (work_IDs y)"
    "int (length (sc_tasks (sy_sched y))) \<le> sg_QueueCapacity (sc_config (sy_sched y))"
    "int (length (sy_running y)) \<le> sg_WorkerCount (sc_config (sy_sched y))"
    "int (length (sy_done y)) \<le> sg_WorkerCount (sc_config (sy_sched y))"
  using assms by (auto simp: sys_inv_def)

lemma abs_tasks: "sp_tasks (abs_sched s) = sc_tasks s" "sp_plan (abs_sched s) = plan s" "sp_inFlight (abs_sched s) = inFlight s"
  by (simp_all add: abs_sched_def)

lemma dispatch_iter_work:
  assumes inv: "sys_inv y" and run: "dispatch_iter stopped now (sy_sched y) = (s, goon)"
  shows "sys_inv (y\<lparr>sy_sched := s\<rparr>)"
proof -
  note i = sys_invD [OF inv]
  note step = dispatch_iter_refines [OF i(1) run]
  let ?rest = "map task_ID (sy_running y) @ map dn_groupID (sy_done y)"
  have work: "work_IDs (y\<lparr>sy_sched := s\<rparr>) = map task_ID (sp_tasks (abs_sched s)) @ ?rest"
    "work_IDs y = map task_ID (sp_tasks (abs_sched (sy_sched y))) @ ?rest" by (simp_all add: work_IDs_def abs_tasks)
  have "work_inv (abs_sched s) (map task_ID (sp_tasks (abs_sched s)) @ ?rest)
    \<and> int (length (sp_tasks (abs_sched s))) \<le> sg_QueueCapacity (sc_config (sy_sched y))"
  proof (cases "first_due now (sy_sched y)")
    case None
    then show ?thesis using step(3) i(2,3) by (simp add: work) (simp add: abs_tasks)
  next
    case (Some gid)
    then have a: "abs_sched s = run_group (sc_config (sy_sched y)) stopped now gid (abs_sched (sy_sched y))"
      using step(3) by simp
    show ?thesis
      unfolding a
      by (rule run_group_work [OF i(2) [unfolded work(2)]])
        (use i(3) plan_ID(1) [OF i(1)] in \<open>simp_all add: abs_tasks\<close>)
  qed
  then show ?thesis using step(1,2) i(4,5) unfolding sys_inv_def work(1) by (simp add: abs_tasks)
qed

lemma sched_step_inv:
  assumes "sched_step y y'" and inv: "sys_inv y"
  shows "sys_inv y'"
  using assms(1)
proof cases
  case (Dispatch stopped now s goon)
  then show ?thesis using dispatch_iter_work [OF inv] by simp
next
  case (Take t ts)
  note i = sys_invD [OF inv]
  let ?s = "(sy_sched y)\<lparr>sc_tasks := ts\<rparr>"
  have "plan ?s = plan (sy_sched y)" "inFlight ?s = inFlight (sy_sched y)" by (simp_all add: plan_def inFlight_def fun_eq_iff)
  then have w: "work_inv (abs_sched ?s) work = work_inv (abs_sched (sy_sched y)) work" for work
    by (simp add: work_inv_def abs_sched_def)
  have "mset (work_IDs y') = mset (work_IDs y)" using Take by (simp add: work_IDs_def)
  then have "work_inv (abs_sched ?s) (work_IDs y')" unfolding w by (rule work_inv_perm [OF i(2)])
  moreover have "queue_heap ?s" using sched_invD(1) [OF i(1)] queue_heap_frame [of ?s "sy_sched y"] by simp
  then have "sched_inv ?s" by (rule sched_inv_keep [OF i(1)]) simp_all
  ultimately show ?thesis using Take i(3,5) by (simp add: sys_inv_def)
next
  case (Finish before t after err)
  note i = sys_invD [OF inv]
  have "mset (work_IDs y') = mset (work_IDs y)" using Finish by (simp add: work_IDs_def)
  then have "work_inv (abs_sched (sy_sched y)) (work_IDs y')" by (rule work_inv_perm [OF i(2)])
  then show ?thesis using Finish i by (simp add: sys_inv_def)
next
  case (Complete d ds now)
  note i = sys_invD [OF inv]
  note step = handleDone_refines [OF i(1), of now d]
  let ?s = "handleDone now d (sy_sched y)" and ?pre = "map task_ID (sc_tasks (sy_sched y)) @ map task_ID (sy_running y)"
  have "work_inv (abs_sched ?s) (?pre @ map dn_groupID ds)"
    unfolding step(3) by (rule complete_group_work) (use i(2) Complete in \<open>simp add: work_IDs_def\<close>)
  moreover have tasks: "sc_tasks ?s = sc_tasks (sy_sched y)"
    using arg_cong [OF step(3), of sp_tasks] by (simp add: abs_tasks complete_group_def Let_def split: option.splits)
  ultimately show ?thesis using Complete i step(1,2) by (simp add: sys_inv_def work_IDs_def)
next
  case (Replace now groups s retained)
  note i = sys_invD [OF inv]
  note step = ReplaceGroups_refines [OF i(1) Replace(2)]
  have tasks: "sc_tasks s = sc_tasks (sy_sched y)"
    using arg_cong [OF step(3), of sp_tasks] by (simp add: abs_tasks replace_plan_def)
  have "work_inv (abs_sched s) (work_IDs y)" unfolding step(3) by (rule replace_plan_work [OF i(2)])
  then show ?thesis using Replace i step(1,2) tasks by (simp add: sys_inv_def work_IDs_def)
next
  case Woken
  note i = sys_invD [OF inv]
  let ?s = "(sy_sched y)\<lparr>sc_wake := False\<rparr>"
  have "plan ?s = plan (sy_sched y)" "inFlight ?s = inFlight (sy_sched y)" by (simp_all add: plan_def inFlight_def fun_eq_iff)
  then have w: "work_inv (abs_sched ?s) work = work_inv (abs_sched (sy_sched y)) work" for work
    by (simp add: work_inv_def abs_sched_def)
  have "queue_heap ?s" using sched_invD(1) [OF i(1)] queue_heap_frame [of ?s "sy_sched y"] by simp
  then have "sched_inv ?s" by (rule sched_inv_keep [OF i(1)]) simp_all
  then show ?thesis using Woken i w by (simp add: sys_inv_def work_IDs_def)
qed

lemma sched_reachable_inv: "sched_reachable y \<Longrightarrow> sys_inv y"
  by (induction rule: sched_reachable.induct) (blast intro: NewScheduler_inv sched_step_inv)+

end
