(* ===== verification/Scheduling_Properties.thy ===== *)
theory Scheduling_Properties
  imports Scheduling_System
begin

text \<open>
  The properties of the scheduler, with a run of two groups on a scheduler whose queue holds one task.
\<close>

section \<open>A small scheduler\<close>

definition sx_config :: SchedulerConfig where
  "sx_config = \<lparr>sg_BatchSize = 0, sg_WorkerCount = 2, sg_QueueCapacity = 1, sg_RetryBase = 0, sg_RetryMax = 0,
     sg_BootstrapSpread = 0\<rparr>"

definition sx_new :: Scheduler where
  "sx_new = \<lparr>sc_config = scheduler_defaults sx_config, sc_batchSize = 50, sc_entries = [], sc_queue = [],
     sc_inFlightIDs = [], sc_tasks = [], sc_wake = False\<rparr>"

definition sx_group :: "string \<Rightarrow> Group" where
  "sx_group k = \<lparr>gr_ID = k, gr_HostID = ''10'', gr_ValueType = 0, gr_Delay = 30 * Second,
     gr_Batches = [\<lparr>ba_ID = k @ ''/1'', ba_ItemIDs = [''5'']\<rparr>], gr_Version = 1\<rparr>"

definition sx_groups :: "Group list" where "sx_groups = [sx_group ''a'', sx_group ''b'']"

definition sx_t0 :: time where "sx_t0 = time_Unix 1700000000 0"

definition sx_planned :: Scheduler where
  "sx_planned = fst (ReplaceGroups sx_t0 sx_groups sx_new)"

definition sx_later :: time where "sx_later = time_Unix 1700000090 0"

definition sx_system :: "Scheduler \<Rightarrow> SchedulerSystem" where
  "sx_system s = \<lparr>sy_sched = s, sy_running = [], sy_done = []\<rparr>"

lemma sx_new_start: "NewScheduler True sx_config = Inr sx_new"
  by (simp add: NewScheduler_def NewGroupBuilder_def DefaultBatchSize_def sx_new_def Let_def)
    (simp add: scheduler_defaults_def sx_config_def DefaultBatchSize_def Second_def Minute_def)

lemma sx_offsets: "StableOffset ''a'' Minute = 20555641996" "StableOffset ''b'' Minute = 19090526629"
  by (simp_all add: StableOffset_def fnv64a_def byte_of_def Minute_def)

lemma sx_inv: "sched_inv sx_planned"
proof -
  have "sched_inv sx_new" using NewScheduler_inv [OF sx_new_start] by (simp add: sys_inv_def)
  then show ?thesis
    unfolding sx_planned_def by (rule ReplaceGroups_refines(1)) (rule prod.collapse [symmetric])
qed

lemma sx_planned_run: "ReplaceGroups sx_t0 sx_groups sx_new = (sx_planned, snd (ReplaceGroups sx_t0 sx_groups sx_new))"
  by (simp add: sx_planned_def)

lemma sx_reachable: "sched_reachable (sx_system sx_planned)"
proof -
  have "sched_reachable (sx_system sx_new)" unfolding sx_system_def by (rule sched_reachable.Start [OF sx_new_start])
  moreover have "sched_step (sx_system sx_new) (sx_system sx_planned)"
    using sched_step.Replace [of sx_t0 sx_groups "sx_system sx_new" sx_planned] sx_planned_run
    by (simp add: sx_system_def)
  ultimately show ?thesis by (rule sched_reachable.Step)
qed

definition sx_task :: collectionTask where
  "sx_task = \<lparr>tk_group = sx_group ''b'', tk_scheduledAt = 1700000019090526629\<rparr>"

definition sx_sent :: Scheduler where
  "sx_sent = fst (dispatch_iter False sx_later sx_planned)"

lemma sx_sent_reachable: "sched_reachable (sx_system sx_sent)"
proof -
  have "sched_step (sx_system sx_planned) (sx_system sx_sent)"
    using sched_step.Dispatch [of False sx_later "sx_system sx_planned" sx_sent "snd (dispatch_iter False sx_later sx_planned)"]
    by (simp add: sx_system_def sx_sent_def)
  with sx_reachable show ?thesis by (rule sched_reachable.Step)
qed

lemma sx_sent_tasks: "sc_tasks sx_sent = [sx_task]"
  by code_simp

section \<open>Reachable states\<close>

text \<open>C12: However dispatch rounds, workers, completions and replacements of the groups interleave: a group is never
  queued, being collected or waiting for its completion twice at the same time, its in-flight counter is
  exactly that number, and the queue, the workers and the completion channel keep their bounds.\<close>

theorem no_group_twice:
  assumes "sched_reachable y"
  shows "distinct (map task_ID (sc_tasks (sy_sched y)) @ map task_ID (sy_running y) @ map dn_groupID (sy_done y))
    \<and> inFlight (sy_sched y) gid = int (count (mset (map task_ID (sc_tasks (sy_sched y)) @ map task_ID (sy_running y)
        @ map dn_groupID (sy_done y))) gid)
    \<and> int (length (sc_tasks (sy_sched y))) \<le> sg_QueueCapacity (sc_config (sy_sched y))
    \<and> int (length (sy_running y)) \<le> sg_WorkerCount (sc_config (sy_sched y))
    \<and> int (length (sy_done y)) \<le> sg_WorkerCount (sc_config (sy_sched y))"
proof -
  note i = sys_invD [OF sched_reachable_inv [OF assms]]
  have d: "distinct (work_IDs y)" and n: "inFlight (sy_sched y) gid = (if gid \<in> set (work_IDs y) then 1 else 0)"
    using i(2) by (simp_all add: work_inv_def abs_tasks)
  have "count (mset (work_IDs y)) gid = (if gid \<in> set (work_IDs y) then 1 else 0)"
    using d by (simp add: distinct_count_atmost_1)
  with d n i(3-5) show ?thesis unfolding work_IDs_def by simp
qed

lemma no_group_twice_witness: "inFlight sx_sent ''b'' = 1"
  using no_group_twice [OF sx_sent_reachable, of "''b''"] sx_sent_tasks
  by (simp add: sx_system_def task_ID_def sx_task_def sx_group_def)

text \<open>C14: In every reachable state the plan heap holds every group once, each entry's heap index is its place in the
  heap, and the group at the root has the earliest next run; a group that waits for a retry is not in flight.\<close>

theorem plan_heap_invariant:
  assumes "sched_reachable y"
  shows "distinct (sc_queue (sy_sched y)) \<and> set (sc_queue (sy_sched y)) = set (mkeys (sc_entries (sy_sched y)))
    \<and> (\<forall>i < length (sc_queue (sy_sched y)). \<exists>e. mget (sc_entries (sy_sched y)) (sc_queue (sy_sched y) ! i) = Some e
         \<and> ge_heapIndex e = int i \<and> gr_ID (ge_group e) = sc_queue (sy_sched y) ! i
         \<and> (next_run (sy_sched y) (hd (sc_queue (sy_sched y))) \<le> ge_nextRunAt e)
         \<and> (ge_retrying e \<longrightarrow> inFlight (sy_sched y) (sc_queue (sy_sched y) ! i) = 0))"
proof -
  let ?s = "sy_sched y"
  note i = sys_invD [OF sched_reachable_inv [OF assms]]
  have ok: "queue_ok ?s" using sched_invD(1) [OF i(1)] by (simp add: queue_heap_def)
  have "\<exists>e. mget (sc_entries ?s) (sc_queue ?s ! j) = Some e \<and> ge_heapIndex e = int j \<and> gr_ID (ge_group e) = sc_queue ?s ! j
         \<and> (next_run ?s (hd (sc_queue ?s)) \<le> ge_nextRunAt e)
         \<and> (ge_retrying e \<longrightarrow> inFlight ?s (sc_queue ?s ! j) = 0)" if j: "j < length (sc_queue ?s)" for j
  proof -
    obtain e where e: "mget (sc_entries ?s) (sc_queue ?s ! j) = Some e" "gr_ID (ge_group e) = sc_queue ?s ! j"
      "ge_heapIndex e = int j" by (rule queue_okD [OF ok j])
    have p: "plan ?s (sc_queue ?s ! j) = Some (unindex e)" by (simp add: plan_def e)
    have "plan_key ?s (hd (sc_queue ?s)) \<le> plan_key ?s (sc_queue ?s ! j)"
      by (rule queue_root_first [OF sched_invD(1) [OF i(1)] nth_mem [OF j]])
    then have "next_run ?s (hd (sc_queue ?s)) \<le> ge_nextRunAt e"
      by (auto simp: plan_key_def less_eq_prod_def next_run_def [of _ "sc_queue ?s ! j"] p)
    moreover have "ge_retrying e \<longrightarrow> inFlight ?s (sc_queue ?s ! j) = 0"
      using i(2) p unfolding work_inv_def abs_tasks by (metis unindex_fields(4))
    ultimately show ?thesis using e by blast
  qed
  then show ?thesis using sched_invD(3,6) [OF i(1)] by blast
qed

lemma plan_heap_invariant_witness: "set (sc_queue sx_planned) = {''a'', ''b''}"
proof -
  have "mkeys (sc_entries sx_planned) = [''a'', ''b'']" by code_simp
  with plan_heap_invariant [OF sx_reachable] show ?thesis by (simp add: sx_system_def)
qed

section \<open>Dispatch\<close>

text \<open>C13: A dispatch pass does to the abstract plan exactly what running the due groups one by one in the order of their
  planned times does: the first ones that are not in flight are queued while there is room, later ones wait
  for a retry.  It ends (with fuel for each due group and one more round) and leaves no group due.\<close>

theorem dispatch_due_refines:
  assumes "sched_inv s" and "due_sane now s" and "length (due_groups now s) < fuel"
  shows "\<exists>s'. dispatchDue fuel now s = Some s' \<and> sched_inv s' \<and> sc_config s' = sc_config s
    \<and> abs_sched s' = fold (run_group (sc_config s) False now) (due_groups now s) (abs_sched s)
    \<and> (\<forall>gid e. plan s' gid = Some e \<longrightarrow> now < ge_nextRunAt e)"
  by (rule dispatchDue_refines [OF assms])

lemma sx_plans:
  assumes "plan sx_planned gid = Some e"
  shows "clock_time (ge_nextRunAt e) \<and> ge_nextRunAt e \<le> sx_later \<and> \<not> ge_retrying e
    \<and> sane_period (CollectionPeriod (gr_Delay (ge_group e)))"
proof -
  have "list_all (\<lambda>x. clock_time (ge_nextRunAt (snd x)) \<and> ge_nextRunAt (snd x) \<le> sx_later \<and> \<not> ge_retrying (snd x)
      \<and> sane_period (CollectionPeriod (gr_Delay (ge_group (snd x))))) (sc_entries sx_planned)"
    by code_simp
  then show ?thesis using assms by (auto simp: plan_def list_all_iff dest!: map_of_SomeD)
qed

lemma sx_due: "due_sane sx_later sx_planned"
proof -
  have "clock_time sx_later" "sg_RetryBase (sc_config sx_planned) < 2 ^ 63" by code_simp+
  then show ?thesis using sx_plans by (simp add: due_sane_def)
qed

lemma sx_due_groups: "due_groups sx_later sx_planned = [''b'', ''a'']"
  by code_simp

lemma dispatch_due_refines_witness:
  "\<exists>s'. dispatchDue 3 sx_later sx_planned = Some s' \<and> sp_tasks (abs_sched s') = [sx_task]"
proof -
  have "map tk_scheduledAt (sp_tasks (fold (run_group (sc_config sx_planned) False sx_later) [''b'', ''a''] (abs_sched sx_planned)))
      = [1700000019090526629]
    \<and> sp_tasks (fold (run_group (sc_config sx_planned) False sx_later) [''b'', ''a''] (abs_sched sx_planned)) = [sx_task]"
    by code_simp
  with dispatch_due_refines [OF sx_inv sx_due, of 3] show ?thesis by (auto simp: sx_due_groups)
qed

definition cadence :: "groupEntry \<Rightarrow> time" where
  "cadence e = (if ge_retrying e then ge_nextCadence e else ge_nextRunAt e)"

text \<open>C15: A dispatch round moves no group off its cadence: whether a run is on time, missed, a retry or refused by a full
  queue, the group's next regular run stays on the same phase of its period and never moves back.\<close>

theorem dispatch_keeps_cadence:
  assumes inv: "sched_inv s" and run: "dispatch_iter stopped now s = (s', goon)" and sane: "due_sane now s"
    and e: "plan s gid = Some e"
  shows "\<exists>e'. plan s' gid = Some e' \<and> ge_group e' = ge_group e \<and> cadence e \<le> cadence e'
    \<and> (cadence e' - cadence e) mod CollectionPeriod (gr_Delay (ge_group e)) = 0"
proof (cases "first_due now s = Some gid")
  case False
  have "plan s' gid = plan s gid"
  proof (cases "first_due now s")
    case None
    then show ?thesis using dispatch_iter_refines(3) [OF inv run] by simp
  next
    case (Some g)
    then have a: "abs_sched s' = run_group (sc_config s) stopped now g (abs_sched s)"
      using dispatch_iter_refines(3) [OF inv run] by simp
    obtain x where "plan s g = Some x" using first_due_plan [OF inv Some] by blast
    then have "sp_plan (abs_sched s) g = Some x" by (simp add: abs_tasks)
    from run_group_plan(1) [OF this, of gid "sc_config s" stopped now] False Some a show ?thesis
      by (simp add: abs_tasks [symmetric])
  qed
  then show ?thesis using e by simp
next
  case True
  then have a: "abs_sched s' = run_group (sc_config s) stopped now gid (abs_sched s)"
    using dispatch_iter_refines(3) [OF inv run] by simp
  have p: "sp_plan (abs_sched s) gid = Some e" by (simp add: abs_tasks e)
  let ?e = "advance_entry now e" and ?period = "CollectionPeriod (gr_Delay (ge_group e))"
  have new: "plan s' gid = Some ?e \<or> plan s' gid = Some (postpone_entry (sg_RetryBase (sc_config s)) now ?e)"
    using run_group_plan(2) [OF p, of "sc_config s" stopped now] a by (simp add: abs_tasks [symmetric])
  have "ge_nextRunAt e \<le> now" using first_due_plan [OF inv True] e by (metis option.inject)
  then have t: "clock_time now" "clock_time (ge_nextRunAt e)" "sane_period ?period"
    "ge_retrying e \<Longrightarrow> clock_time (ge_nextCadence e)" using sane e by (auto simp: due_sane_def)
  have "ge_nextRunAt ?e = (if ge_retrying e \<and> now < ge_nextCadence e then ge_nextCadence e
      else advancePlanned (cadence e) ?period now)"
    by (auto simp: advance_entry_def Let_def cadence_def)
  moreover have "cadence e = ge_nextCadence e" if "ge_retrying e" using that by (simp add: cadence_def)
  moreover have "clock_time (cadence e)" using t by (simp add: cadence_def)
  ultimately have "cadence e \<le> ge_nextRunAt ?e \<and> (ge_nextRunAt ?e - cadence e) mod ?period = 0"
    using advancePlanned_exact(2,3) [of "cadence e" now ?period] t by auto
  then have "cadence e \<le> cadence ?e \<and> (cadence ?e - cadence e) mod ?period = 0" by (simp add: cadence_def)
  moreover have "cadence (postpone_entry b now ?e) = cadence ?e" for b by (simp add: cadence_def)
  ultimately show ?thesis using new by auto
qed

lemma dispatch_keeps_cadence_witness:
  "\<exists>e e'. plan sx_planned ''b'' = Some e \<and> plan sx_sent ''b'' = Some e' \<and> cadence e \<le> cadence e'"
proof -
  have "plan sx_planned ''b'' \<noteq> None"
  proof -
    have "mget (sc_entries sx_planned) ''b'' \<noteq> None" by code_simp
    then show ?thesis by (simp add: plan_def)
  qed
  then obtain e where e: "plan sx_planned ''b'' = Some e" by blast
  have "dispatch_iter False sx_later sx_planned = (sx_sent, snd (dispatch_iter False sx_later sx_planned))"
    by (simp add: sx_sent_def)
  from dispatch_keeps_cadence [OF sx_inv this sx_due e] e show ?thesis by blast
qed

end
