(* ===== verification/Scheduling_Outcomes.thy ===== *)
theory Scheduling_Outcomes
  imports Scheduling_Properties
begin

text \<open>The properties of completions, of the replacement of the groups, of the dispatcher's timer and of the time arithmetic.\<close>

section \<open>Completion\<close>

text \<open>C16: A completion frees its group and touches no other entry.  Success resets the failure count; the \<open>n\<close>-th failure in
  a row brings the next run forward to \<open>min (base * 2 ^ (n - 1)) max\<close> from now when that is earlier, and the
  regular run it displaced stays the group's cadence.\<close>

theorem completion_backoff:
  assumes reach: "sched_reachable y" and d: "sy_done y = d # ds" and now: "clock_time now"
    and range: "sg_RetryMax (sc_config (sy_sched y)) < 2 ^ 62" "0 < sg_RetryMax (sc_config (sy_sched y))"
  shows "inFlight (handleDone now d (sy_sched y)) (dn_groupID d) = 0
    \<and> (\<forall>gid. gid \<noteq> dn_groupID d \<longrightarrow> plan (handleDone now d (sy_sched y)) gid = plan (sy_sched y) gid)
    \<and> (\<forall>e. plan (sy_sched y) (dn_groupID d) = Some e \<longrightarrow>
        (\<exists>e'. plan (handleDone now d (sy_sched y)) (dn_groupID d) = Some e' \<and> cadence e' = cadence e
          \<and> (dn_err d = None \<longrightarrow> e' = e\<lparr>ge_failures := 0\<rparr>)
          \<and> (dn_err d \<noteq> None \<longrightarrow> ge_failures e' = Suc (ge_failures e) mod 2 ^ 32)
          \<and> (dn_err d \<noteq> None \<longrightarrow> ge_failures e < 2 ^ 32 - 1 \<longrightarrow> ge_nextRunAt e' = min (ge_nextRunAt e)
               (now + min (sg_RetryBase (sc_config (sy_sched y)) * 2 ^ ge_failures e) (sg_RetryMax (sc_config (sy_sched y)))))))"
proof -
  let ?s = "sy_sched y" and ?g = "dn_groupID d" and ?cfg = "sc_config (sy_sched y)"
  let ?s' = "handleDone now d ?s"
  note i = sys_invD [OF sched_reachable_inv [OF reach]]
  have work: "?g \<in> set (work_IDs y)" using d by (simp add: work_IDs_def)
  have fl: "inFlight ?s ?g = 1" using i(2) work by (simp add: work_inv_def abs_tasks)
  have a: "abs_sched ?s' = complete_group ?cfg now d (abs_sched ?s)" by (rule handleDone_refines(3) [OF i(1)])
  have flight: "inFlight ?s' ?g = 0"
    using arg_cong [OF a, of sp_inFlight] fl by (simp add: abs_tasks complete_group_def Let_def split: option.splits)
  have others: "plan ?s' gid = plan ?s gid" if "gid \<noteq> ?g" for gid
    using arg_cong [OF a, of sp_plan] that by (simp add: abs_tasks complete_group_def Let_def split: option.splits)
  have self: "\<exists>e'. plan ?s' ?g = Some e' \<and> cadence e' = cadence e
          \<and> (dn_err d = None \<longrightarrow> e' = e\<lparr>ge_failures := 0\<rparr>)
          \<and> (dn_err d \<noteq> None \<longrightarrow> ge_failures e' = Suc (ge_failures e) mod 2 ^ 32)
          \<and> (dn_err d \<noteq> None \<longrightarrow> ge_failures e < 2 ^ 32 - 1 \<longrightarrow> ge_nextRunAt e' = min (ge_nextRunAt e)
               (now + min (sg_RetryBase ?cfg * 2 ^ ge_failures e) (sg_RetryMax ?cfg)))"
    if e: "plan ?s ?g = Some e" for e
  proof -
    let ?e' = "case dn_err d of None \<Rightarrow> e\<lparr>ge_failures := 0\<rparr> | Some _ \<Rightarrow> fst (fail_entry ?cfg now e)"
    have new: "plan ?s' ?g = Some ?e'"
      using arg_cong [OF a, of sp_plan] e by (simp add: abs_tasks complete_group_def Let_def)
    have idle: "\<not> ge_retrying e" using i(2) work e unfolding work_inv_def abs_tasks by blast
    show ?thesis
    proof (cases "dn_err d")
      case None
      then show ?thesis using new by (simp add: cadence_def)
    next
      case (Some err)
      let ?f = "fst (fail_entry ?cfg now e)"
      have n: "ge_failures ?f = Suc (ge_failures e) mod 2 ^ 32" by (simp add: fail_entry_def Let_def)
      have c: "cadence ?f = cadence e" using idle by (simp add: fail_entry_def Let_def cadence_def)
      have "ge_nextRunAt ?f = min (ge_nextRunAt e) (now + min (sg_RetryBase ?cfg * 2 ^ ge_failures e) (sg_RetryMax ?cfg))"
        if small: "ge_failures e < 2 ^ 32 - 1"
      proof -
        have m: "Suc (ge_failures e) mod 2 ^ 32 = Suc (ge_failures e)" using small by simp
        have rb: "0 < sg_RetryBase ?cfg" by (rule sched_invD(4) [OF i(1)])
        define r where "r = min (sg_RetryBase ?cfg * 2 ^ ge_failures e) (sg_RetryMax ?cfg)"
        have delay: "retryDelay (sg_RetryBase ?cfg) (sg_RetryMax ?cfg) (Suc (ge_failures e)) = r"
          using retryDelay_exact [OF rb, of "sg_RetryMax ?cfg" "Suc (ge_failures e)"] range(1) by (simp add: r_def)
        have r: "0 < r" "r < 2 ^ 62" using rb range by (simp_all add: r_def min_less_iff_disj)
        have add: "time_Add now r = now + r"
          by (rule time_Add_sane [OF clock_sane [OF now]]) (use r in \<open>simp add: in_int64_def\<close>)
        have "ge_nextRunAt ?f = (if time_Add now (retryDelay (sg_RetryBase ?cfg) (sg_RetryMax ?cfg) (Suc (ge_failures e) mod 2 ^ 32))
            < ge_nextRunAt e then time_Add now (retryDelay (sg_RetryBase ?cfg) (sg_RetryMax ?cfg) (Suc (ge_failures e) mod 2 ^ 32))
            else ge_nextRunAt e)"
          by (simp add: fail_entry_def Let_def)
        then show ?thesis unfolding m delay add r_def [symmetric] by (simp add: min_def)
      qed
      then show ?thesis using new n c Some by simp
    qed
  qed
  show ?thesis using flight others self by blast
qed

definition sx_running :: SchedulerSystem where
  "sx_running = \<lparr>sy_sched = sx_sent\<lparr>sc_tasks := []\<rparr>, sy_running = [sx_task], sy_done = []\<rparr>"

definition sx_failed :: collectionDone where
  "sx_failed = \<lparr>dn_groupID = ''b'', dn_delay = 30 * Second, dn_err = Some ContextDeadlineExceeded\<rparr>"

definition sx_finished :: SchedulerSystem where
  "sx_finished = \<lparr>sy_sched = sx_sent\<lparr>sc_tasks := []\<rparr>, sy_running = [], sy_done = [sx_failed]\<rparr>"

lemma sx_finished_reachable: "sched_reachable sx_finished"
proof -
  have workers: "sg_WorkerCount (sc_config sx_sent) = 2" by code_simp
  have "sched_step (sx_system sx_sent) sx_running"
    using sched_step.Take [of "sx_system sx_sent" sx_task "[]"] sx_sent_tasks workers
    by (simp add: sx_system_def sx_running_def)
  moreover have "sched_step sx_running sx_finished"
    using sched_step.Finish [of sx_running "[]" sx_task "[]" "Some ContextDeadlineExceeded"] workers
    by (simp add: sx_running_def sx_finished_def sx_failed_def task_ID_def) (simp add: sx_task_def sx_group_def)
  ultimately show ?thesis using sx_sent_reachable by (blast intro: sched_reachable.Step)
qed

lemma completion_backoff_witness:
  "\<exists>e'. plan (handleDone sx_later sx_failed (sy_sched sx_finished)) ''b'' = Some e' \<and> ge_nextRunAt e' = sx_later + 5 * Second"
proof -
  have d: "sy_done sx_finished = sx_failed # []" by (simp add: sx_finished_def)
  have now: "clock_time sx_later" by code_simp
  have cfg: "sg_RetryMax (sc_config (sy_sched sx_finished)) = 5 * Minute" "sg_RetryBase (sc_config (sy_sched sx_finished)) = 5 * Second"
    by code_simp+
  have "map_option (\<lambda>e. (ge_failures e, ge_nextRunAt e)) (mget (sc_entries (sy_sched sx_finished)) ''b'')
      = Some (0, time_Unix 1700000139 90526629)" by code_simp
  then have "map_option (\<lambda>e. (ge_failures e, ge_nextRunAt e)) (plan (sy_sched sx_finished) ''b'') = Some (0, time_Unix 1700000139 90526629)"
    by (simp add: plan_def option.map_comp comp_def)
  then obtain e where e: "plan (sy_sched sx_finished) ''b'' = Some e" "ge_failures e = 0" "ge_nextRunAt e = time_Unix 1700000139 90526629"
    by auto
  have "sx_later + 5 * Second \<le> time_Unix 1700000139 90526629" by code_simp
  moreover have "min (5 * Second * 2 ^ 0) (5 * Minute) = 5 * Second" by (simp add: Second_def Minute_def)
  ultimately show ?thesis
    using completion_backoff [OF sx_finished_reachable d now] e cfg
    by (simp add: sx_failed_def Minute_def) (auto simp: min_def Second_def)
qed

section \<open>Replacing the groups\<close>

text \<open>C17: After the groups are replaced the plan holds exactly the desired ones.  A group that was there with the same period
  keeps its entry, only its definition is exchanged; a new group first runs within one period from now; one
  whose period changed runs next at its stable offset within the period that follows now.  In-flight
  counters and queued tasks stay.\<close>

theorem replace_groups_plan:
  assumes inv: "sched_inv s" and run: "ReplaceGroups now groups s = (s', retained)"
    and now: "clock_time now" and p: "\<And>g. g \<in> set groups \<Longrightarrow> sane_period (CollectionPeriod (gr_Delay g))"
    and started: "\<And>gid e. plan s gid = Some e \<Longrightarrow> ge_nextRunAt e \<noteq> 0"
  shows "sched_inv s' \<and> inFlight s' = inFlight s \<and> sc_tasks s' = sc_tasks s \<and> retained = map snd (desired_groups groups)
    \<and> (case mget (desired_groups groups) gid of
         None \<Rightarrow> plan s' gid = None
       | Some g \<Rightarrow> \<exists>e'. plan s' gid = Some e' \<and> ge_group e' = g \<and>
           (case plan s gid of
              None \<Rightarrow> now \<le> ge_nextRunAt e' \<and> ge_nextRunAt e' < now + CollectionPeriod (gr_Delay g) \<and> ge_failures e' = 0
            | Some e \<Rightarrow>
                if CollectionPeriod (gr_Delay (ge_group e)) = CollectionPeriod (gr_Delay g) then e' = e\<lparr>ge_group := g\<rparr>
                else now < ge_nextRunAt e' \<and> ge_nextRunAt e' \<le> now + CollectionPeriod (gr_Delay g)
                  \<and> (ge_nextRunAt e' - epoch) mod CollectionPeriod (gr_Delay g) = StableOffset gid (CollectionPeriod (gr_Delay g))
                  \<and> \<not> ge_retrying e' \<and> ge_failures e' = ge_failures e))"
proof -
  note r = ReplaceGroups_refines [OF inv run]
  have plan: "plan s' gid = map_option (desired_entry now (sc_config s) (plan s gid)) (mget (desired_groups groups) gid)"
    using arg_cong [OF r(3), of sp_plan] by (simp add: abs_tasks replace_plan_def fun_eq_iff)
  have rest: "inFlight s' = inFlight s" "sc_tasks s' = sc_tasks s"
    using arg_cong [OF r(3), of sp_inFlight] arg_cong [OF r(3), of sp_tasks] by (simp_all add: abs_tasks replace_plan_def)
  have entry: "\<exists>e'. plan s' gid = Some e' \<and> ge_group e' = g \<and>
           (case plan s gid of
              None \<Rightarrow> now \<le> ge_nextRunAt e' \<and> ge_nextRunAt e' < now + CollectionPeriod (gr_Delay g) \<and> ge_failures e' = 0
            | Some e \<Rightarrow>
                if CollectionPeriod (gr_Delay (ge_group e)) = CollectionPeriod (gr_Delay g) then e' = e\<lparr>ge_group := g\<rparr>
                else now < ge_nextRunAt e' \<and> ge_nextRunAt e' \<le> now + CollectionPeriod (gr_Delay g)
                  \<and> (ge_nextRunAt e' - epoch) mod CollectionPeriod (gr_Delay g) = StableOffset gid (CollectionPeriod (gr_Delay g))
                  \<and> \<not> ge_retrying e' \<and> ge_failures e' = ge_failures e)"
    if g: "mget (desired_groups groups) gid = Some g" for g
  proof -
    note d = desired_get [OF g]
    let ?p = "CollectionPeriod (gr_Delay g)" and ?e = "desired_entry now (sc_config s) (plan s gid) g"
    have sane: "sane_period ?p" by (rule p [OF d(5)])
    note first = bootstrapRunAt_exact [OF now sane, of gid "sg_BootstrapSpread (sc_config s)"]
    note next_run = nextRunAfter_exact [OF now sane, of gid]
    have "(case plan s gid of
              None \<Rightarrow> now \<le> ge_nextRunAt ?e \<and> ge_nextRunAt ?e < now + ?p \<and> ge_failures ?e = 0
            | Some e \<Rightarrow>
                if CollectionPeriod (gr_Delay (ge_group e)) = ?p then ?e = e\<lparr>ge_group := g\<rparr>
                else now < ge_nextRunAt ?e \<and> ge_nextRunAt ?e \<le> now + ?p
                  \<and> (ge_nextRunAt ?e - epoch) mod ?p = StableOffset gid ?p
                  \<and> \<not> ge_retrying ?e \<and> ge_failures ?e = ge_failures e)"
    proof (cases "plan s gid")
      case None
      then show ?thesis using first by (simp add: desired_entry_def Let_def d(1))
    next
      case (Some e)
      then show ?thesis
        using next_run started [OF Some] by (simp add: desired_entry_def Let_def d(1) time_IsZero_def)
    qed
    then show ?thesis using plan g by simp
  qed
  show ?thesis using r(1,4) rest entry plan by (auto split: option.split)
qed

lemma replace_groups_plan_witness:
  "\<exists>e'. plan sx_planned ''a'' = Some e' \<and> ge_group e' = sx_group ''a'' \<and> sx_t0 \<le> ge_nextRunAt e'
    \<and> ge_nextRunAt e' < sx_t0 + Minute"
proof -
  have inv: "sched_inv sx_new" using NewScheduler_inv [OF sx_new_start] by (simp add: sys_inv_def)
  have now: "clock_time sx_t0" by code_simp
  have p: "sane_period (CollectionPeriod (gr_Delay g))" if "g \<in> set sx_groups" for g
    using that by (auto simp: sx_groups_def sx_group_def CollectionPeriod_def sane_period_def Minute_def Second_def)
  have none: "plan sx_new gid = None" for gid by (simp add: plan_def sx_new_def)
  have "mget (desired_groups sx_groups) ''a'' = Some (sx_group ''a'')" by code_simp
  moreover have "CollectionPeriod (gr_Delay (sx_group ''a'')) = Minute" by code_simp
  ultimately show ?thesis
    using replace_groups_plan [OF inv sx_planned_run now p, of "''a''"] none by auto
qed

section \<open>The timer\<close>

text \<open>The dispatcher's timer never sleeps past a planned run: it waits at most until the earliest one, and does not wait
  at all when a group is due.\<close>

theorem next_wait_sound:
  assumes inv: "sched_inv s" and e: "plan s gid = Some e" and now: "clock_time now"
  shows "0 \<le> nextWait now s \<and> nextWait now s \<le> max 0 (ge_nextRunAt e - now)
    \<and> (ge_nextRunAt e \<le> now \<longrightarrow> nextWait now s = 0 \<and> first_due now s \<noteq> None)"
proof -
  have q: "gid \<in> set (sc_queue s)" by (rule plan_ID(2) [OF inv e])
  obtain first rest where Q: "sc_queue s = first # rest" using q by (cases "sc_queue s") auto
  have "first \<in> set (mkeys (sc_entries s))" using sched_invD(3) [OF inv] Q by auto
  then obtain root where root: "mget (sc_entries s) first = Some root" by (metis mget_None_iff option.exhaust)
  have nr: "next_run s first = ge_nextRunAt root" by (simp add: next_run_def plan_def root)
  have "plan_key s first \<le> plan_key s gid" using queue_root_first [OF sched_invD(1) [OF inv] q] Q by simp
  then have le: "ge_nextRunAt root \<le> ge_nextRunAt e"
    using nr by (auto simp: plan_key_def less_eq_prod_def next_run_def [of _ gid] e)
  have w: "nextWait now s = max 0 (clamp64 (ge_nextRunAt root - now))"
    by (simp add: nextWait_def Q root Let_def time_Sub_def max_def)
  have "0 \<le> nextWait now s \<and> nextWait now s \<le> max 0 (ge_nextRunAt e - now)"
    unfolding w clamp64_def using le by auto
  moreover have "nextWait now s = 0 \<and> first_due now s \<noteq> None" if "ge_nextRunAt e \<le> now"
    using that le nr by (simp add: w clamp64_def first_due_def Q)
  ultimately show ?thesis by blast
qed

lemma next_wait_sound_witness: "nextWait sx_later sx_planned = 0"
proof -
  have "mget (sc_entries sx_planned) ''b'' \<noteq> None" by code_simp
  then obtain e where e: "plan sx_planned ''b'' = Some e" by (auto simp: plan_def)
  have "clock_time sx_later" by code_simp
  from next_wait_sound [OF sx_inv e this] sx_plans [OF e] show ?thesis by simp
qed

section \<open>Time arithmetic\<close>

text \<open>The doubling loop of the retry delay computes \<open>min (base * 2 ^ (failures - 1)) maximum\<close> without overflowing.\<close>

theorem retry_delay_value:
  assumes "0 < base" and "maximum < 2 ^ 63" and "0 < failures"
  shows "retryDelay base maximum failures = min (base * 2 ^ (failures - 1)) maximum"
  by (rule retryDelay_exact [OF assms])

lemma retry_delay_value_witness: "retryDelay (5 * Second) (5 * Minute) 3 = 20 * Second"
  using retry_delay_value [of "5 * Second" "5 * Minute" 3] by (simp add: Second_def Minute_def)

text \<open>A planned time that was missed advances by the least whole number of periods that passes now.\<close>

theorem advance_planned_least:
  assumes "clock_time planned" and "clock_time now" and "sane_period period"
  shows "\<exists>k \<ge> 1. advancePlanned planned period now = planned + k * period \<and> now < planned + k * period
    \<and> (k = 1 \<or> planned + (k - 1) * period \<le> now)"
proof -
  note a = advancePlanned_exact [OF assms]
  have p0: "0 < period" using assms(3) by (simp add: sane_period_def)
  define k where "k = (advancePlanned planned period now - planned) div period"
  have k: "advancePlanned planned period now = planned + k * period"
    using a(2) by (simp add: k_def mult.commute) (metis add.commute diff_add_cancel dvd_eq_mod_eq_0 dvd_mult_div_cancel)
  have "0 < k * period" using a(3) k by simp
  then have "1 \<le> k" using p0 by (simp add: zero_less_mult_iff)
  moreover have "planned + (k - 1) * period \<le> now" if "k \<noteq> 1"
  proof -
    have "0 < (k - 1) * period" using that \<open>1 \<le> k\<close> p0 by simp
    moreover have "planned + (k - 1) * period \<le> max planned now" using a(4) k by (simp add: algebra_simps)
    ultimately show ?thesis by (cases "planned \<le> now") (simp_all add: max_def)
  qed
  ultimately show ?thesis using k a(1) by (intro exI [of _ k]) auto
qed

lemma advance_planned_least_witness:
  "\<exists>k \<ge> 1. advancePlanned sx_t0 Minute sx_later = sx_t0 + k * Minute \<and> sx_later < sx_t0 + k * Minute"
proof -
  have "clock_time sx_t0" "clock_time sx_later" "sane_period Minute" by code_simp+
  from advance_planned_least [OF this] show ?thesis by blast
qed

text \<open>The next run after now is the first instant after now at the group's stable offset within the period.\<close>

theorem next_run_after_phase:
  assumes "clock_time now" and "sane_period period"
  shows "now < nextRunAfter now gid period \<and> nextRunAfter now gid period \<le> now + period
    \<and> (nextRunAfter now gid period - epoch) mod period = StableOffset gid period"
  using nextRunAfter_exact [OF assms] by blast

lemma next_run_after_phase_witness: "(nextRunAfter sx_t0 ''a'' Minute - epoch) mod Minute = 20555641996"
proof -
  have "clock_time sx_t0" "sane_period Minute" by code_simp+
  from next_run_after_phase [OF this, of "''a''"] show ?thesis by (simp add: sx_offsets)
qed

end
