(* ===== verification/Group_Collector.thy ===== *)
theory Group_Collector
  imports Value_Cache Group_Builder
begin

text \<open>
  \<^verbatim>\<open>internal/collector/group_collector.go\<close>: one planned run of a group queries the history of each of its
  batches from the batch's watermark, splits a query whose answer may be truncated, applies what came
  back to the value store and moves the watermark.  The interfaces the collector calls are the functions
  of an \<open>Env\<close>: \<open>ev_reader\<close> is \<^verbatim>\<open>HistoryReader.QueryHistoryBatch\<close>, \<open>ev_apply\<close> and \<open>ev_mark\<close> are the two
  operations of \<^verbatim>\<open>cache.ValueStore\<close> it uses, \<open>ev_snapshot\<close> is \<^verbatim>\<open>SnapshotSource.Snapshot\<close> and \<open>ev_ctxErr\<close> is
  \<^verbatim>\<open>ctx.Err\<close>.  Each takes the number of context checks made so far, so that its answers change over time;
  \<open>ev_apply\<close> and \<open>ev_mark\<close> take the store as the other goroutines left it.  The per-request timeout reaches
  the reader only, whose answer is arbitrary.  \<^verbatim>\<open>collectBatch\<close> holds the batch's own lock throughout.
\<close>

section \<open>Configuration\<close>

definition DefaultHistoryLimit :: int where "DefaultHistoryLimit = 10000"
definition DefaultMaxSplitDepth :: int where "DefaultMaxSplitDepth = 16"
definition DefaultOverlapMin :: duration where "DefaultOverlapMin = 5 * Minute"
definition DefaultOverlapMax :: duration where "DefaultOverlapMax = 15 * Minute"

record HistoryConfig =
  hc_Limit :: int
  hc_MaxSplitDepth :: int
  hc_OverlapMin :: duration
  hc_OverlapMax :: duration
  hc_QueryTimeout :: duration
  hc_ReaderOwnsTimeout :: bool

record 's Env =
  ev_ctxErr :: "nat \<Rightarrow> go_error option"
  ev_reader :: "nat \<Rightarrow> HistoryQuery \<Rightarrow> BatchResult"
  ev_apply :: "nat \<Rightarrow> BatchResult \<Rightarrow> MetadataSnapshot option \<Rightarrow> 's \<Rightarrow> 's \<times> ApplyResult"
  ev_mark :: "nat \<Rightarrow> string list \<Rightarrow> time \<Rightarrow> 's \<Rightarrow> 's \<times> MissResult"
  ev_snapshot :: "nat \<Rightarrow> MetadataSnapshot option"

text \<open>The collector and its surroundings: the watermark of each batch (\<^verbatim>\<open>states\<close>; the zero time before the
  first complete query), the value store, and the number of context checks made.\<close>

record 's Collector =
  cl_config :: HistoryConfig
  cl_states :: "(string, time) gomap"
  cl_store :: 's
  cl_step :: nat

record BatchCollectionResult =
  bc_BatchID :: string
  bc_Complete :: bool
  bc_WatermarkBefore :: time
  bc_WatermarkAfter :: time
  bc_Queries :: nat
  bc_Splits :: nat
  bc_Applied :: nat
  bc_Misses :: nat
  bc_PossiblyTruncated :: bool
  bc_Err :: "go_error option"

record GroupCollectionResult =
  gc_GroupID :: string
  gc_Batches :: "BatchCollectionResult list"
  gc_Err :: "go_error option"

definition history_defaults :: "HistoryConfig \<Rightarrow> HistoryConfig" where
  "history_defaults config =
     (let config = (if hc_Limit config = 0 then config\<lparr>hc_Limit := DefaultHistoryLimit\<rparr> else config);
          config = (if hc_MaxSplitDepth config = 0 then config\<lparr>hc_MaxSplitDepth := DefaultMaxSplitDepth\<rparr> else config);
          config = (if hc_OverlapMin config = 0 then config\<lparr>hc_OverlapMin := DefaultOverlapMin\<rparr> else config);
          config = (if hc_OverlapMax config = 0 then config\<lparr>hc_OverlapMax := DefaultOverlapMax\<rparr> else config);
          config = (if hc_QueryTimeout config = 0 then config\<lparr>hc_QueryTimeout := 30 * Second\<rparr> else config)
      in config)"

text \<open>The reader, the store and the metadata source are given when \<open>hasReader\<close>, \<open>hasValues\<close> and
  \<open>hasSource\<close> hold.\<close>

definition NewGroupCollector :: "bool \<Rightarrow> bool \<Rightarrow> bool \<Rightarrow> 's \<Rightarrow> HistoryConfig \<Rightarrow> go_error + 's Collector" where
  "NewGroupCollector hasReader hasValues hasSource store config =
     (if \<not> hasReader then Inl (ArgumentError ''history reader is required'')
      else if \<not> hasValues then Inl (ArgumentError ''value store is required'')
      else if \<not> hasSource then Inl (ArgumentError ''metadata source is required'')
      else let config = history_defaults config in
      if hc_Limit config < 1 then Inl (InvalidConfig ''history limit must be positive'')
      else if hc_MaxSplitDepth config < 1 then Inl (InvalidConfig ''max split depth must be positive'')
      else if hc_OverlapMin config < 0 \<or> hc_OverlapMax config < hc_OverlapMin config
        then Inl (InvalidConfig ''invalid overlap range'')
      else if hc_QueryTimeout config \<le> 0 then Inl (InvalidConfig ''history query timeout must be positive'')
      else Inr \<lparr>cl_config = config, cl_states = [], cl_store = store, cl_step = 0\<rparr>)"

section \<open>Query windows and limits\<close>

definition overlapForDelay :: "duration \<Rightarrow> duration \<Rightarrow> duration \<Rightarrow> duration" where
  "overlapForDelay delay minimum maximum =
     (let overlap = go_div delay 5;
          overlap = (if overlap < minimum then minimum else overlap)
      in if maximum > 0 \<and> overlap > maximum then maximum else overlap)"

definition bootstrapWindow :: "duration \<Rightarrow> duration" where
  "bootstrapWindow delay =
     (if delay \<le> Minute then
        (let window = dmul 2 delay in if window < 5 * Minute then 5 * Minute else window)
      else
        (let grace = go_div delay 5;
             grace = (if grace < 30 * Second then 30 * Second else grace)
         in dadd (dmul 2 delay) grace))"

definition queryLimit :: "HistoryConfig \<Rightarrow> HistoryQuery \<Rightarrow> duration \<Rightarrow> int" where
  "queryLimit config query delay =
     (if delay \<le> 0 \<or> hq_ItemIDs query = [] then hc_Limit config
      else
        (let window = time_Sub (hq_TimeTill query) (hq_TimeFrom query);
             window = (if window < 0 then 0 else window);
             expectedPerItem = go_div window delay;
             expectedPerItem = (if go_mod window delay \<noteq> 0 then wrap64 (expectedPerItem + 1) else expectedPerItem);
             expectedPerItem = wrap64 (expectedPerItem + 2);
             itemCount = int (length (hq_ItemIDs query))
         in if expectedPerItem \<ge> hc_Limit config \<or> expectedPerItem > go_div (hc_Limit config) itemCount
            then hc_Limit config
            else
              (let calculated = wrap64 (expectedPerItem * itemCount);
                   calculated = (if calculated < 1 then 1 else calculated)
               in if calculated > hc_Limit config then hc_Limit config else calculated)))"

section \<open>Filtering and merging\<close>

definition keep_record :: "duration \<Rightarrow> time \<Rightarrow> HistoryItem \<Rightarrow> bool" where
  "keep_record delay queryTill record \<longleftrightarrow>
     (let ns = hi_NS record in
      ns < 0 \<or> ns \<ge> Second \<or> ValueExpireAt (time_Unix (hi_Clock record) ns) delay > queryTill)"

definition filterExpiredLatest :: "BatchResult \<Rightarrow> duration \<Rightarrow> time \<Rightarrow> BatchResult" where
  "filterExpiredLatest batch delay queryTill =
     (let latest = (case br_Latest batch of None \<Rightarrow> ReduceLatest (br_Records batch) | Some m \<Rightarrow> m)
      in batch\<lparr>br_Latest := Some (filter (\<lambda>(itemID, record). keep_record delay queryTill record) latest)\<rparr>)"

record queryResult =
  qr_complete :: bool
  qr_queries :: nat
  qr_splits :: nat
  qr_applied :: nat
  qr_misses :: "string list"
  qr_finishedAt :: time
  qr_truncated :: bool
  qr_err :: "go_error option"

definition zeroResult :: queryResult where
  "zeroResult = \<lparr>qr_complete = False, qr_queries = 0, qr_splits = 0, qr_applied = 0, qr_misses = [],
     qr_finishedAt = 0, qr_truncated = False, qr_err = None\<rparr>"

definition mergeSplit :: "queryResult \<Rightarrow> queryResult \<Rightarrow> queryResult" where
  "mergeSplit left right =
     \<lparr>qr_complete = (qr_complete left \<and> qr_complete right),
      qr_queries = 1 + qr_queries left + qr_queries right,
      qr_splits = 1 + qr_splits left + qr_splits right,
      qr_applied = qr_applied left + qr_applied right,
      qr_misses = qr_misses left @ qr_misses right,
      qr_finishedAt = (if qr_finishedAt right > qr_finishedAt left then qr_finishedAt right
                       else qr_finishedAt left),
      qr_truncated = True,
      qr_err = errors_join [qr_err left, qr_err right]\<rparr>"

definition uniqueSorted :: "string list \<Rightarrow> string list" where
  "uniqueSorted values = (if values = [] then [] else compact_adj (sort values))"

section \<open>One query and its splits\<close>

text \<open>What \<^verbatim>\<open>query\<close> does with an answer that is not truncated.\<close>

definition apply_reply :: "('s :: type) Env \<Rightarrow> duration \<Rightarrow> MetadataSnapshot option \<Rightarrow> HistoryQuery \<Rightarrow> BatchResult
    \<Rightarrow> 's Collector \<Rightarrow> 's Collector \<times> queryResult" where
  "apply_reply env delay snapshot query batch c =
     (let result = zeroResult\<lparr>qr_queries := 1, qr_finishedAt := br_FinishedAt batch\<rparr> in
      if br_Status batch \<noteq> BatchSuccess \<and> br_Status batch \<noteq> BatchEmpty then
        (c, result\<lparr>qr_err := Some (case br_Err batch of
               Some err \<Rightarrow> err | None \<Rightarrow> HistoryStatusError (BatchStatus_String (br_Status batch)))\<rparr>)
      else
        (let batch = filterExpiredLatest batch delay (hq_TimeTill query) in
         case ev_apply env (cl_step c) batch snapshot (cl_store c) of
           (store, apply) \<Rightarrow>
             (let c = c\<lparr>cl_store := store\<rparr> in
              if ar_Stale apply \<noteq> 0
              then (c, result\<lparr>qr_err := Some (ErrMetadataChanged (hq_GroupID query) (ar_Stale apply))\<rparr>)
              else (c, result\<lparr>qr_complete := True,
                      qr_applied := ar_Created apply + ar_Updated apply + ar_Unchanged apply,
                      qr_misses := ar_MissItemIDs apply\<rparr>))))"

text \<open>The query as it is sent, and whether its answer may be truncated.\<close>

definition sent_query :: "HistoryConfig \<Rightarrow> duration \<Rightarrow> HistoryQuery \<Rightarrow> HistoryQuery" where
  "sent_query config delay query = query\<lparr>hq_Limit := queryLimit config query delay\<rparr>"

definition is_truncated :: "HistoryQuery \<Rightarrow> BatchResult \<Rightarrow> bool" where
  "is_truncated query batch \<longleftrightarrow> br_Status batch = BatchPossiblyTruncated \<or> br_LimitHit batch
     \<or> hq_Limit query > 0 \<and> br_Returned batch \<ge> hq_Limit query"

function query_history :: "('s :: type) Env \<Rightarrow> duration \<Rightarrow> MetadataSnapshot option \<Rightarrow> HistoryQuery \<Rightarrow> nat
    \<Rightarrow> 's Collector \<Rightarrow> 's Collector \<times> queryResult" where
  "query_history env delay snapshot query depth c =
     (case ev_ctxErr env (cl_step c) of
        Some err \<Rightarrow> (c\<lparr>cl_step := Suc (cl_step c)\<rparr>, zeroResult\<lparr>qr_err := Some err\<rparr>)
      | None \<Rightarrow>
          (let c = c\<lparr>cl_step := Suc (cl_step c)\<rparr>;
               query = sent_query (cl_config c) delay query;
               batch = (ev_reader env (cl_step c) query)\<lparr>br_Query := query\<rparr>;
               result = zeroResult\<lparr>qr_queries := 1, qr_finishedAt := br_FinishedAt batch\<rparr> in
           if is_truncated query batch then
             (if length (hq_ItemIDs query) < 2 \<or> int depth \<ge> hc_MaxSplitDepth (cl_config c) then
                (c, result\<lparr>qr_truncated := True,
                      qr_err := Some (ErrPossiblyTruncated (hq_GroupID query) (length (hq_ItemIDs query)) depth)\<rparr>)
              else
                (let middle = length (hq_ItemIDs query) div 2;
                     leftQuery = query\<lparr>hq_ItemIDs := take middle (hq_ItemIDs query)\<rparr>;
                     rightQuery = query\<lparr>hq_ItemIDs := drop middle (hq_ItemIDs query)\<rparr>;
                     (c, left) = query_history env delay snapshot leftQuery (Suc depth) c;
                     (c, right) = query_history env delay snapshot rightQuery (Suc depth) c
                 in (c, mergeSplit left right)))
           else apply_reply env delay snapshot query batch c))"
  by pat_completeness auto
termination
  by (relation "measure (\<lambda>(env, delay, snapshot, query, depth, c). length (hq_ItemIDs query))")
    (auto simp: sent_query_def)

declare query_history.simps [simp del]

section \<open>Batches and groups\<close>

definition batch_state :: "string \<Rightarrow> 's Collector \<Rightarrow> 's Collector \<times> time" where
  "batch_state bid c =
     (case mget (cl_states c) bid of
        Some lastQueryTill \<Rightarrow> (c, lastQueryTill)
      | None \<Rightarrow> (c\<lparr>cl_states := mput bid 0 (cl_states c)\<rparr>, 0))"

definition LastQueryTill :: "'s Collector \<Rightarrow> string \<Rightarrow> time" where
  "LastQueryTill c bid = (case mget (cl_states c) bid of None \<Rightarrow> 0 | Some t \<Rightarrow> t)"

definition batch_query :: "HistoryConfig \<Rightarrow> Group \<Rightarrow> Batch \<Rightarrow> time \<Rightarrow> time \<Rightarrow> HistoryQuery" where
  "batch_query config g batch lastQueryTill queryTill =
     (let timeFrom = time_Add queryTill (wrap64 (- bootstrapWindow (gr_Delay g)));
          timeFrom = (if \<not> time_IsZero lastQueryTill
                      then time_Add lastQueryTill (wrap64 (- overlapForDelay (gr_Delay g)
                             (hc_OverlapMin config) (hc_OverlapMax config)))
                      else timeFrom)
      in \<lparr>hq_GroupID = gr_ID g, hq_ItemIDs = ba_ItemIDs batch, hq_ValueType = gr_ValueType g,
          hq_TimeFrom = timeFrom, hq_TimeTill = queryTill, hq_Limit = 0\<rparr>)"

definition collectBatch :: "('s :: type) Env \<Rightarrow> Group \<Rightarrow> Batch \<Rightarrow> time \<Rightarrow> 's Collector
    \<Rightarrow> 's Collector \<times> BatchCollectionResult" where
  "collectBatch env g batch queryTill c =
     (let (c, lastQueryTill) = batch_state (ba_ID batch) c;
          result = \<lparr>bc_BatchID = ba_ID batch, bc_Complete = False, bc_WatermarkBefore = lastQueryTill,
                    bc_WatermarkAfter = 0, bc_Queries = 0, bc_Splits = 0, bc_Applied = 0, bc_Misses = 0,
                    bc_PossiblyTruncated = False, bc_Err = None\<rparr> in
      if \<not> time_IsZero lastQueryTill \<and> queryTill < lastQueryTill then
        (c, result\<lparr>bc_WatermarkAfter := lastQueryTill,
              bc_Err := Some (BeforeWatermarkError queryTill lastQueryTill)\<rparr>)
      else
        (let query = batch_query (cl_config c) g batch lastQueryTill queryTill;
             snapshot = ev_snapshot env (cl_step c);
             (c, attempt) = query_history env (gr_Delay g) snapshot query 0 c;
             result = result\<lparr>bc_Queries := qr_queries attempt, bc_Splits := qr_splits attempt,
                             bc_Applied := qr_applied attempt, bc_PossiblyTruncated := qr_truncated attempt,
                             bc_Err := qr_err attempt\<rparr> in
         if \<not> qr_complete attempt then (c, result\<lparr>bc_WatermarkAfter := lastQueryTill\<rparr>)
         else
           (let misses = uniqueSorted (qr_misses attempt);
                c = (if misses \<noteq> [] then
                       (let fetchedAt = (if time_IsZero (qr_finishedAt attempt) then queryTill
                                         else qr_finishedAt attempt)
                        in c\<lparr>cl_store := fst (ev_mark env (cl_step c) misses fetchedAt (cl_store c))\<rparr>)
                     else c);
                c = c\<lparr>cl_states := mput (ba_ID batch) queryTill (cl_states c)\<rparr>
            in (c, result\<lparr>bc_Complete := True, bc_Misses := length misses,
                     bc_WatermarkAfter := queryTill\<rparr>))))"

fun collect_batches :: "('s :: type) Env \<Rightarrow> Group \<Rightarrow> time \<Rightarrow> Batch list \<Rightarrow> 's Collector \<Rightarrow> GroupCollectionResult
    \<Rightarrow> 's Collector \<times> GroupCollectionResult" where
  "collect_batches env g queryTill [] c result = (c, result)"
| "collect_batches env g queryTill (batch # batches) c result =
     (case ev_ctxErr env (cl_step c) of
        Some err \<Rightarrow> (c\<lparr>cl_step := Suc (cl_step c)\<rparr>, result\<lparr>gc_Err := errors_join [gc_Err result, Some err]\<rparr>)
      | None \<Rightarrow>
          (let (c, batchResult) = collectBatch env g batch queryTill (c\<lparr>cl_step := Suc (cl_step c)\<rparr>)
           in collect_batches env g queryTill batches c
                (result\<lparr>gc_Batches := gc_Batches result @ [batchResult],
                        gc_Err := errors_join [gc_Err result, bc_Err batchResult]\<rparr>)))"

definition CollectGroup :: "('s :: type) Env \<Rightarrow> time \<Rightarrow> Group \<Rightarrow> time \<Rightarrow> 's Collector
    \<Rightarrow> 's Collector \<times> GroupCollectionResult" where
  "CollectGroup env now g queryTill c =
     (let queryTill = (if time_IsZero queryTill then now else queryTill)
      in collect_batches env g queryTill (gr_Batches g) c
           \<lparr>gc_GroupID = gr_ID g, gc_Batches = [], gc_Err = None\<rparr>)"

definition Execute :: "('s :: type) Env \<Rightarrow> time \<Rightarrow> Group \<Rightarrow> time \<Rightarrow> 's Collector \<Rightarrow> 's Collector \<times> go_error option" where
  "Execute env now g queryTill c =
     (let (c, result) = CollectGroup env now g queryTill c in (c, gc_Err result))"

definition RetainGroups :: "Group list \<Rightarrow> 's Collector \<Rightarrow> 's Collector" where
  "RetainGroups groups c =
     (let keep = concat (map (\<lambda>g. map ba_ID (gr_Batches g)) groups)
      in c\<lparr>cl_states := filter (\<lambda>(bid, t). bid \<in> set keep) (cl_states c)\<rparr>)"

end
