(* ===== verification/Collector_Laws.thy ===== *)
theory Collector_Laws
  imports Group_Collector Cache_Expiry
begin

text \<open>
  The laws of the group collector's query: how many requests a query can cost, which parts of it were
  applied when it succeeds, and what its caller may rely on when it fails.  The collector's value store
  is an interface (\<open>value_store\<close>); the value cache with its expiry wheel provides it.
\<close>

section \<open>The cost of a query\<close>

lemma mergeSplit_sel [simp]:
  "qr_complete (mergeSplit l r) \<longleftrightarrow> qr_complete l \<and> qr_complete r"
  "qr_queries (mergeSplit l r) = 1 + qr_queries l + qr_queries r"
  "qr_splits (mergeSplit l r) = 1 + qr_splits l + qr_splits r"
  "qr_misses (mergeSplit l r) = qr_misses l @ qr_misses r"
  "qr_err (mergeSplit l r) = errors_join [qr_err l, qr_err r]"
  by (simp_all add: mergeSplit_def)

lemma apply_reply_frame:
  "apply_reply env delay sn q b c = (c', r) \<Longrightarrow>
     qr_queries r = 1 \<and> qr_splits r = 0 \<and> cl_config c' = cl_config c \<and> cl_states c' = cl_states c
     \<and> cl_step c' = cl_step c \<and> (qr_complete r \<longleftrightarrow> qr_err r = None)"
  by (auto simp: apply_reply_def zeroResult_def Let_def split: if_splits prod.splits)

text \<open>The four ways a query goes.\<close>

lemma query_history_cases:
  assumes "query_history env delay sn q d c = (c', r)"
  obtains (ctx) err where "ev_ctxErr env (cl_step c) = Some err" "c' = c\<lparr>cl_step := Suc (cl_step c)\<rparr>"
      "r = zeroResult\<lparr>qr_err := Some err\<rparr>"
  | (reply) c1 sq b where "ev_ctxErr env (cl_step c) = None" "c1 = c\<lparr>cl_step := Suc (cl_step c)\<rparr>"
      "sq = sent_query (cl_config c) delay q" "b = (ev_reader env (cl_step c1) sq)\<lparr>br_Query := sq\<rparr>"
      "\<not> is_truncated sq b" "apply_reply env delay sn sq b c1 = (c', r)"
  | (stuck) c1 sq b where "c1 = c\<lparr>cl_step := Suc (cl_step c)\<rparr>" "sq = sent_query (cl_config c) delay q"
      "b = (ev_reader env (cl_step c1) sq)\<lparr>br_Query := sq\<rparr>" "is_truncated sq b"
      "length (hq_ItemIDs q) < 2 \<or> hc_MaxSplitDepth (cl_config c) \<le> int d" "c' = c1"
      "r = zeroResult\<lparr>qr_queries := 1, qr_finishedAt := br_FinishedAt b, qr_truncated := True,
        qr_err := Some (ErrPossiblyTruncated (hq_GroupID sq) (length (hq_ItemIDs q)) d)\<rparr>"
  | (split) c1 sq b c2 left right where "c1 = c\<lparr>cl_step := Suc (cl_step c)\<rparr>"
      "sq = sent_query (cl_config c) delay q" "b = (ev_reader env (cl_step c1) sq)\<lparr>br_Query := sq\<rparr>"
      "is_truncated sq b" "2 \<le> length (hq_ItemIDs q)" "int d < hc_MaxSplitDepth (cl_config c)"
      "query_history env delay sn (sq\<lparr>hq_ItemIDs := take (length (hq_ItemIDs q) div 2) (hq_ItemIDs q)\<rparr>) (Suc d) c1
        = (c2, left)"
      "query_history env delay sn (sq\<lparr>hq_ItemIDs := drop (length (hq_ItemIDs q) div 2) (hq_ItemIDs q)\<rparr>) (Suc d) c2
        = (c', right)" "r = mergeSplit left right"
proof (cases "ev_ctxErr env (cl_step c)")
  case (Some err)
  then show ?thesis using assms ctx by (simp add: query_history.simps)
next
  case None
  define c1 where "c1 = c\<lparr>cl_step := Suc (cl_step c)\<rparr>"
  define sq where "sq = sent_query (cl_config c) delay q"
  define b where "b = (ev_reader env (cl_step c1) sq)\<lparr>br_Query := sq\<rparr>"
  have ids: "hq_ItemIDs sq = hq_ItemIDs q" by (simp add: sq_def sent_query_def)
  have cfg: "cl_config c1 = cl_config c" by (simp add: c1_def)
  note run = assms [unfolded query_history.simps [of env delay sn q d c] None option.case Let_def,
      folded c1_def, unfolded cfg, folded sq_def b_def, unfolded ids]
  show ?thesis
  proof (cases "is_truncated sq b")
    case False
    then show ?thesis using run by (intro reply [OF None c1_def sq_def b_def]) simp_all
  next
    case t: True
    show ?thesis
    proof (cases "length (hq_ItemIDs q) < 2 \<or> hc_MaxSplitDepth (cl_config c) \<le> int d")
      case True
      then show ?thesis using run t by (intro stuck [OF c1_def sq_def b_def t]) auto
    next
      case False
      obtain c2 left where l: "query_history env delay sn
          (sq\<lparr>hq_ItemIDs := take (length (hq_ItemIDs q) div 2) (hq_ItemIDs q)\<rparr>) (Suc d) c1 = (c2, left)"
        by (metis surj_pair)
      obtain c3 right where r: "query_history env delay sn
          (sq\<lparr>hq_ItemIDs := drop (length (hq_ItemIDs q) div 2) (hq_ItemIDs q)\<rparr>) (Suc d) c2 = (c3, right)"
        by (metis surj_pair)
      have "c' = c3" "r = mergeSplit left right" using run t False l r by auto
      then show ?thesis using False l r by (intro split [OF c1_def sq_def b_def t]) auto
    qed
  qed
qed

lemma sent_query_sel [simp]:
  "hq_ItemIDs (sent_query cfg delay q) = hq_ItemIDs q" "hq_GroupID (sent_query cfg delay q) = hq_GroupID q"
  "hq_ValueType (sent_query cfg delay q) = hq_ValueType q" "hq_TimeFrom (sent_query cfg delay q) = hq_TimeFrom q"
  "hq_TimeTill (sent_query cfg delay q) = hq_TimeTill q"
  "hq_Limit (sent_query cfg delay q) = queryLimit cfg q delay"
  by (simp_all add: sent_query_def)

text \<open>The induction every fact about a query and its splits uses.\<close>

lemma query_induct [consumes 1, case_names ctx reply stuck split]:
  assumes run: "query_history env delay sn q d c = (c', r)"
    and ctx: "\<And>q d c err. ev_ctxErr env (cl_step c) = Some err
      \<Longrightarrow> P q d c (c\<lparr>cl_step := Suc (cl_step c)\<rparr>) (zeroResult\<lparr>qr_err := Some err\<rparr>)"
    and reply: "\<And>q d c c1 sq b c' r. c1 = c\<lparr>cl_step := Suc (cl_step c)\<rparr> \<Longrightarrow> sq = sent_query (cl_config c) delay q
      \<Longrightarrow> b = (ev_reader env (cl_step c1) sq)\<lparr>br_Query := sq\<rparr> \<Longrightarrow> \<not> is_truncated sq b
      \<Longrightarrow> apply_reply env delay sn sq b c1 = (c', r) \<Longrightarrow> P q d c c' r"
    and stuck: "\<And>q d c r. qr_err r \<noteq> None \<Longrightarrow> \<not> qr_complete r \<Longrightarrow> qr_queries r = 1 \<Longrightarrow> qr_splits r = 0
      \<Longrightarrow> P q d c (c\<lparr>cl_step := Suc (cl_step c)\<rparr>) r"
    and split: "\<And>q d c c1 c2 c' left right lq rq. c1 = c\<lparr>cl_step := Suc (cl_step c)\<rparr>
      \<Longrightarrow> 2 \<le> length (hq_ItemIDs q) \<Longrightarrow> int d < hc_MaxSplitDepth (cl_config c)
      \<Longrightarrow> lq = (sent_query (cl_config c) delay q)\<lparr>hq_ItemIDs := take (length (hq_ItemIDs q) div 2) (hq_ItemIDs q)\<rparr>
      \<Longrightarrow> rq = (sent_query (cl_config c) delay q)\<lparr>hq_ItemIDs := drop (length (hq_ItemIDs q) div 2) (hq_ItemIDs q)\<rparr>
      \<Longrightarrow> query_history env delay sn lq (Suc d) c1 = (c2, left) \<Longrightarrow> P lq (Suc d) c1 c2 left
      \<Longrightarrow> query_history env delay sn rq (Suc d) c2 = (c', right) \<Longrightarrow> P rq (Suc d) c2 c' right
      \<Longrightarrow> P q d c c' (mergeSplit left right)"
  shows "P q d c c' r"
  using run
proof (induction "length (hq_ItemIDs q)" arbitrary: q d c c' r rule: less_induct)
  case less
  from less.prems show ?case
  proof (cases rule: query_history_cases)
    case (ctx err)
    then show ?thesis using assms(2) by simp
  next
    case (reply c1 sq b)
    show ?thesis by (rule assms(3) [OF reply(2-6)])
  next
    case (stuck c1 sq b)
    show ?thesis unfolding stuck(1,6) by (rule assms(4)) (simp_all add: stuck(7) zeroResult_def)
  next
    case (split c1 sq b c2 left right)
    let ?lq = "(sent_query (cl_config c) delay q)\<lparr>hq_ItemIDs := take (length (hq_ItemIDs q) div 2) (hq_ItemIDs q)\<rparr>"
    let ?rq = "(sent_query (cl_config c) delay q)\<lparr>hq_ItemIDs := drop (length (hq_ItemIDs q) div 2) (hq_ItemIDs q)\<rparr>"
    note l = split(7) [unfolded split(2)] and r = split(8) [unfolded split(2)]
    have "length (hq_ItemIDs ?lq) < length (hq_ItemIDs q)" "length (hq_ItemIDs ?rq) < length (hq_ItemIDs q)"
      using split(5) by simp_all
    from less.hyps [OF this(1) l] less.hyps [OF this(2) r] show ?thesis
      unfolding split(9) by (rule assms(5) [OF split(1,5,6) refl refl l _ r])
  qed
qed

lemma query_history_frame:
  assumes "query_history env delay sn q d c = (c', r)"
  shows "cl_config c' = cl_config c \<and> cl_states c' = cl_states c \<and> cl_step c < cl_step c'
    \<and> (qr_complete r \<longleftrightarrow> qr_err r = None)"
  using assms
proof (induction rule: query_induct)
  case (reply q d c c1 sq b c' r)
  then show ?case using apply_reply_frame [of env delay sn sq b c1 c' r] by simp
next
  case (split q d c c1 c2 c' left right lq rq)
  then show ?case by (auto simp: errors_join_None_iff)
qed (auto simp: zeroResult_def)

text \<open>Both the number of items and the depth bound the splitting tree.\<close>

lemma query_history_cost:
  assumes "query_history env delay sn q d c = (c', r)"
  shows "qr_queries r \<le> 2 * qr_splits r + 1 \<and> qr_splits r \<le> length (hq_ItemIDs q) - 1
    \<and> qr_splits r < 2 ^ nat (hc_MaxSplitDepth (cl_config c) - int d)"
  using assms
proof (induction rule: query_induct)
  case (reply q d c c1 sq b c' r)
  then show ?case using apply_reply_frame [of env delay sn sq b c1 c' r] by simp
next
  case (split q d c c1 c2 c' left right lq rq)
  define D where "D = nat (hc_MaxSplitDepth (cl_config c) - int (Suc d))"
  have D: "nat (hc_MaxSplitDepth (cl_config c) - int d) = Suc D" using split(3) by (simp add: D_def)
  have cfg: "cl_config c1 = cl_config c" "cl_config c2 = cl_config c"
    using split(1) query_history_frame [OF split(6)] by simp_all
  have "qr_splits left < 2 ^ D" "qr_splits right < 2 ^ D"
    using split.IH unfolding cfg D_def by blast+
  then have "1 + qr_splits left + qr_splits right < 2 ^ Suc D" by simp
  moreover have "qr_splits left \<le> length (hq_ItemIDs q) div 2 - 1"
    "qr_splits right \<le> length (hq_ItemIDs q) - length (hq_ItemIDs q) div 2 - 1"
    using split(2,4,5) split.IH by simp_all
  then have "1 + qr_splits left + qr_splits right \<le> length (hq_ItemIDs q) - 1"
    using split(2) by linarith
  moreover have "qr_queries left \<le> 2 * qr_splits left + 1" "qr_queries right \<le> 2 * qr_splits right + 1"
    using split.IH by blast+
  ultimately show ?case unfolding D by simp
qed (auto simp: zeroResult_def)

lemma query_history_steps:
  assumes "query_history env delay sn q d c = (c', r)"
  shows "cl_step c + qr_queries r \<le> cl_step c'"
  using assms
proof (induction rule: query_induct)
  case (reply q d c c1 sq b c' r)
  then show ?case using apply_reply_frame [of env delay sn sq b c1 c' r] by simp
qed (auto simp: zeroResult_def)

section \<open>The parts a successful query applied\<close>

text \<open>A part is a step of the run and the query it sent; \<open>run_parts\<close> applies the parts' answers in order
  and collects what the store reported.\<close>

definition part_reply :: "('s :: type) Env \<Rightarrow> nat \<times> HistoryQuery \<Rightarrow> BatchResult" where
  "part_reply env p = (ev_reader env (fst p) (snd p))\<lparr>br_Query := snd p\<rparr>"

fun run_parts :: "('s :: type) Env \<Rightarrow> duration \<Rightarrow> MetadataSnapshot option \<Rightarrow> (nat \<times> HistoryQuery) list \<Rightarrow> 's
    \<Rightarrow> 's \<times> ApplyResult list" where
  "run_parts env delay sn [] s = (s, [])"
| "run_parts env delay sn (p # ps) s =
     (let (s, apply) = ev_apply env (fst p) (filterExpiredLatest (part_reply env p) delay (hq_TimeTill (snd p))) sn s;
          (s, applies) = run_parts env delay sn ps s in (s, apply # applies))"

definition part_ok :: "('s :: type) Env \<Rightarrow> HistoryQuery \<Rightarrow> nat \<times> HistoryQuery \<Rightarrow> bool" where
  "part_ok env q p \<longleftrightarrow> hq_GroupID (snd p) = hq_GroupID q \<and> hq_ValueType (snd p) = hq_ValueType q
     \<and> hq_TimeFrom (snd p) = hq_TimeFrom q \<and> hq_TimeTill (snd p) = hq_TimeTill q
     \<and> \<not> is_truncated (snd p) (part_reply env p)
     \<and> br_Status (part_reply env p) \<in> {BatchSuccess, BatchEmpty}"

lemma run_parts_append:
  "run_parts env delay sn (ps @ qs) s =
     (case run_parts env delay sn ps s of (s1, as) \<Rightarrow>
        case run_parts env delay sn qs s1 of (s2, bs) \<Rightarrow> (s2, as @ bs))"
  by (induction ps arbitrary: s) (auto split: prod.split)

lemma apply_reply_complete:
  assumes "apply_reply env delay sn sq b c = (c', r)" and "qr_complete r"
  shows "br_Status b \<in> {BatchSuccess, BatchEmpty}
    \<and> (\<exists>a. ev_apply env (cl_step c) (filterExpiredLatest b delay (hq_TimeTill sq)) sn (cl_store c) = (cl_store c', a)
         \<and> ar_Stale a = 0 \<and> qr_misses r = ar_MissItemIDs a
         \<and> qr_applied r = ar_Created a + ar_Updated a + ar_Unchanged a)"
  using assms
  by (auto simp: apply_reply_def zeroResult_def Let_def split: if_splits prod.splits)

lemma query_history_parts:
  assumes "query_history env delay sn q d c = (c', r)"
  shows "qr_complete r \<Longrightarrow> \<exists>ps as. concat (map (\<lambda>p. hq_ItemIDs (snd p)) ps) = hq_ItemIDs q
    \<and> (\<forall>p \<in> set ps. part_ok env q p)
    \<and> run_parts env delay sn ps (cl_store c) = (cl_store c', as) \<and> (\<forall>a \<in> set as. ar_Stale a = 0)
    \<and> qr_misses r = concat (map ar_MissItemIDs as)
    \<and> qr_applied r = (\<Sum>a \<leftarrow> as. ar_Created a + ar_Updated a + ar_Unchanged a)"
  using assms
proof (induction rule: query_induct)
  case (reply q d c c1 sq b c' r)
  from apply_reply_complete [OF reply(5) \<open>qr_complete r\<close>] obtain a where
    a: "ev_apply env (cl_step c1) (filterExpiredLatest b delay (hq_TimeTill sq)) sn (cl_store c1) = (cl_store c', a)"
    "ar_Stale a = 0" "qr_misses r = ar_MissItemIDs a" "br_Status b \<in> {BatchSuccess, BatchEmpty}"
    "qr_applied r = ar_Created a + ar_Updated a + ar_Unchanged a" by blast
  have b: "part_reply env (cl_step c1, sq) = b" using reply(3) by (simp add: part_reply_def)
  show ?case
    by (rule exI [of _ "[(cl_step c1, sq)]"], rule exI [of _ "[a]"])
      (use a b reply(1,2,4) in \<open>simp add: part_ok_def\<close>)
next
  case (split q d c c1 c2 c' left right lq rq)
  from split.prems have "qr_complete left" "qr_complete right" by simp_all
  from split.IH(1) [OF this(1)] split.IH(2) [OF this(2)]
  obtain ps as qs bs where l: "concat (map (\<lambda>p. hq_ItemIDs (snd p)) ps) = hq_ItemIDs lq" "\<forall>p \<in> set ps. part_ok env lq p"
      "run_parts env delay sn ps (cl_store c1) = (cl_store c2, as)" "\<forall>a \<in> set as. ar_Stale a = 0"
      "qr_misses left = concat (map ar_MissItemIDs as)"
      "qr_applied left = (\<Sum>a \<leftarrow> as. ar_Created a + ar_Updated a + ar_Unchanged a)"
    and r: "concat (map (\<lambda>p. hq_ItemIDs (snd p)) qs) = hq_ItemIDs rq" "\<forall>p \<in> set qs. part_ok env rq p"
      "run_parts env delay sn qs (cl_store c2) = (cl_store c', bs)" "\<forall>a \<in> set bs. ar_Stale a = 0"
      "qr_misses right = concat (map ar_MissItemIDs bs)"
      "qr_applied right = (\<Sum>a \<leftarrow> bs. ar_Created a + ar_Updated a + ar_Unchanged a)"
    by blast
  have same: "part_ok env lq p \<Longrightarrow> part_ok env q p" "part_ok env rq p \<Longrightarrow> part_ok env q p" for p
    using split(4,5) by (simp_all add: part_ok_def)
  have ids: "hq_ItemIDs lq @ hq_ItemIDs rq = hq_ItemIDs q" using split(4,5) by simp
  have store: "cl_store c1 = cl_store c" using split(1) by simp
  have run: "run_parts env delay sn (ps @ qs) (cl_store c) = (cl_store c', as @ bs)"
    using l(3) r(3) by (simp add: run_parts_append store)
  show ?case
    by (rule exI [of _ "ps @ qs"], rule exI [of _ "as @ bs"])
      (use l r same run ids in \<open>auto simp: mergeSplit_def\<close>)
qed (simp_all add: zeroResult_def)

section \<open>The value store as an interface\<close>

text \<open>\<open>ok n s\<close>: the store's invariant holds and it has room for \<open>n\<close> more writes.\<close>

locale value_store =
  fixes apply_batch :: "nat \<Rightarrow> BatchResult \<Rightarrow> MetadataSnapshot option \<Rightarrow> 's \<Rightarrow> 's \<times> ApplyResult"
    and mark_miss :: "nat \<Rightarrow> string list \<Rightarrow> time \<Rightarrow> 's \<Rightarrow> 's \<times> MissResult"
    and ok :: "nat \<Rightarrow> 's \<Rightarrow> bool"
  assumes apply_ok: "ok n s \<Longrightarrow> wf_map (batch_latest b) \<Longrightarrow> length (batch_latest b) \<le> m \<Longrightarrow> m \<le> n
      \<Longrightarrow> ok (n - m) (fst (apply_batch i b sn s))"
    and mark_ok: "ok n s \<Longrightarrow> ok n (fst (mark_miss i ids t s))"
    and ok_mono: "ok n s \<Longrightarrow> m \<le> n \<Longrightarrow> ok m s"

text \<open>What the collector needs of its reader: the latest map of an answer is a map no longer than the
  number of records the answer reports.\<close>

definition reader_sound :: "(nat \<Rightarrow> HistoryQuery \<Rightarrow> BatchResult) \<Rightarrow> bool" where
  "reader_sound reader \<longleftrightarrow> (\<forall>i q. wf_map (batch_latest (reader i q))
     \<and> int (length (batch_latest (reader i q))) \<le> br_Returned (reader i q))"

definition query_room :: "HistoryConfig \<Rightarrow> nat \<Rightarrow> nat" where
  "query_room cfg items = max 1 items * nat (hc_Limit cfg)"

definition batches_room :: "HistoryConfig \<Rightarrow> Batch list \<Rightarrow> nat" where
  "batches_room cfg batches = (\<Sum>b \<leftarrow> batches. query_room cfg (length (ba_ItemIDs b)))"

lemma queryLimit_bounds: "0 < hc_Limit cfg \<Longrightarrow> 0 < queryLimit cfg q delay \<and> queryLimit cfg q delay \<le> hc_Limit cfg"
  by (simp add: queryLimit_def Let_def)

lemma batch_latest_filter:
  "batch_latest (filterExpiredLatest b delay till) = filter (\<lambda>(k, h). keep_record delay till h) (batch_latest b)"
  by (simp add: batch_latest_def filterExpiredLatest_def Let_def)

lemma wf_map_filter: "wf_map m \<Longrightarrow> wf_map (filter P m)"
  by (simp add: wf_map_def distinct_map_filter)

lemma filterExpiredLatest_other [simp]:
  "br_Status (filterExpiredLatest b delay till) = br_Status b" "br_Query (filterExpiredLatest b delay till) = br_Query b"
  "br_Records (filterExpiredLatest b delay till) = br_Records b"
  by (simp_all add: filterExpiredLatest_def)

context value_store
begin

lemma reply_ok:
  assumes env: "ev_apply env = apply_batch" and lim: "0 < hc_Limit cfg"
    and b: "wf_map (batch_latest b)" "int (length (batch_latest b)) \<le> br_Returned b"
    and nt: "\<not> is_truncated (sent_query cfg delay q) b"
    and run: "apply_reply env delay sn (sent_query cfg delay q) b c = (c', r)"
    and ok: "ok (n + nat (hc_Limit cfg)) (cl_store c)"
  shows "ok n (cl_store c')"
proof -
  let ?f = "filterExpiredLatest b delay (hq_TimeTill (sent_query cfg delay q))"
  have "br_Returned b < hc_Limit cfg"
    using nt queryLimit_bounds [OF lim, of q delay] by (auto simp: is_truncated_def)
  then have "length (batch_latest b) \<le> nat (hc_Limit cfg)" using b(2) by linarith
  moreover have "length (batch_latest ?f) \<le> length (batch_latest b)"
    by (simp add: batch_latest_filter)
  ultimately have len: "length (batch_latest ?f) \<le> nat (hc_Limit cfg)" by linarith
  have wf: "wf_map (batch_latest ?f)" using b(1) by (simp add: batch_latest_filter wf_map_filter)
  from apply_ok [OF ok wf len, of "cl_step c" sn]
  have applied: "ok n (fst (apply_batch (cl_step c) ?f sn (cl_store c)))" by simp
  have "cl_store c' = cl_store c \<or> cl_store c' = fst (apply_batch (cl_step c) ?f sn (cl_store c))"
    using run by (auto simp: apply_reply_def env Let_def split: if_splits prod.splits)
  then show ?thesis using applied ok_mono [OF ok, of n] by auto
qed

lemma query_ok:
  assumes env: "ev_apply env = apply_batch" and rs: "reader_sound (ev_reader env)"
    and run: "query_history env delay sn q d c = (c', r)"
  shows "0 < hc_Limit (cl_config c) \<Longrightarrow> ok (n + query_room (cl_config c) (length (hq_ItemIDs q))) (cl_store c)
    \<Longrightarrow> ok n (cl_store c')"
  using run
proof (induction arbitrary: n rule: query_induct)
  case (reply q d c c1 sq b c' r)
  have c1: "cl_store c1 = cl_store c" using reply(1) by simp
  have lat: "batch_latest (b\<lparr>br_Query := x\<rparr>) = batch_latest b" for b x by (simp add: batch_latest_def split: option.split)
  have "wf_map (batch_latest b)" "int (length (batch_latest b)) \<le> br_Returned b"
    using rs by (simp_all add: reply(3) lat reader_sound_def)
  moreover have "ok (n + nat (hc_Limit (cl_config c))) (cl_store c1)"
    using reply(7) unfolding c1 by (rule ok_mono) (simp add: query_room_def)
  ultimately show ?case using reply_ok [OF env reply(6)] reply(2,4,5) by blast
next
  case (split q d c c1 c2 c' left right lq rq)
  have cfg: "cl_config c1 = cl_config c" "cl_store c1 = cl_store c" "cl_config c2 = cl_config c"
    using split(1) query_history_frame [OF split(6)] by simp_all
  have room: "query_room (cl_config c) (length (hq_ItemIDs q))
      = query_room (cl_config c) (length (hq_ItemIDs lq)) + query_room (cl_config c) (length (hq_ItemIDs rq))"
  proof -
    have "max 1 n = max 1 (n div 2) + max 1 (n - n div 2)" if "2 \<le> n" for n :: nat
      using that by linarith
    from this [OF split(2)] split(4,5) show ?thesis
      by (simp only: query_room_def add_mult_distrib [symmetric]) simp
  qed
  have "ok (n + query_room (cl_config c2) (length (hq_ItemIDs rq))) (cl_store c2)"
    by (rule split.IH(1)) (use split.prems in \<open>simp_all add: cfg room ac_simps\<close>)
  then show ?case by (intro split.IH(2)) (use split.prems in \<open>simp_all add: cfg\<close>)
qed (auto elim: ok_mono)

end

end
