(* ===== verification/Collector_Batches.thy ===== *)
theory Collector_Batches
  imports Collector_Laws
begin

text \<open>
  \<^verbatim>\<open>collectBatch\<close> and \<^verbatim>\<open>CollectGroup\<close>: the watermark of a batch moves exactly when its query succeeded
  completely, and the value store keeps its invariant throughout.  The cache with its expiry wheel is the
  store (interpretation \<open>cached\<close>).
\<close>

lemma batch_state_facts [simp]:
  "snd (batch_state k c) = LastQueryTill c k" "LastQueryTill (fst (batch_state k c)) = LastQueryTill c"
  "cl_config (fst (batch_state k c)) = cl_config c" "cl_store (fst (batch_state k c)) = cl_store c"
  "cl_step (fst (batch_state k c)) = cl_step c"
  by (auto simp: batch_state_def LastQueryTill_def fun_eq_iff split: option.splits if_splits)

lemma LastQueryTill_states: "cl_states c' = cl_states c \<Longrightarrow> LastQueryTill c' = LastQueryTill c"
  by (simp add: LastQueryTill_def fun_eq_iff)

definition initial_result :: "Batch \<Rightarrow> time \<Rightarrow> BatchCollectionResult" where
  "initial_result b before = \<lparr>bc_BatchID = ba_ID b, bc_Complete = False, bc_WatermarkBefore = before,
     bc_WatermarkAfter = 0, bc_Queries = 0, bc_Splits = 0, bc_Applied = 0, bc_Misses = 0,
     bc_PossiblyTruncated = False, bc_Err = None\<rparr>"

definition attempted :: "Batch \<Rightarrow> time \<Rightarrow> queryResult \<Rightarrow> BatchCollectionResult" where
  "attempted b before a = (initial_result b before)\<lparr>bc_Queries := qr_queries a, bc_Splits := qr_splits a,
     bc_Applied := qr_applied a, bc_PossiblyTruncated := qr_truncated a, bc_Err := qr_err a\<rparr>"

text \<open>The watermark, the store and the result after each of the three ways through \<^verbatim>\<open>collectBatch\<close>.\<close>

lemma collectBatch_cases:
  assumes "collectBatch env g b till c = (c', r)"
  obtains (early) "LastQueryTill c (ba_ID b) \<noteq> 0" "till < LastQueryTill c (ba_ID b)"
      "fst (batch_state (ba_ID b) c) = c'"
      "r = (initial_result b (LastQueryTill c (ba_ID b)))\<lparr>bc_WatermarkAfter := LastQueryTill c (ba_ID b),
             bc_Err := Some (BeforeWatermarkError till (LastQueryTill c (ba_ID b)))\<rparr>"
  | (failed) c1 a where "LastQueryTill c (ba_ID b) = 0 \<or> LastQueryTill c (ba_ID b) \<le> till"
      "fst (batch_state (ba_ID b) c) = c1"
      "query_history env (gr_Delay g) (ev_snapshot env (cl_step c))
         (batch_query (cl_config c) g b (LastQueryTill c (ba_ID b)) till) 0 c1 = (c', a)" "\<not> qr_complete a"
      "r = (attempted b (LastQueryTill c (ba_ID b)) a)\<lparr>bc_WatermarkAfter := LastQueryTill c (ba_ID b)\<rparr>"
  | (complete) c1 c2 a s where "LastQueryTill c (ba_ID b) = 0 \<or> LastQueryTill c (ba_ID b) \<le> till"
      "fst (batch_state (ba_ID b) c) = c1"
      "query_history env (gr_Delay g) (ev_snapshot env (cl_step c))
         (batch_query (cl_config c) g b (LastQueryTill c (ba_ID b)) till) 0 c1 = (c2, a)" "qr_complete a"
      "s = (if uniqueSorted (qr_misses a) = [] then cl_store c2
        else fst (ev_mark env (cl_step c2) (uniqueSorted (qr_misses a))
               (if time_IsZero (qr_finishedAt a) then till else qr_finishedAt a) (cl_store c2)))"
      "c' = c2\<lparr>cl_store := s, cl_states := mput (ba_ID b) till (cl_states c2)\<rparr>"
      "r = (attempted b (LastQueryTill c (ba_ID b)) a)\<lparr>bc_Complete := True,
             bc_Misses := length (uniqueSorted (qr_misses a)), bc_WatermarkAfter := till\<rparr>"
proof -
  define c1 where "c1 = fst (batch_state (ba_ID b) c)"
  define w where "w = LastQueryTill c (ba_ID b)"
  have st: "batch_state (ba_ID b) c = (c1, w)" by (simp add: c1_def w_def prod_eq_iff)
  note run = assms [unfolded collectBatch_def st Let_def prod.case, folded initial_result_def]
  show ?thesis
  proof (cases "\<not> time_IsZero w \<and> till < w")
    case True
    then have "c' = c1" "r = (initial_result b w)\<lparr>bc_WatermarkAfter := w, bc_Err := Some (BeforeWatermarkError till w)\<rparr>"
      using run by simp_all
    then show ?thesis using True
      by (intro early) (simp_all add: time_IsZero_def w_def [symmetric] c1_def [symmetric])
  next
    case False
    then have le: "LastQueryTill c (ba_ID b) = 0 \<or> LastQueryTill c (ba_ID b) \<le> till"
      by (auto simp: time_IsZero_def w_def)
    obtain c2 a where q: "query_history env (gr_Delay g) (ev_snapshot env (cl_step c1))
        (batch_query (cl_config c1) g b w till) 0 c1 = (c2, a)" by (metis surj_pair)
    have q': "query_history env (gr_Delay g) (ev_snapshot env (cl_step c))
        (batch_query (cl_config c) g b (LastQueryTill c (ba_ID b)) till) 0 c1 = (c2, a)"
      using q by (simp add: c1_def w_def)
    note run' = run [unfolded q prod.case if_not_P [OF False], folded attempted_def]
    show ?thesis
    proof (cases "qr_complete a")
      case False
      then have eq: "c2 = c'" and r: "r = (attempted b w a)\<lparr>bc_WatermarkAfter := w\<rparr>"
        using run' by (simp_all add: attempted_def)
      show ?thesis by (rule failed [OF le c1_def [symmetric] q' [unfolded eq] False r [unfolded w_def]])
    next
      case True
      then show ?thesis using run'
        by (intro complete [OF le c1_def [symmetric] q' True refl]) (auto simp: attempted_def w_def)
    qed
  qed
qed

lemma collectBatch_watermark:
  assumes "collectBatch env g b till c = (c', r)"
  shows "cl_config c' = cl_config c \<and> bc_BatchID r = ba_ID b
    \<and> (bc_Complete r \<longleftrightarrow> bc_Err r = None)
    \<and> bc_WatermarkBefore r = LastQueryTill c (ba_ID b) \<and> bc_WatermarkAfter r = LastQueryTill c' (ba_ID b)
    \<and> (\<forall>k. LastQueryTill c' k = (if k = ba_ID b \<and> bc_Complete r then till else LastQueryTill c k))
    \<and> (bc_Complete r \<longrightarrow> LastQueryTill c (ba_ID b) = 0 \<or> LastQueryTill c (ba_ID b) \<le> till)"
  using assms
proof (cases rule: collectBatch_cases)
  case early
  show ?thesis unfolding early(3) [symmetric] early(4) by (simp add: initial_result_def)
next
  case (failed c1 a)
  note f = query_history_frame [OF failed(3)]
  have "cl_config c' = cl_config c" "LastQueryTill c' = LastQueryTill c"
    using f failed(2) LastQueryTill_states [of c' c1] by auto
  then show ?thesis using failed(4) f unfolding failed(5) by (simp add: initial_result_def attempted_def)
next
  case (complete c1 c2 a s)
  note f = query_history_frame [OF complete(3)]
  have "cl_config c2 = cl_config c" "LastQueryTill c2 = LastQueryTill c"
    using f complete(2) LastQueryTill_states [of c2 c1] by auto
  moreover have "LastQueryTill c' k = (if k = ba_ID b then till else LastQueryTill c2 k)" for k
    unfolding complete(6) by (simp add: LastQueryTill_def)
  ultimately show ?thesis using complete(1,4) f unfolding complete(7)
    by (simp add: initial_result_def attempted_def complete(6))
qed

text \<open>A whole group: its batches in order, until the context ends.\<close>

lemma collect_batches_facts:
  assumes "collect_batches env g till bs c res = (c', res')"
  shows "cl_config c' = cl_config c \<and> (\<exists>new. gc_Batches res' = gc_Batches res @ new
    \<and> map bc_BatchID new = map ba_ID (take (length new) bs) \<and> length new \<le> length bs
    \<and> (gc_Err res' = None \<longleftrightarrow> gc_Err res = None \<and> length new = length bs \<and> (\<forall>x \<in> set new. bc_Complete x))
    \<and> (\<forall>k. LastQueryTill c' k = (if \<exists>x \<in> set new. bc_BatchID x = k \<and> bc_Complete x then till else LastQueryTill c k)))"
  using assms
proof (induction bs arbitrary: c res)
  case Nil
  then show ?case by auto
next
  case (Cons b bs)
  show ?case
  proof (cases "ev_ctxErr env (cl_step c)")
    case (Some err)
    then show ?thesis using Cons.prems errors_join_None_iff [of "[gc_Err res, Some err]"]
      by (intro conjI exI [of _ "[]"]) (auto simp: LastQueryTill_def)
  next
    case None
    define c0 where "c0 = c\<lparr>cl_step := Suc (cl_step c)\<rparr>"
    obtain c1 r where r: "collectBatch env g b till c0 = (c1, r)" by (metis surj_pair)
    define res1 where "res1 = res\<lparr>gc_Batches := gc_Batches res @ [r], gc_Err := errors_join [gc_Err res, bc_Err r]\<rparr>"
    have run: "collect_batches env g till bs c1 res1 = (c', res')"
      using Cons.prems None r by (simp add: c0_def res1_def)
    have c0: "LastQueryTill c0 = LastQueryTill c" "cl_config c0 = cl_config c"
      by (simp_all add: c0_def LastQueryTill_def fun_eq_iff)
    note w = collectBatch_watermark [OF r, unfolded c0]
    from Cons.IH [OF run] obtain new where n: "cl_config c' = cl_config c1"
      "gc_Batches res' = gc_Batches res1 @ new" "map bc_BatchID new = map ba_ID (take (length new) bs)"
      "length new \<le> length bs"
      "gc_Err res' = None \<longleftrightarrow> gc_Err res1 = None \<and> length new = length bs \<and> (\<forall>x \<in> set new. bc_Complete x)"
      "\<forall>k. LastQueryTill c' k = (if \<exists>x \<in> set new. bc_BatchID x = k \<and> bc_Complete x then till else LastQueryTill c1 k)"
      by (elim exE conjE) (rule that, assumption+)
    show ?thesis
      by (intro conjI exI [of _ "r # new"]) (use n w in \<open>auto simp: res1_def errors_join_None_iff\<close>)
  qed
qed

lemma collect_batches_mono:
  "collect_batches env g till bs c res = (c', res') \<Longrightarrow> 0 \<le> till \<Longrightarrow> LastQueryTill c k \<le> LastQueryTill c' k"
proof (induction bs arbitrary: c res)
  case (Cons b bs)
  show ?case
  proof (cases "ev_ctxErr env (cl_step c)")
    case (Some err)
    then show ?thesis using Cons.prems by (auto simp: LastQueryTill_def)
  next
    case None
    define c0 where "c0 = c\<lparr>cl_step := Suc (cl_step c)\<rparr>"
    obtain c1 r where r: "collectBatch env g b till c0 = (c1, r)" by (metis surj_pair)
    have c0: "LastQueryTill c0 = LastQueryTill c" by (simp add: c0_def LastQueryTill_def fun_eq_iff)
    have w: "LastQueryTill c1 k = (if k = ba_ID b \<and> bc_Complete r then till else LastQueryTill c k)"
      "bc_Complete r \<longrightarrow> LastQueryTill c (ba_ID b) = 0 \<or> LastQueryTill c (ba_ID b) \<le> till"
      using collectBatch_watermark [OF r, unfolded c0] by blast+
    have "LastQueryTill c k \<le> LastQueryTill c1 k"
      unfolding w(1) using w(2) Cons.prems(2) by auto
    also have "\<dots> \<le> LastQueryTill c' k"
      by (rule Cons.IH [of c1 "res\<lparr>gc_Batches := gc_Batches res @ [r], gc_Err := errors_join [gc_Err res, bc_Err r]\<rparr>"])
        (use Cons.prems None r in \<open>simp_all add: c0_def\<close>)
    finally show ?thesis .
  qed
qed simp

section \<open>Windows\<close>

lemma NewGroupCollector_config:
  assumes "NewGroupCollector a b d store cfg = Inr c"
  shows "0 < hc_Limit (cl_config c) \<and> 0 < hc_MaxSplitDepth (cl_config c) \<and> 0 \<le> hc_OverlapMin (cl_config c)
    \<and> hc_OverlapMin (cl_config c) \<le> hc_OverlapMax (cl_config c) \<and> 0 < hc_OverlapMax (cl_config c)
    \<and> 0 < hc_QueryTimeout (cl_config c)"
proof -
  have "hc_OverlapMax (history_defaults cfg) \<noteq> 0"
    by (simp add: history_defaults_def Let_def DefaultOverlapMax_def Minute_def)
  then show ?thesis using assms by (auto simp: NewGroupCollector_def Let_def split: if_splits)
qed

text \<open>The first window is at least as long as any value stays fresh.\<close>

lemma bootstrap_reach:
  assumes d: "sane_delay d" and t: "sane_time till" and s: "sane_time src"
  shows "time_Add till (wrap64 (- bootstrapWindow d)) = till - bootstrapWindow d"
    and "ValueExpireAt src d \<le> src + bootstrapWindow d"
proof -
  have g: "(let grace = go_div d 5 in if grace < 30 * Second then 30 * Second else grace) = grace_for d"
    using grace_eq [OF d] by (simp add: dmul_def wrap64_def Second_def cong: if_cong)
  have two: "dmul 2 d = 2 * d" using d unfolding dmul_def sane_delay_def by (intro wrap64_idI; simp)
  have sum: "dadd (2 * d) (grace_for d) = 2 * d + grace_for d"
    using d grace_bounds [OF d] unfolding dadd_def sane_delay_def by (intro wrap64_idI) (auto simp: Second_def)
  have w: "bootstrapWindow d = (if d \<le> Minute then max (2 * d) (5 * Minute) else 2 * d + grace_for d)"
    using g by (simp add: bootstrapWindow_def two Let_def max_def sum)
  have "0 \<le> bootstrapWindow d" "bootstrapWindow d \<le> 2 ^ 62 + 2 ^ 61"
    unfolding w using d grace_bounds [OF d] by (auto simp: sane_delay_def Minute_def Second_def)
  then have "in_int64 (- bootstrapWindow d)" by (simp add: in_int64_def)
  then show "time_Add till (wrap64 (- bootstrapWindow d)) = till - bootstrapWindow d"
    using t by (simp add: wrap64_id time_Add_sane)
  show "ValueExpireAt src d \<le> src + bootstrapWindow d"
    unfolding ValueExpireAt_eq [OF d s] w by (auto simp: Minute_def Second_def)
qed

section \<open>The value store through a collection\<close>

context value_store
begin

lemma collect_batch_ok:
  assumes env: "ev_apply env = apply_batch" "ev_mark env = mark_miss" and rs: "reader_sound (ev_reader env)"
    and lim: "0 < hc_Limit (cl_config c)" and run: "collectBatch env g b till c = (c', r)"
    and ok: "ok (n + query_room (cl_config c) (length (ba_ItemIDs b))) (cl_store c)"
  shows "ok n (cl_store c')"
  using run
proof (cases rule: collectBatch_cases)
  case early
  show ?thesis unfolding early(3) [symmetric] using ok_mono [OF ok] by simp
next
  case (failed c1 a)
  have "0 < hc_Limit (cl_config c1)" "ok (n + query_room (cl_config c1) (length (ba_ItemIDs b))) (cl_store c1)"
    using lim ok by (simp_all add: failed(2) [symmetric])
  then show ?thesis using query_ok [OF env(1) rs failed(3)] by (simp add: batch_query_def)
next
  case (complete c1 c2 a s)
  have "0 < hc_Limit (cl_config c1)" "ok (n + query_room (cl_config c1) (length (ba_ItemIDs b))) (cl_store c1)"
    using lim ok by (simp_all add: complete(2) [symmetric])
  then have "ok n (cl_store c2)" using query_ok [OF env(1) rs complete(3)] by (simp add: batch_query_def)
  then show ?thesis by (simp add: complete(5,6) env(2) mark_ok)
qed

lemma collect_group_ok:
  assumes env: "ev_apply env = apply_batch" "ev_mark env = mark_miss" and rs: "reader_sound (ev_reader env)"
  shows "collect_batches env g till bs c res = (c', res') \<Longrightarrow> 0 < hc_Limit (cl_config c)
    \<Longrightarrow> ok (n + batches_room (cl_config c) bs) (cl_store c) \<Longrightarrow> ok n (cl_store c')"
proof (induction bs arbitrary: c res)
  case Nil
  then show ?case by (simp add: batches_room_def)
next
  case (Cons b bs)
  show ?case
  proof (cases "ev_ctxErr env (cl_step c)")
    case (Some err)
    then show ?thesis using Cons.prems ok_mono [OF Cons.prems(3), of n] by auto
  next
    case None
    let ?c0 = "c\<lparr>cl_step := Suc (cl_step c)\<rparr>"
    obtain c1 r where r: "collectBatch env g b till ?c0 = (c1, r)" by (metis surj_pair)
    have "ok (n + batches_room (cl_config c) bs) (cl_store c1)"
      by (rule collect_batch_ok [OF env rs _ r])
        (use Cons.prems(2,3) in \<open>simp_all add: batches_room_def ac_simps\<close>)
    moreover have "cl_config c1 = cl_config c" using collectBatch_watermark [OF r] by simp
    ultimately show ?thesis using Cons.IH [of c1] Cons.prems(1,2) None r by simp
  qed
qed

end

text \<open>The store of the program: the value cache and the wheel its registrations go to.\<close>

type_synonym cached_store = "ValueCache \<times> ExpiryWheel"

definition cached_apply :: "(string \<Rightarrow> 64 word) \<Rightarrow> (string \<Rightarrow> go_error + float64) \<Rightarrow> (nat \<Rightarrow> snapshot_source)
    \<Rightarrow> nat \<Rightarrow> BatchResult \<Rightarrow> MetadataSnapshot option \<Rightarrow> cached_store \<Rightarrow> cached_store \<times> ApplyResult" where
  "cached_apply fp pf source i b sn s =
     (case ApplyBatch fp pf (source i) (fst s) b sn of
        (c, apply, expiry) \<Rightarrow> ((c, RegisterExpiry expiry (snd s)), apply))"

definition cached_mark :: "(string \<Rightarrow> 64 word) \<Rightarrow> nat \<Rightarrow> string list \<Rightarrow> time \<Rightarrow> cached_store \<Rightarrow> cached_store \<times> MissResult" where
  "cached_mark fp i ids t s = (case MarkMiss fp (fst s) ids t of (c, m) \<Rightarrow> ((c, snd s), m))"

definition cached_inv :: "(string \<Rightarrow> 64 word) \<Rightarrow> nat \<Rightarrow> cached_store \<Rightarrow> bool" where
  "cached_inv fp n s \<longleftrightarrow> cache_inv fp (fst s) \<and> wheel_inv (snd s) \<and> registered fp (fst s) (snd s)
     \<and> vc_hasRegistrar (fst s) \<and> vc_nextValueVersion (fst s) + n < 2 ^ 64"

lemma ApplyBatch_next_version:
  assumes "cache_inv fp c" "batch_ok c b" "ApplyBatch fp pf source c b sn = (c', res, expiry)"
  shows "vc_nextValueVersion c' \<le> vc_nextValueVersion c + length (batch_latest b)"
proof (cases "batch_complete b \<and> sn \<noteq> None")
  case False
  then have "c' = c" using assms(3) by (auto simp: ApplyBatch_def batch_complete_def Let_def split: if_splits)
  then show ?thesis by simp
next
  case True
  then obtain s where comp: "batch_complete b" and sn: "sn = Some s" by auto
  from ApplyBatch_accounts [OF assms(1) comp assms(2) assms(3) [unfolded sn]] show ?thesis by linarith
qed

interpretation cached: value_store "cached_apply fp pf source" "cached_mark fp" "cached_inv fp"
  for fp pf source
proof unfold_locales
  fix n s b m i sn
  assume ok: "cached_inv fp n s" and wf: "wf_map (batch_latest b)" and len: "length (batch_latest b) \<le> m" "m \<le> n"
  obtain c' res expiry where run: "ApplyBatch fp pf (source i) (fst s) b sn = (c', res, expiry)"
    by (metis surj_pair)
  have inv: "cache_inv fp (fst s)" "wheel_inv (snd s)" "registered fp (fst s) (snd s)" "vc_hasRegistrar (fst s)"
    using ok by (simp_all add: cached_inv_def)
  have b: "batch_ok (fst s) b" using ok wf len by (simp add: cached_inv_def batch_ok_def)
  have "vc_nextValueVersion c' + (n - m) < 2 ^ 64"
    using ApplyBatch_next_version [OF inv(1) b run] ok len unfolding cached_inv_def by linarith
  with ApplyBatch_inv [OF inv(1) b run] ApplyBatch_registered [OF inv(1) b inv(4) run inv(2,3)]
    RegisterExpiry_inv [OF inv(2)]
  show "cached_inv fp (n - m) (fst (cached_apply fp pf source i b sn s))"
    by (simp add: cached_apply_def run cached_inv_def)
next
  fix n s i ids t
  assume ok: "cached_inv fp n s"
  obtain c' miss where run: "MarkMiss fp (fst s) ids t = (c', miss)" by (metis surj_pair)
  have inv: "cache_inv fp (fst s)" "registered fp (fst s) (snd s)" using ok by (simp_all add: cached_inv_def)
  note v = MarkMiss_sim(3) [OF inv(1) run]
  have "registered fp c' (snd s)" using inv(2) unfolding registered_def
    by (rule tracks_subset [OF _ v MarkMiss_keeps [OF inv(1) run]])
  then show "cached_inv fp n (fst (cached_mark fp i ids t s))"
    using MarkMiss_inv [OF inv(1) run] runs_to_registrar [OF MarkMiss_sim(2) [OF inv(1) run]] v ok
    by (simp add: cached_mark_def run cached_inv_def)
qed (simp add: cached_inv_def)

text \<open>The client's \<^verbatim>\<open>QueryHistoryBatch\<close> is a sound reader, whatever the server answers.\<close>

lemma client_reader_sound:
  "reader_sound (\<lambda>i q. QueryHistoryBatch (reply i) (started i) (finished i) q)"
proof -
  have len: "length (ReduceLatest rs) \<le> length rs" for rs
  proof -
    have "k \<in> set (map hi_ItemID rs)" if "k \<in> dom (mget (ReduceLatest rs))" for k
      using that ReduceLatest_None_iff [of rs k] by (auto simp: dom_def)
    then have "dom (mget (ReduceLatest rs)) \<subseteq> set (map hi_ItemID rs)" by blast
    from card_mono [OF _ this] have "card (dom (mget (ReduceLatest rs))) \<le> card (set (map hi_ItemID rs))" by blast
    then have "length (ReduceLatest rs) \<le> card (set (map hi_ItemID rs))"
      by (simp only: length_wf_map [OF wf_ReduceLatest])
    also have "\<dots> \<le> length rs" using card_length [of "map hi_ItemID rs"] by (simp only: length_map)
    finally show ?thesis .
  qed
  have "wf_map (batch_latest (QueryHistoryBatch d t t' q))
      \<and> int (length (batch_latest (QueryHistoryBatch d t t' q))) \<le> br_Returned (QueryHistoryBatch d t t' q)" for d t t' q
    by (cases "d q") (simp_all add: QueryHistoryBatch_def batch_latest_def ReduceLatest_def [of "[]"] Let_def len)
  then show ?thesis by (simp add: reader_sound_def)
qed

end
