(* ===== verification/Collector_Properties.thy ===== *)
theory Collector_Properties
  imports Collector_Batches Expiry_Properties
begin

text \<open>
  What the group collector guarantees: the cost of splitting, the coverage of a successful query, when a
  watermark moves, which source times a query window reaches, and that a collection keeps the cache and
  the expiry wheel consistent.  The run \<open>cx_\<close> splits a two-item query whose answer hits its limit.
\<close>

section \<open>A concrete collection\<close>

definition cx_reply :: "HistoryQuery \<Rightarrow> history_reply" where
  "cx_reply q = (if length (hq_ItemIDs q) < 2 then ReplyRecords (map (\<lambda>k. ex_record k 1000) (hq_ItemIDs q))
     else ReplyRecords (replicate 30 (ex_record ''101'' 1000)))"

definition cx_env :: "cached_store Env" where
  "cx_env = \<lparr>ev_ctxErr = (\<lambda>_. None),
     ev_reader = (\<lambda>i q. QueryHistoryBatch cx_reply (time_Unix 1009 0) (time_Unix 1010 0) q),
     ev_apply = cached_apply ex_fp ex_parse (\<lambda>_. ex_source), ev_mark = cached_mark ex_fp,
     ev_snapshot = (\<lambda>_. Some ex_snapshot)\<rparr>"

definition cx_config :: HistoryConfig where
  "cx_config = \<lparr>hc_Limit = 0, hc_MaxSplitDepth = 0, hc_OverlapMin = 0, hc_OverlapMax = 0,
     hc_QueryTimeout = 0, hc_ReaderOwnsTimeout = False\<rparr>"

definition cx_start :: "cached_store Collector" where
  "cx_start = \<lparr>cl_config = history_defaults cx_config, cl_states = [], cl_store = (ex_cache0, ex_wheel0), cl_step = 0\<rparr>"

definition cx_group :: Group where
  "cx_group = \<lparr>gr_ID = ''g'', gr_HostID = ''10'', gr_ValueType = 0, gr_Delay = 30 * Second,
     gr_Batches = [\<lparr>ba_ID = ''g/1'', ba_ItemIDs = [''101'', ''102'']\<rparr>], gr_Version = 1\<rparr>"

definition cx_till :: time where "cx_till = time_Unix 1010 0"

definition cx_query :: HistoryQuery where
  "cx_query = batch_query (cl_config cx_start) cx_group (hd (gr_Batches cx_group)) 0 cx_till"

definition cx_run :: "cached_store Collector \<times> queryResult" where
  "cx_run = query_history cx_env (30 * Second) (Some ex_snapshot) cx_query 0 cx_start"

lemma cx_new: "NewGroupCollector True True True (ex_cache0, ex_wheel0) cx_config = Inr cx_start"
  by (simp add: NewGroupCollector_def cx_start_def cx_config_def history_defaults_def DefaultHistoryLimit_def
      DefaultMaxSplitDepth_def DefaultOverlapMin_def DefaultOverlapMax_def Minute_def Second_def)

lemma cx_query_run: "query_history cx_env (30 * Second) (Some ex_snapshot) cx_query 0 cx_start = (fst cx_run, snd cx_run)"
  by (simp add: cx_run_def)

lemma cx_complete: "qr_complete (snd cx_run) \<and> qr_queries (snd cx_run) = 3 \<and> qr_splits (snd cx_run) = 1"
  by code_simp

section \<open>Queries and their splits\<close>

text \<open>C38: A history query always comes to an end, and its cost is bounded whatever the server answers: every
  split is a truncated answer, there are fewer splits than items and fewer than two to the power of the
  maximal split depth, at most two requests per split and one more, and the query's context is checked
  once before every request.\<close>

theorem query_cost_bounded:
  assumes "query_history env delay snapshot query 0 c = (c', r)"
  shows "qr_splits r \<le> length (hq_ItemIDs query) - 1
    \<and> qr_splits r < 2 ^ nat (hc_MaxSplitDepth (cl_config c))
    \<and> qr_queries r \<le> 2 * qr_splits r + 1
    \<and> cl_step c + qr_queries r \<le> cl_step c'"
  using query_history_cost [OF assms] query_history_steps [OF assms] by simp

lemma query_cost_bounded_witness:
  "qr_splits (snd cx_run) \<le> 1 \<and> qr_queries (snd cx_run) \<le> 3"
  using query_cost_bounded [OF cx_query_run] cx_complete by simp

text \<open>C18: A query that reports success has no error, and the value store then holds exactly the answers of
  requests that together ask for each item of the query once, in order, over the same window: none of these
  answers was truncated or failed, none of their items had changed its metadata meanwhile, and the misses
  reported are the misses of these answers.\<close>

theorem complete_query_covers:
  assumes "query_history env delay snapshot query depth c = (c', r)" and "qr_complete r"
  shows "qr_err r = None \<and> (\<exists>parts applies.
      concat (map (\<lambda>p. hq_ItemIDs (snd p)) parts) = hq_ItemIDs query
    \<and> list_all (part_ok env query) parts
    \<and> run_parts env delay snapshot parts (cl_store c) = (cl_store c', applies)
    \<and> list_all (\<lambda>a. ar_Stale a = 0) applies
    \<and> qr_misses r = concat (map ar_MissItemIDs applies))"
  using query_history_parts [OF assms] query_history_frame [OF assms(1)] assms(2)
  unfolding list_all_iff by blast

lemma complete_query_covers_witness:
  "\<exists>parts. concat (map (\<lambda>p. hq_ItemIDs (snd p)) parts) = [''101'', ''102'']
    \<and> list_all (part_ok cx_env cx_query) parts"
proof -
  have "hq_ItemIDs cx_query = [''101'', ''102'']" by code_simp
  then show ?thesis using complete_query_covers [OF cx_query_run] cx_complete by auto
qed

section \<open>Watermarks\<close>

text \<open>C19: A group collection attempts its batches in order until its context ends; it reports no error exactly
  when it attempted them all and each was complete.  The watermark of a batch becomes the planned time
  exactly when one of its attempts was complete, and stays as it was otherwise: a failed, truncated or
  stale query never moves it, and no collection moves it back.\<close>

theorem collect_group_watermarks:
  assumes "CollectGroup env now g till c = (c', res)"
  shows "map bc_BatchID (gc_Batches res) = map ba_ID (take (length (gc_Batches res)) (gr_Batches g))
    \<and> (gc_Err res = None \<longleftrightarrow> length (gc_Batches res) = length (gr_Batches g) \<and> list_all bc_Complete (gc_Batches res))
    \<and> LastQueryTill c' k = (if \<exists>x \<in> set (gc_Batches res). bc_BatchID x = k \<and> bc_Complete x
         then (if till = 0 then now else till) else LastQueryTill c k)
    \<and> (0 \<le> till \<and> 0 \<le> now \<longrightarrow> LastQueryTill c k \<le> LastQueryTill c' k)"
proof -
  have run: "collect_batches env g (if till = 0 then now else till) (gr_Batches g) c
      \<lparr>gc_GroupID = gr_ID g, gc_Batches = [], gc_Err = None\<rparr> = (c', res)"
    using assms by (simp add: CollectGroup_def time_IsZero_def)
  note mono = collect_batches_mono [OF run, of k]
  from collect_batches_facts [OF run] obtain new where "gc_Batches res = new"
    "map bc_BatchID new = map ba_ID (take (length new) (gr_Batches g))" "length new \<le> length (gr_Batches g)"
    "gc_Err res = None \<longleftrightarrow> length new = length (gr_Batches g) \<and> (\<forall>x \<in> set new. bc_Complete x)"
    "\<forall>k. LastQueryTill c' k = (if \<exists>x \<in> set new. bc_BatchID x = k \<and> bc_Complete x
       then (if till = 0 then now else till) else LastQueryTill c k)"
    by auto
  then show ?thesis using mono by (simp add: list_all_iff)
qed

definition cx_collected :: "cached_store Collector \<times> GroupCollectionResult" where
  "cx_collected = CollectGroup cx_env 0 cx_group cx_till cx_start"

lemma cx_collect_run: "CollectGroup cx_env 0 cx_group cx_till cx_start = (fst cx_collected, snd cx_collected)"
  by (simp add: cx_collected_def)

lemma cx_collect_result:
  "gc_Batches (snd cx_collected) = [\<lparr>bc_BatchID = ''g/1'', bc_Complete = True, bc_WatermarkBefore = 0,
     bc_WatermarkAfter = cx_till, bc_Queries = 3, bc_Splits = 1, bc_Applied = 2, bc_Misses = 0,
     bc_PossiblyTruncated = True, bc_Err = None\<rparr>]"
  by code_simp

lemma collect_group_watermarks_witness:
  "gc_Err (snd cx_collected) = None \<and> LastQueryTill (fst cx_collected) ''g/1'' = cx_till"
proof -
  have "cx_till \<noteq> 0" "length (gr_Batches cx_group) = 1" by code_simp+
  then show ?thesis
    using collect_group_watermarks [OF cx_collect_run, of "''g/1''"] by (simp add: cx_collect_result)
qed

text \<open>What a query window reaches.  The first query of a batch goes back far enough to find every point that
  is not yet expired at the planned time; every later one starts before the watermark, by an overlap that
  lies between the two configured bounds; and every query ends at the planned time.\<close>

theorem query_window_reaches:
  assumes new: "NewGroupCollector True True True store cfg = Inr c"
    and d: "sane_delay (gr_Delay g)" and t: "sane_time till" "sane_time before"
    and point: "0 \<le> hi_NS h" "hi_NS h < Second" "sane_time (time_Unix (hi_Clock h) (hi_NS h))"
  shows "hq_TimeTill (batch_query (cl_config c) g b before till) = till
    \<and> (before = 0 \<and> keep_record (gr_Delay g) till h \<longrightarrow>
         hq_TimeFrom (batch_query (cl_config c) g b before till) < time_Unix (hi_Clock h) (hi_NS h))
    \<and> (before \<noteq> 0 \<and> in_int64 (hc_OverlapMax (cl_config c)) \<longrightarrow>
         before - hc_OverlapMax (cl_config c) \<le> hq_TimeFrom (batch_query (cl_config c) g b before till)
       \<and> hq_TimeFrom (batch_query (cl_config c) g b before till) \<le> before - hc_OverlapMin (cl_config c))"
proof -
  have cfg: "0 \<le> hc_OverlapMin (cl_config c)" "hc_OverlapMin (cl_config c) \<le> hc_OverlapMax (cl_config c)"
    "0 < hc_OverlapMax (cl_config c)"
    using NewGroupCollector_config [OF new] by blast+
  have w: "time_Add till (wrap64 (- bootstrapWindow (gr_Delay g))) = till - bootstrapWindow (gr_Delay g)"
    and reach: "ValueExpireAt (time_Unix (hi_Clock h) (hi_NS h)) (gr_Delay g)
      \<le> time_Unix (hi_Clock h) (hi_NS h) + bootstrapWindow (gr_Delay g)"
    using bootstrap_reach [OF d t(1) point(3)] by blast+
  have first: "hq_TimeFrom (batch_query (cl_config c) g b before till) < time_Unix (hi_Clock h) (hi_NS h)"
    if "before = 0" "keep_record (gr_Delay g) till h"
    using that w reach point(1,2) by (simp add: batch_query_def keep_record_def time_IsZero_def)
  define ov where "ov = overlapForDelay (gr_Delay g) (hc_OverlapMin (cl_config c)) (hc_OverlapMax (cl_config c))"
  have ov: "hc_OverlapMin (cl_config c) \<le> ov" "ov \<le> hc_OverlapMax (cl_config c)"
    using cfg by (simp_all add: ov_def overlapForDelay_def Let_def)
  have later: "hq_TimeFrom (batch_query (cl_config c) g b before till) = before - ov"
    if "before \<noteq> 0" "in_int64 (hc_OverlapMax (cl_config c))"
  proof -
    have "in_int64 (- ov)" using ov cfg that(2) by (simp add: in_int64_def)
    then show ?thesis using that(1) t(2)
      by (simp add: batch_query_def time_IsZero_def ov_def [symmetric] wrap64_id time_Add_sane)
  qed
  show ?thesis using first later ov by (simp add: batch_query_def)
qed

lemma query_window_reaches_witness:
  "hq_TimeFrom cx_query < time_Unix 1000 5"
proof -
  have "sane_delay (gr_Delay cx_group)" "sane_time cx_till" "sane_time 0"
    "0 \<le> hi_NS (ex_record ''101'' 1000)" "hi_NS (ex_record ''101'' 1000) < Second"
    "sane_time (time_Unix (hi_Clock (ex_record ''101'' 1000)) (hi_NS (ex_record ''101'' 1000)))"
    "keep_record (gr_Delay cx_group) cx_till (ex_record ''101'' 1000)" by code_simp+
  then show ?thesis
    using query_window_reaches [OF cx_new, of cx_group cx_till 0 "ex_record ''101'' 1000" "hd (gr_Batches cx_group)"]
    by (simp add: cx_query_def ex_record_def)
qed

section \<open>The cache during a collection\<close>

text \<open>A collection over the client's reader keeps the cache and the expiry wheel consistent and every cached
  value registered for expiry, whatever the server answers and whatever the metadata source does between
  the requests, as long as the version counter has room for a full answer per item.\<close>

theorem collect_group_keeps_cache:
  assumes new: "NewGroupCollector True True True store cfg = Inr c0" and config: "cl_config c = cl_config c0"
    and env: "ev_apply env = cached_apply fp parse source" "ev_mark env = cached_mark fp"
      "ev_reader env = (\<lambda>i q. QueryHistoryBatch (reply i) (started i) (finished i) q)"
    and cache: "expiring_reachable fp parse (fst (cl_store c)) (snd (cl_store c))"
    and room: "vc_nextValueVersion (fst (cl_store c)) + batches_room (cl_config c) (gr_Batches g) < 2 ^ 64"
    and run: "CollectGroup env now g till c = (c', res)"
  shows "cache_inv fp (fst (cl_store c')) \<and> wheel_inv (snd (cl_store c'))
    \<and> registered fp (fst (cl_store c')) (snd (cl_store c'))"
proof -
  have "0 < hc_Limit (cl_config c)" using NewGroupCollector_config [OF new] config by simp
  moreover have "cached_inv fp (0 + batches_room (cl_config c) (gr_Batches g)) (cl_store c)"
    using expiring_inv [OF cache] room by (simp add: cached_inv_def)
  moreover have "reader_sound (ev_reader env)" unfolding env(3) by (rule client_reader_sound)
  ultimately have "cached_inv fp 0 (cl_store c')"
    using cached.collect_group_ok [OF env(1,2)] run unfolding CollectGroup_def Let_def by blast
  then show ?thesis by (simp add: cached_inv_def)
qed

lemma collect_group_keeps_cache_witness:
  "registered ex_fp (fst (cl_store (fst cx_collected))) (snd (cl_store (fst cx_collected)))"
proof -
  have "vc_nextValueVersion (fst (cl_store cx_start)) + batches_room (cl_config cx_start) (gr_Batches cx_group) < 2 ^ 64"
    by code_simp
  moreover have "NewExpiryWheel 0 = Inr ex_wheel0" "cc_hasRegistrar ex_config"
    by (simp_all add: NewExpiryWheel_def ex_wheel0_def ex_config_def)
  then have "expiring_reachable ex_fp ex_parse (fst (cl_store cx_start)) (snd (cl_store cx_start))"
    using expiring_reachable.Init [OF ex_cache0_new] by (simp add: cx_start_def)
  ultimately show ?thesis
    using collect_group_keeps_cache [OF cx_new refl _ _ _ _ _ cx_collect_run, of ex_fp ex_parse "\<lambda>_. ex_source"
        "\<lambda>_. cx_reply" "\<lambda>_. time_Unix 1009 0" "\<lambda>_. time_Unix 1010 0"]
    by (simp add: cx_env_def)
qed

end
