(* ===== verification/Go_Text.thy ===== *)
theory Go_Text
  imports Go_Strings "HOL-Library.Sublist"
begin

text \<open>
  What the code uses of \<^verbatim>\<open>strings\<close> and \<^verbatim>\<open>strconv.ParseInt\<close>.  Strings are byte strings:
  \<open>TrimSpace\<close> therefore removes, besides the ASCII blanks, the UTF-8 encodings of the other characters with
  Unicode's White Space property; \<open>ascii_lower\<close> is \<^verbatim>\<open>strings.ToLower\<close> on ASCII letters and leaves every other
  byte alone, which is exact wherever the result is only compared with ASCII words without i and k (the two
  letters some non-ASCII character folds to).
\<close>

definition bytes :: "nat list \<Rightarrow> string" where
  "bytes ns = map char_of ns"

definition space_encodings :: "string list" where
  "space_encodings = map (\<lambda>n. bytes [n]) [9, 10, 11, 12, 13, 32]
     @ [bytes [194, 133], bytes [194, 160], bytes [225, 154, 128]]
     @ map (\<lambda>n. bytes [226, 128, n]) [128..<139]
     @ [bytes [226, 128, 168], bytes [226, 128, 169], bytes [226, 128, 175], bytes [226, 129, 159],
        bytes [227, 128, 128]]"

lemma space_encodings_ne: "e \<in> set space_encodings \<Longrightarrow> e \<noteq> []"
  by (auto simp: space_encodings_def bytes_def)

function trim_with :: "string list \<Rightarrow> string \<Rightarrow> string" where
  "trim_with es s =
     (case find (\<lambda>e. e \<noteq> [] \<and> prefix e s) es of None \<Rightarrow> s | Some e \<Rightarrow> trim_with es (drop (length e) s))"
  by pat_completeness auto
termination
  by (relation "measure (\<lambda>(es, s). length s)") (auto simp: find_Some_iff prefix_def)

declare trim_with.simps [simp del]

definition TrimSpace :: "string \<Rightarrow> string" where
  "TrimSpace s = rev (trim_with (map rev space_encodings) (rev (trim_with space_encodings s)))"

definition ascii_lower_char :: "char \<Rightarrow> char" where
  "ascii_lower_char c = (if 65 \<le> byte_of c \<and> byte_of c \<le> 90 then char_of (byte_of c + 32) else c)"

definition ascii_lower :: "string \<Rightarrow> string" where
  "ascii_lower s = map ascii_lower_char s"

definition HasPrefix :: "string \<Rightarrow> string \<Rightarrow> bool" where
  "HasPrefix s p \<longleftrightarrow> prefix p s"

definition TrimSuffix :: "string \<Rightarrow> string \<Rightarrow> string" where
  "TrimSuffix s suf = (if suffix suf s then take (length s - length suf) s else s)"

fun Contains :: "string \<Rightarrow> string \<Rightarrow> bool" where
  "Contains [] p = (p = [])"
| "Contains (c # s) p = (prefix p (c # s) \<or> Contains s p)"

fun split_on :: "char \<Rightarrow> string \<Rightarrow> string list" where
  "split_on sep [] = [[]]"
| "split_on sep (c # s) =
     (if c = sep then [] # split_on sep s
      else (case split_on sep s of [] \<Rightarrow> [[c]] | p # ps \<Rightarrow> (c # p) # ps))"

text \<open>\<^verbatim>\<open>strconv.ParseInt(s, 10, 64)\<close> reads what \<^verbatim>\<open>strconv.Atoi\<close> reads on a 64-bit target.\<close>

definition ParseInt :: "string \<Rightarrow> go_error + int" where
  "ParseInt s = Atoi s"

section \<open>Laws\<close>

lemma trim_with_id:
  assumes "\<And>e. e \<in> set es \<Longrightarrow> e \<noteq> [] \<Longrightarrow> \<not> prefix e s"
  shows "trim_with es s = s"
proof -
  have "find (\<lambda>e. e \<noteq> [] \<and> prefix e s) es = None" using assms by (auto simp: find_None_iff)
  then show ?thesis by (simp add: trim_with.simps [of es s])
qed

definition plain_ascii :: "char \<Rightarrow> bool" where
  "plain_ascii c \<longleftrightarrow> 33 \<le> byte_of c \<and> byte_of c < 127"

lemma space_encoding_ends:
  assumes "e \<in> set space_encodings"
  shows "\<not> plain_ascii (hd e) \<and> \<not> plain_ascii (hd (rev e))"
proof -
  have "list_all (\<lambda>e. \<not> plain_ascii (hd e) \<and> \<not> plain_ascii (hd (rev e))) space_encodings" by code_simp
  then show ?thesis using assms by (simp add: list_all_iff)
qed

text \<open>A text that starts and ends with a printing ASCII character has nothing to trim.\<close>

lemma trim_with_plain:
  assumes "\<And>e. e \<in> set es \<Longrightarrow> \<not> plain_ascii (hd e)" and "s = [] \<or> plain_ascii (hd s)"
  shows "trim_with es s = s"
  using assms by (intro trim_with_id) (auto simp: prefix_def)

lemma TrimSpace_id:
  assumes "s = [] \<or> plain_ascii (hd s) \<and> plain_ascii (last s)"
  shows "TrimSpace s = s"
proof -
  have 1: "trim_with space_encodings s = s"
    using assms by (intro trim_with_plain) (auto simp: space_encoding_ends)
  have "hd (rev s) = last s" if "s \<noteq> []" using that by (simp add: hd_rev)
  then have "trim_with (map rev space_encodings) (rev s) = rev s"
    using assms by (intro trim_with_plain) (cases "s = []"; auto simp: space_encoding_ends)+
  with 1 show ?thesis by (simp add: TrimSpace_def)
qed

lemma ascii_lower_Nil [simp]: "ascii_lower [] = []"
  by (simp add: ascii_lower_def)

section \<open>Reading back a formatted number\<close>

lemma digits_value_snoc: "digits_value (ds @ [c]) = digits_value ds * 10 + (byte_of c - 48)"
  by (simp add: digits_value_def)

lemma digit_char_ten:
  assumes "d < 10"
  shows "is_digit (digit_char d) \<and> byte_of (digit_char d) - 48 = d"
proof -
  have "list_all (\<lambda>d. is_digit (digit_char d) \<and> byte_of (digit_char d) - 48 = d) [0..<10]" by code_simp
  then show ?thesis using assms by (simp add: list_all_iff)
qed

lemma format_nat_digits: "list_all is_digit (format_nat 10 n) \<and> digits_value (format_nat 10 n) = n"
proof (induction n rule: less_induct)
  case (less n)
  show ?case
  proof (cases "n < 10")
    case True
    then show ?thesis using digit_char_ten [OF True] by (simp add: format_nat.simps [of 10 n] digits_value_def)
  next
    case False
    then have "list_all is_digit (format_nat 10 (n div 10)) \<and> digits_value (format_nat 10 (n div 10)) = n div 10"
      by (intro less) simp
    then show ?thesis using False digit_char_ten [of "n mod 10"]
      by (simp add: format_nat.simps [of 10 n] digits_value_snoc)
  qed
qed

lemma Itoa_nonneg: "0 \<le> x \<Longrightarrow> Itoa x = format_nat 10 (nat x)"
  by (simp add: Itoa_def FormatInt_def)

lemma is_digit_plain: "is_digit c \<Longrightarrow> plain_ascii c \<and> c \<noteq> CHR ''-'' \<and> c \<noteq> CHR ''+''
    \<and> c \<noteq> CHR ''{'' \<and> c \<noteq> CHR ''}'' \<and> c \<noteq> CHR '';''"
  by (auto simp: is_digit_def plain_ascii_def byte_of_def)

lemma ParseInt_Itoa:
  assumes "0 \<le> x" "x < 2 ^ 63"
  shows "ParseInt (Itoa x) = Inr x"
proof -
  let ?ds = "format_nat 10 (nat x)"
  have ne: "?ds \<noteq> []" by (rule format_nat_ne)
  have ds: "list_all is_digit ?ds" "digits_value ?ds = nat x" using format_nat_digits by blast+
  then have "is_digit (hd ?ds)" using ne by (cases ?ds) auto
  from is_digit_plain [OF this] ne ds assms show ?thesis
    by (simp add: ParseInt_def Atoi_def Itoa_nonneg in_int64_def)
qed

end
