(* ===== verification/Delay_Parsing.thy ===== *)
theory Delay_Parsing
  imports Go_Text Metadata_Types
begin

text \<open>
  \<^verbatim>\<open>internal/metadata/delay.go\<close>: reading an item's update interval.  Only exact simple intervals are parsed;
  macros, flexible and scheduled intervals fall back to the caller's delay with the reason.
\<close>

definition delay_multiplier :: "string \<Rightarrow> duration option" where
  "delay_multiplier unit =
     (if unit = '''' \<or> unit = ''s'' then Some Second
      else if unit = ''m'' then Some Minute
      else if unit = ''h'' then Some Hour
      else if unit = ''d'' then Some (24 * Hour)
      else if unit = ''w'' then Some (7 * 24 * Hour)
      else None)"

definition ParseDelay :: "string \<Rightarrow> duration \<Rightarrow> duration \<times> DelayParseStatus" where
  "ParseDelay raw fallback =
     (let fallback = (if fallback \<le> 0 then Minute else fallback);
          value = TrimSpace raw in
      if value = '''' then (fallback, DelayFallbackMissing)
      else if Contains value ''{$'' \<or> list_ex (\<lambda>c. c = CHR ''{'' \<or> c = CHR ''}'') value
      then (fallback, DelayFallbackMacro)
      else if Contains value '';'' then
        (let parts = split_on (CHR '';'') value;
             base = TrimSpace (hd parts) in
         if base = '''' \<or> base = ''0'' then (fallback, DelayFallbackScheduled)
         else if list_ex (\<lambda>interval. Contains interval ''/'') (tl parts) then (fallback, DelayFallbackFlexible)
         else (fallback, DelayFallbackScheduled))
      else
        (let digits = takeWhile is_digit value; rest = dropWhile is_digit value in
         if digits = '''' then
           (let lower = ascii_lower value in
            if HasPrefix lower ''wd'' \<or> HasPrefix lower ''md'' \<or> HasPrefix lower ''h''
               \<or> HasPrefix lower ''m'' \<or> HasPrefix lower ''s''
            then (fallback, DelayFallbackScheduled) else (fallback, DelayFallbackInvalid))
         else case ParseInt digits of
           Inl err \<Rightarrow> (fallback, DelayFallbackInvalid)
         | Inr n \<Rightarrow>
             if n \<le> 0 then (fallback, DelayFallbackInvalid)
             else (case delay_multiplier (ascii_lower (TrimSpace rest)) of
                None \<Rightarrow> (fallback, DelayFallbackInvalid)
              | Some multiplier \<Rightarrow>
                  if n > go_div (2 ^ 63 - 1) multiplier then (fallback, DelayFallbackInvalid)
                  else (dmul n multiplier, DelayParsed))))"

section \<open>What a parsed delay is\<close>

lemma delay_multiplier_second:
  "delay_multiplier u = Some m \<Longrightarrow> 0 < m \<and> m < 2 ^ 63 \<and> Second dvd m"
  by (auto simp: delay_multiplier_def Second_def Minute_def Hour_def split: if_splits)

text \<open>The product the guard admits does not wrap.\<close>

lemma delay_product:
  assumes m: "0 < m" "m < 2 ^ 63" and n: "0 < n" "\<not> n > go_div (2 ^ 63 - 1) m"
  shows "dmul n m = n * m" and "0 < n * m" and "n * m < 2 ^ 63"
proof -
  have "go_div (2 ^ 63 - 1) m = (2 ^ 63 - 1) div m" by (rule go_div_nonneg) (use m in simp_all)
  then have "n \<le> (2 ^ 63 - 1) div m" using n by simp
  then have "n * m \<le> (2 ^ 63 - 1) div m * m" using m by (simp add: mult_right_mono)
  also have "\<dots> \<le> 2 ^ 63 - 1" using div_mult_mod_eq [of "2 ^ 63 - 1" m] pos_mod_sign [OF m(1), of "2 ^ 63 - 1"]
    by linarith
  finally show b: "n * m < 2 ^ 63" by simp
  show p: "0 < n * m" using m n by simp
  show "dmul n m = n * m" unfolding dmul_def using b p by (intro wrap64_idI) simp_all
qed

definition delay_outcome :: "duration \<Rightarrow> duration \<times> DelayParseStatus \<Rightarrow> bool" where
  "delay_outcome fallback out \<longleftrightarrow> 0 < fst out
     \<and> (if snd out = DelayParsed then fst out < 2 ^ 63 \<and> Second dvd fst out
        else fst out = (if fallback \<le> 0 then Minute else fallback))"

lemma delay_outcome_fallback:
  "st \<noteq> DelayParsed \<Longrightarrow> delay_outcome fallback (if fallback \<le> 0 then Minute else fallback, st)"
  by (simp add: delay_outcome_def Minute_def)

lemma delay_outcome_parsed:
  "delay_multiplier u = Some m \<Longrightarrow> \<not> n \<le> 0 \<Longrightarrow> \<not> n > go_div (2 ^ 63 - 1) m
    \<Longrightarrow> delay_outcome fallback (dmul n m, DelayParsed)"
  using delay_product [of m n] by (auto simp: delay_outcome_def dest!: delay_multiplier_second)

lemma delay_outcome_cases:
  "(b \<Longrightarrow> delay_outcome f x) \<Longrightarrow> (\<not> b \<Longrightarrow> delay_outcome f y) \<Longrightarrow> delay_outcome f (if b then x else y)"
  "(\<And>e. r = Inl e \<Longrightarrow> delay_outcome f (l e)) \<Longrightarrow> (\<And>n. r = Inr n \<Longrightarrow> delay_outcome f (g n))
    \<Longrightarrow> delay_outcome f (case r of Inl e \<Rightarrow> l e | Inr n \<Rightarrow> g n)"
  "(m = None \<Longrightarrow> delay_outcome f u) \<Longrightarrow> (\<And>k. m = Some k \<Longrightarrow> delay_outcome f (h k))
    \<Longrightarrow> delay_outcome f (case m of None \<Rightarrow> u | Some k \<Rightarrow> h k)"
  by (cases r; cases m; simp)+

lemma ParseDelay_outcome: "delay_outcome fallback (ParseDelay raw fallback)"
  unfolding ParseDelay_def Let_def
  by (intro delay_outcome_cases) (simp_all only: delay_outcome_fallback DelayParseStatus.distinct
      not_False_eq_True delay_outcome_parsed)

section \<open>Reading back a written interval\<close>

lemma ParseDelay_Itoa:
  assumes n: "0 < n" and u: "u \<in> {[], ''s'', ''m'', ''h'', ''d'', ''w''}"
    and m: "delay_multiplier u = Some m" and fits: "n * m < 2 ^ 63"
  shows "ParseDelay (Itoa n @ u) fallback = (n * m, DelayParsed)"
proof -
  have m0: "0 < m" using delay_multiplier_second [OF m] by blast
  then have "n * 1 \<le> n * m" using n by (intro mult_left_mono) simp_all
  then have n63: "n < 2 ^ 63" using fits by simp
  let ?ds = "format_nat 10 (nat n)"
  have ds: "list_all is_digit ?ds" "?ds \<noteq> []" using format_nat_digits format_nat_ne by blast+
  have it: "Itoa n = ?ds" using n by (simp add: Itoa_nonneg)
  have u_chars: "list_all (\<lambda>c. \<not> is_digit c \<and> plain_ascii c \<and> c \<notin> set ''{};'') u"
    and u_ends: "u = [] \<or> plain_ascii (hd u) \<and> plain_ascii (last u)" and u_lower: "ascii_lower u = u"
    using u by (elim insertE emptyE; hypsubst; code_simp)+
  have u_low: "ascii_lower (TrimSpace u) = u" by (simp only: TrimSpace_id [OF u_ends] u_lower)
  have all: "list_all (\<lambda>c. plain_ascii c \<and> c \<notin> set ''{};'') (?ds @ u)"
    using ds(1) u_chars is_digit_plain by (simp add: list_all_iff) blast
  have "plain_ascii (hd (?ds @ u))" "plain_ascii (last (?ds @ u))"
    using all ds(2) unfolding list_all_iff by (meson append_is_Nil_conv hd_in_set last_in_set)+
  then have trim: "TrimSpace (?ds @ u) = ?ds @ u" by (intro TrimSpace_id) simp
  have no: "\<not> Contains s p" if "hd p \<notin> set s" "p \<noteq> []" for s p
    using that by (induction s p rule: Contains.induct) (auto simp: prefix_def neq_Nil_conv)
  have out: "c \<notin> set (?ds @ u)" if "c \<in> set ''{};''" for c
    using all that unfolding list_all_iff by blast
  have plain: "\<not> Contains (?ds @ u) '';''" "\<not> Contains (?ds @ u) ''{$''"
    using no [of "'';''" "?ds @ u"] no [of "''{$''" "?ds @ u"] out by simp_all
  have "\<not> list_ex (\<lambda>c. c = CHR ''{'' \<or> c = CHR ''}'') (?ds @ u)"
    using out [of "CHR ''{''"] out [of "CHR ''}''"] by (auto simp: list_ex_iff)
  note plain = plain this
  have digits: "is_digit c" if "c \<in> set ?ds" for c using ds(1) that by (simp only: list_all_iff)
  have "takeWhile is_digit u = []" "dropWhile is_digit u = u" using u_chars by (cases u; simp)+
  then have parts: "takeWhile is_digit (?ds @ u) = ?ds" "dropWhile is_digit (?ds @ u) = u"
    using takeWhile_append2 [of ?ds is_digit u] dropWhile_append2 [of ?ds is_digit u] digits by simp_all
  have parse: "ParseInt ?ds = Inr n" using ParseInt_Itoa [of n] n n63 it by simp
  have "go_div (2 ^ 63 - 1) m = (2 ^ 63 - 1) div m" by (rule go_div_nonneg) (use m0 in simp_all)
  moreover have "n \<le> (2 ^ 63 - 1) div m"
    using zdiv_mono1 [of "n * m" "2 ^ 63 - 1" m] fits m0 by simp
  ultimately have guard: "\<not> n > go_div (2 ^ 63 - 1) m" by simp
  have prod: "dmul n m = n * m"
    by (rule delay_product(1)) (use m0 delay_multiplier_second [OF m] n guard in auto)
  show ?thesis
    unfolding ParseDelay_def Let_def it trim parts parse
    using ds(2) plain n guard m u_low by (simp add: prod)
qed

end
