(* ===== verification/App_Config.thy ===== *)
theory App_Config
  imports Go_Strings
begin

text \<open>
  \<^verbatim>\<open>internal/config/config.go\<close>: the application's configuration, its defaults and its validation.  Reading
  the file, expanding the environment and parsing YAML give the \<open>Config\<close> that \<open>setDefaults\<close> starts from.
  Validation is a sequence of guards, each with the message it returns; \<open>first_error\<close> is the first that
  fires.  Indexing an empty path would panic; \<open>setDefaults\<close>, which always runs before, leaves none empty.
\<close>

unbundle bit_operations_syntax

record LogConfig =
  lg_Level :: string

record ZabbixConfig =
  zc_URL :: string
  zc_Username :: string
  zc_Password :: string
  zc_APIKey :: string
  zc_TLSSkipVerify :: bool
  zc_RefreshTokenInterval :: int

record PullConfig =
  pl_Enabled :: bool
  pl_Port :: int
  pl_Path :: string
  pl_InternalPath :: string

record BasicAuthConfig =
  au_Username :: string
  au_Password :: string

record RemoteWriteEndpoint =
  rw_URL :: string
  rw_Timeout :: duration
  rw_MaxSamplesPerSend :: int
  rw_BasicAuth :: BasicAuthConfig

record PushConfig =
  ps_Enabled :: bool
  ps_Endpoints :: "RemoteWriteEndpoint list"
  ps_Interval :: int
  ps_SpreadSlots :: int
  ps_PageSize :: int
  ps_MaxBatchBytes :: int
  ps_Workers :: int
  ps_QueueCapacity :: int
  ps_MaxRetries :: int
  ps_RetryBackoff :: duration
  ps_MaxRetryBackoff :: duration

record LabelsConfig =
  lc_Global :: "(string, string) gomap"
  lc_Host :: "(string, string) gomap"
  lc_Item :: "(string, string) gomap"

record FilterConfig =
  fc_Mode :: string
  fc_Patterns :: "string list"

record MetricsFilterConfig =
  mf_Filter :: FilterConfig
  mf_HostGroups :: "string list"
  mf_HostIPs :: "string list"
  mf_ValueTypes :: "string list"

record CollectorConfig =
  co_Workers :: int
  co_SchedulerQueueCapacity :: int
  co_HistoryBatchSize :: int
  co_HistoryQueryTimeout :: duration
  co_HistoryMaxLimit :: int
  co_QueryOverlap :: duration
  co_StartupSpreadWindow :: duration
  co_HistoryQueryConcurrency :: int
  co_MetadataRefreshInterval :: duration
  co_MetadataWorkers :: int
  co_MetadataBatchHosts :: int
  co_MetadataRequestTimeout :: duration
  co_MetadataMinRequestInterval :: duration
  co_MetadataDelayFallback :: duration

record CacheConfig =
  ca_Shards :: int
  ca_ExpiryTick :: duration
  ca_ExpiryMaxEntriesPerRun :: int
  ca_MissThreshold :: int

record Config =
  cf_Zabbix :: ZabbixConfig
  cf_Pull :: PullConfig
  cf_Push :: PushConfig
  cf_Labels :: LabelsConfig
  cf_Metrics :: MetricsFilterConfig
  cf_Collector :: CollectorConfig
  cf_Cache :: CacheConfig
  cf_Log :: LogConfig

section \<open>Defaults\<close>

text \<open>Go's zero value stands for a setting that was left out.\<close>

definition or_else :: "'a \<Rightarrow> 'a \<Rightarrow> 'a \<Rightarrow> 'a" where
  "or_else zero dflt x = (if x = zero then dflt else x)"

definition pull_defaults :: "PullConfig \<Rightarrow> PullConfig" where
  "pull_defaults c = c
     \<lparr>pl_Port := or_else 0 9110 (pl_Port c),
      pl_Path := or_else [] ''/metrics'' (pl_Path c),
      pl_InternalPath := or_else [] ''/internal/metrics'' (pl_InternalPath c)\<rparr>"

definition endpoint_defaults :: "RemoteWriteEndpoint \<Rightarrow> RemoteWriteEndpoint" where
  "endpoint_defaults ep = ep
     \<lparr>rw_Timeout := or_else 0 (30 * Second) (rw_Timeout ep),
      rw_MaxSamplesPerSend := or_else 0 2000 (rw_MaxSamplesPerSend ep)\<rparr>"

definition push_defaults :: "PushConfig \<Rightarrow> PushConfig" where
  "push_defaults c = c
     \<lparr>ps_Interval := or_else 0 60 (ps_Interval c),
      ps_SpreadSlots := or_else 0 12 (ps_SpreadSlots c),
      ps_PageSize := or_else 0 5000 (ps_PageSize c),
      ps_MaxBatchBytes := or_else 0 (4 * 2 ^ 20) (ps_MaxBatchBytes c),
      ps_Workers := or_else 0 4 (ps_Workers c),
      ps_QueueCapacity := or_else 0 100 (ps_QueueCapacity c),
      ps_MaxRetries := or_else 0 3 (ps_MaxRetries c),
      ps_RetryBackoff := or_else 0 (100 * Millisecond) (ps_RetryBackoff c),
      ps_MaxRetryBackoff := or_else 0 (2 * Second) (ps_MaxRetryBackoff c),
      ps_Endpoints := map endpoint_defaults (ps_Endpoints c)\<rparr>"

definition collector_defaults :: "CollectorConfig \<Rightarrow> CollectorConfig" where
  "collector_defaults c = c
     \<lparr>co_Workers := or_else 0 32 (co_Workers c),
      co_SchedulerQueueCapacity := or_else 0 128 (co_SchedulerQueueCapacity c),
      co_HistoryBatchSize := or_else 0 50 (co_HistoryBatchSize c),
      co_HistoryQueryTimeout := or_else 0 (30 * Second) (co_HistoryQueryTimeout c),
      co_HistoryMaxLimit := or_else 0 2000 (co_HistoryMaxLimit c),
      co_QueryOverlap := or_else 0 (5 * Minute) (co_QueryOverlap c),
      co_StartupSpreadWindow := or_else 0 Minute (co_StartupSpreadWindow c),
      co_HistoryQueryConcurrency := or_else 0 4 (co_HistoryQueryConcurrency c),
      co_MetadataRefreshInterval := or_else 0 (20 * Minute) (co_MetadataRefreshInterval c),
      co_MetadataWorkers := or_else 0 2 (co_MetadataWorkers c),
      co_MetadataBatchHosts := or_else 0 50 (co_MetadataBatchHosts c),
      co_MetadataRequestTimeout := or_else 0 (30 * Second) (co_MetadataRequestTimeout c),
      co_MetadataMinRequestInterval := or_else 0 (100 * Millisecond) (co_MetadataMinRequestInterval c),
      co_MetadataDelayFallback := or_else 0 Minute (co_MetadataDelayFallback c)\<rparr>"

definition cache_defaults :: "CacheConfig \<Rightarrow> CacheConfig" where
  "cache_defaults c = c
     \<lparr>ca_Shards := or_else 0 256 (ca_Shards c),
      ca_ExpiryTick := or_else 0 Minute (ca_ExpiryTick c),
      ca_ExpiryMaxEntriesPerRun := or_else 0 100000 (ca_ExpiryMaxEntriesPerRun c),
      ca_MissThreshold := or_else 0 2 (ca_MissThreshold c)\<rparr>"

definition setDefaults :: "Config \<Rightarrow> Config" where
  "setDefaults c = c
     \<lparr>cf_Zabbix := (cf_Zabbix c)\<lparr>zc_RefreshTokenInterval := or_else 0 300 (zc_RefreshTokenInterval (cf_Zabbix c))\<rparr>,
      cf_Pull := pull_defaults (cf_Pull c),
      cf_Push := push_defaults (cf_Push c),
      cf_Metrics := (cf_Metrics c)\<lparr>mf_Filter := (mf_Filter (cf_Metrics c))
         \<lparr>fc_Mode := or_else [] ''whitelist'' (fc_Mode (mf_Filter (cf_Metrics c)))\<rparr>\<rparr>,
      cf_Collector := collector_defaults (cf_Collector c),
      cf_Cache := cache_defaults (cf_Cache c),
      cf_Log := (cf_Log c)\<lparr>lg_Level := or_else [] ''debug'' (lg_Level (cf_Log c))\<rparr>\<rparr>"

section \<open>Validation\<close>

definition first_error :: "(bool \<times> string) list \<Rightarrow> go_error option" where
  "first_error guards = map_option (\<lambda>g. InvalidConfig (snd g)) (find fst guards)"

definition zabbix_guards :: "ZabbixConfig \<Rightarrow> (bool \<times> string) list" where
  "zabbix_guards z =
     [(zc_URL z = [], ''zabbix.url is required''),
      (zc_APIKey z = [] \<and> zc_Username z = [], ''zabbix.username is required when zabbix.api_key is not configured''),
      (zc_APIKey z = [] \<and> zc_Password z = [], ''zabbix.password is required when zabbix.api_key is not configured''),
      (zc_RefreshTokenInterval z < 1, ''zabbix.refresh_token_interval must be positive'')]"

definition no_slash :: "string \<Rightarrow> bool" where
  "no_slash path = (case path of [] \<Rightarrow> True | c # _ \<Rightarrow> c \<noteq> CHR ''/'')"

definition reserved :: "string \<Rightarrow> bool" where
  "reserved path \<longleftrightarrow> path = ''/health'' \<or> path = ''/ready''"

definition pull_guards :: "PullConfig \<Rightarrow> (bool \<times> string) list" where
  "pull_guards p =
     [(pl_Port p < 1 \<or> pl_Port p > 65535, ''prometheus.pull.port must be between 1 and 65535''),
      (no_slash (pl_Path p), ''prometheus.pull.path must start with a slash''),
      (no_slash (pl_InternalPath p), ''prometheus.pull.internal_path must start with a slash''),
      (pl_InternalPath p = pl_Path p, ''prometheus.pull.internal_path must differ from prometheus.pull.path''),
      (reserved (pl_Path p), ''prometheus.pull.path conflicts with a reserved endpoint''),
      (reserved (pl_InternalPath p), ''prometheus.pull.internal_path conflicts with a reserved endpoint'')]"

definition endpoint_guards :: "RemoteWriteEndpoint \<Rightarrow> (bool \<times> string) list" where
  "endpoint_guards ep =
     [(rw_URL ep = [], ''prometheus.push.remote_write.endpoints[].url is required''),
      (rw_Timeout ep \<le> 0, ''prometheus.push.remote_write.endpoints[].timeout must be positive''),
      (rw_MaxSamplesPerSend ep < 1, ''prometheus.push.remote_write.endpoints[].max_samples_per_send must be positive'')]"

definition push_guards :: "PushConfig \<Rightarrow> (bool \<times> string) list" where
  "push_guards p =
     (if ps_Enabled p
      then (ps_Endpoints p = [], ''prometheus.push.remote_write.endpoints is required when push is enabled'')
             # concat (map endpoint_guards (ps_Endpoints p))
      else [])
     @ [(ps_Enabled p \<and> length (ps_Endpoints p) \<noteq> 1, ''prometheus.push requires exactly one remote write endpoint''),
      (ps_Interval p < 1, ''prometheus.push.interval must be positive''),
      (ps_SpreadSlots p < 1 \<or> ps_SpreadSlots p > 65535, ''prometheus.push.spread_slots must be between 1 and 65535''),
      (ps_PageSize p < 1, ''prometheus.push.page_size must be positive''),
      (ps_MaxBatchBytes p < 1, ''prometheus.push.max_batch_bytes must be positive''),
      (ps_Workers p < 1, ''prometheus.push.workers must be positive''),
      (ps_QueueCapacity p < 1, ''prometheus.push.queue_capacity must be positive''),
      (ps_MaxRetries p < 0, ''prometheus.push.max_retries cannot be negative''),
      (ps_RetryBackoff p < 0 \<or> ps_MaxRetryBackoff p \<le> 0 \<or> ps_RetryBackoff p > ps_MaxRetryBackoff p,
         ''invalid prometheus.push retry backoff range'')]"

definition collector_guards :: "CollectorConfig \<Rightarrow> (bool \<times> string) list" where
  "collector_guards c =
     [(co_MetadataRefreshInterval c \<le> 0, ''collector.metadata_refresh_interval must be positive''),
      (co_MetadataWorkers c < 1, ''collector.metadata_workers must be at least 1''),
      (co_MetadataBatchHosts c < 1, ''collector.metadata_batch_hosts must be at least 1''),
      (co_MetadataRequestTimeout c \<le> 0, ''collector.metadata_request_timeout must be positive''),
      (co_MetadataMinRequestInterval c < 0, ''collector.metadata_min_request_interval cannot be negative''),
      (co_MetadataDelayFallback c \<le> 0, ''collector.metadata_delay_fallback must be positive''),
      (co_HistoryQueryConcurrency c < 1, ''collector.history_query_concurrency must be positive''),
      (co_Workers c < 1, ''collector.workers must be positive''),
      (co_SchedulerQueueCapacity c < 1, ''collector.scheduler_queue_capacity must be positive''),
      (co_HistoryBatchSize c < 1, ''collector.history_batch_size must be positive''),
      (co_HistoryQueryTimeout c \<le> 0, ''collector.history_query_timeout must be positive''),
      (co_HistoryMaxLimit c < 1, ''collector.history_max_limit must be positive''),
      (co_QueryOverlap c < 0, ''collector.query_overlap cannot be negative''),
      (co_StartupSpreadWindow c < 0, ''collector.startup_spread_window cannot be negative'')]"

definition cache_guards :: "CacheConfig \<Rightarrow> (bool \<times> string) list" where
  "cache_guards c =
     [(ca_Shards c < 64 \<or> ca_Shards c > 256 \<or> ca_Shards c AND (ca_Shards c - 1) \<noteq> 0,
         ''cache.shards must be a power of two between 64 and 256''),
      (ca_ExpiryTick c \<le> 0, ''cache.expiry_tick must be positive''),
      (ca_ExpiryMaxEntriesPerRun c < 1, ''cache.expiry_max_entries_per_run must be positive''),
      (ca_MissThreshold c < 1, ''cache.miss_threshold must be positive'')]"

definition validate :: "Config \<Rightarrow> go_error option" where
  "validate c = first_error
     (zabbix_guards (cf_Zabbix c) @ pull_guards (cf_Pull c) @ push_guards (cf_Push c)
      @ [(fc_Mode (mf_Filter (cf_Metrics c)) \<noteq> ''whitelist'' \<and> fc_Mode (mf_Filter (cf_Metrics c)) \<noteq> ''blacklist'',
            ''metrics.filter.mode must be whitelist or blacklist'')]
      @ collector_guards (cf_Collector c) @ cache_guards (cf_Cache c))"

text \<open>\<^verbatim>\<open>Load\<close> after the file is read and parsed.\<close>

definition load_config :: "go_error + Config \<Rightarrow> go_error + Config" where
  "load_config parsed =
     (case parsed of
        Inl err \<Rightarrow> Inl err
      | Inr cfg \<Rightarrow>
          (let cfg = setDefaults cfg in
           case validate cfg of Some err \<Rightarrow> Inl (WrappedError ''invalid config'' err) | None \<Rightarrow> Inr cfg))"

lemma first_error_None: "first_error guards = None \<longleftrightarrow> list_all (\<lambda>g. \<not> fst g) guards"
  by (auto simp: first_error_def find_None_iff list_all_iff)

lemma or_else_idem [simp]: "or_else z d (or_else z d x) = or_else z d x"
  by (simp add: or_else_def)

lemma setDefaults_idem: "setDefaults (setDefaults c) = setDefaults c"
proof -
  have "endpoint_defaults (endpoint_defaults ep) = endpoint_defaults ep" for ep
    by (simp add: endpoint_defaults_def)
  then show ?thesis
    by (simp add: setDefaults_def pull_defaults_def push_defaults_def collector_defaults_def cache_defaults_def comp_def)
qed

end
