(* ===== verification/Metadata_Labels.thy ===== *)
theory Metadata_Labels
  imports Delay_Parsing App_Config
begin

text \<open>
  The part of \<^verbatim>\<open>internal/metadata/builder.go\<close> that turns a host or an item into labels and a metric name.
  The regular expressions are written out as matchers: \<open>bracketContentPattern\<close> finds the first \<^verbatim>\<open>[...]\<close> with
  something in it, \<open>labelTemplatePattern\<close> a \<^verbatim>\<open>{{ name }}\<close>, \<open>invalidMetricCharPattern\<close> a run of bytes outside
  \<^verbatim>\<open>[a-zA-Z0-9_]\<close>, \<open>snmpInterfacePattern\<close> \<^verbatim>\<open>ifXxx.123\<close>.  Library functions with large tables are the fields
  of a \<open>Lib\<close>: JSON decoding, the formatting of a JSON number and Unicode's lower-casing.
\<close>

record Lib =
  lib_decode :: "string \<Rightarrow> json option"
  lib_inventory :: "(string \<times> json) list \<Rightarrow> HostInventory option"
  lib_number :: "string \<Rightarrow> string"
  lib_lower :: "string \<Rightarrow> string"

section \<open>Patterns\<close>

definition is_alpha :: "char \<Rightarrow> bool" where
  "is_alpha c \<longleftrightarrow> 65 \<le> byte_of c \<and> byte_of c \<le> 90 \<or> 97 \<le> byte_of c \<and> byte_of c \<le> 122"

definition is_upper :: "char \<Rightarrow> bool" where
  "is_upper c \<longleftrightarrow> 65 \<le> byte_of c \<and> byte_of c \<le> 90"

definition metric_char :: "char \<Rightarrow> bool" where
  "metric_char c \<longleftrightarrow> is_alpha c \<or> is_digit c \<or> c = CHR ''_''"

definition regex_space :: "char \<Rightarrow> bool" where
  "regex_space c \<longleftrightarrow> byte_of c \<in> {9, 10, 12, 13, 32}"

text \<open>\<open>underscore_runs\<close> is \<^verbatim>\<open>invalidMetricCharPattern.ReplaceAllString(key, "_")\<close>.\<close>

fun underscore_runs :: "string \<Rightarrow> string" where
  "underscore_runs [] = []"
| "underscore_runs (c # s) =
     (if metric_char c then c # underscore_runs s
      else (case s of
              [] \<Rightarrow> [CHR ''_'']
            | d # s' \<Rightarrow> if metric_char d then CHR ''_'' # underscore_runs s else underscore_runs s))"

text \<open>The first match of \<^verbatim>\<open>bracketContentPattern\<close>: what stands before it and its content.\<close>

fun bracket_match :: "string \<Rightarrow> (string \<times> string) option" where
  "bracket_match [] = None"
| "bracket_match (c # s) =
     (let content = takeWhile (\<lambda>d. d \<noteq> CHR '']'') s in
      if c = CHR ''['' \<and> content \<noteq> [] \<and> length content < length s then Some ([], content)
      else map_option (\<lambda>(before, content). (c # before, content)) (bracket_match s))"

text \<open>The content of \<^verbatim>\<open>{{ name }}\<close> at the head of a string, and what follows.\<close>

definition template_here :: "string \<Rightarrow> (string \<times> string) option" where
  "template_here s =
     (if \<not> prefix ''{{'' s then None
      else
        (let rest = dropWhile regex_space (drop 2 s);
             name = takeWhile (\<lambda>c. c \<noteq> CHR ''{'' \<and> c \<noteq> CHR ''}'' \<and> \<not> regex_space c) rest;
             rest = dropWhile regex_space (drop (length name) rest)
         in if name \<noteq> [] \<and> prefix ''}}'' rest then Some (name, drop 2 rest) else None))"

lemma template_here_shorter:
  assumes "template_here s = Some (name, rest)"
  shows "length rest < length s"
proof -
  have d: "length (dropWhile p xs) \<le> length xs" for p and xs :: string by (simp add: length_dropWhile_le)
  have "2 \<le> length s" using assms by (auto simp: template_here_def prefix_def split: if_splits)
  moreover have "length rest \<le> length s - 2"
    using assms d [of regex_space "drop 2 s"]
      d [of regex_space "drop (length name) (dropWhile regex_space (drop 2 s))"]
    by (auto simp: template_here_def Let_def split: if_splits)
  ultimately show ?thesis by simp
qed

function replace_templates :: "(string \<Rightarrow> string) \<Rightarrow> string \<Rightarrow> string" where
  "replace_templates f s =
     (case template_here s of
        Some (name, rest) \<Rightarrow> f name @ replace_templates f rest
      | None \<Rightarrow> (case s of [] \<Rightarrow> [] | c # s' \<Rightarrow> c # replace_templates f s'))"
  by pat_completeness auto
termination
  by (relation "measure (\<lambda>(f, s). length s)") (auto dest: template_here_shorter)

declare replace_templates.simps [simp del]

section \<open>Host fields\<close>

definition selectHostIP :: "Interface list \<Rightarrow> string" where
  "selectHostIP interfaces =
     (case find (\<lambda>i. if_Main i = ''1'' \<and> if_Type i = ''1'' \<and> if_IP i \<noteq> []) interfaces of
        Some i \<Rightarrow> if_IP i
      | None \<Rightarrow>
     (case find (\<lambda>i. if_Main i = ''1'' \<and> if_IP i \<noteq> []) interfaces of
        Some i \<Rightarrow> if_IP i
      | None \<Rightarrow>
     (case find (\<lambda>i. if_Type i = ''1'' \<and> if_IP i \<noteq> []) interfaces of
        Some i \<Rightarrow> if_IP i
      | None \<Rightarrow>
     (case find (\<lambda>i. if_IP i \<noteq> []) interfaces of
        Some i \<Rightarrow> if_IP i | None \<Rightarrow> []))))"

definition FormatBool :: "bool \<Rightarrow> string" where
  "FormatBool b = (if b then ''true'' else ''false'')"

definition field_text :: "Lib \<Rightarrow> json \<Rightarrow> string option" where
  "field_text lib field =
     (case field of
        JString s \<Rightarrow> Some s
      | JNumber n \<Rightarrow> Some (lib_number lib n)
      | JBool b \<Rightarrow> Some (FormatBool b)
      | _ \<Rightarrow> None)"

definition object_fields :: "Lib \<Rightarrow> (string \<times> json) list \<Rightarrow> (string, string) gomap" where
  "object_fields lib obj =
     fold (\<lambda>(key, field) result.
         (case field_text lib field of None \<Rightarrow> result | Some s \<Rightarrow> mput (lib_lower lib key) s result))
       obj []"

text \<open>A string is decoded and looked at again.  Decoding strips the quotes of a JSON string, so the texts
  inside texts get shorter and a fuel of the outermost text's length is enough (\<open>extractInventoryFields_fuel\<close>).\<close>

fun extract_fields :: "nat \<Rightarrow> Lib \<Rightarrow> json \<Rightarrow> (string, string) gomap" where
  "extract_fields n lib (JString typed) =
     (if TrimSpace typed = [] then []
      else (case n of
              0 \<Rightarrow> []
            | Suc n \<Rightarrow>
                (case lib_decode lib typed of None \<Rightarrow> [] | Some decoded \<Rightarrow> extract_fields n lib decoded)))"
| "extract_fields n lib (JArray []) = []"
| "extract_fields n lib (JArray (typed # rest)) = extract_fields n lib typed"
| "extract_fields n lib (JObject obj) = object_fields lib obj"
| "extract_fields n lib JNull = []"
| "extract_fields n lib (JBool b) = []"
| "extract_fields n lib (JNumber m) = []"

fun text_length :: "(string \<Rightarrow> nat) \<Rightarrow> json \<Rightarrow> nat" where
  "text_length w (JString s) = w s"
| "text_length w (JArray (v # vs)) = text_length w v"
| "text_length w v = 0"

definition extractInventoryFields :: "Lib \<Rightarrow> json \<Rightarrow> (string, string) gomap" where
  "extractInventoryFields lib value = extract_fields (text_length length value) lib value"

lemma extract_fuel:
  assumes "\<And>s v. lib_decode lib s = Some v \<Longrightarrow> text_length w v < w s"
  shows "text_length w v \<le> n \<Longrightarrow> n \<le> m \<Longrightarrow> extract_fields n lib v = extract_fields m lib v"
  using assms
proof (induction n lib v arbitrary: m rule: extract_fields.induct)
  case (1 n lib typed)
  show ?case
  proof (cases "lib_decode lib typed")
    case None
    then show ?thesis by (cases n; cases m) simp_all
  next
    case (Some decoded)
    then have less: "text_length w decoded < w typed" using "1.prems"(3) by blast
    then obtain k l where n: "n = Suc k" and m: "m = Suc l"
      using "1.prems"(1,2) by (cases n; cases m) simp_all
    show ?thesis
    proof (cases "TrimSpace typed = []")
      case False
      have "extract_fields k lib decoded = extract_fields l lib decoded"
        by (rule "1.IH" [OF False n Some]) (use less "1.prems" n m in simp_all)
      then show ?thesis using False Some n m by simp
    qed simp
  qed
qed simp_all

lemma extractInventoryFields_fuel:
  assumes "\<And>s v. lib_decode lib s = Some v \<Longrightarrow> text_length w v < w s" and w: "\<And>s. w s \<le> length s"
    and "text_length length value \<le> m"
  shows "extractInventoryFields lib value = extract_fields m lib value"
proof -
  have "text_length w v \<le> text_length length v" for v
    using w by (induction w v rule: text_length.induct) simp_all
  then show ?thesis
    unfolding extractInventoryFields_def by (intro extract_fuel [OF assms(1)] assms(3)) simp_all
qed

definition parseInventoryFromMap :: "Lib \<Rightarrow> (string \<times> json) list \<Rightarrow> HostInventory option" where
  "parseInventoryFromMap lib data = (if data = [] then None else lib_inventory lib data)"

definition ParseInventory :: "Lib \<Rightarrow> Host \<Rightarrow> HostInventory option" where
  "ParseInventory lib h =
     (case ho_Inventory h of
        JObject v \<Rightarrow> parseInventoryFromMap lib v
      | JString v \<Rightarrow>
          (if v = [] \<or> v = ''[]'' \<or> v = ''{}'' then None
           else (case lib_decode lib v of
                   Some (JObject data) \<Rightarrow> parseInventoryFromMap lib data
                 | _ \<Rightarrow> None))
      | JArray (JObject m # _) \<Rightarrow> parseInventoryFromMap lib m
      | _ \<Rightarrow> None)"

section \<open>Metric names\<close>

definition normalizeMetricName :: "string \<Rightarrow> string" where
  "normalizeMetricName key =
     (let name = underscore_runs key in
      if name \<noteq> [] \<and> is_digit (hd name) then ''zabbix_'' @ name else name)"

definition normalizeParameterizedName :: "string \<Rightarrow> string" where
  "normalizeParameterizedName key =
     (case bracket_match key of
        None \<Rightarrow> normalizeMetricName key
      | Some (before, content) \<Rightarrow> normalizeMetricName (TrimSuffix before ''.''))"

definition isNetworkInterfaceMetric :: "string \<Rightarrow> bool" where
  "isNetworkInterfaceMetric key \<longleftrightarrow> HasPrefix key ''net.if.''"

definition isParameterizedNetworkMetric :: "string \<Rightarrow> bool" where
  "isParameterizedNetworkMetric key \<longleftrightarrow>
     isNetworkInterfaceMetric key \<or> HasPrefix key ''net.tcp.'' \<or> HasPrefix key ''net.udp.''"

definition snmp_interface :: "string \<Rightarrow> string option" where
  "snmp_interface value =
     (let body = drop 3 value;
          word = takeWhile metric_char body;
          digits = drop (Suc (length word)) body in
      if prefix ''if'' value \<and> length value > 2 \<and> is_upper (value ! 2)
         \<and> drop (length word) body \<noteq> [] \<and> body ! length word = CHR ''.''
         \<and> digits \<noteq> [] \<and> list_all is_digit digits
      then Some digits else None)"

definition parseNetworkInterface :: "string \<Rightarrow> string" where
  "parseNetworkInterface itemKey =
     (case bracket_match itemKey of
        None \<Rightarrow> []
      | Some (before, content) \<Rightarrow>
          (let value = TrimSpace (takeWhile (\<lambda>c. c \<noteq> CHR '','') content) in
           case snmp_interface value of Some digits \<Rightarrow> digits | None \<Rightarrow> value))"

section \<open>Labels\<close>

definition template_value :: "Lib \<Rightarrow> HostMetadata \<Rightarrow> string \<Rightarrow> string" where
  "template_value lib host name =
     (let key = lib_lower lib name;
          field = (\<lambda>k. case mget (hm_InventoryFields host) k of None \<Rightarrow> [] | Some v \<Rightarrow> v) in
      if key = ''host.id'' \<or> key = ''host.hostid'' then hm_HostID host
      else if key = ''host.host'' \<or> key = ''host.hostname'' then hm_HostName host
      else if key = ''host.name'' then hm_DisplayName host
      else if key = ''host.ip'' \<or> key = ''host.hostip'' then hm_HostIP host
      else
        (case find (HasPrefix key) [''host.inventory.'', ''host.metadata.'', ''inventory.''] of
           None \<Rightarrow> [] | Some p \<Rightarrow> field (drop (length p) key)))"

definition resolveLabelTemplate :: "Lib \<Rightarrow> string \<Rightarrow> HostMetadata \<Rightarrow> string" where
  "resolveLabelTemplate lib text host = replace_templates (template_value lib host) text"

definition mergeConfiguredLabels :: "Lib \<Rightarrow> (string, string) gomap \<Rightarrow> HostMetadata
    \<Rightarrow> (string, string) gomap \<Rightarrow> (string, string) gomap" where
  "mergeConfiguredLabels lib configured host dst =
     fold (\<lambda>(name, text). mput name (resolveLabelTemplate lib text host)) configured dst"

definition canonicalLabels :: "(string, string) gomap \<Rightarrow> Label list" where
  "canonicalLabels labels =
     sort_key lb_Name (map (\<lambda>(name, text). \<lparr>lb_Name = name, lb_Value = text\<rparr>) labels)"

definition ip_labels :: "HostMetadata \<Rightarrow> (string, string) gomap \<Rightarrow> (string, string) gomap" where
  "ip_labels host labels =
     (if hm_HostIP host \<noteq> []
      then mput ''vm_id'' (hm_HostIP host) (mput ''host_ip'' (hm_HostIP host) labels) else labels)"

definition buildHostLabels :: "Lib \<Rightarrow> LabelsConfig \<Rightarrow> HostMetadata \<Rightarrow> Label list" where
  "buildHostLabels lib cfg host =
     (let labels = [(''__name__'', ''zabbix_host''), (''host'', hm_HostName host)];
          labels = ip_labels host labels;
          labels = mergeConfiguredLabels lib (lc_Global cfg) host labels;
          labels = mergeConfiguredLabels lib (lc_Host cfg) host labels
      in canonicalLabels labels)"

definition buildItemLabels :: "Lib \<Rightarrow> LabelsConfig \<Rightarrow> HostMetadata \<Rightarrow> ItemMetadata \<Rightarrow> string \<times> Label list" where
  "buildItemLabels lib cfg host item =
     (let key = im_Key item;
          metricName = normalizeMetricName key;
          labels = [(''__name__'', metricName), (''host'', hm_HostName host), (''item_key'', key),
                    (''item_name'', im_Name item)];
          (metricName, labels) =
            (if isParameterizedNetworkMetric key then
               (let metricName = normalizeParameterizedName key;
                    labels = mput ''__name__'' metricName labels
                in (metricName,
                    if isNetworkInterfaceMetric key \<and> parseNetworkInterface key \<noteq> []
                    then mput ''interface'' (parseNetworkInterface key) labels else labels))
             else if Contains key ''['' \<and> Contains key '']'' then
               (let metricName = normalizeParameterizedName key;
                    labels = mput ''__name__'' metricName labels
                in (metricName,
                    case bracket_match key of None \<Rightarrow> labels | Some (before, content) \<Rightarrow> mput ''sensor'' content labels))
             else (metricName, labels));
          labels = ip_labels host labels;
          labels = mergeConfiguredLabels lib (lc_Global cfg) host labels;
          labels = mergeConfiguredLabels lib (lc_Host cfg) host labels;
          labels = mergeConfiguredLabels lib (lc_Item cfg) host labels
      in (metricName, canonicalLabels labels))"

end
