(* ===== verification/Metadata_Builder.thy ===== *)
theory Metadata_Builder
  imports Metadata_Labels
begin

text \<open>
  \<^verbatim>\<open>internal/metadata/builder.go\<close>: complete host and item answers become a validated snapshot candidate.
  Each of the two loops over the answers is a recursion that returns early with the code's error; the
  error messages carry the offending index or identifier.  The statistics are returned beside the result,
  also with an error, as the code returns them.
\<close>

type_synonym BuildStats = "(DelayParseStatus, nat) gomap"

definition count_fallback :: "DelayParseStatus \<Rightarrow> BuildStats \<Rightarrow> BuildStats" where
  "count_fallback st stats =
     (if st = DelayParsed then stats
      else mput st (Suc (case mget stats st of None \<Rightarrow> 0 | Some n \<Rightarrow> n)) stats)"

definition statusEnabled :: "string \<Rightarrow> bool" where
  "statusEnabled v \<longleftrightarrow> v = [] \<or> v = ''0''"

definition collectionGroupID :: "string \<Rightarrow> string \<Rightarrow> duration \<Rightarrow> string" where
  "collectionGroupID hostID valueType delay =
     hostID @ ''/'' @ valueType @ ''/'' @ FormatInt (go_div delay Second) 10"

record Builder =
  bd_labels :: LabelsConfig
  bd_delayFallback :: duration

definition NewBuilder :: "LabelsConfig \<Rightarrow> duration \<Rightarrow> Builder" where
  "NewBuilder labels delayFallback =
     \<lparr>bd_labels = labels, bd_delayFallback = (if delayFallback \<le> 0 then Minute else delayFallback)\<rparr>"

definition host_metadata :: "Lib \<Rightarrow> Builder \<Rightarrow> time \<Rightarrow> Host \<Rightarrow> HostMetadata" where
  "host_metadata lib b createdAt h =
     (let m = \<lparr>hm_HostID = ho_HostID h,
               hm_HostName = (if ho_Host h = [] then ho_Name h else ho_Host h),
               hm_DisplayName = ho_Name h, hm_HostIP = selectHostIP (ho_Interfaces h),
               hm_Inventory = ParseInventory lib h,
               hm_InventoryFields = extractInventoryFields lib (ho_Inventory h),
               hm_Labels = [], hm_RefreshedAt = createdAt, hm_Version = 0\<rparr>
      in m\<lparr>hm_Labels := buildHostLabels lib (bd_labels b) m\<rparr>)"

fun add_hosts :: "Lib \<Rightarrow> Builder \<Rightarrow> time \<Rightarrow> nat \<Rightarrow> Host list \<Rightarrow> MetadataSnapshot \<Rightarrow> go_error + MetadataSnapshot" where
  "add_hosts lib b createdAt i [] sn = Inr sn"
| "add_hosts lib b createdAt i (h # hs) sn =
     (if ho_HostID h = [] then Inl (ArgumentError (''host has an empty hostid: '' @ Itoa (int i)))
      else if mget (sn_Hosts sn) (ho_HostID h) \<noteq> None then Inl (ArgumentError (''duplicate hostid '' @ ho_HostID h))
      else add_hosts lib b createdAt (Suc i) hs
             (sn\<lparr>sn_Hosts := mput (ho_HostID h) (Some (host_metadata lib b createdAt h)) (sn_Hosts sn),
                 sn_HostItems := mput (ho_HostID h) [] (sn_HostItems sn)\<rparr>))"

definition item_metadata :: "Lib \<Rightarrow> Builder \<Rightarrow> time \<Rightarrow> HostMetadata \<Rightarrow> Item \<Rightarrow> ItemMetadata" where
  "item_metadata lib b createdAt host it =
     (let (delay, parseState) = ParseDelay (it_Delay it) (bd_delayFallback b);
          m = \<lparr>im_ItemID = it_ItemID it, im_HostID = it_HostID it, im_Key = it_Key it, im_Name = it_Name it,
               im_ValueType = it_ValueType it, im_RawDelay = it_Delay it, im_Delay = delay,
               im_DelayParseState = parseState, im_Status = it_Status it, im_State = it_State it,
               im_Enabled = (statusEnabled (it_Status it) \<and> statusEnabled (it_State it)),
               im_MetricName = [], im_Labels = [], im_RefreshedAt = createdAt, im_Version = 0\<rparr>;
          (metricName, labels) = buildItemLabels lib (bd_labels b) host m
      in m\<lparr>im_MetricName := metricName, im_Labels := labels\<rparr>)"

fun add_items :: "Lib \<Rightarrow> Builder \<Rightarrow> time \<Rightarrow> nat \<Rightarrow> Item list \<Rightarrow> MetadataSnapshot \<times> BuildStats
    \<Rightarrow> BuildStats \<times> (go_error + MetadataSnapshot)" where
  "add_items lib b createdAt i [] (sn, stats) = (stats, Inr sn)"
| "add_items lib b createdAt i (it # its) (sn, stats) =
     (if it_ItemID it = [] then (stats, Inl (ArgumentError (''item has an empty itemid: '' @ Itoa (int i))))
      else if mget (sn_Items sn) (it_ItemID it) \<noteq> None
        then (stats, Inl (ArgumentError (''duplicate itemid '' @ it_ItemID it)))
      else case mget (sn_Hosts sn) (it_HostID it) of
        Some (Some host) \<Rightarrow>
          (if it_ValueType it \<noteq> ''0'' \<and> it_ValueType it \<noteq> ''3''
             then (stats, Inl (ArgumentError (''unsupported value_type of item '' @ it_ItemID it)))
           else
             (let m = item_metadata lib b createdAt host it;
                  stats = count_fallback (im_DelayParseState m) stats;
                  old = (case mget (sn_HostItems sn) (it_HostID it) of None \<Rightarrow> [] | Some ids \<Rightarrow> ids)
              in add_items lib b createdAt (Suc i) its
                   (sn\<lparr>sn_Items := mput (it_ItemID it) (Some m) (sn_Items sn),
                       sn_HostItems := mput (it_HostID it) (old @ [it_ItemID it]) (sn_HostItems sn)\<rparr>, stats)))
      | _ \<Rightarrow> (stats, Inl (ArgumentError (''unknown host of item '' @ it_ItemID it))))"

definition sortedHostIDs :: "(string, HostMetadata option) gomap \<Rightarrow> string list" where
  "sortedHostIDs hosts = sort (mkeys hosts)"

text \<open>One round of the loop that puts the enabled items into their collection groups.\<close>

definition group_step :: "string \<times> ItemMetadata option \<Rightarrow> MetadataSnapshot \<Rightarrow> MetadataSnapshot" where
  "group_step entry sn =
     (case snd entry of
        None \<Rightarrow> sn
      | Some it \<Rightarrow>
          (if \<not> im_Enabled it then sn
           else
             (let gid = collectionGroupID (im_HostID it) (im_ValueType it) (im_Delay it);
                  g = (case mptr (sn_Groups sn) gid of
                         Some g \<Rightarrow> g
                       | None \<Rightarrow> \<lparr>cg_ID = gid, cg_HostID = im_HostID it, cg_ValueType = im_ValueType it,
                                  cg_Delay = im_Delay it, cg_ItemIDs = [], cg_Version = 0\<rparr>)
              in sn\<lparr>sn_Groups := mput gid (Some (g\<lparr>cg_ItemIDs := cg_ItemIDs g @ [im_ItemID it]\<rparr>)) (sn_Groups sn),
                    sn_ItemGroups := mput (im_ItemID it) gid (sn_ItemGroups sn)\<rparr>)))"

definition sort_group :: "CollectionGroup \<Rightarrow> CollectionGroup" where
  "sort_group g = g\<lparr>cg_ItemIDs := sort (cg_ItemIDs g)\<rparr>"

definition emptyCandidate :: "time \<Rightarrow> MetadataSnapshot" where
  "emptyCandidate createdAt =
     \<lparr>sn_Version = 0, sn_CreatedAt = createdAt, sn_Hosts = [], sn_HostIDs = [], sn_Items = [],
      sn_HostItems = [], sn_Groups = [], sn_ItemGroups = []\<rparr>"

text \<open>The steps after both loops: identifiers sorted, items grouped.\<close>

definition finish_snapshot :: "MetadataSnapshot \<Rightarrow> MetadataSnapshot" where
  "finish_snapshot sn =
     (let sn = sn\<lparr>sn_HostIDs := sortedHostIDs (sn_Hosts sn),
                  sn_HostItems := map (\<lambda>(hostID, ids). (hostID, sort ids)) (sn_HostItems sn)\<rparr>;
          sn = fold group_step (sn_Items sn) sn
      in sn\<lparr>sn_Groups := map (\<lambda>(gid, g). (gid, map_option sort_group g)) (sn_Groups sn)\<rparr>)"

definition build_metadata :: "Lib \<Rightarrow> Builder \<Rightarrow> time \<Rightarrow> Host list \<Rightarrow> Item list \<Rightarrow> time
    \<Rightarrow> BuildStats \<times> (go_error + MetadataSnapshot)" where
  "build_metadata lib b now hosts items createdAt =
     (let createdAt = (if time_IsZero createdAt then now else createdAt) in
      case add_hosts lib b createdAt 0 hosts (emptyCandidate createdAt) of
        Inl err \<Rightarrow> ([], Inl err)
      | Inr sn \<Rightarrow>
          (case add_items lib b createdAt 0 items (sn, []) of
             (stats, Inl err) \<Rightarrow> (stats, Inl err)
           | (stats, Inr sn) \<Rightarrow> (stats, Inr (finish_snapshot sn))))"

end
