(* ===== verification/Metadata_Snapshot.thy ===== *)
theory Metadata_Snapshot
  imports Metadata_Builder
begin

text \<open>
  What a metadata snapshot promises its readers (\<open>snapshot_wf\<close>): the maps agree with each other, every
  item belongs to a host, and the collection groups partition the enabled items.  The builder makes such
  snapshots from exactly the valid answers (\<open>build_spec\<close>).
\<close>

section \<open>Valid answers\<close>

definition valid_hosts :: "Host list \<Rightarrow> bool" where
  "valid_hosts hosts \<longleftrightarrow> [] \<notin> set (map ho_HostID hosts) \<and> distinct (map ho_HostID hosts)"

definition valid_items :: "string set \<Rightarrow> Item list \<Rightarrow> bool" where
  "valid_items hostIDs items \<longleftrightarrow> [] \<notin> set (map it_ItemID items) \<and> distinct (map it_ItemID items)
     \<and> (\<forall>it \<in> set items. it_HostID it \<in> hostIDs \<and> (it_ValueType it = ''0'' \<or> it_ValueType it = ''3''))"

lemma mput_new: "mget m k = None \<Longrightarrow> mput k v m = m @ [(k, v)]"
  by (induction m) (auto split: if_splits)

lemma mget_append: "mget (m @ m') k = (case mget m k of None \<Rightarrow> mget m' k | Some v \<Rightarrow> Some v)"
  by (simp add: map_add_def split: option.split)

definition host_entry :: "Lib \<Rightarrow> Builder \<Rightarrow> time \<Rightarrow> Host \<Rightarrow> string \<times> HostMetadata option" where
  "host_entry lib b t h = (ho_HostID h, Some (host_metadata lib b t h))"

definition add_host :: "Lib \<Rightarrow> Builder \<Rightarrow> time \<Rightarrow> Host \<Rightarrow> MetadataSnapshot \<Rightarrow> MetadataSnapshot" where
  "add_host lib b t h sn = sn\<lparr>sn_Hosts := sn_Hosts sn @ [host_entry lib b t h],
     sn_HostItems := mput (ho_HostID h) [] (sn_HostItems sn)\<rparr>"

lemma add_hosts_spec:
  "add_hosts lib b t i hs sn = Inr sn' \<longleftrightarrow>
     valid_hosts hs \<and> (\<forall>h \<in> set hs. mget (sn_Hosts sn) (ho_HostID h) = None)
     \<and> sn' = fold (add_host lib b t) hs sn"
proof (induction hs arbitrary: i sn)
  case Nil
  then show ?case by (auto simp: valid_hosts_def)
next
  case (Cons h hs)
  show ?case
  proof (cases "ho_HostID h = [] \<or> mget (sn_Hosts sn) (ho_HostID h) \<noteq> None")
    case True
    then show ?thesis by (auto simp: valid_hosts_def)
  next
    case False
    then have new: "mget (sn_Hosts sn) (ho_HostID h) = None" "ho_HostID h \<noteq> []" by auto
    show ?thesis
      using new Cons.IH [of "Suc i" "add_host lib b t h sn"]
      by (auto simp: add_host_def mput_new host_entry_def valid_hosts_def mget_append split: if_splits option.splits)
        (metis image_eqI)+
  qed
qed

text \<open>The entry an item gets, from the host the snapshot knows it under.\<close>

definition known_host :: "MetadataSnapshot \<Rightarrow> string \<Rightarrow> HostMetadata option" where
  "known_host sn k = mptr (sn_Hosts sn) k"

definition item_entry :: "Lib \<Rightarrow> Builder \<Rightarrow> time \<Rightarrow> MetadataSnapshot \<Rightarrow> Item \<Rightarrow> string \<times> ItemMetadata option" where
  "item_entry lib b t sn it = (it_ItemID it, Some (item_metadata lib b t (the (known_host sn (it_HostID it))) it))"

definition add_item :: "Lib \<Rightarrow> Builder \<Rightarrow> time \<Rightarrow> Item \<Rightarrow> MetadataSnapshot \<Rightarrow> MetadataSnapshot" where
  "add_item lib b t it sn = sn\<lparr>sn_Items := sn_Items sn @ [item_entry lib b t sn it],
     sn_HostItems := mput (it_HostID it)
       ((case mget (sn_HostItems sn) (it_HostID it) of None \<Rightarrow> [] | Some ids \<Rightarrow> ids) @ [it_ItemID it]) (sn_HostItems sn)\<rparr>"

lemma add_items_spec:
  "snd (add_items lib b t i its (sn, stats)) = Inr sn' \<longleftrightarrow>
     valid_items {k. known_host sn k \<noteq> None} its \<and> (\<forall>it \<in> set its. mget (sn_Items sn) (it_ItemID it) = None)
     \<and> sn' = fold (add_item lib b t) its sn"
proof (induction its arbitrary: i sn stats)
  case Nil
  then show ?case by (auto simp: valid_items_def)
next
  case (Cons it its)
  show ?case
  proof (cases "it_ItemID it = [] \<or> mget (sn_Items sn) (it_ItemID it) \<noteq> None \<or> known_host sn (it_HostID it) = None
      \<or> \<not> (it_ValueType it = ''0'' \<or> it_ValueType it = ''3'')")
    case True
    then show ?thesis
      by (auto simp: valid_items_def known_host_def mptr_def split: option.splits)
  next
    case False
    then obtain host where new: "mget (sn_Items sn) (it_ItemID it) = None" "it_ItemID it \<noteq> []"
      "it_ValueType it = ''0'' \<or> it_ValueType it = ''3''" and host: "known_host sn (it_HostID it) = Some host" by auto
    have h: "mget (sn_Hosts sn) (it_HostID it) = Some (Some host)"
      using host by (simp add: known_host_def mptr_def split: option.splits)
    let ?sn = "add_item lib b t it sn"
    have kh: "known_host ?sn = known_host sn" by (simp add: add_item_def known_host_def fun_eq_iff)
    have items: "sn_Items ?sn = sn_Items sn @ [item_entry lib b t sn it]" by (simp add: add_item_def)
    have run: "snd (add_items lib b t i (it # its) (sn, stats)) =
        snd (add_items lib b t (Suc i) its (?sn, count_fallback (im_DelayParseState (item_metadata lib b t host it)) stats))"
      using new h host by (auto simp: Let_def add_item_def item_entry_def mput_new)
    have fresh: "mget (sn_Items ?sn) (it_ItemID x) = None \<longleftrightarrow>
        mget (sn_Items sn) (it_ItemID x) = None \<and> it_ItemID x \<noteq> it_ItemID it" for x
      by (auto simp: items mget_append item_entry_def split: option.split)
    show ?thesis
      unfolding run Cons.IH kh fresh
      using new host by (auto simp: valid_items_def) (metis image_eqI)+
  qed
qed

section \<open>Collection groups\<close>

definition item_gid :: "ItemMetadata \<Rightarrow> string" where
  "item_gid it = collectionGroupID (im_HostID it) (im_ValueType it) (im_Delay it)"

definition in_group :: "string \<Rightarrow> string \<times> ItemMetadata option \<Rightarrow> bool" where
  "in_group gid e \<longleftrightarrow> (case snd e of None \<Rightarrow> False | Some it \<Rightarrow> im_Enabled it \<and> item_gid it = gid)"

definition group_members :: "(string \<times> ItemMetadata option) list \<Rightarrow> string \<Rightarrow> ItemMetadata list" where
  "group_members entries gid = map (the \<circ> snd) (filter (in_group gid) entries)"

text \<open>The group the loop builds from its members, in the order they came.\<close>

definition group_of :: "string \<Rightarrow> ItemMetadata list \<Rightarrow> CollectionGroup option option" where
  "group_of gid ms = (case ms of [] \<Rightarrow> None
     | it # _ \<Rightarrow> Some (Some \<lparr>cg_ID = gid, cg_HostID = im_HostID it, cg_ValueType = im_ValueType it,
          cg_Delay = im_Delay it, cg_ItemIDs = map im_ItemID ms, cg_Version = 0\<rparr>))"

lemma group_of_snoc:
  "group_of gid (ms @ [it]) = Some (Some ((case group_of gid ms of Some (Some g) \<Rightarrow> g
     | _ \<Rightarrow> \<lparr>cg_ID = gid, cg_HostID = im_HostID it, cg_ValueType = im_ValueType it,
          cg_Delay = im_Delay it, cg_ItemIDs = [], cg_Version = 0\<rparr>)
       \<lparr>cg_ItemIDs := map im_ItemID (ms @ [it])\<rparr>))"
  by (cases ms) (simp_all add: group_of_def)

definition item_groups :: "(string \<times> ItemMetadata option) list \<Rightarrow> string \<Rightarrow> string option" where
  "item_groups entries k =
     (case mptr entries k of None \<Rightarrow> None | Some it \<Rightarrow> if im_Enabled it then Some (item_gid it) else None)"

definition ids_agree :: "(string \<times> ItemMetadata option) list \<Rightarrow> bool" where
  "ids_agree entries \<longleftrightarrow> wf_map entries \<and> (\<forall>e \<in> set entries. \<forall>it. snd e = Some it \<longrightarrow> im_ItemID it = fst e)"

definition grouped_upto :: "(string \<times> ItemMetadata option) list \<Rightarrow> MetadataSnapshot \<Rightarrow> bool" where
  "grouped_upto es sn \<longleftrightarrow> wf_map (sn_Groups sn) \<and> (\<forall>gid. mget (sn_Groups sn) gid = group_of gid (group_members es gid))
     \<and> wf_map (sn_ItemGroups sn) \<and> mget (sn_ItemGroups sn) = item_groups es"

lemma group_step_grouped:
  assumes up: "grouped_upto es sn" and ids: "ids_agree (es @ [e])"
  shows "grouped_upto (es @ [e]) (group_step e sn)"
proof -
  obtain k p where e: "e = (k, p)" by (cases e)
  have new: "mget es k = None" using ids by (auto simp: e ids_agree_def wf_map_def mget_None_iff)
  have pk: "mptr es k = None" using new by (simp add: mptr_def)
  have ptr: "mptr (es @ [e]) x = (if x = k then p else mptr es x)" for x
    using new by (auto simp: mptr_def e mget_append split: option.split)
  show ?thesis
  proof (cases "\<exists>it. p = Some it \<and> im_Enabled it")
    case False
    then have "group_members (es @ [e]) gid = group_members es gid" for gid
      by (auto simp: group_members_def in_group_def e split: option.splits)
    moreover have "item_groups (es @ [e]) = item_groups es"
    proof
      show "item_groups (es @ [e]) x = item_groups es x" for x
        using False pk by (cases "x = k") (auto simp: item_groups_def ptr split: option.split)
    qed
    moreover have "group_step e sn = sn" using False by (auto simp: group_step_def e split: option.split)
    ultimately show ?thesis using up by (simp add: grouped_upto_def)
  next
    case True
    then obtain it where it: "p = Some it" "im_Enabled it" by blast
    have id: "im_ItemID it = k" using ids it by (auto simp: e ids_agree_def)
    have mem: "group_members (es @ [e]) gid = group_members es gid @ (if gid = item_gid it then [it] else [])" for gid
      using it by (auto simp: group_members_def in_group_def e)
    let ?gid = "item_gid it"
    have g: "mget (sn_Groups sn) ?gid = group_of ?gid (group_members es ?gid)" using up by (simp add: grouped_upto_def)
    have put: "Some (Some ((case mptr (sn_Groups sn) ?gid of Some g \<Rightarrow> g
        | None \<Rightarrow> \<lparr>cg_ID = ?gid, cg_HostID = im_HostID it, cg_ValueType = im_ValueType it,
            cg_Delay = im_Delay it, cg_ItemIDs = [], cg_Version = 0\<rparr>)
          \<lparr>cg_ItemIDs := cg_ItemIDs (case mptr (sn_Groups sn) ?gid of Some g \<Rightarrow> g
        | None \<Rightarrow> \<lparr>cg_ID = ?gid, cg_HostID = im_HostID it, cg_ValueType = im_ValueType it,
            cg_Delay = im_Delay it, cg_ItemIDs = [], cg_Version = 0\<rparr>) @ [im_ItemID it]\<rparr>))
      = group_of ?gid (group_members (es @ [e]) ?gid)"
      by (cases "group_members es ?gid") (simp_all add: mem mptr_def g group_of_def)
    have step: "group_step e sn = sn\<lparr>sn_Groups := mput ?gid (the (group_of ?gid (group_members (es @ [e]) ?gid))) (sn_Groups sn),
        sn_ItemGroups := mput k ?gid (sn_ItemGroups sn)\<rparr>"
      unfolding put [symmetric] by (simp add: group_step_def e it Let_def item_gid_def [symmetric] id)
    have some: "Some (the (group_of ?gid (group_members (es @ [e]) ?gid))) = group_of ?gid (group_members (es @ [e]) ?gid)"
      unfolding put [symmetric] by simp
    have "item_groups (es @ [e]) x = (if x = k then Some ?gid else item_groups es x)" for x
      by (simp add: item_groups_def ptr it)
    moreover have "mget (sn_Groups (group_step e sn)) gid = group_of gid (group_members (es @ [e]) gid)" for gid
      using up some by (simp add: step mem grouped_upto_def)
    ultimately show ?thesis using up by (auto simp: step grouped_upto_def)
  qed
qed

lemma group_fold_grouped:
  assumes "ids_agree es" and "sn_Groups sn = []" and "sn_ItemGroups sn = []"
  shows "grouped_upto es (fold group_step es sn)"
  using assms(1)
proof (induction es rule: rev_induct)
  case Nil
  then show ?case using assms(2,3)
    by (simp add: grouped_upto_def group_members_def group_of_def item_groups_def mptr_def fun_eq_iff)
next
  case (snoc e es)
  then have "ids_agree es" by (auto simp: ids_agree_def wf_map_def)
  with snoc show ?case by (simp add: group_step_grouped)
qed

section \<open>Well-formed snapshots\<close>

definition host_members :: "(string \<times> ItemMetadata option) list \<Rightarrow> string \<Rightarrow> string list" where
  "host_members entries h = map fst (filter (\<lambda>e. case snd e of None \<Rightarrow> False | Some it \<Rightarrow> im_HostID it = h) entries)"

definition hosts_wf :: "MetadataSnapshot \<Rightarrow> bool" where
  "hosts_wf sn \<longleftrightarrow> wf_map (sn_Hosts sn) \<and> sn_HostIDs sn = sort (mkeys (sn_Hosts sn))
     \<and> (\<forall>k p. mget (sn_Hosts sn) k = Some p \<longrightarrow> k \<noteq> [] \<and> (\<exists>h. p = Some h \<and> hm_HostID h = k))"

definition item_wf :: "MetadataSnapshot \<Rightarrow> string \<Rightarrow> ItemMetadata \<Rightarrow> bool" where
  "item_wf sn k it \<longleftrightarrow> k \<noteq> [] \<and> im_ItemID it = k \<and> mget (sn_Hosts sn) (im_HostID it) \<noteq> None
     \<and> (im_ValueType it = ''0'' \<or> im_ValueType it = ''3'') \<and> 0 < im_Delay it"

definition items_wf :: "MetadataSnapshot \<Rightarrow> bool" where
  "items_wf sn \<longleftrightarrow> wf_map (sn_Items sn)
     \<and> (\<forall>k p. mget (sn_Items sn) k = Some p \<longrightarrow> (\<exists>it. p = Some it \<and> item_wf sn k it))
     \<and> wf_map (sn_HostItems sn)
     \<and> (\<forall>h. mget (sn_HostItems sn) h =
          (if mget (sn_Hosts sn) h = None then None else Some (sort (host_members (sn_Items sn) h))))"

definition group_wf :: "string \<Rightarrow> ItemMetadata list \<Rightarrow> CollectionGroup \<Rightarrow> bool" where
  "group_wf gid members g \<longleftrightarrow> cg_ID g = gid \<and> cg_ItemIDs g = sort (map im_ItemID members)
     \<and> (\<exists>it \<in> set members. cg_HostID g = im_HostID it \<and> cg_ValueType g = im_ValueType it \<and> cg_Delay g = im_Delay it)"

definition groups_wf :: "MetadataSnapshot \<Rightarrow> bool" where
  "groups_wf sn \<longleftrightarrow> wf_map (sn_Groups sn)
     \<and> (\<forall>gid. if group_members (sn_Items sn) gid = [] then mget (sn_Groups sn) gid = None
          else \<exists>g. mget (sn_Groups sn) gid = Some (Some g) \<and> group_wf gid (group_members (sn_Items sn) gid) g)
     \<and> wf_map (sn_ItemGroups sn) \<and> mget (sn_ItemGroups sn) = item_groups (sn_Items sn)"

definition snapshot_wf :: "MetadataSnapshot \<Rightarrow> bool" where
  "snapshot_wf sn \<longleftrightarrow> hosts_wf sn \<and> items_wf sn \<and> groups_wf sn"

section \<open>What the builder makes\<close>

lemma add_host_sel [simp]:
  "sn_Hosts (add_host lib b t h sn) = sn_Hosts sn @ [host_entry lib b t h]"
  "sn_HostItems (add_host lib b t h sn) = mput (ho_HostID h) [] (sn_HostItems sn)"
  "sn_Items (add_host lib b t h sn) = sn_Items sn" "sn_Groups (add_host lib b t h sn) = sn_Groups sn"
  "sn_ItemGroups (add_host lib b t h sn) = sn_ItemGroups sn"
  by (simp_all add: add_host_def)

lemma add_item_sel [simp]:
  "sn_Items (add_item lib b t it sn) = sn_Items sn @ [item_entry lib b t sn it]"
  "sn_HostItems (add_item lib b t it sn) = mput (it_HostID it)
     ((case mget (sn_HostItems sn) (it_HostID it) of None \<Rightarrow> [] | Some ids \<Rightarrow> ids) @ [it_ItemID it]) (sn_HostItems sn)"
  "sn_Hosts (add_item lib b t it sn) = sn_Hosts sn" "sn_Groups (add_item lib b t it sn) = sn_Groups sn"
  "sn_ItemGroups (add_item lib b t it sn) = sn_ItemGroups sn"
  "item_entry lib b t (add_item lib b t it sn) = item_entry lib b t sn"
  by (simp_all add: add_item_def fun_eq_iff item_entry_def known_host_def)

lemma hosts_fold:
  assumes "wf_map (sn_HostItems sn)"
  shows "sn_Hosts (fold (add_host lib b t) hs sn) = sn_Hosts sn @ map (host_entry lib b t) hs"
    and "wf_map (sn_HostItems (fold (add_host lib b t) hs sn))"
    and "mget (sn_HostItems (fold (add_host lib b t) hs sn)) k =
      (if k \<in> ho_HostID ` set hs then Some [] else mget (sn_HostItems sn) k)"
    and "sn_Items (fold (add_host lib b t) hs sn) = sn_Items sn
      \<and> sn_Groups (fold (add_host lib b t) hs sn) = sn_Groups sn
      \<and> sn_ItemGroups (fold (add_host lib b t) hs sn) = sn_ItemGroups sn"
  using assms
proof (induction hs arbitrary: sn)
  case (Cons h hs)
  have w: "wf_map (sn_HostItems (add_host lib b t h sn))" if "wf_map (sn_HostItems sn)" for sn using that by simp
  { case (1 sn) then show ?case using Cons.IH(1) [OF w [OF 1]] by simp }
  { case (2 sn) then show ?case using Cons.IH(2) [OF w [OF 2]] by simp }
  { case (3 sn) then show ?case using Cons.IH(3) [OF w [OF 3]] by auto }
  { case (4 sn) then show ?case using Cons.IH(4) [OF w [OF 4]] by simp }
qed auto

lemma items_fold:
  assumes "wf_map (sn_HostItems sn)"
  shows "sn_Items (fold (add_item lib b t) its sn) = sn_Items sn @ map (item_entry lib b t sn) its"
    and "wf_map (sn_HostItems (fold (add_item lib b t) its sn))"
    and "mget (sn_HostItems (fold (add_item lib b t) its sn)) k =
      (if k \<in> it_HostID ` set its \<or> mget (sn_HostItems sn) k \<noteq> None
       then Some ((case mget (sn_HostItems sn) k of None \<Rightarrow> [] | Some ids \<Rightarrow> ids)
              @ map it_ItemID (filter (\<lambda>it. it_HostID it = k) its)) else None)"
    and "sn_Hosts (fold (add_item lib b t) its sn) = sn_Hosts sn
      \<and> sn_Groups (fold (add_item lib b t) its sn) = sn_Groups sn
      \<and> sn_ItemGroups (fold (add_item lib b t) its sn) = sn_ItemGroups sn"
  using assms
proof (induction its arbitrary: sn)
  case (Cons it its)
  have w: "wf_map (sn_HostItems (add_item lib b t it sn))" if "wf_map (sn_HostItems sn)" for sn using that by simp
  { case (1 sn) then show ?case using Cons.IH(1) [OF w [OF 1]] by simp }
  { case (2 sn) then show ?case using Cons.IH(2) [OF w [OF 2]] by simp }
  { case (3 sn) then show ?case using Cons.IH(3) [OF w [OF 3]] by (auto split: option.splits) }
  { case (4 sn) then show ?case using Cons.IH(4) [OF w [OF 4]] by simp }
qed (auto split: option.splits)

lemma group_step_frame:
  "sn_Hosts (group_step e sn) = sn_Hosts sn \<and> sn_HostIDs (group_step e sn) = sn_HostIDs sn
   \<and> sn_Items (group_step e sn) = sn_Items sn \<and> sn_HostItems (group_step e sn) = sn_HostItems sn
   \<and> sn_CreatedAt (group_step e sn) = sn_CreatedAt sn \<and> sn_Version (group_step e sn) = sn_Version sn"
  by (auto simp: group_step_def Let_def split: option.split)

lemma group_fold_frame:
  "sn_Hosts (fold group_step es sn) = sn_Hosts sn \<and> sn_HostIDs (fold group_step es sn) = sn_HostIDs sn
   \<and> sn_Items (fold group_step es sn) = sn_Items sn \<and> sn_HostItems (fold group_step es sn) = sn_HostItems sn
   \<and> sn_CreatedAt (fold group_step es sn) = sn_CreatedAt sn \<and> sn_Version (fold group_step es sn) = sn_Version sn"
  by (induction es arbitrary: sn) (simp_all add: group_step_frame)

lemma mget_map_snd: "mget (map (\<lambda>(k, v). (k, f v)) m) k = map_option f (mget m k)"
  by (induction m) auto

lemma wf_map_map_snd: "wf_map (map (\<lambda>(k, v). (k, f v)) m) = wf_map m"
  by (simp add: wf_map_def comp_def case_prod_unfold)

lemma finish_snapshot_groups:
  assumes "ids_agree (sn_Items sn)" and "sn_Groups sn = []" and "sn_ItemGroups sn = []"
  shows "groups_wf (finish_snapshot sn)"
proof -
  let ?s = "sn\<lparr>sn_HostIDs := sortedHostIDs (sn_Hosts sn),
     sn_HostItems := map (\<lambda>(hostID, ids). (hostID, sort ids)) (sn_HostItems sn)\<rparr>"
  let ?f = "fold group_step (sn_Items sn) ?s"
  have up: "grouped_upto (sn_Items sn) ?f" using assms by (intro group_fold_grouped) simp_all
  have fin: "finish_snapshot sn = ?f\<lparr>sn_Groups := map (\<lambda>(gid, g). (gid, map_option sort_group g)) (sn_Groups ?f)\<rparr>"
    by (simp add: finish_snapshot_def Let_def)
  have items: "sn_Items (finish_snapshot sn) = sn_Items sn" by (simp add: fin group_fold_frame)
  have get: "mget (sn_Groups (finish_snapshot sn)) gid = map_option (map_option sort_group) (group_of gid (group_members (sn_Items sn) gid))" for gid
    using up by (simp add: fin mget_map_snd grouped_upto_def)
  have member: "if group_members (sn_Items sn) gid = [] then mget (sn_Groups (finish_snapshot sn)) gid = None
      else \<exists>g. mget (sn_Groups (finish_snapshot sn)) gid = Some (Some g) \<and> group_wf gid (group_members (sn_Items sn) gid) g" for gid
    unfolding get by (cases "group_members (sn_Items sn) gid") (auto simp: group_of_def group_wf_def sort_group_def)
  show ?thesis
  proof (unfold groups_wf_def items, intro conjI allI)
    show "wf_map (sn_Groups (finish_snapshot sn))" using up by (simp add: fin wf_map_map_snd grouped_upto_def)
    show "wf_map (sn_ItemGroups (finish_snapshot sn))" "mget (sn_ItemGroups (finish_snapshot sn)) = item_groups (sn_Items sn)"
      using up by (simp_all add: fin grouped_upto_def)
  qed (rule member)
qed

definition candidate_time :: "time \<Rightarrow> time \<Rightarrow> time" where
  "candidate_time now createdAt = (if time_IsZero createdAt then now else createdAt)"

definition hosted :: "Lib \<Rightarrow> Builder \<Rightarrow> time \<Rightarrow> Host list \<Rightarrow> MetadataSnapshot" where
  "hosted lib b t hosts = fold (add_host lib b t) hosts (emptyCandidate t)"

lemma hosted_sel:
  "sn_Hosts (hosted lib b t hosts) = map (host_entry lib b t) hosts"
  "wf_map (sn_HostItems (hosted lib b t hosts))"
  "mget (sn_HostItems (hosted lib b t hosts)) k = (if k \<in> ho_HostID ` set hosts then Some [] else None)"
  "sn_Items (hosted lib b t hosts) = []" "sn_Groups (hosted lib b t hosts) = []"
  "sn_ItemGroups (hosted lib b t hosts) = []"
  unfolding hosted_def using hosts_fold [of "emptyCandidate t"] by (simp_all add: emptyCandidate_def)

lemma known_hosted: "known_host (hosted lib b t hosts) k \<noteq> None \<longleftrightarrow> k \<in> ho_HostID ` set hosts"
proof -
  have "mget (map (host_entry lib b t) hosts) k \<noteq> None \<longleftrightarrow> k \<in> ho_HostID ` set hosts"
    by (auto simp: map_of_eq_None_iff host_entry_def image_iff)
  moreover have "mget (map (host_entry lib b t) hosts) k \<noteq> Some None"
    by (auto dest!: map_of_SomeD simp: host_entry_def)
  ultimately show ?thesis by (auto simp: known_host_def mptr_def hosted_sel split: option.splits)
qed

lemma build_metadata_iff:
  "snd (build_metadata lib b now hosts items createdAt) = Inr sn \<longleftrightarrow>
     valid_hosts hosts \<and> valid_items (ho_HostID ` set hosts) items
     \<and> sn = finish_snapshot (fold (add_item lib b (candidate_time now createdAt)) items
         (hosted lib b (candidate_time now createdAt) hosts))"
proof -
  define t where "t = candidate_time now createdAt"
  have hosts: "add_hosts lib b t 0 hosts (emptyCandidate t) = Inr s \<longleftrightarrow> valid_hosts hosts \<and> s = hosted lib b t hosts" for s
    unfolding add_hosts_spec by (auto simp: hosted_def emptyCandidate_def)
  have known: "{k. known_host (hosted lib b t hosts) k \<noteq> None} = ho_HostID ` set hosts"
    using known_hosted by blast
  have items: "snd (add_items lib b t 0 items (hosted lib b t hosts, stats)) = Inr s \<longleftrightarrow>
      valid_items (ho_HostID ` set hosts) items \<and> s = fold (add_item lib b t) items (hosted lib b t hosts)" for s stats
    unfolding add_items_spec known by (simp add: hosted_sel)
  have run: "build_metadata lib b now hosts items createdAt =
      (case add_hosts lib b t 0 hosts (emptyCandidate t) of Inl err \<Rightarrow> ([], Inl err)
       | Inr sn \<Rightarrow> (case add_items lib b t 0 items (sn, []) of (stats, Inl err) \<Rightarrow> (stats, Inl err)
           | (stats, Inr sn) \<Rightarrow> (stats, Inr (finish_snapshot sn))))"
    unfolding build_metadata_def t_def candidate_time_def Let_def ..
  show ?thesis unfolding t_def [symmetric]
  proof (cases "add_hosts lib b t 0 hosts (emptyCandidate t)")
    case (Inl err)
    then have "\<not> valid_hosts hosts" using hosts by (metis Inl_Inr_False)
    then show "snd (build_metadata lib b now hosts items createdAt) = Inr sn \<longleftrightarrow> valid_hosts hosts
        \<and> valid_items (ho_HostID ` set hosts) items
        \<and> sn = finish_snapshot (fold (add_item lib b t) items (hosted lib b t hosts))"
      using Inl by (simp add: run)
  next
    case (Inr s)
    then have s: "valid_hosts hosts" "s = hosted lib b t hosts" using hosts by blast+
    obtain stats r where a: "add_items lib b t 0 items (s, []) = (stats, r)" by (metis surj_pair)
    show "snd (build_metadata lib b now hosts items createdAt) = Inr sn \<longleftrightarrow> valid_hosts hosts
        \<and> valid_items (ho_HostID ` set hosts) items
        \<and> sn = finish_snapshot (fold (add_item lib b t) items (hosted lib b t hosts))"
    proof (cases r)
      case Inl: (Inl err)
      then have "\<not> valid_items (ho_HostID ` set hosts) items" using items [of "[]"] a s by auto
      then show ?thesis using Inl a Inr by (simp add: run)
    next
      case r: (Inr s')
      then have "valid_items (ho_HostID ` set hosts) items \<and> s' = fold (add_item lib b t) items (hosted lib b t hosts)"
        using items [of "[]" s'] a s by simp
      then show ?thesis using r a Inr s by (auto simp: run)
    qed
  qed
qed

lemma item_metadata_sel:
  "im_ItemID (item_metadata lib b t host it) = it_ItemID it" "im_HostID (item_metadata lib b t host it) = it_HostID it"
  "im_ValueType (item_metadata lib b t host it) = it_ValueType it"
  "im_Delay (item_metadata lib b t host it) = fst (ParseDelay (it_Delay it) (bd_delayFallback b))"
  "im_DelayParseState (item_metadata lib b t host it) = snd (ParseDelay (it_Delay it) (bd_delayFallback b))"
  "im_Enabled (item_metadata lib b t host it) \<longleftrightarrow> statusEnabled (it_Status it) \<and> statusEnabled (it_State it)"
  by (simp_all add: item_metadata_def split: prod.split)

lemma finish_snapshot_frame:
  "sn_Hosts (finish_snapshot sn) = sn_Hosts sn" "sn_Items (finish_snapshot sn) = sn_Items sn"
  "sn_HostIDs (finish_snapshot sn) = sort (mkeys (sn_Hosts sn))"
  "sn_HostItems (finish_snapshot sn) = map (\<lambda>(hostID, ids). (hostID, sort ids)) (sn_HostItems sn)"
  by (simp_all add: finish_snapshot_def Let_def group_fold_frame sortedHostIDs_def)

lemma build_metadata_wf:
  assumes "snd (build_metadata lib b now hosts items createdAt) = Inr sn"
  shows "snapshot_wf sn
    \<and> sn_Hosts sn = map (host_entry lib b (candidate_time now createdAt)) hosts
    \<and> sn_Items sn = map (item_entry lib b (candidate_time now createdAt) sn) items"
proof -
  define t where "t = candidate_time now createdAt"
  let ?h = "hosted lib b t hosts"
  let ?s = "fold (add_item lib b t) items ?h"
  have v: "valid_hosts hosts" "valid_items (ho_HostID ` set hosts) items" and sn: "sn = finish_snapshot ?s"
    using assms unfolding build_metadata_iff t_def by blast+
  note f = items_fold [OF hosted_sel(2) [of lib b t hosts], of lib b t items]
  have hosts: "sn_Hosts sn = map (host_entry lib b t) hosts"
    by (simp add: sn finish_snapshot_frame f(4) hosted_sel)
  have entry: "item_entry lib b t sn = item_entry lib b t ?h"
    by (simp add: fun_eq_iff item_entry_def known_host_def hosts hosted_sel)
  have its: "sn_Items sn = map (item_entry lib b t sn) items"
    by (simp add: sn finish_snapshot_frame f(1) hosted_sel entry [unfolded sn])
  have keys: "mkeys (map (item_entry lib b t s) items) = map it_ItemID items" for s
    by (simp add: item_entry_def comp_def)
  have hkeys: "mkeys (map (host_entry lib b t) hosts) = map ho_HostID hosts"
    by (simp add: host_entry_def comp_def)
  have host_in: "mget (sn_Hosts sn) k \<noteq> None \<longleftrightarrow> k \<in> ho_HostID ` set hosts" for k
    unfolding hosts mget_None_iff hkeys by simp
  have hw: "hosts_wf sn"
    unfolding hosts_wf_def
  proof (intro conjI allI impI)
    show "wf_map (sn_Hosts sn)" using v(1) by (simp only: wf_map_def hosts hkeys valid_hosts_def)
    show "sn_HostIDs sn = sort (mkeys (sn_Hosts sn))" by (simp only: sn finish_snapshot_frame)
    fix k p
    assume "mget (sn_Hosts sn) k = Some p"
    then obtain h where h: "h \<in> set hosts" "k = ho_HostID h" "p = Some (host_metadata lib b t h)"
      unfolding hosts by (auto dest!: map_of_SomeD simp: host_entry_def)
    moreover have "hm_HostID (host_metadata lib b t h) = ho_HostID h" by (simp add: host_metadata_def Let_def)
    ultimately show "k \<noteq> []" "\<exists>h. p = Some h \<and> hm_HostID h = k"
      using v(1) unfolding valid_hosts_def by (metis image_eqI list.set_map, blast)
  qed
  have wfi: "wf_map (sn_Items sn)" using v(2) by (simp only: wf_map_def its keys valid_items_def)
  have agree: "ids_agree (sn_Items ?s)"
    using wfi by (auto simp: ids_agree_def sn finish_snapshot_frame f(1) hosted_sel item_entry_def item_metadata_sel)
  have gw: "groups_wf sn" unfolding sn
    by (rule finish_snapshot_groups [OF agree]) (simp_all add: f(4) hosted_sel)
  have hm: "host_members (sn_Items sn) h = map it_ItemID (filter (\<lambda>it. it_HostID it = h) items)" for h
    by (simp add: host_members_def its filter_map comp_def item_entry_def item_metadata_sel)
  have iw: "items_wf sn"
    unfolding items_wf_def
  proof (intro conjI allI impI)
    show "wf_map (sn_Items sn)" by (rule wfi)
    show "wf_map (sn_HostItems sn)" using f(2) by (simp add: sn finish_snapshot_frame wf_map_map_snd)
    fix k p
    assume "mget (sn_Items sn) k = Some p"
    then obtain it where it: "it \<in> set items" "k = it_ItemID it"
      "p = Some (item_metadata lib b t (the (known_host sn (it_HostID it))) it)"
      unfolding its by (auto dest!: map_of_SomeD simp: item_entry_def)
    have "0 < fst (ParseDelay (it_Delay it) (bd_delayFallback b))"
      using ParseDelay_outcome [of "bd_delayFallback b" "it_Delay it"] by (simp add: delay_outcome_def)
    then show "\<exists>it. p = Some it \<and> item_wf sn k it"
      using it v(2) host_in by (auto simp: item_wf_def item_metadata_sel valid_items_def image_iff)
  next
    fix h
    have host: "it_HostID it \<in> ho_HostID ` set hosts" if "it \<in> set items" for it
      using v(2) that by (simp add: valid_items_def)
    show "mget (sn_HostItems sn) h = (if mget (sn_Hosts sn) h = None then None else Some (sort (host_members (sn_Items sn) h)))"
      unfolding hm using host_in [of h] host
      by (auto simp: sn finish_snapshot_frame mget_map_snd f(3) hosted_sel)
  qed
  show ?thesis unfolding t_def [symmetric] using hw iw gw hosts its by (simp add: snapshot_wf_def)
qed

lemma build_metadata_created:
  assumes "snd (build_metadata lib b now hosts items createdAt) = Inr sn"
  shows "sn_CreatedAt sn = candidate_time now createdAt"
proof -
  let ?t = "candidate_time now createdAt"
  have hosts: "sn_CreatedAt (fold (add_host lib b ?t) hs s) = sn_CreatedAt s" for hs s
    by (induction hs arbitrary: s) (simp_all add: add_host_def)
  have items: "sn_CreatedAt (fold (add_item lib b ?t) its s) = sn_CreatedAt s" for its s
    by (induction its arbitrary: s) (simp_all add: add_item_def)
  have "sn_CreatedAt (finish_snapshot s) = sn_CreatedAt s" for s
    by (simp add: finish_snapshot_def Let_def group_fold_frame)
  then show ?thesis using assms unfolding build_metadata_iff
    by (simp add: items hosted_def hosts emptyCandidate_def)
qed

end
