(* ===== verification/Metadata_Store.thy ===== *)
theory Metadata_Store
  imports Metadata_Snapshot
begin

text \<open>
  \<^verbatim>\<open>internal/metadata/cache.go\<close>: the store publishes complete snapshots one after the other.  A \<open>Store\<close> is
  the snapshot its atomic pointer holds; \<open>ApplySnapshot\<close> runs under the apply lock.  Cloning copies the
  slices and maps behind a definition, which is the identity on their contents; \<^verbatim>\<open>reflect.DeepEqual\<close> on
  these copies is equality, for maps equality of the entries whatever their order.
\<close>

type_synonym Store = MetadataSnapshot

definition emptySnapshot :: MetadataSnapshot where
  "emptySnapshot =
     \<lparr>sn_Version = 0, sn_CreatedAt = 0, sn_Hosts = [], sn_HostIDs = [], sn_Items = [],
      sn_HostItems = [], sn_Groups = [], sn_ItemGroups = []\<rparr>"

definition NewStore :: Store where "NewStore = emptySnapshot"

section \<open>Equal definitions\<close>

definition fields_equal :: "(string, string) gomap \<Rightarrow> (string, string) gomap \<Rightarrow> bool" where
  "fields_equal a b \<longleftrightarrow> length a = length b \<and> list_all (\<lambda>(k, v). mget b k = Some v) a"

definition hostDefinitionsEqual :: "HostMetadata option \<Rightarrow> HostMetadata option \<Rightarrow> bool" where
  "hostDefinitionsEqual a b \<longleftrightarrow>
     (case (a, b) of
        (Some a, Some b) \<Rightarrow>
          hm_HostID a = hm_HostID b \<and> hm_HostName a = hm_HostName b \<and> hm_DisplayName a = hm_DisplayName b
          \<and> hm_HostIP a = hm_HostIP b \<and> hm_Inventory a = hm_Inventory b
          \<and> fields_equal (hm_InventoryFields a) (hm_InventoryFields b) \<and> hm_Labels a = hm_Labels b
      | (None, None) \<Rightarrow> True | _ \<Rightarrow> False)"

definition itemDefinitionsEqual :: "ItemMetadata option \<Rightarrow> ItemMetadata option \<Rightarrow> bool" where
  "itemDefinitionsEqual a b \<longleftrightarrow>
     (case (a, b) of
        (Some a, Some b) \<Rightarrow>
          im_ItemID a = im_ItemID b \<and> im_HostID a = im_HostID b \<and> im_Key a = im_Key b \<and> im_Name a = im_Name b
          \<and> im_ValueType a = im_ValueType b \<and> im_RawDelay a = im_RawDelay b \<and> im_Delay a = im_Delay b
          \<and> im_DelayParseState a = im_DelayParseState b \<and> im_Status a = im_Status b \<and> im_State a = im_State b
          \<and> im_Enabled a = im_Enabled b \<and> im_MetricName a = im_MetricName b \<and> im_Labels a = im_Labels b
      | (None, None) \<Rightarrow> True | _ \<Rightarrow> False)"

definition groupDefinitionsEqual :: "CollectionGroup option \<Rightarrow> CollectionGroup option \<Rightarrow> bool" where
  "groupDefinitionsEqual a b \<longleftrightarrow>
     (case (a, b) of
        (Some a, Some b) \<Rightarrow>
          cg_ID a = cg_ID b \<and> cg_HostID a = cg_HostID b \<and> cg_ValueType a = cg_ValueType b
          \<and> cg_Delay a = cg_Delay b \<and> cg_ItemIDs a = cg_ItemIDs b
      | (None, None) \<Rightarrow> True | _ \<Rightarrow> False)"

section \<open>Cloning\<close>

definition cloneHost :: "HostMetadata \<Rightarrow> nat \<Rightarrow> time \<Rightarrow> HostMetadata" where
  "cloneHost source version refreshedAt = source\<lparr>hm_RefreshedAt := refreshedAt, hm_Version := version\<rparr>"

definition cloneItem :: "ItemMetadata \<Rightarrow> nat \<Rightarrow> time \<Rightarrow> ItemMetadata" where
  "cloneItem source version refreshedAt = source\<lparr>im_RefreshedAt := refreshedAt, im_Version := version\<rparr>"

definition clone_group :: "CollectionGroup \<Rightarrow> nat \<Rightarrow> CollectionGroup" where
  "clone_group source version = source\<lparr>cg_Version := version\<rparr>"

text \<open>One round of each cloning loop: an unchanged definition keeps the version it had.\<close>

definition publish_host :: "MetadataSnapshot \<Rightarrow> nat \<Rightarrow> time \<Rightarrow> string \<Rightarrow> HostMetadata option \<Rightarrow> HostMetadata option" where
  "publish_host current version createdAt k host =
     (case host of
        None \<Rightarrow> None
      | Some h \<Rightarrow>
          (let published = cloneHost h version createdAt in
           Some (case mget (sn_Hosts current) k of
                   Some (Some previous) \<Rightarrow>
                     if hostDefinitionsEqual (Some previous) (Some published)
                     then published\<lparr>hm_Version := hm_Version previous\<rparr> else published
                 | _ \<Rightarrow> published)))"

definition publish_item :: "MetadataSnapshot \<Rightarrow> nat \<Rightarrow> time \<Rightarrow> string \<Rightarrow> ItemMetadata option \<Rightarrow> ItemMetadata option" where
  "publish_item current version createdAt k item =
     (case item of
        None \<Rightarrow> None
      | Some it \<Rightarrow>
          (let published = cloneItem it version createdAt in
           Some (case mget (sn_Items current) k of
                   Some (Some previous) \<Rightarrow>
                     if itemDefinitionsEqual (Some previous) (Some published)
                     then published\<lparr>im_Version := im_Version previous\<rparr> else published
                 | _ \<Rightarrow> published)))"

definition publish_group :: "MetadataSnapshot \<Rightarrow> nat \<Rightarrow> string \<Rightarrow> CollectionGroup option \<Rightarrow> CollectionGroup option" where
  "publish_group current version k gr =
     (case gr of
        None \<Rightarrow> None
      | Some g \<Rightarrow>
          (let published = clone_group g version in
           Some (case mget (sn_Groups current) k of
                   Some (Some previous) \<Rightarrow>
                     if groupDefinitionsEqual (Some previous) (Some published)
                     then published\<lparr>cg_Version := cg_Version previous\<rparr> else published
                 | _ \<Rightarrow> published)))"

definition cloneSnapshot :: "MetadataSnapshot \<Rightarrow> MetadataSnapshot \<Rightarrow> nat \<Rightarrow> time \<Rightarrow> MetadataSnapshot" where
  "cloneSnapshot source current version createdAt =
     (let hosts = map (\<lambda>(k, h). (k, publish_host current version createdAt k h)) (sn_Hosts source) in
      \<lparr>sn_Version = version, sn_CreatedAt = createdAt, sn_Hosts = hosts, sn_HostIDs = sortedHostIDs hosts,
       sn_Items = map (\<lambda>(k, it). (k, publish_item current version createdAt k it)) (sn_Items source),
       sn_HostItems = sn_HostItems source,
       sn_Groups = map (\<lambda>(k, g). (k, publish_group current version k g)) (sn_Groups source),
       sn_ItemGroups = sn_ItemGroups source\<rparr>)"

section \<open>Differences\<close>

definition diffMap :: "('v \<Rightarrow> 'v \<Rightarrow> bool) \<Rightarrow> (string, 'v) gomap \<Rightarrow> (string, 'v) gomap
    \<Rightarrow> string list \<times> string list \<times> string list" where
  "diffMap equal old new =
     (let (removed, changed) = fold (\<lambda>(k, oldValue) (removed, changed).
              (case mget new k of
                 None \<Rightarrow> (removed @ [k], changed)
               | Some nextValue \<Rightarrow> if \<not> equal oldValue nextValue then (removed, changed @ [k]) else (removed, changed)))
            old ([], []);
          added = filter (\<lambda>k. mget old k = None) (mkeys new)
      in (sort added, sort removed, sort changed))"

definition diffSnapshots :: "MetadataSnapshot \<Rightarrow> MetadataSnapshot \<Rightarrow> MetadataDiff" where
  "diffSnapshots old new =
     (case diffMap hostDefinitionsEqual (sn_Hosts old) (sn_Hosts new) of (addedHosts, removedHosts, changedHosts) \<Rightarrow>
      case diffMap itemDefinitionsEqual (sn_Items old) (sn_Items new) of (addedItems, removedItems, changedItems) \<Rightarrow>
      case diffMap groupDefinitionsEqual (sn_Groups old) (sn_Groups new) of (addedGroups, removedGroups, changedGroups) \<Rightarrow>
        \<lparr>df_OldVersion = sn_Version old, df_NewVersion = sn_Version new,
         df_AddedHosts = addedHosts, df_RemovedHosts = removedHosts, df_ChangedHosts = changedHosts,
         df_AddedItems = addedItems, df_RemovedItems = removedItems, df_ChangedItems = changedItems,
         df_AddedGroups = addedGroups, df_RemovedGroups = removedGroups, df_ChangedGroups = changedGroups\<rparr>)"

definition emptyDiff :: "nat \<Rightarrow> MetadataDiff" where
  "emptyDiff version =
     \<lparr>df_OldVersion = version, df_NewVersion = version, df_AddedHosts = [], df_RemovedHosts = [],
      df_ChangedHosts = [], df_AddedItems = [], df_RemovedItems = [], df_ChangedItems = [],
      df_AddedGroups = [], df_RemovedGroups = [], df_ChangedGroups = []\<rparr>"

definition ApplySnapshot :: "time \<Rightarrow> Store \<Rightarrow> MetadataSnapshot option \<Rightarrow> Store \<times> MetadataDiff" where
  "ApplySnapshot now current new =
     (case new of
        None \<Rightarrow> (current, emptyDiff (sn_Version current))
      | Some new \<Rightarrow>
          (let version = inc64 (sn_Version current);
               createdAt = (if time_IsZero (sn_CreatedAt new) then now else sn_CreatedAt new);
               published = cloneSnapshot new current version createdAt
           in (published, diffSnapshots current published)))"

definition Store_Item :: "Store \<Rightarrow> string \<Rightarrow> ItemMetadata option" where
  "Store_Item s k = map_option (\<lambda>it. cloneItem it (im_Version it) (im_RefreshedAt it)) (mptr (sn_Items s) k)"

definition Store_Group :: "Store \<Rightarrow> string \<Rightarrow> CollectionGroup option" where
  "Store_Group s k = map_option (\<lambda>g. clone_group g (cg_Version g)) (mptr (sn_Groups s) k)"

section \<open>Laws\<close>

lemma diff_fold:
  "fold (\<lambda>(k, oldValue) (removed, changed).
      (case mget new k of None \<Rightarrow> (removed @ [k], changed)
       | Some nextValue \<Rightarrow> if \<not> equal oldValue nextValue then (removed, changed @ [k]) else (removed, changed)))
    old (r, c)
   = (r @ map fst (filter (\<lambda>(k, v). mget new k = None) old),
      c @ map fst (filter (\<lambda>(k, v). \<exists>w. mget new k = Some w \<and> \<not> equal v w) old))"
  by (induction old arbitrary: r c) (auto split: option.split)

lemma diffMap_sets:
  assumes "wf_map old" "diffMap equal old new = (added, removed, changed)"
  shows "set added = {k. mget old k = None \<and> mget new k \<noteq> None}"
    and "set removed = {k. mget old k \<noteq> None \<and> mget new k = None}"
    and "set changed = {k. \<exists>v w. mget old k = Some v \<and> mget new k = Some w \<and> \<not> equal v w}"
    and "sorted added \<and> sorted removed \<and> sorted changed"
proof -
  have a: "added = sort (filter (\<lambda>k. mget old k = None) (mkeys new))"
    and r: "removed = sort (map fst (filter (\<lambda>(k, v). mget new k = None) old))"
    and c: "changed = sort (map fst (filter (\<lambda>(k, v). \<exists>w. mget new k = Some w \<and> \<not> equal v w) old))"
    using assms(2) by (simp_all add: diffMap_def diff_fold)
  have keys: "mget new k \<noteq> None \<longleftrightarrow> k \<in> set (mkeys new)" for k
    by (simp only: mget_None_iff not_not)
  show "set added = {k. mget old k = None \<and> mget new k \<noteq> None}"
    unfolding a keys by (auto simp: image_iff)
  show "set removed = {k. mget old k \<noteq> None \<and> mget new k = None}"
    unfolding r by (auto simp: wf_map_in_iff [OF assms(1)] image_iff)
  show "set changed = {k. \<exists>v w. mget old k = Some v \<and> mget new k = Some w \<and> \<not> equal v w}"
    unfolding c by (auto simp: wf_map_in_iff [OF assms(1)] image_iff)
  show "sorted added \<and> sorted removed \<and> sorted changed" by (simp add: a r c)
qed

end
