(* ===== verification/Metadata_Versions.thy ===== *)
theory Metadata_Versions
  imports Metadata_Store
begin

text \<open>
  Definition versions through the life of a store: a version number stands for one definition, so whoever
  remembers the version of an item it saw can tell later whether the definition is still the same.  A
  snapshot keeps its well-formedness through publication.
\<close>

lemma itemDefinitionsEqual_refl [simp]: "itemDefinitionsEqual a a"
  by (simp add: itemDefinitionsEqual_def split: option.split)

lemma itemDefinitionsEqual_trans:
  "itemDefinitionsEqual a b \<Longrightarrow> itemDefinitionsEqual b c \<Longrightarrow> itemDefinitionsEqual a c"
  by (auto simp: itemDefinitionsEqual_def split: option.splits)

lemma itemDefinitionsEqual_sym: "itemDefinitionsEqual a b \<Longrightarrow> itemDefinitionsEqual b a"
  by (auto simp: itemDefinitionsEqual_def split: option.splits)

lemma equal_clone [simp]:
  "itemDefinitionsEqual a (Some (cloneItem it v t)) = itemDefinitionsEqual a (Some it)"
  "itemDefinitionsEqual (Some (cloneItem it v t)) a = itemDefinitionsEqual (Some it) a"
  "itemDefinitionsEqual a (Some (it\<lparr>im_Version := v\<rparr>)) = itemDefinitionsEqual a (Some it)"
  "itemDefinitionsEqual (Some (it\<lparr>im_Version := v\<rparr>)) a = itemDefinitionsEqual (Some it) a"
  "itemDefinitionsEqual a (Some (it\<lparr>im_RefreshedAt := t\<rparr>)) = itemDefinitionsEqual a (Some it)"
  by (auto simp: itemDefinitionsEqual_def cloneItem_def split: option.split)

lemma mget_map_key: "mget (map (\<lambda>(k, v). (k, f k v)) m) k = map_option (f k) (mget m k)"
  by (induction m) auto

lemma wf_map_map_key: "wf_map (map (\<lambda>(k, v). (k, f k v)) m) = wf_map m"
  by (simp add: wf_map_def comp_def case_prod_unfold)

lemma cloneSnapshot_sel:
  "sn_Version (cloneSnapshot new cur v t) = v"
  "mget (sn_Hosts (cloneSnapshot new cur v t)) k = map_option (publish_host cur v t k) (mget (sn_Hosts new) k)"
  "mget (sn_Items (cloneSnapshot new cur v t)) k = map_option (publish_item cur v t k) (mget (sn_Items new) k)"
  "mget (sn_Groups (cloneSnapshot new cur v t)) k = map_option (publish_group cur v k) (mget (sn_Groups new) k)"
  "wf_map (sn_Hosts (cloneSnapshot new cur v t)) = wf_map (sn_Hosts new)"
  "wf_map (sn_Items (cloneSnapshot new cur v t)) = wf_map (sn_Items new)"
  "wf_map (sn_Groups (cloneSnapshot new cur v t)) = wf_map (sn_Groups new)"
  "sn_HostItems (cloneSnapshot new cur v t) = sn_HostItems new"
  "sn_ItemGroups (cloneSnapshot new cur v t) = sn_ItemGroups new"
  "sn_HostIDs (cloneSnapshot new cur v t) = sort (mkeys (sn_Hosts new))"
proof -
  have "mkeys (map (\<lambda>(k, h). (k, f k h)) m) = mkeys m" for f :: "string \<Rightarrow> HostMetadata option \<Rightarrow> HostMetadata option" and m
    by (simp add: comp_def case_prod_unfold)
  then show "sn_HostIDs (cloneSnapshot new cur v t) = sort (mkeys (sn_Hosts new))"
    by (simp only: cloneSnapshot_def Let_def MetadataSnapshot.select_convs sortedHostIDs_def)
qed (simp_all add: cloneSnapshot_def Let_def mget_map_key wf_map_map_key)

lemma publish_item_Some:
  "publish_item cur v t k (Some it) = Some p \<Longrightarrow> itemDefinitionsEqual (Some it) (Some p)
     \<and> (case mptr (sn_Items cur) k of
          Some previous \<Rightarrow> if itemDefinitionsEqual (Some previous) (Some it) then im_Version p = im_Version previous
            else im_Version p = v
        | None \<Rightarrow> im_Version p = v)"
  by (auto simp: publish_item_def mptr_def Let_def cloneItem_def split: option.splits if_splits)

lemma published_item:
  assumes "mptr (sn_Items (cloneSnapshot new cur v t)) k = Some p"
  obtains it where "mptr (sn_Items new) k = Some it" "itemDefinitionsEqual (Some it) (Some p)"
    "case mptr (sn_Items cur) k of
          Some previous \<Rightarrow> if itemDefinitionsEqual (Some previous) (Some it) then im_Version p = im_Version previous
            else im_Version p = v
        | None \<Rightarrow> im_Version p = v"
proof -
  from assms obtain q where q: "mget (sn_Items new) k = Some q" "publish_item cur v t k q = Some p"
    by (auto simp: mptr_def cloneSnapshot_sel split: option.splits)
  then obtain it where it: "q = Some it" by (cases q) (auto simp: publish_item_def)
  from publish_item_Some [OF q(2) [unfolded it]] q(1) it show thesis by (intro that [of it]) (auto simp: mptr_def)
qed

lemma diffSnapshots_version: "df_NewVersion (diffSnapshots old new) = sn_Version new"
  by (simp add: diffSnapshots_def split: prod.split)

section \<open>The life of a store\<close>

text \<open>The store after some complete applications, as long as its \<^verbatim>\<open>uint64\<close> version does not wrap.\<close>

inductive store_run :: "Store \<Rightarrow> Store \<Rightarrow> bool" where
  Start: "store_run s s"
| Apply: "store_run s t \<Longrightarrow> sn_Version t + 1 < 2 ^ 64 \<Longrightarrow> store_run s (fst (ApplySnapshot now t new))"

definition versions_ok :: "Store \<Rightarrow> bool" where
  "versions_ok s \<longleftrightarrow> (\<forall>k it. mptr (sn_Items s) k = Some it \<longrightarrow> im_Version it \<le> sn_Version s)"

text \<open>Every definition of \<open>t\<close> with a version of \<open>s\<close> or older is the one \<open>s\<close> had.\<close>

definition continues :: "Store \<Rightarrow> Store \<Rightarrow> bool" where
  "continues s t \<longleftrightarrow> sn_Version s \<le> sn_Version t
     \<and> (\<forall>k new. mptr (sn_Items t) k = Some new \<longrightarrow> im_Version new \<le> sn_Version s \<longrightarrow>
          (\<exists>old. mptr (sn_Items s) k = Some old \<and> im_Version old = im_Version new
             \<and> itemDefinitionsEqual (Some old) (Some new)))"

lemma apply_snapshot_continues:
  assumes cont: "continues s t" and ok: "versions_ok t" and wrap: "sn_Version t + 1 < 2 ^ 64"
  shows "continues s (fst (ApplySnapshot now t new)) \<and> versions_ok (fst (ApplySnapshot now t new))"
proof (cases new)
  case None
  then show ?thesis using cont ok by (simp add: ApplySnapshot_def)
next
  case (Some n)
  obtain c where u: "fst (ApplySnapshot now t new) = cloneSnapshot n t (Suc (sn_Version t)) c"
    using wrap by (simp add: ApplySnapshot_def Some Let_def inc64_id)
  let ?u = "cloneSnapshot n t (Suc (sn_Version t)) c"
  have le: "sn_Version s \<le> sn_Version t" using cont by (simp add: continues_def)
  have step: "im_Version p \<le> Suc (sn_Version t)
      \<and> (im_Version p \<le> sn_Version s \<longrightarrow> (\<exists>old. mptr (sn_Items s) k = Some old \<and> im_Version old = im_Version p
             \<and> itemDefinitionsEqual (Some old) (Some p)))"
    if p: "mptr (sn_Items ?u) k = Some p" for k p
  proof -
    from published_item [OF p] obtain it where it: "itemDefinitionsEqual (Some it) (Some p)"
      "case mptr (sn_Items t) k of
          Some previous \<Rightarrow> if itemDefinitionsEqual (Some previous) (Some it) then im_Version p = im_Version previous
            else im_Version p = Suc (sn_Version t)
        | None \<Rightarrow> im_Version p = Suc (sn_Version t)" by blast
    show ?thesis
    proof (cases "\<exists>previous. mptr (sn_Items t) k = Some previous \<and> itemDefinitionsEqual (Some previous) (Some it)")
      case True
      then obtain previous where pr: "mptr (sn_Items t) k = Some previous" "itemDefinitionsEqual (Some previous) (Some it)"
        by blast
      have v: "im_Version p = im_Version previous" using it(2) pr by simp
      have eq: "itemDefinitionsEqual (Some previous) (Some p)" by (rule itemDefinitionsEqual_trans [OF pr(2) it(1)])
      have "im_Version previous \<le> sn_Version t" using ok pr(1) by (simp add: versions_ok_def)
      moreover have "\<exists>old. mptr (sn_Items s) k = Some old \<and> im_Version old = im_Version p
          \<and> itemDefinitionsEqual (Some old) (Some p)" if "im_Version p \<le> sn_Version s"
      proof -
        have "im_Version previous \<le> sn_Version s" using that by (simp add: v)
        with cont pr(1) obtain old where "mptr (sn_Items s) k = Some old" "im_Version old = im_Version previous"
          "itemDefinitionsEqual (Some old) (Some previous)"
          unfolding continues_def by blast
        then show ?thesis using itemDefinitionsEqual_trans [OF _ eq] v by auto
      qed
      ultimately show ?thesis by (simp add: v)
    next
      case False
      then have "im_Version p = Suc (sn_Version t)" using it(2) by (auto split: option.splits)
      then show ?thesis using le by simp
    qed
  qed
  then show ?thesis unfolding u continues_def versions_ok_def using le by (auto simp: cloneSnapshot_sel)
qed

lemma store_run_continues: "store_run s t \<Longrightarrow> versions_ok s \<Longrightarrow> continues s t \<and> versions_ok t"
proof (induction rule: store_run.induct)
  case (Start s)
  then show ?case by (auto simp: continues_def)
next
  case (Apply s t now new)
  then show ?case using apply_snapshot_continues by blast
qed

lemma NewStore_versions: "versions_ok NewStore"
  by (simp add: versions_ok_def NewStore_def emptySnapshot_def mptr_def)

section \<open>Publication keeps a snapshot well-formed\<close>

lemma publish_sel:
  "publish_host cur v t k (Some h) = Some h' \<Longrightarrow> hm_HostID h' = hm_HostID h"
  "publish_item cur v t k (Some it) = Some it' \<Longrightarrow> im_ItemID it' = im_ItemID it \<and> im_HostID it' = im_HostID it
     \<and> im_ValueType it' = im_ValueType it \<and> im_Delay it' = im_Delay it \<and> im_Enabled it' = im_Enabled it"
  "publish_group cur v k (Some g) = Some g' \<Longrightarrow> cg_ID g' = cg_ID g \<and> cg_HostID g' = cg_HostID g
     \<and> cg_ValueType g' = cg_ValueType g \<and> cg_Delay g' = cg_Delay g \<and> cg_ItemIDs g' = cg_ItemIDs g"
  by (auto simp: publish_host_def publish_item_def publish_group_def cloneHost_def cloneItem_def clone_group_def Let_def
      split: option.splits if_splits)

lemma publish_total:
  "\<exists>h'. publish_host cur v t k (Some h) = Some h'" "\<exists>it'. publish_item cur v t k (Some it) = Some it'"
  "\<exists>g'. publish_group cur v k (Some g) = Some g'"
  by (auto simp: publish_host_def publish_item_def publish_group_def Let_def)

text \<open>What the groups of a snapshot depend on in an item.\<close>

definition same_item :: "ItemMetadata \<Rightarrow> ItemMetadata \<Rightarrow> bool" where
  "same_item a b \<longleftrightarrow> im_ItemID a = im_ItemID b \<and> im_HostID a = im_HostID b \<and> im_ValueType a = im_ValueType b
     \<and> im_Delay a = im_Delay b \<and> im_Enabled a = im_Enabled b"

lemma published_members:
  assumes es'_def: "es' = map (\<lambda>(k, p). (k, publish_item cur v t k p)) es"
  shows "map im_ItemID (group_members es' gid) = map im_ItemID (group_members es gid)"
    and "list_all2 same_item (group_members es' gid) (group_members es gid)"
    and "host_members es' h = host_members es h"
    and "item_groups es' = item_groups es"
proof -
  have pub: "(case publish_item cur v t k p of None \<Rightarrow> p = None | Some it' \<Rightarrow> \<exists>it. p = Some it \<and> same_item it' it)" for k p
  proof (cases p)
    case None
    then show ?thesis by (simp add: publish_item_def)
  next
    case (Some it)
    obtain it' where "publish_item cur v t k (Some it) = Some it'" using publish_total(2) by blast
    with publish_sel(2) [OF this] Some show ?thesis by (simp add: same_item_def)
  qed
  have grp: "in_group gid (k, publish_item cur v t k p) = in_group gid (k, p)" for k p gid
    using pub [where k = k and p = p] by (auto simp: in_group_def item_gid_def same_item_def split: option.splits)
  show l: "list_all2 same_item (group_members es' gid) (group_members es gid)"
    unfolding es'_def
  proof (induction es)
    case (Cons e es)
    obtain k p where e: "e = (k, p)" by (cases e)
    have "same_item (the (publish_item cur v t k p)) (the p)" if "in_group gid (k, p)"
      using pub [where k = k and p = p] that by (auto simp: in_group_def split: option.splits)
    then show ?case using Cons by (simp add: group_members_def e grp)
  qed (simp add: group_members_def)
  then show "map im_ItemID (group_members es' gid) = map im_ItemID (group_members es gid)"
    by (induction rule: list_all2_induct) (simp_all add: same_item_def)
  have host: "(case publish_item cur v t k p of None \<Rightarrow> False | Some it \<Rightarrow> im_HostID it = h)
      = (case p of None \<Rightarrow> False | Some it \<Rightarrow> im_HostID it = h)" for k p
    using pub [where k = k and p = p] by (auto simp: same_item_def split: option.splits)
  show "host_members es' h = host_members es h"
    unfolding es'_def by (induction es) (auto simp: host_members_def host)
  show "item_groups es' = item_groups es"
  proof
    fix k
    have "mget es' k = map_option (publish_item cur v t k) (mget es k)" by (simp add: es'_def mget_map_key)
    then show "item_groups es' k = item_groups es k"
      using pub [where k = k and p = "the (mget es k)"]
      by (auto simp: item_groups_def mptr_def same_item_def item_gid_def split: option.splits)
  qed
qed

lemma group_wf_published:
  assumes "group_wf gid ms g" and "list_all2 same_item ms' ms" and "map im_ItemID ms' = map im_ItemID ms"
    and "publish_group cur v gid (Some g) = Some g'"
  shows "group_wf gid ms' g'"
proof -
  obtain it where it: "it \<in> set ms" "cg_HostID g = im_HostID it" "cg_ValueType g = im_ValueType it" "cg_Delay g = im_Delay it"
    using assms(1) by (auto simp: group_wf_def)
  obtain i where i: "i < length ms" "ms ! i = it" using it(1) by (auto simp: in_set_conv_nth)
  then have "ms' ! i \<in> set ms'" "same_item (ms' ! i) it"
    using assms(2) by (auto simp: list_all2_conv_all_nth)
  then show ?thesis using assms(1,3) publish_sel(3) [OF assms(4)] it
    by (auto simp: group_wf_def same_item_def intro!: bexI [of _ "ms' ! i"])
qed

lemma cloneSnapshot_wf:
  assumes "snapshot_wf new"
  shows "snapshot_wf (cloneSnapshot new cur v t)"
proof -
  let ?c = "cloneSnapshot new cur v t"
  have h: "hosts_wf new" and i: "items_wf new" and g: "groups_wf new" using assms by (simp_all add: snapshot_wf_def)
  have mk: "mkeys (sn_Hosts ?c) = mkeys (sn_Hosts new)" by (simp add: cloneSnapshot_def Let_def comp_def case_prod_unfold)
  have items: "sn_Items ?c = map (\<lambda>(k, p). (k, publish_item cur v t k p)) (sn_Items new)" by (simp add: cloneSnapshot_def Let_def)
  note m = published_members [OF items]
  have "hosts_wf ?c"
    unfolding hosts_wf_def
  proof (intro conjI allI impI)
    show "wf_map (sn_Hosts ?c)" using h by (simp add: hosts_wf_def cloneSnapshot_sel)
    show "sn_HostIDs ?c = sort (mkeys (sn_Hosts ?c))" unfolding mk by (simp add: cloneSnapshot_sel)
    fix k p
    assume "mget (sn_Hosts ?c) k = Some p"
    then obtain q where q: "mget (sn_Hosts new) k = Some q" "p = publish_host cur v t k q" by (auto simp: cloneSnapshot_sel)
    then obtain x where x: "q = Some x" "hm_HostID x = k" "k \<noteq> []" using h by (auto simp: hosts_wf_def)
    show "k \<noteq> []" by (rule x(3))
    show "\<exists>h. p = Some h \<and> hm_HostID h = k"
      using q(2) x publish_total(1) [of cur v t k x] publish_sel(1) [of cur v t k x] by auto
  qed
  moreover have "items_wf ?c"
    unfolding items_wf_def m(3)
  proof (intro conjI allI impI)
    show "wf_map (sn_Items ?c)" "wf_map (sn_HostItems ?c)" using i by (simp_all add: items_wf_def cloneSnapshot_sel)
    fix k p
    assume "mget (sn_Items ?c) k = Some p"
    then obtain q where q: "mget (sn_Items new) k = Some q" "p = publish_item cur v t k q" by (auto simp: cloneSnapshot_sel)
    then obtain x where x: "q = Some x" "item_wf new k x" using i by (auto simp: items_wf_def)
    obtain y where y: "publish_item cur v t k (Some x) = Some y" using publish_total(2) by blast
    show "\<exists>it. p = Some it \<and> item_wf ?c k it"
      using q(2) x y publish_sel(2) [OF y] by (auto simp: item_wf_def cloneSnapshot_sel)
  next
    fix k
    show "mget (sn_HostItems ?c) k = (if mget (sn_Hosts ?c) k = None then None else Some (sort (host_members (sn_Items new) k)))"
      using i by (auto simp: items_wf_def cloneSnapshot_sel)
  qed
  moreover have "groups_wf ?c"
    unfolding groups_wf_def m(4)
  proof (intro conjI allI)
    show "wf_map (sn_Groups ?c)" "wf_map (sn_ItemGroups ?c)" "mget (sn_ItemGroups ?c) = item_groups (sn_Items new)"
      using g by (simp_all add: groups_wf_def cloneSnapshot_sel)
    fix gid
    have nil: "group_members (sn_Items ?c) gid = [] \<longleftrightarrow> group_members (sn_Items new) gid = []"
      using m(1) [of gid] by (metis map_is_Nil_conv)
    show "if group_members (sn_Items ?c) gid = [] then mget (sn_Groups ?c) gid = None
        else \<exists>x. mget (sn_Groups ?c) gid = Some (Some x) \<and> group_wf gid (group_members (sn_Items ?c) gid) x"
    proof (cases "group_members (sn_Items new) gid = []")
      case True
      then have "mget (sn_Groups new) gid = None" using g by (simp add: groups_wf_def)
      then show ?thesis using True nil by (simp add: cloneSnapshot_sel)
    next
      case False
      moreover have "if group_members (sn_Items new) gid = [] then mget (sn_Groups new) gid = None
          else \<exists>x. mget (sn_Groups new) gid = Some (Some x) \<and> group_wf gid (group_members (sn_Items new) gid) x"
        using g unfolding groups_wf_def by blast
      ultimately obtain x where x: "mget (sn_Groups new) gid = Some (Some x)"
        "group_wf gid (group_members (sn_Items new) gid) x" by auto
      obtain y where y: "publish_group cur v gid (Some x) = Some y" using publish_total(3) by blast
      then show ?thesis using x False nil group_wf_published [OF x(2) m(2,1) y] by (simp add: cloneSnapshot_sel)
    qed
  qed
  ultimately show ?thesis by (simp add: snapshot_wf_def)
qed

end
