(* ===== verification/Group_Agreement.thy ===== *)
theory Group_Agreement
  imports Metadata_Versions Group_Laws
begin

text \<open>
  The metadata builder and the scheduler group the same items independently: the builder by the identifier
  \<^verbatim>\<open>collectionGroupID\<close> over the raw value type, the scheduler by host, numeric value type and exact delay.
  On well-formed snapshots with whole-second delays the two groupings are the same, so the scheduler finds
  the version of each of its groups in the snapshot.
\<close>

lemma value_type_numbers:
  "Atoi ''0'' = Inr 0" "Atoi ''3'' = Inr 3" "Itoa 0 = ''0''" "Itoa 3 = ''3''"
  by code_simp+

lemma item_wf_number:
  assumes "item_wf sn k it"
  obtains v where "im_ValueType it = Itoa v" "v = 0 \<or> v = 3"
  using assms value_type_numbers(3,4) by (metis item_wf_def)

lemma group_key_wf:
  assumes "item_wf sn k it" and "hosts_wf sn"
  shows "group_key it = Some (h, v, d) \<longleftrightarrow>
    im_Enabled it \<and> im_HostID it = h \<and> im_ValueType it = Itoa v \<and> (v = 0 \<or> v = 3) \<and> im_Delay it = d"
proof -
  have vt: "im_ValueType it = ''0'' \<or> im_ValueType it = ''3''" and d: "0 < im_Delay it"
    and host: "mget (sn_Hosts sn) (im_HostID it) \<noteq> None" using assms(1) by (simp_all add: item_wf_def)
  then have "im_HostID it \<noteq> []" using assms(2) by (fastforce simp: hosts_wf_def)
  then show ?thesis using vt d by (auto simp: group_key_def value_type_numbers)
qed

lemma item_gid_GroupID: "im_ValueType it = Itoa v \<Longrightarrow> item_gid it = GroupID (im_HostID it) v (im_Delay it)"
  by (simp add: item_gid_def collectionGroupID_def GroupID_def)

lemma whole_div: "0 \<le> s \<Longrightarrow> s * Second < 2 ^ 63 \<Longrightarrow> go_div (s * Second) Second = s"
  by (subst go_div_nonneg) (simp_all add: Second_def)

lemma entry_item:
  assumes "snapshot_wf sn" and "e \<in> set (sn_Items sn)"
  obtains it where "e = (im_ItemID it, Some it)" "item_wf sn (im_ItemID it) it" "mptr (sn_Items sn) (im_ItemID it) = Some it"
proof -
  have iw: "items_wf sn" using assms(1) by (simp add: snapshot_wf_def)
  obtain k p where e: "e = (k, p)" by (cases e)
  have "wf_map (sn_Items sn)" using iw by (simp add: items_wf_def)
  from wf_map_in_iff [OF this] have m: "mget (sn_Items sn) k = Some p" using assms(2) unfolding e by blast
  then obtain it where it: "p = Some it" "item_wf sn k it" using iw unfolding items_wf_def by blast
  then have "im_ItemID it = k" by (simp add: item_wf_def)
  then show thesis using m it by (intro that [of it]) (simp_all add: e mptr_def)
qed

text \<open>For an entry of the snapshot both ways to say that it belongs to a group agree.\<close>

lemma in_group_key:
  assumes wf: "snapshot_wf sn" and whole: "whole_delays sn" and e: "e \<in> set (sn_Items sn)"
    and v: "v = 0 \<or> v = 3" and d: "d = s * Second" "0 \<le> s" "s * Second < 2 ^ 63"
  shows "in_group (GroupID h v d) e \<longleftrightarrow> Option.bind (snd e) group_key = Some (h, v, d)"
proof -
  from entry_item [OF wf e] obtain it where it: "e = (im_ItemID it, Some it)" "item_wf sn (im_ItemID it) it"
    "mptr (sn_Items sn) (im_ItemID it) = Some it" .
  have key: "group_key it = Some (h, v, d) \<longleftrightarrow>
      im_Enabled it \<and> im_HostID it = h \<and> im_ValueType it = Itoa v \<and> im_Delay it = d"
    using group_key_wf [OF it(2)] wf v by (auto simp: snapshot_wf_def)
  obtain v' where v': "im_ValueType it = Itoa v'" by (rule item_wf_number [OF it(2)])
  obtain s' where s': "im_Delay it = s' * Second" "0 \<le> s'" "s' * Second < 2 ^ 63"
    using whole it(3) by (auto simp: whole_delays_def)
  have "item_gid it = GroupID h v d \<longleftrightarrow> im_HostID it = h \<and> im_ValueType it = Itoa v \<and> im_Delay it = d"
  proof
    assume "item_gid it = GroupID h v d"
    then have "GroupID (im_HostID it) v' (im_Delay it) = GroupID h v d" using item_gid_GroupID [OF v'] by simp
    from GroupID_inj [OF this] show "im_HostID it = h \<and> im_ValueType it = Itoa v \<and> im_Delay it = d"
      using v' s' d whole_div by simp
  next
    assume "im_HostID it = h \<and> im_ValueType it = Itoa v \<and> im_Delay it = d"
    then show "item_gid it = GroupID h v d" using item_gid_GroupID [of it v] by simp
  qed
  then show ?thesis using it(1) key by (auto simp: in_group_def)
qed

lemma group_members_items:
  assumes "snapshot_wf sn" "whole_delays sn" "v = 0 \<or> v = 3" "d = s * Second" "0 \<le> s" "s * Second < 2 ^ 63"
  shows "map im_ItemID (group_members (sn_Items sn) (GroupID h v d)) = items_of (sn_Items sn) (h, v, d)"
proof -
  have "filter (in_group (GroupID h v d)) (sn_Items sn)
      = filter (\<lambda>e. Option.bind (snd e) group_key = Some (h, v, d)) (sn_Items sn)"
    by (rule filter_cong [OF refl]) (rule in_group_key [OF assms(1,2) _ assms(3-6)])
  moreover have "im_ItemID (the (snd e)) = fst e" if "e \<in> set (sn_Items sn)" for e
    by (rule entry_item [OF assms(1) that]) simp
  ultimately show ?thesis by (simp add: group_members_def items_of_def)
qed

text \<open>The collection group of the snapshot behind a scheduled group.\<close>

definition agrees :: "MetadataSnapshot \<Rightarrow> Group \<Rightarrow> bool" where
  "agrees sn g \<longleftrightarrow>
     (case mptr (sn_Groups sn) (gr_ID g) of
        None \<Rightarrow> False
      | Some cg \<Rightarrow> cg_ID cg = gr_ID g \<and> cg_HostID cg = gr_HostID g \<and> cg_ValueType cg = Itoa (gr_ValueType g)
          \<and> cg_Delay cg = gr_Delay g \<and> cg_Version cg = gr_Version g
          \<and> cg_ItemIDs cg = concat (map ba_ItemIDs (gr_Batches g)))"

lemma bucket_member:
  assumes wf: "snapshot_wf sn" and whole: "whole_delays sn" and m: "mget (grouped_items sn) (h, v, d) = Some ids"
  obtains it s where "it \<in> set (group_members (sn_Items sn) (GroupID h v d))" "v = 0 \<or> v = 3"
    "d = s * Second" "0 \<le> s" "s * Second < 2 ^ 63"
proof -
  have hw: "hosts_wf sn" and wi: "wf_map (sn_Items sn)" using wf by (simp_all add: snapshot_wf_def items_wf_def)
  note b = group_buckets_distinct [OF wi m]
  obtain k where "k \<in> set ids" using b(2) by (cases ids) auto
  then obtain e where e: "e \<in> set (sn_Items sn)" "Option.bind (snd e) group_key = Some (h, v, d)"
    by (auto simp: b(3) items_of_def)
  from entry_item [OF wf e(1)] obtain it where it: "e = (im_ItemID it, Some it)" "item_wf sn (im_ItemID it) it"
    "mptr (sn_Items sn) (im_ItemID it) = Some it" .
  have gk: "group_key it = Some (h, v, d)" using e(2) it(1) by simp
  then have v: "v = 0 \<or> v = 3" and d: "im_Delay it = d" using group_key_wf [OF it(2) hw] by auto
  obtain s where s: "d = s * Second" "0 \<le> s" "s * Second < 2 ^ 63"
    using whole it(3) d by (auto simp: whole_delays_def)
  have "in_group (GroupID h v d) e" using in_group_key [OF wf whole e(1) v s] e(2) by simp
  then have "it \<in> set (group_members (sn_Items sn) (GroupID h v d))"
    using e(1) it(1) by (force simp: group_members_def)
  then show thesis using v s by (intro that)
qed

lemma build_agrees:
  assumes wf: "snapshot_wf sn" and whole: "whole_delays sn" and n: "0 < n" and g: "g \<in> set (Build n (Some sn))"
  shows "agrees sn g"
proof -
  from g obtain h v d ids where m: "mget (grouped_items sn) (h, v, d) = Some ids"
    and g': "g = build_group n sn ((h, v, d), ids)" unfolding build_set by (metis prod_cases3)
  have wi: "wf_map (sn_Items sn)" and gw: "groups_wf sn" using wf by (simp_all add: snapshot_wf_def items_wf_def)
  note b = group_buckets_distinct [OF wi m]
  let ?gid = "GroupID h v d"
  from bucket_member [OF wf whole m] obtain it s where it: "it \<in> set (group_members (sn_Items sn) ?gid)"
    "v = 0 \<or> v = 3" "d = s * Second" "0 \<le> s" "s * Second < 2 ^ 63" .
  note mem = group_members_items [OF wf whole it(2-), of h]
  have "group_members (sn_Items sn) ?gid \<noteq> []" using it(1) by auto
  then obtain cg where cg: "mget (sn_Groups sn) ?gid = Some (Some cg)" "group_wf ?gid (group_members (sn_Items sn) ?gid) cg"
    using gw unfolding groups_wf_def by meson
  from cg(2) obtain x where x: "x \<in> set (group_members (sn_Items sn) ?gid)" "cg_HostID cg = im_HostID x"
    "cg_ValueType cg = im_ValueType x" "cg_Delay cg = im_Delay x" by (auto simp: group_wf_def)
  from x(1) obtain e where e: "e \<in> set (sn_Items sn)" "in_group ?gid e" "x = the (snd e)"
    by (auto simp: group_members_def)
  from entry_item [OF wf e(1)] obtain y where y: "e = (im_ItemID y, Some y)" "item_wf sn (im_ItemID y) y" .
  have "group_key x = Some (h, v, d)" using in_group_key [OF wf whole e(1) it(2-), of h] e y by simp
  then have head: "im_HostID x = h" "im_ValueType x = Itoa v" "im_Delay x = d"
    using group_key_wf [of sn "im_ItemID x" x h v d] wf y e(3) by (auto simp: snapshot_wf_def)
  have "cg_ItemIDs cg = sort ids" "cg_ID cg = ?gid" using cg(2) mem b(3) by (simp_all add: group_wf_def)
  moreover have "concat (map ba_ItemIDs (gr_Batches g)) = sort ids"
    using concat_chunks [OF n] by (simp add: g' build_group_def Let_def compact_sorted_distinct [OF b(1)] comp_def)
  moreover have "gr_ID g = ?gid" "gr_HostID g = h" "gr_ValueType g = v" "gr_Delay g = d" "gr_Version g = cg_Version cg"
    using cg(1) by (simp_all add: g' build_group_def Let_def mptr_def)
  ultimately show ?thesis using cg(1) head x by (simp add: agrees_def mptr_def)
qed

lemma build_covers:
  assumes wf: "snapshot_wf sn" and whole: "whole_delays sn"
  shows "set (map gr_ID (Build n (Some sn))) = set (mkeys (sn_Groups sn))"
proof (intro set_eqI)
  fix gid
  have hw: "hosts_wf sn" and gw: "groups_wf sn" using wf by (simp_all add: snapshot_wf_def)
  have key: "gid \<in> set (mkeys (sn_Groups sn)) \<longleftrightarrow> group_members (sn_Items sn) gid \<noteq> []"
  proof -
    have "mget (sn_Groups sn) gid \<noteq> None \<longleftrightarrow> group_members (sn_Items sn) gid \<noteq> []"
      using gw unfolding groups_wf_def by (metis option.distinct(1))
    then show ?thesis by (simp only: mget_None_iff not_not)
  qed
  have "gid \<in> set (map gr_ID (Build n (Some sn))) \<longleftrightarrow> (\<exists>h v d ids. mget (grouped_items sn) (h, v, d) = Some ids \<and> gid = GroupID h v d)"
  proof -
    have "gr_ID (build_group n sn ((h, v, d), ids)) = GroupID h v d" for h v d ids
      by (simp add: build_group_def Let_def)
    then show ?thesis unfolding set_map image_iff Bex_def build_set by (metis prod_cases3)
  qed
  also have "\<dots> \<longleftrightarrow> group_members (sn_Items sn) gid \<noteq> []"
  proof
    assume "\<exists>h v d ids. mget (grouped_items sn) (h, v, d) = Some ids \<and> gid = GroupID h v d"
    then show "group_members (sn_Items sn) gid \<noteq> []" using bucket_member [OF wf whole] by (metis empty_iff list.set(1))
  next
    assume "group_members (sn_Items sn) gid \<noteq> []"
    then obtain e where e: "e \<in> set (sn_Items sn)" "in_group gid e"
      by (auto simp: group_members_def filter_empty_conv)
    from entry_item [OF wf e(1)] obtain it where it: "e = (im_ItemID it, Some it)" "item_wf sn (im_ItemID it) it"
      "mptr (sn_Items sn) (im_ItemID it) = Some it" .
    from item_wf_number [OF it(2)] obtain v where v: "im_ValueType it = Itoa v" "v = 0 \<or> v = 3" .
    have on: "im_Enabled it" "item_gid it = gid" using e(2) it(1) by (simp_all add: in_group_def)
    have "group_key it = Some (im_HostID it, v, im_Delay it)" using group_key_wf [OF it(2) hw] v on(1) by blast
    then have "items_of (sn_Items sn) (im_HostID it, v, im_Delay it) \<noteq> []"
      using e(1) it(1) by (auto simp: items_of_def filter_empty_conv intro!: bexI [of _ e])
    then have "mget (grouped_items sn) (im_HostID it, v, im_Delay it) = Some (items_of (sn_Items sn) (im_HostID it, v, im_Delay it))"
      by (simp add: grouped_items(2))
    moreover have "gid = GroupID (im_HostID it) v (im_Delay it)" using item_gid_GroupID [OF v(1)] on(2) by simp
    ultimately show "\<exists>h v d ids. mget (grouped_items sn) (h, v, d) = Some ids \<and> gid = GroupID h v d" by blast
  qed
  finally show "gid \<in> set (map gr_ID (Build n (Some sn))) \<longleftrightarrow> gid \<in> set (mkeys (sn_Groups sn))" using key by simp
qed

section \<open>Built and published snapshots have whole delays\<close>

lemma build_whole_delays:
  assumes "snd (build_metadata lib (NewBuilder labels fallback) now hosts items t) = Inr sn"
    and fb: "Second dvd fallback" "fallback < 2 ^ 63"
  shows "whole_delays sn"
  unfolding whole_delays_def
proof (intro allI impI)
  fix k item
  assume "mptr (sn_Items sn) k = Some item"
  then have "mget (sn_Items sn) k = Some (Some item)" by (auto simp: mptr_def split: option.splits)
  then obtain it where "item = item_metadata lib (NewBuilder labels fallback) (candidate_time now t) (the (known_host sn (it_HostID it))) it"
    using build_metadata_wf [OF assms(1)] by (auto dest!: map_of_SomeD simp: item_entry_def)
  then have "im_Delay item = fst (ParseDelay (it_Delay it) (bd_delayFallback (NewBuilder labels fallback)))"
    by (simp add: item_metadata_sel)
  moreover have "Second dvd Minute" "Minute < 2 ^ 63" by (simp_all add: Second_def Minute_def)
  ultimately have d: "0 < im_Delay item" "Second dvd im_Delay item" "im_Delay item < 2 ^ 63"
    using ParseDelay_outcome [of "bd_delayFallback (NewBuilder labels fallback)" "it_Delay it"] fb
    by (auto simp: delay_outcome_def NewBuilder_def split: if_splits)
  then obtain s where s: "im_Delay item = Second * s" by blast
  then have "0 \<le> s" using d(1) by (simp add: Second_def)
  then show "\<exists>s. 0 \<le> s \<and> s * Second < 2 ^ 63 \<and> im_Delay item = s * Second" using s d(3) by (metis mult.commute)
qed

lemma publish_whole_delays:
  assumes "whole_delays new"
  shows "whole_delays (cloneSnapshot new cur v t)"
  unfolding whole_delays_def
proof (intro allI impI)
  fix k p
  assume "mptr (sn_Items (cloneSnapshot new cur v t)) k = Some p"
  then obtain it where "mptr (sn_Items new) k = Some it" "itemDefinitionsEqual (Some it) (Some p)" by (rule published_item)
  moreover then have "im_Delay p = im_Delay it" by (simp add: itemDefinitionsEqual_def)
  ultimately show "\<exists>s. 0 \<le> s \<and> s * Second < 2 ^ 63 \<and> im_Delay p = s * Second"
    using assms unfolding whole_delays_def by metis
qed

end
