(* ===== verification/Metadata_Refresher.thy ===== *)
theory Metadata_Refresher
  imports Metadata_Versions Go_Lists
begin

text \<open>
  \<^verbatim>\<open>internal/metadata/refresher.go\<close>: one refresh asks for all hosts, asks for their items batch by batch on a
  few workers, builds a candidate from the complete answers and publishes it.  \<^verbatim>\<open>getItemBatches\<close> is a step
  relation between its workers, its result channel and the loop that collects the results, so a theorem
  about \<open>fetch_reachable\<close> covers every interleaving; \<open>reply i\<close> is what the request of batch \<open>i\<close> returns, and
  the parent context may end at any time.  The request timeout and the logging are not modelled.
\<close>

record RefresherConfig =
  rc_RefreshInterval :: duration
  rc_RequestTimeout :: duration
  rc_BatchHosts :: int
  rc_Workers :: int
  rc_MinRequestInterval :: duration
  rc_DelayFallback :: duration
  rc_Labels :: LabelsConfig

definition DefaultRefresherConfig :: RefresherConfig where
  "DefaultRefresherConfig =
     \<lparr>rc_RefreshInterval = 20 * Minute, rc_RequestTimeout = 30 * Second, rc_BatchHosts = 50, rc_Workers = 2,
      rc_MinRequestInterval = 100 * Millisecond, rc_DelayFallback = Minute,
      rc_Labels = \<lparr>lc_Global = [], lc_Host = [], lc_Item = []\<rparr>\<rparr>"

definition refresher_defaults :: "RefresherConfig \<Rightarrow> RefresherConfig" where
  "refresher_defaults cfg =
     (let d = DefaultRefresherConfig in
      cfg\<lparr>rc_RefreshInterval := (if rc_RefreshInterval cfg \<le> 0 then rc_RefreshInterval d else rc_RefreshInterval cfg),
          rc_RequestTimeout := (if rc_RequestTimeout cfg \<le> 0 then rc_RequestTimeout d else rc_RequestTimeout cfg),
          rc_BatchHosts := (if rc_BatchHosts cfg \<le> 0 then rc_BatchHosts d else rc_BatchHosts cfg),
          rc_Workers := (if rc_Workers cfg \<le> 0 then rc_Workers d else rc_Workers cfg),
          rc_MinRequestInterval := (if rc_MinRequestInterval cfg < 0 then 0
             else if rc_MinRequestInterval cfg = 0 then rc_MinRequestInterval d else rc_MinRequestInterval cfg),
          rc_DelayFallback := (if rc_DelayFallback cfg \<le> 0 then rc_DelayFallback d else rc_DelayFallback cfg)\<rparr>)"

definition RefresherConfigFromApp :: "Config option \<Rightarrow> RefresherConfig" where
  "RefresherConfigFromApp app =
     (case app of
        None \<Rightarrow> DefaultRefresherConfig
      | Some app \<Rightarrow>
          (let c = cf_Collector app in
           refresher_defaults
             \<lparr>rc_RefreshInterval = co_MetadataRefreshInterval c, rc_RequestTimeout = co_MetadataRequestTimeout c,
              rc_BatchHosts = co_MetadataBatchHosts c, rc_Workers = co_MetadataWorkers c,
              rc_MinRequestInterval = co_MetadataMinRequestInterval c,
              rc_DelayFallback = co_MetadataDelayFallback c, rc_Labels = cf_Labels app\<rparr>))"

section \<open>Pacing\<close>

text \<open>The reservation \<^verbatim>\<open>requestLimiter.Wait\<close> makes at \<open>now\<close>: when the request may start, and the limiter's
  next free time.  It then waits until the reserved time or the end of its context.\<close>

definition limiter_reserve :: "duration \<Rightarrow> time \<Rightarrow> time \<Rightarrow> time \<times> time" where
  "limiter_reserve interval now freeAt =
     (if interval \<le> 0 then (now, freeAt)
      else let reserved = (if freeAt > now then freeAt else now) in (reserved, time_Add reserved interval))"

section \<open>Batches\<close>

definition splitStrings :: "string list \<Rightarrow> int \<Rightarrow> string list list" where
  "splitStrings values batchSize =
     (if values = [] then []
      else chunks (nat (if batchSize \<le> 0 then int (length values) else batchSize)) values)"

definition validateBatchItems :: "string list \<Rightarrow> Item list \<Rightarrow> go_error option" where
  "validateBatchItems hostIDs items =
     map_option (\<lambda>it. ArgumentError (''item returned for a host outside requested batch: '' @ it_ItemID it))
       (find (\<lambda>it. it_HostID it \<notin> set hostIDs) items)"

record itemBatchResult =
  ib_index :: nat
  ib_items :: "Item list"
  ib_err :: "go_error option"

text \<open>The channels and variables of one call: \<open>ft_jobs\<close> and \<open>ft_results\<close> are the channels, \<open>ft_running\<close> the
  indices workers are requesting, \<open>ft_received\<close> how many results the collecting loop has taken;
  \<open>ft_cancelling\<close> workers have sent a failed result and are about to cancel the others.\<close>

record Fetch =
  ft_jobs :: "nat list"
  ft_running :: "nat list"
  ft_results :: "itemBatchResult list"
  ft_received :: nat
  ft_byBatch :: "Item list list"
  ft_errors :: "go_error option list"
  ft_succeeded :: nat
  ft_cancelled :: bool
  ft_cancelling :: nat

definition fetch_start :: "string list list \<Rightarrow> Fetch" where
  "fetch_start batches =
     \<lparr>ft_jobs = [0..<length batches], ft_running = [], ft_results = [], ft_received = 0,
      ft_byBatch = replicate (length batches) [], ft_errors = replicate (length batches) None,
      ft_succeeded = 0, ft_cancelled = False, ft_cancelling = 0\<rparr>"

definition worker_count :: "int \<Rightarrow> string list list \<Rightarrow> nat" where
  "worker_count workers batches = nat (if workers > int (length batches) then int (length batches) else workers)"

text \<open>What the collecting loop does with the next result.\<close>

definition receive :: "string list list \<Rightarrow> itemBatchResult \<Rightarrow> Fetch \<Rightarrow> Fetch" where
  "receive batches r f =
     (case ib_err r of
        Some err \<Rightarrow> f\<lparr>ft_errors := (ft_errors f)[ib_index r := Some err]\<rparr>
      | None \<Rightarrow>
          (case validateBatchItems (batches ! ib_index r) (ib_items r) of
             Some err \<Rightarrow> f\<lparr>ft_errors := (ft_errors f)[ib_index r := Some err], ft_cancelled := True\<rparr>
           | None \<Rightarrow> f\<lparr>ft_succeeded := Suc (ft_succeeded f),
                       ft_byBatch := (ft_byBatch f)[ib_index r := ib_items r]\<rparr>))"

text \<open>A worker sends a result; after a failed request it then cancels the others, a step of its own.\<close>

definition send_result :: "nat \<Rightarrow> go_error + Item list \<Rightarrow> Fetch \<Rightarrow> Fetch" where
  "send_result i answer f =
     f\<lparr>ft_results := ft_results f @
        [case answer of
           Inl err \<Rightarrow> \<lparr>ib_index = i, ib_items = [], ib_err = Some err\<rparr>
         | Inr items \<Rightarrow> \<lparr>ib_index = i, ib_items = items, ib_err = None\<rparr>]\<rparr>"

definition report :: "nat \<Rightarrow> go_error + Item list \<Rightarrow> Fetch \<Rightarrow> Fetch" where
  "report i answer f =
     send_result i answer
       (f\<lparr>ft_running := remove1 i (ft_running f),
          ft_cancelling := (if isl answer then Suc (ft_cancelling f) else ft_cancelling f)\<rparr>)"

inductive fetch_step :: "nat \<Rightarrow> string list list \<Rightarrow> (nat \<Rightarrow> go_error + Item list) \<Rightarrow> Fetch \<Rightarrow> Fetch \<Rightarrow> bool"
  for workers batches reply where
  Begin: "ft_jobs f = i # jobs \<Longrightarrow> length (ft_running f) + ft_cancelling f < workers \<Longrightarrow> \<not> ft_cancelled f
    \<Longrightarrow> fetch_step workers batches reply f (f\<lparr>ft_jobs := jobs, ft_running := i # ft_running f\<rparr>)"
| Skip: "ft_jobs f = i # jobs \<Longrightarrow> length (ft_running f) + ft_cancelling f < workers \<Longrightarrow> ft_cancelled f
    \<Longrightarrow> fetch_step workers batches reply f (send_result i (Inl err) (f\<lparr>ft_jobs := jobs\<rparr>))"
| Finish: "i \<in> set (ft_running f)
    \<Longrightarrow> fetch_step workers batches reply f (report i (reply i) f)"
| Abort: "i \<in> set (ft_running f) \<Longrightarrow> ft_cancelled f
    \<Longrightarrow> fetch_step workers batches reply f (report i (Inl err) f)"
| Cancel: "ft_cancelling f = Suc n
    \<Longrightarrow> fetch_step workers batches reply f (f\<lparr>ft_cancelling := n, ft_cancelled := True\<rparr>)"
| Receive: "ft_results f = r # rs
    \<Longrightarrow> fetch_step workers batches reply f
          (receive batches r (f\<lparr>ft_results := rs, ft_received := Suc (ft_received f)\<rparr>))"
| Parent: "fetch_step workers batches reply f (f\<lparr>ft_cancelled := True\<rparr>)"

inductive fetch_reachable :: "nat \<Rightarrow> string list list \<Rightarrow> (nat \<Rightarrow> go_error + Item list) \<Rightarrow> Fetch \<Rightarrow> bool"
  for workers batches reply where
  Start: "fetch_reachable workers batches reply (fetch_start batches)"
| Step: "fetch_reachable workers batches reply f \<Longrightarrow> fetch_step workers batches reply f f'
    \<Longrightarrow> fetch_reachable workers batches reply f'"

text \<open>After all results have been received: the first error by index, or all items in batch order.\<close>

definition fetch_outcome :: "Fetch \<Rightarrow> nat \<times> (go_error + Item list)" where
  "fetch_outcome f =
     (ft_succeeded f,
      case find (\<lambda>e. e \<noteq> None) (ft_errors f) of
        Some (Some err) \<Rightarrow> Inl (WrappedError ''refresh item metadata batch'' err)
      | _ \<Rightarrow> Inr (concat (ft_byBatch f)))"

text \<open>The outcomes \<^verbatim>\<open>getItemBatches\<close> can have.\<close>

definition fetches :: "int \<Rightarrow> string list list \<Rightarrow> (nat \<Rightarrow> go_error + Item list) \<Rightarrow> nat \<times> (go_error + Item list) \<Rightarrow> bool" where
  "fetches workers batches reply out \<longleftrightarrow>
     (if batches = [] then out = (0, Inr [])
      else \<exists>f. fetch_reachable (worker_count workers batches) batches reply f
             \<and> ft_received f = length batches \<and> out = fetch_outcome f)"

section \<open>Refresh\<close>

record RefreshResult =
  rr_SnapshotVersion :: nat
  rr_HostCount :: nat
  rr_ItemCount :: nat
  rr_EnabledItemCount :: nat
  rr_GroupCount :: nat
  rr_ItemBatches :: nat
  rr_SucceededBatches :: nat
  rr_DelayFallbacks :: BuildStats
  rr_Diff :: MetadataDiff

definition newRefreshResult :: RefreshResult where
  "newRefreshResult =
     \<lparr>rr_SnapshotVersion = 0, rr_HostCount = 0, rr_ItemCount = 0, rr_EnabledItemCount = 0, rr_GroupCount = 0,
      rr_ItemBatches = 0, rr_SucceededBatches = 0, rr_DelayFallbacks = [], rr_Diff = emptyDiff 0\<rparr>"

definition host_batches :: "RefresherConfig \<Rightarrow> Host list \<Rightarrow> string list list" where
  "host_batches cfg hosts = splitStrings (sort (map ho_HostID hosts)) (rc_BatchHosts cfg)"

text \<open>\<open>getHosts\<close> and \<open>getItemBatches\<close> are the answers of this refresh.\<close>

definition Refresh :: "Lib \<Rightarrow> RefresherConfig \<Rightarrow> time \<Rightarrow> go_error + Host list
    \<Rightarrow> (string list list \<Rightarrow> nat \<times> (go_error + Item list)) \<Rightarrow> Store
    \<Rightarrow> Store \<times> RefreshResult \<times> go_error option" where
  "Refresh lib cfg now getHosts getItemBatches store =
     (case getHosts of
        Inl err \<Rightarrow> (store, newRefreshResult, Some (WrappedError ''refresh host metadata'' err))
      | Inr hosts \<Rightarrow>
          (let batches = host_batches cfg hosts;
               (succeeded, answer) = getItemBatches batches;
               result = newRefreshResult\<lparr>rr_HostCount := length hosts, rr_ItemBatches := length batches,
                          rr_SucceededBatches := succeeded\<rparr> in
           case answer of
             Inl err \<Rightarrow> (store, result, Some err)
           | Inr items \<Rightarrow>
               (let (stats, built) = build_metadata lib (NewBuilder (rc_Labels cfg) (rc_DelayFallback cfg)) now hosts items now;
                    result = result\<lparr>rr_ItemCount := length items, rr_DelayFallbacks := stats\<rparr> in
                case built of
                  Inl err \<Rightarrow> (store, result, Some (WrappedError ''build complete metadata snapshot'' err))
                | Inr candidate \<Rightarrow>
                    (let (store, diff) = ApplySnapshot now store (Some candidate)
                     in (store,
                         result\<lparr>rr_EnabledItemCount := length (filter (\<lambda>e. case snd e of None \<Rightarrow> False | Some it \<Rightarrow> im_Enabled it)
                                     (sn_Items candidate)),
                                rr_GroupCount := length (sn_Groups candidate),
                                rr_Diff := diff, rr_SnapshotVersion := df_NewVersion diff\<rparr>, None)))))"

end
