(* ===== verification/Refresh_Laws.thy ===== *)
theory Refresh_Laws
  imports Metadata_Refresher
begin

text \<open>
  The concurrent fetching of item batches: whatever the interleaving of the workers, a success is the
  concatenation of all valid answers in batch order, and no state is stuck before all results are in.
\<close>

section \<open>The invariant of a fetch\<close>

definition batch_valid :: "string list list \<Rightarrow> nat \<Rightarrow> Item list \<Rightarrow> bool" where
  "batch_valid batches i items \<longleftrightarrow> validateBatchItems (batches ! i) items = None"

text \<open>\<open>taken\<close> are the indices whose result the collecting loop has received.\<close>

definition fetch_inv :: "nat \<Rightarrow> string list list \<Rightarrow> (nat \<Rightarrow> go_error + Item list) \<Rightarrow> nat list \<Rightarrow> Fetch \<Rightarrow> bool" where
  "fetch_inv workers batches reply taken f \<longleftrightarrow>
     mset (ft_jobs f @ ft_running f @ map ib_index (ft_results f) @ taken) = mset [0..<length batches]
     \<and> length taken = ft_received f \<and> length (ft_running f) + ft_cancelling f \<le> workers
     \<and> length (ft_byBatch f) = length batches \<and> length (ft_errors f) = length batches
     \<and> (\<forall>r \<in> set (ft_results f). ib_err r = None \<longrightarrow> reply (ib_index r) = Inr (ib_items r))
     \<and> (\<forall>i < length batches. ft_errors f ! i = None \<longrightarrow> i \<in> set taken \<longrightarrow>
          reply i = Inr (ft_byBatch f ! i) \<and> batch_valid batches i (ft_byBatch f ! i))
     \<and> (\<forall>i < length batches. i \<notin> set taken \<longrightarrow> ft_errors f ! i = None)
     \<and> ft_succeeded f = length (filter (\<lambda>i. ft_errors f ! i = None) taken)"

lemma fetch_inv_length:
  "fetch_inv workers batches reply taken f \<Longrightarrow>
     length (ft_jobs f) + length (ft_running f) + length (ft_results f) + ft_received f = length batches"
proof -
  assume inv: "fetch_inv workers batches reply taken f"
  then have m: "mset (ft_jobs f @ ft_running f @ map ib_index (ft_results f) @ taken) = mset [0..<length batches]"
    and t: "length taken = ft_received f"
    unfolding fetch_inv_def by blast+
  from mset_eq_length [OF m] t show ?thesis by simp
qed

lemma fetch_start_inv: "fetch_inv workers batches reply [] (fetch_start batches)"
  by (simp add: fetch_inv_def fetch_start_def)

lemma send_result_inv:
  assumes inv: "fetch_inv workers batches reply taken f"
    and g: "mset (ft_jobs g) + mset (ft_running g) + {#i#} = mset (ft_jobs f) + mset (ft_running f)"
      "length (ft_running g) + ft_cancelling g \<le> workers"
      "ft_results g = ft_results f" "ft_received g = ft_received f" "ft_byBatch g = ft_byBatch f"
      "ft_errors g = ft_errors f" "ft_succeeded g = ft_succeeded f"
    and answer: "answer = reply i \<or> isl answer"
  shows "fetch_inv workers batches reply taken (send_result i answer g)"
proof -
  define x where "x = (case answer of
           Inl err \<Rightarrow> \<lparr>ib_index = i, ib_items = [], ib_err = Some err\<rparr>
         | Inr items \<Rightarrow> \<lparr>ib_index = i, ib_items = items, ib_err = None\<rparr>)"
  have x: "ib_index x = i" "ib_err x = None \<longrightarrow> reply i = Inr (ib_items x)"
    using answer by (auto simp: x_def split: sum.splits)
  have m: "mset (ft_jobs f) + mset (ft_running f) + image_mset ib_index (mset (ft_results f)) + mset taken
      = mset [0..<length batches]"
    using inv by (simp add: fetch_inv_def ac_simps)
  have "mset (ft_jobs g @ ft_running g @ map ib_index (ft_results f @ [x]) @ taken)
      = (mset (ft_jobs g) + mset (ft_running g) + {#i#}) + image_mset ib_index (mset (ft_results f)) + mset taken"
    using x(1) by (simp add: ac_simps)
  also have "\<dots> = mset [0..<length batches]" unfolding g(1) by (rule m)
  finally have m': "mset (ft_jobs g @ ft_running g @ map ib_index (ft_results f @ [x]) @ taken) = mset [0..<length batches]" .
  have "\<forall>r \<in> set (ft_results f). ib_err r = None \<longrightarrow> reply (ib_index r) = Inr (ib_items r)"
    using inv by (simp add: fetch_inv_def)
  then have "\<forall>r \<in> set (ft_results f @ [x]). ib_err r = None \<longrightarrow> reply (ib_index r) = Inr (ib_items r)"
    using x by auto
  moreover have "send_result i answer g = g\<lparr>ft_results := ft_results f @ [x]\<rparr>"
    by (simp add: send_result_def x_def g(3))
  moreover have "fetch_inv workers batches reply taken (g\<lparr>ft_results := rs\<rparr>)"
    if "mset (ft_jobs g @ ft_running g @ map ib_index rs @ taken) = mset [0..<length batches]"
      "\<forall>r \<in> set rs. ib_err r = None \<longrightarrow> reply (ib_index r) = Inr (ib_items r)" for rs
  proof -
    let ?g = "g\<lparr>ft_results := rs\<rparr>"
    have sel: "ft_jobs ?g = ft_jobs g" "ft_running ?g = ft_running g" "ft_results ?g = rs"
      "ft_received ?g = ft_received f" "ft_byBatch ?g = ft_byBatch f" "ft_errors ?g = ft_errors f"
      "ft_succeeded ?g = ft_succeeded f" "ft_cancelling ?g = ft_cancelling g" using g by simp_all
    show ?thesis unfolding fetch_inv_def sel
      by (intro conjI that g(2)) (insert inv [unfolded fetch_inv_def], blast+)
  qed
  ultimately show ?thesis using m' by (simp only:)
qed

lemma report_inv:
  assumes inv: "fetch_inv workers batches reply taken f" and i: "i \<in> set (ft_running f)"
    and answer: "answer = reply i \<or> isl answer"
  shows "fetch_inv workers batches reply taken (report i answer f)"
  unfolding report_def
proof (rule send_result_inv [OF inv _ _ _ _ _ _ _ answer])
  have "length (ft_running f) + ft_cancelling f \<le> workers" using inv by (simp add: fetch_inv_def)
  moreover have "0 < length (ft_running f)" using i by (cases "ft_running f") auto
  ultimately show "length (ft_running (f\<lparr>ft_running := remove1 i (ft_running f),
          ft_cancelling := if isl answer then Suc (ft_cancelling f) else ft_cancelling f\<rparr>))
      + ft_cancelling (f\<lparr>ft_running := remove1 i (ft_running f),
          ft_cancelling := if isl answer then Suc (ft_cancelling f) else ft_cancelling f\<rparr>) \<le> workers"
    using i by (cases "isl answer") (auto simp: length_remove1 simp del: length_greater_0_conv)
qed (use i in simp_all)

lemma receive_inv:
  assumes inv: "fetch_inv workers batches reply taken f" and r: "ft_results f = r # rs"
  shows "fetch_inv workers batches reply (ib_index r # taken)
    (receive batches r (f\<lparr>ft_results := rs, ft_received := Suc (ft_received f)\<rparr>))"
proof -
  let ?i = "ib_index r"
  have m: "mset (ft_jobs f @ ft_running f @ map ib_index (ft_results f) @ taken) = mset [0..<length batches]"
    using inv by (simp add: fetch_inv_def)
  have "distinct (ft_jobs f @ ft_running f @ map ib_index (ft_results f) @ taken)"
    using mset_eq_imp_distinct_iff [OF m] by simp
  then have new: "?i \<notin> set taken" using r by auto
  have lt: "?i < length batches" using mset_eq_setD [OF m] r by auto
  have m': "mset (ft_jobs f @ ft_running f @ map ib_index rs @ ?i # taken) = mset [0..<length batches]"
    using m r by simp
  have other: "filter (\<lambda>j. (ft_errors f)[?i := x] ! j = None) taken = filter (\<lambda>j. ft_errors f ! j = None) taken" for x
    using new by (intro filter_cong [OF refl]) (metis nth_list_update_neq)
  have none: "ft_errors f ! ?i = None" using inv new lt by (simp add: fetch_inv_def)
  have len: "length (ft_byBatch f) = length batches" "length (ft_errors f) = length batches"
    using inv by (simp_all add: fetch_inv_def)
  have rest: "\<forall>r \<in> set rs. ib_err r = None \<longrightarrow> reply (ib_index r) = Inr (ib_items r)"
    using inv r by (simp add: fetch_inv_def)
  have got: "\<forall>i < length batches. ft_errors f ! i = None \<longrightarrow> i \<in> set taken \<longrightarrow>
      reply i = Inr (ft_byBatch f ! i) \<and> batch_valid batches i (ft_byBatch f ! i)"
    and out: "\<forall>i < length batches. i \<notin> set taken \<longrightarrow> ft_errors f ! i = None"
    and cnt: "ft_succeeded f = length (filter (\<lambda>i. ft_errors f ! i = None) taken)"
    and tk: "length taken = ft_received f" "length (ft_running f) + ft_cancelling f \<le> workers"
    using inv by (simp_all add: fetch_inv_def)
  have failed: "fetch_inv workers batches reply (?i # taken)
      (f\<lparr>ft_results := rs, ft_received := Suc (ft_received f), ft_errors := (ft_errors f)[?i := Some err], ft_cancelled := c\<rparr>)" for err c
  proof -
    have n: "length (filter (\<lambda>j. (ft_errors f)[?i := Some err] ! j = None) (?i # taken)) = ft_succeeded f"
      using lt len unfolding cnt filter.simps other by simp
    show ?thesis unfolding fetch_inv_def using m' rest got out tk len lt new n
      by (auto simp: nth_list_update simp del: filter.simps)
  qed
  show ?thesis
  proof (cases "ib_err r")
    case (Some err)
    then show ?thesis using failed [where err = err and c = "ft_cancelled f"] by (simp add: receive_def)
  next
    case None
    then have reply: "reply ?i = Inr (ib_items r)" using inv r by (simp add: fetch_inv_def)
    show ?thesis
    proof (cases "validateBatchItems (batches ! ?i) (ib_items r)")
      case (Some err)
      then show ?thesis using failed [where err = err and c = True] None by (simp add: receive_def)
    next
      case ok: None
      have "fetch_inv workers batches reply (?i # taken)
          (f\<lparr>ft_results := rs, ft_received := Suc (ft_received f), ft_succeeded := Suc (ft_succeeded f),
             ft_byBatch := (ft_byBatch f)[?i := ib_items r]\<rparr>)"
        unfolding fetch_inv_def using m' rest got out cnt tk len lt new reply ok none
        by (auto simp: nth_list_update batch_valid_def)
      then show ?thesis using None ok by (simp add: receive_def)
    qed
  qed
qed

lemma fetch_step_inv:
  assumes "fetch_inv workers batches reply taken f" and "fetch_step workers batches reply f f'"
  shows "\<exists>taken. fetch_inv workers batches reply taken f'"
  using assms(2)
proof cases
  case (Begin i jobs)
  then have "fetch_inv workers batches reply taken f'" using assms(1) by (auto simp: fetch_inv_def ac_simps)
  then show ?thesis ..
next
  case (Skip i jobs err)
  have "fetch_inv workers batches reply taken f'" unfolding Skip(1)
    by (rule send_result_inv [OF assms(1)]) (use Skip(2,3) in simp_all)
  then show ?thesis ..
next
  case (Finish i)
  then show ?thesis using report_inv [OF assms(1)] by blast
next
  case (Abort i err)
  then show ?thesis using report_inv [OF assms(1) Abort(2), of "Inl err"] by auto
next
  case (Cancel n)
  then have "fetch_inv workers batches reply taken f'" using assms(1) by (simp add: fetch_inv_def)
  then show ?thesis ..
next
  case (Receive r rs)
  then show ?thesis using receive_inv [OF assms(1) Receive(2)] by blast
next
  case Parent
  then have "fetch_inv workers batches reply taken f'" using assms(1) by (simp add: fetch_inv_def)
  then show ?thesis ..
qed

lemma fetch_reachable_inv:
  "fetch_reachable workers batches reply f \<Longrightarrow> \<exists>taken. fetch_inv workers batches reply taken f"
proof (induction rule: fetch_reachable.induct)
  case Start
  then show ?case using fetch_start_inv by blast
next
  case (Step f f')
  then show ?case using fetch_step_inv by blast
qed

section \<open>Outcomes\<close>

lemma fetched_all:
  assumes inv: "fetch_inv workers batches reply taken f" and all: "ft_received f = length batches"
    and ok: "fetch_outcome f = (n, Inr items)"
  shows "n = length batches \<and> items = concat (ft_byBatch f)
    \<and> (\<forall>i < length batches. reply i = Inr (ft_byBatch f ! i) \<and> batch_valid batches i (ft_byBatch f ! i))"
proof -
  have len: "length (ft_errors f) = length batches" using inv by (simp add: fetch_inv_def)
  have "ft_jobs f = [] \<and> ft_running f = [] \<and> ft_results f = []"
    using fetch_inv_length [OF inv] all by simp
  then have taken: "mset taken = mset [0..<length batches]" using inv by (simp add: fetch_inv_def)
  have "find (\<lambda>e. e \<noteq> None) (ft_errors f) = None"
  proof (rule ccontr)
    assume "find (\<lambda>e. e \<noteq> None) (ft_errors f) \<noteq> None"
    then obtain e where e: "find (\<lambda>e. e \<noteq> None) (ft_errors f) = Some e" by blast
    then have "e \<noteq> None" by (auto simp: find_Some_iff)
    then show False using ok e by (auto simp: fetch_outcome_def)
  qed
  then have none: "ft_errors f ! i = None" if "i < length batches" for i
    using that len by (auto simp: find_None_iff)
  have set: "i \<in> set taken \<longleftrightarrow> i < length batches" for i using mset_eq_setD [OF taken] by simp
  have "filter (\<lambda>i. ft_errors f ! i = None) taken = taken" using none set by (simp add: filter_id_conv)
  then have "ft_succeeded f = length batches" using inv mset_eq_length [OF taken] by (simp add: fetch_inv_def)
  moreover have "items = concat (ft_byBatch f)" "n = ft_succeeded f"
    using ok \<open>find (\<lambda>e. e \<noteq> None) (ft_errors f) = None\<close> by (simp_all add: fetch_outcome_def)
  moreover have "\<forall>i < length batches. reply i = Inr (ft_byBatch f ! i) \<and> batch_valid batches i (ft_byBatch f ! i)"
    using inv none set unfolding fetch_inv_def by blast
  ultimately show ?thesis by simp
qed

lemma fetches_success:
  assumes "fetches workers batches reply (n, Inr items)"
  shows "n = length batches \<and> (\<exists>answers. length answers = length batches \<and> items = concat answers
    \<and> (\<forall>i < length batches. reply i = Inr (answers ! i) \<and> batch_valid batches i (answers ! i)))"
proof (cases "batches = []")
  case True
  then show ?thesis using assms by (simp add: fetches_def)
next
  case False
  then obtain f where f: "fetch_reachable (worker_count workers batches) batches reply f"
    "ft_received f = length batches" "fetch_outcome f = (n, Inr items)"
    using assms by (auto simp: fetches_def)
  from fetch_reachable_inv [OF f(1)] obtain taken where inv: "fetch_inv (worker_count workers batches) batches reply taken f" ..
  from fetched_all [OF inv f(2,3)] inv show ?thesis by (auto simp: fetch_inv_def)
qed

text \<open>No deadlock: before all results are received some step other than the parent's end is possible, and
  each such step brings the call closer to its end.\<close>

definition fetch_todo :: "Fetch \<Rightarrow> nat" where
  "fetch_todo f = 4 * length (ft_jobs f) + 3 * length (ft_running f) + length (ft_results f) + ft_cancelling f"

lemma receive_sel [simp]:
  "ft_jobs (receive batches r f) = ft_jobs f" "ft_running (receive batches r f) = ft_running f"
  "ft_results (receive batches r f) = ft_results f" "ft_cancelling (receive batches r f) = ft_cancelling f"
  "ft_received (receive batches r f) = ft_received f"
  by (simp_all add: receive_def split: option.split)

lemma send_result_sel [simp]:
  "ft_jobs (send_result i a f) = ft_jobs f" "ft_running (send_result i a f) = ft_running f"
  "length (ft_results (send_result i a f)) = Suc (length (ft_results f))"
  "ft_received (send_result i a f) = ft_received f" "ft_cancelling (send_result i a f) = ft_cancelling f"
  by (simp_all add: send_result_def)

lemma fetch_progress:
  assumes inv: "fetch_inv workers batches reply taken f" and w: "0 < workers" and "ft_received f < length batches"
  shows "\<exists>f'. fetch_step workers batches reply f f' \<and> fetch_todo f' < fetch_todo f"
proof -
  have "ft_jobs f \<noteq> [] \<or> ft_running f \<noteq> [] \<or> ft_results f \<noteq> []"
    using fetch_inv_length [OF inv] assms(3) by auto
  then consider (stop) n where "ft_cancelling f = Suc n" | (res) r rs where "ft_results f = r # rs" | (run) i ris where "ft_running f = i # ris"
    | (jobs) i jobs where "ft_jobs f = i # jobs" "ft_running f = []" "ft_cancelling f = 0"
    by (meson list.exhaust not0_implies_Suc)
  then show ?thesis
  proof cases
    case stop
    show ?thesis
      by (intro exI conjI, rule fetch_step.Cancel [OF stop]) (simp add: fetch_todo_def stop)
  next
    case res
    show ?thesis
      by (intro exI conjI, rule fetch_step.Receive [OF res]) (simp add: fetch_todo_def res)
  next
    case run
    show ?thesis
      by (intro exI conjI, rule fetch_step.Finish [of i]) (simp_all add: fetch_todo_def report_def run)
  next
    case jobs
    show ?thesis
    proof (cases "ft_cancelled f")
      case True
      show ?thesis
        by (intro exI conjI, rule fetch_step.Skip [OF jobs(1) _ True]) (use w in \<open>simp_all add: fetch_todo_def jobs\<close>)
    next
      case False
      show ?thesis
        by (intro exI conjI, rule fetch_step.Begin [OF jobs(1) _ False]) (use w in \<open>simp_all add: fetch_todo_def jobs\<close>)
    qed
  qed
qed

lemma fetch_step_todo:
  assumes "fetch_step workers batches reply f f'"
  shows "f' = f\<lparr>ft_cancelled := True\<rparr> \<or> fetch_todo f' < fetch_todo f"
  using assms
proof cases
  case (Finish i)
  then obtain m where "length (ft_running f) = Suc m" by (cases "ft_running f") auto
  then show ?thesis using Finish by (auto simp: fetch_todo_def report_def length_remove1)
next
  case (Abort i err)
  then obtain m where "length (ft_running f) = Suc m" by (cases "ft_running f") auto
  then show ?thesis using Abort by (auto simp: fetch_todo_def report_def length_remove1)
qed (auto simp: fetch_todo_def)

end
