(* ===== verification/Metadata_Properties.thy ===== *)
theory Metadata_Properties
  imports Group_Agreement Refresh_Laws
begin

text \<open>What the metadata side of the exporter guarantees, with two hosts and three items to evaluate.\<close>

section \<open>A small answer\<close>

definition mx_lib :: Lib where
  "mx_lib = \<lparr>lib_decode = (\<lambda>s. None), lib_inventory = (\<lambda>obj. None), lib_number = (\<lambda>s. s), lib_lower = ascii_lower\<rparr>"

definition mx_labels :: LabelsConfig where
  "mx_labels = \<lparr>lc_Global = [(''site'', ''fra'')], lc_Host = [], lc_Item = [(''os'', ''{{ inventory.os }}'')]\<rparr>"

definition mx_host :: "string \<Rightarrow> Host" where
  "mx_host k = \<lparr>ho_HostID = k, ho_Host = ''db'', ho_Name = ''database'',
     ho_Interfaces = [\<lparr>if_InterfaceID = ''1'', if_IP = ''10.0.0.1'', if_DNS = [], if_Port = ''10050'',
       if_Type = ''1'', if_Main = ''1'', if_UseIP = ''1'', if_Bulk = ''1''\<rparr>],
     ho_Inventory = JObject [(''OS'', JString ''Linux'')]\<rparr>"

definition mx_item :: "string \<Rightarrow> string \<Rightarrow> string \<Rightarrow> string \<Rightarrow> Item" where
  "mx_item k host valueType delay = \<lparr>it_ItemID = k, it_HostID = host, it_Key = ''net.if.in[eth0]'', it_Name = ''in'',
     it_Description = [], it_ValueType = valueType, it_Delay = delay, it_Status = ''0'', it_State = []\<rparr>"

definition mx_hosts :: "Host list" where "mx_hosts = [mx_host ''2'', mx_host ''1'']"

definition mx_items :: "Item list" where
  "mx_items = [mx_item ''7'' ''1'' ''0'' ''30s'', mx_item ''8'' ''1'' ''0'' ''30'', mx_item ''9'' ''2'' ''3'' ''{$SLOW}'']"

lemma mx_valid: "valid_hosts mx_hosts" "valid_items (ho_HostID ` set mx_hosts) mx_items"
  by (simp_all add: valid_hosts_def valid_items_def mx_hosts_def mx_items_def mx_host_def mx_item_def)

lemma mx_built: "\<exists>sn. snd (build_metadata mx_lib b now mx_hosts mx_items t) = Inr sn"
  using mx_valid by (simp add: build_metadata_iff)

section \<open>Intervals\<close>

text \<open>A written interval, a positive number with one of the units of the server, is read back exactly, as long as
  it fits a duration.\<close>

theorem parse_delay_written:
  assumes "0 < n" and "u \<in> {[], ''s'', ''m'', ''h'', ''d'', ''w''}" and "delay_multiplier u = Some m"
    and "n * m < 2 ^ 63"
  shows "ParseDelay (Itoa n @ u) fallback = (n * m, DelayParsed)"
  by (rule ParseDelay_Itoa [OF assms])

lemma parse_delay_written_witness: "ParseDelay (Itoa 90 @ ''s'') 0 = (90 * Second, DelayParsed)"
proof -
  have "delay_multiplier ''s'' = Some Second" by (simp add: delay_multiplier_def)
  then show ?thesis by (intro parse_delay_written) (simp_all add: Second_def)
qed

section \<open>Building\<close>

text \<open>C27: The builder accepts exactly the valid answers: no empty or repeated identifier, every item on a known host and
  numeric. What it builds is a well-formed snapshot of exactly these hosts and items: its maps agree with each other
  and its collection groups partition the enabled items.\<close>

theorem build_metadata_valid:
  "case snd (build_metadata lib b now hosts items createdAt) of
     Inl err \<Rightarrow> \<not> (valid_hosts hosts \<and> valid_items (ho_HostID ` set hosts) items)
   | Inr sn \<Rightarrow> valid_hosts hosts \<and> valid_items (ho_HostID ` set hosts) items \<and> snapshot_wf sn
       \<and> sn_Hosts sn = map (\<lambda>h. (ho_HostID h, Some (host_metadata lib b (sn_CreatedAt sn) h))) hosts
       \<and> mkeys (sn_Items sn) = map it_ItemID items"
proof (cases "snd (build_metadata lib b now hosts items createdAt)")
  case (Inl err)
  then have "\<not> (\<exists>sn. snd (build_metadata lib b now hosts items createdAt) = Inr sn)" by simp
  then show ?thesis using Inl unfolding build_metadata_iff by simp
next
  case (Inr sn)
  have t: "sn_CreatedAt sn = candidate_time now createdAt" using build_metadata_created [OF Inr] .
  note wf = build_metadata_wf [OF Inr]
  have "mkeys (map (item_entry lib b (candidate_time now createdAt) sn) items) = map it_ItemID items"
    by (simp add: item_entry_def comp_def)
  moreover have "valid_hosts hosts" "valid_items (ho_HostID ` set hosts) items"
    using Inr unfolding build_metadata_iff by blast+
  ultimately show ?thesis using Inr wf t by (simp add: host_entry_def [abs_def] del: map_map)
qed

section \<open>Publication\<close>

text \<open>C29: A version stands for one definition: when a store that went on from \<open>s\<close> holds an item with a version no newer
  than \<open>s\<close>, then \<open>s\<close> held that item with the same version and an equal definition.\<close>

theorem version_identifies_definition:
  assumes "store_run NewStore s" and "store_run s t"
    and "mptr (sn_Items t) k = Some new" and "im_Version new \<le> sn_Version s"
  shows "\<exists>old. mptr (sn_Items s) k = Some old \<and> im_Version old = im_Version new
    \<and> itemDefinitionsEqual (Some old) (Some new)"
proof -
  have "versions_ok s" using store_run_continues [OF assms(1) NewStore_versions] ..
  from store_run_continues [OF assms(2) this] assms(3,4) show ?thesis by (simp add: continues_def)
qed

definition mx_definition :: ItemMetadata where
  "mx_definition = \<lparr>im_ItemID = ''7'', im_HostID = ''1'', im_Key = ''cpu'', im_Name = ''cpu'', im_ValueType = ''0'',
      im_RawDelay = ''30s'', im_Delay = 30 * Second, im_DelayParseState = DelayParsed, im_Status = ''0'',
      im_State = ''0'', im_Enabled = True, im_MetricName = ''cpu'', im_Labels = [], im_RefreshedAt = 0, im_Version = 0\<rparr>"

definition mx_snapshot :: "string \<Rightarrow> MetadataSnapshot" where
  "mx_snapshot extra = emptySnapshot\<lparr>sn_CreatedAt := 3,
     sn_Items := [(''7'', Some mx_definition), (extra, Some (mx_definition\<lparr>im_ItemID := extra\<rparr>))]\<rparr>"

definition mx_first :: Store where "mx_first = fst (ApplySnapshot 5 NewStore (Some (mx_snapshot ''8'')))"

definition mx_second :: Store where "mx_second = fst (ApplySnapshot 6 mx_first (Some (mx_snapshot ''9'')))"

lemma version_identifies_definition_witness:
  "\<exists>old. mptr (sn_Items mx_first) ''7'' = Some old \<and> im_Version old = 1
     \<and> itemDefinitionsEqual (Some old) (mptr (sn_Items mx_second) ''7'')"
proof -
  have v1: "sn_Version mx_first = 1"
    by (simp add: mx_first_def NewStore_def emptySnapshot_def ApplySnapshot_def cloneSnapshot_def Let_def inc64_def)
  have "store_run NewStore mx_first" unfolding mx_first_def
    by (rule store_run.Apply [OF store_run.Start]) (simp add: NewStore_def emptySnapshot_def)
  moreover have "store_run mx_first mx_second" unfolding mx_second_def
    by (rule store_run.Apply [OF store_run.Start]) (simp add: v1)
  moreover have "mptr (sn_Items mx_second) ''7'' = Some (mx_definition\<lparr>im_RefreshedAt := 3, im_Version := 1\<rparr>)"
    by (simp add: mx_second_def mx_first_def NewStore_def emptySnapshot_def ApplySnapshot_def cloneSnapshot_def Let_def
        inc64_def mx_snapshot_def mptr_def publish_item_def cloneItem_def itemDefinitionsEqual_def mx_definition_def time_IsZero_def)
  ultimately show ?thesis using version_identifies_definition [of mx_first mx_second "''7''"] v1 by fastforce
qed

section \<open>The two groupings\<close>



section \<open>Refreshing\<close>


definition mx_config :: RefresherConfig where
  "mx_config = DefaultRefresherConfig\<lparr>rc_Labels := mx_labels\<rparr>"

definition mx_reply :: "nat \<Rightarrow> go_error + Item list" where "mx_reply i = Inr mx_items"

lemma mx_batches: "host_batches mx_config mx_hosts = [[''1'', ''2'']]"
proof -
  have "sort (map ho_HostID mx_hosts) = [''1'', ''2'']" by code_simp
  then show ?thesis
    by (simp add: host_batches_def splitStrings_def mx_config_def DefaultRefresherConfig_def chunks.simps)
qed

lemma mx_fetched: "fetches 2 [[''1'', ''2'']] mx_reply (1, Inr mx_items)"
proof -
  let ?b = "[[''1'', ''2'']]"
  let ?f = "fetch_start ?b"
  let ?g = "?f\<lparr>ft_jobs := [], ft_running := [0]\<rparr>"
  let ?h = "report 0 (mx_reply 0) ?g"
  let ?r = "\<lparr>ib_index = 0, ib_items = mx_items, ib_err = None\<rparr>"
  let ?k = "receive ?b ?r (?h\<lparr>ft_results := [], ft_received := Suc (ft_received ?h)\<rparr>)"
  have "fetch_reachable 1 ?b mx_reply ?f" by (rule fetch_reachable.Start)
  moreover have "fetch_step 1 ?b mx_reply ?f ?g"
    using fetch_step.Begin [of ?f 0 "[]" 1 ?b mx_reply] by (simp add: fetch_start_def)
  moreover have "fetch_step 1 ?b mx_reply ?g ?h" by (rule fetch_step.Finish) simp
  moreover have "fetch_step 1 ?b mx_reply ?h ?k"
    by (rule fetch_step.Receive) (simp add: report_def send_result_def mx_reply_def fetch_start_def)
  ultimately have k: "fetch_reachable 1 ?b mx_reply ?k"
    by (intro fetch_reachable.Step [of 1 ?b mx_reply ?h ?k] fetch_reachable.Step [of 1 ?b mx_reply ?g ?h]
        fetch_reachable.Step [of 1 ?b mx_reply ?f ?g])
  have "validateBatchItems [''1'', ''2''] mx_items = None"
    by (simp add: validateBatchItems_def mx_items_def mx_item_def)
  then have "ft_received ?k = 1 \<and> fetch_outcome ?k = (1, Inr mx_items)"
    by (simp add: receive_def report_def send_result_def mx_reply_def fetch_start_def fetch_outcome_def)
  then show ?thesis using k by (auto simp: fetches_def worker_count_def intro!: exI [of _ ?k])
qed


text \<open>C30: The concurrent fetch cannot get stuck: until the collecting loop has all results some step brings it closer, and
  every step but the end of the parent context does.\<close>

theorem fetch_never_stuck:
  assumes "fetch_reachable workers batches reply f" and "0 < workers"
  shows "(ft_received f = length batches
      \<or> (\<exists>f'. fetch_step workers batches reply f f' \<and> fetch_todo f' < fetch_todo f))
    \<and> (\<forall>f'. \<not> fetch_step workers batches reply f f' \<or> f' = f\<lparr>ft_cancelled := True\<rparr> \<or> fetch_todo f' < fetch_todo f)"
proof -
  from fetch_reachable_inv [OF assms(1)] obtain taken where inv: "fetch_inv workers batches reply taken f" ..
  have "ft_received f \<le> length batches" using fetch_inv_length [OF inv] by simp
  then show ?thesis using fetch_progress [OF inv assms(2)] fetch_step_todo [of workers batches reply f] by fastforce
qed

lemma fetch_never_stuck_witness:
  "\<exists>f'. fetch_step 1 [[''1'']] mx_reply (fetch_start [[''1'']]) f' \<and> fetch_todo f' < fetch_todo (fetch_start [[''1'']])"
  using fetch_never_stuck [OF fetch_reachable.Start, of 1 "[[''1'']]" mx_reply] by (simp add: fetch_start_def)

end
