(* ===== verification/Remote_Write.thy ===== *)
theory Remote_Write
  imports Cache_Types Metadata_Types
begin

text \<open>
  \<^verbatim>\<open>internal/promwrap/batch_encoder.go\<close> and the delivery half of \<^verbatim>\<open>internal/promwrap/push_worker.go\<close>: samples
  are gathered into size-bounded batches, and a batch is sent with bounded retries.  The wire format
  (protobuf marshalling and snappy, both libraries) is a \<open>Wire\<close>; a byte slice is a \<open>string\<close>.  The HTTP
  exchange of attempt \<open>n\<close> is the answer \<open>exchange n\<close>, the wait before the next one \<open>wait n delay\<close>.
\<close>

record publishKey =
  pk_seriesID :: string
  pk_generation :: nat
  pk_timestampMS :: int

record encodeSeries =
  es_seriesID :: string
  es_labels :: "Label list"
  es_value :: float64
  es_timestamp :: time
  es_ack :: "PublishAck option"
  es_key :: publishKey

record encodedBatch =
  eb_body :: string
  eb_acks :: "PublishAck list"
  eb_keys :: "publishKey list"
  eb_policy :: PublishPolicy
  eb_slot :: nat
  eb_cycleTimestampMS :: int
  eb_lane :: nat
  eb_samples :: nat
  eb_uncompressedBytes :: nat
  eb_compressedBytes :: nat

text \<open>\<^verbatim>\<open>prompb.TimeSeries\<close> with the one sample the encoder gives it.\<close>

record TimeSeries =
  ts_Labels :: "Label list"
  ts_Value :: float64
  ts_Timestamp :: int

record Wire =
  wi_Size :: "TimeSeries \<Rightarrow> nat"
  wi_Marshal :: "TimeSeries list \<Rightarrow> go_error + string"
  wi_Snappy :: "string \<Rightarrow> string"

section \<open>Encoding\<close>

record batchEncoder =
  be_maxSamples :: int
  be_maxBytes :: int

definition newBatchEncoder :: "int \<Rightarrow> int \<Rightarrow> go_error + batchEncoder" where
  "newBatchEncoder maxSamples maxBytes =
     (if maxSamples \<le> 0 then Inl (InvalidConfig ''max samples per send must be positive'')
      else if maxBytes \<le> 0 then Inl (InvalidConfig ''max batch bytes must be positive'')
      else Inr \<lparr>be_maxSamples = maxSamples, be_maxBytes = maxBytes\<rparr>)"

record batchBuilder =
  bb_encoder :: batchEncoder
  bb_policy :: PublishPolicy
  bb_slot :: nat
  bb_cycleMS :: int
  bb_lane :: nat
  bb_series :: "TimeSeries list"
  bb_acks :: "PublishAck list"
  bb_keys :: "publishKey list"
  bb_encodedBytes :: int

definition newBuilder :: "batchEncoder \<Rightarrow> PublishPolicy \<Rightarrow> nat \<Rightarrow> int \<Rightarrow> nat \<Rightarrow> batchBuilder" where
  "newBuilder e policy slot cycleMS lane =
     \<lparr>bb_encoder = e, bb_policy = policy, bb_slot = slot, bb_cycleMS = cycleMS, bb_lane = lane,
      bb_series = [], bb_acks = [], bb_keys = [], bb_encodedBytes = 0\<rparr>"

definition builder_empty :: "batchBuilder \<Rightarrow> bool" where
  "builder_empty b \<longleftrightarrow> bb_series b = []"

function varintSize :: "nat \<Rightarrow> nat" where
  "varintSize v = (if v \<ge> 128 then Suc (varintSize (v div 128)) else 1)"
  by pat_completeness auto
termination
  by (relation "measure id") auto

declare varintSize.simps [simp del]

definition repeatedMessageSize :: "nat \<Rightarrow> nat" where
  "repeatedMessageSize messageBytes = 1 + varintSize messageBytes + messageBytes"

definition sample_series :: "encodeSeries \<Rightarrow> TimeSeries" where
  "sample_series sample =
     \<lparr>ts_Labels = es_labels sample, ts_Value = es_value sample, ts_Timestamp = to_UnixMilli (es_timestamp sample)\<rparr>"

definition builder_add :: "Wire \<Rightarrow> encodeSeries \<Rightarrow> batchBuilder \<Rightarrow> batchBuilder \<times> bool \<times> go_error option" where
  "builder_add wi sample b =
     (if int (length (bb_series b)) \<ge> be_maxSamples (bb_encoder b) then (b, False, None)
      else
        (let series = sample_series sample;
             entryBytes = int (repeatedMessageSize (wi_Size wi series)) in
         if entryBytes > be_maxBytes (bb_encoder b)
           then (b, False, Some (ArgumentError (''series exceeds max batch bytes: '' @ es_seriesID sample)))
         else if bb_encodedBytes b + entryBytes > be_maxBytes (bb_encoder b) then (b, False, None)
         else (b\<lparr>bb_series := bb_series b @ [series],
                 bb_acks := (case es_ack sample of None \<Rightarrow> bb_acks b | Some ack \<Rightarrow> bb_acks b @ [ack]),
                 bb_keys := bb_keys b @ [es_key sample],
                 bb_encodedBytes := bb_encodedBytes b + entryBytes\<rparr>, True, None)))"

definition builder_encode :: "Wire \<Rightarrow> batchBuilder \<Rightarrow> go_error + encodedBatch option" where
  "builder_encode wi b =
     (if bb_series b = [] then Inr None
      else
        (case wi_Marshal wi (bb_series b) of
           Inl err \<Rightarrow> Inl (WrappedError ''marshal remote write batch'' err)
         | Inr raw \<Rightarrow>
             (if int (length raw) > be_maxBytes (bb_encoder b)
                then Inl (ArgumentError ''encoded remote write batch exceeds max bytes'')
              else
                (let body = wi_Snappy wi raw in
                 Inr (Some \<lparr>eb_body = body, eb_acks = bb_acks b, eb_keys = bb_keys b, eb_policy = bb_policy b,
                            eb_slot = bb_slot b, eb_cycleTimestampMS = bb_cycleMS b, eb_lane = bb_lane b,
                            eb_samples = length (bb_series b), eb_uncompressedBytes = length raw,
                            eb_compressedBytes = length body\<rparr>)))))"

section \<open>Delivery\<close>

datatype DeliveryClass = DeliverySuccess | DeliveryRetryable | DeliveryPermanent

fun DeliveryClass_String :: "DeliveryClass \<Rightarrow> string" where
  "DeliveryClass_String DeliverySuccess = ''success''"
| "DeliveryClass_String DeliveryRetryable = ''retryable''"
| "DeliveryClass_String DeliveryPermanent = ''permanent''"

definition ClassifyRemoteWriteStatus :: "int \<Rightarrow> DeliveryClass" where
  "ClassifyRemoteWriteStatus statusCode =
     (if statusCode \<ge> 200 \<and> statusCode < 300 then DeliverySuccess
      else if statusCode = 408 \<or> statusCode = 429 \<or> statusCode \<ge> 500 then DeliveryRetryable
      else DeliveryPermanent)"

record DeliveryError =
  de_Class :: DeliveryClass
  de_StatusCode :: int
  de_ResponseSummary :: string
  de_Attempts :: nat
  de_Cause :: "go_error option"

record pushWorker =
  pw_maxRetries :: int
  pw_backoff :: duration
  pw_maxBackoff :: duration

record deliveryResult =
  dl_attempts :: nat
  dl_class :: DeliveryClass
  dl_err :: "DeliveryError option"

definition maxResponseSummaryBytes :: nat where "maxResponseSummaryBytes = 4096"

text \<open>What one exchange can come to: no request, no response, or a response with its status, the trimmed
  text of a prefix of its body and the error reading it.\<close>

datatype http_answer =
    RequestError go_error
  | NoResponse go_error
  | Response int "nat \<Rightarrow> string" "go_error option"

definition sendAttempt :: "http_answer \<Rightarrow> nat \<Rightarrow> DeliveryError option" where
  "sendAttempt answer attempt =
     (case answer of
        RequestError err \<Rightarrow> Some \<lparr>de_Class = DeliveryPermanent, de_StatusCode = 0, de_ResponseSummary = [],
                                  de_Attempts = attempt, de_Cause = Some err\<rparr>
      | NoResponse err \<Rightarrow> Some \<lparr>de_Class = DeliveryRetryable, de_StatusCode = 0, de_ResponseSummary = [],
                                de_Attempts = attempt, de_Cause = Some err\<rparr>
      | Response statusCode trimmed readErr \<Rightarrow>
          (let summary = trimmed maxResponseSummaryBytes;
               cls = ClassifyRemoteWriteStatus statusCode in
           if cls = DeliverySuccess \<and> readErr = None then None
           else
             (let cls = (if readErr \<noteq> None \<and> cls = DeliverySuccess then DeliveryRetryable else cls) in
              Some \<lparr>de_Class = cls, de_StatusCode = statusCode, de_ResponseSummary = summary,
                    de_Attempts = attempt, de_Cause = readErr\<rparr>)))"

text \<open>The doubling loop returns early once the next doubling would pass the maximum.\<close>

fun backoff_loop :: "nat \<Rightarrow> duration \<Rightarrow> duration \<Rightarrow> duration" where
  "backoff_loop 0 maximum delay = (if maximum > 0 \<and> delay > maximum then maximum else delay)"
| "backoff_loop (Suc n) maximum delay =
     (if delay \<ge> maximum \<or> delay > go_div maximum 2 then maximum
      else backoff_loop n maximum (dmul delay 2))"

definition boundedBackoff :: "duration \<Rightarrow> duration \<Rightarrow> nat \<Rightarrow> duration" where
  "boundedBackoff base maximum exponent = (if base \<le> 0 then 0 else backoff_loop exponent maximum base)"

text \<open>\<open>send_loop\<close> has \<open>n\<close> attempts left, \<open>attempt\<close> is the next one; \<open>None\<close> is the panic after the loop.\<close>

fun send_loop :: "pushWorker \<Rightarrow> (nat \<Rightarrow> http_answer) \<Rightarrow> (nat \<Rightarrow> duration \<Rightarrow> go_error option) \<Rightarrow> nat \<Rightarrow> nat
    \<Rightarrow> deliveryResult option" where
  "send_loop w exchange wait 0 attempt = None"
| "send_loop w exchange wait (Suc n) attempt =
     (case sendAttempt (exchange attempt) attempt of
        None \<Rightarrow> Some \<lparr>dl_attempts = attempt, dl_class = DeliverySuccess, dl_err = None\<rparr>
      | Some failure \<Rightarrow>
          (if de_Class failure \<noteq> DeliveryRetryable \<or> int attempt > pw_maxRetries w
           then Some \<lparr>dl_attempts = attempt, dl_class = de_Class failure, dl_err = Some (failure\<lparr>de_Attempts := attempt\<rparr>)\<rparr>
           else
             (case wait attempt (boundedBackoff (pw_backoff w) (pw_maxBackoff w) (attempt - 1)) of
                Some err \<Rightarrow> Some \<lparr>dl_attempts = attempt, dl_class = DeliveryRetryable,
                    dl_err = Some (failure\<lparr>de_Attempts := attempt,
                                        de_Cause := errors_join [de_Cause failure, Some err]\<rparr>)\<rparr>
              | None \<Rightarrow> send_loop w exchange wait n (Suc attempt))))"

definition send :: "pushWorker \<Rightarrow> (nat \<Rightarrow> http_answer) \<Rightarrow> (nat \<Rightarrow> duration \<Rightarrow> go_error option) \<Rightarrow> deliveryResult option" where
  "send w exchange wait = send_loop w exchange wait (nat (pw_maxRetries w + 1)) 1"

end
