(* ===== verification/Remote_Write_Laws.thy ===== *)
theory Remote_Write_Laws
  imports Remote_Write
begin

text \<open>
  What the encoder and the delivery loop guarantee: sizes are exact on a wire format that encodes a request
  as the sequence of its length-prefixed series, batches keep both limits, and sending ends within the retry budget.
\<close>

section \<open>Sizes\<close>

text \<open>The number of 7-bit groups of a number, one for zero.\<close>

lemma varintSize_bounds: "v < 128 ^ varintSize v \<and> (varintSize v = 1 \<or> 128 ^ (varintSize v - 1) \<le> v) \<and> 0 < varintSize v"
proof (induction v rule: varintSize.induct)
  case (1 v)
  show ?case
  proof (cases "v \<ge> 128")
    case False
    then have "varintSize v = 1" by (subst varintSize.simps) simp
    then show ?thesis using False by simp
  next
    case True
    let ?k = "varintSize (v div 128)"
    have s: "varintSize v = Suc ?k" using True by (subst varintSize.simps) simp
    have ih: "v div 128 < 128 ^ ?k" "?k = 1 \<or> 128 ^ (?k - 1) \<le> v div 128" "0 < ?k" using "1.IH" [OF True] by auto
    have "v < 128 * 128 ^ ?k" using ih(1) by (metis div_less_iff_less_mult mult.commute zero_less_numeral)
    moreover have "128 ^ ?k \<le> v"
    proof (cases "?k = 1")
      case True
      then show ?thesis using \<open>v \<ge> 128\<close> by simp
    next
      case False
      with ih have "128 ^ (?k - 1) * 128 \<le> v div 128 * 128" by (simp add: mult_le_mono1)
      moreover have "128 ^ (?k - 1) * 128 = (128::nat) ^ ?k" using ih(3) by (cases ?k) simp_all
      moreover have "v div 128 * 128 \<le> v" by simp
      ultimately show ?thesis by simp
    qed
    ultimately show ?thesis by (simp add: s)
  qed
qed

definition entry_size :: "Wire \<Rightarrow> TimeSeries \<Rightarrow> nat" where
  "entry_size wi s = repeatedMessageSize (wi_Size wi s)"

text \<open>The documented layout of a write request: every series with its tag byte and its length.\<close>

definition exact_wire :: "Wire \<Rightarrow> bool" where
  "exact_wire wi \<longleftrightarrow> (\<forall>ss. \<exists>raw. wi_Marshal wi ss = Inr raw \<and> length raw = sum_list (map (entry_size wi) ss))"

definition builder_ok :: "Wire \<Rightarrow> batchEncoder \<Rightarrow> batchBuilder \<Rightarrow> bool" where
  "builder_ok wi e b \<longleftrightarrow> bb_encoder b = e \<and> int (length (bb_series b)) \<le> be_maxSamples e
     \<and> length (bb_keys b) = length (bb_series b)
     \<and> bb_encodedBytes b = int (sum_list (map (entry_size wi) (bb_series b)))
     \<and> bb_encodedBytes b \<le> be_maxBytes e"

definition encoder_ok :: "batchEncoder \<Rightarrow> bool" where
  "encoder_ok e \<longleftrightarrow> 0 < be_maxSamples e \<and> 0 < be_maxBytes e"

lemma newBatchEncoder_ok: "newBatchEncoder a b = Inr e \<Longrightarrow> encoder_ok e"
  by (auto simp: newBatchEncoder_def encoder_ok_def split: if_splits)

lemma newBuilder_ok: "encoder_ok e \<Longrightarrow> builder_ok wi e (newBuilder e policy slot cycle lane)"
  by (simp add: builder_ok_def newBuilder_def encoder_ok_def)

text \<open>Adding a sample: it is too large for any batch, or the batch is full, or it is taken.\<close>

lemma builder_add_cases:
  assumes "builder_ok wi e b"
  obtains
    (oversized) err where "builder_add wi sample b = (b, False, Some err)"
      "int (entry_size wi (sample_series sample)) > be_maxBytes e"
  | (full) "builder_add wi sample b = (b, False, None)"
      "encoder_ok e \<Longrightarrow> bb_series b \<noteq> []"
      "int (length (bb_series b)) \<ge> be_maxSamples e \<or> int (entry_size wi (sample_series sample)) \<le> be_maxBytes e"
  | (taken) b' where "builder_add wi sample b = (b', True, None)" "builder_ok wi e b'"
      "bb_keys b' = bb_keys b @ [es_key sample]" "bb_series b' = bb_series b @ [sample_series sample]"
      "bb_lane b' = bb_lane b" "bb_policy b' = bb_policy b" "bb_slot b' = bb_slot b" "bb_cycleMS b' = bb_cycleMS b"
      "bb_acks b' = bb_acks b @ (case es_ack sample of None \<Rightarrow> [] | Some ack \<Rightarrow> [ack])"
proof -
  have e: "bb_encoder b = e" "length (bb_keys b) = length (bb_series b)"
    "bb_encodedBytes b = int (sum_list (map (entry_size wi) (bb_series b)))" "bb_encodedBytes b \<le> be_maxBytes e"
    using assms by (simp_all add: builder_ok_def)
  let ?n = "int (entry_size wi (sample_series sample))"
  consider (A) "int (length (bb_series b)) \<ge> be_maxSamples e"
    | (B) "int (length (bb_series b)) < be_maxSamples e" "?n > be_maxBytes e"
    | (C) "int (length (bb_series b)) < be_maxSamples e" "?n \<le> be_maxBytes e" "bb_encodedBytes b + ?n > be_maxBytes e"
    | (D) "int (length (bb_series b)) < be_maxSamples e" "?n \<le> be_maxBytes e" "bb_encodedBytes b + ?n \<le> be_maxBytes e"
    by linarith
  then show thesis
  proof cases
    case A
    then show thesis by (intro full) (auto simp: builder_add_def e encoder_ok_def)
  next
    case B
    then show thesis by (intro oversized) (auto simp: builder_add_def e Let_def entry_size_def)
  next
    case C
    then show thesis by (intro full) (auto simp: builder_add_def e Let_def entry_size_def)
  next
    case D
    then show thesis
      by (intro taken [of "fst (builder_add wi sample b)"])
        (auto simp: builder_add_def e Let_def entry_size_def builder_ok_def split: option.split)
  qed
qed

definition batch_of :: "batchBuilder \<Rightarrow> encodedBatch \<Rightarrow> bool" where
  "batch_of b eb \<longleftrightarrow> eb_keys eb = bb_keys b \<and> eb_acks eb = bb_acks b \<and> eb_lane eb = bb_lane b
     \<and> eb_policy eb = bb_policy b \<and> eb_slot eb = bb_slot b \<and> eb_cycleTimestampMS eb = bb_cycleMS b
     \<and> eb_samples eb = length (bb_series b)"

lemma builder_encode_batch:
  "builder_encode wi b = Inr (Some eb) \<Longrightarrow> batch_of b eb \<and> bb_series b \<noteq> []
     \<and> int (eb_uncompressedBytes eb) \<le> be_maxBytes (bb_encoder b)"
  by (auto simp: builder_encode_def batch_of_def Let_def split: if_splits sum.splits)

lemma builder_encode_None: "builder_encode wi b = Inr None \<longleftrightarrow> bb_series b = []"
  by (auto simp: builder_encode_def Let_def split: sum.split)

lemma builder_encode_exact:
  assumes "exact_wire wi" "builder_ok wi e b" "bb_series b \<noteq> []"
  shows "\<exists>eb. builder_encode wi b = Inr (Some eb) \<and> int (eb_uncompressedBytes eb) = bb_encodedBytes b"
proof -
  obtain raw where "wi_Marshal wi (bb_series b) = Inr raw" "length raw = sum_list (map (entry_size wi) (bb_series b))"
    using assms(1) unfolding exact_wire_def by blast
  then show ?thesis using assms(2,3) by (simp add: builder_encode_def builder_ok_def Let_def)
qed

section \<open>Delivery\<close>

lemma backoff_loop_exact:
  assumes "0 < delay" "0 < maximum" "maximum < 2 ^ 63"
  shows "backoff_loop n maximum delay = min (delay * 2 ^ n) maximum"
  using assms(1)
proof (induction n arbitrary: delay)
  case 0
  then show ?case using assms by simp
next
  case (Suc n)
  have half: "go_div maximum 2 = maximum div 2" by (rule go_div_nonneg) (use assms in simp_all)
  have grow: "delay * 2 \<le> delay * 2 ^ Suc n" using Suc.prems by simp
  show ?case
  proof (cases "delay \<ge> maximum \<or> delay > maximum div 2")
    case True
    then have "maximum \<le> delay * 2" using Suc.prems by linarith
    then have "maximum \<le> delay * 2 ^ Suc n" using grow by linarith
    then show ?thesis using True by (simp add: half min_absorb2)
  next
    case False
    then have "delay * 2 \<le> maximum" by linarith
    then have "dmul delay 2 = delay * 2" unfolding dmul_def using assms Suc.prems by (intro wrap64_idI) simp_all
    then show ?thesis using False Suc by (simp add: half mult.assoc)
  qed
qed

text \<open>Everything before the last attempt was retryable, within budget, and its wait ran to the end.\<close>

lemma send_loop_cases:
  assumes "int attempt + int n = pw_maxRetries w + 2" and "0 < n" and "0 < attempt"
  shows "\<exists>r. send_loop w exchange wait n attempt = Some r
    \<and> attempt \<le> dl_attempts r \<and> int (dl_attempts r) \<le> pw_maxRetries w + 1
    \<and> (\<forall>k. attempt \<le> k \<longrightarrow> k < dl_attempts r \<longrightarrow>
         (\<exists>e. sendAttempt (exchange k) k = Some e \<and> de_Class e = DeliveryRetryable)
         \<and> wait k (boundedBackoff (pw_backoff w) (pw_maxBackoff w) (k - 1)) = None)
    \<and> (case sendAttempt (exchange (dl_attempts r)) (dl_attempts r) of
         None \<Rightarrow> dl_class r = DeliverySuccess \<and> dl_err r = None
       | Some e \<Rightarrow> dl_class r = de_Class e
           \<and> (\<exists>d. dl_err r = Some d \<and> de_Class d = de_Class e \<and> de_Attempts d = dl_attempts r)
           \<and> (de_Class e \<noteq> DeliveryRetryable \<or> int (dl_attempts r) = pw_maxRetries w + 1
              \<or> wait (dl_attempts r) (boundedBackoff (pw_backoff w) (pw_maxBackoff w) (dl_attempts r - 1)) \<noteq> None))"
  using assms
proof (induction n arbitrary: attempt)
  case 0
  then show ?case by simp
next
  case (Suc n)
  let ?d = "boundedBackoff (pw_backoff w) (pw_maxBackoff w) (attempt - 1)"
  consider (ok) "sendAttempt (exchange attempt) attempt = None"
    | (final) e where "sendAttempt (exchange attempt) attempt = Some e"
        "de_Class e \<noteq> DeliveryRetryable \<or> int attempt > pw_maxRetries w"
    | (cut) e err where "sendAttempt (exchange attempt) attempt = Some e"
        "de_Class e = DeliveryRetryable" "int attempt \<le> pw_maxRetries w" "wait attempt ?d = Some err"
    | (again) e where "sendAttempt (exchange attempt) attempt = Some e"
        "de_Class e = DeliveryRetryable" "int attempt \<le> pw_maxRetries w" "wait attempt ?d = None"
    by (metis not_le not_Some_eq)
  then show ?case
  proof cases
    case ok
    then show ?thesis using Suc.prems by simp
  next
    case final
    then show ?thesis using Suc.prems by auto
  next
    case cut
    then show ?thesis using Suc.prems by auto
  next
    case again
    then have "int (Suc attempt) + int n = pw_maxRetries w + 2" "0 < n" using Suc.prems by linarith+
    from Suc.IH [OF this] obtain r where r: "send_loop w exchange wait n (Suc attempt) = Some r"
      "Suc attempt \<le> dl_attempts r" "int (dl_attempts r) \<le> pw_maxRetries w + 1"
      "\<forall>k. Suc attempt \<le> k \<longrightarrow> k < dl_attempts r \<longrightarrow>
         (\<exists>e. sendAttempt (exchange k) k = Some e \<and> de_Class e = DeliveryRetryable)
         \<and> wait k (boundedBackoff (pw_backoff w) (pw_maxBackoff w) (k - 1)) = None"
      "case sendAttempt (exchange (dl_attempts r)) (dl_attempts r) of
         None \<Rightarrow> dl_class r = DeliverySuccess \<and> dl_err r = None
       | Some e \<Rightarrow> dl_class r = de_Class e
           \<and> (\<exists>d. dl_err r = Some d \<and> de_Class d = de_Class e \<and> de_Attempts d = dl_attempts r)
           \<and> (de_Class e \<noteq> DeliveryRetryable \<or> int (dl_attempts r) = pw_maxRetries w + 1
              \<or> wait (dl_attempts r) (boundedBackoff (pw_backoff w) (pw_maxBackoff w) (dl_attempts r - 1)) \<noteq> None)"
      by blast
    have "\<forall>k. attempt \<le> k \<longrightarrow> k < dl_attempts r \<longrightarrow>
         (\<exists>e. sendAttempt (exchange k) k = Some e \<and> de_Class e = DeliveryRetryable)
         \<and> wait k (boundedBackoff (pw_backoff w) (pw_maxBackoff w) (k - 1)) = None"
      using r(4) again by (metis Suc_leI le_neq_implies_less)
    then show ?thesis using again r by (intro exI [of _ r]) auto
  qed
qed

end
