(* ===== verification/Lane_Queue.thy ===== *)
theory Lane_Queue
  imports Remote_Write_Laws
begin

text \<open>
  The queue half of \<^verbatim>\<open>internal/promwrap/push_worker.go\<close>: one globally bounded queue split into worker lanes.
  \<open>lq_notify\<close> are the one-place channels that wake a lane's worker; \<open>pop_try\<close> is one round of \<^verbatim>\<open>pop\<close> under the
  lock, after which an empty lane waits for its channel or the end of its context.
\<close>

datatype queueAdmission = queueAccepted | queueFull | queueObsolete

record laneQueue =
  lq_lanes :: "encodedBatch list list"
  lq_notify :: "bool list"
  lq_capacity :: int
  lq_size :: int
  lq_closed :: bool
  lq_latestCycles :: "(nat, int) gomap"

definition newLaneQueue :: "nat \<Rightarrow> int \<Rightarrow> laneQueue" where
  "newLaneQueue workers capacity =
     \<lparr>lq_lanes = replicate workers [], lq_notify = replicate workers False, lq_capacity = capacity,
      lq_size = 0, lq_closed = False, lq_latestCycles = []\<rparr>"

definition outdated :: "nat \<Rightarrow> int \<Rightarrow> encodedBatch \<Rightarrow> bool" where
  "outdated slot cycleMS batch \<longleftrightarrow>
     eb_policy batch = PublishCycleTimestamp \<and> eb_slot batch = slot \<and> eb_cycleTimestampMS batch < cycleMS"

definition beginLongCycle :: "nat \<Rightarrow> int \<Rightarrow> laneQueue \<Rightarrow> laneQueue \<times> bool \<times> encodedBatch list" where
  "beginLongCycle slot cycleMS q =
     (if lq_closed q then (q, False, [])
      else
        (let latest = mget (lq_latestCycles q) slot in
         if (case latest of None \<Rightarrow> False | Some l \<Rightarrow> cycleMS < l) then (q, False, [])
         else if latest = Some cycleMS then (q, True, [])
         else
           (let removed = concat (map (filter (outdated slot cycleMS)) (lq_lanes q)) in
            (q\<lparr>lq_latestCycles := mput slot cycleMS (lq_latestCycles q),
               lq_lanes := map (filter (\<lambda>batch. \<not> outdated slot cycleMS batch)) (lq_lanes q),
               lq_size := lq_size q - int (length removed)\<rparr>, True, removed))))"

definition tryEnqueue :: "encodedBatch \<Rightarrow> laneQueue \<Rightarrow> laneQueue \<times> queueAdmission" where
  "tryEnqueue batch q =
     (if lq_closed q then (q, queueObsolete)
      else if eb_policy batch = PublishCycleTimestamp
           \<and> eb_cycleTimestampMS batch < (case mget (lq_latestCycles q) (eb_slot batch) of None \<Rightarrow> 0 | Some c \<Rightarrow> c)
        then (q, queueObsolete)
      else if lq_size q \<ge> lq_capacity q then (q, queueFull)
      else (q\<lparr>lq_lanes := (lq_lanes q)[eb_lane batch := lq_lanes q ! eb_lane batch @ [batch]],
              lq_size := lq_size q + 1,
              lq_notify := (lq_notify q)[eb_lane batch := True]\<rparr>, queueAccepted))"

datatype pop_result = Popped encodedBatch | LaneClosed | LaneEmpty

definition pop_try :: "nat \<Rightarrow> laneQueue \<Rightarrow> laneQueue \<times> pop_result" where
  "pop_try lane q =
     (case lq_lanes q ! lane of
        batch # rest \<Rightarrow>
          (q\<lparr>lq_lanes := (lq_lanes q)[lane := rest], lq_size := lq_size q - 1,
             lq_notify := (if rest \<noteq> [] then (lq_notify q)[lane := True] else lq_notify q)\<rparr>, Popped batch)
      | [] \<Rightarrow> (q, if lq_closed q then LaneClosed else LaneEmpty))"

definition queue_close :: "laneQueue \<Rightarrow> laneQueue \<times> encodedBatch list" where
  "queue_close q =
     (if lq_closed q then (q, [])
      else (q\<lparr>lq_closed := True, lq_lanes := map (\<lambda>lane. []) (lq_lanes q),
              lq_notify := map (\<lambda>n. True) (lq_notify q), lq_size := 0\<rparr>, concat (lq_lanes q)))"

definition queue_len :: "laneQueue \<Rightarrow> int" where
  "queue_len q = lq_size q"

section \<open>The queue's invariant\<close>

text \<open>Sizes add up within the capacity, batches stand in their own lane, a closed queue is empty, and of each slot
  only batches of its latest cycle are queued.\<close>

definition queued :: "laneQueue \<Rightarrow> encodedBatch list" where
  "queued q = concat (lq_lanes q)"

definition current_cycle :: "laneQueue \<Rightarrow> encodedBatch \<Rightarrow> bool" where
  "current_cycle q b \<longleftrightarrow> eb_policy b = PublishSourceTimestamp
     \<or> mget (lq_latestCycles q) (eb_slot b) = Some (eb_cycleTimestampMS b)"

definition queue_inv :: "nat \<Rightarrow> laneQueue \<Rightarrow> bool" where
  "queue_inv workers q \<longleftrightarrow> length (lq_lanes q) = workers \<and> length (lq_notify q) = workers
     \<and> lq_size q = int (length (queued q)) \<and> lq_size q \<le> lq_capacity q
     \<and> (\<forall>lane < workers. \<forall>b \<in> set (lq_lanes q ! lane). eb_lane b = lane)
     \<and> (lq_closed q \<longrightarrow> queued q = [])
     \<and> (\<forall>b \<in> set (queued q). current_cycle q b)"

lemma newLaneQueue_inv: "0 \<le> capacity \<Longrightarrow> queue_inv workers (newLaneQueue workers capacity)"
  by (simp add: queue_inv_def newLaneQueue_def queued_def)

lemma concat_filter_split:
  "mset (concat (map (filter p) xss)) + mset (concat (map (filter (\<lambda>x. \<not> p x)) xss)) = mset (concat xss)"
proof -
  have "mset (filter p xs) + mset (filter (\<lambda>x. \<not> p x) xs) = mset xs" for xs by (induction xs) simp_all
  then show ?thesis by (simp only: filter_concat [symmetric])
qed

lemma mset_concat_update:
  assumes "i < length xss"
  shows "mset (concat (xss[i := xs])) + mset (xss ! i) = mset (concat xss) + mset xs"
  using assms
proof (induction xss arbitrary: i)
  case (Cons x xss)
  then show ?case by (cases i) (simp_all add: add.commute add.left_commute add.assoc)
qed simp

lemma beginLongCycle_mset:
  assumes "beginLongCycle slot cycle q = (q', current, removed)"
  shows "mset (queued q) = mset (queued q') + mset removed"
  using assms concat_filter_split [of "outdated slot cycle" "lq_lanes q"]
  by (auto simp: beginLongCycle_def Let_def queued_def add.commute split: if_splits)

lemma beginLongCycle_latest:
  assumes "beginLongCycle slot cycle q = (q', current, removed)"
  shows "if current then mget (lq_latestCycles q') = (mget (lq_latestCycles q))(slot \<mapsto> cycle) \<and> \<not> lq_closed q
    else q' = q \<and> removed = []"
  using assms by (auto simp: beginLongCycle_def Let_def fun_eq_iff split: if_splits)

lemma beginLongCycle_frame:
  assumes "beginLongCycle slot cycle q = (q', current, removed)"
  shows "lq_capacity q' = lq_capacity q \<and> lq_closed q' = lq_closed q \<and> lq_notify q' = lq_notify q
    \<and> length (lq_lanes q') = length (lq_lanes q)"
  using assms by (auto simp: beginLongCycle_def Let_def split: if_splits)

lemma beginLongCycle_lane:
  assumes "beginLongCycle slot cycle q = (q', current, removed)" "lane < length (lq_lanes q)"
  shows "set (lq_lanes q' ! lane) \<subseteq> set (lq_lanes q ! lane)"
  using assms by (auto simp: beginLongCycle_def Let_def split: if_splits)

lemma beginLongCycle_inv:
  assumes inv: "queue_inv workers q" and run: "beginLongCycle slot cycle q = (q', current, removed)"
  shows "queue_inv workers q'"
proof (cases "mget (lq_latestCycles q) slot = Some cycle \<or> \<not> current")
  case True
  then have "q' = q" using run by (auto simp: beginLongCycle_def Let_def split: if_splits)
  then show ?thesis using inv by simp
next
  case False
  define p where "p = outdated slot cycle"
  have new: "mget (lq_latestCycles q) slot \<noteq> Some cycle" "current" using False by auto
  have older: "l < cycle" if "mget (lq_latestCycles q) slot = Some l" for l
    using run new that by (auto simp: beginLongCycle_def Let_def split: if_splits)
  have q': "q' = q\<lparr>lq_latestCycles := mput slot cycle (lq_latestCycles q),
      lq_lanes := map (filter (\<lambda>b. \<not> p b)) (lq_lanes q),
      lq_size := lq_size q - int (length (concat (map (filter p) (lq_lanes q))))\<rparr>"
    using run new unfolding p_def by (auto simp: beginLongCycle_def Let_def split: if_splits)
  have m: "mset (queued q) = mset (queued q') + mset (concat (map (filter p) (lq_lanes q)))"
    using concat_filter_split [of p "lq_lanes q"] by (simp add: q' queued_def add.commute)
  have len: "length (queued q) = length (queued q') + length (concat (map (filter p) (lq_lanes q)))"
    using arg_cong [OF m, of size] by simp
  have kept: "b \<in> set (queued q) \<and> \<not> p b" if "b \<in> set (queued q')" for b
    using that by (auto simp: q' queued_def)
  have cyc: "current_cycle q' b" if b: "b \<in> set (queued q')" for b
  proof -
    have "current_cycle q b" using inv kept [OF b] by (simp add: queue_inv_def)
    moreover have "\<not> (eb_policy b = PublishCycleTimestamp \<and> eb_slot b = slot \<and> eb_cycleTimestampMS b < cycle)"
      using kept [OF b] by (simp add: p_def outdated_def)
    ultimately show ?thesis
      using older by (cases "eb_policy b") (auto simp: current_cycle_def q' split: if_splits)
  qed
  have "queued q' = []" if "lq_closed q'" using that inv run new by (simp add: q' beginLongCycle_def)
  then show ?thesis using inv len cyc
    by (auto simp: queue_inv_def q' queued_def)
qed

lemma tryEnqueue_cases:
  assumes "queue_inv workers q" and "tryEnqueue b q = (q', r)" and lane: "eb_lane b < workers"
  obtains (obsolete) "r = queueObsolete" "q' = q"
      "lq_closed q \<or> eb_policy b = PublishCycleTimestamp
        \<and> mget (lq_latestCycles q) (eb_slot b) \<noteq> Some (eb_cycleTimestampMS b)"
  | (full) "r = queueFull" "q' = q" "lq_size q = lq_capacity q" "\<not> lq_closed q"
  | (accepted) "r = queueAccepted" "\<not> lq_closed q" "mset (queued q') = add_mset b (mset (queued q))"
      "lq_lanes q' = (lq_lanes q)[eb_lane b := lq_lanes q ! eb_lane b @ [b]]"
      "lq_notify q' = (lq_notify q)[eb_lane b := True]" "lq_latestCycles q' = lq_latestCycles q"
      "lq_closed q' = lq_closed q" "lq_capacity q' = lq_capacity q"
      "current_cycle q b \<Longrightarrow> queue_inv workers q'"
proof -
  have len: "length (lq_lanes q) = workers" using assms(1) by (simp add: queue_inv_def)
  define late where "late = (eb_policy b = PublishCycleTimestamp
      \<and> eb_cycleTimestampMS b < (case mget (lq_latestCycles q) (eb_slot b) of None \<Rightarrow> 0 | Some c \<Rightarrow> c))"
  have run: "tryEnqueue b q = (if lq_closed q then (q, queueObsolete) else if late then (q, queueObsolete)
      else if lq_size q \<ge> lq_capacity q then (q, queueFull)
      else (q\<lparr>lq_lanes := (lq_lanes q)[eb_lane b := lq_lanes q ! eb_lane b @ [b]],
              lq_size := lq_size q + 1, lq_notify := (lq_notify q)[eb_lane b := True]\<rparr>, queueAccepted))"
    by (simp add: tryEnqueue_def late_def)
  consider (A) "lq_closed q" | (B) "\<not> lq_closed q" "late" | (C) "\<not> lq_closed q" "\<not> late" "lq_size q \<ge> lq_capacity q"
    | (D) "\<not> lq_closed q" "\<not> late" "\<not> lq_size q \<ge> lq_capacity q" by blast
  then show thesis
  proof cases
    case A
    then show thesis using assms(2) by (intro obsolete) (simp_all add: run)
  next
    case B
    then have "eb_policy b = PublishCycleTimestamp \<and> mget (lq_latestCycles q) (eb_slot b) \<noteq> Some (eb_cycleTimestampMS b)"
      by (auto simp: late_def)
    then show thesis using B assms(2) by (intro obsolete) (simp_all add: run)
  next
    case C
    then show thesis using assms(1,2) by (intro full) (simp_all add: run queue_inv_def)
  next
    case D
    have q': "q' = q\<lparr>lq_lanes := (lq_lanes q)[eb_lane b := lq_lanes q ! eb_lane b @ [b]],
              lq_size := lq_size q + 1, lq_notify := (lq_notify q)[eb_lane b := True]\<rparr>" and r: "r = queueAccepted"
      using D assms(2) by (simp_all add: run)
    have m: "mset (queued q') = add_mset b (mset (queued q))"
      using mset_concat_update [of "eb_lane b" "lq_lanes q" "lq_lanes q ! eb_lane b @ [b]"] lane len
      by (simp add: q' queued_def)
    then have len': "length (queued q') = Suc (length (queued q))" by (metis size_add_mset size_mset)
    have set': "set (queued q') = insert b (set (queued q))" using m by (metis set_mset_add_mset_insert set_mset_mset)
    have inv: "queue_inv workers q'" if "current_cycle q b"
      using assms(1) D(1,3) len' set' that lane
      by (auto simp: queue_inv_def q' nth_list_update current_cycle_def)
    show thesis using D r m inv by (intro accepted) (simp_all add: q')
  qed
qed

lemma pop_try_cases:
  assumes inv: "queue_inv workers q" and "pop_try lane q = (q', r)" and lane: "lane < workers"
  obtains (empty) "q' = q" "lq_lanes q ! lane = []" "r = (if lq_closed q then LaneClosed else LaneEmpty)"
  | (popped) b rest where "r = Popped b" "lq_lanes q ! lane = b # rest" "lq_lanes q' = (lq_lanes q)[lane := rest]"
      "mset (queued q) = add_mset b (mset (queued q'))" "queue_inv workers q'"
      "lq_notify q' = (if rest \<noteq> [] then (lq_notify q)[lane := True] else lq_notify q)"
      "lq_latestCycles q' = lq_latestCycles q" "lq_closed q' = lq_closed q" "lq_capacity q' = lq_capacity q"
proof (cases "lq_lanes q ! lane")
  case Nil
  then show thesis using assms(2) by (intro empty) (auto simp: pop_try_def)
next
  case (Cons b rest)
  have len: "length (lq_lanes q) = workers" using inv by (simp add: queue_inv_def)
  have q': "q' = q\<lparr>lq_lanes := (lq_lanes q)[lane := rest], lq_size := lq_size q - 1,
             lq_notify := (if rest \<noteq> [] then (lq_notify q)[lane := True] else lq_notify q)\<rparr>" and r: "r = Popped b"
    using assms(2) Cons by (auto simp: pop_try_def)
  have m: "mset (queued q) = add_mset b (mset (queued q'))"
    using mset_concat_update [of lane "lq_lanes q" rest] lane len Cons by (simp add: q' queued_def)
  then have len': "length (queued q) = Suc (length (queued q'))" by (metis size_add_mset size_mset)
  have set': "set (queued q) = insert b (set (queued q'))" using m by (metis set_mset_add_mset_insert set_mset_mset)
  have "queue_inv workers q'"
    using inv len' set' lane Cons unfolding queue_inv_def
    by (auto simp: q' nth_list_update current_cycle_def)
  then show thesis using m r Cons by (intro popped [of b rest]) (simp_all add: q')
qed

lemma queue_close_cases:
  assumes inv: "queue_inv workers q" and cap: "0 \<le> lq_capacity q" and "queue_close q = (q', removed)"
  shows "queue_inv workers q'" "mset (queued q) = mset removed" "queued q' = []" "lq_closed q'"
    "lq_capacity q' = lq_capacity q" "lq_latestCycles q' = lq_latestCycles q"
    "lane < workers \<Longrightarrow> lq_closed q \<or> lq_notify q' ! lane"
  using assms by (auto simp: queue_close_def queue_inv_def queued_def split: if_splits)

end
