(* ===== verification/Host_Series.thy ===== *)
theory Host_Series
  imports Metadata_Builder "HOL-Library.Word"
begin

text \<open>
  \<^verbatim>\<open>internal/metadata/host_series.go\<close>: which hosts become a \<^verbatim>\<open>zabbix_host\<close> series and under which identity.
  The fingerprint (xxhash) is the parameter \<open>fp\<close>; the validity of label names, label values and metric names
  (Prometheus' \<^verbatim>\<open>model\<close> package) is a \<open>Names\<close>.
\<close>

record Names =
  nm_LabelName :: "string \<Rightarrow> bool"
  nm_LabelValue :: "string \<Rightarrow> bool"
  nm_MetricName :: "string \<Rightarrow> bool"

definition HostMetricName :: string where "HostMetricName = ''zabbix_host''"

definition hostSeriesKeyPrefix :: string where "hostSeriesKeyPrefix = ''host'' @ [char_of (0::nat)]"

record HostSeries =
  hs_HostID :: string
  hs_Key :: string
  hs_Labels :: "Label list"
  hs_Fingerprint :: "64 word"
  hs_Version :: nat

record label_flags =
  fl_name :: bool
  fl_host :: bool
  fl_hostIP :: bool
  fl_vmID :: bool

text \<open>The loop over the labels; \<open>previous\<close> is the name of the label before.\<close>

fun check_labels :: "Names \<Rightarrow> string option \<Rightarrow> Label list \<Rightarrow> label_flags \<Rightarrow> bool" where
  "check_labels nm previous [] fl \<longleftrightarrow> fl_name fl \<and> fl_host fl \<and> fl_hostIP fl \<and> fl_vmID fl"
| "check_labels nm previous (l # ls) fl \<longleftrightarrow>
     (if lb_Name l = [] \<or> \<not> nm_LabelName nm (lb_Name l) \<or> \<not> nm_LabelValue nm (lb_Value l) then False
      else if (case previous of None \<Rightarrow> False | Some p \<Rightarrow> lb_Name l \<le> p) then False
      else check_labels nm (Some (lb_Name l)) ls
        (if lb_Name l = ''__name__''
           then fl\<lparr>fl_name := (lb_Value l = HostMetricName \<and> nm_MetricName nm (lb_Value l))\<rparr>
         else if lb_Name l = ''host'' then fl\<lparr>fl_host := (lb_Value l \<noteq> [])\<rparr>
         else if lb_Name l = ''host_ip'' then fl\<lparr>fl_hostIP := (lb_Value l \<noteq> [])\<rparr>
         else if lb_Name l = ''vm_id'' then fl\<lparr>fl_vmID := (lb_Value l \<noteq> [])\<rparr>
         else fl))"

definition validHostLabels :: "Names \<Rightarrow> Label list \<Rightarrow> bool" where
  "validHostLabels nm labels =
     check_labels nm None labels \<lparr>fl_name = False, fl_host = False, fl_hostIP = False, fl_vmID = False\<rparr>"

definition HostSeriesFingerprint :: "(string \<Rightarrow> 64 word) \<Rightarrow> string \<Rightarrow> 64 word" where
  "HostSeriesFingerprint fp hostID = fp (hostSeriesKeyPrefix @ hostID)"

definition ExportableHostSeries :: "(string \<Rightarrow> 64 word) \<Rightarrow> Names \<Rightarrow> string \<Rightarrow> HostMetadata option \<Rightarrow> HostSeries option" where
  "ExportableHostSeries fp nm hostID host =
     (case host of
        None \<Rightarrow> None
      | Some h \<Rightarrow>
          (if hostID = [] \<or> hm_HostID h \<noteq> hostID \<or> hm_HostIP h = [] then None
           else if \<not> validHostLabels nm (hm_Labels h) then None
           else Some \<lparr>hs_HostID = hostID, hs_Key = hostSeriesKeyPrefix @ hostID, hs_Labels = hm_Labels h,
                      hs_Fingerprint = HostSeriesFingerprint fp hostID, hs_Version = hm_Version h\<rparr>))"

section \<open>What valid labels are\<close>

text \<open>Names strictly increase, each name and value is valid, and the four labels of a host are there.\<close>

definition host_label :: "string \<Rightarrow> (string \<Rightarrow> bool) \<Rightarrow> Label list \<Rightarrow> bool" where
  "host_label name ok labels \<longleftrightarrow> (\<exists>l \<in> set labels. lb_Name l = name \<and> ok (lb_Value l))"

lemma host_label_snoc:
  assumes "sorted_wrt (<) (map lb_Name (seen @ [l]))"
  shows "host_label name ok (seen @ [l]) \<longleftrightarrow> (if lb_Name l = name then ok (lb_Value l) else host_label name ok seen)"
  using assms by (auto simp: host_label_def sorted_wrt_append)

definition flags_of :: "Names \<Rightarrow> Label list \<Rightarrow> label_flags" where
  "flags_of nm seen =
     \<lparr>fl_name = host_label ''__name__'' (\<lambda>v. v = HostMetricName \<and> nm_MetricName nm v) seen,
      fl_host = host_label ''host'' (\<lambda>v. v \<noteq> []) seen, fl_hostIP = host_label ''host_ip'' (\<lambda>v. v \<noteq> []) seen,
      fl_vmID = host_label ''vm_id'' (\<lambda>v. v \<noteq> []) seen\<rparr>"

definition host_flags :: "label_flags \<Rightarrow> bool" where
  "host_flags fl \<longleftrightarrow> fl_name fl \<and> fl_host fl \<and> fl_hostIP fl \<and> fl_vmID fl"

lemma flags_of_snoc:
  assumes "sorted_wrt (<) (map lb_Name (seen @ [l]))"
  shows "flags_of nm (seen @ [l]) =
    (let fl = flags_of nm seen in
     if lb_Name l = ''__name__''
       then fl\<lparr>fl_name := (lb_Value l = HostMetricName \<and> nm_MetricName nm (lb_Value l))\<rparr>
     else if lb_Name l = ''host'' then fl\<lparr>fl_host := (lb_Value l \<noteq> [])\<rparr>
     else if lb_Name l = ''host_ip'' then fl\<lparr>fl_hostIP := (lb_Value l \<noteq> [])\<rparr>
     else if lb_Name l = ''vm_id'' then fl\<lparr>fl_vmID := (lb_Value l \<noteq> [])\<rparr>
     else fl)"
  by (simp add: flags_of_def host_label_snoc [OF assms] Let_def)

lemma check_labels_iff:
  assumes "sorted_wrt (<) (map lb_Name seen)"
  shows "check_labels nm (if seen = [] then None else Some (lb_Name (last seen))) ls (flags_of nm seen) \<longleftrightarrow>
    sorted_wrt (<) (map lb_Name (seen @ ls))
    \<and> (\<forall>l \<in> set ls. lb_Name l \<noteq> [] \<and> nm_LabelName nm (lb_Name l) \<and> nm_LabelValue nm (lb_Value l))
    \<and> host_flags (flags_of nm (seen @ ls))"
  using assms
proof (induction ls arbitrary: seen)
  case Nil
  then show ?case by (simp add: host_flags_def)
next
  case (Cons l ls)
  have snoc: "sorted_wrt (<) (map lb_Name (seen @ [l])) \<longleftrightarrow>
      \<not> (case if seen = [] then None else Some (lb_Name (last seen)) of None \<Rightarrow> False | Some p \<Rightarrow> lb_Name l \<le> p)"
  proof (cases "seen = []")
    case False
    have "lb_Name x \<le> lb_Name (last seen)" if "x \<in> set seen" for x
    proof -
      have "seen = butlast seen @ [last seen]" using False by simp
      with Cons.prems have "sorted_wrt (<) (map lb_Name (butlast seen @ [last seen]))" by simp
      then have "\<forall>y \<in> set (butlast seen). lb_Name y < lb_Name (last seen)" by (simp add: sorted_wrt_append)
      then show ?thesis using that \<open>seen = butlast seen @ [last seen]\<close>
        by (metis Un_iff empty_iff insert_iff less_imp_le list.set(1,2) order_refl set_append)
    qed
    then show ?thesis using False Cons.prems
      by (auto simp: sorted_wrt_append not_le intro: le_less_trans)
  qed simp
  show ?case
  proof (cases "sorted_wrt (<) (map lb_Name (seen @ [l]))")
    case True
    have step: "check_labels nm (if seen = [] then None else Some (lb_Name (last seen))) (l # ls) (flags_of nm seen) \<longleftrightarrow>
        lb_Name l \<noteq> [] \<and> nm_LabelName nm (lb_Name l) \<and> nm_LabelValue nm (lb_Value l)
        \<and> check_labels nm (Some (lb_Name l)) ls (flags_of nm (seen @ [l]))"
      using True snoc unfolding flags_of_snoc [OF True] by (auto simp: Let_def split: if_splits)
    show ?thesis unfolding step using Cons.IH [OF True] by auto
  next
    case False
    then have "\<not> sorted_wrt (<) (map lb_Name (seen @ l # ls))" by (auto simp: sorted_wrt_append)
    then show ?thesis using False snoc by auto
  qed
qed

lemma validHostLabels_iff:
  "validHostLabels nm labels \<longleftrightarrow> sorted_wrt (<) (map lb_Name labels)
     \<and> (\<forall>l \<in> set labels. lb_Name l \<noteq> [] \<and> nm_LabelName nm (lb_Name l) \<and> nm_LabelValue nm (lb_Value l))
     \<and> host_flags (flags_of nm labels)"
  using check_labels_iff [of "[]" nm labels] by (simp add: validHostLabels_def flags_of_def host_label_def)

end
