(* ===== verification/Publisher.thy ===== *)
theory Publisher
  imports Lane_Queue Host_Series
begin

text \<open>
  \<^verbatim>\<open>internal/promwrap/publisher.go\<close>: the streaming publisher reads cache pages, encodes bounded requests and
  hands them to one bounded worker pool.  Each function here is one of the source; a sample's key stays
  reserved from the moment it enters a builder until its batch is delivered, dropped or released.
  \<open>pu_pending\<close> and \<open>pu_idle\<close> (the closed channel) are the \<^verbatim>\<open>publishActivity\<close>; \<open>pu_ctxErr\<close> is the error of the
  publisher's own context.  Prometheus metrics are not modelled; \<^verbatim>\<open>url.ParseRequestURI\<close> is a parameter.
\<close>

section \<open>Configuration\<close>

record StreamingPublisherConfig =
  sp_EndpointURL :: string
  sp_Timeout :: duration
  sp_Username :: string
  sp_Password :: string
  sp_SpreadSlots :: nat
  sp_PageSize :: int
  sp_MaxSamples :: int
  sp_MaxBatchBytes :: int
  sp_Workers :: int
  sp_QueueCapacity :: int
  sp_MaxRetries :: int
  sp_RetryBackoff :: duration
  sp_MaxRetryBackoff :: duration

definition publisher_defaults :: "StreamingPublisherConfig \<Rightarrow> StreamingPublisherConfig" where
  "publisher_defaults c = c
     \<lparr>sp_Timeout := or_else 0 (30 * Second) (sp_Timeout c),
      sp_SpreadSlots := or_else 0 12 (sp_SpreadSlots c),
      sp_PageSize := or_else 0 5000 (sp_PageSize c),
      sp_MaxSamples := or_else 0 5000 (sp_MaxSamples c),
      sp_MaxBatchBytes := or_else 0 (4 * 2 ^ 20) (sp_MaxBatchBytes c),
      sp_Workers := or_else 0 4 (sp_Workers c),
      sp_QueueCapacity := or_else 0 100 (sp_QueueCapacity c),
      sp_MaxRetries := or_else 0 3 (sp_MaxRetries c),
      sp_RetryBackoff := or_else 0 (100 * Millisecond) (sp_RetryBackoff c),
      sp_MaxRetryBackoff := or_else 0 (2 * Second) (sp_MaxRetryBackoff c)\<rparr>"

text \<open>\<open>parse\<close> gives the scheme and the host of a request URI.\<close>

definition endpoint_validate :: "(string \<Rightarrow> go_error + string \<times> string) \<Rightarrow> string \<Rightarrow> duration \<Rightarrow> go_error option" where
  "endpoint_validate parse url timeout =
     (case parse url of
        Inl err \<Rightarrow> Some (WrappedError ''invalid remote write URL'' err)
      | Inr (scheme, host) \<Rightarrow>
          first_error
            [(scheme \<noteq> ''http'' \<and> scheme \<noteq> ''https'', ''remote write URL scheme must be http or https''),
             (host = [], ''remote write URL must include a host''),
             (timeout \<le> 0, ''remote write timeout must be positive'')])"

definition publisher_validate :: "(string \<Rightarrow> go_error + string \<times> string) \<Rightarrow> StreamingPublisherConfig \<Rightarrow> go_error option" where
  "publisher_validate parse c =
     (case endpoint_validate parse (sp_EndpointURL c) (sp_Timeout c) of
        Some err \<Rightarrow> Some err
      | None \<Rightarrow>
          first_error
            [(sp_SpreadSlots c = 0, ''spread slots must be positive''),
             (sp_PageSize c \<le> 0, ''publish page size must be positive''),
             (sp_MaxSamples c \<le> 0, ''max samples per send must be positive''),
             (sp_MaxBatchBytes c \<le> 0, ''max batch bytes must be positive''),
             (sp_Workers c \<le> 0, ''push workers must be positive''),
             (sp_QueueCapacity c \<le> 0, ''push queue capacity must be positive''),
             (sp_MaxRetries c < 0, ''max retries must not be negative''),
             (sp_RetryBackoff c < 0 \<or> sp_MaxRetryBackoff c \<le> 0 \<or> sp_RetryBackoff c > sp_MaxRetryBackoff c,
                ''invalid retry backoff range'')])"

section \<open>State\<close>

record PublisherStats =
  ct_QueuedBatches :: nat
  ct_QueuedSamples :: nat
  ct_UncompressedBytes :: nat
  ct_CompressedBytes :: nat
  ct_SentBatches :: nat
  ct_SentSamples :: nat
  ct_FailedBatches :: nat
  ct_RetryAttempts :: nat
  ct_PermanentFailures :: nat
  ct_RetryableFailures :: nat
  ct_CoalescedBatches :: nat
  ct_CoalescedSamples :: nat
  ct_QueueFull :: nat
  ct_MaxQueuedBatches :: int
  ct_AckApplied :: nat
  ct_AckStale :: nat
  ct_AckNotFound :: nat

definition no_stats :: PublisherStats where
  "no_stats =
     \<lparr>ct_QueuedBatches = 0, ct_QueuedSamples = 0, ct_UncompressedBytes = 0, ct_CompressedBytes = 0,
      ct_SentBatches = 0, ct_SentSamples = 0, ct_FailedBatches = 0, ct_RetryAttempts = 0,
      ct_PermanentFailures = 0, ct_RetryableFailures = 0, ct_CoalescedBatches = 0, ct_CoalescedSamples = 0,
      ct_QueueFull = 0, ct_MaxQueuedBatches = 0, ct_AckApplied = 0, ct_AckStale = 0, ct_AckNotFound = 0\<rparr>"

record Publisher =
  pu_config :: StreamingPublisherConfig
  pu_encoder :: batchEncoder
  pu_queue :: laneQueue
  pu_worker :: pushWorker
  pu_started :: bool
  pu_stopped :: bool
  pu_ctxErr :: "go_error option"
  pu_lastRequested :: "time list"
  pu_lastCycle :: "time list"
  pu_reservations :: "(publishKey, unit) gomap"
  pu_pending :: int
  pu_idle :: bool
  pu_counters :: PublisherStats

text \<open>\<open>cacheSlots\<close> is the slot count of the value store, if it has one.\<close>

definition NewStreamingPublisher :: "(string \<Rightarrow> go_error + string \<times> string) \<Rightarrow> nat option \<Rightarrow> StreamingPublisherConfig
    \<Rightarrow> go_error + Publisher" where
  "NewStreamingPublisher parse cacheSlots config =
     (let config = publisher_defaults config in
      case publisher_validate parse config of
        Some err \<Rightarrow> Inl err
      | None \<Rightarrow>
          (if (case cacheSlots of None \<Rightarrow> False | Some n \<Rightarrow> n \<noteq> sp_SpreadSlots config)
           then Inl (InvalidConfig ''publisher spread slots do not match ValueCache slots'')
           else
             (case newBatchEncoder (sp_MaxSamples config) (sp_MaxBatchBytes config) of
                Inl err \<Rightarrow> Inl err
              | Inr encoder \<Rightarrow>
                  Inr \<lparr>pu_config = config, pu_encoder = encoder,
                       pu_queue = newLaneQueue (nat (sp_Workers config)) (sp_QueueCapacity config),
                       pu_worker = \<lparr>pw_maxRetries = sp_MaxRetries config, pw_backoff = sp_RetryBackoff config,
                                    pw_maxBackoff = sp_MaxRetryBackoff config\<rparr>,
                       pu_started = False, pu_stopped = False, pu_ctxErr = None,
                       pu_lastRequested = replicate (sp_SpreadSlots config) 0,
                       pu_lastCycle = replicate (sp_SpreadSlots config) 0,
                       pu_reservations = [], pu_pending = 0, pu_idle = True, pu_counters = no_stats\<rparr>)))"

section \<open>Reservations, activity and submission\<close>

definition reserve :: "publishKey \<Rightarrow> Publisher \<Rightarrow> Publisher \<times> bool" where
  "reserve key p =
     (if mget (pu_reservations p) key \<noteq> None then (p, False)
      else (p\<lparr>pu_reservations := mput key () (pu_reservations p)\<rparr>, True))"

definition releaseKeys :: "publishKey list \<Rightarrow> Publisher \<Rightarrow> Publisher" where
  "releaseKeys keys p = p\<lparr>pu_reservations := fold mdel keys (pu_reservations p)\<rparr>"

definition releaseBatch :: "encodedBatch \<Rightarrow> Publisher \<Rightarrow> Publisher" where
  "releaseBatch batch p = releaseKeys (eb_keys batch) p"

definition activity_add :: "Publisher \<Rightarrow> Publisher" where
  "activity_add p = p\<lparr>pu_idle := (if pu_pending p = 0 then False else pu_idle p), pu_pending := pu_pending p + 1\<rparr>"

text \<open>The code panics when the count goes below zero, and on closing the channel twice.\<close>

definition activity_done :: "Publisher \<Rightarrow> Publisher" where
  "activity_done p = p\<lparr>pu_idle := (if pu_pending p - 1 = 0 then True else pu_idle p), pu_pending := pu_pending p - 1\<rparr>"

definition recordMaxQueue :: "int \<Rightarrow> PublisherStats \<Rightarrow> PublisherStats" where
  "recordMaxQueue n st = (if n \<le> ct_MaxQueuedBatches st then st else st\<lparr>ct_MaxQueuedBatches := n\<rparr>)"

definition recordCoalesced :: "encodedBatch \<Rightarrow> PublisherStats \<Rightarrow> PublisherStats" where
  "recordCoalesced batch st = st\<lparr>ct_CoalescedBatches := Suc (ct_CoalescedBatches st),
     ct_CoalescedSamples := ct_CoalescedSamples st + eb_samples batch\<rparr>"

definition count_queued :: "encodedBatch \<Rightarrow> PublisherStats \<Rightarrow> PublisherStats" where
  "count_queued batch st = st\<lparr>ct_QueuedBatches := Suc (ct_QueuedBatches st),
     ct_QueuedSamples := ct_QueuedSamples st + eb_samples batch,
     ct_UncompressedBytes := ct_UncompressedBytes st + eb_uncompressedBytes batch,
     ct_CompressedBytes := ct_CompressedBytes st + eb_compressedBytes batch\<rparr>"

definition submitBatch :: "encodedBatch \<Rightarrow> Publisher \<Rightarrow> Publisher \<times> go_error option" where
  "submitBatch batch p =
     (let p = activity_add p; (queue, admission) = tryEnqueue batch (pu_queue p); p = p\<lparr>pu_queue := queue\<rparr> in
      case admission of
        queueAccepted \<Rightarrow>
          (p\<lparr>pu_counters := recordMaxQueue (queue_len queue) (count_queued batch (pu_counters p))\<rparr>, None)
      | queueObsolete \<Rightarrow> (activity_done (releaseBatch batch p), Some ErrPublisherStopped)
      | queueFull \<Rightarrow>
          (activity_done (releaseBatch batch
             (p\<lparr>pu_counters := (pu_counters p)\<lparr>ct_QueueFull := Suc (ct_QueueFull (pu_counters p))\<rparr>\<rparr>)),
           Some ErrPushQueueFull))"

section \<open>Pages\<close>

record pageProcessResult =
  pr_BatchesQueued :: nat
  pr_SamplesQueued :: nat
  pr_SkippedMetadata :: nat
  pr_AlreadyPending :: nat
  pr_OversizedSamples :: nat
  pr_oversizedErr :: "go_error option"

definition no_results :: pageProcessResult where
  "no_results = \<lparr>pr_BatchesQueued = 0, pr_SamplesQueued = 0, pr_SkippedMetadata = 0, pr_AlreadyPending = 0,
     pr_OversizedSamples = 0, pr_oversizedErr = None\<rparr>"

record pageBatcher =
  pg_slot :: nat
  pg_cycle :: time
  pg_builders :: "batchBuilder option list"
  pg_result :: pageProcessResult

definition newPageBatcher :: "Publisher \<Rightarrow> nat \<Rightarrow> time \<Rightarrow> pageBatcher" where
  "newPageBatcher p slot cycle =
     \<lparr>pg_slot = slot, pg_cycle = cycle, pg_builders = replicate (nat (sp_Workers (pu_config p)) * 2) None,
      pg_result = no_results\<rparr>"

definition builder_keys :: "batchBuilder option \<Rightarrow> publishKey list" where
  "builder_keys b = (case b of None \<Rightarrow> [] | Some b \<Rightarrow> bb_keys b)"

definition batcher_cleanup :: "pageBatcher \<Rightarrow> Publisher \<Rightarrow> pageBatcher \<times> Publisher" where
  "batcher_cleanup b p =
     (b\<lparr>pg_builders := map (\<lambda>_. None) (pg_builders b)\<rparr>,
      fold (\<lambda>builder. releaseKeys (builder_keys builder)) (pg_builders b) p)"

fun policy_index :: "PublishPolicy \<Rightarrow> nat" where
  "policy_index PublishSourceTimestamp = 0"
| "policy_index PublishCycleTimestamp = 1"

definition set_builder :: "nat \<Rightarrow> batchBuilder option \<Rightarrow> pageBatcher \<Rightarrow> pageBatcher" where
  "set_builder index builder b = b\<lparr>pg_builders := (pg_builders b)[index := builder]\<rparr>"

definition count_batch :: "encodedBatch \<Rightarrow> pageBatcher \<Rightarrow> pageBatcher" where
  "count_batch batch b = b\<lparr>pg_result := (pg_result b)
     \<lparr>pr_BatchesQueued := Suc (pr_BatchesQueued (pg_result b)),
      pr_SamplesQueued := pr_SamplesQueued (pg_result b) + eb_samples batch\<rparr>\<rparr>"

text \<open>Giving up a page: the sample's own key and those of all builders are released.\<close>

definition give_up :: "publishKey list \<Rightarrow> go_error \<Rightarrow> pageBatcher \<Rightarrow> Publisher \<Rightarrow> pageBatcher \<times> Publisher \<times> go_error option" where
  "give_up keys err b p = (case batcher_cleanup b (releaseKeys keys p) of (b, p) \<Rightarrow> (b, p, Some err))"

definition batcher_add :: "Wire \<Rightarrow> PublishPolicy \<Rightarrow> nat \<Rightarrow> encodeSeries \<Rightarrow> pageBatcher \<Rightarrow> Publisher
    \<Rightarrow> pageBatcher \<times> Publisher \<times> go_error option" where
  "batcher_add wi policy lane sample b p =
     (let (p, fresh) = reserve (es_key sample) p in
      if \<not> fresh
      then (b\<lparr>pg_result := (pg_result b)\<lparr>pr_AlreadyPending := Suc (pr_AlreadyPending (pg_result b))\<rparr>\<rparr>, p, None)
      else
        (let index = lane * 2 + policy_index policy;
             fresh_builder = newBuilder (pu_encoder p) policy (pg_slot b) (to_UnixMilli (pg_cycle b)) lane;
             builder = (case pg_builders b ! index of None \<Rightarrow> fresh_builder | Some x \<Rightarrow> x) in
         case builder_add wi sample builder of
           (builder, added, Some err) \<Rightarrow>
             (set_builder index (Some builder)
                (b\<lparr>pg_result := (pg_result b)
                     \<lparr>pr_OversizedSamples := Suc (pr_OversizedSamples (pg_result b)),
                      pr_oversizedErr := (case pr_oversizedErr (pg_result b) of None \<Rightarrow> Some err | Some e \<Rightarrow> Some e)\<rparr>\<rparr>),
              releaseKeys [es_key sample] p, None)
         | (builder, True, None) \<Rightarrow> (set_builder index (Some builder) b, p, None)
         | (builder, False, None) \<Rightarrow>
             (let b = set_builder index (Some builder) b in
              case builder_encode wi builder of
                Inl err \<Rightarrow> give_up [es_key sample] err b p
              | Inr None \<Rightarrow> give_up [es_key sample] (PanicError ''nil batch'') b p
              | Inr (Some batch) \<Rightarrow>
                  (let b = set_builder index None b in
                   case submitBatch batch p of
                     (p, Some err) \<Rightarrow> give_up [es_key sample] err b p
                   | (p, None) \<Rightarrow>
                       (let b = set_builder index (Some fresh_builder) (count_batch batch b) in
                        case builder_add wi sample fresh_builder of
                          (builder, True, None) \<Rightarrow> (set_builder index (Some builder) b, p, None)
                        | (builder, added, Some err) \<Rightarrow> give_up [es_key sample] err b p
                        | (builder, False, None) \<Rightarrow>
                            give_up [es_key sample]
                              (ArgumentError (''series could not be added to an empty batch: '' @ es_seriesID sample)) b p)))))"

text \<open>\<open>finish_loop\<close> visits the builders by lane and policy, which is the order of their indices.\<close>

fun finish_loop :: "Wire \<Rightarrow> nat list \<Rightarrow> pageBatcher \<Rightarrow> Publisher \<Rightarrow> pageBatcher \<times> Publisher \<times> go_error option" where
  "finish_loop wi [] b p = (b, p, None)"
| "finish_loop wi (index # rest) b p =
     (case pg_builders b ! index of
        None \<Rightarrow> finish_loop wi rest b p
      | Some builder \<Rightarrow>
          (if builder_empty builder then finish_loop wi rest b p
           else
             (case builder_encode wi builder of
                Inl err \<Rightarrow> give_up [] err b p
              | Inr None \<Rightarrow> give_up [] (PanicError ''nil batch'') b p
              | Inr (Some batch) \<Rightarrow>
                  (let b = set_builder index None b in
                   case submitBatch batch p of
                     (p, Some err) \<Rightarrow> give_up [] err b p
                   | (p, None) \<Rightarrow> finish_loop wi rest (count_batch batch b) p))))"

definition batcher_finish :: "Wire \<Rightarrow> pageBatcher \<Rightarrow> Publisher \<Rightarrow> pageBatcher \<times> Publisher \<times> go_error option" where
  "batcher_finish wi b p = finish_loop wi [0..<nat (sp_Workers (pu_config p)) * 2] b p"

section \<open>Value pages\<close>

definition workerLaneForSeries :: "(string \<Rightarrow> 64 word) \<Rightarrow> string \<Rightarrow> int \<Rightarrow> nat" where
  "workerLaneForSeries fp itemID workerCount = unat (fp itemID) mod nat workerCount"

definition PublishSlotForSeries :: "(string \<Rightarrow> 64 word) \<Rightarrow> string \<Rightarrow> nat \<Rightarrow> go_error + nat" where
  "PublishSlotForSeries fp itemID slotCount =
     (if slotCount = 0 then Inl (ArgumentError ''publish slot count must be positive'')
      else Inr (unat (fp itemID) mod slotCount))"

definition item_key :: "PublishValue \<Rightarrow> publishKey" where
  "item_key v = \<lparr>pk_seriesID = ''item'' @ [char_of (0::nat)] @ pv_ItemID v, pk_generation = pv_ValueVersion v,
     pk_timestampMS = to_UnixMilli (pv_Timestamp v)\<rparr>"

text \<open>The sample of a value under a snapshot, unless its item is unknown, changed or without labels.\<close>

definition value_sample :: "MetadataSnapshot \<Rightarrow> PublishValue \<Rightarrow> encodeSeries option" where
  "value_sample snapshot v =
     (case mptr (sn_Items snapshot) (pv_ItemID v) of
        None \<Rightarrow> None
      | Some item \<Rightarrow>
          (if im_Version item \<noteq> pv_MetadataVersion v \<or> im_Labels item = [] then None
           else Some \<lparr>es_seriesID = pv_ItemID v, es_labels = im_Labels item, es_value = pv_Value v,
                      es_timestamp = pv_Timestamp v,
                      es_ack = Some \<lparr>pa_ItemID = pv_ItemID v, pa_ValueVersion = pv_ValueVersion v,
                                     pa_PublishedTimestamp = pv_Timestamp v\<rparr>,
                      es_key = item_key v\<rparr>))"

definition skip_value :: "pageBatcher \<Rightarrow> pageBatcher" where
  "skip_value b = b\<lparr>pg_result := (pg_result b)\<lparr>pr_SkippedMetadata := Suc (pr_SkippedMetadata (pg_result b))\<rparr>\<rparr>"

fun page_values :: "Wire \<Rightarrow> (string \<Rightarrow> 64 word) \<Rightarrow> MetadataSnapshot \<Rightarrow> PublishValue list \<Rightarrow> pageBatcher \<Rightarrow> Publisher
    \<Rightarrow> pageBatcher \<times> Publisher \<times> go_error option" where
  "page_values wi fp snapshot [] b p = (b, p, None)"
| "page_values wi fp snapshot (v # vs) b p =
     (case value_sample snapshot v of
        None \<Rightarrow> page_values wi fp snapshot vs (skip_value b) p
      | Some sample \<Rightarrow>
          (case batcher_add wi (pv_PublishPolicy v) (workerLaneForSeries fp (pv_ItemID v) (sp_Workers (pu_config p)))
                  sample b p of
             (b, p, Some err) \<Rightarrow> (b, p, Some err)
           | (b, p, None) \<Rightarrow> page_values wi fp snapshot vs b p))"

definition processPage :: "Wire \<Rightarrow> (string \<Rightarrow> 64 word) \<Rightarrow> MetadataSnapshot \<Rightarrow> nat \<Rightarrow> time \<Rightarrow> PublishValue list \<Rightarrow> Publisher
    \<Rightarrow> pageProcessResult \<times> Publisher \<times> go_error option" where
  "processPage wi fp snapshot slot cycle vals p =
     (case page_values wi fp snapshot vals (newPageBatcher p slot cycle) p of
        (b, p, Some err) \<Rightarrow> (pg_result b, p, Some err)
      | (b, p, None) \<Rightarrow> (case batcher_finish wi b p of (b, p, err) \<Rightarrow> (pg_result b, p, err)))"

end
