(* ===== verification/Publish_Cycle.thy ===== *)
theory Publish_Cycle
  imports Publisher Cache_Paging
begin

text \<open>
  The publish cycle of one slot and the worker loop of \<^verbatim>\<open>internal/promwrap/publisher.go\<close>.  \<open>ctx n\<close> is what the
  caller's context answers at its \<open>n\<close>-th check, \<open>read n\<close> what the value store answers to the \<open>n\<close>-th page request;
  both may change from call to call.  The page loop gets fuel, since it ends only when the store marks a last page;
  \<open>None\<close> is fuel used up.
\<close>

section \<open>Host series\<close>

record hostProcessResult =
  hr_page :: pageProcessResult
  hr_PagesRead :: nat
  hr_SeriesRead :: nat

definition mergePageProcessResult :: "pageProcessResult \<Rightarrow> pageProcessResult \<Rightarrow> pageProcessResult" where
  "mergePageProcessResult dst source =
     dst\<lparr>pr_BatchesQueued := pr_BatchesQueued dst + pr_BatchesQueued source,
         pr_SamplesQueued := pr_SamplesQueued dst + pr_SamplesQueued source,
         pr_SkippedMetadata := pr_SkippedMetadata dst + pr_SkippedMetadata source,
         pr_AlreadyPending := pr_AlreadyPending dst + pr_AlreadyPending source,
         pr_OversizedSamples := pr_OversizedSamples dst + pr_OversizedSamples source,
         pr_oversizedErr := (case pr_oversizedErr dst of None \<Rightarrow> pr_oversizedErr source | Some e \<Rightarrow> Some e)\<rparr>"

definition merge_into :: "pageProcessResult \<Rightarrow> hostProcessResult \<Rightarrow> hostProcessResult" where
  "merge_into source r = r\<lparr>hr_page := mergePageProcessResult (hr_page r) source\<rparr>"

definition host_sample :: "HostSeries \<Rightarrow> time \<Rightarrow> encodeSeries" where
  "host_sample series cycle =
     \<lparr>es_seriesID = hs_Key series, es_labels = hs_Labels series, es_value = 0x3FF0000000000000, es_timestamp = cycle,
      es_ack = None,
      es_key = \<lparr>pk_seriesID = hs_Key series, pk_generation = hs_Version series, pk_timestampMS = to_UnixMilli cycle\<rparr>\<rparr>"

definition host_slot :: "(string \<Rightarrow> 64 word) \<Rightarrow> nat \<Rightarrow> string \<Rightarrow> nat" where
  "host_slot fp slots hostID = unat (HostSeriesFingerprint fp hostID) mod slots mod 65536"

text \<open>\<open>finish_page\<close> is the local function \<^verbatim>\<open>finishPage\<close>: nothing without entries, otherwise a fresh batcher.\<close>

definition finish_page :: "Wire \<Rightarrow> nat \<Rightarrow> time \<Rightarrow> nat \<Rightarrow> hostProcessResult \<Rightarrow> pageBatcher \<Rightarrow> Publisher
    \<Rightarrow> hostProcessResult \<times> pageBatcher \<times> Publisher \<times> go_error option" where
  "finish_page wi slot cycle entries r b p =
     (if entries = 0 then (r, b, p, None)
      else
        (case batcher_finish wi b p of
           (b, p, err) \<Rightarrow>
             (let r = merge_into (pg_result b) r in
              (r\<lparr>hr_PagesRead := Suc (hr_PagesRead r)\<rparr>, newPageBatcher p slot cycle, p, err))))"

fun host_loop :: "Wire \<Rightarrow> (string \<Rightarrow> 64 word) \<Rightarrow> Names \<Rightarrow> (nat \<Rightarrow> go_error option) \<Rightarrow> MetadataSnapshot \<Rightarrow> nat \<Rightarrow> time
    \<Rightarrow> nat \<Rightarrow> string list \<Rightarrow> nat \<Rightarrow> hostProcessResult \<Rightarrow> pageBatcher \<Rightarrow> Publisher
    \<Rightarrow> hostProcessResult \<times> Publisher \<times> go_error option" where
  "host_loop wi fp nm ctx snapshot slot cycle i [] entries r b p =
     (case finish_page wi slot cycle entries r b p of (r, b, p, err) \<Rightarrow> (r, p, err))"
| "host_loop wi fp nm ctx snapshot slot cycle i (hostID # hostIDs) entries r b p =
     (case ctx i of
        Some err \<Rightarrow> (case batcher_cleanup b p of (b, p) \<Rightarrow> (merge_into (pg_result b) r, p, Some err))
      | None \<Rightarrow>
          (if host_slot fp (sp_SpreadSlots (pu_config p)) hostID \<noteq> slot
           then host_loop wi fp nm ctx snapshot slot cycle (Suc i) hostIDs entries r b p
           else
             (case ExportableHostSeries fp nm hostID (mptr (sn_Hosts snapshot) hostID) of
                None \<Rightarrow>
                  (let page = hr_page r; r = r\<lparr>hr_page := page\<lparr>pr_SkippedMetadata := Suc (pr_SkippedMetadata page)\<rparr>\<rparr> in
                   host_loop wi fp nm ctx snapshot slot cycle (Suc i) hostIDs entries r b p)
              | Some series \<Rightarrow>
                  (let r = r\<lparr>hr_SeriesRead := Suc (hr_SeriesRead r)\<rparr>; entries = Suc entries;
                       lane = unat (hs_Fingerprint series) mod nat (sp_Workers (pu_config p)) in
                   case batcher_add wi PublishCycleTimestamp lane (host_sample series cycle) b p of
                     (b, p, Some err) \<Rightarrow> (merge_into (pg_result b) r, p, Some err)
                   | (b, p, None) \<Rightarrow>
                       (if int entries = sp_PageSize (pu_config p)
                        then (case finish_page wi slot cycle entries r b p of
                                (r, b, p, Some err) \<Rightarrow> (r, p, Some err)
                              | (r, b, p, None) \<Rightarrow> host_loop wi fp nm ctx snapshot slot cycle (Suc i) hostIDs 0 r b p)
                        else host_loop wi fp nm ctx snapshot slot cycle (Suc i) hostIDs entries r b p)))))"

definition processHosts :: "Wire \<Rightarrow> (string \<Rightarrow> 64 word) \<Rightarrow> Names \<Rightarrow> (nat \<Rightarrow> go_error option) \<Rightarrow> MetadataSnapshot \<Rightarrow> nat
    \<Rightarrow> time \<Rightarrow> Publisher \<Rightarrow> hostProcessResult \<times> Publisher \<times> go_error option" where
  "processHosts wi fp nm ctx snapshot slot cycle p =
     host_loop wi fp nm ctx snapshot slot cycle 0 (sn_HostIDs snapshot) 0
       \<lparr>hr_page = no_results, hr_PagesRead = 0, hr_SeriesRead = 0\<rparr> (newPageBatcher p slot cycle) p"

section \<open>One slot\<close>

record PublishSlotResult =
  sr_Slot :: nat
  sr_CycleTimestamp :: time
  sr_HostPagesRead :: nat
  sr_HostSeriesRead :: nat
  sr_PagesRead :: nat
  sr_ValuesRead :: nat
  sr_page :: pageProcessResult
  sr_CoalescedBatches :: nat
  sr_CoalescedSamples :: nat

definition ready :: "Publisher \<Rightarrow> go_error option" where
  "ready p =
     (if pu_stopped p then Some ErrPublisherStopped
      else if \<not> pu_started p then Some ErrPublisherNotStarted
      else pu_ctxErr p)"

definition truncate_ms :: "time \<Rightarrow> time" where
  "truncate_ms t = t - t mod Millisecond"

definition normalizeCycle :: "nat \<Rightarrow> time \<Rightarrow> Publisher \<Rightarrow> Publisher \<times> time" where
  "normalizeCycle slot requested p =
     (let requested = truncate_ms requested in
      if pu_lastRequested p ! slot = requested then (p, pu_lastCycle p ! slot)
      else
        (let cycle = (if \<not> time_IsZero (pu_lastCycle p ! slot) \<and> \<not> requested > pu_lastCycle p ! slot
                      then time_Add (pu_lastCycle p ! slot) Millisecond else requested) in
         (p\<lparr>pu_lastRequested := (pu_lastRequested p)[slot := requested],
            pu_lastCycle := (pu_lastCycle p)[slot := cycle]\<rparr>, cycle)))"

text \<open>What happens to a batch a newer cycle of its slot replaces.\<close>

definition coalesce :: "encodedBatch \<Rightarrow> Publisher \<Rightarrow> Publisher" where
  "coalesce batch p =
     activity_done (releaseBatch batch (p\<lparr>pu_counters := recordCoalesced batch (pu_counters p)\<rparr>))"

definition begin_cycle :: "nat \<Rightarrow> time \<Rightarrow> Publisher \<Rightarrow> Publisher \<times> bool \<times> encodedBatch list" where
  "begin_cycle slot cycle p =
     (case beginLongCycle slot (to_UnixMilli cycle) (pu_queue p) of
        (queue, current, removed) \<Rightarrow> (fold coalesce removed (p\<lparr>pu_queue := queue\<rparr>), current, removed))"

definition add_page :: "pageProcessResult \<Rightarrow> nat \<Rightarrow> PublishSlotResult \<Rightarrow> PublishSlotResult" where
  "add_page page n r = r\<lparr>sr_PagesRead := Suc (sr_PagesRead r), sr_ValuesRead := sr_ValuesRead r + n,
     sr_page := mergePageProcessResult (sr_page r) page\<rparr>"

fun value_loop :: "Wire \<Rightarrow> (string \<Rightarrow> 64 word) \<Rightarrow> (nat \<Rightarrow> go_error option)
    \<Rightarrow> (nat \<Rightarrow> PublishCursor \<Rightarrow> time \<Rightarrow> int \<Rightarrow> go_error + PublishPage) \<Rightarrow> MetadataSnapshot \<Rightarrow> nat \<Rightarrow> time
    \<Rightarrow> nat \<Rightarrow> nat \<Rightarrow> PublishCursor \<Rightarrow> PublishSlotResult \<Rightarrow> Publisher
    \<Rightarrow> (PublishSlotResult \<times> Publisher \<times> go_error option) option" where
  "value_loop wi fp ctx read snapshot slot cycle 0 i cursor r p = None"
| "value_loop wi fp ctx read snapshot slot cycle (Suc n) i cursor r p =
     (case ctx i of
        Some err \<Rightarrow> Some (r, p, Some err)
      | None \<Rightarrow>
          (case read i cursor cycle (sp_PageSize (pu_config p)) of
             Inl err \<Rightarrow> Some (r, p, Some err)
           | Inr page \<Rightarrow>
               (case processPage wi fp snapshot slot cycle (pp_Values page) p of
                  (result, p, err) \<Rightarrow>
                    (let r = add_page result (length (pp_Values page)) r in
                     case err of
                       Some err \<Rightarrow> Some (r, p, errors_join [pr_oversizedErr (sr_page r), Some err])
                     | None \<Rightarrow>
                         (if pp_Done page then Some (r, p, pr_oversizedErr (sr_page r))
                          else if pp_Next page = cursor
                          then Some (r, p, Some (ArgumentError ''publish page cursor did not advance''))
                          else value_loop wi fp ctx read snapshot slot cycle n (Suc i) (pp_Next page) r p)))))"

definition PublishSlot :: "Wire \<Rightarrow> (string \<Rightarrow> 64 word) \<Rightarrow> Names \<Rightarrow> (nat \<Rightarrow> go_error option) \<Rightarrow> (nat \<Rightarrow> go_error option)
    \<Rightarrow> (nat \<Rightarrow> PublishCursor \<Rightarrow> time \<Rightarrow> int \<Rightarrow> go_error + PublishPage) \<Rightarrow> MetadataSnapshot option \<Rightarrow> nat
    \<Rightarrow> nat \<Rightarrow> time \<Rightarrow> Publisher \<Rightarrow> (PublishSlotResult \<times> Publisher \<times> go_error option) option" where
  "PublishSlot wi fp nm host_ctx page_ctx read snapshot fuel slot requested p =
     (let r = \<lparr>sr_Slot = 0, sr_CycleTimestamp = 0, sr_HostPagesRead = 0, sr_HostSeriesRead = 0, sr_PagesRead = 0,
               sr_ValuesRead = 0, sr_page = no_results, sr_CoalescedBatches = 0, sr_CoalescedSamples = 0\<rparr> in
      if slot \<ge> sp_SpreadSlots (pu_config p) then Some (r, p, Some (ArgumentError ''publish slot out of range''))
      else if time_IsZero requested then Some (r, p, Some (ArgumentError ''cycle timestamp must not be zero''))
      else
        (case ready p of
           Some err \<Rightarrow> Some (r, p, Some err)
         | None \<Rightarrow>
             (let (p, cycle) = normalizeCycle slot requested p;
                  r = r\<lparr>sr_Slot := slot, sr_CycleTimestamp := cycle\<rparr>;
                  (p, current, removed) = begin_cycle slot cycle p in
              if \<not> current then Some (r, p, None)
              else
                (let r = r\<lparr>sr_CoalescedBatches := length removed,
                           sr_CoalescedSamples := sum_list (map eb_samples removed)\<rparr> in
                 case snapshot of
                   None \<Rightarrow> Some (r, p, Some (ArgumentError ''metadata snapshot is nil''))
                 | Some snapshot \<Rightarrow>
                     (case processHosts wi fp nm host_ctx snapshot slot cycle p of
                        (hosts, p, err) \<Rightarrow>
                          (let r = r\<lparr>sr_HostPagesRead := hr_PagesRead hosts, sr_HostSeriesRead := hr_SeriesRead hosts,
                                     sr_page := hr_page hosts\<rparr> in
                           case err of
                             Some err \<Rightarrow> Some (r, p, errors_join [pr_oversizedErr (hr_page hosts), Some err])
                           | None \<Rightarrow>
                               value_loop wi fp page_ctx read snapshot slot cycle fuel 0
                                 \<lparr>pc_Shard = 0, pc_Sequence = 0\<rparr> r p))))))"

section \<open>Workers and life cycle\<close>

text \<open>\<open>acked\<close> is what \<^verbatim>\<open>AckPublished\<close> answers for the batch's acknowledgements.\<close>

definition count_acks :: "AckResult \<Rightarrow> PublisherStats \<Rightarrow> PublisherStats" where
  "count_acks acked st = st\<lparr>ct_AckApplied := ct_AckApplied st + ak_Applied acked,
     ct_AckStale := ct_AckStale st + ak_Stale acked, ct_AckNotFound := ct_AckNotFound st + ak_NotFound acked\<rparr>"

definition count_delivery :: "encodedBatch \<Rightarrow> deliveryResult \<Rightarrow> AckResult \<Rightarrow> PublisherStats \<Rightarrow> PublisherStats" where
  "count_delivery batch delivery acked st =
     (let st = (if dl_attempts delivery > 1
                then st\<lparr>ct_RetryAttempts := ct_RetryAttempts st + (dl_attempts delivery - 1)\<rparr> else st) in
      if dl_err delivery = None
      then (let st = (if eb_acks batch \<noteq> [] then count_acks acked st else st) in
            st\<lparr>ct_SentBatches := Suc (ct_SentBatches st), ct_SentSamples := ct_SentSamples st + eb_samples batch\<rparr>)
      else
        (let st = st\<lparr>ct_FailedBatches := Suc (ct_FailedBatches st)\<rparr> in
         if dl_class delivery = DeliveryPermanent
         then st\<lparr>ct_PermanentFailures := Suc (ct_PermanentFailures st)\<rparr>
         else st\<lparr>ct_RetryableFailures := Suc (ct_RetryableFailures st)\<rparr>))"

definition finish_delivery :: "encodedBatch \<Rightarrow> deliveryResult \<Rightarrow> AckResult \<Rightarrow> Publisher \<Rightarrow> Publisher" where
  "finish_delivery batch delivery acked p =
     activity_done (releaseBatch batch (p\<lparr>pu_counters := count_delivery batch delivery acked (pu_counters p)\<rparr>))"

text \<open>The acknowledgements a delivery sends to the value store.\<close>

definition delivery_acks :: "encodedBatch \<Rightarrow> deliveryResult \<Rightarrow> PublishAck list" where
  "delivery_acks batch delivery = (if dl_err delivery = None then eb_acks batch else [])"

definition publisher_start :: "Publisher \<Rightarrow> Publisher \<times> go_error option" where
  "publisher_start p =
     (if pu_stopped p then (p, Some ErrPublisherStopped)
      else if pu_started p then (p, None)
      else (p\<lparr>pu_started := True\<rparr>, None))"

definition publisher_stop :: "Publisher \<Rightarrow> Publisher" where
  "publisher_stop p =
     (if pu_stopped p then p
      else
        (let p = p\<lparr>pu_stopped := True,
                   pu_ctxErr := (if pu_started p \<and> pu_ctxErr p = None then Some ContextCanceled else pu_ctxErr p)\<rparr>;
             (queue, remaining) = queue_close (pu_queue p)
         in fold (\<lambda>batch p. activity_done (releaseBatch batch p)) remaining (p\<lparr>pu_queue := queue\<rparr>)))"

end
