(* ===== verification/Publisher_Laws.thy ===== *)
theory Publisher_Laws
  imports Publish_Cycle
begin

text \<open>
  The publisher's bookkeeping.  \<open>pub_inv p own n\<close>: the reserved keys are, each once, the keys of the queued
  batches and the keys \<open>own\<close> that page batchers and sending workers hold; the activity count is the number of
  queued batches plus \<open>n\<close> batches being sent, and the idle channel is closed exactly at zero.
\<close>

definition workers_of :: "Publisher \<Rightarrow> nat" where
  "workers_of p = nat (sp_Workers (pu_config p))"

definition batch_keys :: "encodedBatch list \<Rightarrow> publishKey multiset" where
  "batch_keys bs = mset (concat (map eb_keys bs))"

definition reserved_keys :: "Publisher \<Rightarrow> publishKey multiset" where
  "reserved_keys p = mset (mkeys (pu_reservations p))"

definition pub_inv :: "Publisher \<Rightarrow> publishKey multiset \<Rightarrow> nat \<Rightarrow> bool" where
  "pub_inv p own n \<longleftrightarrow> wf_map (pu_reservations p)
     \<and> reserved_keys p = batch_keys (queued (pu_queue p)) + own
     \<and> pu_pending p = int (length (queued (pu_queue p)) + n) \<and> (pu_idle p \<longleftrightarrow> pu_pending p = 0)
     \<and> queue_inv (workers_of p) (pu_queue p) \<and> 0 < lq_capacity (pu_queue p) \<and> encoder_ok (pu_encoder p)"

text \<open>What an operation leaves alone, and that it wakes the workers of the lanes it fills.\<close>

definition wakes :: "nat \<Rightarrow> laneQueue \<Rightarrow> laneQueue \<Rightarrow> bool" where
  "wakes workers q q' \<longleftrightarrow> (\<forall>lane < workers. (lq_notify q ! lane \<longrightarrow> lq_notify q' ! lane)
     \<and> (lq_lanes q' ! lane \<noteq> [] \<or> lq_closed q' \<longrightarrow> lq_lanes q ! lane \<noteq> [] \<or> lq_closed q \<or> lq_notify q' ! lane))"

definition pub_frame :: "Publisher \<Rightarrow> Publisher \<Rightarrow> bool" where
  "pub_frame p p' \<longleftrightarrow> pu_config p' = pu_config p \<and> pu_encoder p' = pu_encoder p \<and> pu_worker p' = pu_worker p
     \<and> pu_started p' = pu_started p \<and> pu_stopped p' = pu_stopped p \<and> pu_ctxErr p' = pu_ctxErr p
     \<and> pu_lastRequested p' = pu_lastRequested p \<and> pu_lastCycle p' = pu_lastCycle p
     \<and> lq_latestCycles (pu_queue p') = lq_latestCycles (pu_queue p)
     \<and> lq_closed (pu_queue p') = lq_closed (pu_queue p) \<and> wakes (workers_of p) (pu_queue p) (pu_queue p')"

lemma wakes_refl: "wakes w q q"
  by (simp add: wakes_def)

lemma wakes_trans: "wakes w q q' \<Longrightarrow> wakes w q' q'' \<Longrightarrow> wakes w q q''"
  unfolding wakes_def by meson

lemma pub_frame_refl: "pub_frame p p"
  by (simp add: pub_frame_def wakes_refl)

lemma pub_frame_trans:
  assumes "pub_frame p p'" "pub_frame p' p''"
  shows "pub_frame p p''"
proof -
  have "workers_of p' = workers_of p" using assms(1) by (simp add: pub_frame_def workers_of_def)
  then show ?thesis using assms unfolding pub_frame_def by (metis wakes_trans)
qed

lemma pub_frame_workers: "pub_frame p p' \<Longrightarrow> workers_of p' = workers_of p"
  by (simp add: pub_frame_def workers_of_def)

section \<open>Reservations\<close>

lemma mset_mdel:
  assumes "wf_map m" "k \<in> set (mkeys m)"
  shows "mset (mkeys (mdel k m)) = mset (mkeys m) - {#k#}"
proof -
  have "mkeys (mdel k m) = removeAll k (mkeys m)" by (simp add: delete_keys)
  also have "\<dots> = remove1 k (mkeys m)" using assms(1) by (simp add: wf_map_def distinct_remove1_removeAll)
  finally show ?thesis by (simp add: mset_remove1)
qed

lemma mset_mdels:
  "wf_map m \<Longrightarrow> mset ks \<subseteq># mset (mkeys m) \<Longrightarrow>
     wf_map (fold mdel ks m) \<and> mset (mkeys (fold mdel ks m)) = mset (mkeys m) - mset ks"
proof (induction ks arbitrary: m)
  case (Cons k ks)
  from Cons.prems(2) have "k \<in># mset (mkeys m)" by (simp add: insert_subset_eq_iff)
  then have k: "k \<in> set (mkeys m)" by simp
  have m': "mset (mkeys (mdel k m)) = mset (mkeys m) - {#k#}" by (rule mset_mdel [OF Cons.prems(1) k])
  have "mset ks \<subseteq># mset (mkeys (mdel k m))" using Cons.prems(2) unfolding m' by (simp add: insert_subset_eq_iff)
  from Cons.IH [OF wf_map_del [OF Cons.prems(1)] this] show ?case unfolding m' by simp
qed simp

lemma releaseKeys_inv:
  assumes "pub_inv p own n" "mset ks \<subseteq># own"
  shows "pub_inv (releaseKeys ks p) (own - mset ks) n"
proof -
  have wf: "wf_map (pu_reservations p)" and r: "reserved_keys p = batch_keys (queued (pu_queue p)) + own"
    using assms(1) by (simp_all add: pub_inv_def)
  have "mset ks \<subseteq># mset (mkeys (pu_reservations p))"
    using r assms(2) unfolding reserved_keys_def by (metis mset_subset_eq_add_right subset_mset.order_trans)
  from mset_mdels [OF wf this] have m: "wf_map (fold mdel ks (pu_reservations p))"
    "mset (mkeys (fold mdel ks (pu_reservations p))) = batch_keys (queued (pu_queue p)) + (own - mset ks)"
    using r multiset_diff_union_assoc [OF assms(2)] by (simp_all only: reserved_keys_def)
  show ?thesis using assms(1) m by (simp only: pub_inv_def releaseKeys_def reserved_keys_def workers_of_def Publisher.select_convs
      Publisher.update_convs Publisher.surjective) (simp add: releaseKeys_def)
qed

lemma releaseKeys_frame: "pub_frame p (releaseKeys ks p)"
  by (simp add: pub_frame_def releaseKeys_def wakes_refl)

lemma releaseKeys_sel [simp]:
  "pu_queue (releaseKeys ks p) = pu_queue p" "pu_config (releaseKeys ks p) = pu_config p"
  "pu_encoder (releaseKeys ks p) = pu_encoder p" "pu_pending (releaseKeys ks p) = pu_pending p"
  by (simp_all add: releaseKeys_def)

lemma reserve_cases:
  assumes "pub_inv p own n" "reserve k p = (p', got)"
  obtains (pending) "\<not> got" "p' = p" "k \<in># reserved_keys p"
  | (fresh) "got" "pub_inv p' (add_mset k own) n" "pub_frame p p'" "reserved_keys p' = add_mset k (reserved_keys p)"
      "pu_queue p' = pu_queue p" "k \<notin># reserved_keys p"
proof (cases "mget (pu_reservations p) k")
  case None
  then have new: "k \<notin> set (mkeys (pu_reservations p))" by (simp only: mget_None_iff not_False_eq_True)
  have p': "p' = p\<lparr>pu_reservations := mput k () (pu_reservations p)\<rparr>" and f: "got"
    using assms(2) None by (auto simp: reserve_def)
  have "mkeys (mput k () (pu_reservations p)) = mkeys (pu_reservations p) @ [k]" by (simp only: mkeys_put new if_False)
  then have r: "reserved_keys p' = add_mset k (reserved_keys p)" by (simp add: reserved_keys_def p')
  have "pub_inv p' (add_mset k own) n" using assms(1) r by (simp add: pub_inv_def p' workers_of_def)
  moreover have "pub_frame p p'" by (simp add: pub_frame_def p' wakes_refl)
  moreover have "k \<notin># reserved_keys p" unfolding reserved_keys_def set_mset_mset by (rule new)
  ultimately show thesis using f r by (intro fresh) (simp_all add: p')
next
  case (Some u)
  then have "k \<in># reserved_keys p" unfolding reserved_keys_def set_mset_mset by (rule mget_in)
  then show thesis using assms(2) Some by (intro pending) (auto simp: reserve_def)
qed

section \<open>Submission\<close>

lemma batch_keys_add: "mset bs' = add_mset b (mset bs) \<Longrightarrow> batch_keys bs' = batch_keys bs + mset (eb_keys b)"
proof -
  assume "mset bs' = add_mset b (mset bs)"
  then have "mset (map eb_keys bs') = mset (map eb_keys (b # bs))" by simp
  then have "\<Sum>\<^sub># (image_mset mset (mset (map eb_keys bs'))) = \<Sum>\<^sub># (image_mset mset (mset (map eb_keys (b # bs))))" by simp
  moreover have "mset (concat xss) = \<Sum>\<^sub># (image_mset mset (mset xss))" for xss :: "publishKey list list"
    by (induction xss) simp_all
  ultimately show ?thesis by (simp add: batch_keys_def add.commute)
qed

lemma batch_keys_perm: "mset bs = mset bs' \<Longrightarrow> batch_keys bs = batch_keys bs'"
proof -
  assume m: "mset bs = mset bs'"
  have "mset (concat xss) = \<Sum>\<^sub># (image_mset mset (mset xss))" for xss :: "publishKey list list"
    by (induction xss) simp_all
  then show ?thesis using m by (simp add: batch_keys_def)
qed

lemma batch_keys_append: "batch_keys (bs @ bs') = batch_keys bs + batch_keys bs'"
  by (simp add: batch_keys_def)

lemma queued_length: "mset bs' = add_mset b (mset bs) \<Longrightarrow> length bs' = Suc (length bs)"
  by (metis size_add_mset size_mset)

lemma submitBatch_cases:
  assumes inv: "pub_inv p own n" and run: "submitBatch b p = (p', err)" and own: "mset (eb_keys b) \<subseteq># own"
    and lane: "eb_lane b < workers_of p" and cur: "current_cycle (pu_queue p) b"
  obtains (accepted) "err = None" "pub_inv p' (own - mset (eb_keys b)) n" "pub_frame p p'"
      "reserved_keys p' = reserved_keys p" "mset (queued (pu_queue p')) = add_mset b (mset (queued (pu_queue p)))"
  | (full) "err = Some ErrPushQueueFull" "pub_inv p' (own - mset (eb_keys b)) n" "pub_frame p p'"
      "lq_size (pu_queue p) = lq_capacity (pu_queue p)"
  | (stopped) "err = Some ErrPublisherStopped" "pub_inv p' (own - mset (eb_keys b)) n" "pub_frame p p'"
      "lq_closed (pu_queue p)"
proof -
  obtain q r where q: "tryEnqueue b (pu_queue p) = (q, r)" by (metis surj_pair)
  have qi: "queue_inv (workers_of p) (pu_queue p)" using inv by (simp add: pub_inv_def)
  have idle: "pu_idle p \<longleftrightarrow> pu_pending p = 0" "0 \<le> pu_pending p" using inv by (simp_all add: pub_inv_def)
  have drop: "pub_inv (activity_done (releaseBatch b (p\<lparr>pu_idle := x, pu_pending := pu_pending p + 1, pu_queue := pu_queue p, pu_counters := c\<rparr>)))
      (own - mset (eb_keys b)) n"
    "pub_frame p (activity_done (releaseBatch b (p\<lparr>pu_idle := x, pu_pending := pu_pending p + 1, pu_queue := pu_queue p, pu_counters := c\<rparr>)))"
    if x: "x = (if pu_pending p = 0 then False else pu_idle p)" for x c
  proof -
    have "pub_inv (releaseKeys (eb_keys b) p) (own - mset (eb_keys b)) n" by (rule releaseKeys_inv [OF inv own])
    then show "pub_inv (activity_done (releaseBatch b (p\<lparr>pu_idle := x, pu_pending := pu_pending p + 1, pu_queue := pu_queue p, pu_counters := c\<rparr>)))
      (own - mset (eb_keys b)) n"
      using idle x by (auto simp: pub_inv_def activity_done_def releaseBatch_def releaseKeys_def reserved_keys_def workers_of_def)
  qed (simp add: pub_frame_def activity_done_def releaseBatch_def releaseKeys_def wakes_refl)
  show thesis
  proof (cases rule: tryEnqueue_cases [OF qi q lane])
    case 1
    then have c: "lq_closed (pu_queue p)" using cur by (auto simp: current_cycle_def)
    have "p' = activity_done (releaseBatch b (p\<lparr>pu_idle := (if pu_pending p = 0 then False else pu_idle p),
        pu_pending := pu_pending p + 1, pu_queue := pu_queue p, pu_counters := pu_counters p\<rparr>))" and "err = Some ErrPublisherStopped"
      using run 1 q by (simp_all add: submitBatch_def activity_add_def)
    then show thesis using c drop [OF refl] by (metis stopped)
  next
    case 2
    have "p' = activity_done (releaseBatch b (p\<lparr>pu_idle := (if pu_pending p = 0 then False else pu_idle p),
        pu_pending := pu_pending p + 1, pu_queue := pu_queue p,
        pu_counters := (pu_counters p)\<lparr>ct_QueueFull := Suc (ct_QueueFull (pu_counters p))\<rparr>\<rparr>))" and "err = Some ErrPushQueueFull"
      using run 2 q by (simp_all add: submitBatch_def activity_add_def)
    then show thesis using 2 drop [OF refl] by (metis full)
  next
    case 3
    have p': "p' = p\<lparr>pu_idle := (if pu_pending p = 0 then False else pu_idle p), pu_pending := pu_pending p + 1,
        pu_queue := q, pu_counters := recordMaxQueue (queue_len q) (count_queued b (pu_counters p))\<rparr>" and e: "err = None"
      using run 3(1) q by (simp_all add: submitBatch_def activity_add_def)
    have keys: "batch_keys (queued q) = batch_keys (queued (pu_queue p)) + mset (eb_keys b)" by (rule batch_keys_add [OF 3(3)])
    have sum: "batch_keys (queued q) + (own - mset (eb_keys b)) = batch_keys (queued (pu_queue p)) + own"
      unfolding keys using own by (simp add: add.assoc subset_mset.add_diff_inverse)
    have "pub_inv p' (own - mset (eb_keys b)) n"
      using inv 3(9) cur queued_length [OF 3(3)] idle sum 3(8)
      by (simp add: pub_inv_def p' reserved_keys_def workers_of_def)
    moreover have "wakes (workers_of p) (pu_queue p) q"
      using qi lane by (auto simp: wakes_def 3(4,5,7) nth_list_update queue_inv_def)
    then have "pub_frame p p'" by (simp add: pub_frame_def p' 3(6,7))
    ultimately show thesis using e 3(3) by (intro accepted) (simp_all add: p' reserved_keys_def)
  qed
qed

section \<open>Page batchers\<close>

definition batcher_own :: "pageBatcher \<Rightarrow> publishKey multiset" where
  "batcher_own b = mset (concat (map builder_keys (pg_builders b)))"

definition builder_at :: "Wire \<Rightarrow> batchEncoder \<Rightarrow> pageBatcher \<Rightarrow> nat \<Rightarrow> batchBuilder \<Rightarrow> bool" where
  "builder_at wi e b i x \<longleftrightarrow> builder_ok wi e x \<and> bb_lane x = i div 2 \<and> policy_index (bb_policy x) = i mod 2
     \<and> bb_slot x = pg_slot b \<and> bb_cycleMS x = to_UnixMilli (pg_cycle b)"

definition batcher_ok :: "Wire \<Rightarrow> Publisher \<Rightarrow> pageBatcher \<Rightarrow> bool" where
  "batcher_ok wi p b \<longleftrightarrow> length (pg_builders b) = workers_of p * 2
     \<and> (\<forall>i < workers_of p * 2. \<forall>x. pg_builders b ! i = Some x \<longrightarrow> builder_at wi (pu_encoder p) b i x)
     \<and> mget (lq_latestCycles (pu_queue p)) (pg_slot b) = Some (to_UnixMilli (pg_cycle b))"

lemma newPageBatcher_ok:
  "mget (lq_latestCycles (pu_queue p)) slot = Some (to_UnixMilli cycle) \<Longrightarrow> batcher_ok wi p (newPageBatcher p slot cycle)"
  "batcher_own (newPageBatcher p slot cycle) = {#}"
proof -
  have "concat (map builder_keys (replicate m None)) = []" for m by (induction m) (simp_all add: builder_keys_def)
  then show "batcher_own (newPageBatcher p slot cycle) = {#}"
    unfolding batcher_own_def newPageBatcher_def by (simp only: pageBatcher.select_convs mset.simps)
next
  assume "mget (lq_latestCycles (pu_queue p)) slot = Some (to_UnixMilli cycle)"
  then show "batcher_ok wi p (newPageBatcher p slot cycle)"
    by (simp add: batcher_ok_def newPageBatcher_def workers_of_def)
qed

lemma batcher_ok_frame: "batcher_ok wi p b \<Longrightarrow> pub_frame p p' \<Longrightarrow> batcher_ok wi p' b"
  by (simp add: batcher_ok_def pub_frame_def workers_of_def)

lemma batcher_ok_result: "batcher_ok wi p (b\<lparr>pg_result := r\<rparr>) = batcher_ok wi p b"
  by (simp add: batcher_ok_def builder_at_def)

lemma batcher_own_result [simp]: "batcher_own (b\<lparr>pg_result := r\<rparr>) = batcher_own b"
  by (simp add: batcher_own_def)

lemma batcher_own_set:
  assumes "i < length (pg_builders b)"
  shows "batcher_own (set_builder i x b) + mset (builder_keys (pg_builders b ! i)) = batcher_own b + mset (builder_keys x)"
  using mset_concat_update [of i "map builder_keys (pg_builders b)" "builder_keys x"] assms
  by (simp add: batcher_own_def set_builder_def map_update)

lemma batcher_ok_set:
  assumes "batcher_ok wi p b" "\<And>y. x = Some y \<Longrightarrow> builder_at wi (pu_encoder p) b i y"
  shows "batcher_ok wi p (set_builder i x b)"
proof -
  have "builder_at wi (pu_encoder p) (set_builder i x b) ia y"
    if ia: "ia < workers_of p * 2" and y: "pg_builders (set_builder i x b) ! ia = Some y" for ia y
  proof (cases "ia = i")
    case True
    then have "x = Some y" using ia y assms(1) by (simp add: batcher_ok_def set_builder_def)
    from assms(2) [OF this] show ?thesis using True by (simp add: builder_at_def set_builder_def)
  next
    case False
    then have "pg_builders b ! ia = Some y" using y by (simp add: set_builder_def)
    then have "builder_at wi (pu_encoder p) b ia y" using assms(1) ia by (simp add: batcher_ok_def)
    then show ?thesis by (simp add: builder_at_def set_builder_def)
  qed
  then show ?thesis using assms(1) by (simp add: batcher_ok_def) (simp add: set_builder_def)
qed

lemma set_builder_sel [simp]:
  "pg_slot (set_builder i x b) = pg_slot b" "pg_cycle (set_builder i x b) = pg_cycle b"
  "pg_result (set_builder i x b) = pg_result b" "length (pg_builders (set_builder i x b)) = length (pg_builders b)"
  "i < length (pg_builders b) \<Longrightarrow> pg_builders (set_builder i x b) ! i = x"
  by (simp_all add: set_builder_def)

lemma count_batch_sel [simp]:
  "batcher_own (count_batch eb b) = batcher_own b" "batcher_ok wi p (count_batch eb b) = batcher_ok wi p b"
  "pg_builders (count_batch eb b) = pg_builders b" "pg_slot (count_batch eb b) = pg_slot b"
  "pg_cycle (count_batch eb b) = pg_cycle b"
  by (simp_all add: count_batch_def batcher_ok_result)

lemma cleanup_releases:
  assumes "pub_inv p (rest + mset (concat (map builder_keys bs))) n"
  shows "pub_inv (fold (\<lambda>builder. releaseKeys (builder_keys builder)) bs p) rest n
    \<and> pub_frame p (fold (\<lambda>builder. releaseKeys (builder_keys builder)) bs p)"
  using assms
proof (induction bs arbitrary: p)
  case Nil
  then show ?case by (simp add: pub_frame_refl)
next
  case (Cons x bs)
  have "pub_inv (releaseKeys (builder_keys x) p) (rest + mset (concat (map builder_keys (x # bs))) - mset (builder_keys x)) n"
    by (rule releaseKeys_inv [OF Cons.prems]) simp
  then have "pub_inv (releaseKeys (builder_keys x) p) (rest + mset (concat (map builder_keys bs))) n"
    by (simp add: add.commute add.left_commute)
  note step = Cons.IH [OF this]
  then have "pub_frame p (fold (\<lambda>builder. releaseKeys (builder_keys builder)) bs (releaseKeys (builder_keys x) p))"
    by (elim conjE) (rule pub_frame_trans [OF releaseKeys_frame])
  then show ?case using step by simp
qed

lemma give_up_inv:
  assumes inv: "pub_inv p (rest + mset ks + batcher_own b) n" and ok: "batcher_ok wi p b"
    and run: "give_up ks e b p = (b', p', err)"
  shows "pub_inv p' (rest + batcher_own b') n" "batcher_own b' = {#}" "batcher_ok wi p' b'" "pub_frame p p'" "err = Some e"
    "pg_result b' = pg_result b"
proof -
  let ?p = "releaseKeys ks p"
  have "rest + mset ks + batcher_own b - mset ks = rest + batcher_own b" by (simp add: add.commute add.left_commute)
  then have "pub_inv ?p (rest + batcher_own b) n"
    using releaseKeys_inv [OF inv, of ks] by simp
  from cleanup_releases [OF this [unfolded batcher_own_def]]
  have c: "pub_inv p' rest n" "pub_frame ?p p'" and b': "b' = b\<lparr>pg_builders := map (\<lambda>_. None) (pg_builders b)\<rparr>" and "err = Some e"
    using run by (auto simp: give_up_def batcher_cleanup_def)
  have none: "concat (map builder_keys (map (\<lambda>_. None) xs)) = []" for xs :: "batchBuilder option list"
    by (induction xs) (simp_all add: builder_keys_def)
  then show own: "batcher_own b' = {#}" by (simp add: batcher_own_def b' del: map_map)
  show "pub_inv p' (rest + batcher_own b') n" using c(1) own by simp
  show f: "pub_frame p p'" by (rule pub_frame_trans [OF releaseKeys_frame c(2)])
  have "batcher_ok wi p b'" using ok by (simp add: batcher_ok_def b')
  then show "batcher_ok wi p' b'" by (rule batcher_ok_frame [OF _ f])
  show "err = Some e" "pg_result b' = pg_result b" by fact (simp add: b')
qed

text \<open>Submitting the builder at an index.\<close>

lemma submit_builder:
  assumes inv: "pub_inv p (rest + batcher_own b) n" and ok: "batcher_ok wi p b" and i: "i < workers_of p * 2"
    and x: "pg_builders b ! i = Some x" and enc: "builder_encode wi x = Inr (Some batch)"
    and run: "submitBatch batch p = (p', err)"
  shows "pub_inv p' (rest + batcher_own (set_builder i None b)) n" "batcher_ok wi p' (set_builder i None b)"
    "pub_frame p p'" "err = None \<Longrightarrow> reserved_keys p' = reserved_keys p"
    "err \<noteq> None \<Longrightarrow> err = Some ErrPushQueueFull \<or> lq_closed (pu_queue p)"
    "batcher_own b = batcher_own (set_builder i None b) + mset (eb_keys batch)" "eb_samples batch = length (eb_keys batch)"
    "err = None \<Longrightarrow> mset (queued (pu_queue p')) = add_mset batch (mset (queued (pu_queue p)))"
proof -
  have at: "builder_at wi (pu_encoder p) b i x" using ok i x by (simp add: batcher_ok_def)
  have of: "batch_of x batch" using builder_encode_batch [OF enc] ..
  then have keys: "eb_keys batch = bb_keys x" and l: "eb_lane batch = i div 2" using at by (simp_all add: batch_of_def builder_at_def)
  show "eb_samples batch = length (eb_keys batch)" using of at by (simp add: batch_of_def builder_at_def builder_ok_def)
  have len: "i < length (pg_builders b)" using ok i by (simp add: batcher_ok_def)
  show split: "batcher_own b = batcher_own (set_builder i None b) + mset (eb_keys batch)"
    using batcher_own_set [OF len, of None] by (simp add: x keys builder_keys_def)
  have sub: "mset (eb_keys batch) \<subseteq># rest + batcher_own b" unfolding split by simp
  have rest: "rest + batcher_own b - mset (eb_keys batch) = rest + batcher_own (set_builder i None b)"
    unfolding split by simp
  have lane: "eb_lane batch < workers_of p" using l i by simp
  have cur: "current_cycle (pu_queue p) batch"
    using of at ok by (auto simp: current_cycle_def batch_of_def builder_at_def batcher_ok_def)
  show "pub_inv p' (rest + batcher_own (set_builder i None b)) n" "pub_frame p p'"
    "err = None \<Longrightarrow> reserved_keys p' = reserved_keys p"
    "err \<noteq> None \<Longrightarrow> err = Some ErrPushQueueFull \<or> lq_closed (pu_queue p)"
    "err = None \<Longrightarrow> mset (queued (pu_queue p')) = add_mset batch (mset (queued (pu_queue p)))"
    using submitBatch_cases [OF inv run sub lane cur] unfolding rest by (metis option.distinct(1))+
  show "batcher_ok wi p' (set_builder i None b)"
    by (rule batcher_ok_frame [OF batcher_ok_set [OF ok] \<open>pub_frame p p'\<close>]) simp
qed

end
