(* ===== verification/Page_Laws.thy ===== *)
theory Page_Laws
  imports Publisher_Laws
begin

text \<open>
  The page batcher keeps the publisher's bookkeeping whatever happens to a page: every sample it takes is counted
  once, its key stays reserved while the sample is in a builder or queued, and a page that is given up releases all
  its keys.
\<close>

definition page_good :: "Wire \<Rightarrow> publishKey multiset \<Rightarrow> nat \<Rightarrow> Publisher \<Rightarrow> pageBatcher \<Rightarrow> bool" where
  "page_good wi rest n p b \<longleftrightarrow> pub_inv p (rest + batcher_own b) n \<and> batcher_ok wi p b"

text \<open>Every value a page has seen: queued, still in a builder, pending already, oversized or without metadata.\<close>

definition page_total :: "pageBatcher \<Rightarrow> nat" where
  "page_total b = pr_SamplesQueued (pg_result b) + size (batcher_own b) + pr_AlreadyPending (pg_result b)
     + pr_OversizedSamples (pg_result b) + pr_SkippedMetadata (pg_result b)"

definition queued_keys :: "Publisher \<Rightarrow> publishKey multiset" where
  "queued_keys p = batch_keys (queued (pu_queue p))"

definition progress :: "Publisher \<Rightarrow> pageBatcher \<Rightarrow> Publisher \<Rightarrow> pageBatcher \<Rightarrow> nat \<Rightarrow> bool" where
  "progress p b p' b' d \<longleftrightarrow> reserved_keys p \<subseteq># reserved_keys p' \<and> page_total b' = page_total b + d
     \<and> pr_SamplesQueued (pg_result b') + size (queued_keys p) = pr_SamplesQueued (pg_result b) + size (queued_keys p')"

lemma progress_refl: "progress p b p b 0"
  by (simp add: progress_def)

lemma progress_trans: "progress p b p' b' d \<Longrightarrow> progress p' b' p'' b'' e \<Longrightarrow> progress p b p'' b'' (d + e)"
  unfolding progress_def by (elim conjE, intro conjI, erule (1) subset_mset.order_trans) simp_all

lemma page_good_new:
  assumes "pub_inv p rest n" "mget (lq_latestCycles (pu_queue p)) slot = Some (to_UnixMilli cycle)"
  shows "page_good wi rest n p (newPageBatcher p slot cycle)" "page_total (newPageBatcher p slot cycle) = 0"
  using assms newPageBatcher_ok [where p = p and slot = slot and cycle = cycle]
  by (simp_all add: page_good_def page_total_def) (simp add: newPageBatcher_def no_results_def)

lemma reserved_split: "pub_inv p own n \<Longrightarrow> reserved_keys p = queued_keys p + own"
  by (simp add: pub_inv_def queued_keys_def)

text \<open>Nothing of a given-up page remains reserved.\<close>

lemma give_up_good:
  assumes "pub_inv p (rest + mset ks + batcher_own b) n" "batcher_ok wi p b" "give_up ks e b p = (b', p', err)"
  shows "page_good wi rest n p' b'" "pub_frame p p'" "err = Some e" "batcher_own b' = {#}"
  using give_up_inv [OF assms] by (simp_all add: page_good_def)

text \<open>Flushing the builder at an index: its keys move from the batcher to the queue.\<close>

lemma flush_good:
  assumes good: "page_good wi rest n p b" and i: "i < workers_of p * 2" and x: "pg_builders b ! i = Some x"
    and enc: "builder_encode wi x = Inr (Some batch)" and run: "submitBatch batch p = (p', None)"
  shows "page_good wi rest n p' (count_batch batch (set_builder i None b))"
    "progress p b p' (count_batch batch (set_builder i None b)) 0" "pub_frame p p'"
proof -
  let ?b = "set_builder i None b"
  have inv: "pub_inv p (rest + batcher_own b) n" and ok: "batcher_ok wi p b" using good by (simp_all add: page_good_def)
  note s = submit_builder [OF inv ok i x enc run]
  show "page_good wi rest n p' (count_batch batch ?b)" "pub_frame p p'" using s by (simp_all add: page_good_def)
  have keys: "batch_keys (queued (pu_queue p')) = batch_keys (queued (pu_queue p)) + mset (eb_keys batch)"
    by (rule batch_keys_add) (rule s(8) [OF refl])
  have "page_total (count_batch batch ?b) = page_total b"
    using s(6,7) by (simp add: page_total_def) (simp add: count_batch_def set_builder_def)
  then show "progress p b p' (count_batch batch ?b) 0"
    using s(4,7) keys by (simp add: progress_def queued_keys_def) (simp add: count_batch_def set_builder_def)
qed

lemma fresh_builder_at:
  assumes "batcher_ok wi p b" "encoder_ok (pu_encoder p)"
  shows "builder_at wi (pu_encoder p) b (lane * 2 + policy_index policy)
    (newBuilder (pu_encoder p) policy (pg_slot b) (to_UnixMilli (pg_cycle b)) lane)"
proof -
  have "policy_index policy < 2" by (cases policy) simp_all
  then show ?thesis using newBuilder_ok [OF assms(2)]
    by (simp add: builder_at_def) (simp add: newBuilder_def)
qed

text \<open>A builder that takes a sample takes over the sample's key.\<close>

lemma taken_good:
  assumes inv: "pub_inv p (add_mset (es_key sample) rest + batcher_own b) n" and ok: "batcher_ok wi p b"
    and i: "i < workers_of p * 2" and keys: "builder_keys (pg_builders b ! i) = bb_keys x"
    and x: "builder_at wi (pu_encoder p) b i x" and run: "builder_add wi sample x = (y, True, None)"
  shows "page_good wi rest n p (set_builder i (Some y) b)"
    "batcher_own (set_builder i (Some y) b) = add_mset (es_key sample) (batcher_own b)"
proof -
  have bo: "builder_ok wi (pu_encoder p) x" using x by (simp add: builder_at_def)
  have y: "builder_at wi (pu_encoder p) b i y" "bb_keys y = bb_keys x @ [es_key sample]"
    using run x by (cases rule: builder_add_cases [OF bo, of sample]; simp add: builder_at_def)+
  have "i < length (pg_builders b)" using ok i by (simp add: batcher_ok_def)
  from batcher_own_set [OF this, of "Some y"]
  show own: "batcher_own (set_builder i (Some y) b) = add_mset (es_key sample) (batcher_own b)"
    by (simp add: builder_keys_def [of "Some y"] keys y(2))
  have "batcher_ok wi p (set_builder i (Some y) b)" by (rule batcher_ok_set [OF ok]) (use y(1) in simp)
  then show "page_good wi rest n p (set_builder i (Some y) b)" using inv by (simp add: page_good_def own)
qed

definition page_stop :: "Wire \<Rightarrow> Publisher \<Rightarrow> go_error \<Rightarrow> encodeSeries \<Rightarrow> bool" where
  "page_stop wi p e sample \<longleftrightarrow> (exact_wire wi \<longrightarrow> e = ErrPushQueueFull \<or> lq_closed (pu_queue p)
     \<or> int (entry_size wi (sample_series sample)) > be_maxBytes (pu_encoder p))"

text \<open>The tail of \<^verbatim>\<open>add\<close>: the full builder is sent off and the sample starts a fresh one.\<close>

definition add_flush :: "Wire \<Rightarrow> nat \<Rightarrow> batchBuilder \<Rightarrow> encodeSeries \<Rightarrow> pageBatcher \<Rightarrow> batchBuilder \<Rightarrow> Publisher
    \<Rightarrow> pageBatcher \<times> Publisher \<times> go_error option" where
  "add_flush wi index fresh_builder sample b builder p =
     (case builder_encode wi builder of
        Inl err \<Rightarrow> give_up [es_key sample] err b p
      | Inr None \<Rightarrow> give_up [es_key sample] (PanicError ''nil batch'') b p
      | Inr (Some batch) \<Rightarrow>
          (let b = set_builder index None b in
           case submitBatch batch p of
             (p, Some err) \<Rightarrow> give_up [es_key sample] err b p
           | (p, None) \<Rightarrow>
               (let b = set_builder index (Some fresh_builder) (count_batch batch b) in
                case builder_add wi sample fresh_builder of
                  (builder, True, None) \<Rightarrow> (set_builder index (Some builder) b, p, None)
                | (builder, added, Some err) \<Rightarrow> give_up [es_key sample] err b p
                | (builder, False, None) \<Rightarrow>
                    give_up [es_key sample]
                      (ArgumentError (''series could not be added to an empty batch: '' @ es_seriesID sample)) b p)))"

lemma progress_own:
  assumes "batcher_own b' = add_mset k (batcher_own b)" "pg_result b' = pg_result b" "reserved_keys p \<subseteq># reserved_keys p'"
    and "pu_queue p' = pu_queue p"
  shows "progress p b p' b' 1"
  using assms by (simp add: progress_def page_total_def queued_keys_def)

lemma own_empty_builder:
  assumes "batcher_ok wi p b" "i < workers_of p * 2" "builder_keys x = builder_keys (pg_builders b ! i)"
  shows "batcher_own (set_builder i x b) = batcher_own b"
proof -
  have "i < length (pg_builders b)" using assms(1,2) by (simp add: batcher_ok_def)
  from batcher_own_set [OF this, of x] show ?thesis by (simp add: assms(3))
qed

lemma add_flush_good:
  assumes good: "page_good wi (add_mset (es_key sample) rest) n p b" and i: "i < workers_of p * 2"
    and x: "pg_builders b ! i = Some builder" and full: "bb_series builder \<noteq> []" and enc: "encoder_ok (pu_encoder p)"
    and fb: "fb = newBuilder (pu_encoder p) policy (pg_slot b) (to_UnixMilli (pg_cycle b)) lane"
    and i': "i = lane * 2 + policy_index policy"
    and run: "add_flush wi i fb sample b builder p = (b', p', err)"
  shows "page_good wi rest n p' b' \<and> pub_frame p p' \<and>
    (case err of None \<Rightarrow> progress p b p' b' 1 | Some e \<Rightarrow> batcher_own b' = {#} \<and> page_stop wi p e sample)"
proof -
  have inv: "pub_inv p (add_mset (es_key sample) rest + batcher_own b) n" and ok: "batcher_ok wi p b"
    using good by (simp_all add: page_good_def)
  have give: ?thesis if q: "pub_inv q (rest + mset [es_key sample] + batcher_own c) n" "batcher_ok wi q c" "pub_frame p q"
    and g: "give_up [es_key sample] e c q = (b', p', err)" and stop: "page_stop wi p e sample" for c q e
  proof -
    note f = give_up_good [OF q(1,2) g]
    have "pub_frame p p'" by (rule pub_frame_trans [OF q(3) f(2)])
    then show ?thesis using f stop by simp
  qed
  have at: "builder_at wi (pu_encoder p) b i builder" using ok i x by (simp add: batcher_ok_def)
  show ?thesis
  proof (cases "builder_encode wi builder")
    case (Inl e)
    have "page_stop wi p e sample"
      using builder_encode_exact [of wi "pu_encoder p" builder] at full Inl
      by (auto simp: page_stop_def builder_at_def)
    then show ?thesis using run inv ok Inl by (intro give [OF _ ok pub_frame_refl]) (simp_all add: add_flush_def)
  next
    case (Inr o')
    then obtain batch where batch: "builder_encode wi builder = Inr (Some batch)"
      using builder_encode_None [of wi builder] full by (cases o') auto
    obtain q e where q: "submitBatch batch p = (q, e)" by (metis surj_pair)
    note s = submit_builder [OF inv ok i x batch q]
    show ?thesis
    proof (cases e)
      case (Some e')
      have "page_stop wi p e' sample" using s(5) Some by (auto simp: page_stop_def)
      then show ?thesis using run batch q Some s(1)
        by (intro give [OF _ s(2,3)]) (simp_all add: add_flush_def)
    next
      case None
      define c where "c = count_batch batch (set_builder i None b)"
      define d where "d = set_builder i (Some fb) c"
      have qN: "submitBatch batch p = (q, None)" using q None by simp
      from flush_good [OF good i x batch qN]
      have c: "page_good wi (add_mset (es_key sample) rest) n q c" "progress p b q c 0" "pub_frame p q" by (simp_all add: c_def)
      have fq: "workers_of q = workers_of p" "pu_encoder q = pu_encoder p"
        using c(3) by (simp_all add: pub_frame_def workers_of_def)
      have cok: "batcher_ok wi q c" using c(1) by (simp add: page_good_def)
      have cN: "pg_builders c ! i = None" using ok i by (simp add: c_def batcher_ok_def)
      have fb': "bb_series fb = []" "bb_keys fb = []" by (simp_all add: fb newBuilder_def)
      have at: "builder_at wi (pu_encoder q) c i fb"
        unfolding i' fb using fresh_builder_at [OF cok, of lane policy] enc by (simp add: fq) (simp add: c_def)
      have dok: "batcher_ok wi q d" unfolding d_def by (rule batcher_ok_set [OF cok]) (use at in simp)
      have down: "batcher_own d = batcher_own c"
        unfolding d_def using i cN fb' by (intro own_empty_builder [OF cok]) (simp_all add: fq builder_keys_def)
      have inv: "pub_inv q (add_mset (es_key sample) rest + batcher_own d) n" using c(1) by (simp add: page_good_def down)
      have go: "give_up [es_key sample] e d q = (b', p', err) \<Longrightarrow> page_stop wi p e sample \<Longrightarrow> ?thesis" for e
        using inv by (intro give [OF _ dok c(3)]) simp_all
      have dat: "builder_at wi (pu_encoder q) d i fb" using at by (simp add: d_def builder_at_def)
      then have bo: "builder_ok wi (pu_encoder q) fb" by (simp add: builder_at_def)
      show ?thesis
      proof (cases rule: builder_add_cases [OF bo, of sample])
        case (1 e')
        then show ?thesis using run batch qN
          by (intro go [of e']) (simp_all add: add_flush_def page_stop_def fq c_def d_def)
      next
        case 2
        then show ?thesis using enc fb' by (simp add: fq)
      next
        case (3 y)
        have r: "b' = set_builder i (Some y) d" "p' = q" "err = None"
          using run batch qN 3(1) by (simp_all add: add_flush_def c_def d_def)
        have "pg_builders d ! i = Some fb" using ok i by (simp add: d_def c_def batcher_ok_def)
        then have t: "page_good wi rest n q b'" "batcher_own b' = add_mset (es_key sample) (batcher_own d)"
          unfolding r using taken_good [OF inv dok _ _ dat 3(1)] i by (simp_all add: fq builder_keys_def)
        have "progress q c q b' 1" using t(2) unfolding down by (rule progress_own) (simp_all add: r d_def)
        from progress_trans [OF c(2) this] show ?thesis using t(1) c(3) r by simp
      qed
    qed
  qed
qed

lemma oversized_good:
  assumes good: "page_good wi rest n p b" and q: "pub_inv q (add_mset k (rest + batcher_own b)) n" "pub_frame p q"
      "pu_queue q = pu_queue p" and i: "i < workers_of q * 2" and at: "builder_at wi (pu_encoder q) b i x"
    and keys: "builder_keys (pg_builders b ! i) = bb_keys x"
    and c_def: "c = b\<lparr>pg_result := (pg_result b)\<lparr>pr_OversizedSamples := Suc (pr_OversizedSamples (pg_result b)),
          pr_oversizedErr := e\<rparr>\<rparr>"
  shows "page_good wi rest n (releaseKeys [k] q) (set_builder i (Some x) c)" "pub_frame p (releaseKeys [k] q)"
    "progress p b (releaseKeys [k] q) (set_builder i (Some x) c) 1"
proof -
  have inv: "pub_inv p (rest + batcher_own b) n" and ok: "batcher_ok wi p b" using good by (simp_all add: page_good_def)
  show f: "pub_frame p (releaseKeys [k] q)" by (rule pub_frame_trans [OF q(2) releaseKeys_frame])
  have okc: "batcher_ok wi q c" using batcher_ok_frame [OF ok q(2)] by (simp add: c_def batcher_ok_result)
  have "batcher_ok wi q (set_builder i (Some x) c)"
    by (rule batcher_ok_set [OF okc]) (use at in \<open>simp add: c_def builder_at_def\<close>)
  then have ok': "batcher_ok wi (releaseKeys [k] q) (set_builder i (Some x) c)" by (rule batcher_ok_frame) (rule releaseKeys_frame)
  have own: "batcher_own (set_builder i (Some x) c) = batcher_own b"
    using own_empty_builder [OF okc i, of "Some x"] keys by (simp add: c_def builder_keys_def)
  have inv': "pub_inv (releaseKeys [k] q) (rest + batcher_own b) n" using releaseKeys_inv [OF q(1), of "[k]"] by simp
  then show "page_good wi rest n (releaseKeys [k] q) (set_builder i (Some x) c)" using ok' by (simp add: page_good_def own)
  have "reserved_keys (releaseKeys [k] q) = reserved_keys p"
    using reserved_split [OF inv] reserved_split [OF inv'] q(3) by (simp add: queued_keys_def)
  then show "progress p b (releaseKeys [k] q) (set_builder i (Some x) c) 1"
    using q(3) by (simp add: progress_def page_total_def own queued_keys_def) (simp add: c_def)
qed

text \<open>Adding a sample.  Afterwards its key is reserved, unless the sample is too large for any request.\<close>

lemma batcher_add_good:
  assumes good: "page_good wi rest n p b" and lane: "lane < workers_of p"
    and run: "batcher_add wi policy lane sample b p = (b', p', err)"
  shows "page_good wi rest n p' b' \<and> pub_frame p p' \<and>
    (case err of
       None \<Rightarrow> progress p b p' b' 1
         \<and> (es_key sample \<in># reserved_keys p' \<or> int (entry_size wi (sample_series sample)) > be_maxBytes (pu_encoder p))
     | Some e \<Rightarrow> batcher_own b' = {#} \<and> page_stop wi p e sample)"
proof -
  have inv: "pub_inv p (rest + batcher_own b) n" and ok: "batcher_ok wi p b" using good by (simp_all add: page_good_def)
  have enc: "encoder_ok (pu_encoder p)" using inv by (simp add: pub_inv_def)
  obtain q got where r: "reserve (es_key sample) p = (q, got)" by (metis surj_pair)
  show ?thesis
  proof (cases rule: reserve_cases [OF inv r])
    case 1
    let ?b = "b\<lparr>pg_result := (pg_result b)\<lparr>pr_AlreadyPending := Suc (pr_AlreadyPending (pg_result b))\<rparr>\<rparr>"
    have run': "b' = ?b" "p' = p" "err = None" using run r 1 by (simp_all add: batcher_add_def)
    have "progress p b p ?b 1" by (simp add: progress_def page_total_def)
    then show ?thesis using good 1 by (simp add: run' page_good_def batcher_ok_result pub_frame_refl)
  next
    case 2
    define i where "i = lane * 2 + policy_index policy"
    define fb where "fb = newBuilder (pu_encoder q) policy (pg_slot b) (to_UnixMilli (pg_cycle b)) lane"
    define x where "x = (case pg_builders b ! i of None \<Rightarrow> fb | Some x \<Rightarrow> x)"
    have fq: "workers_of q = workers_of p" "pu_encoder q = pu_encoder p"
      using 2(3) by (simp_all add: pub_frame_def workers_of_def)
    have i: "i < workers_of q * 2" using lane by (cases policy) (simp_all add: i_def fq)
    have ok': "batcher_ok wi q b" by (rule batcher_ok_frame [OF ok 2(3)])
    have fbat: "builder_at wi (pu_encoder q) b i fb"
      unfolding i_def fb_def using fresh_builder_at [OF ok'] enc by (simp add: fq)
    have at: "builder_at wi (pu_encoder q) b i x"
      using ok' i fbat by (simp add: x_def batcher_ok_def split: option.split)
    have keys: "builder_keys (pg_builders b ! i) = bb_keys x"
      by (simp add: x_def fb_def newBuilder_def builder_keys_def split: option.split)
    have invq: "pub_inv q (add_mset (es_key sample) (rest + batcher_own b)) n" by (rule 2(2))
    have mono: "reserved_keys p \<subseteq># reserved_keys q" "es_key sample \<in># reserved_keys q" using 2(4) by simp_all
    have bo: "builder_ok wi (pu_encoder q) x" using at by (simp add: builder_at_def)
    show ?thesis
    proof (cases rule: builder_add_cases [OF bo, of sample])
      case (1 e)
      define c where "c = b\<lparr>pg_result := (pg_result b)\<lparr>pr_OversizedSamples := Suc (pr_OversizedSamples (pg_result b)),
          pr_oversizedErr := (case pr_oversizedErr (pg_result b) of None \<Rightarrow> Some e | Some e \<Rightarrow> Some e)\<rparr>\<rparr>"
      have run': "b' = set_builder i (Some x) c" "p' = releaseKeys [es_key sample] q" "err = None"
        using run r 2(1) 1(1) unfolding batcher_add_def Let_def x_def fb_def i_def c_def by simp_all
      from oversized_good [OF good 2(2,3,5) i at keys c_def]
      show ?thesis using 1(2) by (simp add: run' fq)
    next
      case full: 2
      define c where "c = set_builder i (Some x) b"
      have cok: "batcher_ok wi q c" unfolding c_def by (rule batcher_ok_set [OF ok']) (use at in simp)
      have own: "batcher_own c = batcher_own b"
        unfolding c_def by (rule own_empty_builder [OF ok' i]) (simp add: keys builder_keys_def [of "Some x"])
      have goodc: "page_good wi (add_mset (es_key sample) rest) n q c" using invq cok by (simp add: page_good_def own)
      have cx: "pg_builders c ! i = Some x" using ok' i by (simp add: c_def batcher_ok_def)
      have encq: "encoder_ok (pu_encoder q)" using enc fq by simp
      have run': "add_flush wi i fb sample c x q = (b', p', err)"
        using run r 2(1) full(1) unfolding batcher_add_def Let_def x_def fb_def i_def c_def add_flush_def by simp
      have fb': "fb = newBuilder (pu_encoder q) policy (pg_slot c) (to_UnixMilli (pg_cycle c)) lane"
        by (simp add: fb_def c_def)
      note res = add_flush_good [OF goodc i cx full(2) [OF encq] encq fb' i_def run']
      have pb: "progress p b q c 0"
        using mono(1) 2(5) by (simp add: progress_def page_total_def own queued_keys_def) (simp add: c_def)
      have f: "pub_frame p p'" using res by (elim conjE) (rule pub_frame_trans [OF 2(3)])
      have stop: "page_stop wi p e sample" if "page_stop wi q e sample" for e
        using that 2(5) fq by (simp add: page_stop_def)
      show ?thesis
      proof (cases err)
        case None
        then have pr: "progress q c p' b' 1" using res by simp
        then have "es_key sample \<in># reserved_keys p'" using mono(2) unfolding progress_def by (meson mset_subset_eqD)
        then show ?thesis using res f progress_trans [OF pb pr] None by simp
      qed (use res f stop in simp)
    next
      case (3 y)
      have run': "b' = set_builder i (Some y) b" "p' = q" "err = None"
        using run r 2(1) 3(1) unfolding batcher_add_def Let_def x_def fb_def i_def by simp_all
      have "pub_inv q (add_mset (es_key sample) rest + batcher_own b) n" using invq by simp
      note t = taken_good [OF this ok' i keys at 3(1)]
      have "progress p b q b' 1" unfolding run' by (rule progress_own [OF t(2) _ mono(1) 2(5)]) simp
      then show ?thesis using t(1) 2(3) mono(2) by (simp add: run')
    qed
  qed
qed

section \<open>Whole pages\<close>

definition finish_stop :: "Wire \<Rightarrow> Publisher \<Rightarrow> go_error \<Rightarrow> bool" where
  "finish_stop wi p e \<longleftrightarrow> (exact_wire wi \<longrightarrow> e = ErrPushQueueFull \<or> lq_closed (pu_queue p))"

lemma finish_stop_frame: "pub_frame p p' \<Longrightarrow> finish_stop wi p' e = finish_stop wi p e"
  by (simp add: finish_stop_def pub_frame_def)

lemma page_stop_frame: "pub_frame p p' \<Longrightarrow> page_stop wi p' e sample = page_stop wi p e sample"
  by (simp add: page_stop_def pub_frame_def)

definition no_keys :: "pageBatcher \<Rightarrow> nat \<Rightarrow> bool" where
  "no_keys b j \<longleftrightarrow> builder_keys (pg_builders b ! j) = []"

lemma own_no_keys: "(\<And>j. j < length (pg_builders b) \<Longrightarrow> no_keys b j) \<Longrightarrow> batcher_own b = {#}"
proof -
  assume "\<And>j. j < length (pg_builders b) \<Longrightarrow> no_keys b j"
  then have "\<forall>x \<in> set (pg_builders b). builder_keys x = []" by (auto simp: no_keys_def in_set_conv_nth)
  then have "concat (map builder_keys (pg_builders b)) = []" by simp
  then show ?thesis by (simp add: batcher_own_def del: concat_eq_Nil_conv)
qed

lemma finish_loop_good:
  assumes "page_good wi rest n p b" "\<forall>i \<in> set is'. i < workers_of p * 2" "finish_loop wi is' b p = (b', p', err)"
  shows "page_good wi rest n p' b' \<and> pub_frame p p' \<and>
    (case err of
       None \<Rightarrow> progress p b p' b' 0 \<and> (\<forall>j < workers_of p * 2. j \<in> set is' \<or> no_keys b j \<longrightarrow> no_keys b' j)
     | Some e \<Rightarrow> batcher_own b' = {#} \<and> finish_stop wi p e)"
  using assms
proof (induction is' arbitrary: b p)
  case Nil
  then show ?case by (simp add: progress_refl pub_frame_refl)
next
  case (Cons i is')
  have i: "i < workers_of p * 2" and is': "\<forall>i \<in> set is'. i < workers_of p * 2" using Cons.prems(2) by simp_all
  have inv: "pub_inv p (rest + batcher_own b) n" and ok: "batcher_ok wi p b" using Cons.prems(1) by (simp_all add: page_good_def)
  have give: ?case if q: "pub_inv q (rest + batcher_own c) n" "batcher_ok wi q c" "pub_frame p q"
    and g: "give_up [] e c q = (b', p', err)" and stop: "finish_stop wi p e" for c q e
  proof -
    have "pub_inv q (rest + mset [] + batcher_own c) n" using q(1) by simp
    note f = give_up_good [OF this q(2) g]
    show ?thesis using f stop pub_frame_trans [OF q(3) f(2)] by simp
  qed
  show ?case
  proof (cases "\<exists>x. pg_builders b ! i = Some x \<and> \<not> builder_empty x")
    case False
    then have run: "finish_loop wi is' b p = (b', p', err)" using Cons.prems(3) by (auto split: option.splits)
    have at: "builder_at wi (pu_encoder p) b i x" if "pg_builders b ! i = Some x" for x
      using ok i that by (simp add: batcher_ok_def)
    have "no_keys b i"
    proof (cases "pg_builders b ! i")
      case (Some x)
      with False have "bb_series x = []" by (simp add: builder_empty_def)
      then show ?thesis using at [OF Some] Some by (simp add: no_keys_def builder_keys_def builder_at_def builder_ok_def)
    qed (simp add: no_keys_def builder_keys_def)
    then show ?thesis using Cons.IH [OF Cons.prems(1) is' run] by (auto split: option.splits)
  next
    case True
    then obtain x where x: "pg_builders b ! i = Some x" "\<not> builder_empty x" by blast
    have at: "builder_at wi (pu_encoder p) b i x" using ok i x by (simp add: batcher_ok_def)
    show ?thesis
    proof (cases "builder_encode wi x")
      case (Inl e)
      have "finish_stop wi p e" using builder_encode_exact [of wi "pu_encoder p" x] at x(2) Inl
        by (auto simp: finish_stop_def builder_at_def builder_empty_def)
      then show ?thesis using Cons.prems(3) inv Inl x by (intro give [OF _ ok pub_frame_refl]) simp_all
    next
      case (Inr o')
      then obtain batch where batch: "builder_encode wi x = Inr (Some batch)"
        using builder_encode_None [of wi x] x(2) by (cases o') (auto simp: builder_empty_def)
      obtain q e where q: "submitBatch batch p = (q, e)" by (metis surj_pair)
      note s = submit_builder [OF inv ok i x(1) batch q]
      show ?thesis
      proof (cases e)
        case (Some e')
        have "finish_stop wi p e'" using s(5) Some by (auto simp: finish_stop_def)
        then show ?thesis using Cons.prems(3) batch q x Some s(1) by (intro give [OF _ s(2,3)]) simp_all
      next
        case None
        define c where "c = count_batch batch (set_builder i None b)"
        have qN: "submitBatch batch p = (q, None)" using q None by simp
        from flush_good [OF Cons.prems(1) i x(1) batch qN]
        have c: "page_good wi rest n q c" "progress p b q c 0" "pub_frame p q" by (simp_all add: c_def)
        have w: "workers_of q = workers_of p" using c(3) by (rule pub_frame_workers)
        have run: "finish_loop wi is' c q = (b', p', err)" using Cons.prems(3) x batch qN by (simp add: c_def)
        have "\<forall>i \<in> set is'. i < workers_of q * 2" using is' w by simp
        note ih = Cons.IH [OF c(1) this run]
        have nk: "no_keys c j" if "j < workers_of p * 2" "j = i \<or> no_keys b j" for j
          using that ok by (cases "j = i") (simp_all add: no_keys_def c_def set_builder_def builder_keys_def batcher_ok_def)
        show ?thesis
        proof (cases err)
          case None
          then have "progress q c p' b' 0" "\<forall>j < workers_of p * 2. j \<in> set is' \<or> no_keys c j \<longrightarrow> no_keys b' j"
            using ih w by simp_all
          then show ?thesis using ih progress_trans [OF c(2)] pub_frame_trans [OF c(3)] nk None by fastforce
        qed (use ih pub_frame_trans [OF c(3)] finish_stop_frame [OF c(3)] in simp)
      qed
    qed
  qed
qed

lemma batcher_finish_good:
  assumes "page_good wi rest n p b" "batcher_finish wi b p = (b', p', err)"
  shows "pub_inv p' rest n" "pub_frame p p'" "batcher_own b' = {#}" "err = None \<Longrightarrow> progress p b p' b' 0"
    "err = Some e \<Longrightarrow> finish_stop wi p e"
proof -
  have r: "finish_loop wi [0..<workers_of p * 2] b p = (b', p', err)"
    using assms(2) by (simp add: batcher_finish_def workers_of_def)
  have g: "page_good wi rest n p' b' \<and> pub_frame p p' \<and>
    (case err of
       None \<Rightarrow> progress p b p' b' 0 \<and> (\<forall>j < workers_of p * 2. j \<in> set [0..<workers_of p * 2] \<or> no_keys b j \<longrightarrow> no_keys b' j)
     | Some e \<Rightarrow> batcher_own b' = {#} \<and> finish_stop wi p e)"
    by (rule finish_loop_good [OF assms(1) _ r]) simp
  then show "pub_frame p p'" "err = None \<Longrightarrow> progress p b p' b' 0" "err = Some e \<Longrightarrow> finish_stop wi p e" by simp_all
  have w: "workers_of p' = workers_of p" using g by (intro pub_frame_workers) simp
  have "length (pg_builders b') = workers_of p * 2" using g by (simp add: page_good_def batcher_ok_def w)
  then show own: "batcher_own b' = {#}"
    using g by (cases err) (auto intro: own_no_keys)
  show "pub_inv p' rest n" using g own by (simp add: page_good_def)
qed

text \<open>A page of values under a snapshot.\<close>

lemma skip_value_sel [simp]:
  "batcher_own (skip_value b) = batcher_own b" "page_good wi rest n p (skip_value b) = page_good wi rest n p b"
  "page_total (skip_value b) = Suc (page_total b)" "pr_SamplesQueued (pg_result (skip_value b)) = pr_SamplesQueued (pg_result b)"
  by (simp_all add: skip_value_def page_good_def batcher_ok_result page_total_def)

definition taken_care :: "Wire \<Rightarrow> MetadataSnapshot \<Rightarrow> Publisher \<Rightarrow> PublishValue \<Rightarrow> bool" where
  "taken_care wi snapshot p v \<longleftrightarrow>
     (case value_sample snapshot v of
        None \<Rightarrow> True
      | Some sample \<Rightarrow> es_key sample \<in># reserved_keys p \<or> int (entry_size wi (sample_series sample)) > be_maxBytes (pu_encoder p))"

lemma taken_care_mono:
  "taken_care wi snapshot p v \<Longrightarrow> reserved_keys p \<subseteq># reserved_keys p' \<Longrightarrow> pu_encoder p' = pu_encoder p \<Longrightarrow>
     taken_care wi snapshot p' v"
  by (auto simp: taken_care_def split: option.splits dest: mset_subset_eqD)

definition values_stop :: "Wire \<Rightarrow> MetadataSnapshot \<Rightarrow> PublishValue list \<Rightarrow> Publisher \<Rightarrow> go_error \<Rightarrow> bool" where
  "values_stop wi snapshot vs p e \<longleftrightarrow> finish_stop wi p e
     \<or> (\<exists>v \<in> set vs. \<exists>sample. value_sample snapshot v = Some sample
         \<and> int (entry_size wi (sample_series sample)) > be_maxBytes (pu_encoder p))"

lemma lane_bound: "0 < workers_of p \<Longrightarrow> workerLaneForSeries fp item (sp_Workers (pu_config p)) < workers_of p"
  by (simp add: workerLaneForSeries_def workers_of_def)

lemma page_values_good:
  assumes "page_good wi rest n p b" "0 < workers_of p" "page_values wi fp snapshot vs b p = (b', p', err)"
  shows "page_good wi rest n p' b' \<and> pub_frame p p' \<and>
    (case err of
       None \<Rightarrow> progress p b p' b' (length vs) \<and> (\<forall>v \<in> set vs. taken_care wi snapshot p' v)
     | Some e \<Rightarrow> batcher_own b' = {#} \<and> values_stop wi snapshot vs p e)"
  using assms
proof (induction vs arbitrary: b p)
  case Nil
  then show ?case by (simp add: progress_refl pub_frame_refl)
next
  case (Cons v vs)
  show ?case
  proof (cases "value_sample snapshot v")
    case None
    then have run: "page_values wi fp snapshot vs (skip_value b) p = (b', p', err)" using Cons.prems(3) by simp
    have good: "page_good wi rest n p (skip_value b)" using Cons.prems(1) by simp
    note ih = Cons.IH [OF good Cons.prems(2) run]
    have one: "progress p b p (skip_value b) 1" by (simp add: progress_def)
    show ?thesis
      using ih progress_trans [OF one] None by (auto simp: values_stop_def taken_care_def split: option.splits)
  next
    case (Some sample)
    let ?lane = "workerLaneForSeries fp (pv_ItemID v) (sp_Workers (pu_config p))"
    obtain c q e where add: "batcher_add wi (pv_PublishPolicy v) ?lane sample b p = (c, q, e)" by (metis prod_cases3)
    note step = batcher_add_good [OF Cons.prems(1) lane_bound [OF Cons.prems(2)] add]
    then have fr: "pub_frame p q" by simp
    then have fq: "workers_of q = workers_of p" "pu_encoder q = pu_encoder p" by (simp_all add: pub_frame_def workers_of_def)
    show ?thesis
    proof (cases e)
      case (Some e')
      then have "b' = c" "p' = q" "err = Some e'" using Cons.prems(3) add \<open>value_sample snapshot v = Some sample\<close> by simp_all
      then show ?thesis using step Some \<open>value_sample snapshot v = Some sample\<close>
        by (auto simp: values_stop_def finish_stop_def page_stop_def)
    next
      case None
      then have run: "page_values wi fp snapshot vs c q = (b', p', err)" using Cons.prems(3) add Some by simp
      have good: "page_good wi rest n q c" and w: "0 < workers_of q" using step Cons.prems(2) fq by simp_all
      note ih = Cons.IH [OF good w run]
      have tc: "taken_care wi snapshot q v" using step None Some fq by (simp add: taken_care_def)
      have f': "pub_frame p p'" using ih by (elim conjE) (rule pub_frame_trans [OF fr])
      show ?thesis
      proof (cases err)
        case None
        then have pr: "progress q c p' b' (length vs)" and all: "\<forall>v \<in> set vs. taken_care wi snapshot p' v" using ih by simp_all
        have one: "progress p b q c 1" using step \<open>e = None\<close> by simp
        have "pu_encoder p' = pu_encoder q" using ih by (simp add: pub_frame_def)
        with pr have "taken_care wi snapshot p' v" by (intro taken_care_mono [OF tc]) (simp_all add: progress_def)
        then show ?thesis using ih f' all progress_trans [OF one pr] None by simp
      qed (use ih f' finish_stop_frame [OF fr] fq in \<open>auto simp: values_stop_def\<close>)
    qed
  qed
qed

lemma processPage_good:
  assumes inv: "pub_inv p own n" and w: "0 < workers_of p"
    and cycle: "mget (lq_latestCycles (pu_queue p)) slot = Some (to_UnixMilli cycle)"
    and run: "processPage wi fp snapshot slot cycle vs p = (r, p', err)"
  shows "pub_inv p' own n" "pub_frame p p'" "err = Some e \<Longrightarrow> values_stop wi snapshot vs p e"
    "err = None \<Longrightarrow> pr_SamplesQueued r + pr_AlreadyPending r + pr_OversizedSamples r + pr_SkippedMetadata r = length vs"
    "err = None \<Longrightarrow> size (queued_keys p') = size (queued_keys p) + pr_SamplesQueued r"
    "err = None \<Longrightarrow> v \<in> set vs \<Longrightarrow> taken_care wi snapshot p' v" "err = None \<Longrightarrow> reserved_keys p \<subseteq># reserved_keys p'"
proof -
  note new = page_good_new(1) [OF inv cycle, of wi] page_good_new(2) [OF inv cycle]
  let ?b = "newPageBatcher p slot cycle"
  obtain b q e1 where vals: "page_values wi fp snapshot vs ?b p = (b, q, e1)" by (metis prod_cases3)
  note g = page_values_good [OF new(1) w vals]
  have frq: "pub_frame p q" using g by simp
  have zero: "pr_SamplesQueued (pg_result ?b) = 0" by (simp add: newPageBatcher_def no_results_def)
  have "pub_inv p' own n \<and> pub_frame p p' \<and> (\<forall>e. err = Some e \<longrightarrow> values_stop wi snapshot vs p e) \<and> (err = None \<longrightarrow>
      pr_SamplesQueued r + pr_AlreadyPending r + pr_OversizedSamples r + pr_SkippedMetadata r = length vs
      \<and> size (queued_keys p') = size (queued_keys p) + pr_SamplesQueued r \<and> reserved_keys p \<subseteq># reserved_keys p'
      \<and> (\<forall>v \<in> set vs. taken_care wi snapshot p' v))"
  proof (cases e1)
    case (Some e')
    then have "r = pg_result b" "p' = q" "err = Some e'" using run vals by (simp_all add: processPage_def)
    moreover have "page_good wi own n q b" "batcher_own b = {#}" using g Some by simp_all
    then have "pub_inv q own n" by (simp add: page_good_def)
    ultimately show ?thesis using g Some by simp
  next
    case None
    have gb: "page_good wi own n q b" using g by simp
    obtain b' where fin: "batcher_finish wi b q = (b', p', err)" and r: "r = pg_result b'"
      using run vals None by (auto simp: processPage_def split: prod.splits)
    note f = batcher_finish_good [OF gb fin]
    have fr: "pub_frame p p'" by (rule pub_frame_trans [OF frq f(2)])
    show ?thesis
    proof (cases err)
      case (Some e')
      then show ?thesis using f(1,5) fr finish_stop_frame [OF frq] by (simp add: values_stop_def)
    next
      case e: None
      have p1: "progress p ?b q b (length vs)" and tc: "\<forall>v \<in> set vs. taken_care wi snapshot q v" using g None by simp_all
      have p2: "progress q b p' b' 0" by (rule f(4) [OF e])
      have "pu_encoder p' = pu_encoder q" using f(2) by (simp add: pub_frame_def)
      then have "\<forall>v \<in> set vs. taken_care wi snapshot p' v" using tc taken_care_mono p2 unfolding progress_def by blast
      moreover have "page_total b' = length vs" using progress_trans [OF p1 p2] new(2) by (simp add: progress_def)
      then have "pr_SamplesQueued r + pr_AlreadyPending r + pr_OversizedSamples r + pr_SkippedMetadata r = length vs"
        using f(3) by (simp add: page_total_def r)
      moreover have "size (queued_keys p') = size (queued_keys p) + pr_SamplesQueued r" "reserved_keys p \<subseteq># reserved_keys p'"
        using progress_trans [OF p1 p2] zero by (simp_all add: progress_def r)
      ultimately show ?thesis using f(1) fr e by blast
    qed
  qed
  then show "pub_inv p' own n" "pub_frame p p'" "err = Some e \<Longrightarrow> values_stop wi snapshot vs p e"
    "err = None \<Longrightarrow> pr_SamplesQueued r + pr_AlreadyPending r + pr_OversizedSamples r + pr_SkippedMetadata r = length vs"
    "err = None \<Longrightarrow> size (queued_keys p') = size (queued_keys p) + pr_SamplesQueued r"
    "err = None \<Longrightarrow> v \<in> set vs \<Longrightarrow> taken_care wi snapshot p' v" "err = None \<Longrightarrow> reserved_keys p \<subseteq># reserved_keys p'"
    by blast+
qed

end
