(* ===== verification/Host_Laws.thy ===== *)
theory Host_Laws
  imports Page_Laws
begin

text \<open>
  Publishing the host series of a slot, and a whole \<^verbatim>\<open>PublishSlot\<close>, on top of the page laws: the bookkeeping
  survives every outcome, and a successful run accounts for every host of the slot.
\<close>

definition page_sum :: "pageProcessResult \<Rightarrow> nat" where
  "page_sum r = pr_SamplesQueued r + pr_AlreadyPending r + pr_OversizedSamples r + pr_SkippedMetadata r"

lemma page_sum_merge: "page_sum (mergePageProcessResult a b) = page_sum a + page_sum b"
  by (simp add: page_sum_def mergePageProcessResult_def)

lemma page_total_sum: "page_total b = page_sum (pg_result b) + size (batcher_own b)"
  by (simp add: page_total_def page_sum_def)

lemma cleanup_good:
  assumes "page_good wi rest n p b" "batcher_cleanup b p = (b', p')"
  shows "pub_inv p' rest n" "pub_frame p p'"
  using assms cleanup_releases [of p rest "pg_builders b" n] by (auto simp: page_good_def batcher_cleanup_def batcher_own_def)

definition latest_is :: "nat \<Rightarrow> time \<Rightarrow> Publisher \<Rightarrow> bool" where
  "latest_is slot cycle p \<longleftrightarrow> mget (lq_latestCycles (pu_queue p)) slot = Some (to_UnixMilli cycle)"

lemma latest_is_frame: "pub_frame p p' \<Longrightarrow> latest_is slot cycle p' = latest_is slot cycle p"
  by (simp add: latest_is_def pub_frame_def)

lemma finish_page_good:
  assumes good: "page_good wi rest n p b" and cyc: "latest_is slot cycle p" and zero: "entries = 0 \<longrightarrow> page_total b = 0"
    and run: "finish_page wi slot cycle entries r b p = (r', b', p', err)"
  shows "page_good wi rest n p' b'" "pub_frame p p'"
    "err = None \<Longrightarrow> page_sum (hr_page r') = page_sum (hr_page r) + page_total b \<and> page_total b' = 0"
    "pub_inv p' rest n"
proof -
  have "page_good wi rest n p' b' \<and> pub_frame p p' \<and> pub_inv p' rest n \<and>
    (err = None \<longrightarrow> page_sum (hr_page r') = page_sum (hr_page r) + page_total b \<and> page_total b' = 0)"
  proof (cases "entries = 0")
    case True
    then have eq: "r' = r" "b' = b" "p' = p" "err = None" using run by (simp_all add: finish_page_def)
    have "batcher_own b = {#}" using zero True by (simp add: page_total_sum)
    then show ?thesis using good zero True unfolding eq page_good_def by (simp add: pub_frame_refl)
  next
    case False
    obtain c where fin: "batcher_finish wi b p = (c, p', err)" and r: "hr_page r' = mergePageProcessResult (hr_page r) (pg_result c)"
      and b': "b' = newPageBatcher p' slot cycle"
      using run False by (auto simp: finish_page_def merge_into_def Let_def split: prod.splits)
    note f = batcher_finish_good [OF good fin]
    have l: "latest_is slot cycle p'" using latest_is_frame [OF f(2)] cyc by simp
    note new = page_good_new(1) [OF f(1) l [unfolded latest_is_def], of wi] page_good_new(2) [OF f(1) l [unfolded latest_is_def]]
    have "page_total c = page_total b" if "err = None" using f(4) [OF that] by (simp add: progress_def)
    then have "page_sum (pg_result c) = page_total b" if "err = None" using that f(3) by (simp add: page_total_sum)
    then show ?thesis using f(1,2) new by (simp add: r b' page_sum_merge)
  qed
  then show "page_good wi rest n p' b'" "pub_frame p p'" "pub_inv p' rest n"
    "err = None \<Longrightarrow> page_sum (hr_page r') = page_sum (hr_page r) + page_total b \<and> page_total b' = 0" by blast+
qed

definition slot_hosts :: "(string \<Rightarrow> 64 word) \<Rightarrow> nat \<Rightarrow> nat \<Rightarrow> string list \<Rightarrow> string list" where
  "slot_hosts fp slots slot hostIDs = filter (\<lambda>h. host_slot fp slots h = slot) hostIDs"

definition hosts_done :: "nat \<Rightarrow> Publisher \<Rightarrow> hostProcessResult \<Rightarrow> pageBatcher \<Rightarrow> nat \<Rightarrow> publishKey multiset \<Rightarrow> nat
    \<Rightarrow> hostProcessResult \<Rightarrow> Publisher \<Rightarrow> go_error option \<Rightarrow> bool" where
  "hosts_done slot p r b k rest n r' p' err \<longleftrightarrow> pub_inv p' rest n \<and> pub_frame p p'
     \<and> (err = None \<longrightarrow> page_sum (hr_page r') = page_sum (hr_page r) + page_total b + k)"

lemma hosts_done_step:
  assumes "hosts_done slot q s c k rest n r' p' err" "pub_frame p q"
    "page_sum (hr_page s) + page_total c = page_sum (hr_page r) + page_total b + d"
  shows "hosts_done slot p r b (d + k) rest n r' p' err"
  using assms pub_frame_trans [of p q p'] by (simp add: hosts_done_def)

text \<open>One exportable host: its sample, and the page when that is full; \<open>loop\<close> is the rest of the run.\<close>

definition host_add :: "Wire \<Rightarrow> (nat \<Rightarrow> hostProcessResult \<Rightarrow> pageBatcher \<Rightarrow> Publisher \<Rightarrow> hostProcessResult \<times> Publisher \<times> go_error option)
    \<Rightarrow> HostSeries \<Rightarrow> nat \<Rightarrow> time \<Rightarrow> nat \<Rightarrow> hostProcessResult \<Rightarrow> pageBatcher \<Rightarrow> Publisher
    \<Rightarrow> hostProcessResult \<times> Publisher \<times> go_error option" where
  "host_add wi loop series slot cycle entries r b p =
     (case batcher_add wi PublishCycleTimestamp (unat (hs_Fingerprint series) mod nat (sp_Workers (pu_config p)))
             (host_sample series cycle) b p of
        (b, p, Some err) \<Rightarrow> (merge_into (pg_result b) (r\<lparr>hr_SeriesRead := Suc (hr_SeriesRead r)\<rparr>), p, Some err)
      | (b, p, None) \<Rightarrow>
          (if int (Suc entries) = sp_PageSize (pu_config p)
           then (case finish_page wi slot cycle (Suc entries) (r\<lparr>hr_SeriesRead := Suc (hr_SeriesRead r)\<rparr>) b p of
                   (r, b, p, Some err) \<Rightarrow> (r, p, Some err)
                 | (r, b, p, None) \<Rightarrow> loop 0 r b p)
           else loop (Suc entries) (r\<lparr>hr_SeriesRead := Suc (hr_SeriesRead r)\<rparr>) b p))"

lemma host_add_good:
  assumes good: "page_good wi rest n p b" and w: "0 < workers_of p" and cyc: "latest_is slot cycle p"
    and run: "host_add wi loop series slot cycle entries r b p = (r', p', err)"
    and again: "\<And>q c entries' s. page_good wi rest n q c \<Longrightarrow> pub_frame p q \<Longrightarrow> entries' = 0 \<longrightarrow> page_total c = 0 \<Longrightarrow>
      loop entries' s c q = (r', p', err) \<Longrightarrow> page_sum (hr_page s) + page_total c = page_sum (hr_page r) + page_total b + 1 \<Longrightarrow>
      hosts_done slot p r b (1 + k) rest n r' p' err"
  shows "hosts_done slot p r b (1 + k) rest n r' p' err"
proof -
  let ?r = "r\<lparr>hr_SeriesRead := Suc (hr_SeriesRead r)\<rparr>"
  let ?lane = "unat (hs_Fingerprint series) mod nat (sp_Workers (pu_config p))"
  have lane: "?lane < workers_of p" using w by (simp add: workers_of_def)
  obtain c q e where add: "batcher_add wi PublishCycleTimestamp ?lane (host_sample series cycle) b p = (c, q, e)"
    by (metis prod_cases3)
  note a = batcher_add_good [OF good lane add]
  then have gc: "page_good wi rest n q c" and fr: "pub_frame p q" by simp_all
  have cq: "latest_is slot cycle q" using latest_is_frame [OF fr] cyc by simp
  show ?thesis
  proof (cases e)
    case (Some e')
    then have "p' = q" "err = Some e'" using run add by (simp_all add: host_add_def)
    moreover have "batcher_own c = {#}" using a Some by simp
    ultimately show ?thesis using gc fr by (simp add: hosts_done_def page_good_def)
  next
    case None
    then have one: "page_total c = page_total b + 1" using a by (simp add: progress_def)
    show ?thesis
    proof (cases "int (Suc entries) = sp_PageSize (pu_config q)")
      case False
      then have "loop (Suc entries) ?r c q = (r', p', err)" using run add None by (simp add: host_add_def)
      from again [OF gc fr _ this] show ?thesis by (simp add: one)
    next
      case True
      obtain s d q' e' where fin: "finish_page wi slot cycle (Suc entries) ?r c q = (s, d, q', e')" by (metis prod_cases4)
      have "Suc entries = 0 \<longrightarrow> page_total c = 0" by simp
      note f = finish_page_good [OF gc cq this fin]
      have fr': "pub_frame p q'" by (rule pub_frame_trans [OF fr f(2)])
      show ?thesis
      proof (cases e')
        case (Some e'')
        then have "p' = q'" "err = Some e''" using run add None True fin by (simp_all add: host_add_def)
        then show ?thesis using f(4) fr' by (simp add: hosts_done_def)
      next
        case e': None
        then have "loop 0 s d q' = (r', p', err)" using run add None True fin by (simp add: host_add_def)
        from again [OF f(1) fr' _ this] show ?thesis using f(3) [OF e'] one by simp
      qed
    qed
  qed
qed

lemma host_loop_good:
  assumes "page_good wi rest n p b" "0 < workers_of p" "latest_is slot cycle p" "entries = 0 \<longrightarrow> page_total b = 0"
    and "host_loop wi fp nm ctx snapshot slot cycle i hostIDs entries r b p = (r', p', err)"
  shows "hosts_done slot p r b (length (slot_hosts fp (sp_SpreadSlots (pu_config p)) slot hostIDs)) rest n r' p' err"
  using assms
proof (induction hostIDs arbitrary: i entries r b p)
  case Nil
  obtain s c where fin: "finish_page wi slot cycle entries r b p = (s, c, p', err)" "r' = s"
    using Nil.prems(5) by (auto split: prod.splits)
  show ?case using finish_page_good [OF Nil.prems(1,3,4) fin(1)] fin(2) by (simp add: hosts_done_def slot_hosts_def)
next
  case (Cons h hs)
  let ?k = "length (slot_hosts fp (sp_SpreadSlots (pu_config p)) slot hs)"
  let ?here = "host_slot fp (sp_SpreadSlots (pu_config p)) h = slot"
  have again: "hosts_done slot p r b (d + ?k) rest n r' p' err"
    if "page_good wi rest n q c" "pub_frame p q" "entries' = 0 \<longrightarrow> page_total c = 0"
      "host_loop wi fp nm ctx snapshot slot cycle (Suc i) hs entries' s c q = (r', p', err)"
      "page_sum (hr_page s) + page_total c = page_sum (hr_page r) + page_total b + d" for q c entries' s d
  proof -
    have cfg: "workers_of q = workers_of p" "pu_config q = pu_config p" using that(2) by (simp_all add: pub_frame_def workers_of_def)
    have "latest_is slot cycle q" using latest_is_frame [OF that(2)] Cons.prems(3) by simp
    from Cons.IH [OF that(1) _ this that(3,4)] cfg Cons.prems(2)
    have "hosts_done slot q s c ?k rest n r' p' err" by simp
    then show ?thesis by (rule hosts_done_step [OF _ that(2,5)])
  qed
  show ?case
  proof (cases "ctx i")
    case (Some e)
    obtain c q where cl: "batcher_cleanup b p = (c, q)" by (metis surj_pair)
    then have "p' = q" "err = Some e" using Cons.prems(5) Some by (simp_all)
    then show ?thesis using cleanup_good [OF Cons.prems(1) cl] by (simp add: hosts_done_def)
  next
    case None
    show ?thesis
    proof (cases ?here)
      case False
      then have run: "host_loop wi fp nm ctx snapshot slot cycle (Suc i) hs entries r b p = (r', p', err)"
        using Cons.prems(5) None by simp
      show ?thesis using again [OF Cons.prems(1) pub_frame_refl Cons.prems(4) run, of 0] False by (simp add: slot_hosts_def)
    next
      case True
      have one: "length (slot_hosts fp (sp_SpreadSlots (pu_config p)) slot (h # hs)) = 1 + ?k"
        using True by (simp add: slot_hosts_def)
      show ?thesis
      proof (cases "ExportableHostSeries fp nm h (mptr (sn_Hosts snapshot) h)")
        case no: None
        let ?s = "r\<lparr>hr_page := (hr_page r)\<lparr>pr_SkippedMetadata := Suc (pr_SkippedMetadata (hr_page r))\<rparr>\<rparr>"
        have run: "host_loop wi fp nm ctx snapshot slot cycle (Suc i) hs entries ?s b p = (r', p', err)"
          using Cons.prems(5) None True no by (simp add: Let_def)
        have "page_sum (hr_page ?s) = page_sum (hr_page r) + 1" by (simp add: page_sum_def)
        then show ?thesis unfolding one by (intro again [OF Cons.prems(1) pub_frame_refl Cons.prems(4) run]) simp
      next
        case (Some series)
        have "host_add wi (host_loop wi fp nm ctx snapshot slot cycle (Suc i) hs) series slot cycle entries r b p = (r', p', err)"
          using Cons.prems(5) None True Some unfolding host_add_def by (simp add: Let_def)
        from host_add_good [OF Cons.prems(1-3) this again] show ?thesis unfolding one .
      qed
    qed
  qed
qed

end
