(* ===== verification/Cycle_Laws.thy ===== *)
theory Cycle_Laws
  imports Host_Laws
begin

text \<open>
  The remaining publisher operations keep the bookkeeping: a new cycle and its coalesced batches, whole slots,
  a worker taking a batch, finishing it, and stopping.
\<close>

section \<open>Batches leaving the queue\<close>

text \<open>\<open>holding\<close> is the bookkeeping while the batches of a list are in hand, out of the queue and still counted.\<close>

definition holding :: "Publisher \<Rightarrow> publishKey multiset \<Rightarrow> nat \<Rightarrow> encodedBatch list \<Rightarrow> bool" where
  "holding p own n bs \<longleftrightarrow> pub_inv p (own + batch_keys bs) (n + length bs)"

lemma batch_keys_Cons: "batch_keys (b # bs) = mset (eb_keys b) + batch_keys bs"
  by (simp add: batch_keys_def)

text \<open>A batch is let go: its keys are released and the activity count goes down, whatever the counters do.\<close>

lemma let_go:
  assumes "holding p own n (b # bs)"
  shows "holding (activity_done (releaseBatch b (p\<lparr>pu_counters := st\<rparr>))) own n bs"
    "pub_frame p (activity_done (releaseBatch b (p\<lparr>pu_counters := st\<rparr>)))"
    "pu_queue (activity_done (releaseBatch b (p\<lparr>pu_counters := st\<rparr>))) = pu_queue p"
proof -
  let ?p = "p\<lparr>pu_counters := st\<rparr>"
  have "pub_inv ?p (own + batch_keys (b # bs)) (n + length (b # bs))"
    using assms by (simp add: holding_def pub_inv_def reserved_keys_def workers_of_def)
  from releaseKeys_inv [OF this, of "eb_keys b"]
  have "pub_inv (releaseBatch b ?p) (own + batch_keys bs) (Suc (n + length bs))"
    by (simp add: batch_keys_Cons releaseBatch_def)
  then show "holding (activity_done (releaseBatch b ?p)) own n bs"
    by (auto simp: holding_def pub_inv_def activity_done_def reserved_keys_def workers_of_def)
  show "pub_frame p (activity_done (releaseBatch b ?p))" "pu_queue (activity_done (releaseBatch b ?p)) = pu_queue p"
    by (simp_all add: pub_frame_def activity_done_def releaseBatch_def releaseKeys_def wakes_refl)
qed

lemma let_go_all:
  assumes "holding p own n bs" "\<And>b p. \<exists>st. f b p = activity_done (releaseBatch b (p\<lparr>pu_counters := st\<rparr>))"
  shows "pub_inv (fold f bs p) own n" "pub_frame p (fold f bs p)" "pu_queue (fold f bs p) = pu_queue p"
proof -
  have "holding (fold f bs p) own n [] \<and> pub_frame p (fold f bs p) \<and> pu_queue (fold f bs p) = pu_queue p"
    using assms(1)
  proof (induction bs arbitrary: p)
    case (Cons b bs)
    from assms(2) [of b p] obtain st where f: "f b p = activity_done (releaseBatch b (p\<lparr>pu_counters := st\<rparr>))" by blast
    note g = let_go [OF Cons.prems, of st, folded f]
    from Cons.IH [OF g(1)] g(2,3) pub_frame_trans [OF g(2)] show ?case by simp
  qed (simp add: pub_frame_refl)
  then show "pub_inv (fold f bs p) own n" "pub_frame p (fold f bs p)" "pu_queue (fold f bs p) = pu_queue p"
    by (simp_all add: holding_def batch_keys_def)
qed

text \<open>Replacing the queue by one that lacks the batches \<open>bs\<close>.\<close>

lemma take_out:
  assumes inv: "pub_inv p own n" and q: "mset (queued (pu_queue p)) = mset (queued q) + mset bs"
    and qi: "queue_inv (workers_of p) q" "lq_capacity q = lq_capacity (pu_queue p)"
  shows "holding (p\<lparr>pu_queue := q\<rparr>) own n bs"
proof -
  have "mset (queued (pu_queue p)) = mset (queued q @ bs)" using q by simp
  then have "batch_keys (queued (pu_queue p)) = batch_keys (queued q) + batch_keys bs"
    using batch_keys_perm batch_keys_append by metis
  moreover have "length (queued (pu_queue p)) = length (queued q) + length bs"
    using arg_cong [OF q, of size] by simp
  ultimately show ?thesis using inv qi
    by (simp add: holding_def pub_inv_def reserved_keys_def workers_of_def add.commute add.left_commute)
qed

section \<open>Cycles\<close>

lemma begin_cycle_good:
  assumes inv: "pub_inv p own n" and run: "begin_cycle slot cycle p = (p', current, removed)"
  shows "pub_inv p' own n" "pub_frame (p\<lparr>pu_queue := fst (beginLongCycle slot (to_UnixMilli cycle) (pu_queue p))\<rparr>) p'"
    "pu_queue p' = fst (beginLongCycle slot (to_UnixMilli cycle) (pu_queue p))"
    "current \<Longrightarrow> latest_is slot cycle p' \<and> \<not> lq_closed (pu_queue p)" "\<not> current \<Longrightarrow> p' = p"
    "pu_config p' = pu_config p"
proof -
  obtain q where q: "beginLongCycle slot (to_UnixMilli cycle) (pu_queue p) = (q, current, removed)"
    and p': "p' = fold coalesce removed (p\<lparr>pu_queue := q\<rparr>)"
    using run by (auto simp: begin_cycle_def split: prod.splits)
  have qi: "queue_inv (workers_of p) (pu_queue p)" using inv by (simp add: pub_inv_def)
  have hold: "holding (p\<lparr>pu_queue := q\<rparr>) own n removed"
    using take_out [OF inv beginLongCycle_mset [OF q] beginLongCycle_inv [OF qi q]] beginLongCycle_frame [OF q] by simp
  note f = let_go_all [OF hold, of coalesce, folded p']
  have co: "\<exists>st. coalesce b p = activity_done (releaseBatch b (p\<lparr>pu_counters := st\<rparr>))" for b p
    by (auto simp: coalesce_def)
  have inv': "pub_inv p' own n" and fr: "pub_frame (p\<lparr>pu_queue := q\<rparr>) p'" and pq: "pu_queue p' = q"
    using f co by simp_all
  show "pub_inv p' own n" "pub_frame (p\<lparr>pu_queue := fst (beginLongCycle slot (to_UnixMilli cycle) (pu_queue p))\<rparr>) p'"
    "pu_queue p' = fst (beginLongCycle slot (to_UnixMilli cycle) (pu_queue p))" "pu_config p' = pu_config p"
    using inv' fr pq by (simp_all add: q) (simp add: pub_frame_def)
  show "current \<Longrightarrow> latest_is slot cycle p' \<and> \<not> lq_closed (pu_queue p)"
    using beginLongCycle_latest [OF q] by (simp add: latest_is_def pq)
  show "\<not> current \<Longrightarrow> p' = p" using beginLongCycle_latest [OF q] by (simp add: p')
qed

lemma normalizeCycle_keeps:
  "normalizeCycle slot requested p = (p', cycle) \<Longrightarrow> pub_inv p' own n = pub_inv p own n \<and> workers_of p' = workers_of p
     \<and> pu_queue p' = pu_queue p \<and> pu_config p' = pu_config p"
  by (auto simp: normalizeCycle_def Let_def pub_inv_def reserved_keys_def workers_of_def split: if_splits)

lemma processHosts_good:
  assumes "pub_inv p own n" "0 < workers_of p" "latest_is slot cycle p"
    and "processHosts wi fp nm ctx snapshot slot cycle p = (r, p', err)"
  shows "pub_inv p' own n" "pub_frame p p'"
    "err = None \<Longrightarrow> page_sum (hr_page r) = length (slot_hosts fp (sp_SpreadSlots (pu_config p)) slot (sn_HostIDs snapshot))"
proof -
  note new = page_good_new(1) [OF assms(1) assms(3) [unfolded latest_is_def], of wi]
    page_good_new(2) [OF assms(1) assms(3) [unfolded latest_is_def]]
  have "hosts_done slot p \<lparr>hr_page = no_results, hr_PagesRead = 0, hr_SeriesRead = 0\<rparr> (newPageBatcher p slot cycle)
      (length (slot_hosts fp (sp_SpreadSlots (pu_config p)) slot (sn_HostIDs snapshot))) own n r p' err"
    using host_loop_good [OF new(1) assms(2,3) _ assms(4) [unfolded processHosts_def]] new(2) by simp
  then show "pub_inv p' own n" "pub_frame p p'"
    "err = None \<Longrightarrow> page_sum (hr_page r) = length (slot_hosts fp (sp_SpreadSlots (pu_config p)) slot (sn_HostIDs snapshot))"
    using new(2) by (simp_all add: hosts_done_def page_sum_def no_results_def)
qed

lemma value_loop_good:
  assumes "pub_inv p own n" "0 < workers_of p" "latest_is slot cycle p"
    and "value_loop wi fp ctx read snapshot slot cycle fuel i cursor r p = Some (r', p', err)"
  shows "pub_inv p' own n \<and> pub_frame p p'
    \<and> (err = None \<longrightarrow> page_sum (sr_page r') + sr_ValuesRead r = page_sum (sr_page r) + sr_ValuesRead r')"
  using assms
proof (induction fuel arbitrary: i cursor r p)
  case 0
  then show ?case by simp
next
  case (Suc fuel)
  show ?case
  proof (cases "\<exists>page. ctx i = None \<and> read i cursor cycle (sp_PageSize (pu_config p)) = Inr page")
    case False
    then consider e where "ctx i = Some e" | e where "ctx i = None" "read i cursor cycle (sp_PageSize (pu_config p)) = Inl e"
      by (metis not_Some_eq sum.exhaust)
    then have "p' = p \<and> err \<noteq> None" using Suc.prems(4) by cases (simp_all, blast+)
    then show ?thesis using Suc.prems(1) by (auto simp: pub_frame_refl)
  next
    case True
    then obtain page where page: "ctx i = None" "read i cursor cycle (sp_PageSize (pu_config p)) = Inr page" by blast
    obtain res q e where pr: "processPage wi fp snapshot slot cycle (pp_Values page) p = (res, q, e)" by (metis prod_cases3)
    note g = processPage_good [OF Suc.prems(1,2) Suc.prems(3) [unfolded latest_is_def] pr]
    let ?r = "add_page res (length (pp_Values page)) r"
    have sum: "page_sum (sr_page ?r) = page_sum (sr_page r) + page_sum res"
      "sr_ValuesRead ?r = sr_ValuesRead r + length (pp_Values page)" by (simp_all add: add_page_def page_sum_merge)
    have full: "page_sum res = length (pp_Values page)" if "e = None" using g(4) [OF that] by (simp add: page_sum_def)
    show ?thesis
    proof (cases "e = None \<and> \<not> pp_Done page \<and> pp_Next page \<noteq> cursor")
      case True
      then have run: "value_loop wi fp ctx read snapshot slot cycle fuel (Suc i) (pp_Next page) ?r q = Some (r', p', err)"
        using Suc.prems(4) page pr by (simp add: Let_def)
      have "0 < workers_of q" "latest_is slot cycle q"
        using Suc.prems(2,3) pub_frame_workers [OF g(2)] latest_is_frame [OF g(2)] by simp_all
      note ih = Suc.IH [OF g(1) this run]
      then show ?thesis using pub_frame_trans [OF g(2)] sum full True by simp
    next
      case False
      then have "r' = ?r" "p' = q" "err = None \<longrightarrow> e = None"
        using Suc.prems(4) page pr by (auto simp: Let_def errors_join_def split: option.splits if_splits)
      then show ?thesis using g(1,2) sum full by simp
    qed
  qed
qed

text \<open>A whole slot: the bookkeeping is kept whatever happens; a run without an error accounts for every host of the
  slot and for every value the store has read out.\<close>

lemma PublishSlot_good:
  assumes inv: "pub_inv p own n" and w: "0 < workers_of p"
    and run: "PublishSlot wi fp nm host_ctx page_ctx read (Some snapshot) fuel slot requested p = Some (r, p', err)"
  shows "pub_inv p' own n"
    "err = None \<Longrightarrow> sr_page r = no_results \<and> sr_ValuesRead r = 0 \<or>
       page_sum (sr_page r) = length (slot_hosts fp (sp_SpreadSlots (pu_config p)) slot (sn_HostIDs snapshot)) + sr_ValuesRead r"
proof -
  have "pub_inv p' own n \<and> (err = None \<longrightarrow> sr_page r = no_results \<and> sr_ValuesRead r = 0 \<or>
       page_sum (sr_page r) = length (slot_hosts fp (sp_SpreadSlots (pu_config p)) slot (sn_HostIDs snapshot)) + sr_ValuesRead r)"
  proof (cases "slot \<ge> sp_SpreadSlots (pu_config p) \<or> time_IsZero requested \<or> ready p \<noteq> None")
    case True
    then have "p' = p" "err \<noteq> None" using run by (cases "ready p"; auto simp: PublishSlot_def Let_def split: if_splits)+
    then show ?thesis using inv by auto
  next
    case False
    obtain p1 cycle where norm: "normalizeCycle slot requested p = (p1, cycle)" by (metis surj_pair)
    obtain p2 current removed where beg: "begin_cycle slot cycle p1 = (p2, current, removed)" by (metis prod_cases3)
    note k = normalizeCycle_keeps [OF norm, of own n]
    have inv1: "pub_inv p1 own n" using inv k by simp
    note b = begin_cycle_good [OF inv1 beg]
    show ?thesis
    proof (cases current)
      case stale: False
      then have "p' = p2" "sr_page r = no_results" "sr_ValuesRead r = 0"
        using run norm beg False by (auto simp: PublishSlot_def Let_def)
      then show ?thesis using b(1) by simp
    next
      case True
      obtain hosts p3 e where hosts: "processHosts wi fp nm host_ctx snapshot slot cycle p2 = (hosts, p3, e)" by (metis prod_cases3)
      have w2: "0 < workers_of p2" "pu_config p2 = pu_config p" using w b(6) k by (simp_all add: workers_of_def)
      have l2: "latest_is slot cycle p2" using b(4) True by simp
      note h = processHosts_good [OF b(1) w2(1) l2 hosts]
      show ?thesis
      proof (cases e)
        case (Some e')
        then have "p' = p3" "err \<noteq> None"
          using run norm beg False True hosts
          by (auto simp: PublishSlot_def Let_def errors_join_def split: option.splits)
        then show ?thesis using h(1) by auto
      next
        case None
        obtain r3 where v: "value_loop wi fp page_ctx read snapshot slot cycle fuel 0 \<lparr>pc_Shard = 0, pc_Sequence = 0\<rparr> r3 p3 = Some (r, p', err)"
          and r3: "sr_page r3 = hr_page hosts" "sr_ValuesRead r3 = 0"
          using run norm beg False True hosts None by (auto simp: PublishSlot_def Let_def)
        have "0 < workers_of p3" "latest_is slot cycle p3"
          using w2 l2 pub_frame_workers [OF h(2)] latest_is_frame [OF h(2)] by simp_all
        note g = value_loop_good [OF h(1) this v]
        then show ?thesis using h(3) [OF None] r3 w2(2) by simp
      qed
    qed
  qed
  then show "pub_inv p' own n"
    "err = None \<Longrightarrow> sr_page r = no_results \<and> sr_ValuesRead r = 0 \<or>
       page_sum (sr_page r) = length (slot_hosts fp (sp_SpreadSlots (pu_config p)) slot (sn_HostIDs snapshot)) + sr_ValuesRead r"
    by blast+
qed

section \<open>Workers and stopping\<close>

lemma pop_good:
  assumes inv: "pub_inv p own n" and lane: "lane < workers_of p" and run: "pop_try lane (pu_queue p) = (q, Popped b)"
  shows "holding (p\<lparr>pu_queue := q\<rparr>) own n [b]"
proof -
  have qi: "queue_inv (workers_of p) (pu_queue p)" using inv by (simp add: pub_inv_def)
  show ?thesis
  proof (cases rule: pop_try_cases [OF qi run lane])
    case popped: (2 c rest)
    then have "c = b" "mset (queued (pu_queue p)) = mset (queued q) + mset [b]" by simp_all
    then show ?thesis using take_out [OF inv, of q "[b]"] popped by simp
  qed (auto split: if_splits)
qed

lemma finish_delivery_good:
  assumes "holding p own n [b]"
  shows "pub_inv (finish_delivery b d acked p) own n" "pub_frame p (finish_delivery b d acked p)"
    "pu_queue (finish_delivery b d acked p) = pu_queue p"
  using let_go [OF assms, of "count_delivery b d acked (pu_counters p)"]
  by (simp_all add: finish_delivery_def holding_def batch_keys_def)

lemma publisher_stop_good:
  assumes inv: "pub_inv p own n" and open_queue: "pu_stopped p = lq_closed (pu_queue p)"
  shows "pub_inv (publisher_stop p) own n" "queued (pu_queue (publisher_stop p)) = []"
    "pu_queue (publisher_stop p) = fst (queue_close (pu_queue p))" "pu_stopped (publisher_stop p)"
    "lq_closed (pu_queue (publisher_stop p))"
proof -
  have qi: "queue_inv (workers_of p) (pu_queue p)" and cap: "0 \<le> lq_capacity (pu_queue p)" using inv by (simp_all add: pub_inv_def)
  have "pub_inv (publisher_stop p) own n \<and> queued (pu_queue (publisher_stop p)) = []
    \<and> pu_queue (publisher_stop p) = fst (queue_close (pu_queue p)) \<and> pu_stopped (publisher_stop p)
    \<and> lq_closed (pu_queue (publisher_stop p))"
  proof (cases "pu_stopped p")
    case True
    then show ?thesis using inv open_queue qi by (simp add: publisher_stop_def queue_close_def queue_inv_def)
  next
    case False
    obtain q removed where q: "queue_close (pu_queue p) = (q, removed)" by (metis surj_pair)
    note c = queue_close_cases [OF qi cap q]
    define s where "s = p\<lparr>pu_stopped := True,
                   pu_ctxErr := (if pu_started p \<and> pu_ctxErr p = None then Some ContextCanceled else pu_ctxErr p)\<rparr>"
    have "pub_inv s own n" using inv by (simp add: s_def pub_inv_def reserved_keys_def workers_of_def)
    then have hold: "holding (s\<lparr>pu_queue := q\<rparr>) own n removed"
      by (rule take_out) (use c in \<open>simp_all add: s_def workers_of_def\<close>)
    have stop: "publisher_stop p = fold (\<lambda>b p. activity_done (releaseBatch b p)) removed (s\<lparr>pu_queue := q\<rparr>)"
      using False q by (simp add: publisher_stop_def s_def Let_def)
    have "\<exists>st. activity_done (releaseBatch b p) = activity_done (releaseBatch b (p\<lparr>pu_counters := st\<rparr>))" for b p
      by (rule exI [of _ "pu_counters p"]) simp
    note f = let_go_all [OF hold this, folded stop]
    have "pu_stopped (publisher_stop p)" using f(2) by (simp add: pub_frame_def s_def)
    then show ?thesis using f(1,3) c(3,4) q by simp
  qed
  then show "pub_inv (publisher_stop p) own n" "queued (pu_queue (publisher_stop p)) = []"
    "pu_queue (publisher_stop p) = fst (queue_close (pu_queue p))" "pu_stopped (publisher_stop p)"
    "lq_closed (pu_queue (publisher_stop p))" by blast+
qed

end
