(* ===== verification/Publisher_System.thy ===== *)
theory Publisher_System
  imports Cycle_Laws
begin

text \<open>
  The publisher at work: slots being published, one at most per slot (\<^verbatim>\<open>slotMu\<close>), beside the workers of
  \<^verbatim>\<open>runWorker\<close>, one per lane.  A step is one call a goroutine makes on the shared publisher - \<^verbatim>\<open>add\<close> and \<^verbatim>\<open>finish\<close>
  of a page, \<^verbatim>\<open>beginLongCycle\<close> with its coalescing, one round of \<^verbatim>\<open>pop\<close>, a finished delivery, starting, stopping -
  and any goroutine may take the next one.
\<close>

datatype worker_state = NotStarted | Polling | Waiting | Sending encodedBatch | Ended

record PubSystem =
  sy_pub :: Publisher
  sy_slots :: "pageBatcher option list"
  sy_workers :: "worker_state list"

definition pub_init :: "Publisher \<Rightarrow> PubSystem" where
  "pub_init p = \<lparr>sy_pub = p, sy_slots = replicate (sp_SpreadSlots (pu_config p)) None,
     sy_workers = replicate (workers_of p) NotStarted\<rparr>"

definition set_slot :: "nat \<Rightarrow> pageBatcher option \<Rightarrow> Publisher \<Rightarrow> PubSystem \<Rightarrow> PubSystem" where
  "set_slot slot b p s = s\<lparr>sy_pub := p, sy_slots := (sy_slots s)[slot := b]\<rparr>"

definition set_worker :: "nat \<Rightarrow> worker_state \<Rightarrow> Publisher \<Rightarrow> PubSystem \<Rightarrow> PubSystem" where
  "set_worker lane w p s = s\<lparr>sy_pub := p, sy_workers := (sy_workers s)[lane := w]\<rparr>"

definition unless_failed :: "go_error option \<Rightarrow> pageBatcher \<Rightarrow> pageBatcher option" where
  "unless_failed err b = (if err = None then Some b else None)"

definition slot_runs :: "PubSystem \<Rightarrow> nat \<Rightarrow> pageBatcher \<Rightarrow> bool" where
  "slot_runs s slot b \<longleftrightarrow> slot < length (sy_slots s) \<and> sy_slots s ! slot = Some b"

definition worker_is :: "PubSystem \<Rightarrow> nat \<Rightarrow> worker_state \<Rightarrow> bool" where
  "worker_is s lane w \<longleftrightarrow> lane < length (sy_workers s) \<and> sy_workers s ! lane = w"

inductive pub_step :: "Wire \<Rightarrow> PubSystem \<Rightarrow> PubSystem \<Rightarrow> bool" for wi where
  Start: "publisher_start (sy_pub s) = (p, None) \<Longrightarrow> \<not> pu_started (sy_pub s) \<Longrightarrow>
    pub_step wi s (s\<lparr>sy_pub := p, sy_workers := map (\<lambda>w. Polling) (sy_workers s)\<rparr>)"
| Begin: "slot < length (sy_slots s) \<Longrightarrow> sy_slots s ! slot = None \<Longrightarrow> ready (sy_pub s) = None \<Longrightarrow>
    normalizeCycle slot requested (sy_pub s) = (p1, cycle) \<Longrightarrow> begin_cycle slot cycle p1 = (p, current, removed) \<Longrightarrow>
    pub_step wi s (set_slot slot (if current then Some (newPageBatcher p slot cycle) else None) p s)"
| Add: "slot_runs s slot b \<Longrightarrow> lane < workers_of (sy_pub s) \<Longrightarrow>
    batcher_add wi policy lane sample b (sy_pub s) = (b', p, err) \<Longrightarrow>
    pub_step wi s (set_slot slot (unless_failed err b') p s)"
| Finish: "slot_runs s slot b \<Longrightarrow> batcher_finish wi b (sy_pub s) = (b', p, err) \<Longrightarrow>
    pub_step wi s (set_slot slot (unless_failed err (newPageBatcher p slot (pg_cycle b))) p s)"
| Cancelled: "slot_runs s slot b \<Longrightarrow> batcher_cleanup b (sy_pub s) = (b', p) \<Longrightarrow> pub_step wi s (set_slot slot None p s)"
| Return: "slot_runs s slot b \<Longrightarrow> batcher_own b = {#} \<Longrightarrow> pub_step wi s (set_slot slot None (sy_pub s) s)"
| Pop: "worker_is s lane Polling \<Longrightarrow> pop_try lane (pu_queue (sy_pub s)) = (q, Popped b) \<Longrightarrow>
    pub_step wi s (set_worker lane (Sending b) ((sy_pub s)\<lparr>pu_queue := q\<rparr>) s)"
| Wait: "worker_is s lane Polling \<Longrightarrow> pop_try lane (pu_queue (sy_pub s)) = (q, LaneEmpty) \<Longrightarrow>
    pub_step wi s (set_worker lane Waiting ((sy_pub s)\<lparr>pu_queue := q\<rparr>) s)"
| Closed: "worker_is s lane Polling \<Longrightarrow> pop_try lane (pu_queue (sy_pub s)) = (q, LaneClosed) \<Longrightarrow>
    pub_step wi s (set_worker lane Ended ((sy_pub s)\<lparr>pu_queue := q\<rparr>) s)"
| Wake: "worker_is s lane Waiting \<Longrightarrow> lq_notify (pu_queue (sy_pub s)) ! lane \<Longrightarrow>
    pub_step wi s (set_worker lane Polling
      ((sy_pub s)\<lparr>pu_queue := (pu_queue (sy_pub s))\<lparr>lq_notify := (lq_notify (pu_queue (sy_pub s)))[lane := False]\<rparr>\<rparr>) s)"
| CtxDone: "worker_is s lane Waiting \<Longrightarrow> pu_ctxErr (sy_pub s) \<noteq> None \<Longrightarrow> pub_step wi s (set_worker lane Ended (sy_pub s) s)"
| Delivered: "worker_is s lane (Sending b) \<Longrightarrow> send (pu_worker (sy_pub s)) exchange wait = Some d \<Longrightarrow>
    pub_step wi s (set_worker lane Polling (finish_delivery b d acked (sy_pub s)) s)"
| ParentDone: "pu_started (sy_pub s) \<Longrightarrow> pub_step wi s (s\<lparr>sy_pub := (sy_pub s)\<lparr>pu_ctxErr := Some err\<rparr>\<rparr>)"
| Stop: "pub_step wi s (s\<lparr>sy_pub := publisher_stop (sy_pub s)\<rparr>)"

inductive pub_reachable :: "Wire \<Rightarrow> Publisher \<Rightarrow> PubSystem \<Rightarrow> bool" for wi p where
  initial: "pub_reachable wi p (pub_init p)"
| onward: "pub_reachable wi p s \<Longrightarrow> pub_step wi s s' \<Longrightarrow> pub_reachable wi p s'"

section \<open>The invariant\<close>

fun task_keys :: "pageBatcher option \<Rightarrow> publishKey list" where
  "task_keys None = []"
| "task_keys (Some b) = concat (map builder_keys (pg_builders b))"

fun sending_keys :: "worker_state \<Rightarrow> publishKey list" where
  "sending_keys (Sending b) = eb_keys b"
| "sending_keys _ = []"

fun is_sending :: "worker_state \<Rightarrow> bool" where
  "is_sending (Sending b) = True"
| "is_sending _ = False"

definition tasks_keys :: "pageBatcher option list \<Rightarrow> publishKey multiset" where
  "tasks_keys ts = mset (concat (map task_keys ts))"

definition workers_keys :: "worker_state list \<Rightarrow> publishKey multiset" where
  "workers_keys ws = mset (concat (map sending_keys ws))"

definition sending_count :: "worker_state list \<Rightarrow> nat" where
  "sending_count ws = length (filter is_sending ws)"

definition awake :: "laneQueue \<Rightarrow> worker_state list \<Rightarrow> bool" where
  "awake q ws \<longleftrightarrow> (\<forall>lane < length ws. ws ! lane = Waiting \<and> (lq_lanes q ! lane \<noteq> [] \<or> lq_closed q) \<longrightarrow> lq_notify q ! lane)"

definition tasks_ok :: "Wire \<Rightarrow> Publisher \<Rightarrow> pageBatcher option list \<Rightarrow> bool" where
  "tasks_ok wi p ts \<longleftrightarrow> length ts = sp_SpreadSlots (pu_config p)
     \<and> (\<forall>slot < length ts. \<forall>b. ts ! slot = Some b \<longrightarrow> batcher_ok wi p b \<and> pg_slot b = slot)"

definition life_ok :: "Publisher \<Rightarrow> worker_state list \<Rightarrow> bool" where
  "life_ok p ws \<longleftrightarrow> 0 < workers_of p \<and> length ws = workers_of p \<and> (pu_stopped p \<longleftrightarrow> lq_closed (pu_queue p))
     \<and> (pu_stopped p \<and> pu_started p \<longrightarrow> pu_ctxErr p \<noteq> None)
     \<and> (\<forall>w \<in> set ws. (w = NotStarted \<longleftrightarrow> \<not> pu_started p) \<and> (w = Ended \<longrightarrow> pu_ctxErr p \<noteq> None))"

definition sys_ok :: "Wire \<Rightarrow> Publisher \<Rightarrow> pageBatcher option list \<Rightarrow> worker_state list \<Rightarrow> bool" where
  "sys_ok wi p ts ws \<longleftrightarrow> pub_inv p (tasks_keys ts + workers_keys ws) (sending_count ws)
     \<and> tasks_ok wi p ts \<and> life_ok p ws \<and> awake (pu_queue p) ws"

lemma tasks_keys_update:
  "i < length ts \<Longrightarrow> tasks_keys (ts[i := x]) + mset (task_keys (ts ! i)) = tasks_keys ts + mset (task_keys x)"
  using mset_concat_update [of i "map task_keys ts" "task_keys x"] by (simp add: tasks_keys_def map_update)

lemma workers_keys_update:
  "i < length ws \<Longrightarrow> workers_keys (ws[i := w]) + mset (sending_keys (ws ! i)) = workers_keys ws + mset (sending_keys w)"
  using mset_concat_update [of i "map sending_keys ws" "sending_keys w"] by (simp add: workers_keys_def map_update)

lemma sending_count_update:
  "i < length ws \<Longrightarrow> sending_count (ws[i := w]) + of_bool (is_sending (ws ! i)) = sending_count ws + of_bool (is_sending w)"
proof (induction ws arbitrary: i)
  case (Cons x ws)
  then show ?case by (cases i) (simp_all add: sending_count_def)
qed simp

lemma task_keys_own: "mset (task_keys (Some b)) = batcher_own b"
  by (simp add: batcher_own_def)

lemma awake_frame: "awake q ws \<Longrightarrow> wakes (length ws) q q' \<Longrightarrow> awake q' ws"
  unfolding awake_def wakes_def by meson

lemma tasks_ok_frame: "tasks_ok wi p ts \<Longrightarrow> pub_frame p p' \<Longrightarrow> tasks_ok wi p' ts"
  using batcher_ok_frame [of wi p _ p'] by (simp add: tasks_ok_def) (simp add: pub_frame_def)

lemma life_ok_frame: "life_ok p ws \<Longrightarrow> pub_frame p p' \<Longrightarrow> life_ok p' ws"
  by (simp add: life_ok_def pub_frame_def workers_of_def)

lemma tasks_ok_update:
  "tasks_ok wi p ts \<Longrightarrow> (\<And>b. x = Some b \<Longrightarrow> batcher_ok wi p b \<and> pg_slot b = i) \<Longrightarrow> tasks_ok wi p (ts[i := x])"
proof -
  assume ok: "tasks_ok wi p ts" and x: "\<And>b. x = Some b \<Longrightarrow> batcher_ok wi p b \<and> pg_slot b = i"
  have "batcher_ok wi p b \<and> pg_slot b = slot" if "slot < length ts" "ts[i := x] ! slot = Some b" for slot b
    using ok x that by (cases "slot = i") (simp_all add: tasks_ok_def)
  then show ?thesis using ok by (simp add: tasks_ok_def)
qed

lemma sys_ok_slot:
  assumes ok: "sys_ok wi p ts ws" and fr: "pub_frame p p'" and i: "i < length ts"
    and inv: "pub_inv p' (tasks_keys (ts[i := None]) + workers_keys ws + mset (task_keys x)) (sending_count ws)"
    and x: "\<And>b. x = Some b \<Longrightarrow> batcher_ok wi p' b \<and> pg_slot b = i"
  shows "sys_ok wi p' (ts[i := x]) ws"
proof -
  have "tasks_keys (ts[i := x]) = tasks_keys (ts[i := None]) + mset (task_keys x)"
    using tasks_keys_update [of i "ts[i := None]" x] i by simp
  then have "pub_inv p' (tasks_keys (ts[i := x]) + workers_keys ws) (sending_count ws)"
    using inv by (simp only: add.assoc add.commute add.left_commute)
  moreover have "tasks_ok wi p' (ts[i := x])"
    using tasks_ok_update [OF tasks_ok_frame [OF _ fr]] ok x by (simp add: sys_ok_def)
  moreover have "length ws = workers_of p" "awake (pu_queue p) ws" "life_ok p ws"
    using ok unfolding sys_ok_def life_ok_def by blast+
  moreover have "wakes (workers_of p) (pu_queue p) (pu_queue p')" using fr by (simp add: pub_frame_def)
  ultimately show ?thesis using life_ok_frame [OF _ fr] awake_frame [of "pu_queue p" ws "pu_queue p'"] by (simp add: sys_ok_def)
qed

text \<open>The publisher's side of a running slot.\<close>

lemma sys_ok_page:
  assumes ok: "sys_ok wi p ts ws" and i: "i < length ts" and b: "ts ! i = Some b"
  shows "page_good wi (tasks_keys (ts[i := None]) + workers_keys ws) (sending_count ws) p b" "pg_slot b = i"
proof -
  have "tasks_keys ts = tasks_keys (ts[i := None]) + batcher_own b"
    using tasks_keys_update [OF i, of None] b task_keys_own [of b] by simp
  then show "page_good wi (tasks_keys (ts[i := None]) + workers_keys ws) (sending_count ws) p b"
    using ok i b by (simp add: sys_ok_def page_good_def tasks_ok_def add.assoc add.commute add.left_commute)
  show "pg_slot b = i" using ok i b by (simp add: sys_ok_def tasks_ok_def)
qed

text \<open>The worker's side.\<close>

definition pub_same :: "Publisher \<Rightarrow> Publisher \<Rightarrow> bool" where
  "pub_same p p' \<longleftrightarrow> pu_config p' = pu_config p \<and> pu_encoder p' = pu_encoder p
     \<and> pu_started p' = pu_started p \<and> pu_stopped p' = pu_stopped p \<and> pu_ctxErr p' = pu_ctxErr p
     \<and> lq_latestCycles (pu_queue p') = lq_latestCycles (pu_queue p) \<and> lq_closed (pu_queue p') = lq_closed (pu_queue p)"

definition other_lanes :: "nat \<Rightarrow> nat \<Rightarrow> laneQueue \<Rightarrow> laneQueue \<Rightarrow> bool" where
  "other_lanes workers lane q q' \<longleftrightarrow> (\<forall>l < workers. l \<noteq> lane \<longrightarrow> lq_lanes q' ! l = lq_lanes q ! l \<and> lq_notify q' ! l = lq_notify q ! l)"

lemma pub_same_frame: "pub_frame p p' \<Longrightarrow> pub_same p p'"
  by (simp add: pub_frame_def pub_same_def)

lemma tasks_ok_cong:
  assumes "tasks_ok wi p ts"
    and "pu_config p' = pu_config p" "pu_encoder p' = pu_encoder p" "lq_latestCycles (pu_queue p') = lq_latestCycles (pu_queue p)"
  shows "tasks_ok wi p' ts"
  using assms(1) unfolding tasks_ok_def batcher_ok_def workers_of_def assms(2-4) .

lemma tasks_ok_same: "tasks_ok wi p ts \<Longrightarrow> pub_same p p' \<Longrightarrow> tasks_ok wi p' ts"
  by (erule tasks_ok_cong) (simp_all add: pub_same_def)

lemma sys_ok_worker:
  assumes ok: "sys_ok wi p ts ws" and same: "pub_same p p'" and l: "l < length ws"
    and inv: "pub_inv p' (tasks_keys ts + workers_keys (ws[l := w])) (sending_count (ws[l := w]))"
    and w: "ws ! l \<noteq> NotStarted" "w \<noteq> NotStarted" "w = Ended \<Longrightarrow> pu_ctxErr p \<noteq> None"
    and others: "other_lanes (length ws) l (pu_queue p) (pu_queue p')"
    and waits: "w = Waiting \<Longrightarrow> lq_lanes (pu_queue p') ! l = [] \<and> \<not> lq_closed (pu_queue p')"
  shows "sys_ok wi p' ts (ws[l := w])"
proof -
  have life: "life_ok p ws" and aw: "awake (pu_queue p) ws" and tok: "tasks_ok wi p ts"
    using ok by (simp_all add: sys_ok_def)
  have "ws ! l \<in> set ws" using l by simp
  then have started: "pu_started p" using life w(1) by (auto simp: life_ok_def)
  have "set (ws[l := w]) \<subseteq> insert w (set ws)" by (rule set_update_subset_insert)
  then have ws': "(v = NotStarted \<longleftrightarrow> \<not> pu_started p) \<and> (v = Ended \<longrightarrow> pu_ctxErr p \<noteq> None)" if "v \<in> set (ws[l := w])" for v
    using that w(2,3) started life unfolding life_ok_def by blast
  have life': "life_ok p' (ws[l := w])"
    using life ws' same unfolding life_ok_def pub_same_def workers_of_def by simp
  have c: "lq_closed (pu_queue p') = lq_closed (pu_queue p)" using same by (simp add: pub_same_def)
  have "awake (pu_queue p') (ws[l := w])" unfolding awake_def
  proof (intro allI impI)
    fix lane
    assume lane: "lane < length (ws[l := w])"
      and a: "ws[l := w] ! lane = Waiting \<and> (lq_lanes (pu_queue p') ! lane \<noteq> [] \<or> lq_closed (pu_queue p'))"
    show "lq_notify (pu_queue p') ! lane"
    proof (cases "lane = l")
      case True
      then show ?thesis using a waits l by simp
    next
      case False
      then have "lq_lanes (pu_queue p') ! lane = lq_lanes (pu_queue p) ! lane" "lq_notify (pu_queue p') ! lane = lq_notify (pu_queue p) ! lane"
        using others lane by (simp_all add: other_lanes_def)
      then show ?thesis using aw a c lane False by (simp add: awake_def)
    qed
  qed
  then show ?thesis using inv life' tasks_ok_same [OF tok same] by (simp add: sys_ok_def)
qed

lemma pub_inv_bound: "pub_inv p own n \<Longrightarrow> length (lq_lanes (pu_queue p)) = workers_of p \<and> length (lq_notify (pu_queue p)) = workers_of p"
  by (simp add: pub_inv_def queue_inv_def)

lemma sys_ok_pop:
  assumes ok: "sys_ok wi p ts ws" and l: "l < length ws" and polling: "ws ! l = Polling"
    and run: "pop_try l (pu_queue p) = (q, Popped b)"
  shows "sys_ok wi (p\<lparr>pu_queue := q\<rparr>) ts (ws[l := Sending b])"
proof -
  have inv: "pub_inv p (tasks_keys ts + workers_keys ws) (sending_count ws)" and lw: "l < workers_of p"
    using ok l by (simp_all add: sys_ok_def life_ok_def)
  have "holding (p\<lparr>pu_queue := q\<rparr>) (tasks_keys ts + workers_keys ws) (sending_count ws) [b]"
    by (rule pop_good [OF inv lw run])
  moreover have "workers_keys (ws[l := Sending b]) = workers_keys ws + mset (eb_keys b)"
    using workers_keys_update [OF l, of "Sending b"] polling by simp
  moreover have "sending_count (ws[l := Sending b]) = Suc (sending_count ws)"
    using sending_count_update [OF l, of "Sending b"] polling by simp
  ultimately have inv': "pub_inv (p\<lparr>pu_queue := q\<rparr>) (tasks_keys ts + workers_keys (ws[l := Sending b])) (sending_count (ws[l := Sending b]))"
    by (simp add: holding_def batch_keys_def add.assoc)
  have q: "lq_latestCycles q = lq_latestCycles (pu_queue p)" "lq_closed q = lq_closed (pu_queue p)"
    "other_lanes (length ws) l (pu_queue p) q"
    using run by (auto simp: pop_try_def other_lanes_def split: list.splits if_splits)
  show ?thesis
    by (rule sys_ok_worker [OF ok _ l inv']) (use q polling in \<open>simp_all add: pub_same_def\<close>)
qed

lemma sys_ok_idle:
  assumes ok: "sys_ok wi p ts ws" and l: "l < length ws" and idle: "ws ! l = Polling \<or> ws ! l = Waiting" and w: "w = Polling \<or> w = Ended \<or> w = Waiting"
    and "w = Ended \<Longrightarrow> pu_ctxErr p \<noteq> None" "w = Waiting \<Longrightarrow> lq_lanes (pu_queue p) ! l = [] \<and> \<not> lq_closed (pu_queue p)"
    and n: "n = lq_notify (pu_queue p) \<or> n = (lq_notify (pu_queue p))[l := False]"
  shows "sys_ok wi (p\<lparr>pu_queue := (pu_queue p)\<lparr>lq_notify := n\<rparr>\<rparr>) ts (ws[l := w])"
proof -
  have inv: "pub_inv p (tasks_keys ts + workers_keys ws) (sending_count ws)" using ok by (simp add: sys_ok_def)
  have ks: "workers_keys (ws[l := w]) = workers_keys ws" "sending_count (ws[l := w]) = sending_count ws"
    using workers_keys_update [OF l, of w] sending_count_update [OF l, of w] idle w by auto
  have "length n = length (lq_notify (pu_queue p))" using n by auto
  then have "pub_inv (p\<lparr>pu_queue := (pu_queue p)\<lparr>lq_notify := n\<rparr>\<rparr>) (tasks_keys ts + workers_keys (ws[l := w])) (sending_count (ws[l := w]))"
    using inv unfolding ks by (simp add: pub_inv_def queue_inv_def queued_def reserved_keys_def workers_of_def current_cycle_def)
  from sys_ok_worker [OF ok _ l this] assms show ?thesis
    by (auto simp: pub_same_def other_lanes_def)
qed

lemma sys_ok_delivered:
  assumes ok: "sys_ok wi p ts ws" and l: "l < length ws" and sending: "ws ! l = Sending b"
  shows "sys_ok wi (finish_delivery b d acked p) ts (ws[l := Polling])"
proof -
  have inv: "pub_inv p (tasks_keys ts + workers_keys ws) (sending_count ws)" using ok by (simp add: sys_ok_def)
  have "workers_keys ws = workers_keys (ws[l := Polling]) + batch_keys [b]" "sending_count ws = sending_count (ws[l := Polling]) + length [b]"
    using workers_keys_update [OF l, of Polling] sending_count_update [OF l, of Polling] sending by (simp_all add: batch_keys_def)
  then have "holding p (tasks_keys ts + workers_keys (ws[l := Polling])) (sending_count (ws[l := Polling])) [b]"
    using inv by (simp add: holding_def add.assoc)
  note f = finish_delivery_good [OF this, of d acked]
  show ?thesis
    by (rule sys_ok_worker [OF ok pub_same_frame [OF f(2)] l f(1)]) (use sending f(3) in \<open>simp_all add: other_lanes_def\<close>)
qed

lemma awake_begin:
  assumes aw: "awake q ws" and len: "length (lq_lanes q) = length ws"
    and run: "beginLongCycle slot cycle q = (q', current, removed)"
  shows "awake q' ws"
  unfolding awake_def
proof (intro allI impI)
  fix lane
  assume lane: "lane < length ws" and a: "ws ! lane = Waiting \<and> (lq_lanes q' ! lane \<noteq> [] \<or> lq_closed q')"
  have "set (lq_lanes q' ! lane) \<subseteq> set (lq_lanes q ! lane)" by (rule beginLongCycle_lane [OF run]) (simp add: len lane)
  then have "lq_lanes q ! lane \<noteq> []" if "lq_lanes q' ! lane \<noteq> []" using that by (cases "lq_lanes q' ! lane") auto
  then show "lq_notify q' ! lane" using aw a lane beginLongCycle_frame [OF run] by (auto simp: awake_def)
qed

lemma sys_ok_begin:
  assumes ok: "sys_ok wi p ts ws" and slot: "slot < length ts" "ts ! slot = None"
    and norm: "normalizeCycle slot requested p = (p1, cycle)" and run: "begin_cycle slot cycle p1 = (p', current, removed)"
  shows "sys_ok wi p' (ts[slot := if current then Some (newPageBatcher p' slot cycle) else None]) ws"
proof -
  note k = normalizeCycle_keeps [OF norm]
  have life: "pu_started p1 = pu_started p \<and> pu_stopped p1 = pu_stopped p \<and> pu_ctxErr p1 = pu_ctxErr p \<and> pu_encoder p1 = pu_encoder p"
    using norm by (auto simp: normalizeCycle_def Let_def split: if_splits)
  then have "pub_same p p1" using k [of "{#}" 0] by (simp add: pub_same_def)
  then have t1: "tasks_ok wi p1 ts" using ok tasks_ok_same [of wi p ts p1] by (simp add: sys_ok_def)
  have inv1: "pub_inv p1 (tasks_keys ts + workers_keys ws) (sending_count ws)" using k ok by (simp add: sys_ok_def)
  note b = begin_cycle_good [OF inv1 run]
  obtain q c m where q: "beginLongCycle slot (to_UnixMilli cycle) (pu_queue p1) = (q, c, m)" by (metis prod_cases3)
  have lenq: "length (lq_lanes (pu_queue p1)) = length ws"
    using pub_inv_bound [OF inv1] ok k by (simp add: sys_ok_def life_ok_def)
  have aw: "awake q ws" using awake_begin [OF _ lenq q] ok k by (simp add: sys_ok_def)
  define s where "s = p1\<lparr>pu_queue := q\<rparr>"
  have fr: "pub_frame s p'" using b(2) by (simp add: s_def q)
  have fq: "lq_closed q = lq_closed (pu_queue p1)" "mget (lq_latestCycles q) j = mget (lq_latestCycles (pu_queue p1)) j" if "j \<noteq> slot" for j
    using beginLongCycle_frame [OF q] beginLongCycle_latest [OF q] that by (auto split: if_splits)
  have "batcher_ok wi s x \<and> pg_slot x = j" if "j < length ts" "ts ! j = Some x" for j x
  proof -
    have "j \<noteq> slot" using that slot by auto
    then show ?thesis using t1 that fq [of j] by (auto simp: tasks_ok_def batcher_ok_def s_def workers_of_def)
  qed
  then have "tasks_ok wi s ts" using t1 by (simp add: tasks_ok_def s_def)
  then have t2: "tasks_ok wi p' ts" by (rule tasks_ok_frame [OF _ fr])
  have "life_ok s ws" using ok life k beginLongCycle_frame [OF q] by (simp add: sys_ok_def life_ok_def s_def workers_of_def)
  then have l2: "life_ok p' ws" by (rule life_ok_frame [OF _ fr])
  let ?x = "if current then Some (newPageBatcher p' slot cycle) else None"
  have "pg_slot (newPageBatcher p' slot cycle) = slot" by (simp add: newPageBatcher_def)
  moreover have "batcher_ok wi p' (newPageBatcher p' slot cycle)" if current
    using b(4) [OF that] by (simp add: newPageBatcher_ok(1) latest_is_def)
  ultimately have t3: "tasks_ok wi p' (ts[slot := ?x])"
    by (intro tasks_ok_update [OF t2]) (auto split: if_splits)
  have "task_keys (Some (newPageBatcher p' slot cycle)) = []"
    using task_keys_own newPageBatcher_ok(2) by (metis mset_zero_iff)
  then have "tasks_keys (ts[slot := ?x]) = tasks_keys ts" using tasks_keys_update [OF slot(1), of ?x] slot(2) by auto
  then show ?thesis using b(1,3) l2 t3 aw q by (simp add: sys_ok_def)
qed

lemma batcher_add_slot:
  "batcher_add wi policy lane sample b p = (b', p', None) \<Longrightarrow> pg_slot b' = pg_slot b"
  by (auto simp: batcher_add_def Let_def give_up_def split: prod.splits option.splits bool.splits sum.splits if_splits)

lemma sys_ok_add:
  assumes ok: "sys_ok wi p ts ws" and slot: "slot < length ts" "ts ! slot = Some b" and lane: "lane < workers_of p"
    and run: "batcher_add wi policy lane sample b p = (b', p', err)"
  shows "sys_ok wi p' (ts[slot := unless_failed err b']) ws"
proof -
  note pg = sys_ok_page [OF ok slot]
  note g = batcher_add_good [OF pg(1) lane run]
  then have fr: "pub_frame p p'" and good: "page_good wi (tasks_keys (ts[slot := None]) + workers_keys ws) (sending_count ws) p' b'" by simp_all
  have own: "batcher_own b' = {#}" if "err \<noteq> None" using g that by (auto split: option.splits)
  have s: "pg_slot b' = slot" if "err = None" using batcher_add_slot run that pg(2) by simp
  have keys: "mset (task_keys (unless_failed err b')) = batcher_own b'"
    using own by (auto simp: unless_failed_def task_keys_own simp del: task_keys.simps(2))
  have "pub_inv p' (tasks_keys (ts[slot := None]) + workers_keys ws + mset (task_keys (unless_failed err b'))) (sending_count ws)"
    using good by (simp only: keys page_good_def)
  then show ?thesis
    by (rule sys_ok_slot [OF ok fr slot(1)]) (use good s in \<open>auto simp: page_good_def unless_failed_def split: if_splits\<close>)
qed

lemma sys_ok_drop:
  assumes ok: "sys_ok wi p ts ws" and slot: "slot < length ts" and fr: "pub_frame p p'"
    and inv: "pub_inv p' (tasks_keys (ts[slot := None]) + workers_keys ws) (sending_count ws)"
  shows "sys_ok wi p' (ts[slot := None]) ws"
  by (rule sys_ok_slot [OF ok fr slot]) (use inv in simp_all)

lemma sys_ok_finish:
  assumes ok: "sys_ok wi p ts ws" and slot: "slot < length ts" "ts ! slot = Some b"
    and run: "batcher_finish wi b p = (b', p', err)"
  shows "sys_ok wi p' (ts[slot := unless_failed err (newPageBatcher p' slot (pg_cycle b))]) ws"
proof -
  note pg = sys_ok_page [OF ok slot]
  note f = batcher_finish_good [OF pg(1) run]
  have "latest_is slot (pg_cycle b) p" using pg by (auto simp: page_good_def batcher_ok_def latest_is_def)
  then have "latest_is slot (pg_cycle b) p'" using latest_is_frame [OF f(2)] by simp
  then have new: "batcher_ok wi p' (newPageBatcher p' slot (pg_cycle b))" by (simp add: newPageBatcher_ok(1) latest_is_def)
  have "task_keys (Some (newPageBatcher p' slot (pg_cycle b))) = []"
    using task_keys_own newPageBatcher_ok(2) by (metis mset_zero_iff)
  then have keys: "task_keys (unless_failed err (newPageBatcher p' slot (pg_cycle b))) = []" by (simp add: unless_failed_def)
  have "pg_slot (newPageBatcher p' slot (pg_cycle b)) = slot" by (simp add: newPageBatcher_def)
  moreover have "pub_inv p' (tasks_keys (ts[slot := None]) + workers_keys ws
      + mset (task_keys (unless_failed err (newPageBatcher p' slot (pg_cycle b))))) (sending_count ws)"
    unfolding keys using f(1) by simp
  ultimately show ?thesis
    using new by (intro sys_ok_slot [OF ok f(2) slot(1)]) (auto simp: unless_failed_def split: if_splits)
qed

lemma publisher_stop_frame:
  assumes inv: "pub_inv p own n" and running: "\<not> pu_stopped p"
  shows "pu_config (publisher_stop p) = pu_config p \<and> pu_encoder (publisher_stop p) = pu_encoder p
      \<and> pu_started (publisher_stop p) = pu_started p \<and> (pu_started p \<longrightarrow> pu_ctxErr (publisher_stop p) \<noteq> None)
      \<and> (pu_ctxErr p \<noteq> None \<longrightarrow> pu_ctxErr (publisher_stop p) \<noteq> None)"
proof -
  have f: "pu_config (fold (\<lambda>b p. activity_done (releaseBatch b p)) bs p) = pu_config p
      \<and> pu_encoder (fold (\<lambda>b p. activity_done (releaseBatch b p)) bs p) = pu_encoder p
      \<and> pu_started (fold (\<lambda>b p. activity_done (releaseBatch b p)) bs p) = pu_started p
      \<and> pu_ctxErr (fold (\<lambda>b p. activity_done (releaseBatch b p)) bs p) = pu_ctxErr p" for bs p
    by (induction bs arbitrary: p) (simp_all add: activity_done_def releaseBatch_def releaseKeys_def)
  show ?thesis using running f by (simp add: publisher_stop_def Let_def split: prod.split)
qed

lemma sys_ok_stop:
  assumes ok: "sys_ok wi p ts ws"
  shows "sys_ok wi (publisher_stop p) ts ws"
proof (cases "pu_stopped p")
  case True
  then show ?thesis using ok by (simp add: publisher_stop_def)
next
  case False
  have inv: "pub_inv p (tasks_keys ts + workers_keys ws) (sending_count ws)" and life: "life_ok p ws" and tok: "tasks_ok wi p ts"
    using ok by (simp_all add: sys_ok_def)
  have st: "pu_stopped p = lq_closed (pu_queue p)" and len: "length ws = workers_of p" using life by (simp_all add: life_ok_def)
  note s = publisher_stop_good [OF inv st]
  have qi: "queue_inv (workers_of p) (pu_queue p)" and cap: "0 \<le> lq_capacity (pu_queue p)" using inv by (simp_all add: pub_inv_def)
  obtain q removed where q: "queue_close (pu_queue p) = (q, removed)" by (metis surj_pair)
  note c = queue_close_cases [OF qi cap q]
  have pq: "pu_queue (publisher_stop p) = q" using s(3) q by simp
  have others: "pu_config (publisher_stop p) = pu_config p \<and> pu_encoder (publisher_stop p) = pu_encoder p
      \<and> pu_started (publisher_stop p) = pu_started p \<and> (pu_started p \<longrightarrow> pu_ctxErr (publisher_stop p) \<noteq> None)
      \<and> (pu_ctxErr p \<noteq> None \<longrightarrow> pu_ctxErr (publisher_stop p) \<noteq> None)"
    by (rule publisher_stop_frame [OF inv False])
  have "awake q ws" using c(7) False st len by (simp add: awake_def)
  moreover have "tasks_ok wi (publisher_stop p) ts"
    by (rule tasks_ok_cong [OF tok]) (use c(6) others pq in simp_all)
  moreover have "life_ok (publisher_stop p) ws"
    using life others s(4,5) by (auto simp: life_ok_def workers_of_def)
  ultimately show ?thesis using s(1) by (simp add: sys_ok_def pq)
qed

lemma sys_ok_start:
  assumes ok: "sys_ok wi p ts ws" and run: "publisher_start p = (p', None)" "\<not> pu_started p"
  shows "sys_ok wi p' ts (map (\<lambda>w. Polling) ws)"
proof -
  have p': "p' = p\<lparr>pu_started := True\<rparr>" "\<not> pu_stopped p" using run by (auto simp: publisher_start_def split: if_splits)
  have "w = NotStarted" if "w \<in> set ws" for w using ok run(2) that by (auto simp: sys_ok_def life_ok_def)
  then have ws: "ws = replicate (length ws) NotStarted" by (metis replicate_eqI)
  have "concat (map sending_keys (replicate m NotStarted)) = []" "filter is_sending (replicate m NotStarted) = []"
    "concat (map sending_keys (replicate m Polling)) = []" "filter is_sending (replicate m Polling) = []" for m
    by (induction m) simp_all
  then have "workers_keys ws = workers_keys (map (\<lambda>w. Polling) ws)" "sending_count ws = sending_count (map (\<lambda>w. Polling) ws)"
    unfolding workers_keys_def sending_count_def map_replicate_const by (subst ws, simp only:)+
  moreover have "tasks_ok wi p' ts" by (rule tasks_ok_cong [of wi p]) (use ok in \<open>simp_all add: sys_ok_def p'\<close>)
  ultimately show ?thesis using ok
    by (simp add: sys_ok_def pub_inv_def life_ok_def reserved_keys_def workers_of_def awake_def p')
qed

section \<open>Reachable states\<close>

definition sys_inv :: "Wire \<Rightarrow> PubSystem \<Rightarrow> bool" where
  "sys_inv wi s \<longleftrightarrow> sys_ok wi (sy_pub s) (sy_slots s) (sy_workers s)"

lemma sys_inv_init:
  assumes "NewStreamingPublisher parse cacheSlots config = Inr p"
  shows "sys_inv wi (pub_init p)"
proof -
  let ?c = "publisher_defaults config"
  obtain e where p: "newBatchEncoder (sp_MaxSamples ?c) (sp_MaxBatchBytes ?c) = Inr e" "publisher_validate parse ?c = None"
    "p = \<lparr>pu_config = ?c, pu_encoder = e, pu_queue = newLaneQueue (nat (sp_Workers ?c)) (sp_QueueCapacity ?c),
         pu_worker = \<lparr>pw_maxRetries = sp_MaxRetries ?c, pw_backoff = sp_RetryBackoff ?c, pw_maxBackoff = sp_MaxRetryBackoff ?c\<rparr>,
         pu_started = False, pu_stopped = False, pu_ctxErr = None,
         pu_lastRequested = replicate (sp_SpreadSlots ?c) 0, pu_lastCycle = replicate (sp_SpreadSlots ?c) 0,
         pu_reservations = [], pu_pending = 0, pu_idle = True, pu_counters = no_stats\<rparr>"
    using assms unfolding NewStreamingPublisher_def Let_def by (auto split: option.splits if_splits sum.splits)
  have pos: "0 < sp_Workers ?c" "0 < sp_QueueCapacity ?c"
    using p(2) unfolding publisher_validate_def by (auto simp: first_error_def split: option.splits if_splits)
  have inv: "pub_inv p {#} 0"
    unfolding pub_inv_def p(3) using newBatchEncoder_ok [OF p(1)] newLaneQueue_inv [of "sp_QueueCapacity ?c" "nat (sp_Workers ?c)"] pos
    by (simp add: workers_of_def reserved_keys_def batch_keys_def queued_def newLaneQueue_def)
  have empty: "concat (map task_keys (replicate m None)) = []" "concat (map sending_keys (replicate m NotStarted)) = []"
    "filter is_sending (replicate m NotStarted) = []" for m by (induction m) simp_all
  have "tasks_keys (sy_slots (pub_init p)) = {#}" "workers_keys (sy_workers (pub_init p)) = {#}" "sending_count (sy_workers (pub_init p)) = 0"
    unfolding tasks_keys_def workers_keys_def sending_count_def pub_init_def PubSystem.select_convs empty by simp_all
  then show ?thesis using inv pos
    by (auto simp: sys_inv_def sys_ok_def tasks_ok_def life_ok_def awake_def pub_init_def workers_of_def p(3) newLaneQueue_def)
qed

lemma sys_inv_step:
  assumes "pub_step wi s s'" "sys_inv wi s"
  shows "sys_inv wi s'"
  using assms
proof cases
  case (Begin slot requested p1 cycle p current removed)
  then show ?thesis using assms(2) sys_ok_begin by (simp add: sys_inv_def set_slot_def)
next
  case (Add slot b lane policy sample b' p err)
  then show ?thesis using assms(2) sys_ok_add by (simp add: sys_inv_def set_slot_def slot_runs_def)
next
  case (Finish slot b b' p err)
  then show ?thesis using assms(2) sys_ok_finish by (simp add: sys_inv_def set_slot_def slot_runs_def)
next
  case (Pop lane q b)
  then show ?thesis using assms(2) sys_ok_pop by (simp add: sys_inv_def set_worker_def worker_is_def)
next
  case (Delivered lane b exchange wait d acked)
  then show ?thesis using assms(2) sys_ok_delivered by (simp add: sys_inv_def set_worker_def worker_is_def)
next
  case Stop
  then show ?thesis using assms(2) sys_ok_stop by (simp add: sys_inv_def)
next
  case (Start p)
  then show ?thesis using assms(2) sys_ok_start by (simp add: sys_inv_def)
next
  case (Cancelled slot b b' p)
  have ok: "sys_ok wi (sy_pub s) (sy_slots s) (sy_workers s)" using assms(2) by (simp add: sys_inv_def)
  have slot: "slot < length (sy_slots s)" "sy_slots s ! slot = Some b" using Cancelled by (simp_all add: slot_runs_def)
  note c = cleanup_good [OF sys_ok_page(1) [OF ok slot] Cancelled(3)]
  show ?thesis using sys_ok_drop [OF ok slot(1) c(2,1)] Cancelled(1) by (simp add: sys_inv_def set_slot_def)
next
  case (Return slot b)
  have ok: "sys_ok wi (sy_pub s) (sy_slots s) (sy_workers s)" using assms(2) by (simp add: sys_inv_def)
  have slot: "slot < length (sy_slots s)" "sy_slots s ! slot = Some b" using Return by (simp_all add: slot_runs_def)
  have "pub_inv (sy_pub s) (tasks_keys ((sy_slots s)[slot := None]) + workers_keys (sy_workers s)) (sending_count (sy_workers s))"
    using sys_ok_page(1) [OF ok slot] Return(3) by (simp add: page_good_def)
  from sys_ok_drop [OF ok slot(1) pub_frame_refl this] show ?thesis using Return(1) by (simp add: sys_inv_def set_slot_def)
next
  case (Wait lane q)
  then have "q = pu_queue (sy_pub s)" "lq_lanes (pu_queue (sy_pub s)) ! lane = []" "\<not> lq_closed (pu_queue (sy_pub s))"
    by (auto simp: pop_try_def split: list.splits if_splits)
  then show ?thesis using Wait assms(2) sys_ok_idle [OF _ _ _ _ _ _ disjI1 [OF refl], of wi "sy_pub s" "sy_slots s" "sy_workers s" lane Waiting]
    by (simp add: sys_inv_def set_worker_def worker_is_def)
next
  case (Closed lane q)
  then have q: "q = pu_queue (sy_pub s)" "lq_closed (pu_queue (sy_pub s))" and l: "lane < length (sy_workers s)" "sy_workers s ! lane = Polling"
    by (auto simp: pop_try_def worker_is_def split: list.splits if_splits)
  have "Polling \<in> set (sy_workers s)" using l by (metis nth_mem)
  then have "pu_ctxErr (sy_pub s) \<noteq> None" using assms(2) q by (auto simp: sys_inv_def sys_ok_def life_ok_def)
  then show ?thesis using Closed q l assms(2) sys_ok_idle [OF _ _ _ _ _ _ disjI1 [OF refl], of wi "sy_pub s" "sy_slots s" "sy_workers s" lane Ended]
    by (simp add: sys_inv_def set_worker_def)
next
  case (Wake lane)
  then show ?thesis using assms(2) sys_ok_idle [OF _ _ _ _ _ _ disjI2 [OF refl], of wi "sy_pub s" "sy_slots s" "sy_workers s" lane Polling]
    by (simp add: sys_inv_def set_worker_def worker_is_def)
next
  case (CtxDone lane)
  then show ?thesis using assms(2) sys_ok_idle [OF _ _ _ _ _ _ disjI1 [OF refl], of wi "sy_pub s" "sy_slots s" "sy_workers s" lane Ended]
    by (simp add: sys_inv_def set_worker_def worker_is_def)
next
  case (ParentDone err)
  have "tasks_ok wi ((sy_pub s)\<lparr>pu_ctxErr := Some err\<rparr>) (sy_slots s)"
    by (rule tasks_ok_cong [of wi "sy_pub s"]) (use assms(2) in \<open>simp_all add: sys_inv_def sys_ok_def\<close>)
  then show ?thesis using assms(2) ParentDone
    by (simp add: sys_inv_def sys_ok_def pub_inv_def life_ok_def reserved_keys_def workers_of_def)
qed

theorem sys_inv_reachable:
  assumes "NewStreamingPublisher parse cacheSlots config = Inr p" "pub_reachable wi p s"
  shows "sys_inv wi s"
  using assms(2) by induction (simp_all add: sys_inv_init [OF assms(1)] sys_inv_step)

end
