(* ===== verification/Slot_Laws.thy ===== *)
theory Slot_Laws
  imports Publisher_System
begin

text \<open>
  The value loop of \<^verbatim>\<open>PublishSlot\<close> over a store that answers like a fixed set of pages: it reads what following the
  cursor yields.
\<close>

section \<open>Following the cursor\<close>

lemma value_loop_drain:
  assumes inv: "pub_inv p own n" and w: "0 < workers_of p" and cyc: "latest_is slot cycle p"
    and ctx: "\<And>i. ctx i = None" and size: "sp_PageSize (pu_config p) = limit"
    and read: "\<And>i cursor. valid cursor \<Longrightarrow> read i cursor cycle limit = Inr (rd cursor)"
    and nxt: "\<And>cursor. valid cursor \<Longrightarrow> valid (pp_Next (rd cursor)) \<and> (pp_Done (rd cursor) \<or> pp_Next (rd cursor) \<noteq> cursor)"
    and drain: "drain rd fuel cursor = Some vs" "valid cursor"
  shows "\<exists>r' p' err. value_loop wi fp ctx read snapshot slot cycle fuel i cursor r p = Some (r', p', err)
    \<and> sr_CycleTimestamp r' = sr_CycleTimestamp r
    \<and> (err = None \<longrightarrow> sr_ValuesRead r' = sr_ValuesRead r + length vs \<and> (\<forall>v \<in> set vs. taken_care wi snapshot p' v)
        \<and> reserved_keys p \<subseteq># reserved_keys p' \<and> pu_encoder p' = pu_encoder p)"
  using inv w cyc size drain
proof (induction fuel arbitrary: i cursor r p vs)
  case 0
  then show ?case by simp
next
  case (Suc fuel)
  let ?page = "rd cursor"
  obtain res q e where pr: "processPage wi fp snapshot slot cycle (pp_Values ?page) p = (res, q, e)" by (metis prod_cases3)
  note g = processPage_good [OF Suc.prems(1,2) Suc.prems(3) [unfolded latest_is_def] pr]
  let ?r = "add_page res (length (pp_Values ?page)) r"
  have rd: "read i cursor cycle (sp_PageSize (pu_config p)) = Inr ?page" using read [OF Suc.prems(6)] Suc.prems(4) by simp
  have enc: "pu_encoder q = pu_encoder p" using g(2) by (simp add: pub_frame_def)
  show ?case
  proof (cases "e = None \<and> \<not> pp_Done ?page")
    case False
    have fin: "vs = pp_Values ?page" if "pp_Done ?page" using Suc.prems(5) that by (simp add: Let_def)
    from False consider e' where "e = Some e'" | "e = None" "pp_Done ?page" by (cases e) auto
    then show ?thesis
    proof cases
      case 1
      then have "errors_join [pr_oversizedErr (sr_page ?r), Some e'] \<noteq> None" by (simp add: errors_join_def)
      then show ?thesis using 1 rd pr ctx by (auto simp: Let_def add_page_def)
    next
      case 2
      then show ?thesis using rd pr ctx fin g(6,7) enc by (simp add: Let_def add_page_def)
    qed
  next
    case True
    then obtain ws where ws: "drain rd fuel (pp_Next ?page) = Some ws" "vs = pp_Values ?page @ ws"
      using Suc.prems(5) by (auto simp: Let_def)
    have nx: "valid (pp_Next ?page)" "pp_Next ?page \<noteq> cursor" using nxt [OF Suc.prems(6)] True by auto
    have "pub_inv q own n" "0 < workers_of q" "latest_is slot cycle q" "sp_PageSize (pu_config q) = limit"
      using g(1,2) Suc.prems(2,3,4) latest_is_frame [OF g(2)] by (simp_all add: pub_frame_def workers_of_def)
    from Suc.IH [OF this ws(1) nx(1)] obtain r' p' err where
      run: "value_loop wi fp ctx read snapshot slot cycle fuel (Suc i) (pp_Next ?page) ?r q = Some (r', p', err)"
      and r': "sr_CycleTimestamp r' = sr_CycleTimestamp ?r"
        "err = None \<longrightarrow> sr_ValuesRead r' = sr_ValuesRead ?r + length ws \<and> (\<forall>v \<in> set ws. taken_care wi snapshot p' v)
        \<and> reserved_keys q \<subseteq># reserved_keys p' \<and> pu_encoder p' = pu_encoder q" by blast
    have "value_loop wi fp ctx read snapshot slot cycle (Suc fuel) i cursor r p = Some (r', p', err)"
      using rd pr ctx True nx(2) run by (simp add: Let_def)
    moreover have "sr_ValuesRead r' = sr_ValuesRead r + length vs \<and> (\<forall>v \<in> set vs. taken_care wi snapshot p' v)
        \<and> reserved_keys p \<subseteq># reserved_keys p' \<and> pu_encoder p' = pu_encoder p" if "err = None"
    proof -
      have e: "e = None" using True by simp
      have tail: "sr_ValuesRead r' = sr_ValuesRead ?r + length ws" "\<forall>v \<in> set ws. taken_care wi snapshot p' v"
        "reserved_keys q \<subseteq># reserved_keys p'" "pu_encoder p' = pu_encoder q" using r'(2) that by auto
      have "\<forall>v \<in> set (pp_Values ?page). taken_care wi snapshot p' v"
        using g(6) [OF e] taken_care_mono [OF _ tail(3,4)] by blast
      moreover have "reserved_keys p \<subseteq># reserved_keys p'"
        using g(7) [OF e] tail(3) by (rule subset_mset.order_trans)
      ultimately show ?thesis using tail enc ws(2) by (auto simp: add_page_def)
    qed
    ultimately show ?thesis using r'(1) by (simp add: add_page_def)
  qed
qed

section \<open>The configuration never changes\<close>

lemma sys_page:
  assumes "sys_inv wi s" "slot_runs s slot b"
  shows "page_good wi (tasks_keys ((sy_slots s)[slot := None]) + workers_keys (sy_workers s)) (sending_count (sy_workers s)) (sy_pub s) b"
  using sys_ok_page(1) assms by (simp add: sys_inv_def slot_runs_def)

lemma step_config:
  assumes "pub_step wi s s'" "sys_inv wi s"
  shows "pu_config (sy_pub s') = pu_config (sy_pub s)"
  using assms(1)
proof cases
  case (Begin slot requested p1 cycle p current removed)
  have "pub_inv (sy_pub s) (tasks_keys (sy_slots s) + workers_keys (sy_workers s)) (sending_count (sy_workers s))"
    using assms(2) by (simp add: sys_inv_def sys_ok_def)
  then have "pub_inv p1 (tasks_keys (sy_slots s) + workers_keys (sy_workers s)) (sending_count (sy_workers s))"
    using normalizeCycle_keeps [OF Begin(5)] by simp
  then show ?thesis using begin_cycle_good(6) [OF _ Begin(6)] normalizeCycle_keeps [OF Begin(5), of "{#}" 0] Begin(1)
    by (simp add: set_slot_def)
next
  case (Add slot b lane policy sample b' p err)
  then show ?thesis using batcher_add_good [OF sys_page [OF assms(2) Add(2)] Add(3,4)] by (simp add: set_slot_def pub_frame_def)
next
  case (Finish slot b b' p err)
  then show ?thesis using batcher_finish_good(2) [OF sys_page [OF assms(2) Finish(2)] Finish(3)] by (simp add: set_slot_def pub_frame_def)
next
  case (Cancelled slot b b' p)
  then show ?thesis using cleanup_good(2) [OF sys_page [OF assms(2) Cancelled(2)] Cancelled(3)] by (simp add: set_slot_def pub_frame_def)
next
  case Stop
  have "pub_inv (sy_pub s) (tasks_keys (sy_slots s) + workers_keys (sy_workers s)) (sending_count (sy_workers s))"
    using assms(2) by (simp add: sys_inv_def sys_ok_def)
  then show ?thesis using publisher_stop_frame Stop by (cases "pu_stopped (sy_pub s)") (auto simp: publisher_stop_def)
qed (auto simp: set_slot_def set_worker_def publisher_start_def finish_delivery_def activity_done_def releaseBatch_def releaseKeys_def split: if_splits)

lemma reachable_config:
  assumes "NewStreamingPublisher parse cacheSlots config = Inr p" "pub_reachable wi p s"
  shows "pu_config (sy_pub s) = publisher_defaults config" "0 < sp_PageSize (publisher_defaults config)"
    "case cacheSlots of None \<Rightarrow> True | Some n \<Rightarrow> n = sp_SpreadSlots (publisher_defaults config)"
proof -
  have valid: "publisher_validate parse (publisher_defaults config) = None" and p: "pu_config p = publisher_defaults config"
    and slots: "case cacheSlots of None \<Rightarrow> True | Some n \<Rightarrow> n = sp_SpreadSlots (publisher_defaults config)"
    using assms(1) unfolding NewStreamingPublisher_def Let_def by (auto split: option.splits if_splits sum.splits)
  show "pu_config (sy_pub s) = publisher_defaults config" using assms(2)
  proof induction
    case initial
    then show ?case using p by (simp add: pub_init_def)
  next
    case (onward s s')
    then show ?case using step_config [OF onward(2) sys_inv_reachable [OF assms(1) onward(1)]] by simp
  qed
  show "0 < sp_PageSize (publisher_defaults config)"
    using valid unfolding publisher_validate_def by (auto simp: first_error_def split: option.splits if_splits)
  show "case cacheSlots of None \<Rightarrow> True | Some n \<Rightarrow> n = sp_SpreadSlots (publisher_defaults config)" by (rule slots)
qed

section \<open>A slot over the value cache\<close>

lemma PublishSlot_drain:
  assumes inv: "pub_inv p own n" and w: "0 < workers_of p" and st: "pu_stopped p = lq_closed (pu_queue p)"
    and size: "sp_PageSize (pu_config p) = limit"
    and read: "\<And>i cursor t. valid cursor \<Longrightarrow> read i cursor t limit = Inr (rd t cursor)"
    and nxt: "\<And>cursor t. valid cursor \<Longrightarrow> valid (pp_Next (rd t cursor)) \<and> (pp_Done (rd t cursor) \<or> pp_Next (rd t cursor) \<noteq> cursor)"
    and drain: "\<And>t. drain (rd t) fuel first_cursor = Some (vs t)" "valid first_cursor"
  shows "\<exists>r p' err. PublishSlot wi fp nm host_ctx (\<lambda>i. None) read (Some snapshot) fuel slot requested p = Some (r, p', err)
    \<and> (err = None \<and> latest_is slot (sr_CycleTimestamp r) p' \<longrightarrow> list_all (taken_care wi snapshot p') (vs (sr_CycleTimestamp r))
         \<and> sr_ValuesRead r = length (vs (sr_CycleTimestamp r)))"
proof (cases "slot \<ge> sp_SpreadSlots (pu_config p) \<or> time_IsZero requested \<or> ready p \<noteq> None")
  case True
  then show ?thesis by (cases "ready p") (auto simp: PublishSlot_def Let_def)
next
  case False
  obtain p1 cycle where norm: "normalizeCycle slot requested p = (p1, cycle)" by (metis surj_pair)
  obtain p2 current removed where beg: "begin_cycle slot cycle p1 = (p2, current, removed)" by (metis prod_cases3)
  note k = normalizeCycle_keeps [OF norm, of own n]
  have inv1: "pub_inv p1 own n" using inv k by simp
  note b = begin_cycle_good [OF inv1 beg]
  have open_queue: "\<not> lq_closed (pu_queue p1)" using False st k by (auto simp: ready_def split: if_splits)
  show ?thesis
  proof (cases current)
    case stale: False
    then have "p2 = p1" using b(5) by simp
    moreover have "\<not> latest_is slot cycle p1"
      using beg stale open_queue unfolding latest_is_def
      by (auto simp: begin_cycle_def beginLongCycle_def Let_def split: prod.splits if_splits option.splits)
    ultimately show ?thesis using norm beg False stale by (auto simp: PublishSlot_def Let_def)
  next
    case True
    obtain hosts p3 e where hosts: "processHosts wi fp nm host_ctx snapshot slot cycle p2 = (hosts, p3, e)" by (metis prod_cases3)
    have w2: "0 < workers_of p2" "pu_config p2 = pu_config p" using w b(6) k by (simp_all add: workers_of_def)
    have l2: "latest_is slot cycle p2" using b(4) True by simp
    note h = processHosts_good [OF b(1) w2(1) l2 hosts]
    show ?thesis
    proof (cases e)
      case (Some e')
      have "errors_join [pr_oversizedErr (hr_page hosts), Some e'] \<noteq> None" by (simp add: errors_join_def)
      then show ?thesis using norm beg False True hosts Some by (auto simp: PublishSlot_def Let_def)
    next
      case None
      define r3 where "r3 = \<lparr>sr_Slot = slot, sr_CycleTimestamp = cycle, sr_HostPagesRead = hr_PagesRead hosts,
          sr_HostSeriesRead = hr_SeriesRead hosts, sr_PagesRead = 0, sr_ValuesRead = 0, sr_page = hr_page hosts,
          sr_CoalescedBatches = length removed, sr_CoalescedSamples = sum_list (map eb_samples removed)\<rparr>"
      have eq: "PublishSlot wi fp nm host_ctx (\<lambda>i. None) read (Some snapshot) fuel slot requested p
          = value_loop wi fp (\<lambda>i. None) read snapshot slot cycle fuel 0 first_cursor r3 p3"
        using norm beg False True hosts None by (simp add: PublishSlot_def Let_def r3_def first_cursor_def)
      have "0 < workers_of p3" "latest_is slot cycle p3" "sp_PageSize (pu_config p3) = limit"
        using w2 l2 size pub_frame_workers [OF h(2)] latest_is_frame [OF h(2)] h(2) by (simp_all add: pub_frame_def)
      note p3 = this
      have "\<exists>r' p' err. value_loop wi fp (\<lambda>i. None) read snapshot slot cycle fuel 0 first_cursor r3 p3 = Some (r', p', err)
        \<and> sr_CycleTimestamp r' = sr_CycleTimestamp r3
        \<and> (err = None \<longrightarrow> sr_ValuesRead r' = sr_ValuesRead r3 + length (vs cycle) \<and> (\<forall>v \<in> set (vs cycle). taken_care wi snapshot p' v)
            \<and> reserved_keys p3 \<subseteq># reserved_keys p' \<and> pu_encoder p' = pu_encoder p3)"
        by (rule value_loop_drain [OF h(1) p3(1,2) _ p3(3), where valid = valid and rd = "rd cycle"]) (use read nxt drain in auto)
      then show ?thesis unfolding eq by (auto simp: r3_def list_all_iff)
    qed
  qed
qed

end
