(* ===== verification/Publisher_Properties.thy ===== *)
theory Publisher_Properties
  imports Publisher_System
begin

text \<open>
  The properties of the publisher: its bookkeeping under every interleaving of slots and workers, the wake-ups of
  the workers, what a slot publishes and what its errors mean, and the delivery of one batch.
\<close>

section \<open>An example publisher\<close>

definition example_wire :: Wire where
  "example_wire = \<lparr>wi_Size = (\<lambda>s. 10 * length (ts_Labels s)), wi_Marshal = (\<lambda>ss.
     Inr (concat (map (\<lambda>s. replicate (repeatedMessageSize (10 * length (ts_Labels s))) CHR ''x'') ss))), wi_Snappy = (\<lambda>s. s)\<rparr>"

definition example_config :: StreamingPublisherConfig where
  "example_config = \<lparr>sp_EndpointURL = ''http://h/w'', sp_Timeout = 0, sp_Username = [], sp_Password = [], sp_SpreadSlots = 2,
     sp_PageSize = 2, sp_MaxSamples = 1, sp_MaxBatchBytes = 100, sp_Workers = 2, sp_QueueCapacity = 4, sp_MaxRetries = 1,
     sp_RetryBackoff = 0, sp_MaxRetryBackoff = 0\<rparr>"

definition example_publisher :: Publisher where
  "example_publisher =
     \<lparr>pu_config = publisher_defaults example_config, pu_encoder = \<lparr>be_maxSamples = 1, be_maxBytes = 100\<rparr>,
      pu_queue = newLaneQueue 2 4,
      pu_worker = \<lparr>pw_maxRetries = 1, pw_backoff = 100000000, pw_maxBackoff = 2000000000\<rparr>,
      pu_started = False, pu_stopped = False, pu_ctxErr = None, pu_lastRequested = [0, 0], pu_lastCycle = [0, 0],
      pu_reservations = [], pu_pending = 0, pu_idle = True, pu_counters = no_stats\<rparr>"

lemma example_new: "NewStreamingPublisher (\<lambda>url. Inr (''http'', ''h'')) None example_config = Inr example_publisher"
  by (simp add: NewStreamingPublisher_def publisher_defaults_def example_config_def example_publisher_def or_else_def
      publisher_validate_def endpoint_validate_def first_error_def newBatchEncoder_def duration_units Let_def numeral_2_eq_2)

lemma example_exact: "exact_wire example_wire"
proof -
  have "length (concat (map (\<lambda>s. replicate (f s) CHR ''x'') ss)) = sum_list (map f ss)" for f :: "TimeSeries \<Rightarrow> nat" and ss
    by (induction ss) simp_all
  then show ?thesis by (simp add: exact_wire_def example_wire_def entry_size_def [abs_def])
qed

section \<open>Bookkeeping and wake-ups\<close>

text \<open>C31: However slots, workers, cancellation and stopping interleave, the reserved keys are, each once, the keys of the
  queued batches, of the batches being sent and of the pages in progress; so no sample is pending twice, and the idle
  channel is closed exactly when no batch is queued or being sent.\<close>

theorem publisher_bookkeeping:
  assumes "NewStreamingPublisher parse cacheSlots config = Inr p0" "pub_reachable wi p0 s"
  shows "distinct (mkeys (pu_reservations (sy_pub s)))
    \<and> mset (mkeys (pu_reservations (sy_pub s)))
        = batch_keys (queued (pu_queue (sy_pub s))) + tasks_keys (sy_slots s) + workers_keys (sy_workers s)
    \<and> pu_pending (sy_pub s) = int (length (queued (pu_queue (sy_pub s))) + sending_count (sy_workers s))
    \<and> (pu_idle (sy_pub s) \<longleftrightarrow> queued (pu_queue (sy_pub s)) = [] \<and> sending_count (sy_workers s) = 0)"
proof -
  have "pub_inv (sy_pub s) (tasks_keys (sy_slots s) + workers_keys (sy_workers s)) (sending_count (sy_workers s))"
    using sys_inv_reachable [OF assms] by (simp add: sys_inv_def sys_ok_def)
  then show ?thesis unfolding pub_inv_def reserved_keys_def wf_map_def
    by (elim conjE) (simp only: of_nat_eq_0_iff add_is_0 length_0_conv add.assoc simp_thms)
qed

theorem publisher_bookkeeping_witness:
  "distinct (mkeys (pu_reservations (sy_pub (pub_init example_publisher))))"
  using publisher_bookkeeping [OF example_new pub_reachable.initial] by blast


definition example_started :: PubSystem where
  "example_started = \<lparr>sy_pub = example_publisher\<lparr>pu_started := True\<rparr>, sy_slots = [None, None], sy_workers = [Polling, Polling]\<rparr>"

lemma example_init: "pub_init example_publisher = \<lparr>sy_pub = example_publisher, sy_slots = [None, None], sy_workers = [NotStarted, NotStarted]\<rparr>"
  by (simp add: pub_init_def example_publisher_def publisher_defaults_def example_config_def or_else_def workers_of_def numeral_2_eq_2)

lemma example_reach_started: "pub_reachable wi example_publisher example_started"
proof -
  have "publisher_start (sy_pub (pub_init example_publisher)) = (example_publisher\<lparr>pu_started := True\<rparr>, None)"
    "\<not> pu_started (sy_pub (pub_init example_publisher))"
    by (simp_all add: example_init publisher_start_def) (simp_all add: example_publisher_def)
  from pub_step.Start [OF this, of wi] show ?thesis
    by (intro pub_reachable.onward [OF pub_reachable.initial]) (simp add: example_init example_started_def)
qed

definition example_stopped :: PubSystem where
  "example_stopped = \<lparr>sy_pub = publisher_stop (example_publisher\<lparr>pu_started := True\<rparr>), sy_slots = [None, None], sy_workers = [Waiting, Polling]\<rparr>"

lemma example_reach_stopped: "pub_reachable wi example_publisher example_stopped"
proof -
  have q: "pop_try 0 (pu_queue (sy_pub example_started)) = (pu_queue (sy_pub example_started), LaneEmpty)"
    by (simp add: example_started_def example_publisher_def pop_try_def newLaneQueue_def numeral_2_eq_2)
  have "worker_is example_started 0 Polling" by (simp add: worker_is_def example_started_def)
  from pub_reachable.onward [OF example_reach_started pub_step.Wait [OF this q]]
  have "pub_reachable wi example_publisher \<lparr>sy_pub = example_publisher\<lparr>pu_started := True\<rparr>, sy_slots = [None, None], sy_workers = [Waiting, Polling]\<rparr>"
    by (simp add: set_worker_def example_started_def)
  from pub_reachable.onward [OF this pub_step.Stop] show ?thesis by (simp add: example_stopped_def)
qed

lemma example_stopped_queue: "pu_queue (sy_pub example_stopped) =
    \<lparr>lq_lanes = [[], []], lq_notify = [True, True], lq_capacity = 4, lq_size = 0, lq_closed = True, lq_latestCycles = []\<rparr>"
  by (simp add: example_stopped_def publisher_stop_def example_publisher_def queue_close_def newLaneQueue_def numeral_2_eq_2 Let_def)


text \<open>C37: After stopping nothing is left behind: the queue is empty at once, and when the slots have returned and the workers
  have ended no key is reserved, the activity count is zero and the idle channel is closed.\<close>

theorem stopped_publisher_drained:
  assumes "NewStreamingPublisher parse cacheSlots config = Inr p0" "pub_reachable wi p0 s" "pu_stopped (sy_pub s)"
  shows "queued (pu_queue (sy_pub s)) = [] \<and> ready (sy_pub s) = Some ErrPublisherStopped
    \<and> (set (sy_slots s) \<subseteq> {None} \<and> set (sy_workers s) \<subseteq> {NotStarted, Ended} \<longrightarrow>
         pu_reservations (sy_pub s) = [] \<and> pu_pending (sy_pub s) = 0 \<and> pu_idle (sy_pub s))"
proof -
  have ok: "sys_ok wi (sy_pub s) (sy_slots s) (sy_workers s)" using sys_inv_reachable [OF assms(1,2)] by (simp add: sys_inv_def)
  then have inv: "pub_inv (sy_pub s) (tasks_keys (sy_slots s) + workers_keys (sy_workers s)) (sending_count (sy_workers s))"
    and closed: "lq_closed (pu_queue (sy_pub s))" using assms(3) by (simp_all add: sys_ok_def life_ok_def)
  have q: "queued (pu_queue (sy_pub s)) = []" using inv closed by (simp add: pub_inv_def queue_inv_def)
  have "pu_reservations (sy_pub s) = [] \<and> pu_pending (sy_pub s) = 0 \<and> pu_idle (sy_pub s)"
    if slots: "set (sy_slots s) \<subseteq> {None}" and workers: "set (sy_workers s) \<subseteq> {NotStarted, Ended}"
  proof -
    have "task_keys x = []" if "x \<in> set (sy_slots s)" for x using that slots by auto
    then have t: "concat (map task_keys (sy_slots s)) = []" by simp
    have w: "sending_keys x = [] \<and> \<not> is_sending x" if "x \<in> set (sy_workers s)" for x using that workers by auto
    then have "concat (map sending_keys (sy_workers s)) = []" "filter is_sending (sy_workers s) = []"
      by simp_all
    then have "tasks_keys (sy_slots s) = {#}" "workers_keys (sy_workers s) = {#}" "sending_count (sy_workers s) = 0"
      using t by (simp_all add: tasks_keys_def workers_keys_def sending_count_def del: concat_eq_Nil_conv)
    then show ?thesis using inv q by (simp add: pub_inv_def reserved_keys_def batch_keys_def)
  qed
  then show ?thesis using q assms(3) by (simp add: ready_def)
qed

theorem stopped_publisher_drained_witness:
  "queued (pu_queue (sy_pub example_stopped)) = []"
proof -
  have "pu_stopped (sy_pub example_stopped)" by (simp add: example_stopped_def publisher_stop_def example_publisher_def queue_close_def newLaneQueue_def numeral_2_eq_2 Let_def)
  from stopped_publisher_drained [OF example_new example_reach_stopped this] show ?thesis by blast
qed

text \<open>C34: The queue keeps its capacity, holds each batch in the lane of its worker, and holds for every slot only batches of
  the newest cycle.  A new cycle takes exactly the outdated batches out, keeps the others in their order and
  releases the keys of the batches it has taken out.\<close>

theorem new_cycle_coalesces:
  assumes "NewStreamingPublisher parse cacheSlots config = Inr p0" "pub_reachable wi p0 s"
    and run: "begin_cycle slot cycle (sy_pub s) = (p', True, removed)"
  shows "queue_inv (length (sy_workers s)) (pu_queue (sy_pub s))
    \<and> lq_lanes (pu_queue p') = map (filter (\<lambda>b. \<not> outdated slot (to_UnixMilli cycle) b)) (lq_lanes (pu_queue (sy_pub s)))
    \<and> removed = concat (map (filter (outdated slot (to_UnixMilli cycle))) (lq_lanes (pu_queue (sy_pub s))))
    \<and> reserved_keys p' = reserved_keys (sy_pub s) - batch_keys removed"
proof -
  let ?q = "pu_queue (sy_pub s)"
  let ?old = "outdated slot (to_UnixMilli cycle)"
  have inv: "pub_inv (sy_pub s) (tasks_keys (sy_slots s) + workers_keys (sy_workers s)) (sending_count (sy_workers s))"
    and w: "length (sy_workers s) = workers_of (sy_pub s)"
    using sys_inv_reachable [OF assms(1,2)] by (simp_all add: sys_inv_def sys_ok_def life_ok_def)
  have qi: "queue_inv (workers_of (sy_pub s)) ?q" using inv by (simp add: pub_inv_def)
  obtain q where q: "beginLongCycle slot (to_UnixMilli cycle) ?q = (q, True, removed)"
    using run by (auto simp: begin_cycle_def split: prod.splits)
  note b = begin_cycle_good [OF inv run]
  have pq: "pu_queue p' = q" using b(3) q by simp
  have lanes: "lq_lanes q = map (filter (\<lambda>b. \<not> ?old b)) (lq_lanes ?q) \<and> removed = concat (map (filter ?old) (lq_lanes ?q))"
  proof (cases "mget (lq_latestCycles ?q) slot = Some (to_UnixMilli cycle)")
    case True
    then have eq: "q = ?q" "removed = []" using q by (auto simp: beginLongCycle_def Let_def split: if_splits)
    have "\<not> ?old b" if "lane \<in> set (lq_lanes ?q)" "b \<in> set lane" for lane b
    proof -
      have "b \<in> set (queued ?q)" using that by (auto simp: queued_def)
      then have "current_cycle ?q b" using qi by (simp add: queue_inv_def)
      then show ?thesis using True by (auto simp: outdated_def current_cycle_def)
    qed
    then have "map (filter (\<lambda>b. \<not> ?old b)) (lq_lanes ?q) = lq_lanes ?q" "concat (map (filter ?old) (lq_lanes ?q)) = []"
      by (auto intro!: map_idI simp: filter_id_conv filter_empty_conv)
    then show ?thesis unfolding eq by simp
  next
    case False
    then show ?thesis using q by (auto simp: beginLongCycle_def Let_def split: if_splits)
  qed
  have "mset (queued ?q) = mset (queued q @ removed)" using beginLongCycle_mset [OF q] by simp
  then have "batch_keys (queued ?q) = batch_keys (queued q) + batch_keys removed"
    using batch_keys_perm batch_keys_append by metis
  then have "reserved_keys p' = reserved_keys (sy_pub s) - batch_keys removed"
    using reserved_split [OF inv] reserved_split [OF b(1)] by (simp add: queued_keys_def pq)
  then show ?thesis using lanes qi w by (simp add: pq)
qed

definition example_cycle :: time where "example_cycle = 63000000000 * 1000000000"

theorem new_cycle_coalesces_witness:
  "reserved_keys (fst (begin_cycle 1 example_cycle (sy_pub example_started)))
    = reserved_keys (sy_pub example_started) - batch_keys []"
proof -
  obtain p' c r where run: "begin_cycle 1 example_cycle (sy_pub example_started) = (p', c, r)" by (metis prod_cases3)
  then have "c" "r = []"
    by (simp_all add: begin_cycle_def beginLongCycle_def example_started_def example_publisher_def newLaneQueue_def Let_def
        numeral_2_eq_2 split: prod.splits)
  then show ?thesis using new_cycle_coalesces [OF example_new example_reach_started, of 1 example_cycle p' r] run by simp
qed

end
