(* ===== verification/Slot_Properties.thy ===== *)
theory Slot_Properties
  imports Slot_Laws Publisher_Properties Cache_Properties
begin

text \<open>
  What one call of \<^verbatim>\<open>PublishSlot\<close> does: it accounts for every host and value of the slot, and run over the value
  cache it reads every eligible entry of the slot.
\<close>

text \<open>A slot publication leaves no key reserved for itself, whether it fails or not; one without an error has counted
  every exportable or skipped host of the slot and every value it read exactly once as queued, already pending,
  oversized or without metadata - unless a newer cycle had made it obsolete from the start.\<close>

theorem publish_slot_accounts:
  assumes "NewStreamingPublisher parse cacheSlots config = Inr p0" "pub_reachable wi p0 s"
    and run: "PublishSlot wi fp nm host_ctx page_ctx read (Some snapshot) fuel slot requested (sy_pub s) = Some (r, p', err)"
  shows "mset (mkeys (pu_reservations p'))
      = batch_keys (queued (pu_queue p')) + (tasks_keys (sy_slots s) + workers_keys (sy_workers s))
    \<and> (err = None \<longrightarrow> sr_page r = no_results \<and> sr_ValuesRead r = 0 \<or>
         pr_SamplesQueued (sr_page r) + pr_AlreadyPending (sr_page r) + pr_OversizedSamples (sr_page r)
           + pr_SkippedMetadata (sr_page r)
         = length (filter (\<lambda>h. host_slot fp (sp_SpreadSlots (pu_config (sy_pub s))) h = slot) (sn_HostIDs snapshot))
           + sr_ValuesRead r)"
proof -
  have inv: "pub_inv (sy_pub s) (tasks_keys (sy_slots s) + workers_keys (sy_workers s)) (sending_count (sy_workers s))"
    and w: "0 < workers_of (sy_pub s)"
    using sys_inv_reachable [OF assms(1,2)] by (simp_all add: sys_inv_def sys_ok_def life_ok_def)
  note g = PublishSlot_good [OF inv w run]
  have "reserved_keys p' = batch_keys (queued (pu_queue p')) + (tasks_keys (sy_slots s) + workers_keys (sy_workers s))"
    using g(1) by (simp add: pub_inv_def)
  then show ?thesis using g(2) by (auto simp only: reserved_keys_def page_sum_def slot_hosts_def)
qed

definition example_item :: ItemMetadata where
  "example_item = \<lparr>im_ItemID = ''1'', im_HostID = ''h'', im_Key = ''k'', im_Name = ''n'', im_ValueType = ''0'', im_RawDelay = ''30'',
     im_Delay = 30 * Second, im_DelayParseState = DelayParsed, im_Status = ''0'', im_State = ''0'', im_Enabled = True,
     im_MetricName = ''m'', im_Labels = [\<lparr>lb_Name = ''__name__'', lb_Value = ''m''\<rparr>], im_RefreshedAt = 0, im_Version = 1\<rparr>"

definition example_snapshot :: MetadataSnapshot where
  "example_snapshot = \<lparr>sn_Version = 1, sn_CreatedAt = 0, sn_Hosts = [], sn_HostIDs = [], sn_Items = [(''1'', Some example_item)],
     sn_HostItems = [], sn_Groups = [], sn_ItemGroups = []\<rparr>"

definition example_value :: "nat \<Rightarrow> PublishValue" where
  "example_value version = \<lparr>pv_ItemID = ''1'', pv_Value = 7, pv_Timestamp = example_cycle, pv_SourceTimestamp = example_cycle,
     pv_SourceNS = 0, pv_MetadataVersion = 1, pv_ValueVersion = version, pv_PublishSlot = 1, pv_PublishPolicy = PublishSourceTimestamp\<rparr>"

definition example_read :: "nat \<Rightarrow> PublishCursor \<Rightarrow> time \<Rightarrow> int \<Rightarrow> go_error + PublishPage" where
  "example_read i cursor cycle limit = Inr \<lparr>pp_Values = [example_value 1, example_value 1, example_value 2], pp_Next = cursor, pp_Done = True\<rparr>"

definition example_names :: Names where
  "example_names = \<lparr>nm_LabelName = (\<lambda>s. True), nm_LabelValue = (\<lambda>s. True), nm_MetricName = (\<lambda>s. True)\<rparr>"

definition example_slot_run :: "(PublishSlotResult \<times> Publisher \<times> go_error option) option" where
  "example_slot_run = PublishSlot example_wire (\<lambda>s. 1) example_names (\<lambda>i. None) (\<lambda>i. None) example_read (Some example_snapshot) 5 1
     example_cycle (sy_pub example_started)"

lemma example_slot_result:
  "map_option (\<lambda>(r, p', err). (sr_page r, length (queued (pu_queue p')), err)) example_slot_run
   = Some (\<lparr>pr_BatchesQueued = 2, pr_SamplesQueued = 2, pr_SkippedMetadata = 0, pr_AlreadyPending = 1,
     pr_OversizedSamples = 0, pr_oversizedErr = None\<rparr>, 2, None)"
  by code_simp

theorem publish_slot_accounts_witness:
  "case example_slot_run of
     None \<Rightarrow> False
   | Some (r, p', err) \<Rightarrow> pr_SamplesQueued (sr_page r) = 2 \<and> mset (mkeys (pu_reservations p')) = batch_keys (queued (pu_queue p'))
       \<and> pr_SamplesQueued (sr_page r) + pr_AlreadyPending (sr_page r) = sr_ValuesRead r"
proof -
  obtain r p' err where run: "example_slot_run = Some (r, p', err)"
    and r: "sr_page r = \<lparr>pr_BatchesQueued = 2, pr_SamplesQueued = 2, pr_SkippedMetadata = 0, pr_AlreadyPending = 1,
      pr_OversizedSamples = 0, pr_oversizedErr = None\<rparr>" "err = None"
    using example_slot_result by (cases example_slot_run) auto
  have "tasks_keys (sy_slots example_started) = {#}" "workers_keys (sy_workers example_started) = {#}"
    by (simp_all add: example_started_def tasks_keys_def workers_keys_def)
  then show ?thesis
    using publish_slot_accounts [OF example_new example_reach_started run [unfolded example_slot_run_def]] r
    by (simp add: run no_results_def example_snapshot_def del: mset_map)
qed

text \<open>A page that fails has run into a full queue, a stopped publisher or a sample too large for any request; a page that
  does not fail has every value whose item is known reserved for sending, unless it is too large.  (On a wire format that
  encodes a request as the sequence of its series.)\<close>

theorem process_page_outcome:
  assumes "NewStreamingPublisher parse cacheSlots config = Inr p0" "pub_reachable wi p0 s"
    and "exact_wire wi" and "slot_runs s slot b"
    and run: "processPage wi fp snapshot slot (pg_cycle b) vs (sy_pub s) = (r, p', err)"
  shows "case err of
      Some e \<Rightarrow> e = ErrPushQueueFull \<or> pu_stopped (sy_pub s)
        \<or> list_ex (\<lambda>v. \<exists>sample. value_sample snapshot v = Some sample
             \<and> int (repeatedMessageSize (wi_Size wi (sample_series sample))) > be_maxBytes (pu_encoder (sy_pub s))) vs
    | None \<Rightarrow> list_all (\<lambda>v. case value_sample snapshot v of
          None \<Rightarrow> True
        | Some sample \<Rightarrow> item_key v \<in> set (mkeys (pu_reservations p'))
            \<or> int (repeatedMessageSize (wi_Size wi (sample_series sample))) > be_maxBytes (pu_encoder p')) vs"
proof -
  have ok: "sys_ok wi (sy_pub s) (sy_slots s) (sy_workers s)" using sys_inv_reachable [OF assms(1,2)] by (simp add: sys_inv_def)
  then have inv: "pub_inv (sy_pub s) (tasks_keys (sy_slots s) + workers_keys (sy_workers s)) (sending_count (sy_workers s))"
    and w: "0 < workers_of (sy_pub s)" and st: "pu_stopped (sy_pub s) = lq_closed (pu_queue (sy_pub s))"
    by (simp_all add: sys_ok_def life_ok_def)
  have slot: "slot < length (sy_slots s)" "sy_slots s ! slot = Some b" using assms(4) by (simp_all add: slot_runs_def)
  have "mget (lq_latestCycles (pu_queue (sy_pub s))) slot = Some (to_UnixMilli (pg_cycle b))"
    using sys_ok_page [OF ok slot] by (auto simp: page_good_def batcher_ok_def)
  note g = processPage_good [OF inv w this run]
  have enc: "pu_encoder p' = pu_encoder (sy_pub s)" using g(2) by (simp add: pub_frame_def)
  have key: "es_key sample = item_key v" if "value_sample snapshot v = Some sample" for v sample
    using that by (auto simp: value_sample_def split: option.splits if_splits)
  show ?thesis
  proof (cases err)
    case None
    have "case value_sample snapshot v of
          None \<Rightarrow> True
        | Some sample \<Rightarrow> item_key v \<in> set (mkeys (pu_reservations p'))
            \<or> int (repeatedMessageSize (wi_Size wi (sample_series sample))) > be_maxBytes (pu_encoder p')" if "v \<in> set vs" for v
      using g(6) [OF None that] key unfolding taken_care_def reserved_keys_def entry_size_def set_mset_mset
      by (auto split: option.splits simp del: set_map)
    then show ?thesis using None by (simp add: list_all_iff)
  next
    case (Some e)
    then show ?thesis using g(3) [OF Some] assms(3) st
      by (auto simp: values_stop_def finish_stop_def list_ex_iff entry_size_def)
  qed
qed

definition example_running :: PubSystem where
  "example_running = (case begin_cycle 1 example_cycle (fst (normalizeCycle 1 example_cycle (sy_pub example_started))) of
     (p, current, removed) \<Rightarrow> set_slot 1 (if current then Some (newPageBatcher p 1 example_cycle) else None) p example_started)"

lemma example_reach_running: "pub_reachable wi example_publisher example_running" "slot_runs example_running 1 (newPageBatcher (sy_pub example_running) 1 example_cycle)"
proof -
  obtain p1 c where n: "normalizeCycle 1 example_cycle (sy_pub example_started) = (p1, c)" by (metis surj_pair)
  obtain p cur rem where b: "begin_cycle 1 c p1 = (p, cur, rem)" by (metis prod_cases3)
  have "snd (normalizeCycle 1 example_cycle (sy_pub example_started)) = example_cycle" by code_simp
  then have c: "c = example_cycle" using n by simp
  have "fst (snd (begin_cycle 1 example_cycle (fst (normalizeCycle 1 example_cycle (sy_pub example_started)))))" by code_simp
  then have cur: "cur" using n b c by simp
  have s: "1 < length (sy_slots example_started)" "sy_slots example_started ! 1 = None" "ready (sy_pub example_started) = None"
    by (simp_all add: example_started_def ready_def) (simp_all add: example_publisher_def)
  have eq: "example_running = set_slot 1 (Some (newPageBatcher p 1 example_cycle)) p example_started"
    using n b c cur by (simp add: example_running_def)
  from pub_step.Begin [OF s n b, of wi] c cur show "pub_reachable wi example_publisher example_running"
    unfolding eq by (intro pub_reachable.onward [OF example_reach_started]) simp
  show "slot_runs example_running 1 (newPageBatcher (sy_pub example_running) 1 example_cycle)"
    using s(1) by (simp add: eq slot_runs_def set_slot_def)
qed

theorem process_page_outcome_witness:
  "item_key (example_value 1) \<in> set (mkeys (pu_reservations (fst (snd
     (processPage example_wire (\<lambda>s. 1) example_snapshot 1 example_cycle [example_value 1] (sy_pub example_running))))))"
proof -
  obtain r p' err where run: "processPage example_wire (\<lambda>s. 1) example_snapshot 1 example_cycle [example_value 1] (sy_pub example_running) = (r, p', err)"
    by (metis prod_cases3)
  have "snd (snd (processPage example_wire (\<lambda>s. 1) example_snapshot 1 example_cycle [example_value 1] (sy_pub example_running))) = None"
    by code_simp
  then have err: "err = None" using run by simp
  have "pg_cycle (newPageBatcher (sy_pub example_running) 1 example_cycle) = example_cycle" by (simp add: newPageBatcher_def)
  note o = process_page_outcome [OF example_new example_reach_running(1) example_exact example_reach_running(2), unfolded this, OF run]
  have "case value_sample example_snapshot (example_value 1) of None \<Rightarrow> False
    | Some sample \<Rightarrow> int (repeatedMessageSize (wi_Size example_wire (sample_series sample))) \<le> 100" by code_simp
  moreover have "be_maxBytes (pu_encoder (fst (snd
     (processPage example_wire (\<lambda>s. 1) example_snapshot 1 example_cycle [example_value 1] (sy_pub example_running))))) = 100" by code_simp
  ultimately show ?thesis using o run err by (auto split: option.splits simp del: set_map)
qed

section \<open>A slot of the value cache\<close>

lemma cache_drain:
  fixes c :: ValueCache
  assumes inv: "cache_inv fp c" and slot: "slot < vc_publishSlots c" and limit: "0 < limit" and fuel: "nat (Len c) < fuel"
  defines "vals \<equiv> \<lambda>t. cache_todo (\<lambda>st. vs_PublishSlot st = slot \<and> publishEligible st t) t c first_cursor"
    and "rd \<equiv> \<lambda>t cursor. read_page (\<lambda>st. vs_PublishSlot st = slot \<and> publishEligible st t) t (nat limit) c cursor"
  shows "cursor_ok c cursor \<Longrightarrow> ReadPublishPage c slot cursor t limit = Inr (rd t cursor)"
    "cursor_ok c cursor \<Longrightarrow> cursor_ok c (pp_Next (rd t cursor)) \<and> (pp_Done (rd t cursor) \<or> pp_Next (rd t cursor) \<noteq> cursor)"
    "drain (rd t) fuel first_cursor = Some (vals t)"
    "set (vals t) = {page_value t st |k st. Load fp c k = Some st \<and> vs_PublishSlot st = slot \<and> publishEligible st t}"
    "distinct (map pv_ItemID (vals t))"
proof -
  have l: "0 < nat limit" using limit by simp
  show "cursor_ok c cursor \<Longrightarrow> ReadPublishPage c slot cursor t limit = Inr (rd t cursor)"
    using slot limit by (simp add: ReadPublishPage_def cursor_ok_def rd_def)
  show "cursor_ok c cursor \<Longrightarrow> cursor_ok c (pp_Next (rd t cursor)) \<and> (pp_Done (rd t cursor) \<or> pp_Next (rd t cursor) \<noteq> cursor)"
    unfolding rd_def by (rule read_page_moves [OF inv l])
  show "drain (rd t) fuel first_cursor = Some (vals t)" unfolding rd_def vals_def by (rule drain_cache [OF inv l fuel])
  show "set (vals t) = {page_value t st |k st. Load fp c k = Some st \<and> vs_PublishSlot st = slot \<and> publishEligible st t}"
    "distinct (map pv_ItemID (vals t))"
    unfolding vals_def by (rule cache_todo_start [OF inv])+
qed

text \<open>C32: Publishing a slot of the value cache ends, after at most one page more than the cache has entries.  If it reports no
  error and no newer cycle has begun, every entry of the slot that was eligible for its cycle has been read, and each of them
  whose item is known under the entry's metadata version is reserved for sending or too large for any request.\<close>

theorem publish_slot_covers_cache:
  assumes "NewStreamingPublisher parse (Some (vc_publishSlots c)) config = Inr p0" "pub_reachable wi p0 s"
    and inv: "cache_inv fp c" and fuel: "nat (Len c) < fuel"
  shows "\<exists>r p' err. PublishSlot wi fp' nm host_ctx (\<lambda>i. None) (\<lambda>i cursor t limit. ReadPublishPage c slot cursor t limit)
      (Some snapshot) fuel slot requested (sy_pub s) = Some (r, p', err)
    \<and> (err = None \<and> mget (lq_latestCycles (pu_queue p')) slot = Some (to_UnixMilli (sr_CycleTimestamp r)) \<longrightarrow>
        (\<forall>k st. Load fp c k = Some st \<and> vs_PublishSlot st = slot \<and> publishEligible st (sr_CycleTimestamp r) \<longrightarrow>
           taken_care wi snapshot p' (page_value (sr_CycleTimestamp r) st)))"
proof (cases "slot < vc_publishSlots c")
  case True
  let ?limit = "sp_PageSize (pu_config (sy_pub s))"
  have limit: "0 < ?limit" using reachable_config [OF assms(1,2)] by simp
  note d = cache_drain [OF inv True limit fuel]
  have ok: "sys_ok wi (sy_pub s) (sy_slots s) (sy_workers s)" using sys_inv_reachable [OF assms(1,2)] by (simp add: sys_inv_def)
  then have pinv: "pub_inv (sy_pub s) (tasks_keys (sy_slots s) + workers_keys (sy_workers s)) (sending_count (sy_workers s))"
    and w: "0 < workers_of (sy_pub s)" and st: "pu_stopped (sy_pub s) = lq_closed (pu_queue (sy_pub s))"
    by (simp_all add: sys_ok_def life_ok_def)
  have first: "cursor_ok c first_cursor" by (simp add: cursor_ok_def first_cursor_def)
  obtain r p' err where run: "PublishSlot wi fp' nm host_ctx (\<lambda>i. None) (\<lambda>i cursor t limit. ReadPublishPage c slot cursor t limit)
      (Some snapshot) fuel slot requested (sy_pub s) = Some (r, p', err)"
    and o: "err = None \<and> latest_is slot (sr_CycleTimestamp r) p' \<longrightarrow> list_all (taken_care wi snapshot p')
      (cache_todo (\<lambda>st. vs_PublishSlot st = slot \<and> publishEligible st (sr_CycleTimestamp r)) (sr_CycleTimestamp r) c first_cursor)"
    using PublishSlot_drain [OF pinv w st refl, where valid = "cursor_ok c" and fuel = fuel and slot = slot and requested = requested
        and read = "\<lambda>i cursor t limit. ReadPublishPage c slot cursor t limit" and fp = fp' and nm = nm and host_ctx = host_ctx
        and snapshot = snapshot and wi = wi, OF d(1) d(2) d(3) first] by blast
  show ?thesis
  proof (intro exI conjI, rule run, intro impI allI)
    fix k st
    assume a: "err = None \<and> mget (lq_latestCycles (pu_queue p')) slot = Some (to_UnixMilli (sr_CycleTimestamp r))"
      and k: "Load fp c k = Some st \<and> vs_PublishSlot st = slot \<and> publishEligible st (sr_CycleTimestamp r)"
    then have "page_value (sr_CycleTimestamp r) st \<in> set (cache_todo (\<lambda>st. vs_PublishSlot st = slot
        \<and> publishEligible st (sr_CycleTimestamp r)) (sr_CycleTimestamp r) c first_cursor)" unfolding d(4) by blast
    then show "taken_care wi snapshot p' (page_value (sr_CycleTimestamp r) st)"
      using o a by (simp add: list_all_iff latest_is_def)
  qed
next
  case False
  then have "sp_SpreadSlots (pu_config (sy_pub s)) \<le> slot" using reachable_config [OF assms(1,2)] by simp
  then show ?thesis by (simp add: PublishSlot_def Let_def)
qed

text \<open>The same publisher with the twelve slots of the example cache.\<close>

definition example_publisher12 :: Publisher where
  "example_publisher12 = example_publisher\<lparr>pu_config := publisher_defaults (example_config\<lparr>sp_SpreadSlots := 12\<rparr>),
     pu_lastRequested := replicate 12 0, pu_lastCycle := replicate 12 0\<rparr>"

lemma example_new12:
  "NewStreamingPublisher (\<lambda>url. Inr (''http'', ''h'')) (Some (vc_publishSlots ex_cache1)) (example_config\<lparr>sp_SpreadSlots := 12\<rparr>)
    = Inr example_publisher12"
proof -
  have "vc_publishSlots ex_cache1 = 12" by code_simp
  then show ?thesis
    by (simp add: NewStreamingPublisher_def publisher_defaults_def example_config_def example_publisher12_def example_publisher_def
        or_else_def publisher_validate_def endpoint_validate_def first_error_def newBatchEncoder_def duration_units Let_def)
qed

definition example_started12 :: PubSystem where
  "example_started12 = \<lparr>sy_pub = example_publisher12\<lparr>pu_started := True\<rparr>, sy_slots = replicate 12 None, sy_workers = [Polling, Polling]\<rparr>"

lemma example_reach12: "pub_reachable wi example_publisher12 example_started12"
proof -
  have i: "pub_init example_publisher12 = \<lparr>sy_pub = example_publisher12, sy_slots = replicate 12 None, sy_workers = [NotStarted, NotStarted]\<rparr>"
    by (simp add: pub_init_def example_publisher12_def example_publisher_def publisher_defaults_def example_config_def or_else_def
        workers_of_def numeral_2_eq_2)
  have "publisher_start (sy_pub (pub_init example_publisher12)) = (example_publisher12\<lparr>pu_started := True\<rparr>, None)"
    "\<not> pu_started (sy_pub (pub_init example_publisher12))"
    by (simp_all add: i publisher_start_def) (simp_all add: example_publisher12_def example_publisher_def)
  from pub_step.Start [OF this, of wi] show ?thesis
    by (intro pub_reachable.onward [OF pub_reachable.initial]) (simp add: i example_started12_def)
qed

definition example_snapshot12 :: MetadataSnapshot where
  "example_snapshot12 = example_snapshot\<lparr>sn_Items := [(''101'', Some (example_item\<lparr>im_Version := 5\<rparr>))]\<rparr>"

definition example_cache_run :: "(PublishSlotResult \<times> Publisher \<times> go_error option) option" where
  "example_cache_run = PublishSlot example_wire (\<lambda>s. 1) example_names (\<lambda>i. None) (\<lambda>i. None)
     (\<lambda>i cursor t limit. ReadPublishPage ex_cache1 1 cursor t limit) (Some example_snapshot12) 2 1 (time_Unix 1010 0) (sy_pub example_started12)"

lemma example_cache_result:
  "case example_cache_run of
     None \<Rightarrow> False
   | Some (r, p', err) \<Rightarrow> err = None \<and> sr_CycleTimestamp r = time_Unix 1010 0 \<and> sr_ValuesRead r = 1
       \<and> mget (lq_latestCycles (pu_queue p')) 1 = Some (to_UnixMilli (time_Unix 1010 0))"
  by code_simp

theorem publish_slot_covers_cache_witness:
  "case example_cache_run of
     None \<Rightarrow> False
   | Some (r, p', err) \<Rightarrow> taken_care example_wire example_snapshot12 p'
       (page_value (time_Unix 1010 0) (the (Load ex_fp ex_cache1 ''101'')))"
proof -
  obtain r p' err where run: "example_cache_run = Some (r, p', err)"
    using example_cache_result by (cases example_cache_run) auto
  have r: "err = None" "sr_CycleTimestamp r = time_Unix 1010 0"
    "mget (lq_latestCycles (pu_queue p')) 1 = Some (to_UnixMilli (time_Unix 1010 0))"
    using example_cache_result by (simp_all add: run)
  have st: "case Load ex_fp ex_cache1 ''101'' of None \<Rightarrow> False | Some st \<Rightarrow> vs_PublishSlot st = 1 \<and> publishEligible st (time_Unix 1010 0)"
    by code_simp
  have "nat (Len ex_cache1) < 2" by code_simp
  from publish_slot_covers_cache [OF example_new12 example_reach12 ex_cache1_inv this, of example_wire "\<lambda>s. 1" example_names
      "\<lambda>i. None" 1 example_snapshot12 "time_Unix 1010 0", folded example_cache_run_def, unfolded run]
  have "\<forall>k st. Load ex_fp ex_cache1 k = Some st \<and> vs_PublishSlot st = 1 \<and> publishEligible st (time_Unix 1010 0) \<longrightarrow>
      taken_care example_wire example_snapshot12 p' (page_value (time_Unix 1010 0) st)"
    using r by simp
  then show ?thesis using st unfolding run by (auto split: option.splits)
qed

end
