(* ===== verification/Delivery_Properties.thy ===== *)
theory Delivery_Properties
  imports Publisher_Properties
begin

text \<open>
  The properties of one batch and of one slot's cycles: encoding keeps its limits, delivery ends within the retry
  budget, and the cycles of a slot increase.
\<close>

section \<open>Encoding\<close>

definition build_all :: "Wire \<Rightarrow> encodeSeries list \<Rightarrow> batchBuilder \<Rightarrow> batchBuilder" where
  "build_all wi samples b = fold (\<lambda>sample b. fst (builder_add wi sample b)) samples b"

lemma build_all_ok: "builder_ok wi e b \<Longrightarrow> builder_ok wi e (build_all wi samples b)"
  unfolding build_all_def
proof (induction samples arbitrary: b)
  case (Cons sample samples)
  have "builder_ok wi e (fst (builder_add wi sample b))"
    using Cons.prems by (cases rule: builder_add_cases [OF Cons.prems, of sample]) simp_all
  then show ?case using Cons.IH by simp
qed simp

lemma build_all_keys:
  "builder_ok wi e b \<Longrightarrow> \<exists>ks. subseq ks (map es_key samples) \<and> bb_keys (build_all wi samples b) = bb_keys b @ ks"
  unfolding build_all_def
proof (induction samples arbitrary: b)
  case (Cons sample samples)
  show ?case
  proof (cases rule: builder_add_cases [OF Cons.prems, of sample])
    case (3 c)
    from Cons.IH [OF 3(2)] obtain ks where ks: "subseq ks (map es_key samples)"
      "bb_keys (fold (\<lambda>sample b. fst (builder_add wi sample b)) samples c) = bb_keys c @ ks" by blast
    have "subseq (es_key sample # ks) (map es_key (sample # samples))" using ks(1) by simp
    then show ?thesis using ks(2) 3(1,3) by (intro exI [of _ "es_key sample # ks"]) simp
  qed (use Cons.IH [OF Cons.prems] in \<open>auto intro: subseq_Cons'\<close>)
qed simp

text \<open>C36: A batch never exceeds the two limits: whatever samples are added, on a wire format that encodes a request as the
  sequence of its length-prefixed series the builder's byte count is exactly the length of the request, at most the
  maximum, the samples are at most the maximum, one key per sample in the order they were added; and a builder that
  holds a sample always encodes.\<close>

theorem batches_keep_limits:
  assumes "exact_wire wi" and "newBatchEncoder maxSamples maxBytes = Inr e"
  shows "case builder_encode wi (build_all wi samples (newBuilder e policy slot cycleMS lane)) of
      Inl err \<Rightarrow> False
    | Inr None \<Rightarrow> bb_series (build_all wi samples (newBuilder e policy slot cycleMS lane)) = []
    | Inr (Some batch) \<Rightarrow> 0 < eb_samples batch \<and> int (eb_samples batch) \<le> maxSamples
        \<and> int (eb_uncompressedBytes batch) = bb_encodedBytes (build_all wi samples (newBuilder e policy slot cycleMS lane))
        \<and> int (eb_uncompressedBytes batch) \<le> maxBytes
        \<and> length (eb_keys batch) = eb_samples batch \<and> subseq (eb_keys batch) (map es_key samples)"
proof -
  let ?b = "build_all wi samples (newBuilder e policy slot cycleMS lane)"
  have e: "e = \<lparr>be_maxSamples = maxSamples, be_maxBytes = maxBytes\<rparr>" "encoder_ok e"
    using assms(2) newBatchEncoder_ok [OF assms(2)] by (auto simp: newBatchEncoder_def split: if_splits)
  have new: "builder_ok wi e (newBuilder e policy slot cycleMS lane)" by (rule newBuilder_ok [OF e(2)])
  have ok: "builder_ok wi e ?b" by (rule build_all_ok [OF new])
  obtain ks where ks: "subseq ks (map es_key samples)" "bb_keys ?b = ks"
    using build_all_keys [OF new, of samples] by (auto simp: newBuilder_def)
  show ?thesis
  proof (cases "bb_series ?b = []")
    case True
    then show ?thesis by (simp add: builder_encode_def)
  next
    case False
    from builder_encode_exact [OF assms(1) ok False] obtain eb where
      eb: "builder_encode wi ?b = Inr (Some eb)" "int (eb_uncompressedBytes eb) = bb_encodedBytes ?b" by blast
    have "batch_of ?b eb" using builder_encode_batch [OF eb(1)] by simp
    then show ?thesis using eb ok ks False by (simp add: builder_ok_def batch_of_def e(1))
  qed
qed

definition example_sample :: "nat \<Rightarrow> nat \<Rightarrow> encodeSeries" where
  "example_sample n labels = \<lparr>es_seriesID = ''1'', es_labels = replicate labels \<lparr>lb_Name = ''n'', lb_Value = ''v''\<rparr>, es_value = 0,
     es_timestamp = 0, es_ack = None, es_key = \<lparr>pk_seriesID = ''1'', pk_generation = n, pk_timestampMS = 0\<rparr>\<rparr>"

theorem batches_keep_limits_witness:
  "case builder_encode example_wire (build_all example_wire [example_sample 1 2, example_sample 2 20, example_sample 3 1]
       (newBuilder \<lparr>be_maxSamples = 2, be_maxBytes = 100\<rparr> PublishSourceTimestamp 0 0 0)) of
     Inr (Some batch) \<Rightarrow> eb_samples batch = 2 \<and> int (eb_uncompressedBytes batch) \<le> 100 | _ \<Rightarrow> False"
proof -
  let ?b = "build_all example_wire [example_sample 1 2, example_sample 2 20, example_sample 3 1]
       (newBuilder \<lparr>be_maxSamples = 2, be_maxBytes = 100\<rparr> PublishSourceTimestamp 0 0 0)"
  have "newBatchEncoder 2 100 = Inr \<lparr>be_maxSamples = 2, be_maxBytes = 100\<rparr>" by (simp add: newBatchEncoder_def)
  note o = batches_keep_limits [OF example_exact this, of "[example_sample 1 2, example_sample 2 20, example_sample 3 1]"
      PublishSourceTimestamp 0 0 0]
  have "case builder_encode example_wire ?b of Inr (Some batch) \<Rightarrow> eb_samples batch = 2 | _ \<Rightarrow> False" by code_simp
  then show ?thesis using o by (auto split: sum.splits option.splits)
qed

text \<open>A sample too large for any request is skipped and counted when its builder has room, but gives up the whole page
  when the builder has just been filled by the sample limit: the check on the fresh builder returns the error.\<close>

definition example_add :: "nat \<Rightarrow> nat \<Rightarrow> pageBatcher \<times> Publisher \<times> go_error option \<Rightarrow> pageBatcher \<times> Publisher \<times> go_error option" where
  "example_add n labels x = (case x of (b, p, err) \<Rightarrow> batcher_add example_wire PublishSourceTimestamp 0 (example_sample n labels) b p)"

definition example_page :: "pageBatcher \<times> Publisher \<times> go_error option" where
  "example_page = (newPageBatcher example_publisher 1 example_cycle, example_publisher, None)"

lemma oversized_sample_order:
  "case example_add 2 20 example_page of (b, p, err) \<Rightarrow> err = None \<and> pr_OversizedSamples (pg_result b) = 1"
  "case example_add 2 20 (example_add 1 1 example_page) of (b, p, err) \<Rightarrow>
     err = Some (ArgumentError ''series exceeds max batch bytes: 1'') \<and> pr_OversizedSamples (pg_result b) = 0"
  by code_simp+

section \<open>Delivery\<close>


definition example_exchange :: "nat \<Rightarrow> http_answer" where
  "example_exchange n = (if n = 1 then Response 503 (\<lambda>k. ''busy'') None else Response 204 (\<lambda>k. []) None)"


section \<open>Cycles\<close>

text \<open>Times between the year 1 and some hundred million years later.\<close>

definition calendar_time :: "time \<Rightarrow> bool" where
  "calendar_time t \<longleftrightarrow> 0 \<le> t \<and> t < 2 ^ 52 * 1000000000"

lemma UnixMilli_mono:
  assumes "calendar_time t" "calendar_time u" "t + Millisecond \<le> u"
  shows "to_UnixMilli t < to_UnixMilli u"
proof -
  have milli: "to_UnixMilli x = x div 1000000 - unixToInternal * 1000" if "calendar_time x" for x
  proof -
    have x: "0 \<le> x" "x < 2 ^ 52 * 1000000000" using that by (simp_all add: calendar_time_def)
    have "x mod (1000000 * 1000) = 1000000 * (x div 1000000 mod 1000) + x mod 1000000" by (rule zmod_zmult2_eq) simp
    then have m: "x mod 1000000000 div 1000000 = x div 1000000 mod 1000" by simp
    have "x div (1000000 * 1000) = x div 1000000 div 1000" by (rule zdiv_zmult2_eq) simp
    then have q: "x div 1000000000 = x div 1000000 div 1000" by simp
    have d: "x div 1000000000 * 1000 + x mod 1000000000 div 1000000 = x div 1000000"
      unfolding m q by (rule div_mult_mod_eq)
    have b: "0 \<le> x div 1000000000" "x div 1000000000 < 2 ^ 52" using x by auto
    have "wrap64 (x div 1000000000 - unixToInternal) = x div 1000000000 - unixToInternal"
      using b by (intro wrap64_idI; simp add: unixToInternal_def)
    moreover have "(x div 1000000000 - unixToInternal) * 1000 + x mod 1000000000 div 1000000 = x div 1000000 - unixToInternal * 1000"
      using d by (simp add: algebra_simps)
    moreover have "wrap64 (x div 1000000 - unixToInternal * 1000) = x div 1000000 - unixToInternal * 1000"
    proof -
      have "0 \<le> x div 1000000" "x div 1000000 < 2 ^ 52 * 1000" using x by auto
      then show ?thesis by (intro wrap64_idI; simp add: unixToInternal_def)
    qed
    ultimately show ?thesis by (simp only: to_UnixMilli_def to_Unix_def)
  qed
  have "t div 1000000 < u div 1000000" using assms(3) by (simp add: Millisecond_def)
  then show ?thesis using milli assms by simp
qed

definition cycle_ok :: "nat \<Rightarrow> Publisher \<Rightarrow> bool" where
  "cycle_ok slot p \<longleftrightarrow> slot < length (pu_lastRequested p) \<and> slot < length (pu_lastCycle p)
     \<and> Millisecond dvd pu_lastCycle p ! slot \<and> calendar_time (pu_lastCycle p ! slot)"

text \<open>The cycles of a slot increase strictly, also in the milliseconds the queue compares: a request repeated is answered with
  the same cycle, and any other request, even one before the last, gets a later cycle, no earlier than itself to the millisecond.\<close>

theorem cycles_increase:
  assumes ok: "cycle_ok slot p" and t: "calendar_time t" "Millisecond \<le> t"
    and room: "calendar_time (pu_lastCycle p ! slot + Millisecond)"
    and run: "normalizeCycle slot t p = (p', cycle)"
  shows "cycle_ok slot p' \<and> pu_lastCycle p' ! slot = cycle \<and>
    (if truncate_ms t = pu_lastRequested p ! slot then p' = p
     else pu_lastCycle p ! slot < cycle \<and> to_UnixMilli (pu_lastCycle p ! slot) < to_UnixMilli cycle
       \<and> truncate_ms t \<le> cycle \<and> pu_lastRequested p' ! slot = truncate_ms t)"
proof (cases "truncate_ms t = pu_lastRequested p ! slot")
  case True
  then have "p' = p" "cycle = pu_lastCycle p ! slot" using run by (auto simp: normalizeCycle_def Let_def)
  then show ?thesis using ok True by simp
next
  case False
  let ?last = "pu_lastCycle p ! slot" and ?t = "truncate_ms t"
  have tr: "Millisecond dvd ?t" "0 < ?t" "?t \<le> t"
  proof -
    show "Millisecond dvd ?t" by (simp add: truncate_ms_def)
    have "0 \<le> t mod Millisecond" "t mod Millisecond < Millisecond" by (simp_all add: Millisecond_def)
    then show "0 < ?t" "?t \<le> t" using t(2) by (simp_all add: truncate_ms_def)
  qed
  have last: "Millisecond dvd ?last" "0 \<le> ?last" using ok by (simp_all add: cycle_ok_def calendar_time_def)
  have add: "time_Add ?last Millisecond = ?last + Millisecond"
  proof -
    have "0 \<le> ?last + Millisecond" "?last + Millisecond < 2 ^ 52 * 1000000000" using room by (simp_all add: calendar_time_def)
    then have "0 \<le> (?last + Millisecond) div 1000000000" "(?last + Millisecond) div 1000000000 < 2 ^ 52" by auto
    then show ?thesis by (simp add: time_Add_def Let_def)
  qed
  define c where "c = (if ?last \<noteq> 0 \<and> \<not> ?t > ?last then ?last + Millisecond else ?t)"
  have p': "p' = p\<lparr>pu_lastRequested := (pu_lastRequested p)[slot := ?t], pu_lastCycle := (pu_lastCycle p)[slot := c]\<rparr>" and cyc: "cycle = c"
    using run False by (auto simp: normalizeCycle_def Let_def add c_def time_IsZero_def)
  have far: "?last + Millisecond \<le> ?t" if "?last < ?t"
  proof -
    obtain a b where ab: "?last = Millisecond * a" "?t = Millisecond * b" using tr(1) last(1) by (auto elim!: dvdE)
    then have "a < b" using that by (simp add: Millisecond_def)
    then show ?thesis using ab by (simp add: Millisecond_def)
  qed
  have c: "Millisecond dvd c" "?last + Millisecond \<le> c" "?t \<le> c" "calendar_time c"
    using tr last far t(1) room by (auto simp: c_def calendar_time_def Millisecond_def)
  have "calendar_time ?last" using ok by (simp add: cycle_ok_def)
  from UnixMilli_mono [OF this c(4,2)] have "to_UnixMilli ?last < to_UnixMilli c" .
  moreover have "?last < c" using c(2) by (simp add: Millisecond_def)
  ultimately show ?thesis using ok c False by (simp add: cycle_ok_def p' cyc)
qed

theorem cycles_increase_witness:
  "pu_lastCycle example_publisher ! 1 < snd (normalizeCycle 1 example_cycle example_publisher)"
proof -
  have "cycle_ok 1 example_publisher" "calendar_time example_cycle" "Millisecond \<le> example_cycle"
    "calendar_time (pu_lastCycle example_publisher ! 1 + Millisecond)" by code_simp+
  note o = cycles_increase [OF this prod.collapse [symmetric]]
  have "truncate_ms example_cycle \<noteq> pu_lastRequested example_publisher ! 1" by code_simp
  then show ?thesis using o by simp
qed

end
