(* ===== verification/Scrape_Exporter.thy ===== *)
theory Scrape_Exporter
  imports Host_Series Cache_Properties Metadata_Store
begin

text \<open>
  \<^verbatim>\<open>internal/prometheus/exporter/exporter.go\<close>: a scrape turns the metadata snapshot's hosts and the cache's valid
  values into metrics.  Whether \<^verbatim>\<open>prometheus.NewConstMetric\<close> accepts a name and label names is the parameter \<open>valid\<close>;
  \<open>read n\<close> is what the value store answers to the \<open>n\<close>-th page request.  The page loop has fuel, \<open>None\<close> is fuel used up.
\<close>

record ValueExporter =
  ve_pageSize :: int

definition NewValueExporter :: "bool \<Rightarrow> bool \<Rightarrow> int \<Rightarrow> go_error + ValueExporter" where
  "NewValueExporter hasValues hasSource pageSize =
     (if \<not> hasValues then Inl (ArgumentError ''scrape value store is required'')
      else if \<not> hasSource then Inl (ArgumentError ''metadata snapshot provider is required'')
      else
        (let pageSize = (if pageSize = 0 then 5000 else pageSize) in
         if pageSize < 1 then Inl (InvalidConfig ''scrape page size must be positive'') else Inr \<lparr>ve_pageSize = pageSize\<rparr>))"

text \<open>A metric on the channel: a gauge, without a time of its own for hosts.\<close>

record Metric =
  mt_Name :: string
  mt_LabelNames :: "string list"
  mt_LabelValues :: "string list"
  mt_Value :: float64
  mt_Timestamp :: "time option"

definition extractPromLabels :: "Label list \<Rightarrow> string \<times> string list \<times> string list \<times> bool" where
  "extractPromLabels labels =
     (let name = fold (\<lambda>label name. if lb_Name label = ''__name__'' then lb_Value label else name) labels [];
          rest = filter (\<lambda>label. lb_Name label \<noteq> ''__name__'') labels in
      (name, map lb_Name rest, map lb_Value rest, name \<noteq> []))"

definition labels_metric :: "(string \<Rightarrow> string list \<Rightarrow> string list \<Rightarrow> bool) \<Rightarrow> Label list \<Rightarrow> float64 \<Rightarrow> time option \<Rightarrow> Metric option" where
  "labels_metric valid labels val timestamp =
     (case extractPromLabels labels of
        (name, labelNames, labelValues, ok) \<Rightarrow>
          (if ok \<and> valid name labelNames labelValues
           then Some \<lparr>mt_Name = name, mt_LabelNames = labelNames, mt_LabelValues = labelValues, mt_Value = val,
                      mt_Timestamp = timestamp\<rparr>
           else None))"

definition host_metric :: "(string \<Rightarrow> 64 word) \<Rightarrow> Names \<Rightarrow> (string \<Rightarrow> string list \<Rightarrow> string list \<Rightarrow> bool) \<Rightarrow> MetadataSnapshot
    \<Rightarrow> string \<Rightarrow> Metric option" where
  "host_metric fp nm valid snapshot hostID =
     (case ExportableHostSeries fp nm hostID (mptr (sn_Hosts snapshot) hostID) of
        None \<Rightarrow> None
      | Some series \<Rightarrow> labels_metric valid (hs_Labels series) 0x3FF0000000000000 None)"

definition collectHosts :: "(string \<Rightarrow> 64 word) \<Rightarrow> Names \<Rightarrow> (string \<Rightarrow> string list \<Rightarrow> string list \<Rightarrow> bool) \<Rightarrow> MetadataSnapshot
    \<Rightarrow> Metric list" where
  "collectHosts fp nm valid snapshot = List.map_filter (host_metric fp nm valid snapshot) (sn_HostIDs snapshot)"

definition value_metric :: "(string \<Rightarrow> string list \<Rightarrow> string list \<Rightarrow> bool) \<Rightarrow> MetadataSnapshot \<Rightarrow> PublishValue \<Rightarrow> Metric option" where
  "value_metric valid snapshot v =
     (case mptr (sn_Items snapshot) (pv_ItemID v) of
        None \<Rightarrow> None
      | Some item \<Rightarrow>
          (if im_Version item \<noteq> pv_MetadataVersion v then None
           else labels_metric valid (im_Labels item) (pv_Value v) (Some (pv_Timestamp v))))"

fun scrape_loop :: "(string \<Rightarrow> string list \<Rightarrow> string list \<Rightarrow> bool) \<Rightarrow> (nat \<Rightarrow> PublishCursor \<Rightarrow> time \<Rightarrow> int \<Rightarrow> go_error + PublishPage)
    \<Rightarrow> MetadataSnapshot \<Rightarrow> int \<Rightarrow> time \<Rightarrow> nat \<Rightarrow> nat \<Rightarrow> PublishCursor \<Rightarrow> Metric list option" where
  "scrape_loop valid read snapshot pageSize now 0 i cursor = None"
| "scrape_loop valid read snapshot pageSize now (Suc fuel) i cursor =
     (case read i cursor now pageSize of
        Inl err \<Rightarrow> Some []
      | Inr page \<Rightarrow>
          (let metrics = List.map_filter (value_metric valid snapshot) (pp_Values page) in
           if pp_Done page \<or> pp_Next page = cursor then Some metrics
           else map_option (\<lambda>rest. metrics @ rest) (scrape_loop valid read snapshot pageSize now fuel (Suc i) (pp_Next page))))"

definition exporter_Collect :: "(string \<Rightarrow> 64 word) \<Rightarrow> Names \<Rightarrow> (string \<Rightarrow> string list \<Rightarrow> string list \<Rightarrow> bool)
    \<Rightarrow> (nat \<Rightarrow> PublishCursor \<Rightarrow> time \<Rightarrow> int \<Rightarrow> go_error + PublishPage) \<Rightarrow> nat \<Rightarrow> MetadataSnapshot option \<Rightarrow> time
    \<Rightarrow> ValueExporter \<Rightarrow> Metric list option" where
  "exporter_Collect fp nm valid read fuel snapshot now e =
     (case snapshot of
        None \<Rightarrow> Some []
      | Some snapshot \<Rightarrow>
          map_option (\<lambda>vals. collectHosts fp nm valid snapshot @ vals)
            (scrape_loop valid read snapshot (ve_pageSize e) now fuel 0 \<lparr>pc_Shard = 0, pc_Sequence = 0\<rparr>))"

text \<open>Over a store that answers like a fixed set of pages the scrape sees what following the cursor yields.\<close>

lemma scrape_loop_drain:
  assumes read: "\<And>i cursor. ok cursor \<Longrightarrow> read i cursor now pageSize = Inr (rd cursor)"
    and nxt: "\<And>cursor. ok cursor \<Longrightarrow> ok (pp_Next (rd cursor)) \<and> (pp_Done (rd cursor) \<or> pp_Next (rd cursor) \<noteq> cursor)"
  shows "ok cursor \<Longrightarrow> drain rd fuel cursor = Some vs \<Longrightarrow>
    scrape_loop valid read snapshot pageSize now fuel i cursor = Some (List.map_filter (value_metric valid snapshot) vs)"
proof (induction fuel arbitrary: i cursor vs)
  case (Suc fuel)
  let ?page = "rd cursor"
  show ?case
  proof (cases "pp_Done ?page")
    case True
    then show ?thesis using Suc.prems read [OF Suc.prems(1)] by (simp add: Let_def)
  next
    case False
    then obtain ws where ws: "drain rd fuel (pp_Next ?page) = Some ws" "vs = pp_Values ?page @ ws"
      using Suc.prems(2) by (auto simp: Let_def)
    have n: "ok (pp_Next ?page)" "pp_Next ?page \<noteq> cursor" using nxt [OF Suc.prems(1)] False by auto
    show ?thesis using Suc.IH [OF n(1) ws(1)] ws(2) n(2) False read [OF Suc.prems(1)]
      by (simp add: Let_def map_filter_append)
  qed
qed simp

section \<open>A scrape over the value cache\<close>

lemma scrapeEligible_iff:
  "scrapeEligible st t \<longleftrightarrow> vs_Valid st \<and> t < vs_ExpireAt st \<and> (vs_PublishPolicy st = PublishCycleTimestamp \<longrightarrow> vs_SourceTimestamp st \<le> t)"
  by (auto simp: scrapeEligible_def)


definition ex_scrape_snapshot :: MetadataSnapshot where
  "ex_scrape_snapshot = emptySnapshot\<lparr>sn_Items := [(''101'', Some \<lparr>im_ItemID = ''101'', im_HostID = ''h'', im_Key = ''k'',
     im_Name = ''n'', im_ValueType = ''0'', im_RawDelay = ''60'', im_Delay = 60 * Second, im_DelayParseState = DelayParsed,
     im_Status = ''0'', im_State = ''0'', im_Enabled = True, im_MetricName = ''m'',
     im_Labels = [\<lparr>lb_Name = ''__name__'', lb_Value = ''m''\<rparr>, \<lparr>lb_Name = ''host'', lb_Value = ''h''\<rparr>],
     im_RefreshedAt = 0, im_Version = 5\<rparr>)]\<rparr>"

definition ex_scrape :: "Metric list option" where
  "ex_scrape = exporter_Collect (\<lambda>s. 1) \<lparr>nm_LabelName = (\<lambda>s. True), nm_LabelValue = (\<lambda>s. True), nm_MetricName = (\<lambda>s. True)\<rparr>
     (\<lambda>n ls vs. True) (\<lambda>i cursor t limit. ReadScrapePage ex_cache1 cursor t limit) 2 (Some ex_scrape_snapshot) (time_Unix 1010 0)
     \<lparr>ve_pageSize = 5000\<rparr>"

lemma ex_scrape_value:
  "case ex_scrape of
     None \<Rightarrow> False
   | Some metrics \<Rightarrow> map (\<lambda>m. (mt_Name m, mt_LabelNames m, mt_LabelValues m)) metrics = [(''m'', [''host''], [''h''])]"
  by code_simp


end
