(* ===== verification/Json_Decoding.thy ===== *)
theory Json_Decoding
  imports Zabbix_Types Go_Text
begin

text \<open>
  What the API client uses of \<^verbatim>\<open>encoding/json\<close>: decoding a tree into a struct, a slice or an \<^verbatim>\<open>any\<close>.  The text
  level is a \<open>Codec\<close>: \<open>cd_parse\<close> reads a text into a tree (a number keeps its literal), \<open>cd_render\<close> writes a decoded
  value, \<open>cd_float\<close> is a number literal read as a \<^verbatim>\<open>float64\<close> and written again (\<open>None\<close> when out of range) and
  \<open>cd_fold\<close> the case folding of object keys.
\<close>

record Codec =
  cd_parse :: "string \<Rightarrow> json option"
  cd_render :: "json \<Rightarrow> string"
  cd_float :: "string \<Rightarrow> string option"
  cd_fold :: "string \<Rightarrow> string"

section \<open>Decoding into \<^verbatim>\<open>any\<close>\<close>

text \<open>Numbers become floats; a map keeps the last of two equal keys and is written in the order of its keys.\<close>

definition put_key :: "string \<times> json \<Rightarrow> (string \<times> json) list \<Rightarrow> (string \<times> json) list" where
  "put_key kv kvs = insort_key fst kv (filter (\<lambda>kv'. fst kv' \<noteq> fst kv) kvs)"

fun any_value :: "Codec \<Rightarrow> json \<Rightarrow> json option"
  and any_values :: "Codec \<Rightarrow> json list \<Rightarrow> json list option"
  and any_members :: "Codec \<Rightarrow> (string \<times> json) list \<Rightarrow> (string \<times> json) list option" where
  "any_value cd JNull = Some JNull"
| "any_value cd (JBool b) = Some (JBool b)"
| "any_value cd (JNumber s) = map_option JNumber (cd_float cd s)"
| "any_value cd (JString s) = Some (JString s)"
| "any_value cd (JArray vs) = map_option JArray (any_values cd vs)"
| "any_value cd (JObject kvs) = map_option (\<lambda>kvs. JObject (fold put_key kvs [])) (any_members cd kvs)"
| "any_values cd [] = Some []"
| "any_values cd (v # vs) =
     Option.bind (any_value cd v) (\<lambda>v. Option.bind (any_values cd vs) (\<lambda>vs. Some (v # vs)))"
| "any_members cd [] = Some []"
| "any_members cd ((k, v) # kvs) =
     Option.bind (any_value cd v) (\<lambda>v. Option.bind (any_members cd kvs) (\<lambda>kvs. Some ((k, v) # kvs)))"

section \<open>Decoding into structs and slices\<close>

text \<open>A field of a struct: its key and what a value for it does to the struct, \<open>None\<close> for a value of the wrong type.  A
  \<^verbatim>\<open>null\<close> leaves the field alone.\<close>

type_synonym 'r field = "string \<times> (json \<Rightarrow> 'r \<Rightarrow> 'r option)"

definition string_field :: "string \<Rightarrow> (string \<Rightarrow> 'r \<Rightarrow> 'r) \<Rightarrow> 'r field" where
  "string_field name put = (name, \<lambda>v r. case v of JString s \<Rightarrow> Some (put s r) | JNull \<Rightarrow> Some r | _ \<Rightarrow> None)"

definition int_field :: "string \<Rightarrow> (int \<Rightarrow> 'r \<Rightarrow> 'r) \<Rightarrow> 'r field" where
  "int_field name put =
     (name, \<lambda>v r. case v of
        JNumber s \<Rightarrow> (case ParseInt s of Inl e \<Rightarrow> None | Inr n \<Rightarrow> Some (put n r))
      | JNull \<Rightarrow> Some r
      | _ \<Rightarrow> None)"

text \<open>A key belongs to the field of that name, or to the one that folds to the same.\<close>

definition find_field :: "Codec \<Rightarrow> 'r field list \<Rightarrow> string \<Rightarrow> (json \<Rightarrow> 'r \<Rightarrow> 'r option) option" where
  "find_field cd fs k =
     (case map_of fs k of
        Some put \<Rightarrow> Some put
      | None \<Rightarrow> map_option snd (find (\<lambda>f. cd_fold cd (fst f) = cd_fold cd k) fs))"

fun put_members :: "Codec \<Rightarrow> 'r field list \<Rightarrow> (string \<times> json) list \<Rightarrow> 'r \<Rightarrow> 'r option" where
  "put_members cd fs [] r = Some r"
| "put_members cd fs ((k, v) # kvs) r =
     (case find_field cd fs k of
        None \<Rightarrow> put_members cd fs kvs r
      | Some put \<Rightarrow> Option.bind (put v r) (put_members cd fs kvs))"

definition decode_struct :: "Codec \<Rightarrow> 'r field list \<Rightarrow> 'r \<Rightarrow> json \<Rightarrow> 'r option" where
  "decode_struct cd fs r v =
     (case v of JObject kvs \<Rightarrow> put_members cd fs kvs r | JNull \<Rightarrow> Some r | _ \<Rightarrow> None)"

definition decode_slice :: "(json \<Rightarrow> 'r option) \<Rightarrow> json \<Rightarrow> 'r list option" where
  "decode_slice dec v = (case v of JArray vs \<Rightarrow> those (map dec vs) | JNull \<Rightarrow> Some [] | _ \<Rightarrow> None)"

definition slice_field :: "string \<Rightarrow> (json \<Rightarrow> 'e option) \<Rightarrow> ('e list \<Rightarrow> 'r \<Rightarrow> 'r) \<Rightarrow> 'r field" where
  "slice_field name dec put = (name, \<lambda>v r. Option.bind (decode_slice dec v) (\<lambda>es. Some (put es r)))"

definition any_field :: "Codec \<Rightarrow> string \<Rightarrow> (json \<Rightarrow> 'r \<Rightarrow> 'r) \<Rightarrow> 'r field" where
  "any_field cd name put = (name, \<lambda>v r. Option.bind (any_value cd v) (\<lambda>v. Some (put v r)))"

lemmas field_defs = string_field_def int_field_def slice_field_def any_field_def

section \<open>Laws\<close>

lemma those_map_Some: "(\<And>x. x \<in> set xs \<Longrightarrow> f x = Some (g x)) \<Longrightarrow> those (map f xs) = Some (map g xs)"
  by (induction xs) auto

lemma decode_slice_map:
  assumes "\<And>x. x \<in> set xs \<Longrightarrow> dec (enc x) = Some x"
  shows "decode_slice dec (JArray (map enc xs)) = Some xs"
  using those_map_Some [of xs "dec \<circ> enc" "\<lambda>x. x"] assms by (simp add: decode_slice_def)

text \<open>A value that \<^verbatim>\<open>any\<close> takes as it is.\<close>

definition plain_value :: "Codec \<Rightarrow> json \<Rightarrow> bool" where
  "plain_value cd v \<longleftrightarrow> any_value cd v = Some v"

lemma plain_simps [simp]: "plain_value cd JNull" "plain_value cd (JBool b)" "plain_value cd (JString s)"
  by (simp_all add: plain_value_def)

lemma any_values_plain: "(\<And>v. v \<in> set vs \<Longrightarrow> plain_value cd v) \<Longrightarrow> any_values cd vs = Some vs"
  by (induction vs) (auto simp: plain_value_def)

lemma any_members_plain: "(\<And>kv. kv \<in> set kvs \<Longrightarrow> plain_value cd (snd kv)) \<Longrightarrow> any_members cd kvs = Some kvs"
proof (induction kvs)
  case (Cons kv kvs)
  then have "plain_value cd (snd kv)" by simp
  with Cons show ?case by (cases kv) (simp add: plain_value_def)
qed simp

lemma insort_key_last: "(\<And>y. y \<in> set ys \<Longrightarrow> f y < f x) \<Longrightarrow> insort_key f x ys = ys @ [x]"
  by (induction ys) (auto simp: not_le [symmetric])

lemma put_keys_sorted:
  assumes "sorted (map fst (ds @ kvs))" "distinct (map fst (ds @ kvs))"
  shows "fold put_key kvs ds = ds @ kvs"
  using assms
proof (induction kvs arbitrary: ds)
  case (Cons kv kvs)
  have "filter (\<lambda>kv'. fst kv' \<noteq> fst kv) ds = ds" using Cons.prems(2) by (auto simp: filter_id_conv image_iff)
  moreover have "fst y < fst kv" if "y \<in> set ds" for y
  proof -
    have "fst y \<le> fst kv" using Cons.prems(1) that by (simp add: sorted_append)
    moreover have "fst kv \<notin> fst ` set ds" using Cons.prems(2) by simp
    then have "fst y \<noteq> fst kv" using that by (metis image_eqI)
    ultimately show ?thesis by simp
  qed
  then have "insort_key fst kv ds = ds @ [kv]" by (rule insort_key_last)
  ultimately have "fold put_key (kv # kvs) ds = fold put_key kvs (ds @ [kv])" by (simp add: put_key_def)
  then show ?case using Cons.IH [of "ds @ [kv]"] Cons.prems by simp
qed simp

lemma plain_array: "(\<And>v. v \<in> set vs \<Longrightarrow> plain_value cd v) \<Longrightarrow> plain_value cd (JArray vs)"
  by (simp add: plain_value_def any_values_plain [unfolded plain_value_def])

lemma plain_object:
  assumes "sorted (map fst kvs)" "distinct (map fst kvs)" "\<And>kv. kv \<in> set kvs \<Longrightarrow> plain_value cd (snd kv)"
  shows "plain_value cd (JObject kvs)"
  using any_members_plain [of kvs cd] assms(3) put_keys_sorted [of "[]" kvs] assms(1,2) by (simp add: plain_value_def)

end
