(* ===== verification/Zabbix_Client.thy ===== *)
theory Zabbix_Client
  imports Json_Decoding Zabbix_History
begin

text \<open>
  \<^verbatim>\<open>internal/zabbix/client.go\<close>: the JSON-RPC client.  A \<open>Net\<close> is what a call meets: the JSON codec, the answer of the
  HTTP transport to a request, and \<^verbatim>\<open>ctx.Err()\<close> after a transport failure.  The result of \<open>doRequest\<close> carries the status
  label of the metrics beside the raw message (\<open>None\<close> for a nil message).  The last section is the request and decoding of
  \<^verbatim>\<open>history.get\<close>, which gives \<open>QueryHistoryBatch\<close> its reply.
\<close>

section \<open>Transport\<close>

record HTTPRequest =
  rq_URL :: string
  rq_Body :: string
  rq_Authorization :: "string option"

datatype http_reply =
    RequestRefused string
  | SendFailed go_error
  | ReadFailed go_error
  | HTTPResponse int string

record Net =
  nt_codec :: Codec
  nt_exchange :: "HTTPRequest \<Rightarrow> http_reply"
  nt_ctxErr :: "go_error option"

record APIError =
  ae_Code :: int
  ae_Message :: string
  ae_Data :: string

record APIResponse =
  ar_JSONRPC :: string
  ar_Result :: json
  ar_Error :: "APIError option"

definition APIError_fields :: "APIError field list" where
  "APIError_fields =
     [int_field ''code'' (\<lambda>n r. r\<lparr>ae_Code := n\<rparr>), string_field ''message'' (\<lambda>s r. r\<lparr>ae_Message := s\<rparr>),
      string_field ''data'' (\<lambda>s r. r\<lparr>ae_Data := s\<rparr>)]"

text \<open>A \<^verbatim>\<open>null\<close> sets the pointer to nil; an object is decoded into what the pointer points to.\<close>

definition error_field :: "Codec \<Rightarrow> APIResponse field" where
  "error_field cd =
     (''error'', \<lambda>v r. case v of
        JNull \<Rightarrow> Some (r\<lparr>ar_Error := None\<rparr>)
      | v \<Rightarrow> map_option (\<lambda>e. r\<lparr>ar_Error := Some e\<rparr>)
               (decode_struct cd APIError_fields (case ar_Error r of Some e \<Rightarrow> e
                  | None \<Rightarrow> \<lparr>ae_Code = 0, ae_Message = [], ae_Data = []\<rparr>) v))"

definition APIResponse_fields :: "Codec \<Rightarrow> APIResponse field list" where
  "APIResponse_fields cd =
     [string_field ''jsonrpc'' (\<lambda>s r. r\<lparr>ar_JSONRPC := s\<rparr>), any_field cd ''result'' (\<lambda>v r. r\<lparr>ar_Result := v\<rparr>), error_field cd]"

definition unmarshal_response :: "Codec \<Rightarrow> string \<Rightarrow> APIResponse option" where
  "unmarshal_response cd body =
     Option.bind (cd_parse cd body)
       (decode_struct cd (APIResponse_fields cd) \<lparr>ar_JSONRPC = [], ar_Result = JNull, ar_Error = None\<rparr>)"

definition apiTransportStatus :: "go_error option \<Rightarrow> go_error \<Rightarrow> string" where
  "apiTransportStatus ctxErr err =
     (if error_is (\<lambda>e. e = ContextDeadlineExceeded) err \<or> ctxErr = Some ContextDeadlineExceeded then ''timeout''
      else if error_is (\<lambda>e. e = ContextCanceled) err \<or> ctxErr = Some ContextCanceled then ''canceled''
      else ''transport_error'')"

section \<open>The client\<close>

record TokenInfo =
  ti_token :: string
  ti_expiresAt :: time

definition NewTokenInfo :: TokenInfo where "NewTokenInfo = \<lparr>ti_token = [], ti_expiresAt = 0\<rparr>"

definition token_Set :: "string \<Rightarrow> time \<Rightarrow> TokenInfo \<Rightarrow> TokenInfo" where
  "token_Set token now t = t\<lparr>ti_token := token, ti_expiresAt := time_Add now (7 * Hour)\<rparr>"

definition token_IsExpired :: "time \<Rightarrow> TokenInfo \<Rightarrow> bool" where
  "token_IsExpired now t \<longleftrightarrow> now > ti_expiresAt t"

definition token_ShouldRefresh :: "time \<Rightarrow> duration \<Rightarrow> TokenInfo \<Rightarrow> bool" where
  "token_ShouldRefresh now advance t \<longleftrightarrow> time_Add now advance > ti_expiresAt t"

record Client =
  cl_url :: string
  cl_username :: string
  cl_password :: string
  cl_usesAPIKey :: bool
  cl_token :: TokenInfo
  cl_timeout :: duration
  cl_tlsSkipVerify :: bool

definition NewClientWithTLS :: "string \<Rightarrow> string \<Rightarrow> string \<Rightarrow> bool \<Rightarrow> Client" where
  "NewClientWithTLS url username password tlsSkipVerify =
     \<lparr>cl_url = url, cl_username = username, cl_password = password, cl_usesAPIKey = False, cl_token = NewTokenInfo,
      cl_timeout = 30 * Second, cl_tlsSkipVerify = tlsSkipVerify\<rparr>"

definition NewClient :: "string \<Rightarrow> string \<Rightarrow> string \<Rightarrow> Client" where
  "NewClient url username password = NewClientWithTLS url username password False"

definition NewAPIKeyClientWithTLS :: "string \<Rightarrow> string \<Rightarrow> bool \<Rightarrow> time \<Rightarrow> Client" where
  "NewAPIKeyClientWithTLS url apiKey tlsSkipVerify now =
     (let client = NewClientWithTLS url [] [] tlsSkipVerify in
      client\<lparr>cl_usesAPIKey := True, cl_token := token_Set apiKey now (cl_token client)\<rparr>)"

definition NewAPIKeyClient :: "string \<Rightarrow> string \<Rightarrow> time \<Rightarrow> Client" where
  "NewAPIKeyClient url apiKey now = NewAPIKeyClientWithTLS url apiKey False now"

definition GetToken :: "Client \<Rightarrow> string" where "GetToken c = ti_token (cl_token c)"

definition request_body :: "Codec \<Rightarrow> string \<Rightarrow> json \<Rightarrow> string" where
  "request_body cd method params =
     cd_render cd (JObject [(''id'', JNumber ''1''), (''jsonrpc'', JString ''2.0''), (''method'', JString method), (''params'', params)])"

definition http_request :: "Codec \<Rightarrow> Client \<Rightarrow> string \<Rightarrow> json \<Rightarrow> string \<Rightarrow> HTTPRequest" where
  "http_request cd c method params auth =
     \<lparr>rq_URL = cl_url c, rq_Body = request_body cd method params,
      rq_Authorization = (if auth \<noteq> [] then Some (''Bearer '' @ auth) else None)\<rparr>"

definition api_error_text :: "APIError \<Rightarrow> string" where
  "api_error_text e = ''code='' @ Itoa (ae_Code e) @ '', message='' @ ae_Message e @ '', data='' @ ae_Data e"

definition raw_result :: "Codec \<Rightarrow> json \<Rightarrow> string option" where
  "raw_result cd result =
     (case result of
        JString v \<Rightarrow> Some v
      | JArray v \<Rightarrow> Some (cd_render cd result)
      | JObject v \<Rightarrow> Some (cd_render cd result)
      | _ \<Rightarrow> None)"

definition doRequest :: "Net \<Rightarrow> Client \<Rightarrow> string \<Rightarrow> json \<Rightarrow> string \<Rightarrow> string \<times> (go_error + string option)" where
  "doRequest net c method params auth =
     (case nt_exchange net (http_request (nt_codec net) c method params auth) of
        RequestRefused m \<Rightarrow> (''request_error'', Inl (WrappedError ''failed to create request'' (ArgumentError m)))
      | SendFailed err \<Rightarrow> (apiTransportStatus (nt_ctxErr net) err, Inl (WrappedError ''failed to send request'' err))
      | ReadFailed err \<Rightarrow> (apiTransportStatus (nt_ctxErr net) err, Inl (WrappedError ''failed to read response'' err))
      | HTTPResponse code body \<Rightarrow>
          (if code < 200 \<or> code \<ge> 300 then (''http_error'', Inl (HTTPStatusError code))
           else (case unmarshal_response (nt_codec net) body of
                   None \<Rightarrow> (''decode_error'', Inl (ResponseDecodeError ''failed to unmarshal response''))
                 | Some apiResp \<Rightarrow>
                     (case ar_Error apiResp of
                        Some e \<Rightarrow> (''api_error'', Inl (ZabbixAPIError (api_error_text e)))
                      | None \<Rightarrow> (''success'', Inr (raw_result (nt_codec net) (ar_Result apiResp)))))))"

section \<open>Logging in\<close>

definition unquote :: "string \<Rightarrow> string" where
  "unquote token =
     (if length token \<ge> 2 \<and> hd token = CHR 0x22 \<and> last token = CHR 0x22 then butlast (tl token) else token)"

definition Login :: "Net \<Rightarrow> time \<Rightarrow> Client \<Rightarrow> Client \<times> go_error option" where
  "Login net now c =
     (if cl_usesAPIKey c then
        (if GetToken c = [] then (c, Some (InvalidConfig ''zabbix api key is empty'')) else (c, None))
      else
        (case snd (doRequest net c ''user.login''
                 (JObject [(''username'', JString (cl_username c)), (''password'', JString (cl_password c))]) []) of
           Inl err \<Rightarrow> (c, Some err)
         | Inr None \<Rightarrow> (c, Some (NoResultError ''user.login''))
         | Inr (Some result) \<Rightarrow> (c\<lparr>cl_token := token_Set (unquote result) now (cl_token c)\<rparr>, None)))"

definition RefreshToken :: "Net \<Rightarrow> time \<Rightarrow> Client \<Rightarrow> Client \<times> go_error option" where
  "RefreshToken net now c = (if cl_usesAPIKey c then (c, None) else Login net now c)"

section \<open>Reading definitions\<close>

definition Interface_fields :: "Interface field list" where
  "Interface_fields =
     [string_field ''interfaceid'' (\<lambda>s r. r\<lparr>if_InterfaceID := s\<rparr>), string_field ''ip'' (\<lambda>s r. r\<lparr>if_IP := s\<rparr>),
      string_field ''dns'' (\<lambda>s r. r\<lparr>if_DNS := s\<rparr>), string_field ''port'' (\<lambda>s r. r\<lparr>if_Port := s\<rparr>),
      string_field ''type'' (\<lambda>s r. r\<lparr>if_Type := s\<rparr>), string_field ''main'' (\<lambda>s r. r\<lparr>if_Main := s\<rparr>),
      string_field ''useip'' (\<lambda>s r. r\<lparr>if_UseIP := s\<rparr>), string_field ''bulk'' (\<lambda>s r. r\<lparr>if_Bulk := s\<rparr>)]"

definition zero_Interface :: Interface where
  "zero_Interface = \<lparr>if_InterfaceID = [], if_IP = [], if_DNS = [], if_Port = [], if_Type = [], if_Main = [], if_UseIP = [], if_Bulk = []\<rparr>"

definition Host_fields :: "Codec \<Rightarrow> Host field list" where
  "Host_fields cd =
     [string_field ''hostid'' (\<lambda>s r. r\<lparr>ho_HostID := s\<rparr>), string_field ''host'' (\<lambda>s r. r\<lparr>ho_Host := s\<rparr>),
      string_field ''name'' (\<lambda>s r. r\<lparr>ho_Name := s\<rparr>),
      slice_field ''interfaces'' (decode_struct cd Interface_fields zero_Interface) (\<lambda>is r. r\<lparr>ho_Interfaces := is\<rparr>),
      any_field cd ''inventory'' (\<lambda>v r. r\<lparr>ho_Inventory := v\<rparr>)]"

definition zero_Host :: Host where
  "zero_Host = \<lparr>ho_HostID = [], ho_Host = [], ho_Name = [], ho_Interfaces = [], ho_Inventory = JNull\<rparr>"

definition Item_fields :: "Item field list" where
  "Item_fields =
     [string_field ''itemid'' (\<lambda>s r. r\<lparr>it_ItemID := s\<rparr>), string_field ''hostid'' (\<lambda>s r. r\<lparr>it_HostID := s\<rparr>),
      string_field ''key_'' (\<lambda>s r. r\<lparr>it_Key := s\<rparr>), string_field ''name'' (\<lambda>s r. r\<lparr>it_Name := s\<rparr>),
      string_field ''description'' (\<lambda>s r. r\<lparr>it_Description := s\<rparr>), string_field ''value_type'' (\<lambda>s r. r\<lparr>it_ValueType := s\<rparr>),
      string_field ''delay'' (\<lambda>s r. r\<lparr>it_Delay := s\<rparr>), string_field ''status'' (\<lambda>s r. r\<lparr>it_Status := s\<rparr>),
      string_field ''state'' (\<lambda>s r. r\<lparr>it_State := s\<rparr>)]"

definition zero_Item :: Item where
  "zero_Item = \<lparr>it_ItemID = [], it_HostID = [], it_Key = [], it_Name = [], it_Description = [], it_ValueType = [], it_Delay = [],
     it_Status = [], it_State = []\<rparr>"

definition unmarshal_list :: "Codec \<Rightarrow> string \<Rightarrow> (json \<Rightarrow> 'r option) \<Rightarrow> string \<Rightarrow> go_error + 'r list" where
  "unmarshal_list cd what dec text =
     (case Option.bind (cd_parse cd text) (decode_slice dec) of
        None \<Rightarrow> Inl (ArgumentError (''failed to unmarshal '' @ what))
      | Some rs \<Rightarrow> Inr rs)"

definition jstrings :: "string list \<Rightarrow> json" where "jstrings ss = JArray (map JString ss)"

definition host_params :: "(string \<times> json) list \<Rightarrow> json" where
  "host_params more_params =
     JObject ((''output'', jstrings [''hostid'', ''host'', ''name'']) # more_params
       @ [(''selectInterfaces'', JString ''extend''), (''selectInventory'', JString ''extend'')])"

definition GetHosts :: "Net \<Rightarrow> Client \<Rightarrow> go_error + Host list" where
  "GetHosts net c =
     (case snd (doRequest net c ''host.get'' (host_params []) (GetToken c)) of
        Inl err \<Rightarrow> Inl err
      | Inr None \<Rightarrow> Inl (NoResultError ''host.get'')
      | Inr (Some result) \<Rightarrow>
          unmarshal_list (nt_codec net) ''hosts'' (decode_struct (nt_codec net) (Host_fields (nt_codec net)) zero_Host) result)"

definition GetHostsByGroupIDs :: "Net \<Rightarrow> Client \<Rightarrow> string list \<Rightarrow> go_error + Host list" where
  "GetHostsByGroupIDs net c groupIDs =
     (if groupIDs = [] then Inr []
      else
        (case snd (doRequest net c ''host.get'' (host_params [(''groupids'', jstrings groupIDs)]) (GetToken c)) of
           Inl err \<Rightarrow> Inl err
         | Inr None \<Rightarrow> Inr []
         | Inr (Some result) \<Rightarrow>
             unmarshal_list (nt_codec net) ''hosts'' (decode_struct (nt_codec net) (Host_fields (nt_codec net)) zero_Host) result))"

record HostGroup =
  hg_GroupID :: string
  hg_Name :: string

definition HostGroup_fields :: "HostGroup field list" where
  "HostGroup_fields = [string_field ''groupid'' (\<lambda>s r. r\<lparr>hg_GroupID := s\<rparr>), string_field ''name'' (\<lambda>s r. r\<lparr>hg_Name := s\<rparr>)]"

definition GetHostGroups :: "Net \<Rightarrow> Client \<Rightarrow> go_error + HostGroup list" where
  "GetHostGroups net c =
     (case snd (doRequest net c ''hostgroup.get'' (JObject [(''output'', jstrings [''groupid'', ''name''])]) (GetToken c)) of
        Inl err \<Rightarrow> Inl err
      | Inr None \<Rightarrow> Inr []
      | Inr (Some result) \<Rightarrow>
          unmarshal_list (nt_codec net) ''host groups''
            (decode_struct (nt_codec net) HostGroup_fields \<lparr>hg_GroupID = [], hg_Name = []\<rparr>) result)"

definition GetItemMetadata :: "Net \<Rightarrow> Client \<Rightarrow> string list \<Rightarrow> go_error + Item list" where
  "GetItemMetadata net c hostIDs =
     (if hostIDs = [] then Inr []
      else
        (case snd (doRequest net c ''item.get''
                (JObject [(''output'', jstrings [''itemid'', ''hostid'', ''key_'', ''name'', ''value_type'', ''delay'', ''status'', ''state'']),
                   (''hostids'', jstrings hostIDs), (''filter'', JObject [(''value_type'', JArray [JNumber ''0'', JNumber ''3''])])])
                (GetToken c)) of
           Inl err \<Rightarrow> Inl err
         | Inr None \<Rightarrow> Inl (NoResultError ''metadata item.get'')
         | Inr (Some result) \<Rightarrow>
             unmarshal_list (nt_codec net) ''item metadata'' (decode_struct (nt_codec net) Item_fields zero_Item) result))"

section \<open>Templates, rules and prototypes\<close>

record Template =
  te_TemplateID :: string
  te_Host :: string
  te_Name :: string

definition Template_fields :: "Template field list" where
  "Template_fields =
     [string_field ''templateid'' (\<lambda>s r. r\<lparr>te_TemplateID := s\<rparr>), string_field ''host'' (\<lambda>s r. r\<lparr>te_Host := s\<rparr>),
      string_field ''name'' (\<lambda>s r. r\<lparr>te_Name := s\<rparr>)]"

definition GetTemplates :: "Net \<Rightarrow> Client \<Rightarrow> go_error + Template list" where
  "GetTemplates net c =
     (case snd (doRequest net c ''template.get'' (JObject [(''output'', jstrings [''templateid'', ''host'', ''name''])]) (GetToken c)) of
        Inl err \<Rightarrow> Inl err
      | Inr None \<Rightarrow> Inr []
      | Inr (Some result) \<Rightarrow>
          unmarshal_list (nt_codec net) ''templates''
            (decode_struct (nt_codec net) Template_fields \<lparr>te_TemplateID = [], te_Host = [], te_Name = []\<rparr>) result)"

definition GetItemsByTemplate :: "Net \<Rightarrow> Client \<Rightarrow> string \<Rightarrow> go_error + Item list" where
  "GetItemsByTemplate net c templateID =
     (case snd (doRequest net c ''item.get''
             (JObject [(''output'', jstrings [''itemid'', ''name'', ''key_'', ''description'', ''value_type'']),
                (''templateids'', jstrings [templateID]), (''value_types'', JArray [JNumber ''0'', JNumber ''1'', JNumber ''3''])])
             (GetToken c)) of
        Inl err \<Rightarrow> Inl err
      | Inr None \<Rightarrow> Inr []
      | Inr (Some result) \<Rightarrow>
          unmarshal_list (nt_codec net) ''items'' (decode_struct (nt_codec net) Item_fields zero_Item) result)"

record DiscoveryRule =
  dr_ItemID :: string
  dr_HostID :: string
  dr_Key :: string
  dr_Name :: string
  dr_Type :: string
  dr_Delay :: string
  dr_Lifetime :: string

definition DiscoveryRule_fields :: "DiscoveryRule field list" where
  "DiscoveryRule_fields =
     [string_field ''itemid'' (\<lambda>s r. r\<lparr>dr_ItemID := s\<rparr>), string_field ''hostid'' (\<lambda>s r. r\<lparr>dr_HostID := s\<rparr>),
      string_field ''key_'' (\<lambda>s r. r\<lparr>dr_Key := s\<rparr>), string_field ''name'' (\<lambda>s r. r\<lparr>dr_Name := s\<rparr>),
      string_field ''type'' (\<lambda>s r. r\<lparr>dr_Type := s\<rparr>), string_field ''delay'' (\<lambda>s r. r\<lparr>dr_Delay := s\<rparr>),
      string_field ''lifetime'' (\<lambda>s r. r\<lparr>dr_Lifetime := s\<rparr>)]"

definition GetDiscoveryRules :: "Net \<Rightarrow> Client \<Rightarrow> string \<Rightarrow> go_error + DiscoveryRule list" where
  "GetDiscoveryRules net c templateID =
     (case snd (doRequest net c ''discoveryrule.get''
             (JObject [(''output'', jstrings [''itemid'', ''hostid'', ''key_'', ''name'', ''type'', ''delay'', ''lifetime'']),
                (''templateids'', jstrings [templateID])])
             (GetToken c)) of
        Inl err \<Rightarrow> Inl err
      | Inr None \<Rightarrow> Inr []
      | Inr (Some result) \<Rightarrow>
          unmarshal_list (nt_codec net) ''discovery rules''
            (decode_struct (nt_codec net) DiscoveryRule_fields
               \<lparr>dr_ItemID = [], dr_HostID = [], dr_Key = [], dr_Name = [], dr_Type = [], dr_Delay = [], dr_Lifetime = []\<rparr>) result)"

record ItemPrototype =
  ip_ItemID :: string
  ip_RuleID :: string
  ip_HostID :: string
  ip_Key :: string
  ip_Name :: string
  ip_Description :: string
  ip_Type :: string

definition ItemPrototype_fields :: "ItemPrototype field list" where
  "ItemPrototype_fields =
     [string_field ''itemid'' (\<lambda>s r. r\<lparr>ip_ItemID := s\<rparr>), string_field ''ruleid'' (\<lambda>s r. r\<lparr>ip_RuleID := s\<rparr>),
      string_field ''hostid'' (\<lambda>s r. r\<lparr>ip_HostID := s\<rparr>), string_field ''key_'' (\<lambda>s r. r\<lparr>ip_Key := s\<rparr>),
      string_field ''name'' (\<lambda>s r. r\<lparr>ip_Name := s\<rparr>), string_field ''description'' (\<lambda>s r. r\<lparr>ip_Description := s\<rparr>),
      string_field ''type'' (\<lambda>s r. r\<lparr>ip_Type := s\<rparr>)]"

definition GetItemPrototypes :: "Net \<Rightarrow> Client \<Rightarrow> string list \<Rightarrow> go_error + ItemPrototype list" where
  "GetItemPrototypes net c ruleIDs =
     (if ruleIDs = [] then Inr []
      else
        (case snd (doRequest net c ''itemprototype.get''
                (JObject [(''output'', jstrings [''itemid'', ''ruleid'', ''hostid'', ''key_'', ''name'', ''description'', ''type'']),
                   (''ruleids'', jstrings ruleIDs), (''selectHosts'', jstrings [''hostid''])])
                (GetToken c)) of
           Inl err \<Rightarrow> Inl err
         | Inr None \<Rightarrow> Inr []
         | Inr (Some result) \<Rightarrow>
             unmarshal_list (nt_codec net) ''item prototypes''
               (decode_struct (nt_codec net) ItemPrototype_fields
                  \<lparr>ip_ItemID = [], ip_RuleID = [], ip_HostID = [], ip_Key = [], ip_Name = [], ip_Description = [], ip_Type = []\<rparr>)
               result))"

section \<open>History\<close>

definition trim_quotes :: "string \<Rightarrow> string" where
  "trim_quotes s = rev (dropWhile (\<lambda>c. c = CHR 0x22) (rev (dropWhile (\<lambda>c. c = CHR 0x22) s)))"

definition FlexInt64_UnmarshalJSON :: "string \<Rightarrow> go_error + int" where
  "FlexInt64_UnmarshalJSON data =
     (let s = trim_quotes data in if s = [] \<or> s = ''null'' then Inr 0 else ParseInt s)"

text \<open>The method gets the text of the value, a \<^verbatim>\<open>null\<close> included, in the form \<^verbatim>\<open>json.Marshal\<close> writes.\<close>

definition flex_field :: "Codec \<Rightarrow> string \<Rightarrow> (int \<Rightarrow> 'r \<Rightarrow> 'r) \<Rightarrow> 'r field" where
  "flex_field cd name put =
     (name, \<lambda>v r. case FlexInt64_UnmarshalJSON (cd_render cd v) of Inl e \<Rightarrow> None | Inr n \<Rightarrow> Some (put n r))"

definition HistoryItem_fields :: "Codec \<Rightarrow> HistoryItem field list" where
  "HistoryItem_fields cd =
     [string_field ''itemid'' (\<lambda>s r. r\<lparr>hi_ItemID := s\<rparr>), flex_field cd ''clock'' (\<lambda>n r. r\<lparr>hi_Clock := n\<rparr>),
      string_field ''value'' (\<lambda>s r. r\<lparr>hi_Value := s\<rparr>), flex_field cd ''ns'' (\<lambda>n r. r\<lparr>hi_NS := n\<rparr>)]"

definition zero_HistoryItem :: HistoryItem where
  "zero_HistoryItem = \<lparr>hi_ItemID = [], hi_Clock = 0, hi_Value = [], hi_NS = 0\<rparr>"

definition jint :: "int \<Rightarrow> json" where "jint n = JNumber (Itoa n)"

definition history_params :: "HistoryQuery \<Rightarrow> json" where
  "history_params query =
     JObject [(''output'', jstrings [''itemid'', ''clock'', ''ns'', ''value'']), (''history'', jint (hq_ValueType query)),
       (''itemids'', jstrings (hq_ItemIDs query)), (''time_from'', jint (to_Unix (hq_TimeFrom query))),
       (''time_till'', jint (to_Unix (hq_TimeTill query))), (''limit'', jint (hq_Limit query)),
       (''sortfield'', JString ''clock''), (''sortorder'', JString ''DESC'')]"

text \<open>What a history batch is told: the reply \<open>QueryHistoryBatch\<close> classifies.\<close>

definition history_reply_of :: "Net \<Rightarrow> Client \<Rightarrow> HistoryQuery \<Rightarrow> history_reply" where
  "history_reply_of net c query =
     (case snd (doRequest net c ''history.get'' (history_params query) (GetToken c)) of
        Inl err \<Rightarrow> ReplyError err
      | Inr None \<Rightarrow> ReplyNil
      | Inr (Some result) \<Rightarrow>
          (case unmarshal_list (nt_codec net) ''history''
                  (decode_struct (nt_codec net) (HistoryItem_fields (nt_codec net)) zero_HistoryItem) result of
             Inl err \<Rightarrow> ReplyUndecodable ''failed to unmarshal history''
           | Inr records \<Rightarrow> ReplyRecords records))"

definition client_QueryHistoryBatch :: "Net \<Rightarrow> Client \<Rightarrow> time \<Rightarrow> time \<Rightarrow> HistoryQuery \<Rightarrow> BatchResult" where
  "client_QueryHistoryBatch net c started finished query = QueryHistoryBatch (history_reply_of net c) started finished query"

end
