(* ===== verification/Token_Manager.thy ===== *)
theory Token_Manager
  imports Zabbix_Client
begin

text \<open>
  \<^verbatim>\<open>internal/zabbix/token.go\<close>: the token manager.  A tick of the refresh loop comes with its time and with what each of
  the up to five attempts meets: the transport, the time the answer arrives and whether the wait after a failure ran its
  course (the context was not cancelled).  \<open>manager_step\<close> lets the calls of \<^verbatim>\<open>Start\<close> and \<^verbatim>\<open>StopContext\<close> interleave with
  the loops they start.
\<close>

section \<open>The refresh loop\<close>

record TokenManager =
  tm_refreshInterval :: duration
  tm_refreshAdvance :: duration

definition NewTokenManager :: "duration \<Rightarrow> duration \<Rightarrow> TokenManager" where
  "NewTokenManager refreshInterval refreshAdvance = \<lparr>tm_refreshInterval = refreshInterval, tm_refreshAdvance = refreshAdvance\<rparr>"

record Attempt =
  at_net :: Net
  at_now :: time
  at_waited :: bool

record Tick =
  tk_now :: time
  tk_attempts :: "nat \<Rightarrow> Attempt"

text \<open>The attempts left, the number of the next, and its backoff; the result lists the waits begun.\<close>

fun refresh_retry :: "(nat \<Rightarrow> Attempt) \<Rightarrow> nat \<Rightarrow> nat \<Rightarrow> duration \<Rightarrow> Client \<Rightarrow> Client \<times> duration list" where
  "refresh_retry att 0 i backoff c = (c, [])"
| "refresh_retry att (Suc n) i backoff c =
     (case RefreshToken (at_net (att i)) (at_now (att i)) c of
        (c, None) \<Rightarrow> (c, [])
      | (c, Some err) \<Rightarrow>
          (if \<not> at_waited (att i) then (c, [backoff])
           else
             (let backoff' = dmul backoff 2;
                  backoff' = (if backoff' > 60 * Second then 60 * Second else backoff') in
              case refresh_retry att n (Suc i) backoff' c of (c, waits) \<Rightarrow> (c, backoff # waits))))"

definition refreshWithRetry :: "(nat \<Rightarrow> Attempt) \<Rightarrow> Client \<Rightarrow> Client \<times> duration list" where
  "refreshWithRetry att c = refresh_retry att 5 0 Second c"

definition on_tick :: "TokenManager \<Rightarrow> Tick \<Rightarrow> Client \<Rightarrow> Client" where
  "on_tick m tick c =
     (if token_ShouldRefresh (tk_now tick) (tm_refreshAdvance m) (cl_token c) then fst (refreshWithRetry (tk_attempts tick) c) else c)"

text \<open>The ticks the loop takes before its context is done.\<close>

definition runRefreshLoop :: "TokenManager \<Rightarrow> Tick list \<Rightarrow> Client \<Rightarrow> Client" where
  "runRefreshLoop m ticks c = (if cl_usesAPIKey c then c else fold (on_tick m) ticks c)"

section \<open>Starting and stopping\<close>

text \<open>One run per call of \<^verbatim>\<open>Start\<close> that was not turned away: its phase and whether its context is cancelled.\<close>

datatype run_phase = LoggingIn | Looping | Closed

record ManagerState =
  ms_isRunning :: bool
  ms_current :: "nat option"
  ms_runs :: "(run_phase \<times> bool) list"

definition manager_init :: ManagerState where
  "manager_init = \<lparr>ms_isRunning = False, ms_current = None, ms_runs = []\<rparr>"

definition start_begin :: "ManagerState \<Rightarrow> ManagerState" where
  "start_begin m = m\<lparr>ms_isRunning := True, ms_current := Some (length (ms_runs m)), ms_runs := ms_runs m @ [(LoggingIn, False)]\<rparr>"

definition start_failed :: "nat \<Rightarrow> ManagerState \<Rightarrow> ManagerState" where
  "start_failed i m = m\<lparr>ms_isRunning := False, ms_runs := (ms_runs m)[i := (Closed, True)]\<rparr>"

definition start_finished :: "nat \<Rightarrow> ManagerState \<Rightarrow> ManagerState" where
  "start_finished i m = m\<lparr>ms_runs := (ms_runs m)[i := (Looping, False)]\<rparr>"

definition run_cancelled :: "nat \<Rightarrow> ManagerState \<Rightarrow> ManagerState" where
  "run_cancelled i m = m\<lparr>ms_runs := (ms_runs m)[i := (fst (ms_runs m ! i), True)]\<rparr>"

definition stop_begin :: "ManagerState \<Rightarrow> ManagerState" where
  "stop_begin m =
     (case ms_current m of
        None \<Rightarrow> m\<lparr>ms_isRunning := False\<rparr>
      | Some i \<Rightarrow> run_cancelled i (m\<lparr>ms_isRunning := False\<rparr>))"

definition loop_over :: "nat \<Rightarrow> ManagerState \<Rightarrow> ManagerState" where
  "loop_over i m = m\<lparr>ms_runs := (ms_runs m)[i := (Closed, True)]\<rparr>"

text \<open>\<open>Parent\<close> is the end of the context a run was started with.  \<open>one_start\<close> says that no call of \<^verbatim>\<open>Start\<close> begins while another is logging in.\<close>

definition logging_in :: "ManagerState \<Rightarrow> bool" where
  "logging_in m \<longleftrightarrow> list_ex (\<lambda>r. fst r = LoggingIn) (ms_runs m)"

inductive manager_step :: "bool \<Rightarrow> ManagerState \<Rightarrow> ManagerState \<Rightarrow> bool" for one_start where
  Begin: "\<not> ms_isRunning m \<Longrightarrow> one_start \<longrightarrow> \<not> logging_in m \<Longrightarrow> manager_step one_start m (start_begin m)"
| Failed: "i < length (ms_runs m) \<Longrightarrow> fst (ms_runs m ! i) = LoggingIn \<Longrightarrow> manager_step one_start m (start_failed i m)"
| Finished: "i < length (ms_runs m) \<Longrightarrow> ms_runs m ! i = (LoggingIn, False) \<Longrightarrow> manager_step one_start m (start_finished i m)"
| Stop: "ms_isRunning m \<Longrightarrow> manager_step one_start m (stop_begin m)"
| Parent: "i < length (ms_runs m) \<Longrightarrow> manager_step one_start m (run_cancelled i m)"
| Loop: "i < length (ms_runs m) \<Longrightarrow> ms_runs m ! i = (Looping, True) \<Longrightarrow> manager_step one_start m (loop_over i m)"

inductive manager_reachable :: "bool \<Rightarrow> ManagerState \<Rightarrow> bool" for one_start where
  initial: "manager_reachable one_start manager_init"
| onward: "manager_reachable one_start m \<Longrightarrow> manager_step one_start m m' \<Longrightarrow> manager_reachable one_start m'"

section \<open>What the attempts do\<close>

text \<open>The first attempt that works, if any is reached, decides.\<close>

definition attempt_works :: "(nat \<Rightarrow> Attempt) \<Rightarrow> Client \<Rightarrow> nat \<Rightarrow> bool" where
  "attempt_works att c i \<longleftrightarrow> snd (RefreshToken (at_net (att i)) (at_now (att i)) c) = None"

lemma RefreshToken_fails: "RefreshToken net now c = (c', Some err) \<Longrightarrow> c' = c"
  by (auto simp: RefreshToken_def Login_def split: if_splits sum.splits option.splits)

lemma RefreshToken_works:
  "RefreshToken net now c = (c', None) \<Longrightarrow> \<not> cl_usesAPIKey c \<Longrightarrow>
   \<exists>token. c' = c\<lparr>cl_token := token_Set token now (cl_token c)\<rparr>"
  by (auto simp: RefreshToken_def Login_def split: if_splits sum.splits option.splits)

text \<open>Whether a login works does not depend on the token the client holds.\<close>

lemma doRequest_token: "doRequest net (c\<lparr>cl_token := t\<rparr>) method params auth = doRequest net c method params auth"
  by (simp add: doRequest_def http_request_def)

lemma attempt_works_token: "\<not> cl_usesAPIKey c \<Longrightarrow> attempt_works att (c\<lparr>cl_token := t\<rparr>) i = attempt_works att c i"
  by (auto simp: attempt_works_def RefreshToken_def Login_def doRequest_token split: sum.splits option.splits)

fun backoffs :: "nat \<Rightarrow> duration \<Rightarrow> duration list" where
  "backoffs 0 b = []"
| "backoffs (Suc n) b = b # backoffs n (if dmul b 2 > 60 * Second then 60 * Second else dmul b 2)"

lemma refresh_retry_outcome:
  "refresh_retry att n i b c = (c', waits) \<Longrightarrow>
     waits = take (length waits) (backoffs n b) \<and>
     ((length waits < n \<and> (\<forall>j < length waits. \<not> attempt_works att c (i + j) \<and> at_waited (att (i + j)))
        \<and> RefreshToken (at_net (att (i + length waits))) (at_now (att (i + length waits))) c = (c', None))
      \<or> (c' = c \<and> (\<forall>j < length waits. \<not> attempt_works att c (i + j))
          \<and> (length waits = n \<or> waits \<noteq> [] \<and> \<not> at_waited (att (i + length waits - 1)))))"
proof (induction n arbitrary: i b c' waits)
  case (Suc n)
  obtain c1 e where r: "RefreshToken (at_net (att i)) (at_now (att i)) c = (c1, e)" by (metis surj_pair)
  show ?case
  proof (cases e)
    case None
    then show ?thesis using Suc.prems r by simp
  next
    case (Some err)
    then have c1: "c1 = c" using r RefreshToken_fails by simp
    have w: "\<not> attempt_works att c i" using r Some by (simp add: attempt_works_def)
    show ?thesis
    proof (cases "at_waited (att i)")
      case False
      then have "c' = c" "waits = [b]" using Suc.prems r Some c1 by simp_all
      then show ?thesis using w False by simp
    next
      case True
      let ?b = "if dmul b 2 > 60 * Second then 60 * Second else dmul b 2"
      obtain ws where rest: "refresh_retry att n (Suc i) ?b c = (c', ws)" and ws: "waits = b # ws"
        using Suc.prems r Some c1 True by (auto simp: Let_def split: prod.splits)
      note ih = Suc.IH [OF rest]
      have shift: "(\<forall>j < Suc (length ws). P (i + j)) \<longleftrightarrow> P i \<and> (\<forall>j < length ws. P (Suc (i + j)))" for P
        by (auto simp: less_Suc_eq_0_disj)
      note s = shift [of "\<lambda>j. \<not> attempt_works att c j \<and> at_waited (att j)"] shift [of "\<lambda>j. \<not> attempt_works att c j"]
      show ?thesis using ih w True unfolding ws list.size(4) add_Suc_right add_0_right add_Suc s take_Suc_Cons backoffs.simps
        by (elim conjE disjE) simp_all
    qed
  qed
qed simp

text \<open>The same, for the five attempts of a refresh.\<close>

lemma five_backoffs: "backoffs 5 Second = [Second, 2 * Second, 4 * Second, 8 * Second, 16 * Second]"
  by code_simp

lemma refreshWithRetry_credentials:
  assumes "\<not> cl_usesAPIKey c"
  shows "\<exists>t. fst (refreshWithRetry att c) = c\<lparr>cl_token := t\<rparr>"
proof -
  obtain c' waits where r: "refreshWithRetry att c = (c', waits)" by (metis surj_pair)
  have "\<exists>t. c' = c\<lparr>cl_token := t\<rparr>"
    using refresh_retry_outcome [OF r [unfolded refreshWithRetry_def]] RefreshToken_works [OF _ assms]
    by (metis Client.surjective Client.update_convs(5))
  then show ?thesis by (simp add: r)
qed

section \<open>A token stays usable\<close>

text \<open>A tick of which some attempt works once the context lets it be reached; no attempt ends before the tick.\<close>

definition tick_works :: "Client \<Rightarrow> Tick \<Rightarrow> bool" where
  "tick_works c tick \<longleftrightarrow>
     list_ex (\<lambda>i. attempt_works (tk_attempts tick) c i \<and> list_all (\<lambda>j. at_waited (tk_attempts tick j)) [0..<i]) [0..<5]
     \<and> list_all (\<lambda>i. tk_now tick \<le> at_now (tk_attempts tick i) \<and> sane_time (at_now (tk_attempts tick i))) [0..<5]"

lemma tick_works_token: "\<not> cl_usesAPIKey c \<Longrightarrow> tick_works (c\<lparr>cl_token := t\<rparr>) tick = tick_works c tick"
  by (simp add: tick_works_def attempt_works_token)

lemma tick_works_fresh:
  assumes api: "\<not> cl_usesAPIKey c" and works: "tick_works c tick"
  shows "tk_now tick + 7 * Hour \<le> ti_expiresAt (cl_token (fst (refreshWithRetry (tk_attempts tick) c)))"
proof -
  let ?att = "tk_attempts tick"
  obtain i where i: "i < 5" "attempt_works ?att c i" "\<And>j. j < i \<Longrightarrow> at_waited (?att j)"
    using works by (auto simp: tick_works_def list_ex_iff list_all_iff)
  have times: "tk_now tick \<le> at_now (?att j)" "sane_time (at_now (?att j))" if "j < 5" for j
    using works that by (auto simp: tick_works_def list_all_iff)
  obtain c' waits where r: "refreshWithRetry ?att c = (c', waits)" by (metis surj_pair)
  let ?n = "length waits"
  have "\<not> (\<forall>j < ?n. \<not> attempt_works ?att c j) \<or> ?n \<le> i" using i(2) not_less by blast
  moreover have "at_waited (?att (?n - 1))" if "?n \<noteq> 0" "?n \<le> i" by (rule i(3)) (use that in linarith)
  ultimately have n: "?n < 5" and ok: "RefreshToken (at_net (?att ?n)) (at_now (?att ?n)) c = (c', None)"
    using refresh_retry_outcome [OF r [unfolded refreshWithRetry_def]] i(1) by auto
  obtain token where "c' = c\<lparr>cl_token := token_Set token (at_now (?att ?n)) (cl_token c)\<rparr>"
    using RefreshToken_works [OF ok api] by blast
  moreover have "time_Add (at_now (?att ?n)) (7 * Hour) = at_now (?att ?n) + 7 * Hour"
    by (rule time_Add_sane [OF times(2) [OF n]]) (simp add: in_int64_def duration_units)
  ultimately show ?thesis using times(1) [OF n] by (simp add: r token_Set_def)
qed

text \<open>The loop between two ticks that are at most the advance apart.\<close>

fun ticks_spaced :: "duration \<Rightarrow> time \<Rightarrow> Tick list \<Rightarrow> bool" where
  "ticks_spaced gap t [] = True"
| "ticks_spaced gap t (tick # ticks) =
     (t \<le> tk_now tick \<and> tk_now tick \<le> t + gap \<and> sane_time (tk_now tick) \<and> ticks_spaced gap (tk_now tick) ticks)"

fun last_tick :: "time \<Rightarrow> Tick list \<Rightarrow> time" where
  "last_tick t [] = t"
| "last_tick t (tick # ticks) = last_tick (tk_now tick) ticks"

lemma on_tick_fresh:
  assumes "\<not> cl_usesAPIKey c" "tick_works c tick" "sane_time (tk_now tick)"
    and "0 \<le> tm_refreshAdvance m" "tm_refreshAdvance m \<le> 7 * Hour"
  shows "\<exists>t. on_tick m tick c = c\<lparr>cl_token := t\<rparr> \<and> tk_now tick + tm_refreshAdvance m \<le> ti_expiresAt t"
proof (cases "token_ShouldRefresh (tk_now tick) (tm_refreshAdvance m) (cl_token c)")
  case True
  obtain t where t: "fst (refreshWithRetry (tk_attempts tick) c) = c\<lparr>cl_token := t\<rparr>"
    using refreshWithRetry_credentials [OF assms(1)] by blast
  then show ?thesis using True tick_works_fresh [OF assms(1,2)] assms(5) by (intro exI [of _ t]) (simp add: on_tick_def t)
next
  case False
  have "time_Add (tk_now tick) (tm_refreshAdvance m) = tk_now tick + tm_refreshAdvance m"
    by (rule time_Add_sane [OF assms(3)]) (use assms(4,5) in \<open>simp add: in_int64_def duration_units\<close>)
  then show ?thesis using False by (intro exI [of _ "cl_token c"]) (simp add: on_tick_def token_ShouldRefresh_def)
qed

lemma fold_ticks_fresh:
  assumes "\<not> cl_usesAPIKey c" "list_all (tick_works c) ticks" "ticks_spaced gap t ticks"
    and m: "0 \<le> tm_refreshAdvance m" "tm_refreshAdvance m \<le> 7 * Hour"
    and "t + tm_refreshAdvance m \<le> ti_expiresAt (cl_token c)"
  shows "last_tick t ticks + tm_refreshAdvance m \<le> ti_expiresAt (cl_token (fold (on_tick m) ticks c))"
  using assms(1,2,3,6)
proof (induction ticks arbitrary: t c)
  case (Cons tick ticks)
  obtain tok where tok: "on_tick m tick c = c\<lparr>cl_token := tok\<rparr>" "tk_now tick + tm_refreshAdvance m \<le> ti_expiresAt tok"
    using on_tick_fresh [OF Cons.prems(1) _ _ m, of tick] Cons.prems(2,3) by auto
  have "list_all (tick_works (c\<lparr>cl_token := tok\<rparr>)) ticks"
    using Cons.prems(1,2) by (simp add: list_all_iff tick_works_token)
  then show ?case using Cons.IH [of "c\<lparr>cl_token := tok\<rparr>" "tk_now tick"] Cons.prems(1,3) tok by simp
qed simp

section \<open>Who can still stop a run\<close>

definition live_run :: "ManagerState \<Rightarrow> nat \<Rightarrow> bool" where
  "live_run m i \<longleftrightarrow> i < length (ms_runs m) \<and> fst (ms_runs m ! i) \<noteq> Closed \<and> \<not> snd (ms_runs m ! i)"

definition manager_ok :: "ManagerState \<Rightarrow> bool" where
  "manager_ok m \<longleftrightarrow>
     (\<forall>i. live_run m i \<longrightarrow> ms_isRunning m \<and> ms_current m = Some i)
     \<and> (\<forall>i j. i < length (ms_runs m) \<and> fst (ms_runs m ! i) = LoggingIn \<and> live_run m j \<longrightarrow> j = i)"

lemma manager_okD:
  assumes "manager_ok m"
  shows "live_run m i \<Longrightarrow> ms_isRunning m" "live_run m i \<Longrightarrow> ms_current m = Some i"
    "i < length (ms_runs m) \<Longrightarrow> fst (ms_runs m ! i) = LoggingIn \<Longrightarrow> live_run m j \<Longrightarrow> j = i"
  using assms unfolding manager_ok_def by blast+

lemma live_init: "\<not> live_run manager_init i"
  by (simp add: live_run_def manager_init_def)

lemma live_update [simp]:
  "live_run (m\<lparr>ms_runs := (ms_runs m)[i := r]\<rparr>) j
     \<longleftrightarrow> (if j = i then i < length (ms_runs m) \<and> fst r \<noteq> Closed \<and> \<not> snd r else live_run m j)"
  "live_run (m\<lparr>ms_isRunning := b, ms_runs := (ms_runs m)[i := r]\<rparr>) j
     \<longleftrightarrow> (if j = i then i < length (ms_runs m) \<and> fst r \<noteq> Closed \<and> \<not> snd r else live_run m j)"
  "live_run (m\<lparr>ms_isRunning := b\<rparr>) j = live_run m j"
  by (auto simp: live_run_def)

lemma live_begin: "live_run (start_begin m) j \<longleftrightarrow> j = length (ms_runs m) \<or> live_run m j"
  by (auto simp: live_run_def start_begin_def nth_append less_Suc_eq)

lemma manager_ok_fewer:
  assumes ok: "manager_ok m" and live: "\<And>j. live_run m' j \<Longrightarrow> live_run m j \<and> ms_isRunning m' = ms_isRunning m \<and> ms_current m' = ms_current m"
    and login: "\<And>k. k < length (ms_runs m') \<Longrightarrow> fst (ms_runs m' ! k) = LoggingIn \<Longrightarrow>
      k < length (ms_runs m) \<and> fst (ms_runs m ! k) = LoggingIn"
  shows "manager_ok m'"
  unfolding manager_ok_def
proof (intro conjI allI impI)
  show "ms_isRunning m'" "ms_current m' = Some i" if "live_run m' i" for i
    using live [OF that] manager_okD(1,2) [OF ok, of i] by simp_all
  show "j = i" if "i < length (ms_runs m') \<and> fst (ms_runs m' ! i) = LoggingIn \<and> live_run m' j" for i j
    using that live [of j] login [of i] manager_okD(3) [OF ok] by blast
qed

lemma nth_update_phase: "k < length rs \<Longrightarrow> fst (rs[i := (fst (rs ! i), b)] ! k) = fst (rs ! k)"
  by (cases "k = i") simp_all

lemma manager_ok_step:
  assumes "manager_step True m m'" "manager_ok m"
  shows "manager_ok m'"
  using assms(1)
proof cases
  case Begin
  have none: "\<not> live_run m j" for j using assms(2) Begin(2) by (simp add: manager_ok_def)
  have "fst (ms_runs m ! i) \<noteq> LoggingIn" if "i < length (ms_runs m)" for i
    using Begin(3) nth_mem [OF that] by (auto simp: logging_in_def list_ex_iff)
  then show ?thesis using none unfolding Begin(1) manager_ok_def live_begin
    by (auto simp: start_begin_def nth_append less_Suc_eq)
next
  case (Failed i)
  have only: "j = i" if "live_run m j" for j using assms(2) Failed(2,3) that unfolding manager_ok_def by blast
  show ?thesis using only unfolding Failed(1) manager_ok_def start_failed_def by (auto split: if_splits)
next
  case (Finished i)
  have live: "live_run m i" using Finished(2,3) by (simp add: live_run_def)
  note cur = manager_okD(1,2) [OF assms(2) live]
  have only: "live_run m' j \<longleftrightarrow> j = i" for j
  proof -
    have "live_run m j \<longleftrightarrow> j = i" using manager_okD(2) [OF assms(2), of j] cur(2) live by auto
    then show ?thesis using Finished(2) by (simp add: Finished(1) start_finished_def)
  qed
  have none: "fst (ms_runs m' ! k) \<noteq> LoggingIn" if "k < length (ms_runs m')" for k
  proof (cases "k = i")
    case False
    then show ?thesis using manager_okD(3) [OF assms(2) _ _ live, of k] that by (auto simp: Finished(1) start_finished_def)
  qed (use Finished(2) in \<open>simp add: Finished(1) start_finished_def\<close>)
  have "ms_isRunning m' = ms_isRunning m" "ms_current m' = ms_current m" by (simp_all add: Finished(1) start_finished_def)
  then show ?thesis using cur only none unfolding manager_ok_def by simp blast
next
  case Stop
  show ?thesis
  proof (cases "ms_current m")
    case None
    then show ?thesis using assms(2) manager_okD(2) [OF assms(2)] unfolding Stop(1) stop_begin_def
      by (intro manager_ok_fewer [OF assms(2)]) auto
  next
    case (Some i)
    have "\<not> live_run m' j" for j
      using manager_okD(2) [OF assms(2), of j] Some by (auto simp: Stop(1) stop_begin_def run_cancelled_def)
    then show ?thesis using Some unfolding Stop(1) stop_begin_def run_cancelled_def
      by (intro manager_ok_fewer [OF assms(2)]) (simp_all add: nth_update_phase)
  qed
next
  case (Parent i)
  then show ?thesis unfolding Parent(1) run_cancelled_def
    by (intro manager_ok_fewer [OF assms(2)]) (simp_all add: nth_update_phase split: if_splits)
next
  case (Loop i)
  then show ?thesis unfolding Loop(1) loop_over_def
    by (intro manager_ok_fewer [OF assms(2)]) (auto simp: nth_list_update split: if_splits)
qed

lemma manager_ok_reachable: "manager_reachable True m \<Longrightarrow> manager_ok m"
proof (induction rule: manager_reachable.induct)
  case initial
  then show ?case by (simp add: manager_ok_def live_init)
next
  case (onward m m')
  then show ?case using manager_ok_step by blast
qed

end
