(* ===== verification/Client_Properties.thy ===== *)
theory Client_Properties
  imports Token_Manager
begin

text \<open>
  What the Zabbix client promises: what the server writes is what the program reads, a failed exchange never looks like
  data, and the token stays usable.
\<close>

section \<open>Reading what the server writes\<close>

definition encode_Interface :: "Interface \<Rightarrow> json" where
  "encode_Interface i = JObject [(''bulk'', JString (if_Bulk i)), (''dns'', JString (if_DNS i)), (''interfaceid'', JString (if_InterfaceID i)),
     (''ip'', JString (if_IP i)), (''main'', JString (if_Main i)), (''port'', JString (if_Port i)), (''type'', JString (if_Type i)),
     (''useip'', JString (if_UseIP i))]"

definition encode_Host :: "Host \<Rightarrow> json" where
  "encode_Host h = JObject [(''host'', JString (ho_Host h)), (''hostid'', JString (ho_HostID h)),
     (''interfaces'', JArray (map encode_Interface (ho_Interfaces h))), (''inventory'', ho_Inventory h), (''name'', JString (ho_Name h))]"

definition encode_record :: "HistoryItem \<Rightarrow> json" where
  "encode_record r = JObject [(''clock'', JString (Itoa (hi_Clock r))), (''itemid'', JString (hi_ItemID r)), (''ns'', JString (Itoa (hi_NS r))),
     (''value'', JString (hi_Value r))]"

definition api_answer :: "json \<Rightarrow> json" where
  "api_answer result = JObject [(''jsonrpc'', JString ''2.0''), (''result'', result), (''id'', JNumber ''1'')]"

text \<open>The server answers with success and a result the text codec carries; the key \<^verbatim>\<open>id\<close> is not taken for another.\<close>

definition answers :: "Net \<Rightarrow> HTTPRequest \<Rightarrow> json \<Rightarrow> bool" where
  "answers net req result \<longleftrightarrow>
     (case nt_exchange net req of
        HTTPResponse code body \<Rightarrow> 200 \<le> code \<and> code < 300 \<and> cd_parse (nt_codec net) body = Some (api_answer result)
      | _ \<Rightarrow> False)
     \<and> cd_parse (nt_codec net) (cd_render (nt_codec net) result) = Some result
     \<and> cd_fold (nt_codec net) ''id'' \<notin> cd_fold (nt_codec net) ` {''jsonrpc'', ''result'', ''error''}"

lemma answers_doRequest:
  assumes "answers net (http_request (nt_codec net) c method params auth) (JArray vs)" "plain_value (nt_codec net) (JArray vs)"
  shows "snd (doRequest net c method params auth) = Inr (Some (cd_render (nt_codec net) (JArray vs)))"
proof -
  obtain code body where r: "nt_exchange net (http_request (nt_codec net) c method params auth) = HTTPResponse code body"
    "200 \<le> code" "code < 300" "cd_parse (nt_codec net) body = Some (api_answer (JArray vs))"
    and fold: "cd_fold (nt_codec net) ''id'' \<noteq> cd_fold (nt_codec net) ''jsonrpc''"
      "cd_fold (nt_codec net) ''id'' \<noteq> cd_fold (nt_codec net) ''result''"
      "cd_fold (nt_codec net) ''id'' \<noteq> cd_fold (nt_codec net) ''error''"
    using assms(1) by (auto simp: answers_def split: http_reply.splits)
  have "unmarshal_response (nt_codec net) body = Some \<lparr>ar_JSONRPC = ''2.0'', ar_Result = JArray vs, ar_Error = None\<rparr>"
    using r(4) fold fold [THEN not_sym] assms(2)
    by (simp add: unmarshal_response_def api_answer_def decode_struct_def APIResponse_fields_def find_field_def field_defs error_field_def
        plain_value_def)
  then show ?thesis using r(1-3) by (simp add: doRequest_def raw_result_def)
qed

lemma unmarshal_answer:
  assumes "answers net req (JArray (map enc rs))" "\<And>r. r \<in> set rs \<Longrightarrow> dec (enc r) = Some r"
  shows "unmarshal_list (nt_codec net) what dec (cd_render (nt_codec net) (JArray (map enc rs))) = Inr rs"
  using assms decode_slice_map [of rs dec enc] by (simp add: unmarshal_list_def answers_def)

lemma decode_Interface: "decode_struct cd Interface_fields zero_Interface (encode_Interface i) = Some i"
  by (simp add: decode_struct_def encode_Interface_def Interface_fields_def find_field_def field_defs zero_Interface_def)

lemma decode_Host:
  assumes "plain_value cd (ho_Inventory h)"
  shows "decode_struct cd (Host_fields cd) zero_Host (encode_Host h) = Some h"
proof -
  have "decode_slice (decode_struct cd Interface_fields zero_Interface) (JArray (map encode_Interface (ho_Interfaces h))) = Some (ho_Interfaces h)"
    by (rule decode_slice_map) (rule decode_Interface)
  then show ?thesis using assms
    by (simp add: decode_struct_def encode_Host_def Host_fields_def find_field_def field_defs zero_Host_def plain_value_def)
qed

lemma plain_Host:
  assumes "plain_value cd (ho_Inventory h)"
  shows "plain_value cd (encode_Host h)"
proof -
  have "plain_value cd (encode_Interface i)" for i
    unfolding encode_Interface_def by (rule plain_object) (auto simp: less_list_code)
  then have "plain_value cd (JArray (map encode_Interface (ho_Interfaces h)))" by (intro plain_array) auto
  then show ?thesis using assms unfolding encode_Host_def by (intro plain_object) auto
qed

text \<open>C22: When the server answers \<^verbatim>\<open>host.get\<close> with the encoding of some hosts, \<open>GetHosts\<close> returns exactly these, in their order,
  with their interfaces and inventory - although the result goes through an untyped value and a second text on the way.\<close>

theorem get_hosts_roundtrip:
  assumes "answers net (http_request (nt_codec net) c ''host.get'' (host_params []) (GetToken c)) (JArray (map encode_Host hosts))"
    and "list_all (\<lambda>h. plain_value (nt_codec net) (ho_Inventory h)) hosts"
  shows "GetHosts net c = Inr hosts"
proof -
  have inv: "plain_value (nt_codec net) (ho_Inventory h)" if "h \<in> set hosts" for h using assms(2) that by (simp add: list_all_iff)
  have "plain_value (nt_codec net) (JArray (map encode_Host hosts))" using inv plain_Host by (intro plain_array) auto
  from answers_doRequest [OF assms(1) this] unmarshal_answer [OF assms(1) decode_Host [OF inv]]
  show ?thesis by (simp add: GetHosts_def)
qed

definition ex_host :: Host where
  "ex_host = \<lparr>ho_HostID = ''10'', ho_Host = ''db'', ho_Name = ''DB'',
     ho_Interfaces = [zero_Interface\<lparr>if_IP := ''10.0.0.1'', if_Main := ''1''\<rparr>],
     ho_Inventory = JObject [(''os'', JString ''Linux''), (''tag'', JString ''x'')]\<rparr>"

definition ex_net :: "json \<Rightarrow> Net" where
  "ex_net result = \<lparr>nt_codec = \<lparr>cd_parse = (\<lambda>s. if s = ''body'' then Some (api_answer result) else if s = ''result'' then Some result else None),
       cd_render = (\<lambda>v. case v of JString s \<Rightarrow> CHR 0x22 # s @ [CHR 0x22] | _ \<Rightarrow> ''result''), cd_float = Some, cd_fold = ascii_lower\<rparr>,
     nt_exchange = (\<lambda>req. HTTPResponse 200 ''body''), nt_ctxErr = None\<rparr>"

lemma ex_answers: "answers (ex_net (JArray vs)) req (JArray vs)"
proof -
  have "ascii_lower ''id'' \<notin> ascii_lower ` {''jsonrpc'', ''result'', ''error''}"
    by (simp add: ascii_lower_def ascii_lower_char_def byte_of_def)
  then show ?thesis by (simp add: answers_def ex_net_def)
qed

theorem get_hosts_roundtrip_witness: "GetHosts (ex_net (JArray [encode_Host ex_host])) (NewClient ''url'' ''u'' ''p'') = Inr [ex_host]"
proof -
  have "list_all (\<lambda>h. plain_value (nt_codec (ex_net (JArray [encode_Host ex_host]))) (ho_Inventory h)) [ex_host]"
    by (simp add: ex_host_def) (rule plain_object; auto)
  from get_hosts_roundtrip [OF _ this] show ?thesis using ex_answers by simp
qed

lemma dropWhile_none: "(\<And>c. c \<in> set s \<Longrightarrow> \<not> P c) \<Longrightarrow> dropWhile P s = s"
  by (cases s) simp_all

lemma trim_quotes_digits:
  assumes "list_all is_digit ds"
  shows "ds \<noteq> [] \<Longrightarrow> trim_quotes (CHR 0x22 # ds @ [CHR 0x22]) = ds" "trim_quotes ds = ds"
proof -
  have d: "c \<noteq> CHR 0x22" if "c \<in> set ds" for c
  proof
    assume "c = CHR 0x22"
    then have "is_digit (CHR 0x22)" using assms that by (auto simp: list_all_iff)
    then show False by (simp add: is_digit_def byte_of_def)
  qed
  have 1: "dropWhile (\<lambda>c. c = CHR 0x22) ds = ds" "dropWhile (\<lambda>c. c = CHR 0x22) (rev ds) = rev ds"
    by (rule dropWhile_none; use d in auto)+
  then show "trim_quotes ds = ds" by (simp add: trim_quotes_def)
  assume "ds \<noteq> []"
  then have "dropWhile (\<lambda>c. c = CHR 0x22) (ds @ [CHR 0x22]) = ds @ [CHR 0x22]" using d by (cases ds) auto
  then show "trim_quotes (CHR 0x22 # ds @ [CHR 0x22]) = ds" using 1 by (simp add: trim_quotes_def)
qed

lemma flex_Itoa:
  assumes "0 \<le> n" "n < 2 ^ 63"
  shows "FlexInt64_UnmarshalJSON (CHR 0x22 # Itoa n @ [CHR 0x22]) = Inr n" "FlexInt64_UnmarshalJSON (Itoa n) = Inr n"
proof -
  have i: "Itoa n = format_nat 10 (nat n)" "list_all is_digit (Itoa n)" "Itoa n \<noteq> []"
    using Itoa_nonneg [OF assms(1)] format_nat_digits format_nat_ne by metis+
  have "Itoa n \<noteq> ''null''" using i(2) by (auto simp: is_digit_def byte_of_def)
  then show "FlexInt64_UnmarshalJSON (CHR 0x22 # Itoa n @ [CHR 0x22]) = Inr n" "FlexInt64_UnmarshalJSON (Itoa n) = Inr n"
    using i ParseInt_Itoa [OF assms] by (simp_all add: FlexInt64_UnmarshalJSON_def trim_quotes_digits)
qed

text \<open>C21: When the server answers \<^verbatim>\<open>history.get\<close> with the encoding of some records, times and nanoseconds as strings of digits, a
  history query returns exactly these records without an error, marks them as possibly truncated just when they fill the
  limit, and reduces them to the latest record of every item.\<close>

theorem history_roundtrip:
  assumes "answers net (http_request (nt_codec net) c ''history.get'' (history_params query) (GetToken c)) (JArray (map encode_record records))"
    and "list_all (\<lambda>r. 0 \<le> hi_Clock r \<and> hi_Clock r < 2 ^ 63 \<and> 0 \<le> hi_NS r \<and> hi_NS r < 2 ^ 63) records"
    and "\<And>n. cd_render (nt_codec net) (JString (Itoa n)) = CHR 0x22 # Itoa n @ [CHR 0x22]"
  shows "\<exists>latest. latest_of records latest \<and>
    client_QueryHistoryBatch net c started finished query =
      \<lparr>br_Query = query,
       br_Status = (if 0 < hq_Limit query \<and> hq_Limit query \<le> int (length records) then BatchPossiblyTruncated
                    else if records = [] then BatchEmpty else BatchSuccess),
       br_Records = records, br_Latest = Some latest, br_Returned = int (length records),
       br_LimitHit = (0 < hq_Limit query \<and> hq_Limit query \<le> int (length records)),
       br_StartedAt = started, br_FinishedAt = finished, br_Err = None\<rparr>"
proof -
  let ?cd = "nt_codec net"
  have "plain_value ?cd (encode_record r)" for r unfolding encode_record_def by (rule plain_object) auto
  then have plain: "plain_value ?cd (JArray (map encode_record records))" by (intro plain_array) auto
  have dec: "decode_struct ?cd (HistoryItem_fields ?cd) zero_HistoryItem (encode_record r) = Some r" if "r \<in> set records" for r
  proof -
    have "0 \<le> hi_Clock r" "hi_Clock r < 2 ^ 63" "0 \<le> hi_NS r" "hi_NS r < 2 ^ 63" using assms(2) that by (simp_all add: list_all_iff)
    then show ?thesis
      by (simp add: decode_struct_def encode_record_def HistoryItem_fields_def find_field_def field_defs flex_field_def zero_HistoryItem_def
          assms(3) flex_Itoa)
  qed
  have "history_reply_of net c query = ReplyRecords records"
    using answers_doRequest [OF assms(1) plain] unmarshal_answer [OF assms(1) dec] by (simp add: history_reply_of_def)
  then show ?thesis using ReduceLatest_latest_of [of records]
    by (intro exI [of _ "ReduceLatest records"]) (auto simp: client_QueryHistoryBatch_def QueryHistoryBatch_def Let_def)
qed

definition ex_query :: HistoryQuery where
  "ex_query = \<lparr>hq_GroupID = ''g'', hq_ItemIDs = [''1''], hq_ValueType = 3, hq_TimeFrom = time_Unix 0 0, hq_TimeTill = time_Unix 60 0, hq_Limit = 2\<rparr>"

definition ex_records :: "HistoryItem list" where
  "ex_records = [\<lparr>hi_ItemID = ''1'', hi_Clock = 50, hi_Value = ''7'', hi_NS = 5\<rparr>, \<lparr>hi_ItemID = ''1'', hi_Clock = 40, hi_Value = ''6'', hi_NS = 9\<rparr>]"

theorem history_roundtrip_witness:
  "br_Records (client_QueryHistoryBatch (ex_net (JArray (map encode_record ex_records))) (NewClient ''url'' ''u'' ''p'') 0 0 ex_query) = ex_records
   \<and> br_Status (client_QueryHistoryBatch (ex_net (JArray (map encode_record ex_records))) (NewClient ''url'' ''u'' ''p'') 0 0 ex_query)
     = BatchPossiblyTruncated"
proof -
  have "list_all (\<lambda>r. 0 \<le> hi_Clock r \<and> hi_Clock r < 2 ^ 63 \<and> 0 \<le> hi_NS r \<and> hi_NS r < 2 ^ 63) ex_records" by (simp add: ex_records_def)
  from history_roundtrip [OF ex_answers this, where c = "NewClient ''url'' ''u'' ''p''" and query = ex_query and started = 0 and finished = 0]
  show ?thesis by (auto simp: ex_net_def ex_query_def ex_records_def)
qed

section \<open>Failures\<close>

text \<open>\<open>GetItemMetadata\<close> returns items only when the server answered with a 2xx status, a body that decodes, no API error and a
  result that is an array, an object or a string: a failed exchange, whatever went wrong, is an error and never an empty list.\<close>

theorem get_items_sound:
  assumes "GetItemMetadata net c hostIDs = Inr items" "hostIDs \<noteq> []"
  shows "\<exists>req code body resp. nt_exchange net req = HTTPResponse code body \<and> 200 \<le> code \<and> code < 300
    \<and> rq_URL req = cl_url c \<and> rq_Authorization req = (if GetToken c = [] then None else Some (''Bearer '' @ GetToken c))
    \<and> unmarshal_response (nt_codec net) body = Some resp \<and> ar_Error resp = None
    \<and> (case ar_Result resp of JArray vs \<Rightarrow> True | JObject kvs \<Rightarrow> True | JString s \<Rightarrow> True | _ \<Rightarrow> False)"
proof -
  let ?params = "JObject [(''output'', jstrings [''itemid'', ''hostid'', ''key_'', ''name'', ''value_type'', ''delay'', ''status'', ''state'']),
     (''hostids'', jstrings hostIDs), (''filter'', JObject [(''value_type'', JArray [JNumber ''0'', JNumber ''3''])])]"
  obtain msg where "snd (doRequest net c ''item.get'' ?params (GetToken c)) = Inr (Some msg)"
    using assms by (auto simp: GetItemMetadata_def split: sum.splits option.splits)
  then obtain code body resp where "nt_exchange net (http_request (nt_codec net) c ''item.get'' ?params (GetToken c)) = HTTPResponse code body"
    "200 \<le> code" "code < 300" "unmarshal_response (nt_codec net) body = Some resp" "ar_Error resp = None"
    "raw_result (nt_codec net) (ar_Result resp) = Some msg"
    by (auto simp: doRequest_def split: http_reply.splits if_splits option.splits)
  then show ?thesis
    by (intro exI [of _ "http_request (nt_codec net) c ''item.get'' ?params (GetToken c)"] exI)
      (auto simp: http_request_def raw_result_def split: json.splits)
qed

theorem get_items_sound_witness:
  "\<exists>req code body. nt_exchange (ex_net (JArray [])) req = HTTPResponse code body \<and> 200 \<le> code
     \<and> rq_URL req = ''url''"
proof -
  have "GetItemMetadata (ex_net (JArray [])) (NewClient ''url'' ''u'' ''p'') [''10''] = Inr []" by code_simp
  from get_items_sound [OF this] show ?thesis by (auto simp: NewClient_def NewClientWithTLS_def)
qed

section \<open>The token\<close>


definition ex_login_net :: Net where
  "ex_login_net = (ex_net (JArray []))\<lparr>nt_codec := \<lparr>cd_parse = (\<lambda>s. Some (api_answer (JString ''tok''))), cd_render = (\<lambda>v. []), cd_float = Some,
     cd_fold = ascii_lower\<rparr>\<rparr>"

definition ex_tick :: "time \<Rightarrow> Tick" where
  "ex_tick t = \<lparr>tk_now = t, tk_attempts = (\<lambda>i. \<lparr>at_net = ex_login_net, at_now = t + int i, at_waited = True\<rparr>)\<rparr>"

definition ex_client :: Client where
  "ex_client = (NewClient ''url'' ''u'' ''p'')\<lparr>cl_token := token_Set ''old'' 0 NewTokenInfo\<rparr>"

definition ex_manager :: TokenManager where "ex_manager = NewTokenManager (4 * Hour) (5 * Hour)"


text \<open>A refresh makes at most five attempts and waits 1, 2, 4, 8 and 16 seconds after those that fail.  It ends at the first that works,
  whose token it keeps, or - after the fifth failure or when a wait is cut short - with the client as it was.\<close>

theorem token_retry_bounded:
  assumes "refreshWithRetry att c = (c', waits)"
  shows "prefix waits [Second, 2 * Second, 4 * Second, 8 * Second, 16 * Second]
    \<and> list_all (\<lambda>i. \<not> attempt_works att c i) [0..<length waits]
    \<and> (if length waits < 5 \<and> list_all (\<lambda>i. at_waited (att i)) [0..<length waits]
       then RefreshToken (at_net (att (length waits))) (at_now (att (length waits))) c = (c', None) else c' = c)"
proof -
  note o = refresh_retry_outcome [OF assms [unfolded refreshWithRetry_def], unfolded five_backoffs add_0]
  have w: "prefix waits [Second, 2 * Second, 4 * Second, 8 * Second, 16 * Second]" using o by (metis take_is_prefix)
  have "waits \<noteq> [] \<Longrightarrow> length waits - 1 \<in> {0..<length waits}" by (cases waits) auto
  then show ?thesis using o w unfolding list_all_iff by auto
qed

theorem token_retry_bounded_witness:
  "refreshWithRetry (\<lambda>i. \<lparr>at_net = (if i < 2 then ex_login_net\<lparr>nt_exchange := (\<lambda>req. SendFailed (TransportError ''refused''))\<rparr> else ex_login_net),
       at_now = int i, at_waited = True\<rparr>) ex_client = (ex_client\<lparr>cl_token := token_Set ''tok'' 2 NewTokenInfo\<rparr>, [Second, 2 * Second])
   \<and> prefix [Second, 2 * Second] [Second, 2 * Second, 4 * Second, 8 * Second, 16 * Second]"
proof -
  have r: "refreshWithRetry (\<lambda>i. \<lparr>at_net = (if i < 2 then ex_login_net\<lparr>nt_exchange := (\<lambda>req. SendFailed (TransportError ''refused''))\<rparr> else ex_login_net),
       at_now = int i, at_waited = True\<rparr>) ex_client = (ex_client\<lparr>cl_token := token_Set ''tok'' 2 NewTokenInfo\<rparr>, [Second, 2 * Second])"
    by code_simp
  from token_retry_bounded [OF r] r show ?thesis by blast
qed

text \<open>While calls of \<^verbatim>\<open>Start\<close> do not overlap, a run of the manager that is neither over nor cancelled is the one \<^verbatim>\<open>StopContext\<close> cancels:
  the manager is marked as running and its cancel function and channel are that run's.\<close>

theorem manager_stop_reaches:
  assumes "manager_reachable True m" "live_run m i"
  shows "ms_isRunning m \<and> ms_current m = Some i \<and> \<not> live_run (stop_begin m) i"
proof -
  note ok = manager_ok_reachable [OF assms(1)]
  have cur: "ms_current m = Some i" by (rule manager_okD(2) [OF ok assms(2)])
  show ?thesis using manager_okD(1) [OF ok assms(2)] cur by (simp add: stop_begin_def run_cancelled_def)
qed

theorem manager_stop_reaches_witness: "\<not> live_run (stop_begin (start_finished 0 (start_begin manager_init))) 0"
proof -
  have "manager_step True manager_init (start_begin manager_init)"
    by (rule manager_step.Begin) (simp_all add: manager_init_def logging_in_def)
  moreover have "manager_step True (start_begin manager_init) (start_finished 0 (start_begin manager_init))"
    by (rule manager_step.Finished) (simp_all add: manager_init_def start_begin_def)
  ultimately have "manager_reachable True (start_finished 0 (start_begin manager_init))"
    using manager_reachable.initial manager_reachable.onward by blast
  from manager_stop_reaches [OF this] show ?thesis
    by (simp add: live_run_def start_finished_def start_begin_def manager_init_def)
qed

text \<open>Overlapping starts break this: the failing login of a cancelled run clears the mark of the run started after it.\<close>

lemma overlapping_starts_lose_run:
  "\<exists>m. manager_reachable False m \<and> live_run m 1 \<and> \<not> ms_isRunning m"
proof -
  let ?m1 = "start_begin manager_init" let ?m2 = "stop_begin ?m1" let ?m3 = "start_begin ?m2" let ?m4 = "start_failed 0 ?m3"
  have "manager_step False manager_init ?m1" by (rule manager_step.Begin) (simp_all add: manager_init_def)
  moreover have "manager_step False ?m1 ?m2" by (rule manager_step.Stop) (simp add: start_begin_def)
  moreover have "manager_step False ?m2 ?m3"
    by (rule manager_step.Begin) (simp_all add: stop_begin_def start_begin_def run_cancelled_def manager_init_def)
  moreover have "manager_step False ?m3 ?m4"
    by (rule manager_step.Failed) (simp_all add: stop_begin_def start_begin_def run_cancelled_def manager_init_def)
  ultimately have "manager_reachable False ?m4" using manager_reachable.initial manager_reachable.onward by metis
  moreover have "live_run ?m4 1 \<and> \<not> ms_isRunning ?m4"
    by (simp add: live_run_def start_failed_def stop_begin_def start_begin_def run_cancelled_def manager_init_def)
  ultimately show ?thesis by blast
qed

end
