(* ===== verification/App_Reader.thy ===== *)
theory App_Reader
  imports Zabbix_Client Metadata_Refresher "HOL-Library.Sublist"
begin

text \<open>
  \<^verbatim>\<open>internal/filter/filter.go\<close> and the reader of \<^verbatim>\<open>internal/pipeline/app.go\<close> that applies it between the Zabbix client and
  the metadata refresher.  Compiling a regular expression is the parameter \<open>compile\<close>, which gives what matches.
\<close>

section \<open>The metric filter\<close>

record Filter =
  fi_mode :: string
  fi_patterns :: "(string \<Rightarrow> bool) list"
  fi_hostGroups :: "string list"
  fi_valueTypes :: "string list"

fun compile_all :: "(string \<Rightarrow> go_error + (string \<Rightarrow> bool)) \<Rightarrow> string list \<Rightarrow> go_error + (string \<Rightarrow> bool) list" where
  "compile_all compile [] = Inr []"
| "compile_all compile (p # ps) =
     (case compile p of
        Inl err \<Rightarrow> Inl err
      | Inr re \<Rightarrow> (case compile_all compile ps of Inl err \<Rightarrow> Inl err | Inr res \<Rightarrow> Inr (re # res)))"

definition NewFilter :: "(string \<Rightarrow> go_error + (string \<Rightarrow> bool)) \<Rightarrow> MetricsFilterConfig \<Rightarrow> go_error + Filter" where
  "NewFilter compile cfg =
     (case compile_all compile (fc_Patterns (mf_Filter cfg)) of
        Inl err \<Rightarrow> Inl err
      | Inr patterns \<Rightarrow>
          Inr \<lparr>fi_mode = fc_Mode (mf_Filter cfg), fi_patterns = patterns, fi_hostGroups = mf_HostGroups cfg,
               fi_valueTypes = mf_ValueTypes cfg\<rparr>)"

definition ShouldKeep :: "Filter \<Rightarrow> string \<Rightarrow> bool" where
  "ShouldKeep f key =
     (if fi_patterns f = [] then True
      else
        (let matched = list_ex (\<lambda>pattern. pattern key) (fi_patterns f) in
         if fi_mode f = ''whitelist'' then matched
         else if fi_mode f = ''blacklist'' then \<not> matched
         else True))"

definition ShouldKeepHostGroup :: "Filter \<Rightarrow> string \<Rightarrow> bool" where
  "ShouldKeepHostGroup f groupName = (fi_hostGroups f = [] \<or> list_ex (\<lambda>g. g = groupName) (fi_hostGroups f))"

definition valueTypeMap :: "string \<Rightarrow> string" where
  "valueTypeMap valueType =
     (case map_of [(''0'', ''numeric''), (''1'', ''character''), (''2'', ''log''), (''3'', ''numeric''), (''4'', ''text''), (''5'', ''binary'')]
        valueType of None \<Rightarrow> [] | Some name \<Rightarrow> name)"

definition ShouldKeepValueType :: "Filter \<Rightarrow> string \<Rightarrow> bool" where
  "ShouldKeepValueType f valueType =
     (if fi_valueTypes f = [] then True
      else
        (let normalized = valueTypeMap valueType in
         if normalized = [] then False
         else list_ex (\<lambda>vt. vt = normalized \<or> vt = valueType) (fi_valueTypes f)))"

section \<open>The reader\<close>

definition selectedHostIP :: "Host \<Rightarrow> string" where
  "selectedHostIP host =
     (case find (\<lambda>i. (if_Type i = ''2'' \<or> if_Main i = ''1'') \<and> if_IP i \<noteq> []) (ho_Interfaces host) of
        Some i \<Rightarrow> if_IP i
      | None \<Rightarrow>
     (case find (\<lambda>i. if_IP i \<noteq> []) (ho_Interfaces host) of Some i \<Rightarrow> if_IP i | None \<Rightarrow> []))"

definition isExportableValueType :: "string \<Rightarrow> bool" where
  "isExportableValueType valueType \<longleftrightarrow> valueType = ''0'' \<or> valueType = ''3''"

record AppReader =
  rd_client :: Client
  rd_filter :: Filter
  rd_config :: MetricsFilterConfig

text \<open>What the client is asked: \<open>net n\<close> is what the \<open>n\<close>-th call meets.\<close>

definition reader_hosts :: "(nat \<Rightarrow> Net) \<Rightarrow> AppReader \<Rightarrow> go_error + Host list" where
  "reader_hosts net r =
     (if mf_HostGroups (rd_config r) = [] then GetHosts (net 0) (rd_client r)
      else
        (case GetHostGroups (net 0) (rd_client r) of
           Inl err \<Rightarrow> Inl err
         | Inr groups \<Rightarrow>
             GetHostsByGroupIDs (net 1) (rd_client r)
               (map hg_GroupID (filter (\<lambda>group. ShouldKeepHostGroup (rd_filter r) (hg_Name group)) groups))))"

definition allowed_ip :: "string list \<Rightarrow> string \<Rightarrow> bool" where
  "allowed_ip hostIPs ip \<longleftrightarrow> ip \<noteq> [] \<and> ip \<noteq> ''127.0.0.1'' \<and> (hostIPs = [] \<or> ip \<in> set hostIPs)"

fun select_hosts :: "string list \<Rightarrow> string list \<Rightarrow> Host list \<Rightarrow> Host list" where
  "select_hosts hostIPs seen [] = []"
| "select_hosts hostIPs seen (host # hosts) =
     (let ip = selectedHostIP host in
      if \<not> allowed_ip hostIPs ip \<or> ip \<in> set seen then select_hosts hostIPs seen hosts
      else host # select_hosts hostIPs (ip # seen) hosts)"

definition reader_GetHosts :: "(nat \<Rightarrow> Net) \<Rightarrow> AppReader \<Rightarrow> go_error + Host list" where
  "reader_GetHosts net r =
     (case reader_hosts net r of
        Inl err \<Rightarrow> Inl err
      | Inr hosts \<Rightarrow> Inr (select_hosts (mf_HostIPs (rd_config r)) [] hosts))"

definition reader_GetItemMetadata :: "Net \<Rightarrow> AppReader \<Rightarrow> string list \<Rightarrow> go_error + Item list" where
  "reader_GetItemMetadata net r hostIDs =
     (case GetItemMetadata net (rd_client r) hostIDs of
        Inl err \<Rightarrow> Inl err
      | Inr items \<Rightarrow>
          Inr (filter (\<lambda>item. isExportableValueType (it_ValueType item) \<and> ShouldKeepValueType (rd_filter r) (it_ValueType item)
                 \<and> ShouldKeep (rd_filter r) (it_Key item)) items))"

section \<open>Laws\<close>

lemma select_hosts_spec:
  "subseq (select_hosts ips seen hosts) hosts
   \<and> distinct (map selectedHostIP (select_hosts ips seen hosts))
   \<and> set (map selectedHostIP (select_hosts ips seen hosts)) = {ip \<in> selectedHostIP ` set hosts. allowed_ip ips ip} - set seen
   \<and> (\<forall>h \<in> set (select_hosts ips seen hosts). find (\<lambda>h'. selectedHostIP h' = selectedHostIP h) hosts = Some h)"
proof (induction hosts arbitrary: seen)
  case (Cons host hosts)
  let ?ip = "selectedHostIP host"
  show ?case
  proof (cases "\<not> allowed_ip ips ?ip \<or> ?ip \<in> set seen")
    case True
    note ih = Cons.IH [of seen]
    have "\<forall>h \<in> set (select_hosts ips seen hosts). selectedHostIP h \<noteq> ?ip"
    proof
      fix h
      assume "h \<in> set (select_hosts ips seen hosts)"
      then have "selectedHostIP h \<in> {ip \<in> selectedHostIP ` set hosts. allowed_ip ips ip} - set seen" using ih by (metis imageI set_map)
      then show "selectedHostIP h \<noteq> ?ip" using True by auto
    qed
    then show ?thesis using ih True by (auto simp: Let_def)
  next
    case False
    note ih = Cons.IH [of "?ip # seen"]
    have "\<forall>h \<in> set (select_hosts ips (?ip # seen) hosts). selectedHostIP h \<noteq> ?ip"
    proof
      fix h
      assume "h \<in> set (select_hosts ips (?ip # seen) hosts)"
      then have "selectedHostIP h \<in> {ip \<in> selectedHostIP ` set hosts. allowed_ip ips ip} - set (?ip # seen)" using ih by (metis imageI set_map)
      then show "selectedHostIP h \<noteq> ?ip" by simp
    qed
    then show ?thesis using ih False by (auto simp: Let_def)
  qed
qed simp

text \<open>The filter and the builder choose the same address for a host that has agent interfaces only.\<close>

lemma selected_ip_agent:
  assumes "list_all (\<lambda>i. if_Type i = ''1'') ifs"
  shows "selectHostIP ifs = selectedHostIP (h\<lparr>ho_Interfaces := ifs\<rparr>)"
proof -
  have "find (\<lambda>i. (if_Type i = ''2'' \<or> if_Main i = ''1'') \<and> if_IP i \<noteq> []) ifs = find (\<lambda>i. if_Main i = ''1'' \<and> if_IP i \<noteq> []) ifs"
    using assms by (induction ifs) auto
  moreover have "find (\<lambda>i. if_Main i = ''1'' \<and> if_Type i = ''1'' \<and> if_IP i \<noteq> []) ifs = find (\<lambda>i. if_Main i = ''1'' \<and> if_IP i \<noteq> []) ifs"
    "find (\<lambda>i. if_Type i = ''1'' \<and> if_IP i \<noteq> []) ifs = find (\<lambda>i. if_IP i \<noteq> []) ifs"
    using assms by (induction ifs; auto)+
  ultimately show ?thesis by (simp add: selectHostIP_def selectedHostIP_def split: option.splits)
qed

end
