(* ===== verification/App_Properties.thy ===== *)
theory App_Properties
  imports App_Reader Client_Properties Scrape_Exporter
begin

text \<open>
  Which hosts and items the filtered reader hands to the metadata refresher.
\<close>

definition agent_only :: "Host \<Rightarrow> bool" where
  "agent_only h \<longleftrightarrow> list_all (\<lambda>i. if_Type i = ''1'') (ho_Interfaces h)"

lemma agent_only_ip: "agent_only h \<Longrightarrow> hm_HostIP (host_metadata lib b t h) = selectedHostIP h"
  using selected_ip_agent [of "ho_Interfaces h" h] by (simp add: agent_only_def host_metadata_def Let_def)

text \<open>C24: The reader keeps, of the hosts the client returned and in their order, the first host of every allowed address: no two
  hosts it keeps share an address, none has an empty, a loopback or a disallowed one, and every allowed address of the answer
  is kept.  Where the hosts have agent interfaces only, these are the addresses their series carry.\<close>

theorem reader_selects_hosts:
  assumes "reader_GetHosts net r = Inr kept"
  shows "\<exists>hosts. reader_hosts net r = Inr hosts \<and> subseq kept hosts \<and> distinct (map selectedHostIP kept)
    \<and> set (map selectedHostIP kept) = {ip \<in> selectedHostIP ` set hosts. allowed_ip (mf_HostIPs (rd_config r)) ip}
    \<and> list_all (\<lambda>h. find (\<lambda>h'. selectedHostIP h' = selectedHostIP h) hosts = Some h) kept
    \<and> (list_all agent_only kept \<longrightarrow> map (\<lambda>h. hm_HostIP (host_metadata lib b t h)) kept = map selectedHostIP kept)"
proof -
  obtain hosts where hosts: "reader_hosts net r = Inr hosts" "kept = select_hosts (mf_HostIPs (rd_config r)) [] hosts"
    using assms by (auto simp: reader_GetHosts_def split: sum.splits)
  have "list_all agent_only kept \<Longrightarrow> map (\<lambda>h. hm_HostIP (host_metadata lib b t h)) kept = map selectedHostIP kept"
    by (auto simp: list_all_iff agent_only_ip)
  then show ?thesis using hosts select_hosts_spec [of "mf_HostIPs (rd_config r)" "[]" hosts] by (auto simp: list_all_iff)
qed

definition ex_agent :: "string \<Rightarrow> string \<Rightarrow> Host" where
  "ex_agent name ip = \<lparr>ho_HostID = name, ho_Host = name, ho_Name = name,
     ho_Interfaces = [zero_Interface\<lparr>if_IP := ip, if_Main := ''1'', if_Type := ''1''\<rparr>], ho_Inventory = JNull\<rparr>"

definition ex_hosts :: "Host list" where
  "ex_hosts = [ex_agent ''a'' ''10.0.0.1'', ex_agent ''b'' ''127.0.0.1'', ex_agent ''c'' ''10.0.0.1'', ex_agent ''d'' ''10.0.0.2'']"

definition ex_reader :: AppReader where
  "ex_reader = \<lparr>rd_client = NewClient ''url'' ''u'' ''p'',
     rd_filter = \<lparr>fi_mode = ''whitelist'', fi_patterns = [], fi_hostGroups = [], fi_valueTypes = []\<rparr>,
     rd_config = \<lparr>mf_Filter = \<lparr>fc_Mode = ''whitelist'', fc_Patterns = []\<rparr>, mf_HostGroups = [], mf_HostIPs = [], mf_ValueTypes = []\<rparr>\<rparr>"

lemma ex_reader_run:
  "reader_GetHosts (\<lambda>i. ex_net (JArray (map encode_Host ex_hosts))) ex_reader = Inr [ex_agent ''a'' ''10.0.0.1'', ex_agent ''d'' ''10.0.0.2'']"
  by code_simp

theorem reader_selects_hosts_witness:
  "\<exists>hosts. reader_hosts (\<lambda>i. ex_net (JArray (map encode_Host ex_hosts))) ex_reader = Inr hosts
    \<and> subseq [ex_agent ''a'' ''10.0.0.1'', ex_agent ''d'' ''10.0.0.2''] hosts"
  using reader_selects_hosts [OF ex_reader_run] by blast

definition ex_snmp_host :: Host where
  "ex_snmp_host = (ex_agent ''s'' ''192.0.2.9'')\<lparr>ho_Interfaces := zero_Interface\<lparr>if_IP := ''10.0.0.1'', if_Main := ''1'', if_Type := ''2''\<rparr>
     # ho_Interfaces (ex_agent ''s'' ''192.0.2.9'')\<rparr>"

text \<open>The allowed addresses bind the reader's choice of an address, not the one that is exported: a host whose first main interface is
  of another type than agent passes for its address there, while its series carries the address of its agent interface.\<close>

theorem address_escapes_filter:
  "select_hosts [''10.0.0.1''] [] [ex_snmp_host] = [ex_snmp_host]
   \<and> hm_HostIP (host_metadata lib b t ex_snmp_host) = ''192.0.2.9''"
  by (simp add: ex_snmp_host_def ex_agent_def zero_Interface_def allowed_ip_def selectedHostIP_def host_metadata_def selectHostIP_def Let_def)

text \<open>C25: With host groups configured, an answer whose result is \<^verbatim>\<open>null\<close> counts as an inventory without hosts, and the refresh that gets
  it publishes a snapshot without hosts; without host groups the same answer is an error and the snapshot stays.\<close>

theorem null_reply_empties_inventory:
  assumes "nt_exchange net' = (\<lambda>req. HTTPResponse 200 body)" "unmarshal_response (nt_codec net') body
      = Some \<lparr>ar_JSONRPC = ''2.0'', ar_Result = JNull, ar_Error = None\<rparr>"
    and reply: "fetches workers [] replies (getItemBatches [])"
  shows "if mf_HostGroups (rd_config r) = []
    then \<exists>result err. Refresh lib cfg now (reader_GetHosts (\<lambda>i. net') r) getItemBatches store = (store, result, Some err)
    else \<exists>store' result. Refresh lib cfg now (reader_GetHosts (\<lambda>i. net') r) getItemBatches store = (store', result, None)
           \<and> sn_Hosts store' = [] \<and> sn_Items store' = []"
proof -
  have null: "snd (doRequest net' c verb arg auth) = Inr None" for c verb arg auth
    using assms(1,2) by (simp add: doRequest_def raw_result_def)
  show ?thesis
  proof (cases "mf_HostGroups (rd_config r) = []")
    case True
    then have "reader_GetHosts (\<lambda>i. net') r = Inl (NoResultError ''host.get'')"
      by (simp add: reader_GetHosts_def reader_hosts_def GetHosts_def null)
    then show ?thesis using True by (simp add: Refresh_def)
  next
    case False
    then have "reader_GetHosts (\<lambda>i. net') r = Inr []"
      by (simp add: reader_GetHosts_def reader_hosts_def GetHostGroups_def GetHostsByGroupIDs_def null)
    moreover have "getItemBatches [] = (0, Inr [])" using reply by (simp add: fetches_def)
    ultimately show ?thesis using False
      by (simp add: Refresh_def host_batches_def splitStrings_def Let_def build_metadata_def ApplySnapshot_def cloneSnapshot_def
          finish_snapshot_def emptyCandidate_def)
  qed
qed

definition ex_null_net :: Net where
  "ex_null_net = (ex_net (JArray []))\<lparr>nt_codec := \<lparr>cd_parse = (\<lambda>s. Some (JObject [(''jsonrpc'', JString ''2.0''), (''result'', JNull)])),
     cd_render = (\<lambda>v. []), cd_float = Some, cd_fold = ascii_lower\<rparr>\<rparr>"

definition ex_group_reader :: AppReader where
  "ex_group_reader = ex_reader\<lparr>rd_config := (rd_config ex_reader)\<lparr>mf_HostGroups := [''Linux servers'']\<rparr>\<rparr>"

theorem null_reply_empties_inventory_witness:
  "case Refresh \<lparr>lib_decode = (\<lambda>s. None), lib_inventory = (\<lambda>m. None), lib_number = (\<lambda>s. s), lib_lower = (\<lambda>s. s)\<rparr> DefaultRefresherConfig 0
      (reader_GetHosts (\<lambda>i. ex_null_net) ex_group_reader) (\<lambda>batches. (0, Inr [])) ex_scrape_snapshot of
     (store', result, err) \<Rightarrow> err = None \<and> sn_Items store' = [] \<and> sn_Items ex_scrape_snapshot \<noteq> []"
proof -
  have "nt_exchange ex_null_net = (\<lambda>req. HTTPResponse 200 ''body'')" by (simp add: ex_null_net_def ex_net_def)
  moreover have "unmarshal_response (nt_codec ex_null_net) ''body'' = Some \<lparr>ar_JSONRPC = ''2.0'', ar_Result = JNull, ar_Error = None\<rparr>"
    by (simp add: ex_null_net_def unmarshal_response_def decode_struct_def APIResponse_fields_def find_field_def field_defs)
  moreover have "fetches 2 [] (\<lambda>i. Inr []) ((\<lambda>batches. (0, Inr [])) [])" by (simp add: fetches_def)
  ultimately show ?thesis
    using null_reply_empties_inventory [of ex_null_net "''body''" 2 "\<lambda>i. Inr []" "\<lambda>batches. (0, Inr [])" ex_group_reader
      "\<lparr>lib_decode = (\<lambda>s. None), lib_inventory = (\<lambda>m. None), lib_number = (\<lambda>s. s), lib_lower = (\<lambda>s. s)\<rparr>" DefaultRefresherConfig 0 ex_scrape_snapshot]
    by (auto simp: ex_group_reader_def ex_reader_def) (simp add: ex_scrape_snapshot_def)
qed

end
