(* ===== verification/Pipeline_Life.thy ===== *)
theory Pipeline_Life
  imports Go_Errors Metadata_Types
begin

text \<open>
  The lifecycle of \<^verbatim>\<open>internal/pipeline/scheduled.go\<close>: \<^verbatim>\<open>Start\<close>, \<^verbatim>\<open>Stop\<close>, \<^verbatim>\<open>abortStart\<close>, \<^verbatim>\<open>finishStop\<close> and \<^verbatim>\<open>stopStarted\<close>, and
  the readiness check of \<^verbatim>\<open>cmd/server/main.go\<close>.  \<^verbatim>\<open>Start\<close> and the stopping goroutine each stand at a point of their code;
  every step of one may fall between two steps of the other.  \<open>lf_events\<close> is what the pipeline's observer is told.
\<close>

datatype unit_name = UMetadata | UScheduler | UExpiry | UPublisher

datatype life_event = StartedUnit unit_name | StoppedUnit unit_name

text \<open>Where \<^verbatim>\<open>Start\<close> stands: not running, in the first refresh, behind a started unit, before one, or on its way out.\<close>

datatype start_at = Away | Refreshing | Behind unit_name | Before unit_name | Leaving "go_error option"

text \<open>Where the stopping goroutine stands: not created, waiting for \<^verbatim>\<open>startDone\<close>, about to stop a unit, after the last, done.\<close>

datatype stop_at = NoStop | Awaiting | StopUnit unit_name | StopLast | StopOver

record Life =
  lf_hasPublisher :: bool
  lf_starting :: bool
  lf_started :: bool
  lf_stopping :: bool
  lf_startDone :: "bool option"
  lf_stopDone :: "bool option"
  lf_stopErr :: "go_error option"
  lf_rootErr :: "go_error option"
  lf_metadata :: bool
  lf_scheduler :: bool
  lf_running :: bool
  lf_expiry :: bool
  lf_publish :: bool
  lf_start :: start_at
  lf_stop :: stop_at
  lf_events :: "life_event list"

definition life_init :: "bool \<Rightarrow> Life" where
  "life_init hasPublisher =
     \<lparr>lf_hasPublisher = hasPublisher, lf_starting = False, lf_started = False, lf_stopping = False, lf_startDone = None,
      lf_stopDone = None, lf_stopErr = None, lf_rootErr = None, lf_metadata = False, lf_scheduler = False, lf_running = False,
      lf_expiry = False, lf_publish = False, lf_start = Away, lf_stop = NoStop, lf_events = []\<rparr>"

definition note_event :: "life_event \<Rightarrow> Life \<Rightarrow> Life" where
  "note_event e y = y\<lparr>lf_events := lf_events y @ [e]\<rparr>"

text \<open>\<^verbatim>\<open>Cancel\<close> keeps the first error of a context.\<close>

definition cancel_root :: "Life \<Rightarrow> Life" where
  "cancel_root y = y\<lparr>lf_rootErr := (case lf_rootErr y of None \<Rightarrow> Some ContextCanceled | Some err \<Rightarrow> Some err)\<rparr>"

section \<open>Starting\<close>

text \<open>\<^verbatim>\<open>Start\<close> up to the refresh: the new state and the error it returns at once, or \<open>None\<close> and \<open>True\<close> when it goes on.
  \<open>parentErr\<close> is the error of the caller's context.\<close>

definition start_pipeline :: "go_error option option \<Rightarrow> Life \<Rightarrow> Life \<times> bool \<times> go_error option" where
  "start_pipeline parentErr y =
     (case parentErr of
        None \<Rightarrow> (y, False, Some (ArgumentError ''scheduled pipeline context is required''))
      | Some err \<Rightarrow>
          (if lf_started y then (y, False, None)
           else if lf_starting y then (y, False, Some (ArgumentError ''scheduled pipeline is already starting''))
           else if lf_stopping y then (y, False, Some (ArgumentError ''scheduled pipeline cannot restart after stop''))
           else (y\<lparr>lf_starting := True, lf_startDone := Some False, lf_rootErr := err, lf_start := Refreshing\<rparr>, True, None)))"

text \<open>\<^verbatim>\<open>abortStart\<close>: the stopping goroutine is created unless a caller of \<^verbatim>\<open>Stop\<close> did.\<close>

definition abortStart :: "go_error \<Rightarrow> Life \<Rightarrow> Life" where
  "abortStart err y =
     (let y = (if lf_stopping y then y else cancel_root (y\<lparr>lf_stopping := True, lf_stopDone := Some False, lf_stop := Awaiting\<rparr>))
      in y\<lparr>lf_start := Leaving (Some err)\<rparr>)"

text \<open>The check of the root context behind every unit, and what comes after it.\<close>

fun after_unit :: "unit_name \<Rightarrow> start_at" where
  "after_unit UMetadata = Before UScheduler"
| "after_unit UScheduler = Before UExpiry"
| "after_unit UExpiry = Before UPublisher"
| "after_unit UPublisher = Leaving None"

definition check_root :: "unit_name \<Rightarrow> Life \<Rightarrow> Life" where
  "check_root u y =
     (case lf_rootErr y of
        Some err \<Rightarrow> abortStart (WrappedError ''start scheduled pipeline'' err) y
      | None \<Rightarrow> y\<lparr>lf_start := after_unit u\<rparr>)"

fun launch :: "go_error option \<Rightarrow> unit_name \<Rightarrow> Life \<Rightarrow> Life" where
  "launch err UMetadata y = note_event (StartedUnit UMetadata) (y\<lparr>lf_metadata := True, lf_start := Behind UMetadata\<rparr>)"
| "launch err UScheduler y =
     note_event (StartedUnit UScheduler) (y\<lparr>lf_scheduler := True, lf_running := True, lf_start := Behind UScheduler\<rparr>)"
| "launch err UExpiry y = note_event (StartedUnit UExpiry) (y\<lparr>lf_expiry := True, lf_start := Behind UExpiry\<rparr>)"
| "launch err UPublisher y =
     (if \<not> lf_hasPublisher y then y\<lparr>lf_start := Behind UPublisher\<rparr>
      else case err of
        Some err \<Rightarrow> abortStart (WrappedError ''start streaming publisher'' err) y
      | None \<Rightarrow> note_event (StartedUnit UPublisher) (y\<lparr>lf_publish := True, lf_start := Behind UPublisher\<rparr>))"

text \<open>One step of a running \<^verbatim>\<open>Start\<close>: \<open>err\<close> is the error of the call it makes there (the first refresh, the publisher's start).\<close>

definition start_step :: "go_error option \<Rightarrow> Life \<Rightarrow> Life" where
  "start_step err y =
     (case lf_start y of
        Away \<Rightarrow> y
      | Refreshing \<Rightarrow>
          (case err of
             Some err \<Rightarrow> (cancel_root y)\<lparr>lf_start := Leaving (Some (WrappedError ''initial metadata refresh'' err))\<rparr>
           | None \<Rightarrow> launch None UMetadata y)
      | Behind u \<Rightarrow> check_root u y
      | Before u \<Rightarrow> launch err u y
      | Leaving startErr \<Rightarrow>
          y\<lparr>lf_starting := False, lf_started := (lf_started y \<or> startErr = None \<and> \<not> lf_stopping y),
            lf_startDone := Some True, lf_start := Away\<rparr>)"

section \<open>Stopping\<close>

definition stop_pipeline :: "Life \<Rightarrow> Life" where
  "stop_pipeline y =
     (if lf_stopping y then y
      else
        (let y = y\<lparr>lf_stopping := True, lf_stopDone := Some False, lf_stop := Awaiting\<rparr>
         in if lf_starting y then cancel_root y else y))"

text \<open>One step of the stopping goroutine.  \<open>drain\<close> and \<open>halt\<close> are the errors of \<^verbatim>\<open>WaitIdle\<close> and of \<^verbatim>\<open>StopContext\<close>;
  waiting for a goroutine under the background context ends without one.\<close>

fun shut :: "unit_name \<Rightarrow> Life \<Rightarrow> Life" where
  "shut UPublisher y = (if lf_publish y then note_event (StoppedUnit UPublisher) y else y)\<lparr>lf_stop := StopUnit UExpiry\<rparr>"
| "shut UExpiry y = (if lf_expiry y then note_event (StoppedUnit UExpiry) y else y)\<lparr>lf_stop := StopUnit UScheduler\<rparr>"
| "shut UScheduler y =
     (if lf_scheduler y then note_event (StoppedUnit UScheduler) (y\<lparr>lf_running := False\<rparr>) else y)\<lparr>lf_stop := StopUnit UMetadata\<rparr>"
| "shut UMetadata y = (if lf_metadata y then note_event (StoppedUnit UMetadata) y else y)\<lparr>lf_stop := StopLast\<rparr>"

fun shut_errors :: "go_error option \<Rightarrow> go_error option \<Rightarrow> unit_name \<Rightarrow> Life \<Rightarrow> go_error option list" where
  "shut_errors drain halt UPublisher y = (if lf_publish y then [None, drain, halt] else [])"
| "shut_errors drain halt UExpiry y = (if lf_expiry y then [None] else [])"
| "shut_errors drain halt UScheduler y = (if lf_scheduler y then [halt] else [])"
| "shut_errors drain halt UMetadata y = (if lf_metadata y then [None] else [])"

definition stop_step :: "go_error option \<Rightarrow> go_error option \<Rightarrow> Life \<Rightarrow> Life" where
  "stop_step drain halt y =
     (case lf_stop y of
        Awaiting \<Rightarrow> (if lf_startDone y = Some False then y else y\<lparr>lf_stop := StopUnit UPublisher\<rparr>)
      | StopUnit u \<Rightarrow> (shut u y)\<lparr>lf_stopErr := fold (\<lambda>e err. errors_join [err, e]) (shut_errors drain halt u y) (lf_stopErr y)\<rparr>
      | StopLast \<Rightarrow> (if lf_startDone y \<noteq> None then cancel_root y else y)\<lparr>lf_started := False, lf_stopDone := Some True, lf_stop := StopOver\<rparr>
      | _ \<Rightarrow> y)"

text \<open>What a caller of \<^verbatim>\<open>Stop\<close> gets once the goroutine is done; before, the end of its bounded context.\<close>

definition stop_answer :: "Life \<Rightarrow> go_error option option" where
  "stop_answer y = (if lf_stopDone y = Some True then Some (lf_stopErr y) else None)"

section \<open>Readiness\<close>

text \<open>\<open>snapshot\<close> is the store's; \<open>message\<close> is an error's text.\<close>

definition Ready :: "MetadataSnapshot \<Rightarrow> Life \<Rightarrow> go_error option" where
  "Ready snapshot y =
     (if \<not> lf_started y \<or> lf_stopping y then Some (ArgumentError ''scheduled pipeline is not running'')
      else if sn_Version snapshot = 0 \<or> time_IsZero (sn_CreatedAt snapshot) then Some (ArgumentError ''metadata snapshot is not ready'')
      else if \<not> lf_scheduler y \<or> \<not> lf_running y then Some (ArgumentError ''scheduler is not running'')
      else None)"

definition serve_ready :: "(go_error \<Rightarrow> string) \<Rightarrow> bool \<Rightarrow> string \<Rightarrow> go_error option \<Rightarrow> int \<times> string" where
  "serve_ready message shuttingDown token pipeline =
     (if shuttingDown then (503, ''Not ready: shutting down'')
      else if token = [] then (503, ''Not ready: no token'')
      else case pipeline of Some err \<Rightarrow> (503, ''Not ready: '' @ message err) | None \<Rightarrow> (200, ''Ready''))"

section \<open>Runs\<close>

inductive life_step :: "Life \<Rightarrow> Life \<Rightarrow> bool" where
  CallStart: "start_pipeline parentErr y = (y', goes, err) \<Longrightarrow> life_step y y'"
| InStart: "lf_start y \<noteq> Away \<Longrightarrow> life_step y (start_step err y)"
| CallStop: "life_step y (stop_pipeline y)"
| InStop: "life_step y (stop_step drain halt y)"
| ParentDone: "lf_startDone y \<noteq> None \<Longrightarrow> lf_rootErr y = None \<Longrightarrow> life_step y (y\<lparr>lf_rootErr := Some err\<rparr>)"
| SchedulerEnded: "lf_rootErr y \<noteq> None \<Longrightarrow> life_step y (y\<lparr>lf_running := False\<rparr>)"

inductive life_reachable :: "bool \<Rightarrow> Life \<Rightarrow> bool" for hasPublisher where
  fresh: "life_reachable hasPublisher (life_init hasPublisher)"
| onward: "life_reachable hasPublisher y \<Longrightarrow> life_step y y' \<Longrightarrow> life_reachable hasPublisher y'"

inductive_cases life_stepE: "life_step y y'"

section \<open>The invariant\<close>

text \<open>The units \<^verbatim>\<open>Start\<close> has started, in its order, and those the stopping goroutine has passed, in its order.\<close>

fun owns :: "Life \<Rightarrow> unit_name \<Rightarrow> bool" where
  "owns y UMetadata = lf_metadata y"
| "owns y UScheduler = lf_scheduler y"
| "owns y UExpiry = lf_expiry y"
| "owns y UPublisher = lf_publish y"

fun passed :: "stop_at \<Rightarrow> unit_name list" where
  "passed NoStop = []"
| "passed Awaiting = []"
| "passed (StopUnit UPublisher) = []"
| "passed (StopUnit UExpiry) = [UPublisher]"
| "passed (StopUnit UScheduler) = [UPublisher, UExpiry]"
| "passed (StopUnit UMetadata) = [UPublisher, UExpiry, UScheduler]"
| "passed StopLast = [UPublisher, UExpiry, UScheduler, UMetadata]"
| "passed StopOver = [UPublisher, UExpiry, UScheduler, UMetadata]"

definition up_units :: "Life \<Rightarrow> unit_name list" where
  "up_units y = filter (owns y) [UMetadata, UScheduler, UExpiry, UPublisher]"

definition down_units :: "Life \<Rightarrow> unit_name list" where
  "down_units y = filter (owns y) (passed (lf_stop y))"

definition all_units :: "bool \<Rightarrow> unit_name list" where
  "all_units hasPublisher = [UMetadata, UScheduler, UExpiry] @ (if hasPublisher then [UPublisher] else [])"

text \<open>The units that are up at a point of \<^verbatim>\<open>Start\<close>, as far as the point tells.\<close>

fun up_at :: "start_at \<Rightarrow> nat option" where
  "up_at Away = None"
| "up_at Refreshing = Some 0"
| "up_at (Behind UMetadata) = Some 1"
| "up_at (Before UScheduler) = Some 1"
| "up_at (Behind UScheduler) = Some 2"
| "up_at (Before UExpiry) = Some 2"
| "up_at (Behind UExpiry) = Some 3"
| "up_at (Before UPublisher) = Some 3"
| "up_at (Behind UPublisher) = Some 4"
| "up_at (Before UMetadata) = Some 0"
| "up_at (Leaving None) = Some 4"
| "up_at (Leaving (Some err)) = None"

definition owned_upto :: "nat \<Rightarrow> Life \<Rightarrow> bool" where
  "owned_upto n y \<longleftrightarrow> (lf_metadata y \<longleftrightarrow> 1 \<le> n) \<and> (lf_scheduler y \<longleftrightarrow> 2 \<le> n) \<and> (lf_expiry y \<longleftrightarrow> 3 \<le> n)
     \<and> (lf_publish y \<longleftrightarrow> 4 \<le> n \<and> lf_hasPublisher y)"

definition events_ok :: "Life \<Rightarrow> bool" where
  "events_ok y \<longleftrightarrow> lf_events y = map StartedUnit (up_units y) @ map StoppedUnit (down_units y)"

definition units_ok :: "bool \<Rightarrow> Life \<Rightarrow> bool" where
  "units_ok hasPublisher y \<longleftrightarrow> lf_hasPublisher y = hasPublisher
     \<and> (lf_publish y \<longrightarrow> lf_expiry y \<and> hasPublisher) \<and> (lf_expiry y \<longrightarrow> lf_scheduler y) \<and> (lf_scheduler y \<longrightarrow> lf_metadata y)
     \<and> (case up_at (lf_start y) of None \<Rightarrow> True | Some n \<Rightarrow> owned_upto n y)
     \<and> (lf_started y \<longrightarrow> owned_upto 4 y)
     \<and> (\<not> lf_started y \<and> \<not> lf_stopping y \<and> up_at (lf_start y) = None \<longrightarrow> owned_upto 0 y)"

definition control_ok :: "Life \<Rightarrow> bool" where
  "control_ok y \<longleftrightarrow>
     (lf_starting y \<longleftrightarrow> lf_start y \<noteq> Away) \<and> (lf_starting y \<longrightarrow> \<not> lf_started y)
     \<and> (lf_starting y \<longleftrightarrow> lf_startDone y = Some False)
     \<and> (lf_stopping y \<longleftrightarrow> lf_stop y \<noteq> NoStop)
     \<and> (lf_starting y \<longrightarrow> lf_stop y = NoStop \<or> lf_stop y = Awaiting)
     \<and> lf_stopDone y = (case lf_stop y of NoStop \<Rightarrow> None | StopOver \<Rightarrow> Some True | _ \<Rightarrow> Some False)"

definition life_inv :: "bool \<Rightarrow> Life \<Rightarrow> bool" where
  "life_inv hasPublisher y \<longleftrightarrow> events_ok y \<and> units_ok hasPublisher y \<and> control_ok y"

lemma owns_frame [simp]:
  "owns (y\<lparr>lf_starting := a\<rparr>) = owns y" "owns (y\<lparr>lf_started := a\<rparr>) = owns y" "owns (y\<lparr>lf_stopping := a\<rparr>) = owns y"
  "owns (y\<lparr>lf_startDone := b\<rparr>) = owns y" "owns (y\<lparr>lf_stopDone := b\<rparr>) = owns y" "owns (y\<lparr>lf_stopErr := e\<rparr>) = owns y"
  "owns (y\<lparr>lf_rootErr := e\<rparr>) = owns y" "owns (y\<lparr>lf_running := a\<rparr>) = owns y" "owns (y\<lparr>lf_start := p\<rparr>) = owns y"
  "owns (y\<lparr>lf_stop := q\<rparr>) = owns y" "owns (y\<lparr>lf_events := l\<rparr>) = owns y"
  by (rule ext, case_tac x; simp)+

lemma units_frame [simp]:
  "units_ok h (y\<lparr>lf_startDone := b\<rparr>) = units_ok h y" "units_ok h (y\<lparr>lf_stopDone := b\<rparr>) = units_ok h y"
  "units_ok h (y\<lparr>lf_stopErr := e\<rparr>) = units_ok h y" "units_ok h (y\<lparr>lf_rootErr := e\<rparr>) = units_ok h y"
  "units_ok h (y\<lparr>lf_running := a\<rparr>) = units_ok h y" "units_ok h (y\<lparr>lf_starting := a\<rparr>) = units_ok h y"
  "units_ok h (y\<lparr>lf_stop := q\<rparr>) = units_ok h y" "units_ok h (y\<lparr>lf_events := l\<rparr>) = units_ok h y"
  by (simp_all add: units_ok_def owned_upto_def split: option.split)

lemma events_frame [simp]:
  "events_ok (y\<lparr>lf_starting := a\<rparr>) = events_ok y" "events_ok (y\<lparr>lf_started := a\<rparr>) = events_ok y"
  "events_ok (y\<lparr>lf_stopping := a\<rparr>) = events_ok y" "events_ok (y\<lparr>lf_startDone := b\<rparr>) = events_ok y"
  "events_ok (y\<lparr>lf_stopDone := b\<rparr>) = events_ok y" "events_ok (y\<lparr>lf_stopErr := e\<rparr>) = events_ok y"
  "events_ok (y\<lparr>lf_rootErr := e\<rparr>) = events_ok y" "events_ok (y\<lparr>lf_running := a\<rparr>) = events_ok y"
  "events_ok (y\<lparr>lf_start := p\<rparr>) = events_ok y"
  by (simp_all add: events_ok_def up_units_def down_units_def)

lemma events_stop: "passed q = passed (lf_stop y) \<Longrightarrow> events_ok (y\<lparr>lf_stop := q\<rparr>) = events_ok y"
  by (simp add: events_ok_def up_units_def down_units_def)

lemma control_frame [simp]:
  "control_ok (y\<lparr>lf_stopErr := e\<rparr>) = control_ok y" "control_ok (y\<lparr>lf_rootErr := e\<rparr>) = control_ok y"
  "control_ok (y\<lparr>lf_running := a\<rparr>) = control_ok y" "control_ok (y\<lparr>lf_events := l\<rparr>) = control_ok y"
  by (simp_all add: control_ok_def)

lemmas life_defs = life_inv_def cancel_root_def events_stop

lemma start_pipeline_inv:
  assumes "life_inv h y" "start_pipeline parentErr y = (y', goes, err)"
  shows "life_inv h y'"
proof (cases "y' = y")
  case False
  then obtain e where "\<not> lf_started y" "\<not> lf_starting y" "\<not> lf_stopping y"
    "y' = y\<lparr>lf_starting := True, lf_startDone := Some False, lf_rootErr := e, lf_start := Refreshing\<rparr>"
    using assms(2) by (auto simp: start_pipeline_def split: option.splits if_splits)
  then show ?thesis using assms(1) by (auto simp: life_defs units_ok_def control_ok_def owned_upto_def)
qed (use assms in simp)

lemma abortStart_inv:
  assumes "life_inv h y" "lf_starting y"
  shows "life_inv h (abortStart err y)"
proof -
  have c: "control_ok (abortStart err y)"
    using assms by (cases "lf_stop y") (auto simp: abortStart_def life_defs Let_def control_ok_def)
  have "lf_stopping y \<or> lf_stop y = NoStop" using assms by (auto simp: life_inv_def control_ok_def)
  then have e: "events_ok (abortStart err y)" using assms by (auto simp: abortStart_def life_defs Let_def)
  have "units_ok h (abortStart err y)"
    using assms by (auto simp: abortStart_def life_defs Let_def units_ok_def control_ok_def owned_upto_def)
  then show ?thesis using c e by (simp add: life_inv_def)
qed

lemma launch_inv:
  assumes inv: "life_inv h y" and at: "lf_start y = Before u \<or> lf_start y = Refreshing \<and> u = UMetadata"
  shows "life_inv h (launch err u y)"
proof -
  have s: "lf_starting y" "passed (lf_stop y) = []" using inv at by (cases "lf_stop y"; auto simp: life_inv_def control_ok_def)+
  have flags: "units_ok h y" "up_at (lf_start y) = Some (case u of UMetadata \<Rightarrow> 0 | UScheduler \<Rightarrow> 1 | UExpiry \<Rightarrow> 2 | UPublisher \<Rightarrow> 3)"
    using inv at by (cases u; auto simp: life_inv_def)+
  show ?thesis
  proof (cases "u = UPublisher \<and> lf_hasPublisher y \<and> err \<noteq> None")
    case True
    then show ?thesis using abortStart_inv [OF inv s(1)] by auto
  next
    case False
    then show ?thesis using inv s at flags
      by (cases u)
        (auto simp: life_defs note_event_def control_ok_def units_ok_def owned_upto_def events_ok_def up_units_def down_units_def)
  qed
qed

lemma start_step_inv:
  assumes inv: "life_inv h y"
  shows "life_inv h (start_step err y)"
proof (cases "lf_start y")
  case (Behind u)
  then have s: "lf_starting y" using inv by (simp add: life_inv_def control_ok_def)
  show ?thesis
  proof (cases "lf_rootErr y")
    case None
    then show ?thesis using inv Behind s
      by (cases u) (auto simp: start_step_def check_root_def life_defs control_ok_def units_ok_def owned_upto_def)
  next
    case (Some e)
    then show ?thesis using abortStart_inv [OF inv s] Behind by (simp add: start_step_def check_root_def)
  qed
next
  case Refreshing
  show ?thesis
  proof (cases err)
    case None
    then show ?thesis using launch_inv [OF inv, of UMetadata None] Refreshing by (simp add: start_step_def)
  next
    case (Some e)
    then show ?thesis using inv Refreshing by (auto simp: start_step_def life_defs control_ok_def units_ok_def owned_upto_def)
  qed
next
  case (Leaving e)
  then show ?thesis using inv by (cases e) (auto simp: start_step_def life_defs control_ok_def units_ok_def owned_upto_def)
next
  case (Before u)
  then show ?thesis using launch_inv [OF inv, of u err] by (simp add: start_step_def)
qed (use inv in \<open>simp add: start_step_def\<close>)

lemma stop_pipeline_inv:
  assumes inv: "life_inv h y"
  shows "life_inv h (stop_pipeline y)"
proof (cases "lf_stopping y")
  case False
  then have "lf_stop y = NoStop" using inv by (simp add: life_inv_def control_ok_def)
  then show ?thesis using inv False
    by (auto simp: stop_pipeline_def life_defs Let_def control_ok_def units_ok_def owned_upto_def split: option.splits)
qed (use inv in \<open>simp add: stop_pipeline_def\<close>)

lemma shut_inv:
  assumes inv: "life_inv h y" and at: "lf_stop y = StopUnit u"
  shows "life_inv h (shut u y)"
  using assms
  by (cases u)
    (auto simp: life_inv_def note_event_def control_ok_def units_ok_def owned_upto_def events_ok_def up_units_def down_units_def)

lemma stop_step_inv:
  assumes inv: "life_inv h y"
  shows "life_inv h (stop_step drain halt y)"
proof (cases "lf_stop y")
  case (StopUnit u)
  have "life_inv h (z\<lparr>lf_stopErr := e\<rparr>) = life_inv h z" for z e
    by (simp add: life_inv_def)
  then show ?thesis using shut_inv [OF inv StopUnit] by (simp add: stop_step_def StopUnit)
next
  case StopLast
  then show ?thesis using inv by (auto simp: stop_step_def life_defs control_ok_def units_ok_def owned_upto_def)
qed (use inv in \<open>auto simp: stop_step_def life_defs control_ok_def\<close>)

lemma life_reachable_inv: "life_reachable h y \<Longrightarrow> life_inv h y"
proof (induction rule: life_reachable.induct)
  case fresh
  show ?case
    by (simp add: life_init_def life_inv_def control_ok_def units_ok_def owned_upto_def events_ok_def up_units_def down_units_def)
next
  case (onward y y')
  have frame: "life_inv h (y\<lparr>lf_rootErr := e\<rparr>)" "life_inv h (y\<lparr>lf_running := b\<rparr>)" for e b
    using onward.IH by (simp_all add: life_inv_def)
  from onward.hyps(2) show ?case
  proof cases
    case (CallStart parentErr goes err)
    then show ?thesis by (rule start_pipeline_inv [OF onward.IH])
  qed (simp_all only: start_step_inv [OF onward.IH] stop_pipeline_inv [OF onward.IH] stop_step_inv [OF onward.IH] frame)
qed

section \<open>A stop that was asked for ends\<close>

text \<open>How many steps \<^verbatim>\<open>Start\<close> and the stopping goroutine have left at most.\<close>

fun start_left :: "start_at \<Rightarrow> nat" where
  "start_left Away = 0"
| "start_left (Leaving err) = 1"
| "start_left (Behind UPublisher) = 2"
| "start_left (Before UPublisher) = 3"
| "start_left (Behind UExpiry) = 4"
| "start_left (Before UExpiry) = 5"
| "start_left (Behind UScheduler) = 6"
| "start_left (Before UScheduler) = 7"
| "start_left (Behind UMetadata) = 8"
| "start_left (Before UMetadata) = 9"
| "start_left Refreshing = 9"

fun stop_left :: "stop_at \<Rightarrow> nat" where
  "stop_left NoStop = 7"
| "stop_left Awaiting = 6"
| "stop_left (StopUnit UPublisher) = 5"
| "stop_left (StopUnit UExpiry) = 4"
| "stop_left (StopUnit UScheduler) = 3"
| "stop_left (StopUnit UMetadata) = 2"
| "stop_left StopLast = 1"
| "stop_left StopOver = 0"

definition work_left :: "Life \<Rightarrow> nat" where
  "work_left y = start_left (lf_start y) + stop_left (lf_stop y)"

lemma launch_left:
  assumes "lf_stopping y"
  shows "start_left (lf_start (launch err u y)) < start_left (Before u)" "lf_stop (launch err u y) = lf_stop y"
    "lf_stopping (launch err u y)"
  using assms by (cases u; auto simp: note_event_def abortStart_def split: option.split)+

lemma check_root_left:
  assumes "lf_stopping y"
  shows "start_left (lf_start (check_root u y)) < start_left (Behind u)" "lf_stop (check_root u y) = lf_stop y"
    "lf_stopping (check_root u y)"
  using assms by (cases u; auto simp: check_root_def abortStart_def split: option.split)+

lemma start_step_left:
  assumes "lf_stopping y" "lf_start y \<noteq> Away"
  shows "work_left (start_step err y) < work_left y \<and> lf_stopping (start_step err y)"
proof (cases "lf_start y")
  case (Behind u)
  then show ?thesis using check_root_left [OF assms(1), of u] by (simp add: start_step_def work_left_def)
next
  case (Before u)
  then show ?thesis using launch_left [OF assms(1), of err u] by (simp add: start_step_def work_left_def)
next
  case Refreshing
  then show ?thesis using assms by (cases err) (simp_all add: start_step_def work_left_def cancel_root_def note_event_def)
qed (use assms in \<open>simp_all add: start_step_def work_left_def\<close>)

lemma stop_step_left:
  assumes "lf_stop y \<noteq> NoStop" "lf_stop y \<noteq> StopOver" "lf_startDone y \<noteq> Some False"
  shows "work_left (stop_step drain halt y) < work_left y \<and> lf_stopping (stop_step drain halt y) = lf_stopping y"
proof (cases "lf_stop y")
  case (StopUnit u)
  then show ?thesis by (cases u) (simp_all add: stop_step_def work_left_def note_event_def)
qed (use assms in \<open>simp_all add: stop_step_def work_left_def cancel_root_def\<close>)

lemma stop_ends:
  assumes "life_reachable h y" "lf_stopping y"
  shows "\<exists>y'. life_step\<^sup>*\<^sup>* y y' \<and> stop_answer y' \<noteq> None"
  using assms
proof (induction "work_left y" arbitrary: y rule: less_induct)
  case less
  have inv: "control_ok y" using life_reachable_inv [OF less.prems(1)] by (simp add: life_inv_def)
  show ?case
  proof (cases "lf_stop y = StopOver")
    case True
    then have "stop_answer y \<noteq> None" using inv by (simp add: control_ok_def stop_answer_def)
    then show ?thesis by blast
  next
    case over: False
    obtain z where z: "life_step y z" "work_left z < work_left y" "lf_stopping z"
    proof (cases "lf_start y = Away")
      case False
      show thesis using that [OF InStart [OF False, of None]] start_step_left [OF less.prems(2) False, of None] by blast
    next
      case True
      then have "lf_stop y \<noteq> NoStop" "lf_startDone y \<noteq> Some False" using inv less.prems(2) by (auto simp: control_ok_def)
      then show thesis using that [OF InStop [of y None None]] stop_step_left [of y None None] over less.prems(2) by blast
    qed
    then obtain y' where "life_step\<^sup>*\<^sup>* z y'" "stop_answer y' \<noteq> None"
      using less.hyps [OF z(2) life_reachable.onward [OF less.prems(1) z(1)] z(3)] by blast
    then show ?thesis using z(1) by (meson converse_rtranclp_into_rtranclp)
  qed
qed

end
