(* ===== verification/Pipeline_Config.thy ===== *)
theory Pipeline_Config
  imports App_Reader Expiry_Wheel Group_Collector Scheduling Publisher Cache_Types
begin

text \<open>
  How \<^verbatim>\<open>internal/pipeline\<close> builds the runtime: \<^verbatim>\<open>ScheduledConfigFromApp\<close> and \<^verbatim>\<open>NewScheduledFromApp\<close> of \<^verbatim>\<open>app.go\<close>, the
  configuration and \<^verbatim>\<open>NewScheduled\<close> of \<^verbatim>\<open>scheduled.go\<close>.  \<open>parse\<close> reads a URL, \<open>compile\<close> a regular expression.
\<close>

definition defaultShutdownTimeout :: duration where "defaultShutdownTimeout = 5 * Second"

record ScheduledConfig =
  sd_Metadata :: RefresherConfig
  sd_Scheduler :: SchedulerConfig
  sd_History :: HistoryConfig
  sd_HistoryConcurrency :: int
  sd_ValueCache :: ValueCacheConfig
  sd_ExpiryMaxEntries :: int
  sd_ExpiryTick :: duration
  sd_Publisher :: "StreamingPublisherConfig option"
  sd_PublishInterval :: duration
  sd_ShutdownTimeout :: duration

definition scheduled_defaults :: "ScheduledConfig \<Rightarrow> ScheduledConfig" where
  "scheduled_defaults c = c
     \<lparr>sd_Metadata := (if rc_RefreshInterval (sd_Metadata c) \<le> 0
        then (sd_Metadata c)\<lparr>rc_RefreshInterval := rc_RefreshInterval DefaultRefresherConfig\<rparr> else sd_Metadata c),
      sd_HistoryConcurrency := or_else 0 4 (sd_HistoryConcurrency c),
      sd_History := (sd_History c)\<lparr>hc_QueryTimeout := or_else 0 (30 * Second) (hc_QueryTimeout (sd_History c))\<rparr>,
      sd_ExpiryTick := or_else 0 Minute (sd_ExpiryTick c),
      sd_PublishInterval := or_else 0 Minute (sd_PublishInterval c),
      sd_ShutdownTimeout := or_else 0 defaultShutdownTimeout (sd_ShutdownTimeout c)\<rparr>"

definition scheduled_guards :: "ScheduledConfig \<Rightarrow> (bool \<times> string) list" where
  "scheduled_guards c =
     [(sd_ExpiryTick c \<le> 0, ''expiry tick must be positive''),
      (sd_ShutdownTimeout c \<le> 0, ''shutdown timeout must be positive''),
      (sd_HistoryConcurrency c < 1, ''history concurrency must be positive'')]
     @ (case sd_Publisher c of
          None \<Rightarrow> []
        | Some p \<Rightarrow>
            [(sd_PublishInterval c \<le> 0, ''publish interval must be positive''),
             (sp_SpreadSlots p = 0, ''publisher spread slots must be positive''),
             (go_div (sd_PublishInterval c) (int (sp_SpreadSlots p)) \<le> 0, ''publish interval is too small for the slots'')])"

definition scheduled_validate :: "ScheduledConfig \<Rightarrow> go_error option" where
  "scheduled_validate c = first_error (scheduled_guards c)"

section \<open>The application's configuration\<close>

definition publisher_config :: "PushConfig \<Rightarrow> RemoteWriteEndpoint \<Rightarrow> StreamingPublisherConfig" where
  "publisher_config push endpoint =
     \<lparr>sp_EndpointURL = rw_URL endpoint, sp_Timeout = rw_Timeout endpoint, sp_Username = au_Username (rw_BasicAuth endpoint),
      sp_Password = au_Password (rw_BasicAuth endpoint), sp_SpreadSlots = nat (ps_SpreadSlots push mod 2 ^ 16),
      sp_PageSize = ps_PageSize push, sp_MaxSamples = rw_MaxSamplesPerSend endpoint, sp_MaxBatchBytes = ps_MaxBatchBytes push,
      sp_Workers = ps_Workers push, sp_QueueCapacity = ps_QueueCapacity push, sp_MaxRetries = ps_MaxRetries push,
      sp_RetryBackoff = ps_RetryBackoff push, sp_MaxRetryBackoff = ps_MaxRetryBackoff push\<rparr>"

definition ScheduledConfigFromApp :: "Config option \<Rightarrow> go_error + ScheduledConfig" where
  "ScheduledConfigFromApp app =
     (case app of
        None \<Rightarrow> Inl (ArgumentError ''application config is required'')
      | Some app \<Rightarrow>
          (let co = cf_Collector app; push = cf_Push app; ca = cf_Cache app;
               overlapMax = (if co_QueryOverlap co > DefaultOverlapMax then co_QueryOverlap co else DefaultOverlapMax);
               cfg = \<lparr>sd_Metadata = RefresherConfigFromApp (Some app),
                      sd_Scheduler = \<lparr>sg_BatchSize = co_HistoryBatchSize co, sg_WorkerCount = co_Workers co,
                        sg_QueueCapacity = co_SchedulerQueueCapacity co, sg_RetryBase = 0, sg_RetryMax = 0,
                        sg_BootstrapSpread = co_StartupSpreadWindow co\<rparr>,
                      sd_History = \<lparr>hc_Limit = co_HistoryMaxLimit co, hc_MaxSplitDepth = 0, hc_OverlapMin = co_QueryOverlap co,
                        hc_OverlapMax = overlapMax, hc_QueryTimeout = co_HistoryQueryTimeout co, hc_ReaderOwnsTimeout = False\<rparr>,
                      sd_HistoryConcurrency = co_HistoryQueryConcurrency co,
                      sd_ValueCache = \<lparr>cc_ShardCount = ca_Shards ca, cc_PublishSlots = ps_SpreadSlots push, cc_InitialCapacity = 0,
                        cc_MissThreshold = nat (ca_MissThreshold ca mod 2 ^ 32), cc_hasRegistrar = False\<rparr>,
                      sd_ExpiryMaxEntries = ca_ExpiryMaxEntriesPerRun ca, sd_ExpiryTick = ca_ExpiryTick ca,
                      sd_Publisher = None, sd_PublishInterval = dmul (ps_Interval push) Second,
                      sd_ShutdownTimeout = defaultShutdownTimeout\<rparr> in
           if ps_Enabled push then
             (case ps_Endpoints push of
                [endpoint] \<Rightarrow> Inr (cfg\<lparr>sd_Publisher := Some (publisher_config push endpoint)\<rparr>)
              | _ \<Rightarrow> Inl (InvalidConfig ''scheduled push requires exactly one remote write endpoint''))
           else Inr cfg))"

section \<open>Building\<close>

text \<open>The components a pipeline owns, before it is started.\<close>

record Scheduled =
  pi_config :: ScheduledConfig
  pi_store :: Store
  pi_refresher :: RefresherConfig
  pi_values :: ValueCache
  pi_wheel :: ExpiryWheel
  pi_collector :: "ValueCache Collector"
  pi_scheduler :: Scheduler
  pi_publisher :: "Publisher option"

definition NewScheduled :: "(string \<Rightarrow> go_error + string \<times> string) \<Rightarrow> bool \<Rightarrow> bool \<Rightarrow> ScheduledConfig \<Rightarrow> go_error + Scheduled" where
  "NewScheduled parse hasMetadataReader hasHistoryReader cfg =
     (if \<not> hasMetadataReader then Inl (ArgumentError ''metadata reader is required'')
      else if \<not> hasHistoryReader then Inl (ArgumentError ''history reader is required'')
      else
        (let cfg = scheduled_defaults cfg in
         case scheduled_validate cfg of
           Some err \<Rightarrow> Inl err
         | None \<Rightarrow>
        (case NewExpiryWheel (sd_ExpiryMaxEntries cfg) of
           Inl err \<Rightarrow> Inl err
         | Inr wheel \<Rightarrow>
        (case NewValueCache ((sd_ValueCache cfg)\<lparr>cc_hasRegistrar := True\<rparr>) of
           Inl err \<Rightarrow> Inl err
         | Inr values \<Rightarrow>
        (case NewGroupCollector True True True values ((sd_History cfg)\<lparr>hc_ReaderOwnsTimeout := True\<rparr>) of
           Inl err \<Rightarrow> Inl err
         | Inr groupCollector \<Rightarrow>
        (case NewScheduler True (sd_Scheduler cfg) of
           Inl err \<Rightarrow> Inl err
         | Inr groupScheduler \<Rightarrow>
        (case (case sd_Publisher cfg of
                 None \<Rightarrow> Inr None
               | Some pc \<Rightarrow>
                   (case NewStreamingPublisher parse (Some (vc_publishSlots values)) pc of
                      Inl err \<Rightarrow> Inl err | Inr p \<Rightarrow> Inr (Some p))) of
           Inl err \<Rightarrow> Inl err
         | Inr publisher \<Rightarrow>
             Inr \<lparr>pi_config = cfg, pi_store = NewStore, pi_refresher = refresher_defaults (sd_Metadata cfg), pi_values = values,
                  pi_wheel = wheel, pi_collector = groupCollector, pi_scheduler = groupScheduler, pi_publisher = publisher\<rparr>)))))))"

definition NewScheduledFromApp :: "(string \<Rightarrow> go_error + string \<times> string) \<Rightarrow> (string \<Rightarrow> go_error + (string \<Rightarrow> bool))
    \<Rightarrow> Client option \<Rightarrow> Config option \<Rightarrow> go_error + AppReader \<times> Scheduled" where
  "NewScheduledFromApp parse compile client app =
     (case (client, app) of
        (Some client, Some cfg) \<Rightarrow>
          (case NewFilter compile (cf_Metrics cfg) of
             Inl err \<Rightarrow> Inl (WrappedError ''build scheduled metric filter'' err)
           | Inr itemFilter \<Rightarrow>
          (case ScheduledConfigFromApp app of
             Inl err \<Rightarrow> Inl err
           | Inr scheduledConfig \<Rightarrow>
               map_sum id (Pair \<lparr>rd_client = client, rd_filter = itemFilter, rd_config = cf_Metrics cfg\<rparr>)
                 (NewScheduled parse True True scheduledConfig)))
      | _ \<Rightarrow> Inl (ArgumentError ''zabbix client and application config are required''))"

section \<open>An accepted configuration builds\<close>

text \<open>What the loaded configuration leaves to the pipeline: the endpoint's URL, the patterns, and an interval that fits.\<close>

definition endpoint_ok :: "(string \<Rightarrow> go_error + string \<times> string) \<Rightarrow> RemoteWriteEndpoint \<Rightarrow> bool" where
  "endpoint_ok parse endpoint \<longleftrightarrow>
     (case parse (rw_URL endpoint) of Inl err \<Rightarrow> False | Inr (scheme, host) \<Rightarrow> (scheme = ''http'' \<or> scheme = ''https'') \<and> host \<noteq> [])"

lemma load_config_valid:
  assumes "load_config parsed = Inr app"
  shows "validate app = None" "setDefaults app = app"
  using assms setDefaults_idem by (auto simp: load_config_def Let_def split: sum.splits option.splits)

lemma validate_parts:
  assumes "validate app = None"
  shows "list_all (\<lambda>g. \<not> fst g) (push_guards (cf_Push app))" "list_all (\<lambda>g. \<not> fst g) (collector_guards (cf_Collector app))"
    "list_all (\<lambda>g. \<not> fst g) (cache_guards (cf_Cache app))"
  using assms by (simp_all add: validate_def first_error_None)

lemma publisher_builds:
  assumes push: "list_all (\<lambda>g. \<not> fst g) (push_guards push)" and dflt: "push_defaults push = push"
    and on: "ps_Enabled push" and eps: "ps_Endpoints push = [endpoint]" and ok: "endpoint_ok parse endpoint"
  shows "\<exists>p. NewStreamingPublisher parse (Some (nat (ps_SpreadSlots push))) (publisher_config push endpoint) = Inr p"
proof -
  have g: "0 < rw_Timeout endpoint" "0 < rw_MaxSamplesPerSend endpoint" "1 \<le> ps_SpreadSlots push" "ps_SpreadSlots push \<le> 65535"
    "0 < ps_PageSize push" "0 < ps_MaxBatchBytes push" "0 < ps_Workers push" "0 < ps_QueueCapacity push" "0 \<le> ps_MaxRetries push"
    "0 \<le> ps_RetryBackoff push" "0 < ps_MaxRetryBackoff push" "ps_RetryBackoff push \<le> ps_MaxRetryBackoff push"
    using push on eps by (simp_all add: push_guards_def endpoint_guards_def)
  have "ps_RetryBackoff push = or_else 0 (100 * Millisecond) (ps_RetryBackoff push)"
    using arg_cong [OF dflt, of ps_RetryBackoff] by (simp add: push_defaults_def)
  then have "ps_RetryBackoff push \<noteq> 0" by (auto simp: or_else_def duration_units split: if_splits)
  moreover have mod: "ps_SpreadSlots push mod 65536 = ps_SpreadSlots push" using g(3,4) by simp
  ultimately have d: "publisher_defaults (publisher_config push endpoint)
      = (publisher_config push endpoint)\<lparr>sp_MaxRetries := or_else 0 3 (ps_MaxRetries push)\<rparr>" "sp_SpreadSlots (publisher_config push endpoint) = nat (ps_SpreadSlots push)"
    using g by (simp_all add: publisher_defaults_def publisher_config_def or_else_def)
  have "endpoint_validate parse (rw_URL endpoint) (rw_Timeout endpoint) = None"
    using ok g(1) by (auto simp: endpoint_validate_def endpoint_ok_def first_error_None split: sum.splits)
  then have "publisher_validate parse (publisher_defaults (publisher_config push endpoint)) = None"
    using g mod unfolding d(1)
    by (simp add: publisher_validate_def first_error_None publisher_config_def or_else_def)
  then show ?thesis using d g by (simp add: NewStreamingPublisher_def Let_def newBatchEncoder_def publisher_config_def)
qed

lemma cache_builds:
  assumes "list_all (\<lambda>g. \<not> fst g) (cache_guards ca)" "1 \<le> slots" "slots \<le> 65535"
  shows "\<exists>c. NewValueCache \<lparr>cc_ShardCount = ca_Shards ca, cc_PublishSlots = slots, cc_InitialCapacity = 0,
      cc_MissThreshold = n, cc_hasRegistrar = True\<rparr> = Inr c \<and> vc_publishSlots c = nat slots"
  using assms by (simp add: cache_guards_def NewValueCache_def Let_def)

lemma collector_builds:
  assumes "list_all (\<lambda>g. \<not> fst g) (collector_guards co)"
  shows "\<exists>g. NewGroupCollector True True True values \<lparr>hc_Limit = co_HistoryMaxLimit co, hc_MaxSplitDepth = 0, hc_OverlapMin = co_QueryOverlap co,
      hc_OverlapMax = (if co_QueryOverlap co > DefaultOverlapMax then co_QueryOverlap co else DefaultOverlapMax),
      hc_QueryTimeout = co_HistoryQueryTimeout co, hc_ReaderOwnsTimeout = True\<rparr> = Inr g"
    "\<exists>s. NewScheduler True \<lparr>sg_BatchSize = co_HistoryBatchSize co, sg_WorkerCount = co_Workers co,
      sg_QueueCapacity = co_SchedulerQueueCapacity co, sg_RetryBase = 0, sg_RetryMax = 0, sg_BootstrapSpread = co_StartupSpreadWindow co\<rparr> = Inr s"
  using assms
  by (simp_all add: collector_guards_def NewGroupCollector_def history_defaults_def Let_def DefaultOverlapMin_def DefaultOverlapMax_def
      DefaultMaxSplitDepth_def DefaultHistoryLimit_def duration_units NewScheduler_def scheduler_defaults_def NewGroupBuilder_def)

lemma compiled_filter:
  assumes "list_all (\<lambda>p. \<not> isl (compile p)) patterns"
  shows "\<exists>res. compile_all compile patterns = Inr res"
  using assms by (induction patterns) (auto split: sum.splits)

lemma interval_exact:
  assumes "1 \<le> n" "n * 1000000000 < 2 ^ 63"
  shows "dmul n Second = n * 1000000000" "1 \<le> k \<Longrightarrow> k \<le> 65535 \<Longrightarrow> 0 < go_div (dmul n Second) k"
proof -
  have "in_int64 (n * 1000000000)" using assms by (simp add: in_int64_def)
  then show d: "dmul n Second = n * 1000000000" by (simp add: dmul_def Second_def wrap64_id)
  assume k: "1 \<le> k" "k \<le> 65535"
  then have "k div k \<le> n * 1000000000 div k" using assms(1) by (intro zdiv_mono1) linarith+
  then have "1 \<le> n * 1000000000 div k" using k by simp
  then show "0 < go_div (dmul n Second) k" using assms k by (simp add: d go_div_nonneg)
qed

definition app_config :: "Config \<Rightarrow> ScheduledConfig" where
  "app_config app = (case ScheduledConfigFromApp (Some app) of Inr cfg \<Rightarrow> cfg)"

lemma one_endpoint: "validate app = None \<Longrightarrow> ps_Enabled (cf_Push app) \<Longrightarrow> \<exists>ep. ps_Endpoints (cf_Push app) = [ep]"
  using validate_parts(1) [of app] by (simp add: push_guards_def length_Suc_conv)

lemma app_config_parts:
  assumes ok: "validate app = None"
  shows "ScheduledConfigFromApp (Some app) = Inr (app_config app)"
    and "sd_Scheduler (app_config app) = \<lparr>sg_BatchSize = co_HistoryBatchSize (cf_Collector app), sg_WorkerCount = co_Workers (cf_Collector app),
      sg_QueueCapacity = co_SchedulerQueueCapacity (cf_Collector app), sg_RetryBase = 0, sg_RetryMax = 0,
      sg_BootstrapSpread = co_StartupSpreadWindow (cf_Collector app)\<rparr>"
    and "sd_History (app_config app) = \<lparr>hc_Limit = co_HistoryMaxLimit (cf_Collector app), hc_MaxSplitDepth = 0,
      hc_OverlapMin = co_QueryOverlap (cf_Collector app),
      hc_OverlapMax = (if co_QueryOverlap (cf_Collector app) > DefaultOverlapMax then co_QueryOverlap (cf_Collector app) else DefaultOverlapMax),
      hc_QueryTimeout = co_HistoryQueryTimeout (cf_Collector app), hc_ReaderOwnsTimeout = False\<rparr>"
    and "sd_ValueCache (app_config app) = \<lparr>cc_ShardCount = ca_Shards (cf_Cache app), cc_PublishSlots = ps_SpreadSlots (cf_Push app),
      cc_InitialCapacity = 0, cc_MissThreshold = nat (ca_MissThreshold (cf_Cache app) mod 2 ^ 32), cc_hasRegistrar = False\<rparr>"
    and "sd_Metadata (app_config app) = RefresherConfigFromApp (Some app)"
    and "sd_HistoryConcurrency (app_config app) = co_HistoryQueryConcurrency (cf_Collector app)"
    and "sd_ExpiryMaxEntries (app_config app) = ca_ExpiryMaxEntriesPerRun (cf_Cache app)"
    and "sd_ExpiryTick (app_config app) = ca_ExpiryTick (cf_Cache app)"
    and "sd_PublishInterval (app_config app) = dmul (ps_Interval (cf_Push app)) Second"
    and "sd_ShutdownTimeout (app_config app) = defaultShutdownTimeout"
    and "ps_Enabled (cf_Push app) \<Longrightarrow> \<exists>ep. ps_Endpoints (cf_Push app) = [ep]
      \<and> sd_Publisher (app_config app) = Some (publisher_config (cf_Push app) ep)"
    and "\<not> ps_Enabled (cf_Push app) \<Longrightarrow> sd_Publisher (app_config app) = None"
  using one_endpoint [OF ok]
  by (cases "ps_Enabled (cf_Push app)"; fastforce simp: app_config_def ScheduledConfigFromApp_def Let_def)+

lemma scheduled_builds:
  assumes "scheduled_defaults cfg = cfg" "scheduled_validate cfg = None" "NewExpiryWheel (sd_ExpiryMaxEntries cfg) = Inr wheel"
    and "NewValueCache ((sd_ValueCache cfg)\<lparr>cc_hasRegistrar := True\<rparr>) = Inr vals"
    and "NewGroupCollector True True True vals ((sd_History cfg)\<lparr>hc_ReaderOwnsTimeout := True\<rparr>) = Inr coll"
    and "NewScheduler True (sd_Scheduler cfg) = Inr sched"
    and "case sd_Publisher cfg of None \<Rightarrow> pub = None
      | Some pc \<Rightarrow> \<exists>p. NewStreamingPublisher parse (Some (vc_publishSlots vals)) pc = Inr p \<and> pub = Some p"
  shows "\<exists>p. NewScheduled parse True True cfg = Inr p \<and> pi_publisher p = pub \<and> pi_values p = vals"
  using assms by (auto simp: NewScheduled_def Let_def split: option.splits)

lemma pipeline_config_builds:
  assumes ok: "validate app = None" and dflt: "setDefaults app = app"
    and fits: "ps_Interval (cf_Push app) * 1000000000 < 2 ^ 63"
    and ep: "ps_Enabled (cf_Push app) \<Longrightarrow> list_all (endpoint_ok parse) (ps_Endpoints (cf_Push app))"
  shows "\<exists>p. NewScheduled parse True True (app_config app) = Inr p
    \<and> (pi_publisher p \<noteq> None \<longleftrightarrow> ps_Enabled (cf_Push app)) \<and> int (vc_publishSlots (pi_values p)) = ps_SpreadSlots (cf_Push app)"
proof -
  note g = validate_parts [OF ok] and parts = app_config_parts [OF ok]
  have co: "0 < co_MetadataRefreshInterval (cf_Collector app)" "1 \<le> co_HistoryQueryConcurrency (cf_Collector app)"
      "0 < co_HistoryQueryTimeout (cf_Collector app)"
    and ca: "0 < ca_ExpiryTick (cf_Cache app)" "1 \<le> ca_ExpiryMaxEntriesPerRun (cf_Cache app)"
    and ps: "1 \<le> ps_Interval (cf_Push app)" "1 \<le> ps_SpreadSlots (cf_Push app)" "ps_SpreadSlots (cf_Push app) \<le> 65535"
    using g by (auto simp: collector_guards_def cache_guards_def push_guards_def)
  note iv = interval_exact [OF ps(1) fits]
  have pd: "push_defaults (cf_Push app) = cf_Push app" using arg_cong [OF dflt, of cf_Push] by (simp add: setDefaults_def)
  have "0 < rc_RefreshInterval (RefresherConfigFromApp (Some app))" using co by (simp add: RefresherConfigFromApp_def refresher_defaults_def Let_def)
  then have d: "scheduled_defaults (app_config app) = app_config app"
    using co ca iv(1) ps(1) by (simp add: scheduled_defaults_def or_else_def parts defaultShutdownTimeout_def duration_units)
  have v: "scheduled_validate (app_config app) = None"
  proof (cases "ps_Enabled (cf_Push app)")
    case True
    then obtain endpoint where "sd_Publisher (app_config app) = Some (publisher_config (cf_Push app) endpoint)" using parts(11) by blast
    then show ?thesis using co ca iv(1) iv(2) [OF ps(2,3)] ps
      by (simp add: scheduled_validate_def scheduled_guards_def first_error_None parts defaultShutdownTimeout_def duration_units publisher_config_def)
  next
    case False
    then show ?thesis using co ca parts(12)
      by (simp add: scheduled_validate_def scheduled_guards_def first_error_None parts defaultShutdownTimeout_def duration_units)
  qed
  obtain wheel where w: "NewExpiryWheel (sd_ExpiryMaxEntries (app_config app)) = Inr wheel"
    using ca by (simp add: NewExpiryWheel_def Let_def parts)
  obtain vals where c: "NewValueCache ((sd_ValueCache (app_config app))\<lparr>cc_hasRegistrar := True\<rparr>) = Inr vals"
      "vc_publishSlots vals = nat (ps_SpreadSlots (cf_Push app))"
    using cache_builds [OF g(3) ps(2,3)] by (fastforce simp: parts)
  obtain coll where h: "NewGroupCollector True True True vals ((sd_History (app_config app))\<lparr>hc_ReaderOwnsTimeout := True\<rparr>) = Inr coll"
    using collector_builds(1) [OF g(2)] by (fastforce simp: parts)
  obtain sched where s: "NewScheduler True (sd_Scheduler (app_config app)) = Inr sched"
    using collector_builds(2) [OF g(2)] by (fastforce simp: parts)
  obtain pub where p: "case sd_Publisher (app_config app) of None \<Rightarrow> pub = None
      | Some pc \<Rightarrow> \<exists>p. NewStreamingPublisher parse (Some (vc_publishSlots vals)) pc = Inr p \<and> pub = Some p"
      "pub \<noteq> None \<longleftrightarrow> ps_Enabled (cf_Push app)"
  proof (cases "ps_Enabled (cf_Push app)")
    case True
    then obtain endpoint where e: "ps_Endpoints (cf_Push app) = [endpoint]"
      "sd_Publisher (app_config app) = Some (publisher_config (cf_Push app) endpoint)" using parts(11) by blast
    then obtain q where "NewStreamingPublisher parse (Some (nat (ps_SpreadSlots (cf_Push app)))) (publisher_config (cf_Push app) endpoint) = Inr q"
      using publisher_builds [OF g(1) pd True e(1)] ep True by auto
    then show thesis using that [of "Some q"] True e(2) c(2) by simp
  qed (use that [of None] parts(12) in simp)
  show ?thesis using scheduled_builds [OF d v w c(1) h s p(1)] p(2) c(2) ps(2) by auto
qed

lemma accepted_pipeline:
  assumes "load_config parsed = Inr app" "list_all (\<lambda>p. \<not> isl (compile p)) (fc_Patterns (mf_Filter (cf_Metrics app)))"
    and "ps_Enabled (cf_Push app) \<Longrightarrow> list_all (endpoint_ok parse) (ps_Endpoints (cf_Push app))"
    and "ps_Interval (cf_Push app) * 1000000000 < 2 ^ 63"
  shows "\<exists>reader p. NewScheduledFromApp parse compile (Some client) (Some app) = Inr (reader, p)
    \<and> rd_client reader = client \<and> (pi_publisher p \<noteq> None \<longleftrightarrow> ps_Enabled (cf_Push app))
    \<and> int (vc_publishSlots (pi_values p)) = ps_SpreadSlots (cf_Push app)"
proof -
  note valid = load_config_valid [OF assms(1)]
  obtain p where p: "NewScheduled parse True True (app_config app) = Inr p" "pi_publisher p \<noteq> None \<longleftrightarrow> ps_Enabled (cf_Push app)"
      "int (vc_publishSlots (pi_values p)) = ps_SpreadSlots (cf_Push app)"
    using pipeline_config_builds [OF valid assms(4,3)] by blast
  obtain res where "compile_all compile (fc_Patterns (mf_Filter (cf_Metrics app))) = Inr res"
    using compiled_filter [OF assms(2)] by blast
  then show ?thesis using p by (simp add: NewScheduledFromApp_def NewFilter_def app_config_parts(1) [OF valid(1)])
qed

end
