(* ===== verification/Pipeline_Metadata.thy ===== *)
theory Pipeline_Metadata
  imports Cache_Reach Scheduling Refresh_Laws
begin

text \<open>
  \<^verbatim>\<open>applyMetadata\<close> of \<^verbatim>\<open>internal/pipeline/scheduled.go\<close>, which carries a published snapshot over to the value cache and the
  scheduler, and the runs of the pipeline around it: the metadata goroutine refreshes and applies, collections, the
  publisher and the expiry work on the cache in between.
\<close>

definition changed_enabled :: "MetadataSnapshot \<Rightarrow> string list \<Rightarrow> string list" where
  "changed_enabled snapshot itemIDs =
     filter (\<lambda>k. case mptr (sn_Items snapshot) k of None \<Rightarrow> True | Some item \<Rightarrow> im_Enabled item) itemIDs"

definition applyMetadata :: "(string \<Rightarrow> 64 word) \<Rightarrow> time \<Rightarrow> RefreshResult \<Rightarrow> bool \<Rightarrow> Store \<Rightarrow> ValueCache \<Rightarrow> Scheduler
    \<Rightarrow> ValueCache \<times> Scheduler" where
  "applyMetadata fp now result started store values scheduler =
     (let diff = rr_Diff result;
          values = (if df_RemovedItems diff \<noteq> [] then fst (Delete fp values (df_RemovedItems diff) DeleteMetadataRemoved) else values);
          changedEnabled = changed_enabled store (df_ChangedItems diff);
          values = (if df_ChangedItems diff \<noteq> [] \<and> changedEnabled \<noteq> []
                    then fst (Delete fp values changedEnabled DeleteMetadataChanged) else values);
          scheduler = (if started then fst (Reconcile now (Some store) scheduler) else scheduler)
      in (values, scheduler))"

text \<open>The gauge \<^verbatim>\<open>observeMetadataAge\<close> sets.\<close>

definition metadata_age :: "time \<Rightarrow> MetadataSnapshot \<Rightarrow> duration" where
  "metadata_age now snapshot =
     (if time_IsZero (sn_CreatedAt snapshot) then 0
      else (let age = time_Sub now (sn_CreatedAt snapshot) in if age < 0 then 0 else age))"

section \<open>Runs of the pipeline\<close>

text \<open>\<open>py_diff\<close> is a refresh whose snapshot is published but not yet applied.\<close>

record PipeState =
  py_store :: Store
  py_values :: ValueCache
  py_scheduler :: Scheduler
  py_started :: bool
  py_diff :: "RefreshResult option"

text \<open>A batch runs before, after or across a publication: while it runs its metadata source answers with the snapshot before the
  publication or the one after.  The other operations of the cache are \<open>Upkeep\<close>.\<close>

inductive upkeep :: "(string \<Rightarrow> 64 word) \<Rightarrow> ValueCache \<Rightarrow> ValueCache \<Rightarrow> bool" for fp c where
  Miss: "MarkMiss fp c ids t = (c', miss) \<Longrightarrow> upkeep fp c c'"
| Expire: "DeleteVersioned fp c items reason = (c', del) \<Longrightarrow> upkeep fp c c'"
| Ack: "AckPublished fp c acks = (c', ackr) \<Longrightarrow> upkeep fp c c'"

inductive pipe_step :: "(string \<Rightarrow> 64 word) \<Rightarrow> (string \<Rightarrow> go_error + float64) \<Rightarrow> PipeState \<Rightarrow> PipeState \<Rightarrow> bool" for fp pf where
  Refreshed: "py_diff y = None \<Longrightarrow> Refresh lib cfg now getHosts getItemBatches (py_store y) = (store, result, None)
    \<Longrightarrow> pipe_step fp pf y (y\<lparr>py_store := store, py_diff := Some result\<rparr>)"
| Applied: "py_diff y = Some result
    \<Longrightarrow> applyMetadata fp now result (py_started y) (py_store y) (py_values y) (py_scheduler y) = (values, scheduler)
    \<Longrightarrow> pipe_step fp pf y (y\<lparr>py_values := values, py_scheduler := scheduler, py_diff := None\<rparr>)"
| Started: "\<not> py_started y
    \<Longrightarrow> pipe_step fp pf y (y\<lparr>py_started := True, py_scheduler := fst (Reconcile now (Some (py_store y)) (py_scheduler y))\<rparr>)"
| Collected: "batch_ok (py_values y) batch
    \<Longrightarrow> ApplyBatch fp pf (Some (\<lambda>i. Some (py_store y))) (py_values y) batch snapshot = (values, res, expiry)
    \<Longrightarrow> pipe_step fp pf y (y\<lparr>py_values := values\<rparr>)"
| Across: "py_diff y = None \<Longrightarrow> Refresh lib cfg now getHosts getItemBatches (py_store y) = (store, result, None)
    \<Longrightarrow> batch_ok (py_values y) batch
    \<Longrightarrow> ApplyBatch fp pf (Some (\<lambda>i. Some (if i < n then py_store y else store))) (py_values y) batch snapshot = (values, res, expiry)
    \<Longrightarrow> pipe_step fp pf y (y\<lparr>py_store := store, py_values := values, py_diff := Some result\<rparr>)"
| Upkeep: "upkeep fp (py_values y) values \<Longrightarrow> pipe_step fp pf y (y\<lparr>py_values := values\<rparr>)"

inductive pipe_reachable :: "(string \<Rightarrow> 64 word) \<Rightarrow> (string \<Rightarrow> go_error + float64) \<Rightarrow> PipeState \<Rightarrow> bool" for fp pf where
  initial: "NewValueCache config = Inr values
    \<Longrightarrow> pipe_reachable fp pf \<lparr>py_store = NewStore, py_values = values, py_scheduler = scheduler, py_started = False, py_diff = None\<rparr>"
| onward: "pipe_reachable fp pf y \<Longrightarrow> pipe_step fp pf y y' \<Longrightarrow> pipe_reachable fp pf y'"

section \<open>Every value has a definition\<close>

text \<open>An entry's item is defined under the entry's version, or disabled; or its removal or change has yet to be applied.\<close>

definition defined_as :: "Store \<Rightarrow> string \<Rightarrow> nat \<Rightarrow> bool" where
  "defined_as store k version \<longleftrightarrow>
     (case mptr (sn_Items store) k of None \<Rightarrow> False | Some item \<Rightarrow> im_Version item = version \<or> \<not> im_Enabled item)"

definition due_items :: "RefreshResult option \<Rightarrow> string set" where
  "due_items diff = (case diff of None \<Rightarrow> {} | Some result \<Rightarrow> set (df_RemovedItems (rr_Diff result)) \<union> set (df_ChangedItems (rr_Diff result)))"

definition entries_defined :: "(string \<Rightarrow> 64 word) \<Rightarrow> Store \<Rightarrow> RefreshResult option \<Rightarrow> ValueCache \<Rightarrow> bool" where
  "entries_defined fp store diff c \<longleftrightarrow>
     (\<forall>k st. contents fp c k = Some st \<longrightarrow> defined_as store k (vs_MetadataVersion st) \<or> k \<in> due_items diff)"

definition pipe_inv :: "(string \<Rightarrow> 64 word) \<Rightarrow> PipeState \<Rightarrow> bool" where
  "pipe_inv fp y \<longleftrightarrow> cache_inv fp (py_values y) \<and> wf_map (sn_Items (py_store y))
     \<and> entries_defined fp (py_store y) (py_diff y) (py_values y)"

text \<open>What a refresh does to the definition of an item.\<close>

lemma refresh_publishes:
  assumes "Refresh lib cfg now getHosts getItemBatches store = (store', result, None)"
  obtains candidate t where "store' = cloneSnapshot candidate store (inc64 (sn_Version store)) t" "wf_map (sn_Items candidate)"
    "rr_Diff result = diffSnapshots store store'"
proof -
  let ?new = "\<lambda>hosts items. snd (build_metadata lib (NewBuilder (rc_Labels cfg) (rc_DelayFallback cfg)) now hosts items now)"
  obtain hosts where hosts: "getHosts = Inr hosts" using assms by (cases getHosts) (auto simp: Refresh_def)
  obtain n answer where g: "getItemBatches (host_batches cfg hosts) = (n, answer)" by (cases "getItemBatches (host_batches cfg hosts)")
  with assms hosts obtain items where items: "answer = Inr items" by (cases answer) (auto simp: Refresh_def Let_def)
  with assms hosts g obtain candidate where a: "?new hosts items = Inr candidate"
    by (cases "?new hosts items") (auto simp: Refresh_def Let_def split: prod.splits)
  have s: "store' = fst (ApplySnapshot now store (Some candidate))" "rr_Diff result = snd (ApplySnapshot now store (Some candidate))"
    using assms a by (auto simp: Refresh_def Let_def hosts g items split: prod.splits)
  have "wf_map (sn_Items candidate)" using build_metadata_wf [OF a] unfolding snapshot_wf_def items_wf_def by blast
  then show thesis using s by (intro that [of candidate]) (simp_all add: ApplySnapshot_def Let_def)
qed

lemma diff_items:
  assumes "wf_map (sn_Items old)"
  shows "set (df_RemovedItems (diffSnapshots old new)) = {k. mget (sn_Items old) k \<noteq> None \<and> mget (sn_Items new) k = None}"
    "set (df_ChangedItems (diffSnapshots old new))
      = {k. \<exists>v w. mget (sn_Items old) k = Some v \<and> mget (sn_Items new) k = Some w \<and> \<not> itemDefinitionsEqual v w}"
proof -
  obtain added removed changed where d: "diffMap itemDefinitionsEqual (sn_Items old) (sn_Items new) = (added, removed, changed)"
    by (metis prod_cases3)
  then have "df_RemovedItems (diffSnapshots old new) = removed" "df_ChangedItems (diffSnapshots old new) = changed"
    by (simp_all add: diffSnapshots_def split: prod.splits)
  then show "set (df_RemovedItems (diffSnapshots old new)) = {k. mget (sn_Items old) k \<noteq> None \<and> mget (sn_Items new) k = None}"
    "set (df_ChangedItems (diffSnapshots old new))
      = {k. \<exists>v w. mget (sn_Items old) k = Some v \<and> mget (sn_Items new) k = Some w \<and> \<not> itemDefinitionsEqual v w}"
    using diffMap_sets(2,3) [OF assms d] by simp_all
qed

lemma refresh_defined:
  assumes run: "Refresh lib cfg now getHosts getItemBatches store = (store', result, None)" and wf: "wf_map (sn_Items store)"
  shows "wf_map (sn_Items store')"
    and "defined_as store k v \<Longrightarrow> defined_as store' k v \<or> k \<in> due_items (Some result)"
proof -
  obtain candidate t where p: "store' = cloneSnapshot candidate store (inc64 (sn_Version store)) t" "wf_map (sn_Items candidate)"
    "rr_Diff result = diffSnapshots store store'" using refresh_publishes [OF run] by blast
  show "wf_map (sn_Items store')" using p(2) by (simp add: p(1) cloneSnapshot_sel)
  assume "defined_as store k v"
  then obtain item where item: "mptr (sn_Items store) k = Some item" "im_Version item = v \<or> \<not> im_Enabled item"
    by (auto simp: defined_as_def split: option.splits)
  then have old: "mget (sn_Items store) k = Some (Some item)" by (auto simp: mptr_def split: option.splits)
  show "defined_as store' k v \<or> k \<in> due_items (Some result)"
  proof (cases "k \<in> due_items (Some result)")
    case False
    then obtain w where w: "mget (sn_Items store') k = Some w" "itemDefinitionsEqual (Some item) w"
      using old unfolding due_items_def option.case p(3) diff_items [OF wf] by auto
    then obtain q where q: "w = Some q" by (auto simp: itemDefinitionsEqual_def split: option.splits)
    then have "mptr (sn_Items store') k = Some q" using w(1) by (simp add: mptr_def)
    then obtain it where it: "itemDefinitionsEqual (Some it) (Some q)"
      "if itemDefinitionsEqual (Some item) (Some it) then im_Version q = im_Version item else im_Version q = inc64 (sn_Version store)"
      using published_item [of candidate store "inc64 (sn_Version store)" t k q] item(1) unfolding p(1) by auto
    have "itemDefinitionsEqual (Some item) (Some it)"
      using itemDefinitionsEqual_trans [OF w(2) [unfolded q] itemDefinitionsEqual_sym [OF it(1)]] .
    then have "im_Version q = im_Version item" "im_Enabled q = im_Enabled item"
      using it(2) w(2) by (simp_all add: q itemDefinitionsEqual_def)
    then show ?thesis using \<open>mptr (sn_Items store') k = Some q\<close> item(2) by (simp add: defined_as_def)
  qed simp
qed

text \<open>What a batch leaves in the cache.\<close>

lemma apply_versions:
  assumes inv: "cache_inv fp c" and ok: "batch_ok c batch"
    and run: "ApplyBatch fp pf (Some source) c batch snapshot = (c', res, expiry)"
    and st: "contents fp c' k = Some st"
  shows "(\<exists>old. contents fp c k = Some old \<and> vs_MetadataVersion old = vs_MetadataVersion st)
    \<or> (\<exists>i sn item. source i = Some sn \<and> mptr (sn_Items sn) k = Some item \<and> im_Version item = vs_MetadataVersion st)"
proof (cases "batch_complete batch \<and> snapshot \<noteq> None")
  case False
  then have "c' = c" using run by (auto simp: ApplyBatch_def batch_complete_def Let_def split: option.splits if_splits)
  then show ?thesis using st by simp
next
  case True
  then obtain sn where sn: "snapshot = Some sn" by blast
  note e = ApplyBatch_entry [OF inv _ ok run [unfolded sn], of k]
  show ?thesis
  proof (cases "batch_pending pf sn batch k")
    case None
    then have "contents fp c k = Some st" using e True st by simp
    then show ?thesis by blast
  next
    case (Some p)
    then obtain call version where c': "contents fp c' k
        = apply_eff fp c (metadataVersionCurrent (Some source) call k (pd_metadataVersion p)) version p (contents fp c k)"
      using e True by auto
    show ?thesis
    proof (cases "metadataVersionCurrent (Some source) call k (pd_metadataVersion p)")
      case False
      then have "contents fp c k = Some st" using c' st by (simp add: apply_eff_def)
      then show ?thesis by blast
    next
      case current: True
      then have "\<exists>i sn item. source i = Some sn \<and> mptr (sn_Items sn) k = Some item \<and> im_Version item = pd_metadataVersion p"
        by (auto simp: metadataVersionCurrent_def split: option.splits)
      then show ?thesis using c' st current
        by (auto simp: apply_eff_def new_state_def Let_def split: option.splits if_splits)
    qed
  qed
qed

lemma upkeep_versions:
  assumes "upkeep fp c c'" "cache_inv fp c"
  shows "cache_inv fp c'"
    and "contents fp c' k = Some st \<Longrightarrow> \<exists>old. contents fp c k = Some old \<and> vs_MetadataVersion old = vs_MetadataVersion st"
proof -
  show "cache_inv fp c'" using assms by cases (blast intro: MarkMiss_inv DeleteVersioned_inv AckPublished_inv)+
  assume st: "contents fp c' k = Some st"
  from assms(1) show "\<exists>old. contents fp c k = Some old \<and> vs_MetadataVersion old = vs_MetadataVersion st"
  proof cases
    case (Miss ids t miss)
    have "vs_MetadataVersion (fst (miss_state thr t old)) = vs_MetadataVersion old" for thr old
      by (simp add: miss_state_def Let_def)
    moreover have "miss_eff (vc_missThreshold c) t (contents fp c k) = Some st \<or> contents fp c k = Some st"
      using MarkMiss_contents [OF assms(2) Miss, of k] st by (auto split: if_splits)
    ultimately show ?thesis by (auto simp: miss_eff_def)
  next
    case (Expire items reason del)
    then show ?thesis using DeleteVersioned_contents [OF assms(2) Expire, of k] st by (auto split: option.splits if_splits)
  next
    case (Ack acks ackr)
    have "fold ack_eff as (Some old) = Some st \<Longrightarrow> vs_MetadataVersion old = vs_MetadataVersion st" for as old
    proof (induction as arbitrary: old)
      case (Cons a as)
      have "vs_MetadataVersion (fst (ack_state a old)) = vs_MetadataVersion old" by (simp add: ack_state_def Let_def split: prod.splits)
      then show ?case using Cons by (auto simp: ack_eff_def split: if_splits)
    qed simp
    moreover have "fold ack_eff as None = None" for as by (induction as) (simp_all add: ack_eff_def)
    ultimately show ?thesis using AckPublished_contents [OF assms(2) Ack, of k] st by (cases "contents fp c k") auto
  qed
qed

text \<open>What applying a snapshot leaves in the cache: nothing of the items it removed, or changed and left enabled.\<close>

lemma apply_metadata_contents:
  assumes inv: "cache_inv fp c" and run: "applyMetadata fp now result started store c scheduler = (c', scheduler')"
  shows "cache_inv fp c'"
    and "contents fp c' k = (if k \<in> set (df_RemovedItems (rr_Diff result)) \<union> set (changed_enabled store (df_ChangedItems (rr_Diff result)))
           then None else contents fp c k)"
proof -
  let ?rem = "df_RemovedItems (rr_Diff result)" and ?ch = "changed_enabled store (df_ChangedItems (rr_Diff result))"
  define c1 where "c1 = (if ?rem \<noteq> [] then fst (Delete fp c ?rem DeleteMetadataRemoved) else c)"
  have c1: "cache_inv fp c1" "contents fp c1 k = (if k \<in> set ?rem then None else contents fp c k)"
    using Delete_inv [OF inv prod.collapse [symmetric]] Delete_contents [OF inv prod.collapse [symmetric]] inv
    by (simp_all add: c1_def)
  have "?ch \<noteq> [] \<Longrightarrow> df_ChangedItems (rr_Diff result) \<noteq> []" by (auto simp: changed_enabled_def)
  then have c': "c' = (if ?ch \<noteq> [] then fst (Delete fp c1 ?ch DeleteMetadataChanged) else c1)"
    using run by (auto simp: applyMetadata_def Let_def c1_def)
  show "cache_inv fp c'" using Delete_inv [OF c1(1) prod.collapse [symmetric]] c1(1) by (simp add: c')
  show "contents fp c' k = (if k \<in> set ?rem \<union> set ?ch then None else contents fp c k)"
    using Delete_contents [OF c1(1) prod.collapse [symmetric]] c1(2) by (simp add: c')
qed

lemma NewValueCache_empty:
  assumes "NewValueCache config = Inr c"
  shows "contents fp c k = None"
proof -
  have "shardIndex fp c k < length (vc_shards c)"
    using NewValueCache_inv [OF assms, of fp] shardIndex_less [of c fp k] by (simp add: cache_inv_def config_ok_def)
  moreover have "set (vc_shards c) \<subseteq> {newValueShard}"
    using assms by (auto simp: NewValueCache_def Let_def split: if_splits)
  ultimately have "vc_shards c ! shardIndex fp c k = newValueShard" by (metis nth_mem singletonD subsetD)
  then show ?thesis by (simp add: contents_def cview_def view_new)
qed

lemma entries_kept:
  assumes "entries_defined fp store diff c"
    and "\<And>k st. contents fp c' k = Some st
      \<Longrightarrow> (\<exists>old. contents fp c k = Some old \<and> vs_MetadataVersion old = vs_MetadataVersion st)
        \<or> defined_as store k (vs_MetadataVersion st) \<or> k \<in> due_items diff"
  shows "entries_defined fp store diff c'"
  using assms unfolding entries_defined_def by metis

lemma entries_refreshed:
  assumes "entries_defined fp store None c" "wf_map (sn_Items store)"
    and "Refresh lib cfg now getHosts getItemBatches store = (store', result, None)"
  shows "entries_defined fp store' (Some result) c"
  using assms(1) refresh_defined(2) [OF assms(3,2)] unfolding entries_defined_def by (auto simp: due_items_def)

lemma found_defined: "mptr (sn_Items sn) k = Some item \<Longrightarrow> im_Version item = v \<Longrightarrow> defined_as sn k v"
  by (simp add: defined_as_def)

lemma pipe_step_inv:
  assumes "pipe_step fp pf y y'" and inv: "pipe_inv fp y"
  shows "pipe_inv fp y'"
proof -
  have c: "cache_inv fp (py_values y)" and wf: "wf_map (sn_Items (py_store y))"
    and e: "entries_defined fp (py_store y) (py_diff y) (py_values y)" using inv by (simp_all add: pipe_inv_def)
  from assms(1) show ?thesis
  proof cases
    case (Refreshed lib cfg now getHosts getItemBatches store result)
    then show ?thesis using entries_refreshed [OF e [unfolded Refreshed(2)] wf Refreshed(3)] refresh_defined(1) [OF Refreshed(3) wf] c
      by (simp add: pipe_inv_def)
  next
    case (Applied result now vals scheduler)
    note a = apply_metadata_contents [OF c Applied(3)]
    have "entries_defined fp (py_store y) None vals"
      unfolding entries_defined_def
    proof (intro allI impI disjI1)
      fix k st assume "contents fp vals k = Some st"
      then have st: "contents fp (py_values y) k = Some st" "k \<notin> set (df_RemovedItems (rr_Diff result))"
        "k \<notin> set (changed_enabled (py_store y) (df_ChangedItems (rr_Diff result)))"
        unfolding a(2) by (auto split: if_splits)
      show "defined_as (py_store y) k (vs_MetadataVersion st)"
      proof (cases "k \<in> set (df_ChangedItems (rr_Diff result))")
        case True
        then show ?thesis using st(3) by (auto simp: changed_enabled_def defined_as_def split: option.splits)
      next
        case False
        then have "k \<notin> due_items (py_diff y)" using st(2) by (simp add: Applied(2) due_items_def)
        then show ?thesis using e st(1) unfolding entries_defined_def by blast
      qed
    qed
    then show ?thesis using a(1) wf by (simp add: pipe_inv_def Applied(1))
  next
    case (Collected batch snapshot vals res expiry)
    have "entries_defined fp (py_store y) (py_diff y) vals"
      by (rule entries_kept [OF e]) (use apply_versions [OF c Collected(2,3)] found_defined in blast)
    then show ?thesis using ApplyBatch_inv [OF c Collected(2,3)] wf by (simp add: pipe_inv_def Collected(1))
  next
    case (Across lib cfg now getHosts getItemBatches store result batch n snapshot vals res expiry)
    note r = entries_refreshed [OF e [unfolded Across(2)] wf Across(3)]
    have "entries_defined fp store (Some result) vals"
    proof (rule entries_kept [OF r])
      fix k st assume st: "contents fp vals k = Some st"
      show "(\<exists>old. contents fp (py_values y) k = Some old \<and> vs_MetadataVersion old = vs_MetadataVersion st)
        \<or> defined_as store k (vs_MetadataVersion st) \<or> k \<in> due_items (Some result)"
        using apply_versions [OF c Across(4,5) st] refresh_defined(2) [OF Across(3) wf, of k]
        by (auto dest!: found_defined split: if_splits)
    qed
    then show ?thesis using ApplyBatch_inv [OF c Across(4,5)] refresh_defined(1) [OF Across(3) wf] by (simp add: pipe_inv_def Across(1))
  next
    case (Upkeep vals)
    have "entries_defined fp (py_store y) (py_diff y) vals"
      by (rule entries_kept [OF e]) (use upkeep_versions(2) [OF Upkeep(2) c] in blast)
    then show ?thesis using upkeep_versions(1) [OF Upkeep(2) c] wf by (simp add: pipe_inv_def Upkeep(1))
  qed (use inv in \<open>simp add: pipe_inv_def\<close>)
qed

lemma pipe_reachable_inv: "pipe_reachable fp pf y \<Longrightarrow> pipe_inv fp y"
proof (induction rule: pipe_reachable.induct)
  case (initial config vals scheduler)
  then have "contents fp vals k = None" for k by (simp add: NewValueCache_empty)
  then show ?case using NewValueCache_inv [OF initial] by (simp add: pipe_inv_def entries_defined_def NewStore_def emptySnapshot_def)
next
  case (onward y y')
  then show ?case using pipe_step_inv by blast
qed

end
