(* ===== verification/Pipeline_Properties.thy ===== *)
theory Pipeline_Properties
  imports Pipeline_Life Pipeline_Config Pipeline_Metadata
begin

text \<open>
  What the pipeline guarantees as a whole: an accepted configuration builds it, cache and metadata stay in step while it
  runs, and it is taken down in the reverse of the order in which it came up.
\<close>

section \<open>Building\<close>


text \<open>A configuration that sets only what has no default.\<close>

definition px_endpoint :: RemoteWriteEndpoint where
  "px_endpoint = \<lparr>rw_URL = ''http://prometheus/write'', rw_Timeout = 0, rw_MaxSamplesPerSend = 0,
     rw_BasicAuth = \<lparr>au_Username = [], au_Password = []\<rparr>\<rparr>"

definition px_app :: Config where
  "px_app = \<lparr>cf_Zabbix = \<lparr>zc_URL = ''http://zabbix'', zc_Username = [], zc_Password = [], zc_APIKey = ''key'', zc_TLSSkipVerify = False,
       zc_RefreshTokenInterval = 0\<rparr>,
     cf_Pull = \<lparr>pl_Enabled = True, pl_Port = 0, pl_Path = [], pl_InternalPath = []\<rparr>,
     cf_Push = \<lparr>ps_Enabled = True, ps_Endpoints = [px_endpoint], ps_Interval = 0, ps_SpreadSlots = 0, ps_PageSize = 0,
       ps_MaxBatchBytes = 0, ps_Workers = 0, ps_QueueCapacity = 0, ps_MaxRetries = 0, ps_RetryBackoff = 0, ps_MaxRetryBackoff = 0\<rparr>,
     cf_Labels = \<lparr>lc_Global = [], lc_Host = [], lc_Item = []\<rparr>,
     cf_Metrics = \<lparr>mf_Filter = \<lparr>fc_Mode = [], fc_Patterns = [''system.*'']\<rparr>, mf_HostGroups = [], mf_HostIPs = [], mf_ValueTypes = []\<rparr>,
     cf_Collector = \<lparr>co_Workers = 0, co_SchedulerQueueCapacity = 0, co_HistoryBatchSize = 0, co_HistoryQueryTimeout = 0,
       co_HistoryMaxLimit = 0, co_QueryOverlap = 0, co_StartupSpreadWindow = 0, co_HistoryQueryConcurrency = 0,
       co_MetadataRefreshInterval = 0, co_MetadataWorkers = 0, co_MetadataBatchHosts = 0, co_MetadataRequestTimeout = 0,
       co_MetadataMinRequestInterval = 0, co_MetadataDelayFallback = 0\<rparr>,
     cf_Cache = \<lparr>ca_Shards = 0, ca_ExpiryTick = 0, ca_ExpiryMaxEntriesPerRun = 0, ca_MissThreshold = 0\<rparr>,
     cf_Log = \<lparr>lg_Level = []\<rparr>\<rparr>"

definition px_parse :: "string \<Rightarrow> go_error + string \<times> string" where "px_parse url = Inr (''http'', ''prometheus'')"

definition px_compile :: "string \<Rightarrow> go_error + (string \<Rightarrow> bool)" where "px_compile p = Inr (\<lambda>s. s = p)"

definition px_client :: Client where
  "px_client = NewAPIKeyClient ''http://zabbix'' ''key'' 0"

lemma px_valid: "load_config (Inr px_app) = Inr (setDefaults px_app)"
proof -
  have "validate (setDefaults px_app) = None" by code_simp
  then show ?thesis by (simp add: load_config_def)
qed


section \<open>Metadata and values\<close>

text \<open>C6: However refreshes, their application, collections, miss marking, expiry and publishing follow each other, every value in
  the cache belongs to an item of the published snapshot that is disabled or still has the definition (the version) the
  value was collected under; only the items of a published difference that has not been applied yet may be otherwise.\<close>

theorem pipeline_cache_synced:
  assumes "pipe_reachable fp pf y" "Load fp (py_values y) k = Some st"
  shows "(case mptr (sn_Items (py_store y)) k of
        None \<Rightarrow> False | Some item \<Rightarrow> im_Version item = vs_MetadataVersion st \<or> \<not> im_Enabled item)
    \<or> (case py_diff y of None \<Rightarrow> False
       | Some result \<Rightarrow> k \<in> set (df_RemovedItems (rr_Diff result)) \<or> k \<in> set (df_ChangedItems (rr_Diff result)))"
proof -
  have "contents fp (py_values y) k = Some (erase st)" using assms(2) by (simp add: Load_contents)
  then have "defined_as (py_store y) k (vs_MetadataVersion (erase st)) \<or> k \<in> due_items (py_diff y)"
    using pipe_reachable_inv [OF assms(1)] unfolding pipe_inv_def entries_defined_def by blast
  then show ?thesis by (auto simp: defined_as_def due_items_def erase_def split: option.splits)
qed

text \<open>One host with one item: a refresh, its application and a collection, then a refresh that no longer sees the item.\<close>

definition px_lib :: Lib where
  "px_lib = \<lparr>lib_decode = (\<lambda>s. None), lib_inventory = (\<lambda>obj. None), lib_number = (\<lambda>s. s), lib_lower = ascii_lower\<rparr>"

definition px_hosts :: "Host list" where
  "px_hosts = [\<lparr>ho_HostID = ''10'', ho_Host = ''db'', ho_Name = ''database'',
     ho_Interfaces = [\<lparr>if_InterfaceID = ''1'', if_IP = ''10.0.0.1'', if_DNS = [], if_Port = ''10050'',
       if_Type = ''1'', if_Main = ''1'', if_UseIP = ''1'', if_Bulk = ''1''\<rparr>],
     ho_Inventory = JObject []\<rparr>]"

definition px_items :: "Item list" where
  "px_items = [\<lparr>it_ItemID = ''101'', it_HostID = ''10'', it_Key = ''cpu'', it_Name = ''cpu'',
     it_Description = [], it_ValueType = ''0'', it_Delay = ''30s'', it_Status = ''0'', it_State = []\<rparr>]"

definition px_refresh :: "Item list \<Rightarrow> Store \<Rightarrow> Store \<times> RefreshResult \<times> go_error option" where
  "px_refresh items store = Refresh px_lib DefaultRefresherConfig 5 (Inr px_hosts) (\<lambda>b. (1, Inr items)) store"

definition px_store1 :: Store where "px_store1 = fst (px_refresh px_items NewStore)"
definition px_result1 :: RefreshResult where "px_result1 = fst (snd (px_refresh px_items NewStore))"
definition px_store2 :: Store where "px_store2 = fst (px_refresh [] px_store1)"
definition px_result2 :: RefreshResult where "px_result2 = fst (snd (px_refresh [] px_store1))"

definition px_batch :: BatchResult where
  "px_batch = ex_batch [''101''] [ex_record ''101'' 1000] (time_Unix 1001 0)"

definition px_cache :: ValueCache where
  "px_cache = fst (ApplyBatch ex_fp ex_parse (Some (\<lambda>i. Some px_store1)) ex_cache0 px_batch (Some px_store1))"

definition px_state :: "Store \<Rightarrow> ValueCache \<Rightarrow> RefreshResult option \<Rightarrow> Scheduler \<Rightarrow> PipeState" where
  "px_state store cache diff sched =
     \<lparr>py_store = store, py_values = cache, py_scheduler = sched, py_started = False, py_diff = diff\<rparr>"

lemma px_refreshed:
  "px_refresh px_items NewStore = (px_store1, px_result1, None)" "px_refresh [] px_store1 = (px_store2, px_result2, None)"
  by code_simp+

lemma px_applied: "applyMetadata ex_fp 5 px_result1 False px_store1 ex_cache0 sched = (ex_cache0, sched)"
proof -
  have "df_RemovedItems (rr_Diff px_result1) = []" "df_ChangedItems (rr_Diff px_result1) = []" by code_simp+
  then show ?thesis by (simp add: applyMetadata_def)
qed

lemma px_pending: "pipe_reachable ex_fp ex_parse (px_state px_store2 px_cache (Some px_result2) sched)"
proof -
  have step: "pipe_reachable ex_fp ex_parse y \<Longrightarrow> pipe_step ex_fp ex_parse y y' \<Longrightarrow> y' = y'' \<Longrightarrow> pipe_reachable ex_fp ex_parse y''" for y y' y''
    using pipe_reachable.onward by blast
  have "pipe_reachable ex_fp ex_parse (px_state NewStore ex_cache0 None sched)"
    unfolding px_state_def by (rule pipe_reachable.initial [OF ex_cache0_new])
  then have "pipe_reachable ex_fp ex_parse (px_state px_store1 ex_cache0 (Some px_result1) sched)"
    by (rule step [OF _ pipe_step.Refreshed]) (use px_refreshed(1) in \<open>simp_all add: px_state_def px_refresh_def\<close>)
  then have "pipe_reachable ex_fp ex_parse (px_state px_store1 ex_cache0 None sched)"
    by (rule step [OF _ pipe_step.Applied]) (use px_applied in \<open>simp_all add: px_state_def\<close>)
  then have "pipe_reachable ex_fp ex_parse (px_state px_store1 px_cache None sched)"
  proof (rule step [OF _ pipe_step.Collected])
    show "batch_ok (py_values (px_state px_store1 ex_cache0 None sched)) px_batch"
      unfolding px_state_def PipeState.select_convs batch_ok_def by code_simp
    show "ApplyBatch ex_fp ex_parse (Some (\<lambda>i. Some (py_store (px_state px_store1 ex_cache0 None sched))))
        (py_values (px_state px_store1 ex_cache0 None sched)) px_batch (Some px_store1)
      = (px_cache, fst (snd (ApplyBatch ex_fp ex_parse (Some (\<lambda>i. Some px_store1)) ex_cache0 px_batch (Some px_store1))),
         snd (snd (ApplyBatch ex_fp ex_parse (Some (\<lambda>i. Some px_store1)) ex_cache0 px_batch (Some px_store1))))"
      by (simp add: px_state_def px_cache_def)
  qed (simp add: px_state_def)
  then show ?thesis
    by (rule step [OF _ pipe_step.Refreshed]) (use px_refreshed(2) in \<open>simp_all add: px_state_def px_refresh_def\<close>)
qed

definition px_scheduler :: Scheduler where
  "px_scheduler = (case NewScheduler True (sd_Scheduler (app_config (setDefaults px_app))) of Inr s \<Rightarrow> s)"

lemma pipeline_cache_synced_witness:
  "case Load ex_fp px_cache ''101'' of
     None \<Rightarrow> False
   | Some st \<Rightarrow> mptr (sn_Items px_store2) ''101'' = None \<and> ''101'' \<in> set (df_RemovedItems (rr_Diff px_result2))"
proof -
  obtain st where st: "Load ex_fp px_cache ''101'' = Some st"
  proof -
    have "Load ex_fp px_cache ''101'' \<noteq> None" by code_simp
    then show thesis using that by blast
  qed
  have gone: "mptr (sn_Items px_store2) ''101'' = None" "df_ChangedItems (rr_Diff px_result2) = []" by code_simp+
  show ?thesis
    using pipeline_cache_synced [OF px_pending [of px_scheduler], of "''101''" st] st gone by (simp add: px_state_def)
qed

section \<open>Coming up and going down\<close>

lemma up_units_take:
  assumes "units_ok h y"
  shows "\<exists>n \<le> length (all_units h). up_units y = take n (all_units h)"
proof -
  define n where "n = (if lf_publish y then 4 else if lf_expiry y then 3 else if lf_scheduler y then 2 else if lf_metadata y then 1 else 0 :: nat)"
  have "n \<le> length (all_units h) \<and> up_units y = take n (all_units h)"
    using assms by (auto simp: units_ok_def n_def up_units_def all_units_def)
  then show ?thesis by blast
qed

lemma down_units_take: "\<exists>m. down_units y = take m (rev (up_units y)) \<and> (lf_stop y = StopOver \<longrightarrow> down_units y = rev (up_units y))"
proof -
  have "\<exists>m. passed (lf_stop y) = take m [UPublisher, UExpiry, UScheduler, UMetadata]"
    by (cases "lf_stop y" rule: passed.cases) (auto intro: exI [of _ 0] exI [of _ 1] exI [of _ 2] exI [of _ 3] exI [of _ 4])
  moreover have "\<exists>m'. filter P (take m xs) = take m' (filter P xs)" for P m and xs :: "unit_name list"
    by (metis append_eq_conv_conj append_take_drop_id filter_append)
  ultimately have "\<exists>m. down_units y = take m (filter (owns y) [UPublisher, UExpiry, UScheduler, UMetadata])"
    unfolding down_units_def by metis
  moreover have "filter (owns y) [UPublisher, UExpiry, UScheduler, UMetadata] = rev (up_units y)"
    unfolding up_units_def rev_filter by simp
  ultimately show ?thesis by (auto simp: down_units_def)
qed

text \<open>C7: However \<^verbatim>\<open>Start\<close>, \<^verbatim>\<open>Stop\<close>, a failing start and cancellations interleave, the units came up in the order metadata,
  scheduler, expiry, publisher, each at most once, and go down in exactly the reverse order of those that came up; when the
  stop is reported done all of them are down, and a pipeline that counts as started and is not being stopped has them all up.\<close>

theorem lifecycle_ordered:
  assumes "life_reachable h y"
  shows "\<exists>n m. lf_events y = map StartedUnit (take n (all_units h)) @ map StoppedUnit (take m (rev (take n (all_units h))))
    \<and> n \<le> length (all_units h) \<and> m \<le> n \<and> (stop_answer y \<noteq> None \<longrightarrow> m = n)
    \<and> (lf_started y \<and> \<not> lf_stopping y \<longrightarrow> n = length (all_units h) \<and> m = 0)"
proof -
  have e: "lf_events y = map StartedUnit (up_units y) @ map StoppedUnit (down_units y)" and u: "units_ok h y" and c: "control_ok y"
    using life_reachable_inv [OF assms] by (simp_all add: life_inv_def events_ok_def)
  obtain n where n: "n \<le> length (all_units h)" "up_units y = take n (all_units h)" using up_units_take [OF u] by blast
  have len: "length (up_units y) = n" using n by simp
  obtain k where k: "down_units y = take k (rev (up_units y))" using down_units_take by blast
  define m where "m = length (down_units y)"
  have m: "down_units y = take m (rev (up_units y))" "m \<le> n" using k len by (auto simp: m_def min_def)
  have over: "m = n" if "stop_answer y \<noteq> None"
  proof -
    have "lf_stop y = StopOver" using that c by (auto simp: stop_answer_def control_ok_def split: if_splits stop_at.splits)
    then show ?thesis using down_units_take [of y] len by (simp add: m_def)
  qed
  have "n = length (all_units h) \<and> m = 0" if on: "lf_started y" "\<not> lf_stopping y"
  proof -
    have "up_units y = all_units h" using u on by (auto simp: units_ok_def owned_upto_def up_units_def all_units_def)
    moreover have "down_units y = []" using c on by (simp add: control_ok_def down_units_def)
    ultimately show ?thesis using len by (simp add: m_def)
  qed
  then show ?thesis using e n m over by metis
qed

text \<open>A pipeline with a publisher that comes up, and is taken down.\<close>

definition px_life :: "bool \<Rightarrow> go_error option \<Rightarrow> stop_at \<Rightarrow> life_event list \<Rightarrow> Life" where
  "px_life up rootErr at events =
     \<lparr>lf_hasPublisher = True, lf_starting = False, lf_started = up, lf_stopping = (at \<noteq> NoStop), lf_startDone = Some True,
      lf_stopDone = (if at = NoStop then None else Some (at = StopOver)), lf_stopErr = None, lf_rootErr = rootErr, lf_metadata = True,
      lf_scheduler = True, lf_running = (at \<in> {NoStop, Awaiting, StopUnit UPublisher, StopUnit UExpiry, StopUnit UScheduler}),
      lf_expiry = True, lf_publish = True, lf_start = Away, lf_stop = at, lf_events = events\<rparr>"

definition px_ups :: "life_event list" where
  "px_ups = map StartedUnit [UMetadata, UScheduler, UExpiry, UPublisher]"

definition px_running :: Life where "px_running = px_life True None NoStop px_ups"

definition px_stopped :: Life where
  "px_stopped = px_life False (Some ContextCanceled) StopOver (px_ups @ map StoppedUnit [UPublisher, UExpiry, UScheduler, UMetadata])"

lemma reachable_start_step: "life_reachable h y \<Longrightarrow> life_reachable h ((start_step err ^^ n) y)"
proof (induction n)
  case (Suc n)
  let ?z = "(start_step err ^^ n) y"
  show ?case
  proof (cases "lf_start ?z = Away")
    case True
    then have "start_step err ?z = ?z" by (simp add: start_step_def)
    then show ?thesis using Suc by simp
  next
    case False
    then show ?thesis using life_reachable.onward [OF Suc.IH [OF Suc.prems] InStart [OF False]] by simp
  qed
qed simp

lemma px_running_reachable: "life_reachable True px_running"
proof -
  let ?y = "(life_init True)\<lparr>lf_starting := True, lf_startDone := Some False, lf_rootErr := None, lf_start := Refreshing\<rparr>"
  have "start_pipeline (Some None) (life_init True) = (?y, True, None)" by (simp add: start_pipeline_def life_init_def)
  then have "life_reachable True ?y" by (rule life_reachable.onward [OF life_reachable.fresh CallStart])
  then have "life_reachable True ((start_step None ^^ 9) ?y)" by (rule reachable_start_step)
  moreover have "(start_step None ^^ 9) ?y = px_running"
    by (simp add: eval_nat_numeral start_step_def check_root_def note_event_def life_init_def px_running_def px_life_def px_ups_def)
  ultimately show ?thesis by simp
qed

lemma px_stopped_reachable: "life_reachable True px_stopped"
proof -
  have "life_reachable True ((stop_step None None ^^ n) (stop_pipeline px_running))" for n
  proof (induction n)
    case 0
    show ?case using life_reachable.onward [OF px_running_reachable CallStop] by simp
  next
    case (Suc n)
    then show ?case using life_reachable.onward [OF Suc InStop] by simp
  qed
  moreover have "(stop_step None None ^^ 6) (stop_pipeline px_running) = px_stopped"
    by (simp add: eval_nat_numeral stop_step_def stop_pipeline_def errors_join_def cancel_root_def note_event_def
        px_running_def px_stopped_def px_life_def px_ups_def)
  ultimately show ?thesis by metis
qed

lemma lifecycle_ordered_witness:
  "\<exists>n m. lf_events px_stopped = map StartedUnit (take n (all_units True)) @ map StoppedUnit (take m (rev (take n (all_units True)))) \<and> m = n
    \<and> lf_events px_stopped = [StartedUnit UMetadata, StartedUnit UScheduler, StartedUnit UExpiry, StartedUnit UPublisher,
        StoppedUnit UPublisher, StoppedUnit UExpiry, StoppedUnit UScheduler, StoppedUnit UMetadata]"
proof -
  have e: "lf_events px_stopped = [StartedUnit UMetadata, StartedUnit UScheduler, StartedUnit UExpiry, StartedUnit UPublisher,
      StoppedUnit UPublisher, StoppedUnit UExpiry, StoppedUnit UScheduler, StoppedUnit UMetadata]"
    and a: "stop_answer px_stopped \<noteq> None" by (simp_all add: px_stopped_def px_life_def px_ups_def stop_answer_def)
  show ?thesis using lifecycle_ordered [OF px_stopped_reachable] e a by metis
qed



text \<open>The readiness endpoint answers 200 only while the server is not shutting down, has a token and a metadata snapshot, and
  every unit of the pipeline is up with none of them taken down and its scheduler running.\<close>

theorem ready_means_up:
  assumes "life_reachable h y" "fst (serve_ready message shuttingDown token (Ready snapshot y)) = 200"
  shows "\<not> shuttingDown \<and> token \<noteq> [] \<and> sn_Version snapshot \<noteq> 0 \<and> lf_running y \<and> lf_events y = map StartedUnit (all_units h)"
proof -
  have r: "\<not> shuttingDown" "token \<noteq> []" "Ready snapshot y = None"
    using assms(2) by (auto simp: serve_ready_def split: if_splits option.splits)
  then have on: "lf_started y" "\<not> lf_stopping y" "sn_Version snapshot \<noteq> 0" "lf_running y" by (auto simp: Ready_def split: if_splits)
  have e: "events_ok y" "units_ok h y" "control_ok y" using life_reachable_inv [OF assms(1)] by (simp_all add: life_inv_def)
  have "up_units y = all_units h" using e(2) on(1) by (auto simp: units_ok_def owned_upto_def up_units_def all_units_def)
  moreover have "down_units y = []" using e(3) on(2) by (simp add: control_ok_def down_units_def)
  ultimately show ?thesis using e(1) on r by (simp add: events_ok_def)
qed

lemma ready_means_up_witness:
  "fst (serve_ready (\<lambda>err. []) False ''token'' (Ready (ex_snapshot\<lparr>sn_CreatedAt := 1\<rparr>) px_running)) = 200 \<and> lf_events px_running = map StartedUnit (all_units True)"
proof -
  have r: "fst (serve_ready (\<lambda>err. []) False ''token'' (Ready (ex_snapshot\<lparr>sn_CreatedAt := 1\<rparr>) px_running)) = 200"
    by (simp add: serve_ready_def Ready_def px_running_def px_life_def ex_snapshot_def time_IsZero_def)
  then show ?thesis using ready_means_up [OF px_running_reachable r] by blast
qed

end
