(* ===== verification/Pipeline_Loops.thy ===== *)
theory Pipeline_Loops
  imports Pipeline_Metadata Pipeline_Config Expiry_Wheel
begin

text \<open>
  The tickers of \<^verbatim>\<open>internal/pipeline/scheduled.go\<close>: what a tick of the metadata, the expiry and the publisher goroutine does, and
  the reader that observes history queries.  The ends of their contexts end a loop between two ticks.
\<close>

section \<open>Metadata\<close>

text \<open>The label of the refresh counter; canceled refreshes are told from failed ones.\<close>

definition has_error :: "go_error \<Rightarrow> go_error option \<Rightarrow> bool" where
  "has_error target err = (case err of None \<Rightarrow> False | Some e \<Rightarrow> error_is (\<lambda>x. x = target) e)"

definition refresh_status :: "go_error option \<Rightarrow> string" where
  "refresh_status err =
     (if err = None then ''success''
      else if has_error ContextCanceled err \<or> has_error ContextDeadlineExceeded err then ''canceled'' else ''error'')"

record MetadataTick =
  mk_now :: time
  mk_hosts :: "go_error + Host list"
  mk_batches :: "string list list \<Rightarrow> nat \<times> (go_error + Item list)"

definition metadata_tick :: "(string \<Rightarrow> 64 word) \<Rightarrow> Lib \<Rightarrow> RefresherConfig \<Rightarrow> MetadataTick \<Rightarrow> PipeState \<Rightarrow> PipeState" where
  "metadata_tick fp lib cfg tick y =
     (case Refresh lib cfg (mk_now tick) (mk_hosts tick) (mk_batches tick) (py_store y) of
        (store, result, Some err) \<Rightarrow> y\<lparr>py_store := store\<rparr>
      | (store, result, None) \<Rightarrow>
          (case applyMetadata fp (mk_now tick) result (py_started y) store (py_values y) (py_scheduler y) of
             (values, scheduler) \<Rightarrow> y\<lparr>py_store := store, py_values := values, py_scheduler := scheduler\<rparr>))"

definition runMetadata :: "(string \<Rightarrow> 64 word) \<Rightarrow> Lib \<Rightarrow> RefresherConfig \<Rightarrow> MetadataTick list \<Rightarrow> PipeState \<Rightarrow> PipeState" where
  "runMetadata fp lib cfg ticks y = fold (metadata_tick fp lib cfg) ticks y"

text \<open>A tick is a refresh followed by its application, or leaves everything as it was.\<close>

lemma Refresh_error: "Refresh lib cfg now getHosts getItemBatches store = (store', result, Some err) \<Longrightarrow> store' = store"
  by (auto simp: Refresh_def Let_def split: sum.splits prod.splits)

lemma metadata_tick_reachable:
  assumes "pipe_reachable fp pf y" "py_diff y = None"
  shows "pipe_reachable fp pf (metadata_tick fp lib cfg tick y) \<and> py_diff (metadata_tick fp lib cfg tick y) = None"
proof -
  obtain store result err where r: "Refresh lib cfg (mk_now tick) (mk_hosts tick) (mk_batches tick) (py_store y) = (store, result, err)"
    by (metis prod_cases3)
  show ?thesis
  proof (cases err)
    case (Some e)
    then have "metadata_tick fp lib cfg tick y = y" using r Refresh_error by (simp add: metadata_tick_def)
    then show ?thesis using assms by simp
  next
    case None
    obtain vals sched where a: "applyMetadata fp (mk_now tick) result (py_started y) store (py_values y) (py_scheduler y) = (vals, sched)"
      by (metis surj_pair)
    let ?z = "y\<lparr>py_store := store, py_diff := Some result\<rparr>"
    have "pipe_reachable fp pf ?z"
      using pipe_reachable.onward [OF assms(1) pipe_step.Refreshed [OF assms(2) r [unfolded None]]] .
    moreover have "pipe_step fp pf ?z (?z\<lparr>py_values := vals, py_scheduler := sched, py_diff := None\<rparr>)"
      by (rule pipe_step.Applied [where result = result]) (use a in simp_all)
    ultimately have "pipe_reachable fp pf (?z\<lparr>py_values := vals, py_scheduler := sched, py_diff := None\<rparr>)"
      by (rule pipe_reachable.onward)
    moreover have "metadata_tick fp lib cfg tick y = ?z\<lparr>py_values := vals, py_scheduler := sched, py_diff := None\<rparr>"
      using r a assms(2) by (simp add: metadata_tick_def None)
    ultimately show ?thesis by simp
  qed
qed

lemma runMetadata_reachable:
  "pipe_reachable fp pf y \<Longrightarrow> py_diff y = None
    \<Longrightarrow> pipe_reachable fp pf (runMetadata fp lib cfg ticks y) \<and> py_diff (runMetadata fp lib cfg ticks y) = None"
proof (induction ticks arbitrary: y)
  case (Cons tick ticks)
  then show ?case using metadata_tick_reachable [OF Cons.prems, of lib cfg tick] by (simp add: runMetadata_def)
qed (simp add: runMetadata_def)

section \<open>Expiry\<close>

text \<open>A tick of the expiry goroutine, with the statistics it reports.\<close>

definition expiry_tick :: "(string \<Rightarrow> 64 word) \<Rightarrow> time \<Rightarrow> ExpiryWheel \<Rightarrow> ValueCache \<Rightarrow> ExpiryWheel \<times> ValueCache \<times> ExpiryResult \<times> ValueCacheStats" where
  "expiry_tick fp now w c =
     (case ExpireDue (\<lambda>c items. DeleteVersioned fp c items DeleteExpired) now w (Some c) of
        (w, Some c, result) \<Rightarrow> (w, c, result, Stats now c now)
      | (w, None, result) \<Rightarrow> (w, c, result, Stats now c now))"

section \<open>Publishing\<close>

text \<open>The slot is a \<^verbatim>\<open>uint16\<close>.\<close>

definition next_slot :: "nat \<Rightarrow> nat \<Rightarrow> nat" where
  "next_slot slots slot = Suc slot mod 2 ^ 16 mod slots"

definition slot_at :: "nat \<Rightarrow> nat \<Rightarrow> nat" where
  "slot_at slots n = (next_slot slots ^^ n) 0"

definition publish_tick :: "ScheduledConfig \<Rightarrow> nat \<Rightarrow> duration" where
  "publish_tick cfg slots = go_div (sd_PublishInterval cfg) (int slots)"

lemma slot_at_mod:
  assumes "1 \<le> slots" "slots \<le> 65535"
  shows "slot_at slots n = n mod slots"
proof (induction n)
  case (Suc n)
  have "n mod slots < slots" using assms(1) by simp
  then have "Suc (n mod slots) mod 2 ^ 16 = Suc (n mod slots)" using assms(2) by simp
  then show ?case using Suc by (simp add: slot_at_def next_slot_def mod_Suc_eq)
qed (simp add: slot_at_def)

lemma publish_tick_bounds:
  assumes "0 \<le> sd_PublishInterval cfg" "sd_PublishInterval cfg < 2 ^ 63" "1 \<le> slots"
  shows "publish_tick cfg slots * int slots \<le> sd_PublishInterval cfg"
    "sd_PublishInterval cfg < (publish_tick cfg slots + 1) * int slots"
proof -
  have d: "publish_tick cfg slots = sd_PublishInterval cfg div int slots"
    using assms by (simp add: publish_tick_def go_div_nonneg)
  have e: "sd_PublishInterval cfg = sd_PublishInterval cfg div int slots * int slots + sd_PublishInterval cfg mod int slots"
    by simp
  have m: "0 \<le> sd_PublishInterval cfg mod int slots" "sd_PublishInterval cfg mod int slots < int slots" using assms(3) by simp_all
  show "publish_tick cfg slots * int slots \<le> sd_PublishInterval cfg" using e m(1) unfolding d by linarith
  show "sd_PublishInterval cfg < (publish_tick cfg slots + 1) * int slots" using e m(2) unfolding d distrib_right by linarith
qed

section \<open>Observed history queries\<close>

definition historyMetricStatus :: "BatchResult \<Rightarrow> go_error option \<Rightarrow> string" where
  "historyMetricStatus result requestErr =
     (if has_error ContextDeadlineExceeded requestErr \<or> has_error ContextDeadlineExceeded (br_Err result) then ''timeout''
      else if has_error ContextCanceled requestErr \<or> has_error ContextCanceled (br_Err result) then ''canceled''
      else BatchStatus_String (br_Status result))"

text \<open>\<open>waiting\<close> is the error of the caller's context if it ends before a slot of the semaphore is free; otherwise the query runs
  under a context with the query timeout, and \<open>run\<close> gives its result and that context's error.\<close>

definition observed_QueryHistoryBatch :: "go_error option \<Rightarrow> (HistoryQuery \<Rightarrow> BatchResult \<times> go_error option) \<Rightarrow> time \<Rightarrow> time
    \<Rightarrow> HistoryQuery \<Rightarrow> BatchResult \<times> string" where
  "observed_QueryHistoryBatch waiting run started finished query =
     (case waiting of
        Some err \<Rightarrow>
          (let result = \<lparr>br_Query = query, br_Status = BatchAPIError, br_Records = [], br_Latest = None, br_Returned = 0, br_LimitHit = False,
                         br_StartedAt = started, br_FinishedAt = finished, br_Err = Some err\<rparr>
           in (result, historyMetricStatus result (Some err)))
      | None \<Rightarrow> (case run query of (result, requestErr) \<Rightarrow> (result, historyMetricStatus result requestErr)))"

text \<open>The labels are a fixed set, and a query that got no slot is labelled by why its context ended.\<close>

lemma observed_labels:
  "snd (observed_QueryHistoryBatch waiting run started finished query)
   \<in> {''timeout'', ''canceled'', ''success'', ''empty'', ''possibly_truncated'', ''api_error'', ''decode_error''}"
proof -
  have "BatchStatus_String st \<in> {''success'', ''empty'', ''possibly_truncated'', ''api_error'', ''decode_error''}" for st
    by (cases st) simp_all
  then show ?thesis
    by (auto simp: observed_QueryHistoryBatch_def historyMetricStatus_def Let_def split: option.splits prod.splits)
qed

text \<open>The semaphore is a channel with room for \<open>capacity\<close> tokens.  Queries wait, run while they hold a token, and give it back.\<close>

record QueryGate =
  qg_tokens :: nat
  qg_waiting :: "HistoryQuery list"
  qg_running :: "HistoryQuery list"

definition gate_enter :: "HistoryQuery \<Rightarrow> QueryGate \<Rightarrow> QueryGate" where
  "gate_enter query g = g\<lparr>qg_waiting := qg_waiting g @ [query]\<rparr>"

definition gate_acquire :: "nat \<Rightarrow> HistoryQuery \<Rightarrow> QueryGate \<Rightarrow> QueryGate option" where
  "gate_acquire capacity query g =
     (if qg_tokens g < capacity
      then Some (g\<lparr>qg_tokens := Suc (qg_tokens g), qg_waiting := remove1 query (qg_waiting g), qg_running := query # qg_running g\<rparr>)
      else None)"

definition gate_give_up :: "HistoryQuery \<Rightarrow> QueryGate \<Rightarrow> QueryGate" where
  "gate_give_up query g = g\<lparr>qg_waiting := remove1 query (qg_waiting g)\<rparr>"

definition gate_release :: "HistoryQuery \<Rightarrow> QueryGate \<Rightarrow> QueryGate" where
  "gate_release query g = g\<lparr>qg_tokens := qg_tokens g - 1, qg_running := remove1 query (qg_running g)\<rparr>"

inductive gate_reachable :: "nat \<Rightarrow> QueryGate \<Rightarrow> bool" for capacity where
  open_gate: "gate_reachable capacity \<lparr>qg_tokens = 0, qg_waiting = [], qg_running = []\<rparr>"
| enter: "gate_reachable capacity g \<Longrightarrow> gate_reachable capacity (gate_enter query g)"
| acquire: "gate_reachable capacity g \<Longrightarrow> query \<in> set (qg_waiting g) \<Longrightarrow> gate_acquire capacity query g = Some g' \<Longrightarrow> gate_reachable capacity g'"
| give_up: "gate_reachable capacity g \<Longrightarrow> query \<in> set (qg_waiting g) \<Longrightarrow> gate_reachable capacity (gate_give_up query g)"
| release: "gate_reachable capacity g \<Longrightarrow> query \<in> set (qg_running g) \<Longrightarrow> gate_reachable capacity (gate_release query g)"

text \<open>No more queries run than the configured concurrency, and a query can start whenever fewer do.\<close>

lemma gate_bounded:
  assumes "gate_reachable capacity g"
  shows "qg_tokens g = length (qg_running g) \<and> length (qg_running g) \<le> capacity"
  using assms
proof (induction rule: gate_reachable.induct)
  case (acquire g query g')
  then show ?case by (auto simp: gate_acquire_def split: if_splits)
next
  case (release g query)
  then show ?case by (auto simp: gate_release_def length_remove1)
qed (simp_all add: gate_enter_def gate_give_up_def)

lemma gate_admits:
  assumes "gate_reachable capacity g" "length (qg_running g) < capacity"
  shows "gate_acquire capacity query g \<noteq> None"
  using gate_bounded [OF assms(1)] assms(2) by (simp add: gate_acquire_def)

end
