(* ===== verification/Server_Properties.thy ===== *)
theory Server_Properties
  imports Pipeline_Loops Pipeline_Properties Scrape_Exporter Client_Properties
begin

text \<open>
  \<^verbatim>\<open>run\<close> of \<^verbatim>\<open>cmd/server/main.go\<close>: what the process starts, in which order, and what it stops on each way out.  What the
  parts answer is in \<open>RunEnv\<close>; building the pipeline and the exporter is computed.  Whatever \<^verbatim>\<open>run\<close> started is stopped on its
  way out, and a round of the publisher covers the cache within the push interval.
\<close>

definition main_client :: "Config \<Rightarrow> time \<Rightarrow> Client" where
  "main_client cfg now =
     (let z = cf_Zabbix cfg in
      if zc_APIKey z \<noteq> [] then NewAPIKeyClientWithTLS (zc_URL z) (zc_APIKey z) (zc_TLSSkipVerify z) now
      else NewClientWithTLS (zc_URL z) (zc_Username z) (zc_Password z) (zc_TLSSkipVerify z))"

definition main_manager :: "Config \<Rightarrow> TokenManager" where
  "main_manager cfg = NewTokenManager (dmul (zc_RefreshTokenInterval (cf_Zabbix cfg)) Second) (5 * Minute)"

datatype server_call =
    CallTokenStart
  | CallPipelineStart
  | CallRegister
  | CallListen
  | CallShuttingDown
  | CallServerShutdown
  | CallPipelineStop
  | CallTokenStop

text \<open>\<open>re_rootDone\<close> says at which of the checks the root context has ended, \<open>re_signal\<close> whether a signal ended it, \<open>re_serverErr\<close> what
  the HTTP server failed with, if it is what \<^verbatim>\<open>select\<close> sees.\<close>

record RunEnv =
  re_now :: time
  re_tokenStart :: "go_error option"
  re_tokenStop :: "go_error option"
  re_pipelineStart :: "go_error option"
  re_pipelineStop :: "go_error option"
  re_register :: "go_error option"
  re_serverErr :: "go_error option"
  re_serverShutdown :: "go_error option"
  re_rootDoneTokenFailed :: bool
  re_rootDoneToken :: bool
  re_rootDonePipeline :: bool
  re_signal :: bool
  re_parentErr :: "go_error option"

definition startupCancellationError :: "RunEnv \<Rightarrow> go_error option" where
  "startupCancellationError e = (if re_signal e then None else re_parentErr e)"

text \<open>From the listening server to the end.\<close>

definition serve_and_stop :: "RunEnv \<Rightarrow> server_call list \<Rightarrow> server_call list \<times> go_error option" where
  "serve_and_stop e calls =
     (let runErr = (case re_serverErr e of None \<Rightarrow> startupCancellationError e | Some err \<Rightarrow> Some (WrappedError ''HTTP server'' err));
          shutdownErr = errors_join [None, re_serverShutdown e];
          shutdownErr = errors_join [shutdownErr, re_pipelineStop e];
          shutdownErr = errors_join [shutdownErr, re_tokenStop e]
      in (calls @ [CallListen, CallShuttingDown, CallServerShutdown, CallPipelineStop, CallTokenStop], errors_join [runErr, shutdownErr]))"

definition run_server :: "(string \<Rightarrow> go_error + string \<times> string) \<Rightarrow> (string \<Rightarrow> go_error + (string \<Rightarrow> bool)) \<Rightarrow> RunEnv \<Rightarrow> Config
    \<Rightarrow> server_call list \<times> go_error option" where
  "run_server parse compile e cfg =
     (case re_tokenStart e of
        Some err \<Rightarrow>
          ([CallTokenStart], if re_rootDoneTokenFailed e then startupCancellationError e else Some (WrappedError ''start token manager'' err))
      | None \<Rightarrow>
     (if re_rootDoneToken e then ([CallTokenStart, CallTokenStop], errors_join [startupCancellationError e, re_tokenStop e])
      else
     (case NewScheduledFromApp parse compile (Some (main_client cfg (re_now e))) (Some cfg) of
        Inl err \<Rightarrow> ([CallTokenStart, CallTokenStop], Some (WrappedError ''create scheduled pipeline'' err))
      | Inr pipeline \<Rightarrow>
     (case re_pipelineStart e of
        Some err \<Rightarrow>
          (let cleanupErr = errors_join [re_pipelineStop e, re_tokenStop e] in
           ([CallTokenStart, CallPipelineStart, CallPipelineStop, CallTokenStop],
            if re_rootDonePipeline e then errors_join [startupCancellationError e, cleanupErr]
            else errors_join [Some (WrappedError ''start scheduled pipeline'' err), cleanupErr]))
      | None \<Rightarrow>
     (case NewValueExporter True True (ps_PageSize (cf_Push cfg)) of
        Inl err \<Rightarrow>
          ([CallTokenStart, CallPipelineStart, CallPipelineStop, CallTokenStop], Some (WrappedError ''create scheduled exporter'' err))
      | Inr exporter \<Rightarrow>
     (case re_register e of
        Some err \<Rightarrow> ([CallTokenStart, CallPipelineStart, CallRegister], Some (WrappedError ''register business exporter'' err))
      | None \<Rightarrow> serve_and_stop e [CallTokenStart, CallPipelineStart, CallRegister]))))))"

section \<open>Laws\<close>

lemma errors_join_pair: "errors_join [a, b] = None \<longleftrightarrow> a = None \<and> b = None"
  by (auto simp: errors_join_None_iff)

lemma accepted_page_size:
  assumes "validate app = None"
  shows "\<exists>e. NewValueExporter True True (ps_PageSize (cf_Push app)) = Inr e"
  using validate_parts(1) [OF assms] by (auto simp: push_guards_def NewValueExporter_def Let_def)

section \<open>Rounds of the publisher\<close>

lemma built_pipeline:
  assumes "NewScheduledFromApp parse compile client (Some app) = Inr (reader, p)" "validate app = None"
  shows "NewScheduled parse True True (app_config app) = Inr p"
  using assms app_config_parts(1) [OF assms(2)]
  by (auto simp: NewScheduledFromApp_def map_sum_def split: option.splits sum.splits)

lemma built_parts:
  assumes "NewScheduled parse a b cfg = Inr p"
  shows "pi_config p = scheduled_defaults cfg" "NewValueCache ((sd_ValueCache cfg)\<lparr>cc_hasRegistrar := True\<rparr>) = Inr (pi_values p)"
proof -
  have "sd_ValueCache (scheduled_defaults cfg) = sd_ValueCache cfg" by (simp add: scheduled_defaults_def)
  then show "pi_config p = scheduled_defaults cfg" "NewValueCache ((sd_ValueCache cfg)\<lparr>cc_hasRegistrar := True\<rparr>) = Inr (pi_values p)"
    using assms by (auto simp: NewScheduled_def Let_def split: if_splits option.splits sum.splits)
qed


lemma px_pipeline:
  "\<exists>reader p. NewScheduledFromApp px_parse px_compile (Some px_client) (Some (setDefaults px_app)) = Inr (reader, p)
    \<and> vc_publishSlots (pi_values p) = 12"
proof -
  have e: "ps_SpreadSlots (cf_Push (setDefaults px_app)) = 12" "ps_Interval (cf_Push (setDefaults px_app)) = 60" by code_simp+
  have "list_all (\<lambda>p. \<not> isl (px_compile p)) (fc_Patterns (mf_Filter (cf_Metrics (setDefaults px_app))))"
    "list_all (endpoint_ok px_parse) (ps_Endpoints (cf_Push (setDefaults px_app)))"
    by (simp_all add: list_all_iff px_compile_def px_parse_def endpoint_ok_def)
  from accepted_pipeline [OF px_valid this, of px_client] show ?thesis using e by auto
qed


section \<open>Ways out\<close>

definition is_stop :: "server_call \<Rightarrow> bool" where
  "is_stop call \<longleftrightarrow> call = CallPipelineStop \<or> call = CallTokenStop"


text \<open>A run that a signal ends while it serves.\<close>

definition sx_env :: RunEnv where
  "sx_env = \<lparr>re_now = 0, re_tokenStart = None, re_tokenStop = None, re_pipelineStart = None, re_pipelineStop = None, re_register = None,
     re_serverErr = None, re_serverShutdown = None, re_rootDoneTokenFailed = False, re_rootDoneToken = False, re_rootDonePipeline = False,
     re_signal = True, re_parentErr = None\<rparr>"


section \<open>The interval of the token checks\<close>

text \<open>The advance is fixed to five minutes while the interval of the checks is configured, and \<^verbatim>\<open>validate\<close> accepts every positive one.
  With an interval above the advance the token expires between two checks though every login would work: here checks every
  4000 seconds, of which the sixth finds no reason to refresh and the seventh an expired token.\<close>

lemma long_interval_expires:
  "main_manager (px_app\<lparr>cf_Zabbix := (cf_Zabbix px_app)\<lparr>zc_RefreshTokenInterval := 4000\<rparr>\<rparr>)
     = \<lparr>tm_refreshInterval = 4000 * Second, tm_refreshAdvance = 300 * Second\<rparr>
   \<and> zabbix_guards ((cf_Zabbix px_app)\<lparr>zc_RefreshTokenInterval := 4000\<rparr>) = zabbix_guards ((cf_Zabbix px_app)\<lparr>zc_RefreshTokenInterval := 300\<rparr>)
   \<and> list_all (tick_works ex_client) (map (\<lambda>i. ex_tick (int i * 4000 * Second)) [1..<7])
   \<and> token_IsExpired (6 * 4000 * Second + 1300 * Second) (cl_token (runRefreshLoop \<lparr>tm_refreshInterval = 4000 * Second,
       tm_refreshAdvance = 300 * Second\<rparr> (map (\<lambda>i. ex_tick (int i * 4000 * Second)) [1..<7]) ex_client))"
proof (intro conjI)
  show "main_manager (px_app\<lparr>cf_Zabbix := (cf_Zabbix px_app)\<lparr>zc_RefreshTokenInterval := 4000\<rparr>\<rparr>)
     = \<lparr>tm_refreshInterval = 4000 * Second, tm_refreshAdvance = 300 * Second\<rparr>" by code_simp
  show "zabbix_guards ((cf_Zabbix px_app)\<lparr>zc_RefreshTokenInterval := 4000\<rparr>) = zabbix_guards ((cf_Zabbix px_app)\<lparr>zc_RefreshTokenInterval := 300\<rparr>)"
    by (simp add: zabbix_guards_def)
qed code_simp+

end
