(* ===== verification/Spec2Isabelle.thy ===== *)
theory Spec2Isabelle
  imports Cache_Properties Expiry_Properties Group_Properties Scheduling_Outcomes Collector_Properties Metadata_Properties
    Slot_Properties Delivery_Properties Scrape_Exporter Client_Properties App_Properties Pipeline_Properties
    Server_Properties
begin

text \<open>
  A model of \<^verbatim>\<open>zabbix-exporter\<close>, a daemon that collects item values from a Zabbix server and offers them
  to Prometheus.

  The program.  A metadata refresher (\<^verbatim>\<open>internal/metadata\<close>) asks the server for hosts and items, builds a
  snapshot of their definitions and publishes it in a store, where unchanged definitions keep their version.
  The scheduler (\<^verbatim>\<open>internal/scheduler\<close>) groups the items of a snapshot by host, value type and delay, plans
  the groups on a heap and hands due groups to workers.  The collector (\<^verbatim>\<open>internal/collector\<close>) turns a group
  run into history queries (\<^verbatim>\<open>internal/zabbix\<close>), splits truncated ones, and writes the latest values into
  a sharded cache (\<^verbatim>\<open>internal/cache\<close>), whose expiry wheel drops values that were not renewed.  The streaming
  publisher (\<^verbatim>\<open>internal/promwrap\<close>) reads a slot of the cache page by page, encodes the values into bounded
  Remote Write requests and hands them to workers through a bounded queue of lanes.

  Foundations.  \<open>Prelude\<close>, \<open>Go_Time\<close>, \<open>Go_Errors\<close>, \<open>Go_Lists\<close>, \<open>Go_Strings\<close>, \<open>Go_Text\<close> and \<open>Go_Heap\<close>
  hold what the source uses of Go: maps as association lists (\<open>gomap\<close>, whose order is the iteration
  order), durations as \<^verbatim>\<open>int64\<close> nanoseconds with wrapping arithmetic, errors, slices cut into chunks, number
  formatting and parsing, string functions and \<^verbatim>\<open>container/heap\<close>.

  Cache.  \<open>Cache_Types\<close>, \<open>Value_State\<close>, \<open>Value_Shard\<close>, \<open>Value_Cache\<close> and \<open>Cache_Operations\<close> are
  \<^verbatim>\<open>value_cache.go\<close>, \<^verbatim>\<open>shard.go\<close> and \<^verbatim>\<open>value_state.go\<close>; \<open>Cache_Invariant\<close>, \<open>Cache_Actions\<close>, \<open>Cache_Laws\<close>,
  \<open>Cache_Apply\<close>, \<open>Cache_Reach\<close> and \<open>Cache_Paging\<close> prove the invariant of reachable caches, what a batch
  does to each entry and that paging is complete.  \<open>Expiry_Wheel\<close> is \<^verbatim>\<open>expiry_wheel.go\<close>; \<open>Cache_Expiry\<close>
  joins wheel and cache.  Their properties are in \<open>Cache_Properties\<close> and \<open>Expiry_Properties\<close>.

  Scheduler.  \<open>Group_Builder\<close> is \<^verbatim>\<open>group.go\<close> (laws in \<open>Group_Laws\<close>, properties in \<open>Group_Properties\<close>).
  \<open>Scheduling\<close> is \<^verbatim>\<open>scheduler.go\<close> with its plan heap, \<open>Scheduling_System\<close> the interleaving of dispatcher,
  workers and replacements as a step relation (\<^verbatim>\<open>worker_pool.go\<close>); \<open>Plan_Times\<close>, \<open>Scheduling_Heap\<close>,
  \<open>Scheduling_Steps\<close> and \<open>Scheduling_Refine\<close> prove the heap invariant, the cadence and the refinement of an
  abstract plan.  The properties are in \<open>Scheduling_Properties\<close> and \<open>Scheduling_Outcomes\<close>.

  Collector.  \<open>Zabbix_Types\<close> and \<open>Zabbix_History\<close> are the data types and the history reduction of
  \<^verbatim>\<open>internal/zabbix\<close>, \<open>Group_Collector\<close> is \<^verbatim>\<open>group_collector.go\<close>; \<open>Collector_Laws\<close> and
  \<open>Collector_Batches\<close> prove what a splitting query covers and costs and how watermarks move.

  Metadata.  \<open>Delay_Parsing\<close> is \<^verbatim>\<open>delay.go\<close>, \<open>Metadata_Labels\<close> and \<open>Metadata_Builder\<close> are \<^verbatim>\<open>builder.go\<close>,
  \<open>Metadata_Store\<close> is \<^verbatim>\<open>cache.go\<close>, \<open>Metadata_Refresher\<close> is \<^verbatim>\<open>refresher.go\<close> with the concurrent item
  batches as a step relation, \<open>App_Config\<close> is \<^verbatim>\<open>internal/config/config.go\<close>.  \<open>Metadata_Snapshot\<close> states what a
  snapshot promises (\<open>snapshot_wf\<close>) and that the builder keeps it, \<open>Metadata_Versions\<close> that definition
  versions identify definitions through the life of a store, \<open>Refresh_Laws\<close> that a refresh is complete
  under every interleaving and never stuck, \<open>Group_Agreement\<close> that builder and scheduler group alike.

  Publisher.  \<open>Host_Series\<close> is \<^verbatim>\<open>metadata/host_series.go\<close>, \<open>Remote_Write\<close> is \<^verbatim>\<open>batch_encoder.go\<close> and the delivery
  half of \<^verbatim>\<open>push_worker.go\<close>, \<open>Lane_Queue\<close> its queue half, \<open>Publisher\<close> and \<open>Publish_Cycle\<close> are \<^verbatim>\<open>publisher.go\<close>.
  \<open>Remote_Write_Laws\<close>, \<open>Publisher_Laws\<close>, \<open>Page_Laws\<close>, \<open>Host_Laws\<close>, \<open>Cycle_Laws\<close> and \<open>Slot_Laws\<close> carry the
  bookkeeping of reserved keys and pending batches through every operation; \<open>Publisher_System\<close> lets slots and
  workers interleave and proves the invariant of all reachable states.  \<open>Publisher_Properties\<close>, \<open>Slot_Properties\<close>
  (with the composition of publisher and value cache) and \<open>Delivery_Properties\<close> state the results.

  Client.  \<open>Json_Decoding\<close> is what the source uses of \<^verbatim>\<open>encoding/json\<close>; \<open>Zabbix_Client\<close> is
  \<^verbatim>\<open>client.go\<close> and the query half of \<^verbatim>\<open>history.go\<close>, \<open>Token_Manager\<close> is \<^verbatim>\<open>token.go\<close>, its refresh loop as a fold over
  ticks and its starts and stops as a step relation.  \<open>Client_Properties\<close> proves that replies are read back as what
  the server encoded and that the token stays fresh.

  Reader and exporter.  \<open>App_Reader\<close> is \<^verbatim>\<open>filter.go\<close> and the reader of \<^verbatim>\<open>pipeline/app.go\<close> between client and refresher
  (\<open>App_Properties\<close>); \<open>Scrape_Exporter\<close> is \<^verbatim>\<open>prometheus/exporter/exporter.go\<close> over the cache's scrape pages,
  with its property.

  Pipeline.  \<open>Pipeline_Config\<close> builds everything from the application's configuration, \<open>Pipeline_Metadata\<close> applies a
  refresh to cache and scheduler and lets refreshes, collections and upkeep follow each other on the cache,
  \<open>Pipeline_Loops\<close> holds the ticks of its goroutines and the observed history reader, \<open>Pipeline_Life\<close> the start and
  the stop of \<^verbatim>\<open>scheduled.go\<close> and the readiness check of \<^verbatim>\<open>main.go\<close>.
  \<open>Pipeline_Properties\<close> states that accepted configurations build, that values and metadata stay in step, and in
  which order the parts come up and go down, \<open>Server_Properties\<close>, which holds
  the process's \<^verbatim>\<open>run\<close>, that publisher rounds cover the cache in the push
  interval and that the process stops what it started.

  Bounds and fuel.  \<open>query_history\<close> recurses on the items of a query, which halve; \<open>extract_fields\<close> has the
  length of the outermost text as fuel, which \<open>extractInventoryFields_fuel\<close> shows to be enough;
  \<open>retry_loop\<close> and the page scans end by measures; the page loop of \<open>PublishSlot\<close> has fuel, and one page more than the
  cache has entries is enough, as for the page loop of the scrape exporter.  Paging properties give the number of pages as a bound.

  Parameters.  Library code with large tables or I/O is an argument: the value fingerprint and the number
  parser of the cache, the reader and clock of the collector (\<open>Env\<close>), JSON decoding, number formatting and
  Unicode lower-casing of the metadata builder (\<open>Lib\<close>), the server's answers of a refresh (\<open>reply\<close>), the wire format
  (\<open>Wire\<close>), the name rules of Prometheus (\<open>Names\<close>), the HTTP exchange and the waits of a delivery, the exchange and
  the JSON texts of the Zabbix client (\<open>Net\<close>, \<open>Codec\<close>), regular expressions (\<open>compile\<close>) and URLs (\<open>parse\<close>).

  Not modelled: the timers of the tickers, and the refresher's own loop, which the pipeline replaces by its own;
  the TLS transport; the routes of the HTTP server, signals and flags of \<^verbatim>\<open>main.go\<close>; logging and the
  metrics counters, which are library calls without state of their own.  A cache deletion that falls between two
  shards of a running batch is not among the runs of \<open>Pipeline_Metadata\<close>; a publication that does is.
\<close>

end
